(* ===== verification/Scribe_Prelude.thy ===== *)
theory Scribe_Prelude
  imports Main "HOL-Library.Word"
begin

text \<open>
  The prelude of the Scribe development: the text type that stands for Rust's \<open>str\<close>, the
  standard-library functions on it that the sources call, decimal printing and parsing, keyed
  tables, the step-system interface, and the generic lemmas the components share.

  Rust text is a list of Unicode scalar values (\<open>rstr\<close>), so that \<open>chars().count()\<close> is
  \<^const>\<open>length\<close>; a source literal \<^verbatim>\<open>"abc"\<close> is written \<open>lit ''abc''\<close>.
\<close>

section \<open>Text\<close>

type_synonym codepoint = nat
type_synonym rstr = "codepoint list"

text \<open>The collection that evaluates closed texts.\<close>

named_theorems text_defs \<open>definitions of the text functions, for evaluating closed terms\<close>

definition lit :: "string \<Rightarrow> rstr" where
  "lit s = map of_char s"

abbreviation ch :: "char \<Rightarrow> codepoint" where
  "ch c \<equiv> of_char c"

lemma lit_Nil [simp]: "lit [] = []"
  by (simp add: lit_def)

lemma lit_Cons [simp]: "lit (c # s) = ch c # lit s"
  by (simp add: lit_def)

lemma lit_inject [simp]: "lit s = lit t \<longleftrightarrow> s = t"
  unfolding lit_def by (rule inj_map_eq_map) (simp add: inj_def)

text \<open>\<open>char::is_whitespace\<close>: the Unicode \<open>White_Space\<close> property.\<close>

definition is_ws :: "codepoint \<Rightarrow> bool" where
  "is_ws c \<longleftrightarrow> (9 \<le> c \<and> c \<le> 13) \<or> c = 32 \<or> c = 133 \<or> c = 160 \<or> c = 5760
     \<or> (8192 \<le> c \<and> c \<le> 8202) \<or> c = 8232 \<or> c = 8233 \<or> c = 8239 \<or> c = 8287 \<or> c = 12288"

text \<open>\<open>str::trim_start_matches\<close>, \<open>trim_end_matches\<close> and \<open>trim_matches\<close> with a predicate.\<close>

definition trim_start_matches :: "(codepoint \<Rightarrow> bool) \<Rightarrow> rstr \<Rightarrow> rstr" where
  "trim_start_matches P s = dropWhile P s"

definition trim_end_matches :: "(codepoint \<Rightarrow> bool) \<Rightarrow> rstr \<Rightarrow> rstr" where
  "trim_end_matches P s = rev (dropWhile P (rev s))"

definition trim_matches :: "(codepoint \<Rightarrow> bool) \<Rightarrow> rstr \<Rightarrow> rstr" where
  "trim_matches P s = trim_end_matches P (trim_start_matches P s)"

definition trim :: "rstr \<Rightarrow> rstr" where
  "trim s = trim_matches is_ws s"

definition trim_end :: "rstr \<Rightarrow> rstr" where
  "trim_end s = trim_end_matches is_ws s"

text \<open>\<open>to_ascii_lowercase\<close> and \<open>eq_ignore_ascii_case\<close>.\<close>

definition ascii_lower_char :: "codepoint \<Rightarrow> codepoint" where
  "ascii_lower_char c = (if 65 \<le> c \<and> c \<le> 90 then c + 32 else c)"

definition to_ascii_lowercase :: "rstr \<Rightarrow> rstr" where
  "to_ascii_lowercase s = map ascii_lower_char s"

definition eq_ignore_ascii_case :: "rstr \<Rightarrow> rstr \<Rightarrow> bool" where
  "eq_ignore_ascii_case a b \<longleftrightarrow> to_ascii_lowercase a = to_ascii_lowercase b"

text \<open>\<open>strip_prefix\<close>, \<open>split_once\<close> on one character, and the first piece of \<open>split\<close>.\<close>

fun strip_prefix :: "rstr \<Rightarrow> rstr \<Rightarrow> rstr option" where
  "strip_prefix [] s = Some s"
| "strip_prefix (p # ps) [] = None"
| "strip_prefix (p # ps) (c # s) = (if p = c then strip_prefix ps s else None)"

fun split_once :: "codepoint \<Rightarrow> rstr \<Rightarrow> (rstr \<times> rstr) option" where
  "split_once d [] = None"
| "split_once d (c # s) =
     (if c = d then Some ([], s)
      else (case split_once d s of None \<Rightarrow> None | Some (a, b) \<Rightarrow> Some (c # a, b)))"

definition split_first :: "codepoint \<Rightarrow> rstr \<Rightarrow> rstr" where
  "split_first d s = takeWhile (\<lambda>c. c \<noteq> d) s"

text \<open>\<open>str::split_whitespace\<close>.\<close>

fun ws_fields :: "rstr \<Rightarrow> rstr \<Rightarrow> rstr list" where
  "ws_fields cur [] = (if cur = [] then [] else [cur])"
| "ws_fields cur (c # cs) =
     (if is_ws c then (if cur = [] then [] else [cur]) @ ws_fields [] cs else ws_fields (cur @ [c]) cs)"

definition split_whitespace :: "rstr \<Rightarrow> rstr list" where
  "split_whitespace s = ws_fields [] s"

text \<open>\<open>[T]::join\<close>.\<close>

fun join :: "rstr \<Rightarrow> rstr list \<Rightarrow> rstr" where
  "join sep [] = []"
| "join sep [x] = x"
| "join sep (x # y # ys) = x @ sep @ join sep (y # ys)"

lemmas text_eval [text_defs] =
  lit_def is_ws_def trim_start_matches_def trim_end_matches_def trim_matches_def trim_def
  trim_end_def ascii_lower_char_def to_ascii_lowercase_def eq_ignore_ascii_case_def
  split_first_def

subsection \<open>Trimming\<close>

lemma trim_end_matches_Nil_iff [simp]: "trim_end_matches P s = [] \<longleftrightarrow> (\<forall>c \<in> set s. P c)"
  by (auto simp: trim_end_matches_def)

lemma set_dropWhile_all: "(\<forall>c \<in> set (dropWhile P s). P c) \<longleftrightarrow> (\<forall>c \<in> set s. P c)"
proof
  assume all: "\<forall>c \<in> set (dropWhile P s). P c"
  show "\<forall>c \<in> set s. P c"
  proof (cases "dropWhile P s")
    case Nil
    then show ?thesis by (simp add: dropWhile_eq_Nil_conv)
  next
    case (Cons c cs)
    then have "\<not> P c" by (metis hd_dropWhile list.distinct(1) list.sel(1))
    moreover have "P c" using all Cons by simp
    ultimately show ?thesis by simp
  qed
qed (auto dest: set_dropWhileD)

lemma trim_matches_Nil_iff: "trim_matches P s = [] \<longleftrightarrow> (\<forall>c \<in> set s. P c)"
  by (simp add: trim_matches_def trim_start_matches_def set_dropWhile_all)

lemma trim_Nil_iff: "trim s = [] \<longleftrightarrow> (\<forall>c \<in> set s. is_ws c)"
  by (simp add: trim_def trim_matches_Nil_iff)

lemma trim_end_matches_last: "trim_end_matches P s \<noteq> [] \<Longrightarrow> \<not> P (last (trim_end_matches P s))"
  unfolding trim_end_matches_def
  by (metis hd_dropWhile last_rev rev_is_Nil_conv)

lemma trim_end_matches_id: "s = [] \<or> \<not> P (last s) \<Longrightarrow> trim_end_matches P s = s"
proof (cases s rule: rev_cases)
  case Nil
  then show ?thesis by (simp add: trim_end_matches_def)
next
  case (snoc ys y)
  assume "s = [] \<or> \<not> P (last s)"
  then show ?thesis using snoc by (simp add: trim_end_matches_def)
qed

lemma trim_end_matches_idem [simp]:
  "trim_end_matches P (trim_end_matches P s) = trim_end_matches P s"
  using trim_end_matches_last [of P s] by (blast intro: trim_end_matches_id)

lemma trim_end_matches_prefix: "\<exists>t. s = trim_end_matches P s @ t \<and> (\<forall>c \<in> set t. P c)"
proof -
  have "rev s = takeWhile P (rev s) @ dropWhile P (rev s)" by simp
  then have "s = rev (dropWhile P (rev s)) @ rev (takeWhile P (rev s))"
    by (metis rev_append rev_rev_ident)
  then show ?thesis unfolding trim_end_matches_def by (force dest: set_takeWhileD)
qed

lemma trim_end_matches_hd:
  assumes "trim_end_matches P s \<noteq> []"
  shows "hd (trim_end_matches P s) = hd s"
proof -
  obtain t where "s = trim_end_matches P s @ t" using trim_end_matches_prefix by blast
  then show ?thesis using assms by (metis hd_append2)
qed

lemma trim_start_matches_idem_after:
  "trim_start_matches P (trim_end_matches P (trim_start_matches P s)) =
     trim_end_matches P (trim_start_matches P s)"
proof (cases "trim_end_matches P (trim_start_matches P s) = []")
  case True
  then show ?thesis unfolding True by (simp add: trim_start_matches_def)
next
  case False
  let ?u = "trim_end_matches P (trim_start_matches P s)"
  have "hd ?u = hd (trim_start_matches P s)"
    using False by (rule trim_end_matches_hd)
  moreover have "trim_start_matches P s \<noteq> []"
    using False by (auto simp: trim_end_matches_def)
  ultimately have "\<not> P (hd ?u)"
    by (simp add: trim_start_matches_def hd_dropWhile)
  then show ?thesis
    using False by (cases ?u) (auto simp: trim_start_matches_def)
qed

lemma trim_matches_idem [simp]: "trim_matches P (trim_matches P s) = trim_matches P s"
  by (simp add: trim_matches_def trim_start_matches_idem_after)

lemma trim_idem [simp]: "trim (trim s) = trim s"
  by (simp add: trim_def)

lemma trim_no_ws: "\<forall>c \<in> set s. \<not> is_ws c \<Longrightarrow> trim s = s"
proof (cases "s = []")
  case False
  assume ok: "\<forall>c \<in> set s. \<not> is_ws c"
  then have "trim_start_matches is_ws s = s" "\<not> is_ws (last s)"
    using False by (cases s; simp add: trim_start_matches_def)+
  then show ?thesis by (simp add: trim_def trim_matches_def trim_end_matches_id)
qed (simp add: trim_def trim_matches_def trim_start_matches_def trim_end_matches_def)

lemma set_trim_end_matches: "set (trim_end_matches P s) \<subseteq> set s"
  by (auto simp: trim_end_matches_def dest: set_dropWhileD)

lemma set_trim_matches: "set (trim_matches P s) \<subseteq> set s"
  using set_trim_end_matches [of P "trim_start_matches P s"]
  by (auto simp: trim_matches_def trim_start_matches_def dest: set_dropWhileD)

subsection \<open>Case folding and splitting\<close>

lemma ascii_lower_char_idem [simp]: "ascii_lower_char (ascii_lower_char c) = ascii_lower_char c"
  by (simp add: ascii_lower_char_def)

lemma to_ascii_lowercase_idem [simp]:
  "to_ascii_lowercase (to_ascii_lowercase s) = to_ascii_lowercase s"
  by (simp add: to_ascii_lowercase_def o_def)

lemma split_once_Some:
  "split_once d s = Some (a, b) \<longleftrightarrow> s = a @ d # b \<and> d \<notin> set a"
proof (induction s arbitrary: a b)
  case Nil
  then show ?case by simp
next
  case (Cons c s)
  show ?case
  proof (cases a)
    case Nil
    then show ?thesis by (auto split: option.splits)
  next
    case (Cons x xs)
    have "split_once d (c # s) = Some (a, b) \<longleftrightarrow> c \<noteq> d \<and> x = c \<and> split_once d s = Some (xs, b)"
      using Cons by (auto split: option.splits)
    then show ?thesis using Cons.IH [of xs b] \<open>a = x # xs\<close> by auto
  qed
qed

lemma split_once_None: "split_once d s = None \<longleftrightarrow> d \<notin> set s"
  by (induction s) (auto split: option.splits)

lemma split_once_append [simp]: "d \<notin> set a \<Longrightarrow> split_once d (a @ d # b) = Some (a, b)"
  by (simp add: split_once_Some)

lemma strip_prefix_append [simp]: "strip_prefix p (p @ s) = Some s"
  by (induction p) auto

lemma strip_prefix_Some: "strip_prefix p s = Some r \<longleftrightarrow> s = p @ r"
  by (induction p s rule: strip_prefix.induct) auto

lemma join_map_length: "length (join sep xs) = sum_list (map length xs) + (length xs - 1) * length sep"
  by (induction sep xs rule: join.induct) auto

section \<open>Decimal numbers\<close>

text \<open>\<open>Display\<close> for unsigned and signed integers, and \<open>format!("{n:06}")\<close>.\<close>

definition is_digit :: "codepoint \<Rightarrow> bool" where
  "is_digit c \<longleftrightarrow> 48 \<le> c \<and> c \<le> 57"

fun show_nat :: "nat \<Rightarrow> rstr" where
  "show_nat n = (if n < 10 then [48 + n] else show_nat (n div 10) @ [48 + n mod 10])"

declare show_nat.simps [simp del]

definition show_int :: "int \<Rightarrow> rstr" where
  "show_int i = (if i < 0 then 45 # show_nat (nat (- i)) else show_nat (nat i))"

definition pad_zero :: "nat \<Rightarrow> rstr \<Rightarrow> rstr" where
  "pad_zero w s = replicate (w - length s) 48 @ s"

text \<open>The sign counts towards the width and precedes the padding.\<close>

definition show_int_06 :: "int \<Rightarrow> rstr" where
  "show_int_06 i = (if i < 0 then 45 # pad_zero 5 (show_nat (nat (- i)))
                    else pad_zero 6 (show_nat (nat i)))"

fun digits_val :: "nat \<Rightarrow> rstr \<Rightarrow> nat" where
  "digits_val acc [] = acc"
| "digits_val acc (c # s) = digits_val (acc * 10 + (c - 48)) s"

text \<open>
  \<open>str::parse::<u64>\<close>: an optional \<open>+\<close>, at least one ASCII digit, no other character, and a
  value that fits 64 bits.
\<close>

definition parse_u64 :: "rstr \<Rightarrow> nat option" where
  "parse_u64 s =
     (let ds = (case s of [] \<Rightarrow> [] | c # r \<Rightarrow> if c = 43 then r else s)
      in if ds = [] \<or> \<not> list_all is_digit ds then None
         else if digits_val 0 ds < 2 ^ 64 then Some (digits_val 0 ds) else None)"

lemma show_nat_not_Nil [simp]: "show_nat n \<noteq> []"
  by (subst show_nat.simps) simp

lemma show_nat_digits: "list_all is_digit (show_nat n)"
proof (induction n rule: show_nat.induct)
  case (1 n)
  show ?case
  proof (cases "n < 10")
    case True
    then show ?thesis by (subst show_nat.simps) (simp add: is_digit_def)
  next
    case False
    then have "n mod 10 \<le> 9" by simp
    with False show ?thesis using "1.IH" by (subst show_nat.simps) (auto simp: is_digit_def list_all_iff)
  qed
qed

lemma digits_val_append: "digits_val a (s @ t) = digits_val (digits_val a s) t"
  by (induction s arbitrary: a) auto

lemma digits_val_show_nat [simp]: "digits_val 0 (show_nat n) = n"
proof (induction n rule: show_nat.induct)
  case (1 n)
  show ?case
  proof (cases "n < 10")
    case True
    then show ?thesis by (subst show_nat.simps) simp
  next
    case False
    then show ?thesis using "1.IH" by (subst show_nat.simps) (simp add: digits_val_append)
  qed
qed

lemma show_nat_inject [simp]: "show_nat m = show_nat n \<longleftrightarrow> m = n"
  by (metis digits_val_show_nat)

lemma digits_val_pad [simp]: "digits_val 0 (pad_zero w s) = digits_val 0 s"
proof -
  have "digits_val 0 (replicate k 48) = 0" for k by (induction k) auto
  then show ?thesis by (simp add: pad_zero_def digits_val_append)
qed

lemma pad_zero_digits: "list_all is_digit s \<Longrightarrow> list_all is_digit (pad_zero w s)"
  by (auto simp: pad_zero_def is_digit_def list_all_iff)

lemma parse_u64_show_nat: "n < 2 ^ 64 \<Longrightarrow> parse_u64 (show_nat n) = Some n"
proof -
  assume "n < 2 ^ 64"
  moreover have "\<not> (\<exists>r. show_nat n = 43 # r)"
    using show_nat_digits [of n] by (auto simp: is_digit_def)
  then have "(case show_nat n of [] \<Rightarrow> [] | c # r \<Rightarrow> if c = 43 then r else show_nat n) = show_nat n"
    by (cases "show_nat n") auto
  ultimately show ?thesis
    using show_nat_digits [of n] by (simp add: parse_u64_def)
qed

lemma parse_u64_bound: "parse_u64 s = Some n \<Longrightarrow> n < 2 ^ 64"
  by (auto simp: parse_u64_def Let_def split: if_splits)

lemma show_int_06_inject [simp]: "show_int_06 i = show_int_06 j \<longleftrightarrow> i = j"
proof -
  have nn: "pad_zero w (show_nat a) = pad_zero v (show_nat b) \<Longrightarrow> a = b" for w v a b
    by (metis digits_val_pad digits_val_show_nat)
  have hd: "pad_zero w (show_nat a) \<noteq> 45 # t" for w a t
    using pad_zero_digits [OF show_nat_digits, of w a] by (auto simp: is_digit_def)
  show ?thesis
    using hd hd [symmetric] by (auto simp: show_int_06_def split: if_splits dest!: nn)
qed

section \<open>Optional values\<close>

definition is_some_and :: "'a option \<Rightarrow> ('a \<Rightarrow> bool) \<Rightarrow> bool" where
  "is_some_and x P = (case x of None \<Rightarrow> False | Some y \<Rightarrow> P y)"

lemma is_some_and_simps [simp]:
  "is_some_and None P = False" "is_some_and (Some x) P = P x"
  by (simp_all add: is_some_and_def)

section \<open>Tables\<close>

text \<open>
  A database table is the list of its rows in insertion order. \<open>upsert\<close> is
  \<^verbatim>\<open>INSERT ... ON CONFLICT (key) DO UPDATE\<close>: the row with the key is updated in place by
  \<open>upd\<close>, and without one the row is appended.
\<close>

fun upsert :: "('r \<Rightarrow> 'k) \<Rightarrow> ('r \<Rightarrow> 'r) \<Rightarrow> 'r \<Rightarrow> 'r list \<Rightarrow> 'r list" where
  "upsert key upd r [] = [r]"
| "upsert key upd r (x # xs) =
     (if key x = key r then upd x # xs else x # upsert key upd r xs)"

definition lookup_by :: "('r \<Rightarrow> 'k) \<Rightarrow> 'k \<Rightarrow> 'r list \<Rightarrow> 'r option" where
  "lookup_by key k xs = find (\<lambda>r. key r = k) xs"

text \<open>\<^verbatim>\<open>UPDATE ... WHERE P\<close> and its \<open>rows_affected\<close>.\<close>

definition update_where :: "('r \<Rightarrow> bool) \<Rightarrow> ('r \<Rightarrow> 'r) \<Rightarrow> 'r list \<Rightarrow> 'r list" where
  "update_where P f xs = map (\<lambda>r. if P r then f r else r) xs"

definition rows_affected :: "('r \<Rightarrow> bool) \<Rightarrow> 'r list \<Rightarrow> nat" where
  "rows_affected P xs = length (filter P xs)"

definition delete_where :: "('r \<Rightarrow> bool) \<Rightarrow> 'r list \<Rightarrow> 'r list" where
  "delete_where P xs = filter (\<lambda>r. \<not> P r) xs"

lemma set_update_where: "set (update_where P f xs) = (\<lambda>r. if P r then f r else r) ` set xs"
  by (simp add: update_where_def)

lemma set_delete_where [simp]: "set (delete_where P xs) = {r \<in> set xs. \<not> P r}"
  by (auto simp: delete_where_def)

lemma rows_affected_0_iff: "rows_affected P xs = 0 \<longleftrightarrow> (\<forall>r \<in> set xs. \<not> P r)"
  by (simp add: rows_affected_def filter_empty_conv)

lemma update_where_id: "\<forall>r \<in> set xs. \<not> P r \<Longrightarrow> update_where P f xs = xs"
  by (simp add: update_where_def map_idI)

lemma map_update_where: "(\<And>r. g (f r) = g r) \<Longrightarrow> map g (update_where P f xs) = map g xs"
  by (simp add: update_where_def)

lemma distinct_map_delete_where: "distinct (map g xs) \<Longrightarrow> distinct (map g (delete_where P xs))"
  by (induction xs) (auto simp: delete_where_def)

lemma distinct_map_eqD: "distinct (map g xs) \<Longrightarrow> x \<in> set xs \<Longrightarrow> y \<in> set xs \<Longrightarrow> g x = g y \<Longrightarrow> x = y"
  by (auto simp: distinct_map inj_on_def)

lemma distinct_singleton: "distinct xs \<Longrightarrow> set xs = {x} \<Longrightarrow> xs = [x]"
  by (cases xs; cases "tl xs") auto

lemma find_SomeD: "find P xs = Some x \<Longrightarrow> x \<in> set xs \<and> P x"
  by (induction xs) (auto split: if_splits)

lemma find_by_key: "distinct (map g xs) \<Longrightarrow> x \<in> set xs \<Longrightarrow> find (\<lambda>y. g y = g x) xs = Some x"
  by (induction xs) auto

subsection \<open>The interface of a keyed table\<close>

text \<open>
  Five tables of the schema are written through \<^verbatim>\<open>ON CONFLICT (key) DO UPDATE\<close>. All the
  callers rely on is that the update keeps the key; what follows from it is proved once here.
\<close>

locale keyed_table =
  fixes key :: "'r \<Rightarrow> 'k"
    and upd :: "'r \<Rightarrow> 'r \<Rightarrow> 'r"
  assumes key_upd: "key new = key old \<Longrightarrow> key (upd new old) = key old"
begin

lemma keys_upsert:
  "map key (upsert key (upd r) r xs) =
     (if key r \<in> key ` set xs then map key xs else map key xs @ [key r])"
  by (induction xs) (auto simp: key_upd)

lemma distinct_upsert:
  "distinct (map key xs) \<Longrightarrow> distinct (map key (upsert key (upd r) r xs))"
  by (simp add: keys_upsert)

lemma lookup_upsert_same:
  "lookup_by key (key r) (upsert key (upd r) r xs) =
     (case lookup_by key (key r) xs of None \<Rightarrow> Some r | Some old \<Rightarrow> Some (upd r old))"
  by (induction xs) (auto simp: lookup_by_def key_upd)

lemma lookup_upsert_other:
  "k \<noteq> key r \<Longrightarrow> lookup_by key k (upsert key (upd r) r xs) = lookup_by key k xs"
  by (induction xs) (auto simp: lookup_by_def key_upd)

lemma upsert_idem:
  assumes "\<And>old. upd r (upd r old) = upd r old" and "upd r r = r"
  shows "upsert key (upd r) r (upsert key (upd r) r xs) = upsert key (upd r) r xs"
  using assms by (induction xs) (auto simp: key_upd)

end

section \<open>Step systems\<close>

text \<open>
  A component with state is a set of initial states and a step relation. The interface says
  what an invariant has to satisfy; that it then holds of every reachable state is proved once.
\<close>

inductive reach :: "('s \<Rightarrow> bool) \<Rightarrow> ('s \<Rightarrow> 's \<Rightarrow> bool) \<Rightarrow> 's \<Rightarrow> bool"
  for init :: "'s \<Rightarrow> bool" and step :: "'s \<Rightarrow> 's \<Rightarrow> bool" where
  reach_init: "init s \<Longrightarrow> reach init step s"
| reach_step: "reach init step s \<Longrightarrow> step s t \<Longrightarrow> reach init step t"

locale step_system =
  fixes init :: "'s \<Rightarrow> bool"
    and step :: "'s \<Rightarrow> 's \<Rightarrow> bool"
    and inv :: "'s \<Rightarrow> bool"
  assumes inv_init: "init s \<Longrightarrow> inv s"
    and inv_step: "inv s \<Longrightarrow> step s t \<Longrightarrow> inv t"
begin

lemma inv_reach: "reach init step s \<Longrightarrow> inv s"
  by (induction rule: reach.induct) (auto intro: inv_init inv_step)

lemma inv_steps: "step\<^sup>*\<^sup>* s t \<Longrightarrow> inv s \<Longrightarrow> inv t"
  by (induction rule: rtranclp_induct) (auto intro: inv_step)

end

end
