(* ===== verification/Scribe_Types.thy ===== *)
theory Scribe_Types
  imports Scribe_Prelude
begin

text \<open>
  The domain model of \<open>crates/scribe-core/src/types.rs\<close> and the error type of
  \<open>crates/scribe-core/src/error.rs\<close>: the status, kind and state enumerations with their
  database spelling, the stage graph, and the rows the other components work on.

  Timestamps are microseconds (the resolution of \<open>timestamptz\<close>), a \<open>Uuid\<close> is its 128 bits,
  an \<open>i32\<close>/\<open>i64\<close> column is an \<open>int\<close>. An error is its variant; the message texts are left
  out except where one is stored (\<open>jobs.error\<close>).
\<close>

type_synonym uuid = "128 word"
type_synonym timestamp = int

section \<open>Errors\<close>

datatype error =
  Config | NotFound | BadRequest | Unauthorized | Conflict | Database | Storage
| Pipeline | Model | Http | ServiceUnavailable | Io | Serde | Internal

type_synonym 'a res = "error + 'a"

fun code :: "error \<Rightarrow> rstr" where
  "code Config = lit ''config''"
| "code NotFound = lit ''not_found''"
| "code BadRequest = lit ''bad_request''"
| "code Unauthorized = lit ''unauthorized''"
| "code Conflict = lit ''conflict''"
| "code Database = lit ''database''"
| "code Storage = lit ''storage''"
| "code Pipeline = lit ''pipeline''"
| "code Model = lit ''model''"
| "code Http = lit ''http''"
| "code ServiceUnavailable = lit ''service_unavailable''"
| "code Io = lit ''io''"
| "code Serde = lit ''serde''"
| "code Internal = lit ''internal''"

fun http_status :: "error \<Rightarrow> nat" where
  "http_status NotFound = 404"
| "http_status BadRequest = 400"
| "http_status Unauthorized = 401"
| "http_status Conflict = 409"
| "http_status ServiceUnavailable = 503"
| "http_status _ = 500"

section \<open>JSON documents\<close>

text \<open>\<open>serde_json::Value\<close>; a number is kept by its text.\<close>

datatype json = JNull | JBool bool | JNumber rstr | JString rstr
  | JArray "json list" | JObject "(rstr \<times> json) list"

text \<open>\<open>Value::get\<close> with a string key, and \<open>Value::as_str\<close>.\<close>

fun json_get :: "json \<Rightarrow> rstr \<Rightarrow> json option" where
  "json_get (JObject kvs) k = map_of kvs k"
| "json_get _ k = None"

fun json_as_str :: "json \<Rightarrow> rstr option" where
  "json_as_str (JString s) = Some s"
| "json_as_str _ = None"

section \<open>Recordings\<close>

datatype recording_status = Uploading | Processing | Ready | RFailed

fun status_as_str :: "recording_status \<Rightarrow> rstr" where
  "status_as_str Uploading = lit ''uploading''"
| "status_as_str Processing = lit ''processing''"
| "status_as_str Ready = lit ''ready''"
| "status_as_str RFailed = lit ''failed''"

definition status_from_str :: "rstr \<Rightarrow> recording_status option" where
  "status_from_str s =
     (if s = lit ''uploading'' then Some Uploading
      else if s = lit ''processing'' then Some Processing
      else if s = lit ''ready'' then Some Ready
      else if s = lit ''failed'' then Some RFailed
      else None)"

text \<open>\<open>title_auto\<close> is a column of the table that the struct does not carry.\<close>

record recording =
  rec_id :: uuid
  rec_title :: "rstr option"
  rec_created_at :: timestamp
  rec_device_id :: "rstr option"
  rec_duration_ms :: "int option"
  rec_status :: recording_status
  rec_participants_expected :: "int option"
  rec_audio_format :: "rstr option"
  rec_sample_rate :: "int option"
  rec_storage_key :: "rstr option"
  rec_tags :: "rstr list"
  rec_marks :: "int list"
  rec_title_auto :: bool

text \<open>\<open>transcribed_at\<close> is a column of the table that the struct does not carry.\<close>

record segment =
  seg_id :: uuid
  seg_recording_id :: uuid
  seg_seq :: int
  seg_storage_key :: rstr
  seg_start_ms :: "int option"
  seg_duration_ms :: "int option"
  seg_bytes :: "int option"
  seg_sha256 :: "8 word list option"
  seg_uploaded_at :: timestamp
  seg_transcribed_at :: "timestamp option"

section \<open>Jobs\<close>

datatype job_kind =
  Transcode | Diarize | Transcribe | Merge | Embed | Summarize | TranscribeSegment

definition ALL_KINDS :: "job_kind list" where
  "ALL_KINDS = [Transcode, Diarize, Transcribe, Merge, Embed, Summarize, TranscribeSegment]"

fun kind_as_str :: "job_kind \<Rightarrow> rstr" where
  "kind_as_str Transcode = lit ''transcode''"
| "kind_as_str Diarize = lit ''diarize''"
| "kind_as_str Transcribe = lit ''transcribe''"
| "kind_as_str Merge = lit ''merge''"
| "kind_as_str Embed = lit ''embed''"
| "kind_as_str Summarize = lit ''summarize''"
| "kind_as_str TranscribeSegment = lit ''transcribe_segment''"

definition bypasses_schedule :: "job_kind \<Rightarrow> bool" where
  "bypasses_schedule k \<longleftrightarrow> k = TranscribeSegment"

fun predecessors :: "job_kind \<Rightarrow> job_kind list" where
  "predecessors Transcode = []"
| "predecessors Diarize = [Transcode]"
| "predecessors Transcribe = [Transcode]"
| "predecessors Merge = [Diarize, Transcribe]"
| "predecessors Embed = [Merge]"
| "predecessors Summarize = [Merge]"
| "predecessors TranscribeSegment = []"

fun successors :: "job_kind \<Rightarrow> job_kind list" where
  "successors Transcode = [Diarize, Transcribe]"
| "successors Diarize = [Merge]"
| "successors Transcribe = [Merge]"
| "successors Merge = [Embed, Summarize]"
| "successors Embed = []"
| "successors Summarize = []"
| "successors TranscribeSegment = []"

definition kind_from_str :: "rstr \<Rightarrow> job_kind option" where
  "kind_from_str s =
     (let t = to_ascii_lowercase (trim s) in
      if t = lit ''transcode'' then Some Transcode
      else if t = lit ''diarize'' then Some Diarize
      else if t = lit ''transcribe'' then Some Transcribe
      else if t = lit ''merge'' then Some Merge
      else if t = lit ''embed'' then Some Embed
      else if t = lit ''summarize'' then Some Summarize
      else if t = lit ''transcribe_segment'' then Some TranscribeSegment
      else None)"

datatype job_state = Queued | Running | Done | Failed

fun state_as_str :: "job_state \<Rightarrow> rstr" where
  "state_as_str Queued = lit ''queued''"
| "state_as_str Running = lit ''running''"
| "state_as_str Done = lit ''done''"
| "state_as_str Failed = lit ''failed''"

definition state_from_str :: "rstr \<Rightarrow> job_state option" where
  "state_from_str s =
     (if s = lit ''queued'' then Some Queued
      else if s = lit ''running'' then Some Running
      else if s = lit ''done'' then Some Done
      else if s = lit ''failed'' then Some Failed
      else None)"

record job =
  job_id :: int
  job_recording_id :: "uuid option"
  job_kind :: job_kind
  job_state :: job_state
  job_priority :: int
  job_attempts :: int
  job_run_after :: timestamp
  job_locked_by :: "rstr option"
  job_locked_at :: "timestamp option"
  job_payload :: json
  job_error :: "rstr option"
  job_created_at :: timestamp
  job_updated_at :: timestamp

section \<open>Transcript\<close>

text \<open>
  An \<open>f32\<close> is its 32 bits: the confidence of a word and the components of an embedding are
  copied and stored, never computed with, by the modelled code.
\<close>

type_synonym f32 = "32 word"

record word_rec =
  w_text :: rstr
  w_start_ms :: int
  w_end_ms :: int
  w_conf :: f32
  w_local_idx :: "int option"

record utterance =
  u_id :: int
  u_recording_id :: uuid
  u_local_idx :: "int option"
  u_start_ms :: int
  u_end_ms :: int
  u_text :: rstr
  u_words :: "word_rec list"
  u_speaker_name :: "rstr option"

section \<open>The database spelling round-trips\<close>

lemma status_roundtrip [simp]: "status_from_str (status_as_str s) = Some s"
  by (cases s) (simp_all add: status_from_str_def)

lemma state_roundtrip [simp]: "state_from_str (state_as_str s) = Some s"
  by (cases s) (simp_all add: state_from_str_def)

lemma trim_to_ascii_lowercase_kind: "to_ascii_lowercase (trim (kind_as_str k)) = kind_as_str k"
  by (cases k) (simp_all add: text_defs)

lemma kind_as_str_inject [simp]: "kind_as_str a = kind_as_str b \<longleftrightarrow> a = b"
  by (cases a; cases b) simp_all

lemma kind_from_str_lower: "to_ascii_lowercase (trim s) = kind_as_str k \<Longrightarrow> kind_from_str s = Some k"
  by (cases k) (simp_all add: kind_from_str_def)

lemma kind_from_str_Some: "kind_from_str s = Some k \<Longrightarrow> to_ascii_lowercase (trim s) = kind_as_str k"
  by (auto simp: kind_from_str_def Let_def split: if_splits)

text \<open>
  A job kind survives the trip through the \<open>kind\<close> text column, and reading is exactly as
  lenient as \<open>FromStr\<close> says: a text parses to a kind if and only if, trimmed and lowercased, it
  is that kind's spelling; so two kinds never share a spelling.
\<close>

theorem kind_roundtrip:
  "kind_from_str (kind_as_str k) = Some k \<and>
   (kind_from_str s = Some k \<longleftrightarrow> to_ascii_lowercase (trim s) = kind_as_str k) \<and>
   status_from_str (status_as_str st) = Some st \<and> state_from_str (state_as_str js) = Some js"
  using kind_from_str_lower [OF trim_to_ascii_lowercase_kind]
  by (auto intro: kind_from_str_lower dest: kind_from_str_Some)

section \<open>The stage graph\<close>

text \<open>The longest path from a root; the successor edges only ever increase it.\<close>

fun stage_rank :: "job_kind \<Rightarrow> nat" where
  "stage_rank Transcode = 0"
| "stage_rank Diarize = 1"
| "stage_rank Transcribe = 1"
| "stage_rank Merge = 2"
| "stage_rank Embed = 3"
| "stage_rank Summarize = 3"
| "stage_rank TranscribeSegment = 0"

definition stage_edge :: "job_kind \<Rightarrow> job_kind \<Rightarrow> bool" where
  "stage_edge a b \<longleftrightarrow> b \<in> set (successors a)"

lemma set_ALL_KINDS [simp]: "set ALL_KINDS = UNIV"
proof
  show "UNIV \<subseteq> set ALL_KINDS" by (rule subsetI, rename_tac k, case_tac k) (simp_all add: ALL_KINDS_def)
qed simp

lemma distinct_ALL_KINDS [simp]: "distinct ALL_KINDS"
  by (simp add: ALL_KINDS_def)

lemma successors_iff_predecessors: "b \<in> set (successors a) \<longleftrightarrow> a \<in> set (predecessors b)"
  by (cases a; cases b) simp_all

lemma distinct_predecessors [simp]: "distinct (predecessors k)"
  by (cases k) simp_all

lemma stage_rank_mono: "stage_edge a b \<Longrightarrow> stage_rank a < stage_rank b"
  by (cases a; cases b) (simp_all add: stage_edge_def)

lemma stage_rank_trancl: "stage_edge\<^sup>+\<^sup>+ a b \<Longrightarrow> stage_rank a < stage_rank b"
  by (induction rule: tranclp_induct) (auto dest: stage_rank_mono)

text \<open>
  The two hand-written edge tables describe one graph: \<open>successors\<close> is the converse of
  \<open>predecessors\<close>, no stage can reach itself, and every pipeline stage is reachable from
  \<open>transcode\<close> while the live stage \<open>transcribe_segment\<close> is on no edge.
\<close>

theorem stage_graph:
  "(b \<in> set (successors a) \<longleftrightarrow> a \<in> set (predecessors b)) \<and>
   \<not> stage_edge\<^sup>+\<^sup>+ a a \<and>
   (stage_edge\<^sup>*\<^sup>* Transcode k \<longleftrightarrow> \<not> bypasses_schedule k)"
proof (intro conjI)
  show "b \<in> set (successors a) \<longleftrightarrow> a \<in> set (predecessors b)"
    by (rule successors_iff_predecessors)
  show "\<not> stage_edge\<^sup>+\<^sup>+ a a" using stage_rank_trancl [of a a] by auto
  have e: "stage_edge Transcode Diarize" "stage_edge Transcode Transcribe"
    "stage_edge Diarize Merge" "stage_edge Merge Embed" "stage_edge Merge Summarize"
    by (simp_all add: stage_edge_def)
  have up: "stage_edge\<^sup>*\<^sup>* Transcode k" if "k \<noteq> TranscribeSegment"
    using e that by (cases k) (auto intro: rtranclp.rtrancl_into_rtrancl)
  have "stage_edge\<^sup>*\<^sup>* x y \<Longrightarrow> x \<noteq> TranscribeSegment \<Longrightarrow> y \<noteq> TranscribeSegment" for x y
  proof (induction rule: rtranclp_induct)
    case (step y z)
    then show ?case by (cases y) (auto simp: stage_edge_def)
  qed
  then show "stage_edge\<^sup>*\<^sup>* Transcode k \<longleftrightarrow> \<not> bypasses_schedule k"
    using up by (auto simp: bypasses_schedule_def)
qed

end
