(* ===== verification/Scribe_Store.thy ===== *)
theory Scribe_Store
  imports Scribe_Types
begin

text \<open>
  The persistence layer, \<open>crates/scribe-db/src\<close> without the queue: the tables of \<open>migrations/\<close>
  as one record, and one definition per method of \<open>Db\<close>, statement by statement: keys, foreign
  keys, cascades and the transactions of the reset paths. A method that issues several
  statements outside a transaction composes them in order.

  A statement that would break a key or a foreign key is the error \<^const>\<open>Database\<close>; a
  transaction that fails leaves the tables as they were (\<^const>\<open>Inl\<close> carries no tables).
\<close>

section \<open>Tables\<close>

record speaker_row =
  sp_id :: uuid
  sp_display_name :: rstr
  sp_embedding :: "f32 list option"
  sp_created_at :: timestamp

record rec_speaker =
  rs_recording_id :: uuid
  rs_local_idx :: int
  rs_speaker_id :: "uuid option"
  rs_embedding :: "f32 list option"

record chunk_row =
  c_recording_id :: uuid
  c_start_ms :: "int option"
  c_end_ms :: "int option"
  c_local_idx :: "int option"
  c_text :: rstr
  c_embedding :: "f32 list"

record summary_row =
  s_recording_id :: uuid
  s_title :: "rstr option"
  s_summary :: "rstr option"
  s_action_items :: json
  s_topics :: json
  s_decisions :: json
  s_model :: "rstr option"
  s_template :: rstr
  s_created_at :: timestamp

text \<open>The two scratch documents; their JSON encoding in the table is not modelled.\<close>

record turn_artifact =
  t_local_idx :: int
  t_start_ms :: int
  t_end_ms :: int

datatype artifact_data =
    TranscriptArtifact rstr "word_rec list"
  | DiarizationArtifact "turn_artifact list" nat

record artifact_row =
  a_recording_id :: uuid
  a_kind :: rstr
  a_data :: artifact_data
  a_created_at :: timestamp

definition KIND_TRANSCRIPT :: rstr where "KIND_TRANSCRIPT = lit ''transcript''"
definition KIND_DIARIZATION :: rstr where "KIND_DIARIZATION = lit ''diarization''"

record db =
  recordings :: "recording list"
  segments :: "segment list"
  jobs :: "job list"
  next_job_id :: int
  utterances :: "utterance list"
  next_utterance_id :: int
  chunks :: "chunk_row list"
  summaries :: "summary_row list"
  recording_speakers :: "rec_speaker list"
  speakers :: "speaker_row list"
  artifacts :: "artifact_row list"

definition empty_db :: db where
  "empty_db = \<lparr>recordings = [], segments = [], jobs = [], next_job_id = 1, utterances = [],
     next_utterance_id = 1, chunks = [], summaries = [], recording_speakers = [], speakers = [],
     artifacts = []\<rparr>"

definition has_recording :: "db \<Rightarrow> uuid \<Rightarrow> bool" where
  "has_recording d rid \<longleftrightarrow> rid \<in> rec_id ` set (recordings d)"

section \<open>Recordings\<close>

definition not_found_if_zero :: "nat \<Rightarrow> 'a \<Rightarrow> 'a res" where
  "not_found_if_zero affected d = (if affected = 0 then Inl NotFound else Inr d)"

definition update_recording :: "uuid \<Rightarrow> (recording \<Rightarrow> recording) \<Rightarrow> db \<Rightarrow> db res" where
  "update_recording rid f d =
     not_found_if_zero (rows_affected (\<lambda>r. rec_id r = rid) (recordings d))
       (d\<lparr>recordings := update_where (\<lambda>r. rec_id r = rid) f (recordings d)\<rparr>)"

text \<open>The fresh id is the database's \<open>gen_random_uuid()\<close>.\<close>

definition create_recording ::
  "uuid \<Rightarrow> timestamp \<Rightarrow> rstr option \<Rightarrow> rstr option \<Rightarrow> int option \<Rightarrow> rstr option \<Rightarrow> int option \<Rightarrow> db
     \<Rightarrow> (recording \<times> db) res" where
  "create_recording new_id now title device_id participants audio_format sample_rate d =
     (if has_recording d new_id then Inl Database
      else let r = \<lparr>rec_id = new_id, rec_title = title, rec_created_at = now,
                    rec_device_id = device_id, rec_duration_ms = None, rec_status = Uploading,
                    rec_participants_expected = participants, rec_audio_format = audio_format,
                    rec_sample_rate = sample_rate, rec_storage_key = None, rec_tags = [],
                    rec_marks = [], rec_title_auto = (title = None)\<rparr>
           in Inr (r, d\<lparr>recordings := recordings d @ [r]\<rparr>))"

definition get_recording :: "db \<Rightarrow> uuid \<Rightarrow> recording res" where
  "get_recording d rid =
     (case lookup_by rec_id rid (recordings d) of None \<Rightarrow> Inl NotFound | Some r \<Rightarrow> Inr r)"

definition set_recording_status :: "uuid \<Rightarrow> recording_status \<Rightarrow> db \<Rightarrow> db res" where
  "set_recording_status rid st = update_recording rid (\<lambda>r. r\<lparr>rec_status := st\<rparr>)"

definition set_recording_duration :: "uuid \<Rightarrow> int \<Rightarrow> db \<Rightarrow> db res" where
  "set_recording_duration rid ms = update_recording rid (\<lambda>r. r\<lparr>rec_duration_ms := Some ms\<rparr>)"

definition set_recording_marks :: "uuid \<Rightarrow> int list \<Rightarrow> db \<Rightarrow> db res" where
  "set_recording_marks rid marks = update_recording rid (\<lambda>r. r\<lparr>rec_marks := marks\<rparr>)"

definition set_recording_title :: "uuid \<Rightarrow> rstr \<Rightarrow> db \<Rightarrow> db res" where
  "set_recording_title rid title = update_recording rid (\<lambda>r. r\<lparr>rec_title := Some title\<rparr>)"

definition set_recording_storage_key :: "uuid \<Rightarrow> rstr \<Rightarrow> db \<Rightarrow> db res" where
  "set_recording_storage_key rid key = update_recording rid (\<lambda>r. r\<lparr>rec_storage_key := Some key\<rparr>)"

definition set_participants_expected :: "uuid \<Rightarrow> int option \<Rightarrow> db \<Rightarrow> db res" where
  "set_participants_expected rid n = update_recording rid (\<lambda>r. r\<lparr>rec_participants_expected := n\<rparr>)"

text \<open>The guard of the automatic title: generated before, absent, or empty.\<close>

definition title_is_auto :: "recording \<Rightarrow> bool" where
  "title_is_auto r \<longleftrightarrow> rec_title_auto r \<or> rec_title r = None \<or> rec_title r = Some []"

definition set_recording_title_auto :: "uuid \<Rightarrow> rstr \<Rightarrow> db \<Rightarrow> bool \<times> db" where
  "set_recording_title_auto rid title d =
     (rows_affected (\<lambda>r. rec_id r = rid \<and> title_is_auto r) (recordings d) > 0,
      d\<lparr>recordings := update_where (\<lambda>r. rec_id r = rid \<and> title_is_auto r)
          (\<lambda>r. r\<lparr>rec_title := Some title, rec_title_auto := True\<rparr>) (recordings d)\<rparr>)"

definition count_recordings :: "db \<Rightarrow> nat" where
  "count_recordings d = length (recordings d)"

text \<open>\<open>normalize_tags\<close>; \<open>lower\<close> is \<open>str::to_lowercase\<close>, a table of the Unicode standard.\<close>

fun normalize_tags_loop :: "(rstr \<Rightarrow> rstr) \<Rightarrow> rstr list \<Rightarrow> rstr list \<Rightarrow> rstr list" where
  "normalize_tags_loop lower out [] = out"
| "normalize_tags_loop lower out (tag # tags) =
     (let t = lower (trim tag) in
      if t = [] then normalize_tags_loop lower out tags
      else if t \<in> set out then normalize_tags_loop lower out tags
      else normalize_tags_loop lower (out @ [t]) tags)"

definition normalize_tags :: "(rstr \<Rightarrow> rstr) \<Rightarrow> rstr list \<Rightarrow> rstr list" where
  "normalize_tags lower tags = normalize_tags_loop lower [] tags"

definition set_recording_tags ::
  "(rstr \<Rightarrow> rstr) \<Rightarrow> uuid \<Rightarrow> rstr list \<Rightarrow> db \<Rightarrow> (rstr list \<times> db) res" where
  "set_recording_tags lower rid tags d =
     (let normalized = normalize_tags lower tags in
      case update_recording rid (\<lambda>r. r\<lparr>rec_tags := normalized\<rparr>) d of
        Inl e \<Rightarrow> Inl e | Inr d' \<Rightarrow> Inr (normalized, d'))"

text \<open>\<^verbatim>\<open>DELETE FROM recordings\<close>, with every child table's \<^verbatim>\<open>ON DELETE CASCADE\<close>.\<close>

definition delete_recording :: "uuid \<Rightarrow> db \<Rightarrow> db res" where
  "delete_recording rid d =
     not_found_if_zero (rows_affected (\<lambda>r. rec_id r = rid) (recordings d))
       (d\<lparr>recordings := delete_where (\<lambda>r. rec_id r = rid) (recordings d),
          segments := delete_where (\<lambda>s. seg_recording_id s = rid) (segments d),
          jobs := delete_where (\<lambda>j. job_recording_id j = Some rid) (jobs d),
          utterances := delete_where (\<lambda>u. u_recording_id u = rid) (utterances d),
          chunks := delete_where (\<lambda>c. c_recording_id c = rid) (chunks d),
          summaries := delete_where (\<lambda>s. s_recording_id s = rid) (summaries d),
          recording_speakers := delete_where (\<lambda>s. rs_recording_id s = rid) (recording_speakers d),
          artifacts := delete_where (\<lambda>a. a_recording_id a = rid) (artifacts d)\<rparr>)"

definition delete_artifacts_by_recording :: "uuid \<Rightarrow> db \<Rightarrow> db" where
  "delete_artifacts_by_recording rid d =
     d\<lparr>artifacts := delete_where (\<lambda>a. a_recording_id a = rid) (artifacts d)\<rparr>"

text \<open>The two resets; the status update decides whether the transaction commits.\<close>

definition reset_for_reprocess :: "uuid \<Rightarrow> db \<Rightarrow> db res" where
  "reset_for_reprocess rid d =
     set_recording_status rid Processing
       (d\<lparr>utterances := delete_where (\<lambda>u. u_recording_id u = rid) (utterances d),
          chunks := delete_where (\<lambda>c. c_recording_id c = rid) (chunks d),
          summaries := delete_where (\<lambda>s. s_recording_id s = rid) (summaries d),
          artifacts := delete_where (\<lambda>a. a_recording_id a = rid) (artifacts d),
          recording_speakers := delete_where (\<lambda>s. rs_recording_id s = rid) (recording_speakers d),
          jobs := delete_where (\<lambda>j. job_recording_id j = Some rid) (jobs d)\<rparr>)"

definition has_transcript :: "db \<Rightarrow> uuid \<Rightarrow> bool" where
  "has_transcript d rid \<longleftrightarrow>
     (\<exists>a \<in> set (artifacts d). a_recording_id a = rid \<and> a_kind a = KIND_TRANSCRIPT)"

definition reset_for_rediarize :: "uuid \<Rightarrow> db \<Rightarrow> (bool \<times> db) res" where
  "reset_for_rediarize rid d =
     (if \<not> has_transcript d rid then Inr (False, d)
      else case set_recording_status rid Processing
           (d\<lparr>utterances := delete_where (\<lambda>u. u_recording_id u = rid) (utterances d),
              chunks := delete_where (\<lambda>c. c_recording_id c = rid) (chunks d),
              summaries := delete_where (\<lambda>s. s_recording_id s = rid) (summaries d),
              recording_speakers := delete_where (\<lambda>s. rs_recording_id s = rid) (recording_speakers d),
              artifacts := delete_where (\<lambda>a. a_recording_id a = rid \<and> a_kind a = KIND_DIARIZATION) (artifacts d),
              jobs := delete_where (\<lambda>j. job_recording_id j = Some rid \<and>
                        job_kind j \<in> {Diarize, Merge, Embed, Summarize}) (jobs d)\<rparr>) of
           Inl e \<Rightarrow> Inl e
         | Inr d' \<Rightarrow> Inr (True, d'))"

section \<open>Segments\<close>

definition seg_key :: "segment \<Rightarrow> uuid \<times> int" where
  "seg_key s = (seg_recording_id s, seg_seq s)"

text \<open>The \<^verbatim>\<open>DO UPDATE SET\<close> clause: the id and \<open>transcribed_at\<close> of the old row stay.\<close>

definition refresh_segment :: "segment \<Rightarrow> segment \<Rightarrow> segment" where
  "refresh_segment new old =
     old\<lparr>seg_storage_key := seg_storage_key new, seg_start_ms := seg_start_ms new,
         seg_duration_ms := seg_duration_ms new, seg_bytes := seg_bytes new,
         seg_sha256 := seg_sha256 new, seg_uploaded_at := seg_uploaded_at new\<rparr>"

definition insert_segment ::
  "uuid \<Rightarrow> timestamp \<Rightarrow> uuid \<Rightarrow> int \<Rightarrow> rstr \<Rightarrow> int option \<Rightarrow> int option \<Rightarrow> int option \<Rightarrow>
     8 word list option \<Rightarrow> db \<Rightarrow> db res" where
  "insert_segment new_id now rid seq key start_ms duration_ms bytes sha d =
     (let s = \<lparr>seg_id = new_id, seg_recording_id = rid, seg_seq = seq, seg_storage_key = key,
               seg_start_ms = start_ms, seg_duration_ms = duration_ms, seg_bytes = bytes,
               seg_sha256 = sha, seg_uploaded_at = now, seg_transcribed_at = None\<rparr>
      in if \<not> has_recording d rid then Inl Database
         else Inr (d\<lparr>segments := upsert seg_key (refresh_segment s) s (segments d)\<rparr>))"

definition list_segments_by_recording :: "db \<Rightarrow> uuid \<Rightarrow> segment list" where
  "list_segments_by_recording d rid =
     sort_key seg_seq (filter (\<lambda>s. seg_recording_id s = rid) (segments d))"

definition list_untranscribed_segments :: "db \<Rightarrow> uuid \<Rightarrow> segment list" where
  "list_untranscribed_segments d rid =
     sort_key seg_seq
       (filter (\<lambda>s. seg_recording_id s = rid \<and> seg_transcribed_at s = None) (segments d))"

definition mark_segment_transcribed :: "timestamp \<Rightarrow> uuid \<Rightarrow> int \<Rightarrow> int \<Rightarrow> db \<Rightarrow> db" where
  "mark_segment_transcribed now sid start_ms duration_ms d =
     d\<lparr>segments := update_where (\<lambda>s. seg_id s = sid)
         (\<lambda>s. s\<lparr>seg_transcribed_at := Some now, seg_start_ms := Some start_ms,
                seg_duration_ms := Some duration_ms\<rparr>) (segments d)\<rparr>"

definition count_untranscribed_segments :: "db \<Rightarrow> uuid \<Rightarrow> nat" where
  "count_untranscribed_segments d rid =
     length (filter (\<lambda>s. seg_recording_id s = rid \<and> seg_transcribed_at s = None) (segments d))"

definition coalesce0 :: "int option \<Rightarrow> int" where
  "coalesce0 x = (case x of None \<Rightarrow> 0 | Some v \<Rightarrow> v)"

definition max_transcribed_end_ms :: "db \<Rightarrow> uuid \<Rightarrow> int option" where
  "max_transcribed_end_ms d rid =
     (case map (\<lambda>s. coalesce0 (seg_start_ms s) + coalesce0 (seg_duration_ms s))
             (filter (\<lambda>s. seg_recording_id s = rid \<and> seg_transcribed_at s \<noteq> None) (segments d)) of
        [] \<Rightarrow> None
      | x # xs \<Rightarrow> Some (fold max xs x))"

section \<open>Transcript\<close>

record new_utterance =
  n_local_idx :: "int option"
  n_start_ms :: int
  n_end_ms :: int
  n_text :: rstr
  n_words :: "word_rec list"

text \<open>The rows of the multi-row insert take consecutive ids from the sequence.\<close>

fun number_utterances :: "uuid \<Rightarrow> int \<Rightarrow> new_utterance list \<Rightarrow> utterance list" where
  "number_utterances rid i [] = []"
| "number_utterances rid i (n # ns) =
     \<lparr>u_id = i, u_recording_id = rid, u_local_idx = n_local_idx n, u_start_ms = n_start_ms n,
      u_end_ms = n_end_ms n, u_text = n_text n, u_words = n_words n, u_speaker_name = None\<rparr>
     # number_utterances rid (i + 1) ns"

definition insert_utterances :: "uuid \<Rightarrow> new_utterance list \<Rightarrow> db \<Rightarrow> (nat \<times> db) res" where
  "insert_utterances rid us d =
     (if us = [] then Inr (0, d)
      else if \<not> has_recording d rid then Inl Database
      else Inr (length us,
        d\<lparr>utterances := utterances d @ number_utterances rid (next_utterance_id d) us,
          next_utterance_id := next_utterance_id d + int (length us)\<rparr>))"

definition delete_utterances_by_recording :: "uuid \<Rightarrow> db \<Rightarrow> db" where
  "delete_utterances_by_recording rid d =
     d\<lparr>utterances := delete_where (\<lambda>u. u_recording_id u = rid) (utterances d)\<rparr>"

text \<open>The two \<^verbatim>\<open>LEFT JOIN\<close>s, and the label \<open>utterance_from_row\<close> falls back to.\<close>

definition speaker_label :: "int \<Rightarrow> rstr" where
  "speaker_label i = lit ''Speaker '' @ show_int i"

definition display_name_of :: "db \<Rightarrow> uuid \<Rightarrow> int \<Rightarrow> rstr option" where
  "display_name_of d rid i =
     (case find (\<lambda>s. rs_recording_id s = rid \<and> rs_local_idx s = i) (recording_speakers d) of
        None \<Rightarrow> None
      | Some s \<Rightarrow>
          (case rs_speaker_id s of
             None \<Rightarrow> None
           | Some sid \<Rightarrow> map_option sp_display_name (lookup_by sp_id sid (speakers d))))"

definition utterance_from_row :: "db \<Rightarrow> utterance \<Rightarrow> utterance" where
  "utterance_from_row d u =
     u\<lparr>u_speaker_name :=
         (case u_local_idx u of
            None \<Rightarrow> None
          | Some i \<Rightarrow> (case display_name_of d (u_recording_id u) i of
                        Some n \<Rightarrow> Some n | None \<Rightarrow> Some (speaker_label i)))\<rparr>"

text \<open>\<^verbatim>\<open>ORDER BY start_ms, id\<close>: a stable sort on the minor key first.\<close>

definition list_utterances_by_recording :: "db \<Rightarrow> uuid \<Rightarrow> utterance list" where
  "list_utterances_by_recording d rid =
     map (utterance_from_row d)
       (sort_key u_start_ms (sort_key u_id
          (filter (\<lambda>u. u_recording_id u = rid) (utterances d))))"

definition update_utterance_text :: "uuid \<Rightarrow> int \<Rightarrow> rstr \<Rightarrow> db \<Rightarrow> utterance option \<times> db" where
  "update_utterance_text rid uid txt d =
     (let P = (\<lambda>u. u_id u = uid \<and> u_recording_id u = rid);
          d' = d\<lparr>utterances := update_where P (\<lambda>u. u\<lparr>u_text := txt\<rparr>) (utterances d)\<rparr>
      in if rows_affected P (utterances d) = 0 then (None, d)
         else (map_option (utterance_from_row d') (find P (utterances d')), d'))"

section \<open>Vector columns\<close>

text \<open>
  The widths of the migration: \<^verbatim>\<open>vector(192)\<close> for voices and \<^verbatim>\<open>halfvec(768)\<close> for chunks. A vector of any
  other length is refused by the database, whatever the statement.
\<close>

definition VOICE_WIDTH :: nat where "VOICE_WIDTH = 192"
definition CHUNK_WIDTH :: nat where "CHUNK_WIDTH = 768"

definition width_ok :: "nat \<Rightarrow> f32 list option \<Rightarrow> bool" where
  "width_ok width v = (case v of None \<Rightarrow> True | Some e \<Rightarrow> length e = width)"

lemma width_ok_simps [simp]: "width_ok width None" "width_ok width (Some e) \<longleftrightarrow> length e = width"
  by (simp_all add: width_ok_def)

section \<open>Chunks and summaries\<close>

definition insert_chunks :: "uuid \<Rightarrow> chunk_row list \<Rightarrow> db \<Rightarrow> (nat \<times> db) res" where
  "insert_chunks rid cs d =
     (if cs = [] then Inr (0, d)
      else if \<not> has_recording d rid \<or> \<not> list_all (\<lambda>c. width_ok CHUNK_WIDTH (Some (c_embedding c))) cs then Inl Database
      else Inr (length cs, d\<lparr>chunks := chunks d @ map (\<lambda>c. c\<lparr>c_recording_id := rid\<rparr>) cs\<rparr>))"

definition delete_chunks_by_recording :: "uuid \<Rightarrow> db \<Rightarrow> db" where
  "delete_chunks_by_recording rid d =
     d\<lparr>chunks := delete_where (\<lambda>c. c_recording_id c = rid) (chunks d)\<rparr>"

definition summary_key :: "summary_row \<Rightarrow> uuid \<times> rstr" where
  "summary_key s = (s_recording_id s, s_template s)"

definition replace_summary :: "summary_row \<Rightarrow> summary_row \<Rightarrow> summary_row" where
  "replace_summary new old =
     old\<lparr>s_title := s_title new, s_summary := s_summary new, s_action_items := s_action_items new,
         s_topics := s_topics new, s_decisions := s_decisions new, s_model := s_model new,
         s_created_at := s_created_at new\<rparr>"

definition upsert_summary ::
  "timestamp \<Rightarrow> uuid \<Rightarrow> rstr option \<Rightarrow> rstr option \<Rightarrow> json \<Rightarrow> json \<Rightarrow> json \<Rightarrow> rstr option \<Rightarrow>
     rstr option \<Rightarrow> db \<Rightarrow> db res" where
  "upsert_summary now rid title summary action_items topics decisions model template d =
     (let s = \<lparr>s_recording_id = rid, s_title = title, s_summary = summary,
               s_action_items = action_items, s_topics = topics, s_decisions = decisions,
               s_model = model,
               s_template = (case template of None \<Rightarrow> lit ''general'' | Some t \<Rightarrow> t),
               s_created_at = now\<rparr>
      in if \<not> has_recording d rid then Inl Database
         else Inr (d\<lparr>summaries := upsert summary_key (replace_summary s) s (summaries d)\<rparr>))"

definition delete_summaries_by_recording :: "uuid \<Rightarrow> db \<Rightarrow> db" where
  "delete_summaries_by_recording rid d =
     d\<lparr>summaries := delete_where (\<lambda>s. s_recording_id s = rid) (summaries d)\<rparr>"

section \<open>Diarized speakers\<close>

definition rs_key :: "rec_speaker \<Rightarrow> uuid \<times> int" where
  "rs_key s = (rs_recording_id s, rs_local_idx s)"

definition replace_rec_speaker :: "rec_speaker \<Rightarrow> rec_speaker \<Rightarrow> rec_speaker" where
  "replace_rec_speaker new old =
     old\<lparr>rs_speaker_id := rs_speaker_id new, rs_embedding := rs_embedding new\<rparr>"

definition has_speaker :: "db \<Rightarrow> uuid option \<Rightarrow> bool" where
  "has_speaker d sid = (case sid of None \<Rightarrow> True | Some i \<Rightarrow> i \<in> sp_id ` set (speakers d))"

definition upsert_recording_speaker ::
  "uuid \<Rightarrow> int \<Rightarrow> uuid option \<Rightarrow> f32 list option \<Rightarrow> db \<Rightarrow> db res" where
  "upsert_recording_speaker rid i sid emb d =
     (let s = \<lparr>rs_recording_id = rid, rs_local_idx = i, rs_speaker_id = sid, rs_embedding = emb\<rparr>
      in if \<not> has_recording d rid \<or> \<not> has_speaker d sid \<or> \<not> width_ok VOICE_WIDTH emb then Inl Database
         else Inr (d\<lparr>recording_speakers :=
                       upsert rs_key (replace_rec_speaker s) s (recording_speakers d)\<rparr>))"

definition prune_recording_speakers :: "uuid \<Rightarrow> int list \<Rightarrow> db \<Rightarrow> nat \<times> db" where
  "prune_recording_speakers rid keep d =
     (let P = (\<lambda>s. rs_recording_id s = rid \<and> rs_local_idx s \<notin> set keep)
      in (rows_affected P (recording_speakers d),
          d\<lparr>recording_speakers := delete_where P (recording_speakers d)\<rparr>))"

definition delete_recording_speaker :: "uuid \<Rightarrow> int \<Rightarrow> db \<Rightarrow> (nat \<times> db) res" where
  "delete_recording_speaker rid i d =
     (let U = (\<lambda>u. u_recording_id u = rid \<and> u_local_idx u = Some i);
          S = (\<lambda>s. rs_recording_id s = rid \<and> rs_local_idx s = i)
      in if rows_affected S (recording_speakers d) = 0 then Inl NotFound
         else Inr (rows_affected U (utterances d),
           d\<lparr>utterances := delete_where U (utterances d),
             recording_speakers := delete_where S (recording_speakers d)\<rparr>))"

text \<open>A listed speaker always has a name: the joined one, else \<open>Speaker N\<close>.\<close>

definition list_recording_speakers :: "db \<Rightarrow> uuid \<Rightarrow> (int \<times> rstr) list" where
  "list_recording_speakers d rid =
     map (\<lambda>s. (rs_local_idx s,
              case display_name_of d rid (rs_local_idx s) of
                Some n \<Rightarrow> n | None \<Rightarrow> speaker_label (rs_local_idx s)))
       (sort_key rs_local_idx (filter (\<lambda>s. rs_recording_id s = rid) (recording_speakers d)))"

definition set_recording_speaker :: "uuid \<Rightarrow> int \<Rightarrow> uuid option \<Rightarrow> db \<Rightarrow> db res" where
  "set_recording_speaker rid i sid d =
     (let S = (\<lambda>s. rs_recording_id s = rid \<and> rs_local_idx s = i)
      in if rows_affected S (recording_speakers d) = 0 then Inl NotFound
         else if \<not> has_speaker d sid then Inl Database
         else Inr (d\<lparr>recording_speakers :=
                       update_where S (\<lambda>s. s\<lparr>rs_speaker_id := sid\<rparr>) (recording_speakers d)\<rparr>))"

section \<open>Enrolled speakers\<close>

definition create_speaker ::
  "uuid \<Rightarrow> timestamp \<Rightarrow> rstr \<Rightarrow> f32 list option \<Rightarrow> db \<Rightarrow> (speaker_row \<times> db) res" where
  "create_speaker new_id now name emb d =
     (if new_id \<in> sp_id ` set (speakers d) \<or> \<not> width_ok VOICE_WIDTH emb then Inl Database
      else let s = \<lparr>sp_id = new_id, sp_display_name = name, sp_embedding = emb, sp_created_at = now\<rparr>
           in Inr (s, d\<lparr>speakers := speakers d @ [s]\<rparr>))"

definition update_speaker :: "uuid \<Rightarrow> (speaker_row \<Rightarrow> speaker_row) \<Rightarrow> db \<Rightarrow> db res" where
  "update_speaker sid f d =
     not_found_if_zero (rows_affected (\<lambda>s. sp_id s = sid) (speakers d))
       (d\<lparr>speakers := update_where (\<lambda>s. sp_id s = sid) f (speakers d)\<rparr>)"

definition set_speaker_embedding :: "uuid \<Rightarrow> f32 list \<Rightarrow> db \<Rightarrow> db res" where
  "set_speaker_embedding sid emb d =
     (if \<not> width_ok VOICE_WIDTH (Some emb) then Inl Database
      else update_speaker sid (\<lambda>s. s\<lparr>sp_embedding := Some emb\<rparr>) d)"

definition rename_speaker :: "uuid \<Rightarrow> rstr \<Rightarrow> db \<Rightarrow> db res" where
  "rename_speaker sid name = update_speaker sid (\<lambda>s. s\<lparr>sp_display_name := name\<rparr>)"

text \<open>\<^verbatim>\<open>ON DELETE SET NULL\<close> on the diarized speakers that pointed at the row.\<close>

definition delete_speaker :: "uuid \<Rightarrow> db \<Rightarrow> db res" where
  "delete_speaker sid d =
     not_found_if_zero (rows_affected (\<lambda>s. sp_id s = sid) (speakers d))
       (d\<lparr>speakers := delete_where (\<lambda>s. sp_id s = sid) (speakers d),
          recording_speakers := update_where (\<lambda>s. rs_speaker_id s = Some sid)
            (\<lambda>s. s\<lparr>rs_speaker_id := None\<rparr>) (recording_speakers d)\<rparr>)"

section \<open>Scratch artifacts\<close>

definition artifact_key :: "artifact_row \<Rightarrow> uuid \<times> rstr" where
  "artifact_key a = (a_recording_id a, a_kind a)"

definition replace_artifact :: "artifact_row \<Rightarrow> artifact_row \<Rightarrow> artifact_row" where
  "replace_artifact new old = old\<lparr>a_data := a_data new, a_created_at := a_created_at new\<rparr>"

definition put_artifact :: "timestamp \<Rightarrow> uuid \<Rightarrow> rstr \<Rightarrow> artifact_data \<Rightarrow> db \<Rightarrow> db res" where
  "put_artifact now rid kind data d =
     (let a = \<lparr>a_recording_id = rid, a_kind = kind, a_data = data, a_created_at = now\<rparr>
      in if \<not> has_recording d rid then Inl Database
         else Inr (d\<lparr>artifacts := upsert artifact_key (replace_artifact a) a (artifacts d)\<rparr>))"

definition get_artifact :: "db \<Rightarrow> uuid \<Rightarrow> rstr \<Rightarrow> artifact_data option" where
  "get_artifact d rid kind =
     map_option a_data (lookup_by artifact_key (rid, kind) (artifacts d))"

definition put_transcript :: "timestamp \<Rightarrow> uuid \<Rightarrow> rstr \<Rightarrow> word_rec list \<Rightarrow> db \<Rightarrow> db res" where
  "put_transcript now rid text words = put_artifact now rid KIND_TRANSCRIPT (TranscriptArtifact text words)"

definition put_diarization :: "timestamp \<Rightarrow> uuid \<Rightarrow> turn_artifact list \<Rightarrow> nat \<Rightarrow> db \<Rightarrow> db res" where
  "put_diarization now rid turns n = put_artifact now rid KIND_DIARIZATION (DiarizationArtifact turns n)"

text \<open>A missing artifact is a stage error, a document of the wrong shape a \<^const>\<open>Serde\<close> one.\<close>

definition get_transcript :: "db \<Rightarrow> uuid \<Rightarrow> (rstr \<times> word_rec list) res" where
  "get_transcript d rid =
     (case get_artifact d rid KIND_TRANSCRIPT of
        None \<Rightarrow> Inl Pipeline
      | Some (TranscriptArtifact t ws) \<Rightarrow> Inr (t, ws)
      | Some _ \<Rightarrow> Inl Serde)"

definition get_diarization :: "db \<Rightarrow> uuid \<Rightarrow> (turn_artifact list \<times> nat) res" where
  "get_diarization d rid =
     (case get_artifact d rid KIND_DIARIZATION of
        None \<Rightarrow> Inl Pipeline
      | Some (DiarizationArtifact ts n) \<Rightarrow> Inr (ts, n)
      | Some _ \<Rightarrow> Inl Serde)"

section \<open>Keyed tables\<close>

interpretation seg_table: keyed_table seg_key refresh_segment
  by unfold_locales (simp add: seg_key_def refresh_segment_def)

interpretation summary_table: keyed_table summary_key replace_summary
  by unfold_locales (simp add: summary_key_def replace_summary_def)

interpretation rs_table: keyed_table rs_key replace_rec_speaker
  by unfold_locales (simp add: rs_key_def replace_rec_speaker_def)

interpretation artifact_table: keyed_table artifact_key replace_artifact
  by unfold_locales (simp add: artifact_key_def replace_artifact_def)

lemma get_put_artifact:
  assumes "put_artifact now rid kind data d = Inr d'"
  shows "get_artifact d' rid kind = Some data"
    and "(r, k) \<noteq> (rid, kind) \<Longrightarrow> get_artifact d' r k = get_artifact d r k"
proof -
  let ?a = "\<lparr>a_recording_id = rid, a_kind = kind, a_data = data, a_created_at = now\<rparr>"
  have key: "artifact_key ?a = (rid, kind)" by (simp add: artifact_key_def)
  have tab: "artifacts d' = upsert artifact_key (replace_artifact ?a) ?a (artifacts d)"
    using assms by (auto simp: put_artifact_def Let_def split: if_splits)
  show "get_artifact d' rid kind = Some data"
    using artifact_table.lookup_upsert_same [of ?a "artifacts d"] unfolding key
    by (auto simp: get_artifact_def tab replace_artifact_def split: option.splits)
  show "get_artifact d' r k = get_artifact d r k" if "(r, k) \<noteq> (rid, kind)"
    using artifact_table.lookup_upsert_other [of "(r, k)" ?a "artifacts d"] that unfolding key
    by (simp add: get_artifact_def tab)
qed

text \<open>
  The hand-off between stages is lossless: what the transcribe and diarize stages put is
  what merge gets, whichever was stored first and however often one is re-run; neither
  overwrites the other, and the artifacts of other recordings stay.
\<close>

theorem artifact_handoff:
  assumes "put_transcript now rid text words d = Inr d1"
    and "put_diarization now' rid turns n d1 = Inr d2"
    and "put_transcript now'' rid text' words' d2 = Inr d3"
  shows "get_transcript d2 rid = Inr (text, words) \<and> get_diarization d2 rid = Inr (turns, n) \<and>
         get_transcript d3 rid = Inr (text', words') \<and> get_diarization d3 rid = Inr (turns, n)"
proof -
  have kinds: "KIND_TRANSCRIPT \<noteq> KIND_DIARIZATION"
    by (simp add: KIND_TRANSCRIPT_def KIND_DIARIZATION_def)
  note p = assms [unfolded put_transcript_def put_diarization_def]
  have "get_artifact d2 rid KIND_TRANSCRIPT = Some (TranscriptArtifact text words)"
    using get_put_artifact(2) [OF p(2), of rid KIND_TRANSCRIPT] get_put_artifact(1) [OF p(1)] kinds
    by simp
  moreover have "get_artifact d2 rid KIND_DIARIZATION = Some (DiarizationArtifact turns n)"
    by (rule get_put_artifact(1) [OF p(2)])
  moreover have "get_artifact d3 rid KIND_TRANSCRIPT = Some (TranscriptArtifact text' words')"
    by (rule get_put_artifact(1) [OF p(3)])
  moreover have "get_artifact d3 rid KIND_DIARIZATION = Some (DiarizationArtifact turns n)"
    using get_put_artifact(2) [OF p(3), of rid KIND_DIARIZATION] calculation(2) kinds by simp
  ultimately show ?thesis by (simp add: get_transcript_def get_diarization_def)
qed

section \<open>Updates of one recording\<close>

lemma update_recording_cases:
  "update_recording rid f d =
     (if has_recording d rid
      then Inr (d\<lparr>recordings := update_where (\<lambda>r. rec_id r = rid) f (recordings d)\<rparr>)
      else Inl NotFound)"
  by (auto simp: update_recording_def not_found_if_zero_def rows_affected_0_iff has_recording_def)

lemma rec_ids_update_where:
  "(\<And>r. rec_id (f r) = rec_id r) \<Longrightarrow> rec_id ` set (update_where P f rs) = rec_id ` set rs"
  using map_update_where [of rec_id f P rs] by (metis list.set_map)

lemma has_recording_update:
  assumes "update_recording rid f d = Inr d'" and "\<And>r. rec_id (f r) = rec_id r"
  shows "has_recording d' = has_recording d"
proof -
  have "recordings d' = update_where (\<lambda>r. rec_id r = rid) f (recordings d)"
    using assms(1) by (auto simp: update_recording_cases split: if_splits)
  then show ?thesis using rec_ids_update_where [of f] assms(2) by (simp add: has_recording_def fun_eq_iff)
qed

lemma lookup_update_where:
  assumes "\<And>r. rec_id (f r) = rec_id r"
  shows "lookup_by rec_id x (update_where P f rs) =
    map_option (\<lambda>r. if P r then f r else r) (lookup_by rec_id x rs)"
  using assms by (induction rs) (auto simp: lookup_by_def update_where_def)

lemma get_recording_append:
  "\<not> has_recording d (rec_id r) \<Longrightarrow>
     get_recording (d\<lparr>recordings := recordings d @ [r]\<rparr>) (rec_id r) = Inr r"
proof -
  assume "\<not> has_recording d (rec_id r)"
  then have "find (\<lambda>x. rec_id x = rec_id r) (recordings d) = None"
    unfolding find_None_iff has_recording_def by (metis image_eqI)
  moreover have "find P xs = None \<Longrightarrow> find P (xs @ [y]) = (if P y then Some y else None)" for P xs and y :: recording
    by (induction xs) (auto split: if_splits)
  ultimately have "find (\<lambda>x. rec_id x = rec_id r) (recordings d @ [r]) = Some r" by simp
  then show ?thesis by (simp add: get_recording_def lookup_by_def)
qed

section \<open>Automatic titles\<close>

definition apply_auto_titles :: "uuid \<Rightarrow> rstr list \<Rightarrow> db \<Rightarrow> db" where
  "apply_auto_titles rid ts d = fold (\<lambda>t d. snd (set_recording_title_auto rid t d)) ts d"

lemma get_recording_title_auto:
  "get_recording (snd (set_recording_title_auto rid t d)) rid =
     map_sum id (\<lambda>r. if title_is_auto r then r\<lparr>rec_title := Some t, rec_title_auto := True\<rparr> else r)
       (get_recording d rid)"
proof -
  have "lookup_by rec_id rid rs = Some r \<Longrightarrow> rec_id r = rid" for rs r
    by (auto simp: lookup_by_def find_Some_iff)
  then show ?thesis
    by (auto simp: get_recording_def set_recording_title_auto_def lookup_update_where split: option.splits)
qed

lemma user_title_fold:
  "get_recording d rid = Inr r \<Longrightarrow> \<not> title_is_auto r \<Longrightarrow>
     get_recording (apply_auto_titles rid ts d) rid = Inr r"
  unfolding apply_auto_titles_def
  by (induction ts arbitrary: d) (simp_all add: get_recording_title_auto)

lemma auto_title_fold:
  "get_recording d rid = Inr r \<Longrightarrow> title_is_auto r \<Longrightarrow> ts \<noteq> [] \<Longrightarrow>
     get_recording (apply_auto_titles rid ts d) rid =
       Inr (r\<lparr>rec_title := Some (last ts), rec_title_auto := True\<rparr>)"
  unfolding apply_auto_titles_def
proof (induction ts arbitrary: d r)
  case (Cons t ts)
  let ?d = "snd (set_recording_title_auto rid t d)"
  let ?r = "r\<lparr>rec_title := Some t, rec_title_auto := True\<rparr>"
  have g: "get_recording ?d rid = Inr ?r" using Cons.prems by (simp add: get_recording_title_auto)
  show ?case
  proof (cases "ts = []")
    case True
    then show ?thesis using g by simp
  next
    case False
    then show ?thesis using Cons.IH [OF g] by (simp add: title_is_auto_def)
  qed
qed simp

text \<open>
  A title the user gave when creating the recording survives any number of automatic
  titles; without one (or with an empty one) the last automatic title stands.
\<close>

theorem user_title_wins:
  assumes "create_recording i now title dev parts fmt rate d = Inr (r, d')" and "ts \<noteq> []"
  shows "get_recording (apply_auto_titles i ts d') i =
    Inr (case title of
           Some (c # cs) \<Rightarrow> r
         | _ \<Rightarrow> r\<lparr>rec_title := Some (last ts), rec_title_auto := True\<rparr>)"
proof -
  have r: "rec_id r = i" "rec_title r = title" "rec_title_auto r = (title = None)"
    and d': "\<not> has_recording d (rec_id r)" "d' = d\<lparr>recordings := recordings d @ [r]\<rparr>"
    using assms(1) by (auto simp: create_recording_def Let_def split: if_splits)
  have g: "get_recording d' i = Inr r" using get_recording_append [OF d'(1)] d'(2) r(1) by simp
  show ?thesis
  proof (cases "title_is_auto r")
    case True
    then have "case title of Some (c # cs) \<Rightarrow> False | _ \<Rightarrow> True"
      by (auto simp: title_is_auto_def r split: option.splits list.splits)
    then show ?thesis using auto_title_fold [OF g True assms(2)]
      by (auto split: option.splits list.splits)
  next
    case False
    then obtain c cs where "title = Some (c # cs)"
      by (cases title; cases "the title") (auto simp: title_is_auto_def r)
    then show ?thesis using user_title_fold [OF g False] by simp
  qed
qed

theorem user_title_wins_witness:
  "\<exists>r d'. create_recording 7 0 (Some (lit ''Board'')) None None None None empty_db = Inr (r, d') \<and>
     get_recording (apply_auto_titles 7 [lit ''A'', lit ''B''] d') 7 = Inr r"
proof -
  obtain r d' where c: "create_recording 7 0 (Some (lit ''Board'')) None None None None empty_db = Inr (r, d')"
    by (simp add: create_recording_def empty_db_def has_recording_def Let_def)
  show ?thesis using user_title_wins [OF c, of "[lit ''A'', lit ''B'']"] c by auto
qed

definition sample_recording :: recording where
  "sample_recording = \<lparr>rec_id = 7, rec_title = None, rec_created_at = 0, rec_device_id = None,
     rec_duration_ms = None, rec_status = Uploading, rec_participants_expected = None,
     rec_audio_format = None, rec_sample_rate = None, rec_storage_key = None, rec_tags = [],
     rec_marks = [], rec_title_auto = True\<rparr>"

definition sample_db :: db where
  "sample_db = empty_db\<lparr>recordings := [sample_recording]\<rparr>"

lemma has_sample [simp]: "has_recording sample_db 7"
  by (simp add: sample_db_def has_recording_def sample_recording_def)

theorem artifact_handoff_witness:
  "\<exists>d1 d2 d3. put_transcript 1 7 (lit ''hi'') [] sample_db = Inr d1 \<and>
     put_diarization 2 7 [] 0 d1 = Inr d2 \<and> put_transcript 3 7 (lit ''ho'') [] d2 = Inr d3 \<and>
     get_transcript d3 7 = Inr (lit ''ho'', []) \<and> get_diarization d3 7 = Inr ([], 0)"
proof -
  have ex: "has_recording d 7 \<Longrightarrow> \<exists>d'. put_artifact n 7 k x d = Inr d' \<and> has_recording d' 7" for n k x d
    by (simp add: put_artifact_def Let_def has_recording_def)
  obtain d1 where d1: "put_transcript 1 7 (lit ''hi'') [] sample_db = Inr d1" "has_recording d1 7"
    using ex [OF has_sample] unfolding put_transcript_def by blast
  obtain d2 where d2: "put_diarization 2 7 [] 0 d1 = Inr d2" "has_recording d2 7"
    using ex [OF d1(2)] unfolding put_diarization_def by blast
  obtain d3 where d3: "put_transcript 3 7 (lit ''ho'') [] d2 = Inr d3"
    using ex [OF d2(2)] unfolding put_transcript_def by blast
  show ?thesis using artifact_handoff [OF d1(1) d2(1) d3] d1(1) d2(1) d3 by blast
qed

section \<open>Deleting and resetting a recording\<close>

text \<open>Everything the tables hold about one recording.\<close>

record recording_rows =
  r_recording :: "recording list"
  r_segments :: "segment list"
  r_jobs :: "job list"
  r_utterances :: "utterance list"
  r_chunks :: "chunk_row list"
  r_summaries :: "summary_row list"
  r_speakers :: "rec_speaker list"
  r_artifacts :: "artifact_row list"

definition rows_of :: "db \<Rightarrow> uuid \<Rightarrow> recording_rows" where
  "rows_of d rid =
     \<lparr>r_recording = filter (\<lambda>r. rec_id r = rid) (recordings d),
      r_segments = filter (\<lambda>s. seg_recording_id s = rid) (segments d),
      r_jobs = filter (\<lambda>j. job_recording_id j = Some rid) (jobs d),
      r_utterances = filter (\<lambda>u. u_recording_id u = rid) (utterances d),
      r_chunks = filter (\<lambda>c. c_recording_id c = rid) (chunks d),
      r_summaries = filter (\<lambda>s. s_recording_id s = rid) (summaries d),
      r_speakers = filter (\<lambda>s. rs_recording_id s = rid) (recording_speakers d),
      r_artifacts = filter (\<lambda>a. a_recording_id a = rid) (artifacts d)\<rparr>"

definition no_rows :: recording_rows where
  "no_rows = \<lparr>r_recording = [], r_segments = [], r_jobs = [], r_utterances = [], r_chunks = [],
     r_summaries = [], r_speakers = [], r_artifacts = []\<rparr>"

lemma filter_delete_same: "(\<And>x. P x \<Longrightarrow> Q x) \<Longrightarrow> filter P (delete_where Q xs) = []"
  by (auto simp: delete_where_def filter_empty_conv)

lemma filter_delete_other: "(\<And>x. P x \<Longrightarrow> \<not> Q x) \<Longrightarrow> filter P (delete_where Q xs) = filter P xs"
  by (induction xs) (auto simp: delete_where_def)

lemma filter_update_other:
  "(\<And>x. P x \<Longrightarrow> \<not> Q x) \<Longrightarrow> (\<And>x. Q x \<Longrightarrow> \<not> P (f x)) \<Longrightarrow> filter P (update_where Q f xs) = filter P xs"
  by (induction xs) (auto simp: update_where_def)

lemma filter_update_same:
  "(\<And>x. P x = P (f x)) \<Longrightarrow> filter P (update_where P f xs) = map f (filter P xs)"
  by (induction xs) (auto simp: update_where_def)

lemmas filter_delete = filter_delete_same filter_delete_other

lemma filter_jobs_other:
  "r \<noteq> rid \<Longrightarrow> (\<And>j. Q j \<Longrightarrow> job_recording_id j = Some rid) \<Longrightarrow>
     filter (\<lambda>j. job_recording_id j = Some r) (delete_where Q js) = filter (\<lambda>j. job_recording_id j = Some r) js"
  by (rule filter_delete_other) force

lemma delete_recording_NotFound: "delete_recording rid d = Inl NotFound \<longleftrightarrow> \<not> has_recording d rid"
  by (auto simp: delete_recording_def not_found_if_zero_def rows_affected_0_iff has_recording_def)

text \<open>
  Deleting a recording removes every row of every child table that belongs to it and not one
  row of any other recording, and no enrolled voice; it succeeds exactly for a known id.
\<close>

theorem delete_recording_cascades:
  assumes "delete_recording rid d = Inr d'"
  shows "has_recording d rid \<and> rows_of d' rid = no_rows \<and>
    (\<forall>r. r \<noteq> rid \<longrightarrow> rows_of d' r = rows_of d r) \<and> speakers d' = speakers d"
proof (intro conjI allI impI)
  have d': "d' = d\<lparr>recordings := delete_where (\<lambda>r. rec_id r = rid) (recordings d),
          segments := delete_where (\<lambda>s. seg_recording_id s = rid) (segments d),
          jobs := delete_where (\<lambda>j. job_recording_id j = Some rid) (jobs d),
          utterances := delete_where (\<lambda>u. u_recording_id u = rid) (utterances d),
          chunks := delete_where (\<lambda>c. c_recording_id c = rid) (chunks d),
          summaries := delete_where (\<lambda>s. s_recording_id s = rid) (summaries d),
          recording_speakers := delete_where (\<lambda>s. rs_recording_id s = rid) (recording_speakers d),
          artifacts := delete_where (\<lambda>a. a_recording_id a = rid) (artifacts d)\<rparr>"
    using assms by (auto simp: delete_recording_def not_found_if_zero_def split: if_splits)
  show "has_recording d rid" using assms delete_recording_NotFound [of rid d] by auto
  show "rows_of d' rid = no_rows" by (simp add: d' rows_of_def no_rows_def filter_delete_same)
  show "rows_of d' r = rows_of d r" if "r \<noteq> rid" for r
    using that by (simp add: d' rows_of_def filter_delete_other filter_jobs_other)
  show "speakers d' = speakers d" by (simp add: d')
qed

theorem delete_recording_cascades_witness:
  "\<exists>d'. delete_recording 7 sample_db = Inr d' \<and> rows_of d' 7 = no_rows"
proof -
  obtain d' where "delete_recording 7 sample_db = Inr d'"
    using delete_recording_NotFound [of 7 sample_db]
    by (auto simp: delete_recording_def not_found_if_zero_def split: if_splits)
  then show ?thesis using delete_recording_cascades by blast
qed

lemma set_status_rows:
  assumes "set_recording_status rid st d = Inr d'"
  shows "rows_of d' r = (if r = rid
     then (rows_of d r)\<lparr>r_recording := map (\<lambda>x. x\<lparr>rec_status := st\<rparr>) (r_recording (rows_of d r))\<rparr>
     else rows_of d r)"
proof -
  have "d' = d\<lparr>recordings := update_where (\<lambda>r. rec_id r = rid) (\<lambda>r. r\<lparr>rec_status := st\<rparr>) (recordings d)\<rparr>"
    using assms by (auto simp: set_recording_status_def update_recording_cases split: if_splits)
  then show ?thesis by (simp add: rows_of_def filter_update_same filter_update_other)
qed

lemma filter_delete_both:
  "filter P (delete_where (\<lambda>x. P x \<and> Q x) xs) = filter (\<lambda>x. \<not> Q x) (filter P xs)"
  by (induction xs) (auto simp: delete_where_def)

lemma reprocess_rows:
  assumes "reset_for_reprocess rid d = Inr d'"
  shows "rows_of d' r = (if r = rid
     then no_rows\<lparr>r_recording := map (\<lambda>x. x\<lparr>rec_status := Processing\<rparr>) (r_recording (rows_of d r)),
                  r_segments := r_segments (rows_of d r)\<rparr>
     else rows_of d r)"
  unfolding set_status_rows [OF assms [unfolded reset_for_reprocess_def]]
  by (simp add: rows_of_def no_rows_def filter_delete_same filter_delete_other filter_jobs_other)

lemma rediarize_rows:
  assumes "reset_for_rediarize rid d = Inr (True, d')"
  shows "rows_of d' r = (if r = rid
     then (rows_of d r)\<lparr>r_recording := map (\<lambda>x. x\<lparr>rec_status := Processing\<rparr>) (r_recording (rows_of d r)),
            r_jobs := filter (\<lambda>j. job_kind j \<notin> {Diarize, Merge, Embed, Summarize}) (r_jobs (rows_of d r)),
            r_utterances := [], r_chunks := [], r_summaries := [], r_speakers := [],
            r_artifacts := filter (\<lambda>a. a_kind a \<noteq> KIND_DIARIZATION) (r_artifacts (rows_of d r))\<rparr>
     else rows_of d r)"
proof -
  let ?d = "d\<lparr>utterances := delete_where (\<lambda>u. u_recording_id u = rid) (utterances d),
              chunks := delete_where (\<lambda>c. c_recording_id c = rid) (chunks d),
              summaries := delete_where (\<lambda>s. s_recording_id s = rid) (summaries d),
              recording_speakers := delete_where (\<lambda>s. rs_recording_id s = rid) (recording_speakers d),
              artifacts := delete_where (\<lambda>a. a_recording_id a = rid \<and> a_kind a = KIND_DIARIZATION) (artifacts d),
              jobs := delete_where (\<lambda>j. job_recording_id j = Some rid \<and>
                        job_kind j \<in> {Diarize, Merge, Embed, Summarize}) (jobs d)\<rparr>"
  have "set_recording_status rid Processing ?d = Inr d'"
    using assms by (auto simp: reset_for_rediarize_def split: if_splits sum.splits)
  note st = set_status_rows [OF this, of r]
  show ?thesis
  proof (cases "r = rid")
    case True
    then show ?thesis unfolding st
      by (simp add: rows_of_def filter_delete_same filter_delete_both)
  next
    case False
    then show ?thesis unfolding st
      by (simp add: rows_of_def filter_jobs_other) (auto intro!: filter_delete_other)
  qed
qed

text \<open>
  A reprocess reset leaves exactly the recording row, now \<open>processing\<close>, and its uploaded
  segments. A re-diarize reset goes ahead exactly when a transcript is stored; it then keeps the
  segments, every artifact but the diarization and every job but those of the stages that run
  again; without a transcript it changes nothing. Neither touches another recording.
\<close>

theorem resets_keep_what_they_should:
  assumes "reset_for_reprocess rid d = Inr d1" and "reset_for_rediarize rid d = Inr (ok, d2)"
  shows "rows_of d1 rid =
      no_rows\<lparr>r_recording := map (\<lambda>x. x\<lparr>rec_status := Processing\<rparr>) (r_recording (rows_of d rid)),
              r_segments := r_segments (rows_of d rid)\<rparr> \<and>
    (ok \<longleftrightarrow> has_transcript d rid) \<and>
    (if ok then rows_of d2 rid =
       (rows_of d rid)\<lparr>r_recording := map (\<lambda>x. x\<lparr>rec_status := Processing\<rparr>) (r_recording (rows_of d rid)),
            r_jobs := filter (\<lambda>j. job_kind j \<notin> {Diarize, Merge, Embed, Summarize}) (r_jobs (rows_of d rid)),
            r_utterances := [], r_chunks := [], r_summaries := [], r_speakers := [],
            r_artifacts := filter (\<lambda>a. a_kind a \<noteq> KIND_DIARIZATION) (r_artifacts (rows_of d rid))\<rparr>
     else d2 = d) \<and>
    (\<forall>r. r \<noteq> rid \<longrightarrow> rows_of d1 r = rows_of d r \<and> rows_of d2 r = rows_of d r)"
proof (cases ok)
  case True
  then have "has_transcript d rid" using assms(2) by (auto simp: reset_for_rediarize_def split: if_splits)
  then show ?thesis
    using reprocess_rows [OF assms(1)] rediarize_rows assms(2) True by simp
next
  case False
  then have "\<not> has_transcript d rid \<and> d2 = d"
    using assms(2) by (auto simp: reset_for_rediarize_def split: if_splits sum.splits)
  then show ?thesis using reprocess_rows [OF assms(1)] False by simp
qed

theorem resets_keep_what_they_should_witness:
  "\<exists>d1 ok d2. reset_for_reprocess 7 sample_db = Inr d1 \<and> reset_for_rediarize 7 sample_db = Inr (ok, d2) \<and>
     (ok \<longleftrightarrow> has_transcript sample_db 7)"
proof -
  have "\<exists>d1. reset_for_reprocess 7 sample_db = Inr d1"
    using has_sample by (simp add: reset_for_reprocess_def set_recording_status_def update_recording_cases
        has_recording_def)
  then obtain d1 where d1: "reset_for_reprocess 7 sample_db = Inr d1" by blast
  have "\<not> has_transcript sample_db 7" by (simp add: has_transcript_def sample_db_def empty_db_def)
  then have d2: "reset_for_rediarize 7 sample_db = Inr (False, sample_db)"
    by (simp add: reset_for_rediarize_def)
  show ?thesis using resets_keep_what_they_should [OF d1 d2] d1 d2 by blast
qed

section \<open>Tags\<close>

lemma remdups_drop_dup: "t \<in> set zs \<Longrightarrow> remdups (ys @ t # zs) = remdups (ys @ zs)"
  by (induction ys) auto

lemma remdups_rev_distinct: "distinct xs \<Longrightarrow> rev (remdups (rev xs)) = xs"
  by (simp add: distinct_remdups_id)

lemma normalize_tags_loop_eq:
  "distinct out \<Longrightarrow> normalize_tags_loop lower out tags =
     rev (remdups (rev (out @ filter (\<lambda>t. t \<noteq> []) (map (\<lambda>t. lower (trim t)) tags))))"
proof (induction tags arbitrary: out)
  case Nil
  then show ?case by (simp add: remdups_rev_distinct)
next
  case (Cons tag tags)
  let ?t = "lower (trim tag)" and ?rest = "filter (\<lambda>t. t \<noteq> []) (map (\<lambda>t. lower (trim t)) tags)"
  consider "?t = []" | "?t \<noteq> []" "?t \<in> set out" | "?t \<noteq> []" "?t \<notin> set out" by blast
  then show ?case
  proof cases
    case 1
    then show ?thesis using Cons by simp
  next
    case 2
    then have "remdups (rev ?rest @ ?t # rev out) = remdups (rev ?rest @ rev out)"
      by (simp add: remdups_drop_dup)
    then show ?thesis using Cons 2 by simp
  next
    case 3
    then show ?thesis using Cons by simp
  qed
qed

text \<open>
  The stored tags are the trimmed, lowercased tags in the order they were first given, each
  once and none empty: the optimised loop is the list specification, for any lowercasing.
\<close>

theorem normalize_tags_spec:
  "normalize_tags lower tags =
     rev (remdups (rev (filter (\<lambda>t. t \<noteq> []) (map (\<lambda>t. lower (trim t)) tags)))) \<and>
   distinct (normalize_tags lower tags) \<and> [] \<notin> set (normalize_tags lower tags) \<and>
   set (normalize_tags lower tags) = (\<lambda>t. lower (trim t)) ` set tags - {[]}"
proof -
  have "normalize_tags lower tags =
     rev (remdups (rev (filter (\<lambda>t. t \<noteq> []) (map (\<lambda>t. lower (trim t)) tags))))"
    using normalize_tags_loop_eq [of "[]"] by (simp add: normalize_tags_def)
  then show ?thesis by auto
qed

end
