(* ===== verification/Scribe_Queue.thy ===== *)
theory Scribe_Queue
  imports Scribe_Store
begin

text \<open>
  The work queue, \<open>crates/scribe-db/src/queue.rs\<close>, over the \<open>jobs\<close> table of \<open>0001_init.sql\<close>. Each
  SQL statement is one step on the table; the partial unique index
  \<^verbatim>\<open>(recording_id, kind) WHERE state IN ('queued','running')\<close> is checked where a statement can
  make a job live, and the trigger that stamps \<open>updated_at\<close> is part of every update.

  Instants and intervals are microseconds. \<open>pick\<close> is the database's free choice among rows the
  claim query ranks equally, \<open>skip\<close> the rows another transaction has locked at that moment.
\<close>

section \<open>The table\<close>

definition LEASE_EXPIRED :: rstr where
  "LEASE_EXPIRED = lit ''worker lease expired: the worker stopped renewing it (crashed, killed, or lost the database)''"

definition WINDOW_CLOSED :: rstr where
  "WINDOW_CLOSED = lit ''paused: the processing window closed while this stage was running; it will be retried when the next window opens''"

definition live :: "job \<Rightarrow> bool" where
  "live j \<longleftrightarrow> job_state j = Queued \<or> job_state j = Running"

text \<open>The keys of the partial unique index; a null recording never conflicts.\<close>

definition live_keys :: "job list \<Rightarrow> (uuid option \<times> job_kind) list" where
  "live_keys js =
     map (\<lambda>j. (job_recording_id j, job_kind j)) (filter (\<lambda>j. live j \<and> job_recording_id j \<noteq> None) js)"

text \<open>An \<^verbatim>\<open>UPDATE jobs\<close>: the trigger stamps the rows, the index accepts or rejects the result.\<close>

definition update_jobs :: "timestamp \<Rightarrow> (job \<Rightarrow> bool) \<Rightarrow> (job \<Rightarrow> job) \<Rightarrow> db \<Rightarrow> db res" where
  "update_jobs now P f d =
     (let js = update_where P (\<lambda>j. (f j)\<lparr>job_updated_at := now\<rparr>) (jobs d)
      in if distinct (live_keys js) then Inr (d\<lparr>jobs := js\<rparr>) else Inl Database)"

definition get_job :: "db \<Rightarrow> int \<Rightarrow> job option" where
  "get_job d jid = lookup_by job_id jid (jobs d)"

section \<open>Enqueue\<close>

definition live_job_for :: "db \<Rightarrow> uuid \<Rightarrow> job_kind \<Rightarrow> job list" where
  "live_job_for d rid kind =
     sort_key job_id (filter (\<lambda>j. job_recording_id j = Some rid \<and> job_kind j = kind \<and> live j) (jobs d))"

definition new_job :: "timestamp \<Rightarrow> int \<Rightarrow> uuid \<Rightarrow> job_kind \<Rightarrow> json \<Rightarrow> int \<Rightarrow> job" where
  "new_job now jid rid kind payload priority =
     \<lparr>job_id = jid, job_recording_id = Some rid, job_kind = kind, job_state = Queued,
      job_priority = priority, job_attempts = 0, job_run_after = now, job_locked_by = None,
      job_locked_at = None, job_payload = payload, job_error = None, job_created_at = now,
      job_updated_at = now\<rparr>"

text \<open>
  \<^verbatim>\<open>INSERT ... ON CONFLICT DO NOTHING\<close>, then the \<^verbatim>\<open>SELECT\<close> of the live job on a conflict. A conflicting
  insert still takes an id from the sequence.
\<close>

definition enqueue_with_priority ::
  "timestamp \<Rightarrow> uuid \<Rightarrow> job_kind \<Rightarrow> json \<Rightarrow> int \<Rightarrow> db \<Rightarrow> (job \<times> db) res" where
  "enqueue_with_priority now rid kind payload priority d =
     (case live_job_for d rid kind of
        j # _ \<Rightarrow> Inr (j, d\<lparr>next_job_id := next_job_id d + 1\<rparr>)
      | [] \<Rightarrow>
          if \<not> has_recording d rid then Inl Database
          else let j = new_job now (next_job_id d) rid kind payload priority
               in Inr (j, d\<lparr>jobs := jobs d @ [j], next_job_id := next_job_id d + 1\<rparr>))"

definition enqueue :: "timestamp \<Rightarrow> uuid \<Rightarrow> job_kind \<Rightarrow> json \<Rightarrow> db \<Rightarrow> (job \<times> db) res" where
  "enqueue now rid kind payload d = enqueue_with_priority now rid kind payload 0 d"

section \<open>Claim\<close>

definition claimable :: "timestamp \<Rightarrow> job_kind list \<Rightarrow> int set \<Rightarrow> job \<Rightarrow> bool" where
  "claimable now kinds skip j \<longleftrightarrow>
     job_state j = Queued \<and> job_kind j \<in> set kinds \<and> job_run_after j \<le> now \<and> job_id j \<notin> skip"

text \<open>\<^verbatim>\<open>ORDER BY priority DESC, created_at\<close>: does the first row come strictly before the second?\<close>

definition ranks_before :: "job \<Rightarrow> job \<Rightarrow> bool" where
  "ranks_before a b \<longleftrightarrow>
     job_priority a > job_priority b \<or>
     (job_priority a = job_priority b \<and> job_created_at a < job_created_at b)"

definition first_claimable :: "timestamp \<Rightarrow> job_kind list \<Rightarrow> int set \<Rightarrow> job list \<Rightarrow> job list" where
  "first_claimable now kinds skip js =
     (let cs = filter (claimable now kinds skip) js
      in filter (\<lambda>a. \<forall>b \<in> set cs. \<not> ranks_before b a) cs)"

definition take_lease :: "timestamp \<Rightarrow> rstr \<Rightarrow> job \<Rightarrow> job" where
  "take_lease now worker j = j\<lparr>job_state := Running, job_locked_by := Some worker, job_locked_at := Some now\<rparr>"

definition claim_one ::
  "(job list \<Rightarrow> job) \<Rightarrow> int set \<Rightarrow> timestamp \<Rightarrow> rstr \<Rightarrow> job_kind list \<Rightarrow> db \<Rightarrow> (job option \<times> db) res" where
  "claim_one pick skip now worker kinds d =
     (if kinds = [] then Inr (None, d)
      else case first_claimable now kinds skip (jobs d) of
        [] \<Rightarrow> Inr (None, d)
      | c # cs \<Rightarrow>
          let jid = job_id (pick (c # cs)) in
          case update_jobs now (\<lambda>j. job_id j = jid) (take_lease now worker) d of
            Inl e \<Rightarrow> Inl e
          | Inr d' \<Rightarrow> Inr (get_job d' jid, d'))"

definition heartbeat :: "timestamp \<Rightarrow> int \<Rightarrow> rstr \<Rightarrow> db \<Rightarrow> (bool \<times> db) res" where
  "heartbeat now jid worker d =
     (let P = (\<lambda>j. job_id j = jid \<and> job_locked_by j = Some worker \<and> job_state j = Running)
      in case update_jobs now P (\<lambda>j. j\<lparr>job_locked_at := Some now\<rparr>) d of
           Inl e \<Rightarrow> Inl e
         | Inr d' \<Rightarrow> Inr (rows_affected P (jobs d) > 0, d'))"

section \<open>Settling a job\<close>

definition complete :: "timestamp \<Rightarrow> int \<Rightarrow> db \<Rightarrow> db res" where
  "complete now jid d =
     update_jobs now (\<lambda>j. job_id j = jid)
       (\<lambda>j. j\<lparr>job_state := Done, job_locked_by := None, job_locked_at := None, job_error := None\<rparr>) d"

text \<open>
  \<open>fail\<close> is two statements. The \<^verbatim>\<open>SELECT\<close> reads the attempts; the \<^verbatim>\<open>UPDATE\<close> writes the number that was
  read plus one, whatever the row says by then. The back-off doubles with each attempt; the
  floating-point factor is exact for the powers of two that occur.
\<close>

definition read_attempts :: "int \<Rightarrow> db \<Rightarrow> int res" where
  "read_attempts jid d = (case get_job d jid of None \<Rightarrow> Inl Database | Some j \<Rightarrow> Inr (job_attempts j))"

definition fail_delay :: "int \<Rightarrow> int \<Rightarrow> int" where
  "fail_delay backoff next_attempts = max backoff 0 * 2 ^ nat (next_attempts - 1)"

definition write_failure :: "timestamp \<Rightarrow> int \<Rightarrow> int \<Rightarrow> rstr \<Rightarrow> int \<Rightarrow> int \<Rightarrow> db \<Rightarrow> (bool \<times> db) res" where
  "write_failure now jid next_attempts err max_attempts backoff d =
     (if next_attempts < max_attempts then
        (case update_jobs now (\<lambda>j. job_id j = jid)
           (\<lambda>j. j\<lparr>job_state := Queued, job_attempts := next_attempts, job_error := Some err,
                  job_locked_by := None, job_locked_at := None,
                  job_run_after := now + fail_delay backoff next_attempts\<rparr>) d of
           Inl e \<Rightarrow> Inl e | Inr d' \<Rightarrow> Inr (True, d'))
      else
        (case update_jobs now (\<lambda>j. job_id j = jid)
           (\<lambda>j. j\<lparr>job_state := Failed, job_attempts := next_attempts, job_error := Some err,
                  job_locked_by := None, job_locked_at := None\<rparr>) d of
           Inl e \<Rightarrow> Inl e | Inr d' \<Rightarrow> Inr (False, d')))"

definition fail :: "timestamp \<Rightarrow> int \<Rightarrow> rstr \<Rightarrow> int \<Rightarrow> int \<Rightarrow> db \<Rightarrow> (bool \<times> db) res" where
  "fail now jid err max_attempts backoff d =
     (case read_attempts jid d of
        Inl e \<Rightarrow> Inl e
      | Inr n \<Rightarrow> write_failure now jid (n + 1) err max_attempts backoff d)"

definition defer_job :: "timestamp \<Rightarrow> int \<Rightarrow> rstr \<Rightarrow> int \<Rightarrow> db \<Rightarrow> db res" where
  "defer_job now jid note delay d =
     update_jobs now (\<lambda>j. job_id j = jid)
       (\<lambda>j. j\<lparr>job_state := Queued, job_locked_by := None, job_locked_at := None,
              job_error := Some note, job_run_after := now + delay\<rparr>) d"

section \<open>Reaping\<close>

record reaped_job =
  rj_id :: int
  rj_recording_id :: "uuid option"
  rj_exhausted :: bool

definition lease_expired :: "timestamp \<Rightarrow> int \<Rightarrow> job \<Rightarrow> bool" where
  "lease_expired now older_than j \<longleftrightarrow>
     job_state j = Running \<and>
     (case job_locked_at j of None \<Rightarrow> False | Some at \<Rightarrow> at < now - older_than)"

definition reap :: "int \<Rightarrow> job \<Rightarrow> job" where
  "reap max_attempts j =
     j\<lparr>job_attempts := job_attempts j + 1,
       job_state := (if job_attempts j + 1 \<ge> max_attempts then Failed else Queued),
       job_error := Some LEASE_EXPIRED, job_locked_by := None, job_locked_at := None\<rparr>"

definition reap_stuck :: "timestamp \<Rightarrow> int \<Rightarrow> int \<Rightarrow> db \<Rightarrow> (reaped_job list \<times> db) res" where
  "reap_stuck now older_than max_attempts d =
     (case update_jobs now (lease_expired now older_than) (reap max_attempts) d of
        Inl e \<Rightarrow> Inl e
      | Inr d' \<Rightarrow>
          Inr (map (\<lambda>j. \<lparr>rj_id = job_id j, rj_recording_id = job_recording_id j,
                         rj_exhausted = (job_state (reap max_attempts j) = Failed)\<rparr>)
                 (filter (lease_expired now older_than) (jobs d)), d'))"

section \<open>Queries\<close>

definition done_for :: "db \<Rightarrow> uuid \<Rightarrow> job_kind \<Rightarrow> bool" where
  "done_for d rid k \<longleftrightarrow>
     (\<exists>j \<in> set (jobs d). job_recording_id j = Some rid \<and> job_kind j = k \<and> job_state j = Done)"

text \<open>\<^verbatim>\<open>count(DISTINCT kind)\<close> of the done jobs among the given kinds.\<close>

definition count_done_kinds :: "db \<Rightarrow> uuid \<Rightarrow> job_kind list \<Rightarrow> nat" where
  "count_done_kinds d rid ks =
     length (remdups (map job_kind (filter (\<lambda>j. job_recording_id j = Some rid \<and>
        job_kind j \<in> set ks \<and> job_state j = Done) (jobs d))))"

definition predecessors_done :: "db \<Rightarrow> uuid \<Rightarrow> job_kind \<Rightarrow> bool" where
  "predecessors_done d rid kind =
     (let preds = predecessors kind in
      if preds = [] then True else count_done_kinds d rid preds = length preds)"

definition delete_jobs_by_recording :: "uuid \<Rightarrow> db \<Rightarrow> nat \<times> db" where
  "delete_jobs_by_recording rid d =
     (rows_affected (\<lambda>j. job_recording_id j = Some rid) (jobs d),
      d\<lparr>jobs := delete_where (\<lambda>j. job_recording_id j = Some rid) (jobs d)\<rparr>)"

definition list_jobs_by_recording :: "db \<Rightarrow> uuid \<Rightarrow> job list" where
  "list_jobs_by_recording d rid =
     sort_key job_id (filter (\<lambda>j. job_recording_id j = Some rid) (jobs d))"

record queue_backlog =
  bl_queued :: nat
  bl_running :: nat
  bl_failed :: nat
  bl_recordings_waiting :: nat

text \<open>\<^verbatim>\<open>count(DISTINCT recording_id)\<close> does not count nulls.\<close>

definition backlog :: "db \<Rightarrow> queue_backlog" where
  "backlog d =
     (let gated = filter (\<lambda>k. \<not> bypasses_schedule k) ALL_KINDS in
      \<lparr>bl_queued = length (filter (\<lambda>j. job_state j = Queued) (jobs d)),
       bl_running = length (filter (\<lambda>j. job_state j = Running) (jobs d)),
       bl_failed = length (filter (\<lambda>j. job_state j = Failed) (jobs d)),
       bl_recordings_waiting =
         length (remdups (filter (\<lambda>r. r \<noteq> None) (map job_recording_id
           (filter (\<lambda>j. job_state j = Queued \<and> job_kind j \<in> set gated) (jobs d)))))\<rparr>)"

section \<open>The queue invariant\<close>

definition lease_ok :: "job \<Rightarrow> bool" where
  "lease_ok j \<longleftrightarrow> (job_state j = Running \<longleftrightarrow> job_locked_by j \<noteq> None) \<and>
                 (job_locked_by j = None \<longleftrightarrow> job_locked_at j = None)"

definition job_ok :: "db \<Rightarrow> job \<Rightarrow> bool" where
  "job_ok d j \<longleftrightarrow> lease_ok j \<and> 0 \<le> job_attempts j \<and> job_id j < next_job_id d \<and>
     (case job_recording_id j of None \<Rightarrow> True | Some r \<Rightarrow> has_recording d r)"

definition queue_ok :: "db \<Rightarrow> bool" where
  "queue_ok d \<longleftrightarrow> distinct (map job_id (jobs d)) \<and> distinct (live_keys (jobs d)) \<and>
     (\<forall>j \<in> set (jobs d). job_ok d j)"

lemma live_keys_Nil [simp]: "live_keys [] = []"
  by (simp add: live_keys_def)

lemma live_keys_Cons:
  "live_keys (j # js) =
     (if live j \<and> job_recording_id j \<noteq> None then (job_recording_id j, job_kind j) # live_keys js
      else live_keys js)"
  by (simp add: live_keys_def)

lemma live_keys_append [simp]: "live_keys (xs @ ys) = live_keys xs @ live_keys ys"
  by (simp add: live_keys_def)

lemma set_live_keys:
  "set (live_keys js) = {(job_recording_id j, job_kind j) | j. j \<in> set js \<and> live j \<and> job_recording_id j \<noteq> None}"
  by (auto simp: live_keys_def)

text \<open>An update that makes no job live keeps the index satisfied.\<close>

lemma live_keys_update:
  assumes "\<And>j. job_recording_id (f j) = job_recording_id j" "\<And>j. job_kind (f j) = job_kind j"
    and "\<And>j. j \<in> set js \<Longrightarrow> P j \<Longrightarrow> live (f j) \<Longrightarrow> live j"
  shows "set (live_keys (update_where P f js)) \<subseteq> set (live_keys js) \<and>
    (distinct (live_keys js) \<longrightarrow> distinct (live_keys (update_where P f js)))"
  using assms(3)
proof (induction js)
  case (Cons j js)
  let ?u = "update_where P f js"
  have IH: "set (live_keys ?u) \<subseteq> set (live_keys js)"
    "distinct (live_keys js) \<Longrightarrow> distinct (live_keys ?u)"
    using Cons by simp_all
  have u: "update_where P f (j # js) = (if P j then f j else j) # ?u" by (simp add: update_where_def)
  have l: "P j \<Longrightarrow> live (f j) \<Longrightarrow> live j" using Cons.prems by simp
  show ?case using IH l by (auto simp: u live_keys_Cons assms(1,2))
qed (simp add: update_where_def)

lemma live_updated_at [simp]: "live (j\<lparr>job_updated_at := t\<rparr>) = live j"
  by (simp add: live_def)

lemma lease_ok_updated_at [simp]: "lease_ok (j\<lparr>job_updated_at := t\<rparr>) = lease_ok j"
  by (simp add: lease_ok_def)

lemma update_jobs_total:
  assumes "distinct (live_keys (jobs d))"
    and "\<And>j. job_recording_id (f j) = job_recording_id j" "\<And>j. job_kind (f j) = job_kind j"
    and "\<And>j. j \<in> set (jobs d) \<Longrightarrow> P j \<Longrightarrow> live (f j) \<Longrightarrow> live j"
  shows "update_jobs now P f d =
    Inr (d\<lparr>jobs := update_where P (\<lambda>j. (f j)\<lparr>job_updated_at := now\<rparr>) (jobs d)\<rparr>)"
  using live_keys_update [of "\<lambda>j. (f j)\<lparr>job_updated_at := now\<rparr>" "jobs d" P] assms
  by (simp add: update_jobs_def Let_def)

lemma update_jobs_Inr:
  "update_jobs now P f d = Inr d' \<Longrightarrow>
     d' = d\<lparr>jobs := update_where P (\<lambda>j. (f j)\<lparr>job_updated_at := now\<rparr>) (jobs d)\<rparr> \<and>
     distinct (live_keys (jobs d'))"
  by (auto simp: update_jobs_def Let_def split: if_splits)

lemma update_jobs_ok:
  assumes ok: "queue_ok d" and up: "update_jobs now P f d = Inr d'"
    and keep: "\<And>j. job_id (f j) = job_id j" "\<And>j. job_recording_id (f j) = job_recording_id j"
    and new: "\<And>j. job_ok d j \<Longrightarrow> P j \<Longrightarrow> lease_ok (f j) \<and> 0 \<le> job_attempts (f j)"
  shows "queue_ok d'"
proof -
  note u = update_jobs_Inr [OF up]
  have "map job_id (jobs d') = map job_id (jobs d)"
    using u map_update_where [of job_id "\<lambda>j. (f j)\<lparr>job_updated_at := now\<rparr>" P "jobs d"] keep by simp
  moreover have "job_ok d' j" if "j \<in> set (jobs d')" for j
  proof -
    have "j \<in> (\<lambda>j. if P j then (f j)\<lparr>job_updated_at := now\<rparr> else j) ` set (jobs d)"
      using that u by (simp add: set_update_where)
    then obtain j0 where j0: "j0 \<in> set (jobs d)" "j = (if P j0 then (f j0)\<lparr>job_updated_at := now\<rparr> else j0)"
      by blast
    have "job_ok d j0" using ok j0(1) by (simp add: queue_ok_def)
    moreover have "has_recording d' = has_recording d" "next_job_id d' = next_job_id d"
      using u by (auto simp: has_recording_def fun_eq_iff)
    ultimately show ?thesis using j0 new keep
      by (cases "P j0") (auto simp: job_ok_def split: option.splits)
  qed
  moreover have "distinct (live_keys (jobs d'))" using u by blast
  moreover have "distinct (map job_id (jobs d))" using ok by (simp add: queue_ok_def)
  ultimately show ?thesis unfolding queue_ok_def by metis
qed

lemma get_job_Some: "get_job d jid = Some j \<Longrightarrow> j \<in> set (jobs d) \<and> job_id j = jid"
  by (auto simp: get_job_def lookup_by_def find_Some_iff)

lemma get_job_mem: "queue_ok d \<Longrightarrow> j \<in> set (jobs d) \<Longrightarrow> get_job d (job_id j) = Some j"
proof -
  assume ok: "queue_ok d" and j: "j \<in> set (jobs d)"
  then have "find (\<lambda>x. job_id x = job_id j) (jobs d) \<noteq> None" unfolding find_None_iff by blast
  then obtain x where x: "get_job d (job_id j) = Some x" by (auto simp: get_job_def lookup_by_def)
  then have "x = j" using get_job_Some [OF x] j ok unfolding queue_ok_def by (blast intro: distinct_map_eqD)
  with x show ?thesis by simp
qed

subsection \<open>Every operation keeps it\<close>

lemma live_job_for_mem:
  "set (live_job_for d rid kind) =
     {j \<in> set (jobs d). job_recording_id j = Some rid \<and> job_kind j = kind \<and> live j}"
  by (simp add: live_job_for_def)

lemma enqueue_cases:
  assumes "enqueue_with_priority now rid kind payload pr d = Inr (j, d')"
  obtains (existing) "j \<in> set (jobs d)" "job_recording_id j = Some rid" "job_kind j = kind" "live j"
      "d' = d\<lparr>next_job_id := next_job_id d + 1\<rparr>"
    | (fresh) "live_job_for d rid kind = []" "has_recording d rid"
      "j = new_job now (next_job_id d) rid kind payload pr"
      "d' = d\<lparr>jobs := jobs d @ [j], next_job_id := next_job_id d + 1\<rparr>"
proof (cases "live_job_for d rid kind")
  case Nil
  then show ?thesis using assms fresh
    by (auto simp: enqueue_with_priority_def Let_def split: if_splits)
next
  case (Cons x xs)
  then have "x \<in> set (live_job_for d rid kind)" by simp
  then show ?thesis using assms existing Cons
    unfolding live_job_for_mem by (auto simp: enqueue_with_priority_def)
qed

lemma job_ok_next: "job_ok d j \<Longrightarrow> next_job_id d \<le> next_job_id d' \<Longrightarrow> has_recording d' = has_recording d \<Longrightarrow> job_ok d' j"
  by (auto simp: job_ok_def split: option.splits)

lemma enqueue_ok:
  assumes ok: "queue_ok d" and e: "enqueue_with_priority now rid kind payload pr d = Inr (j, d')"
  shows "queue_ok d'"
  using e
proof (cases rule: enqueue_cases)
  case existing
  have "\<forall>x \<in> set (jobs d). job_ok d' x"
    using ok existing(5) by (auto simp: queue_ok_def has_recording_def fun_eq_iff intro: job_ok_next)
  then show ?thesis using ok existing(5) by (simp add: queue_ok_def)
next
  case fresh
  have hr: "has_recording d' = has_recording d" using fresh(4) by (auto simp: has_recording_def fun_eq_iff)
  have old: "\<forall>x \<in> set (jobs d). job_ok d' x"
    using ok fresh(4) hr by (auto simp: queue_ok_def intro: job_ok_next)
  have new: "job_ok d' j" using fresh hr by (simp add: job_ok_def new_job_def lease_ok_def)
  have "(Some rid, kind) \<notin> set (live_keys (jobs d))"
    using fresh(1) live_job_for_mem [of d rid kind] by (auto simp: set_live_keys)
  moreover have "live_keys [j] = [(Some rid, kind)]" by (simp add: fresh(3) live_keys_def new_job_def live_def)
  moreover have "job_id j \<notin> job_id ` set (jobs d)"
    using ok fresh(3) by (force simp: queue_ok_def job_ok_def new_job_def)
  ultimately show ?thesis using ok old new fresh(4) by (auto simp: queue_ok_def)
qed

lemma complete_total:
  "queue_ok d \<Longrightarrow> \<exists>d'. complete now jid d = Inr d'"
  unfolding complete_def
  by (subst update_jobs_total) (auto simp: queue_ok_def live_def)

lemma complete_ok: "queue_ok d \<Longrightarrow> complete now jid d = Inr d' \<Longrightarrow> queue_ok d'"
  unfolding complete_def
  by (erule update_jobs_ok, assumption) (simp_all add: job_ok_def lease_ok_def)

lemma defer_ok: "queue_ok d \<Longrightarrow> defer_job now jid note delay d = Inr d' \<Longrightarrow> queue_ok d'"
  unfolding defer_job_def
  by (erule update_jobs_ok, assumption) (simp_all add: job_ok_def lease_ok_def)

lemma write_failure_cases:
  assumes "write_failure now jid n err m b d = Inr (r, d')"
  obtains f where "update_jobs now (\<lambda>j. job_id j = jid) f d = Inr d'" "r = (n < m)"
    "f = (if r then (\<lambda>j. j\<lparr>job_state := Queued, job_attempts := n, job_error := Some err,
                      job_locked_by := None, job_locked_at := None,
                      job_run_after := now + fail_delay b n\<rparr>)
          else (\<lambda>j. j\<lparr>job_state := Failed, job_attempts := n, job_error := Some err,
                      job_locked_by := None, job_locked_at := None\<rparr>))"
  using assms by (auto simp: write_failure_def split: if_splits sum.splits)

lemma fail_cases:
  assumes "fail now jid err m b d = Inr (r, d')"
  obtains j0 where "get_job d jid = Some j0"
    "write_failure now jid (job_attempts j0 + 1) err m b d = Inr (r, d')"
  using assms by (auto simp: fail_def read_attempts_def split: option.splits)

lemma write_failure_ok:
  assumes ok: "queue_ok d" and n: "0 \<le> n" and w: "write_failure now jid n err m b d = Inr (r, d')"
  shows "queue_ok d'"
proof -
  from w obtain f where u: "update_jobs now (\<lambda>j. job_id j = jid) f d = Inr d'"
    and f: "f = (if r then (\<lambda>j. j\<lparr>job_state := Queued, job_attempts := n, job_error := Some err,
                      job_locked_by := None, job_locked_at := None,
                      job_run_after := now + fail_delay b n\<rparr>)
          else (\<lambda>j. j\<lparr>job_state := Failed, job_attempts := n, job_error := Some err,
                      job_locked_by := None, job_locked_at := None\<rparr>))"
    by (rule write_failure_cases)
  show ?thesis using n by (intro update_jobs_ok [OF ok u]) (simp_all add: f lease_ok_def)
qed

lemma fail_ok: "queue_ok d \<Longrightarrow> fail now jid err m b d = Inr (r, d') \<Longrightarrow> queue_ok d'"
proof (erule fail_cases)
  fix j0
  assume ok: "queue_ok d" and j0: "get_job d jid = Some j0"
    and w: "write_failure now jid (job_attempts j0 + 1) err m b d = Inr (r, d')"
  have "0 \<le> job_attempts j0" using get_job_Some [OF j0] ok by (auto simp: queue_ok_def job_ok_def)
  then show "queue_ok d'" using write_failure_ok [OF ok _ w] by simp
qed

lemma reap_ok: "queue_ok d \<Longrightarrow> reap_stuck now older m d = Inr (rs, d') \<Longrightarrow> queue_ok d'"
proof -
  assume ok: "queue_ok d" and "reap_stuck now older m d = Inr (rs, d')"
  then have u: "update_jobs now (lease_expired now older) (reap m) d = Inr d'"
    by (auto simp: reap_stuck_def split: sum.splits)
  show ?thesis by (rule update_jobs_ok [OF ok u]) (simp_all add: reap_def job_ok_def lease_ok_def)
qed

lemma heartbeat_ok: "queue_ok d \<Longrightarrow> heartbeat now jid w d = Inr (b, d') \<Longrightarrow> queue_ok d'"
proof -
  assume ok: "queue_ok d" and "heartbeat now jid w d = Inr (b, d')"
  then have u: "update_jobs now (\<lambda>j. job_id j = jid \<and> job_locked_by j = Some w \<and> job_state j = Running)
      (\<lambda>j. j\<lparr>job_locked_at := Some now\<rparr>) d = Inr d'"
    by (auto simp: heartbeat_def Let_def split: sum.splits)
  show ?thesis by (rule update_jobs_ok [OF ok u]) (simp_all add: job_ok_def lease_ok_def)
qed

section \<open>Claiming\<close>

definition pick_ok :: "(job list \<Rightarrow> job) \<Rightarrow> bool" where
  "pick_ok pick \<longleftrightarrow> (\<forall>xs. xs \<noteq> [] \<longrightarrow> pick xs \<in> set xs)"

lemma ranks_before_minimal:
  assumes "xs \<noteq> []"
  shows "\<exists>m \<in> set xs. \<forall>x \<in> set xs. \<not> ranks_before x m"
proof -
  have "asymp_on (set xs) ranks_before" "transp_on (set xs) ranks_before"
    by (auto simp: asymp_on_def transp_on_def ranks_before_def)
  then obtain m where "m \<in> set xs" "\<forall>x \<in> set xs. x \<noteq> m \<longrightarrow> \<not> ranks_before x m"
    using Finite_Set.bex_min_element [of "set xs" ranks_before] assms by auto
  moreover have "\<not> ranks_before m m" by (simp add: ranks_before_def)
  ultimately show ?thesis by metis
qed

lemma first_claimable_Nil:
  "first_claimable now kinds skip js = [] \<longleftrightarrow> (\<forall>j \<in> set js. \<not> claimable now kinds skip j)"
proof (cases "filter (claimable now kinds skip) js = []")
  case True
  then show ?thesis by (simp add: first_claimable_def filter_empty_conv)
next
  case False
  from ranks_before_minimal [OF False] show ?thesis using False
    by (auto simp: first_claimable_def Let_def filter_empty_conv)
qed

lemma set_first_claimable:
  "set (first_claimable now kinds skip js) =
     {j \<in> set js. claimable now kinds skip j \<and>
        (\<forall>b \<in> set js. claimable now kinds skip b \<longrightarrow> \<not> ranks_before b j)}"
  by (auto simp: first_claimable_def Let_def)

lemma update_where_unique:
  assumes "distinct (map job_id js)" "j0 \<in> set js"
  shows "update_where (\<lambda>j. job_id j = job_id j0) f js = map (\<lambda>x. if x = j0 then f j0 else x) js"
  using distinct_map_eqD [OF assms(1)] assms(2) by (auto simp: update_where_def)

definition leased :: "timestamp \<Rightarrow> rstr \<Rightarrow> job \<Rightarrow> job" where
  "leased now worker j = (take_lease now worker j)\<lparr>job_updated_at := now\<rparr>"

lemma claim_one_cases:
  assumes ok: "queue_ok d" and pick: "pick_ok pick"
  obtains (none) "claim_one pick skip now w kinds d = Inr (None, d)"
      "\<forall>j \<in> set (jobs d). \<not> claimable now kinds skip j"
    | (some) j0 where "j0 \<in> set (first_claimable now kinds skip (jobs d))"
      "claim_one pick skip now w kinds d = Inr (Some (leased now w j0),
         d\<lparr>jobs := map (\<lambda>x. if x = j0 then leased now w j0 else x) (jobs d)\<rparr>)"
      "queue_ok (d\<lparr>jobs := map (\<lambda>x. if x = j0 then leased now w j0 else x) (jobs d)\<rparr>)"
proof (cases "first_claimable now kinds skip (jobs d)")
  case Nil
  then show ?thesis using none first_claimable_Nil [of now kinds skip "jobs d"]
    by (simp add: claim_one_def)
next
  case (Cons c cs)
  let ?j = "pick (c # cs)"
  have mem: "?j \<in> set (first_claimable now kinds skip (jobs d))"
    using pick Cons by (simp add: pick_ok_def del: list.set)
  then have j: "?j \<in> set (jobs d)" "claimable now kinds skip ?j" by (simp_all add: set_first_claimable)
  have u: "update_where (\<lambda>j. job_id j = job_id ?j) (leased now w) (jobs d) =
      map (\<lambda>x. if x = ?j then leased now w ?j else x) (jobs d)"
    using ok j(1) by (simp add: update_where_unique queue_ok_def)
  let ?d = "d\<lparr>jobs := map (\<lambda>x. if x = ?j then leased now w ?j else x) (jobs d)\<rparr>"
  have up: "update_jobs now (\<lambda>j. job_id j = job_id ?j) (take_lease now w) d = Inr ?d"
  proof (subst update_jobs_total)
    fix x assume "x \<in> set (jobs d)" "job_id x = job_id ?j"
    then have "x = ?j" using ok j(1) unfolding queue_ok_def by (blast intro: distinct_map_eqD)
    then show "live x" using j(2) by (simp add: claimable_def live_def)
  qed (use ok u in \<open>simp_all add: queue_ok_def take_lease_def leased_def [abs_def]\<close>)
  have ok': "queue_ok ?d"
    by (rule update_jobs_ok [OF ok up]) (simp_all add: take_lease_def lease_ok_def job_ok_def)
  have "leased now w ?j \<in> set (jobs ?d)" using j(1) by force
  from get_job_mem [OF ok' this] have "get_job ?d (job_id ?j) = Some (leased now w ?j)"
    by (simp add: leased_def take_lease_def)
  moreover have "kinds \<noteq> []" using j(2) by (auto simp: claimable_def)
  ultimately show ?thesis using some [OF mem _ ok'] Cons up by (simp add: claim_one_def Let_def)
qed

lemma claim_one_result:
  assumes "queue_ok d" and "pick_ok pick"
  shows "case claim_one pick skip now w kinds d of
      Inl e \<Rightarrow> False
    | Inr (None, d') \<Rightarrow> d' = d \<and> (\<forall>j \<in> set (jobs d). \<not> claimable now kinds skip j)
    | Inr (Some j, d') \<Rightarrow>
        queue_ok d' \<and> job_state j = Running \<and> job_locked_by j = Some w \<and> job_locked_at j = Some now \<and>
        (\<exists>j0 \<in> set (jobs d). claimable now kinds skip j0 \<and>
           (\<forall>b \<in> set (jobs d). claimable now kinds skip b \<longrightarrow> \<not> ranks_before b j0) \<and>
           j = leased now w j0 \<and>
           d' = d\<lparr>jobs := map (\<lambda>x. if x = j0 then j else x) (jobs d)\<rparr>)"
proof (cases rule: claim_one_cases [OF assms, of skip now w kinds, case_names none some])
  case none
  then show ?thesis by simp
next
  case (some j0)
  let ?d = "d\<lparr>jobs := map (\<lambda>x. if x = j0 then leased now w j0 else x) (jobs d)\<rparr>"
  have j0: "j0 \<in> set (jobs d)" "claimable now kinds skip j0"
    "\<forall>b \<in> set (jobs d). claimable now kinds skip b \<longrightarrow> \<not> ranks_before b j0"
    using some(1) by (auto simp: set_first_claimable)
  show ?thesis using some(2,3) j0 by (auto simp: leased_def take_lease_def)
qed

text \<open>
  C4: on a well-formed queue a claim never errors. A row may be claimed when it is queued, of a wanted
  kind, due, and not locked by another transaction. The claim answers nothing exactly when there is
  no such row; otherwise it takes one that no other such row outranks by priority, then age, makes it
  \<open>running\<close> under a fresh lease of this worker, and changes no other row.
\<close>

theorem claim_one_spec:
  assumes "queue_ok d" and "pick_ok pick"
  shows "let ready = (\<lambda>x. job_state x = Queued \<and> job_kind x \<in> set kinds \<and> job_run_after x \<le> now \<and>
        job_id x \<notin> skip)
    in case claim_one pick skip now w kinds d of
      Inl e \<Rightarrow> False
    | Inr (None, d') \<Rightarrow> d' = d \<and> (\<forall>x \<in> set (jobs d). \<not> ready x)
    | Inr (Some j, d') \<Rightarrow>
        queue_ok d' \<and>
        (\<exists>j0 \<in> set (jobs d). ready j0 \<and>
           (\<forall>b \<in> set (jobs d). ready b \<longrightarrow> job_priority b < job_priority j0 \<or>
              (job_priority b = job_priority j0 \<and> job_created_at j0 \<le> job_created_at b)) \<and>
           j = j0\<lparr>job_state := Running, job_locked_by := Some w, job_locked_at := Some now,
                  job_updated_at := now\<rparr> \<and>
           d' = d\<lparr>jobs := map (\<lambda>x. if x = j0 then j else x) (jobs d)\<rparr>)"
proof (cases rule: claim_one_cases [OF assms, of skip now w kinds, case_names none some])
  case none
  then show ?thesis by (simp add: claimable_def)
next
  case (some j0)
  have j0: "j0 \<in> set (jobs d)" "claimable now kinds skip j0"
    "\<forall>b \<in> set (jobs d). claimable now kinds skip b \<longrightarrow> \<not> ranks_before b j0"
    using some(1) by (auto simp: set_first_claimable)
  have "\<forall>b \<in> set (jobs d). claimable now kinds skip b \<longrightarrow> job_priority b < job_priority j0 \<or>
      (job_priority b = job_priority j0 \<and> job_created_at j0 \<le> job_created_at b)"
    using j0(3) by (force simp: ranks_before_def)
  then show ?thesis using some(2,3) j0(1,2)
    by (auto simp: claimable_def leased_def take_lease_def intro!: bexI [of _ j0])
qed

text \<open>A queue with one job of the sample recording.\<close>

definition demo_job :: job where
  "demo_job = new_job 1 1 7 Transcode (JObject []) 0"

definition demo_db :: db where
  "demo_db = sample_db\<lparr>jobs := [demo_job], next_job_id := 2\<rparr>"

lemma demo_ok: "queue_ok demo_db"
  by (simp add: demo_db_def demo_job_def new_job_def queue_ok_def live_keys_def live_def job_ok_def
      lease_ok_def has_recording_def sample_db_def sample_recording_def)

lemma pick_ok_hd [simp]: "pick_ok hd"
  by (simp add: pick_ok_def)

lemma demo_claim:
  "claim_one hd {} 5 w ALL_KINDS demo_db =
     Inr (Some (leased 5 w demo_job), demo_db\<lparr>jobs := [leased 5 w demo_job]\<rparr>)"
  by (simp add: claim_one_def ALL_KINDS_def first_claimable_def demo_db_def demo_job_def new_job_def
      claimable_def update_jobs_def update_where_def live_keys_def get_job_def lookup_by_def
      ranks_before_def leased_def take_lease_def)

theorem claim_one_spec_witness:
  "queue_ok demo_db \<and> pick_ok hd \<and>
   (\<exists>j0 \<in> set (jobs demo_db). job_state j0 = Queued \<and> job_run_after j0 \<le> 5 \<and>
      claim_one hd {} 5 (lit ''w'') ALL_KINDS demo_db =
        Inr (Some (leased 5 (lit ''w'') j0), demo_db\<lparr>jobs := [leased 5 (lit ''w'') j0]\<rparr>))"
  using claim_one_spec [OF demo_ok pick_ok_hd, where skip = "{}" and now = 5 and w = "lit ''w''" and kinds = ALL_KINDS] demo_ok
  unfolding demo_claim by (auto simp: demo_db_def leased_def take_lease_def)

section \<open>Exclusive leases\<close>

text \<open>
  Two claims in a row, by any workers for any kinds, never hand out the same job: the first
  claim's row is no longer queued.
\<close>

theorem claims_are_exclusive:
  assumes "queue_ok d" and "pick_ok pick" and "pick_ok pick'"
    and "claim_one pick skip now w kinds d = Inr (Some j, d1)"
    and "claim_one pick' skip' now' w' kinds' d1 = Inr (Some j', d2)"
  shows "job_id j \<noteq> job_id j'"
proof -
  have 1: "queue_ok d1" "job_state j = Running" "j \<in> set (jobs d1)"
    using claim_one_result [OF assms(1,2), where skip = skip and now = now and w = w and kinds = kinds] assms(4) by auto
  obtain j0 where j0: "j0 \<in> set (jobs d1)" "claimable now' kinds' skip' j0" "j' = leased now' w' j0"
    using claim_one_result [OF 1(1) assms(3), where skip = skip' and now = now' and w = w' and kinds = kinds'] assms(5) by auto
  have "job_id j' = job_id j0" by (simp add: j0(3) leased_def take_lease_def)
  moreover have "j \<noteq> j0" using 1(2) j0(2) by (auto simp: claimable_def)
  ultimately show ?thesis using 1 j0(1) unfolding queue_ok_def by (metis distinct_map_eqD)
qed

text \<open>Two jobs, so that a second claim has something to take.\<close>

definition demo_job2 :: job where
  "demo_job2 = new_job 2 2 7 Summarize (JObject []) 0"

definition demo_db2 :: db where
  "demo_db2 = sample_db\<lparr>jobs := [demo_job, demo_job2], next_job_id := 3\<rparr>"

lemma demo_ok2: "queue_ok demo_db2"
  by (simp add: demo_db2_def demo_job_def demo_job2_def new_job_def queue_ok_def live_keys_def
      live_def job_ok_def lease_ok_def has_recording_def sample_db_def sample_recording_def)

lemmas claim_eval =
  claim_one_def ALL_KINDS_def first_claimable_def demo_db2_def demo_job_def demo_job2_def
  new_job_def claimable_def update_jobs_def update_where_def live_keys_def get_job_def lookup_by_def
  ranks_before_def take_lease_def live_def leased_def

lemma demo_claim1:
  "claim_one hd {} 5 w ALL_KINDS demo_db2 =
     Inr (Some (leased 5 w demo_job), demo_db2\<lparr>jobs := [leased 5 w demo_job, demo_job2]\<rparr>)"
  by (simp add: claim_eval)

lemma demo_claim2:
  "claim_one hd {} 6 v ALL_KINDS (demo_db2\<lparr>jobs := [leased 5 w demo_job, demo_job2]\<rparr>) =
     Inr (Some (leased 6 v demo_job2), demo_db2\<lparr>jobs := [leased 5 w demo_job, leased 6 v demo_job2]\<rparr>)"
  by (simp add: claim_eval)

theorem claims_are_exclusive_witness:
  "\<exists>j d1 j' d2. claim_one hd {} 5 (lit ''a'') ALL_KINDS demo_db2 = Inr (Some j, d1) \<and>
     claim_one hd {} 6 (lit ''b'') ALL_KINDS d1 = Inr (Some j', d2) \<and> job_id j \<noteq> job_id j'"
  using claims_are_exclusive [OF demo_ok2 pick_ok_hd pick_ok_hd demo_claim1 demo_claim2]
    demo_claim1 demo_claim2 by blast

section \<open>Enqueueing is idempotent\<close>

lemma live_unique:
  assumes "queue_ok d" "a \<in> set (jobs d)" "b \<in> set (jobs d)" "live a" "live b"
    "job_recording_id a = Some r" "job_recording_id b = Some r" "job_kind a = job_kind b"
  shows "a = b"
proof -
  have "distinct (map (\<lambda>j. (job_recording_id j, job_kind j))
      (filter (\<lambda>j. live j \<and> job_recording_id j \<noteq> None) (jobs d)))"
    using assms(1) by (simp add: queue_ok_def live_keys_def)
  from distinct_map_eqD [OF this, of a b] show ?thesis using assms by simp
qed

lemma live_job_for_enqueued:
  assumes "queue_ok d" and "enqueue now rid kind payload d = Inr (j, d')"
  shows "live_job_for d' rid kind = [j]"
proof -
  have e: "enqueue_with_priority now rid kind payload 0 d = Inr (j, d')"
    using assms(2) by (simp add: enqueue_def)
  have ok': "queue_ok d'" by (rule enqueue_ok [OF assms(1) e])
  have "j \<in> set (jobs d') \<and> job_recording_id j = Some rid \<and> job_kind j = kind \<and> live j"
    using e
  proof (cases rule: enqueue_cases)
    case existing
    then show ?thesis by simp
  next
    case fresh
    then have "j \<in> set (jobs d')" by simp
    then show ?thesis unfolding fresh(3) by (simp add: new_job_def live_def)
  qed
  then have j: "j \<in> set (jobs d')" "job_recording_id j = Some rid" "job_kind j = kind" "live j"
    by blast+
  let ?L = "filter (\<lambda>j. job_recording_id j = Some rid \<and> job_kind j = kind \<and> live j) (jobs d')"
  have "x = j" if "x \<in> set ?L" for x
    using live_unique [OF ok', of x j rid] that j by simp
  moreover have "j \<in> set ?L" using j by simp
  ultimately have L: "set ?L = {j}" by blast
  have "distinct ?L" using ok' by (simp add: queue_ok_def distinct_map)
  then have "?L = [j]" using L by (rule distinct_singleton)
  then show ?thesis by (simp add: live_job_for_def)
qed

lemma enqueue_total:
  assumes "has_recording d rid"
  shows "\<exists>j d'. enqueue now rid kind payload d = Inr (j, d') \<and>
    jobs d' = (if live_job_for d rid kind = [] then jobs d @ [j] else jobs d) \<and>
    (live_job_for d rid kind = [] \<longrightarrow> job_payload j = payload)"
  using assms by (cases "live_job_for d rid kind")
    (auto simp: enqueue_def enqueue_with_priority_def Let_def new_job_def)

text \<open>
  C5: enqueueing a stage of a known recording always succeeds, leaves exactly one live job for
  that recording and stage and every other row as it was, and asking again, whatever payload
  comes with the second request, returns that same job and adds nothing.
\<close>

theorem enqueue_idempotent:
  assumes "queue_ok d" and "has_recording d rid"
  shows "\<exists>j d'. enqueue now rid kind payload d = Inr (j, d') \<and> queue_ok d' \<and>
    live_job_for d' rid kind = [j] \<and>
    jobs d' = (if live_job_for d rid kind = [] then jobs d @ [j] else jobs d) \<and>
    (\<forall>now' payload'. \<exists>d''. enqueue now' rid kind payload' d' = Inr (j, d'') \<and> jobs d'' = jobs d')"
proof -
  obtain j d' where e: "enqueue now rid kind payload d = Inr (j, d')"
    "jobs d' = (if live_job_for d rid kind = [] then jobs d @ [j] else jobs d)"
    using enqueue_total [OF assms(2)] by blast
  have one: "live_job_for d' rid kind = [j]" by (rule live_job_for_enqueued [OF assms(1) e(1)])
  have "queue_ok d'" using enqueue_ok [OF assms(1)] e(1) by (simp add: enqueue_def)
  moreover have "\<exists>d''. enqueue now' rid kind payload' d' = Inr (j, d'') \<and> jobs d'' = jobs d'" for now' payload'
    using one by (simp add: enqueue_def enqueue_with_priority_def)
  ultimately show ?thesis using e one by blast
qed

theorem enqueue_idempotent_witness:
  "\<exists>j d'. enqueue 1 7 Embed JNull demo_db = Inr (j, d') \<and> queue_ok d' \<and> live_job_for d' 7 Embed = [j]"
proof -
  have "has_recording demo_db 7"
    by (simp add: has_recording_def demo_db_def sample_db_def sample_recording_def)
  then show ?thesis using enqueue_idempotent [OF demo_ok, of 7 1 Embed JNull] by blast
qed

section \<open>The predecessor gate\<close>

lemma count_done_kinds_eq:
  "count_done_kinds d rid ks = card {k \<in> set ks. done_for d rid k}"
proof -
  have "count_done_kinds d rid ks = card (job_kind ` {j \<in> set (jobs d). job_recording_id j = Some rid \<and>
        job_kind j \<in> set ks \<and> job_state j = Done})"
    by (simp add: count_done_kinds_def length_remdups_card_conv)
  also have "job_kind ` {j \<in> set (jobs d). job_recording_id j = Some rid \<and>
        job_kind j \<in> set ks \<and> job_state j = Done} = {k \<in> set ks. done_for d rid k}"
    by (auto simp: done_for_def)
  finally show ?thesis .
qed

lemma count_done_all:
  assumes "distinct ks"
  shows "count_done_kinds d rid ks = length ks \<longleftrightarrow> (\<forall>k \<in> set ks. done_for d rid k)"
proof -
  have "card {k \<in> set ks. done_for d rid k} = card (set ks) \<longleftrightarrow> {k \<in> set ks. done_for d rid k} = set ks"
    by (metis (no_types, lifting) card_subset_eq finite_set mem_Collect_eq subsetI)
  then show ?thesis using assms by (auto simp: count_done_kinds_eq distinct_card)
qed

lemma predecessors_done_iff:
  "predecessors_done d rid kind \<longleftrightarrow> (\<forall>k \<in> set (predecessors kind). done_for d rid k)"
  using count_done_all [OF distinct_predecessors, of d rid kind] by (simp add: predecessors_done_def Let_def)

section \<open>Settling on every branch\<close>

text \<open>Does another live job hold the same slot of the unique index?\<close>

definition slot_taken :: "db \<Rightarrow> job \<Rightarrow> bool" where
  "slot_taken d j0 \<longleftrightarrow> job_recording_id j0 \<noteq> None \<and>
     (\<exists>j \<in> set (jobs d). j \<noteq> j0 \<and> live j \<and> job_recording_id j = job_recording_id j0 \<and>
        job_kind j = job_kind j0)"

definition replace_job :: "job \<Rightarrow> job \<Rightarrow> db \<Rightarrow> db" where
  "replace_job j0 j d = d\<lparr>jobs := map (\<lambda>x. if x = j0 then j else x) (jobs d)\<rparr>"

lemma mem_live_keys:
  "(r, k) \<in> set (live_keys js) \<longleftrightarrow>
     r \<noteq> None \<and> (\<exists>x \<in> set js. live x \<and> job_recording_id x = r \<and> job_kind x = k)"
  by (induction js) (auto simp: live_keys_Cons)

lemma live_keys_replace:
  assumes d: "distinct (map job_id js)" "distinct (live_keys js)" and j0: "j0 \<in> set js"
    and same: "job_recording_id j = job_recording_id j0" "job_kind j = job_kind j0"
  shows "distinct (live_keys (map (\<lambda>x. if x = j0 then j else x) js)) \<longleftrightarrow>
    \<not> (live j \<and> job_recording_id j0 \<noteq> None \<and>
       (\<exists>x \<in> set js. x \<noteq> j0 \<and> live x \<and> job_recording_id x = job_recording_id j0 \<and> job_kind x = job_kind j0))"
proof -
  obtain xs ys where js: "js = xs @ j0 # ys" using j0 by (meson split_list)
  have out: "j0 \<notin> set xs" "j0 \<notin> set ys" using d(1) js by auto
  have id: "map (\<lambda>x. if x = j0 then j else x) zs = zs" if "j0 \<notin> set zs" for zs
    using that by (induction zs) auto
  have m: "map (\<lambda>x. if x = j0 then j else x) js = xs @ j # ys" using id out js by simp
  have dd: "distinct (live_keys xs)" "distinct (live_keys ys)"
    "set (live_keys xs) \<inter> set (live_keys ys) = {}"
    using d(2) js by (auto simp: live_keys_Cons split: if_splits)
  have "(job_recording_id j0, job_kind j0) \<in> set (live_keys xs) \<union> set (live_keys ys) \<longleftrightarrow>
      job_recording_id j0 \<noteq> None \<and> (\<exists>x \<in> set js. x \<noteq> j0 \<and> live x \<and>
        job_recording_id x = job_recording_id j0 \<and> job_kind x = job_kind j0)"
  proof -
    have "x \<in> set js \<and> x \<noteq> j0 \<longleftrightarrow> x \<in> set xs \<or> x \<in> set ys" for x using out js by auto
    then show ?thesis unfolding Un_iff mem_live_keys Bex_def by (metis (no_types))
  qed
  then show ?thesis unfolding m using dd same by (auto simp: live_keys_Cons)
qed

lemma update_job_by_id:
  assumes ok: "queue_ok d" and j0: "j0 \<in> set (jobs d)"
    and same: "job_recording_id (f j0) = job_recording_id j0" "job_kind (f j0) = job_kind j0"
  shows "update_jobs now (\<lambda>j. job_id j = job_id j0) f d =
    (if live (f j0) \<and> slot_taken d j0 then Inl Database
     else Inr (replace_job j0 ((f j0)\<lparr>job_updated_at := now\<rparr>) d))"
proof -
  have dist: "distinct (map job_id (jobs d))" "distinct (live_keys (jobs d))"
    using ok by (simp_all add: queue_ok_def)
  let ?g = "\<lambda>j. (f j)\<lparr>job_updated_at := now\<rparr>"
  have u: "update_where (\<lambda>j. job_id j = job_id j0) ?g (jobs d) = map (\<lambda>x. if x = j0 then ?g j0 else x) (jobs d)"
    by (rule update_where_unique [OF dist(1) j0])
  have k: "distinct (live_keys (map (\<lambda>x. if x = j0 then ?g j0 else x) (jobs d))) \<longleftrightarrow>
      \<not> (live (f j0) \<and> slot_taken d j0)"
    using live_keys_replace [OF dist j0, of "?g j0"] same by (simp add: slot_taken_def)
  show ?thesis unfolding update_jobs_def Let_def u k by (simp add: replace_job_def)
qed

text \<open>
  C7: \<open>fail\<close> on every branch. An unknown id is a database error. With attempts left the job is
  queued again, one attempt further and not before the doubled back-off has passed, unless another
  live job of the same recording and stage holds the index slot, which is a database error. On the
  last attempt the job is parked as failed. Nothing else changes, and neither the job's state nor
  who holds its lease is looked at.
\<close>

theorem fail_spec:
  assumes "queue_ok d"
  shows "fail now jid err m b d =
    (case get_job d jid of
       None \<Rightarrow> Inl Database
     | Some j0 \<Rightarrow>
         let n = job_attempts j0 + 1;
             put = (\<lambda>s t. replace_job j0 (j0\<lparr>job_state := s, job_attempts := n, job_error := Some err,
               job_locked_by := None, job_locked_at := None, job_run_after := t, job_updated_at := now\<rparr>) d)
         in if n \<ge> m then Inr (False, put Failed (job_run_after j0))
            else if slot_taken d j0 then Inl Database
            else Inr (True, put Queued (now + max b 0 * 2 ^ nat (job_attempts j0))))"
proof (cases "get_job d jid")
  case None
  then show ?thesis by (simp add: fail_def read_attempts_def)
next
  case (Some j0)
  have j0: "j0 \<in> set (jobs d)" "job_id j0 = jid" using get_job_Some [OF Some] by simp_all
  show ?thesis
    using Some j0 update_job_by_id [OF assms j0(1), of "\<lambda>j. j\<lparr>job_state := Queued,
        job_attempts := job_attempts j0 + 1, job_error := Some err, job_locked_by := None,
        job_locked_at := None, job_run_after := now + fail_delay b (job_attempts j0 + 1)\<rparr>" now]
      update_job_by_id [OF assms j0(1), of "\<lambda>j. j\<lparr>job_state := Failed,
        job_attempts := job_attempts j0 + 1, job_error := Some err, job_locked_by := None,
        job_locked_at := None\<rparr>" now]
    by (simp add: fail_def read_attempts_def write_failure_def Let_def live_def fail_delay_def)
qed

theorem fail_spec_witness:
  "queue_ok demo_db \<and> (\<exists>d'. fail 10 1 (lit ''e'') 2 5 demo_db = Inr (True, d') \<and>
     (\<exists>j \<in> set (jobs d'). job_run_after j = 15 \<and> job_attempts j = 1))"
proof -
  have g: "get_job demo_db 1 = Some demo_job"
    by (simp add: get_job_def lookup_by_def demo_db_def demo_job_def new_job_def)
  have s: "\<not> slot_taken demo_db demo_job" by (simp add: slot_taken_def demo_db_def)
  have a: "job_attempts demo_job = 0" by (simp add: demo_job_def new_job_def)
  show ?thesis using fail_spec [OF demo_ok, of 10 1 "lit ''e''" 2 5] demo_ok
    by (simp add: g s a Let_def replace_job_def) (simp add: demo_db_def)
qed

section \<open>Reaping is bounded\<close>

text \<open>The attempts a live job has left, and the whole queue's.\<close>

definition attempts_left :: "int \<Rightarrow> job \<Rightarrow> nat" where
  "attempts_left m j = (if live j then nat (m - job_attempts j) else 0)"

definition budget :: "int \<Rightarrow> db \<Rightarrow> nat" where
  "budget m d = sum_list (map (attempts_left m) (jobs d))"

definition attempts_ok :: "int \<Rightarrow> db \<Rightarrow> bool" where
  "attempts_ok m d \<longleftrightarrow> (\<forall>j \<in> set (jobs d). live j \<longrightarrow> job_attempts j < m)"

lemma reap_stuck_eq:
  assumes "queue_ok d"
  shows "reap_stuck now older m d =
    Inr (map (\<lambda>j. \<lparr>rj_id = job_id j, rj_recording_id = job_recording_id j,
                    rj_exhausted = (job_attempts j + 1 \<ge> m)\<rparr>) (filter (lease_expired now older) (jobs d)),
         d\<lparr>jobs := map (\<lambda>j. if lease_expired now older j then (reap m j)\<lparr>job_updated_at := now\<rparr> else j) (jobs d)\<rparr>)"
proof -
  have "update_jobs now (lease_expired now older) (reap m) d =
      Inr (d\<lparr>jobs := update_where (lease_expired now older) (\<lambda>j. (reap m j)\<lparr>job_updated_at := now\<rparr>) (jobs d)\<rparr>)"
    by (rule update_jobs_total) (use assms in \<open>auto simp: queue_ok_def reap_def lease_expired_def live_def\<close>)
  then show ?thesis by (simp add: reap_stuck_def update_where_def) (simp add: reap_def)
qed

lemma attempts_left_reap:
  "lease_expired now older j \<Longrightarrow> job_attempts j < m \<Longrightarrow>
     attempts_left m ((reap m j)\<lparr>job_updated_at := t\<rparr>) + 1 = attempts_left m j"
  by (auto simp: attempts_left_def reap_def lease_expired_def live_def)

lemma budget_reap_list:
  "\<forall>j \<in> set js. live j \<longrightarrow> job_attempts j < m \<Longrightarrow>
   sum_list (map (attempts_left m) (map (\<lambda>j. if lease_expired now older j then (reap m j)\<lparr>job_updated_at := t\<rparr> else j) js))
     + length (filter (lease_expired now older) js) = sum_list (map (attempts_left m) js)"
proof (induction js)
  case (Cons j js)
  have "lease_expired now older j \<Longrightarrow> job_attempts j < m"
    using Cons.prems by (auto simp: lease_expired_def live_def)
  then show ?case using Cons attempts_left_reap [of now older j m t] by auto
qed simp

text \<open>
  C6: a pass of the reaper always succeeds, takes back exactly the running jobs whose lease has
  lapsed, reports each with whether it is now out of attempts, keeps the queue well formed and
  every live job under the attempt limit, and spends one attempt of the queue's finite budget for
  each job it returns: a job whose worker dies every time is parked after finitely many passes.
\<close>

theorem reap_stuck_bounded:
  assumes "queue_ok d" and "attempts_ok m d"
  shows "\<exists>rs d'. reap_stuck now older m d = Inr (rs, d') \<and> queue_ok d' \<and> attempts_ok m d' \<and>
    map rj_id rs = map job_id (filter (lease_expired now older) (jobs d)) \<and>
    map rj_exhausted rs = map (\<lambda>j. job_attempts j + 1 \<ge> m) (filter (lease_expired now older) (jobs d)) \<and>
    (\<forall>j \<in> set (jobs d'). \<not> lease_expired now older j) \<and>
    budget m d' + length rs = budget m d"
proof -
  obtain rs d' where r: "reap_stuck now older m d = Inr (rs, d')"
    and rs: "rs = map (\<lambda>j. \<lparr>rj_id = job_id j, rj_recording_id = job_recording_id j,
                    rj_exhausted = (job_attempts j + 1 \<ge> m)\<rparr>) (filter (lease_expired now older) (jobs d))"
    and d': "d' = d\<lparr>jobs := map (\<lambda>j. if lease_expired now older j then (reap m j)\<lparr>job_updated_at := now\<rparr> else j) (jobs d)\<rparr>"
    using reap_stuck_eq [OF assms(1)] by blast
  have "attempts_ok m d'" unfolding attempts_ok_def
  proof (intro ballI impI)
    fix j assume "j \<in> set (jobs d')" "live j"
    then obtain j0 where j0: "j0 \<in> set (jobs d)"
      "j = (if lease_expired now older j0 then (reap m j0)\<lparr>job_updated_at := now\<rparr> else j0)"
      unfolding d' by auto
    then show "job_attempts j < m" using \<open>live j\<close> assms(2)
      by (auto simp: attempts_ok_def reap_def live_def split: if_splits)
  qed
  moreover have "\<forall>j \<in> set (jobs d'). \<not> lease_expired now older j"
    unfolding d' by (auto simp: lease_expired_def reap_def)
  moreover have "budget m d' + length rs = budget m d"
    using budget_reap_list [of "jobs d" m now older now] assms(2)
    by (simp add: budget_def d' rs attempts_ok_def)
  ultimately show ?thesis using r reap_ok [OF assms(1) r] by (auto simp: rs o_def)
qed

theorem reap_stuck_bounded_witness:
  "queue_ok demo_db \<and> attempts_ok 3 demo_db \<and> (\<exists>rs d'. reap_stuck 9 1 3 demo_db = Inr (rs, d') \<and>
     budget 3 d' + length rs = budget 3 demo_db)"
proof -
  have "attempts_ok 3 demo_db" by (simp add: attempts_ok_def demo_db_def demo_job_def new_job_def)
  then show ?thesis using reap_stuck_bounded [OF demo_ok, of 3 9 1] demo_ok by blast
qed

end
