(* ===== verification/Scribe_Schedule.thy ===== *)
theory Scribe_Schedule
  imports Scribe_Types
begin

text \<open>
  The processing schedule, \<open>crates/scribe-core/src/schedule.rs\<close>: weekly windows, overrides, the
  verdict for one instant, and the job kinds a paused worker may still claim. The specification
  is the set of instants that lie in the window of \<^emph>\<open>some\<close> calendar day; the code's verdict,
  computed from nine days around now after sorting and merging, is proved to decide it, and the
  reported boundary is proved to be the first instant at which the verdict changes.

  Local time is the number of nanoseconds since midnight of day 0, a \<open>NaiveDate\<close> is a day
  number. The calendar itself (\<open>chrono\<close>) is a parameter: which weekday a day number falls on and
  which day numbers are representable dates. UTC instants are nanoseconds too.
\<close>

section \<open>Data\<close>

definition MINUTES_PER_DAY :: "16 word" where
  "MINUTES_PER_DAY = 1440"

definition MAX_OVERRIDE_MINUTES :: int where
  "MAX_OVERRIDE_MINUTES = 24 * 60"

definition LOOKAHEAD_DAYS :: int where
  "LOOKAHEAD_DAYS = 8"

record day_window =
  dw_enabled :: bool
  dw_start :: "16 word"
  dw_end :: "16 word"

definition OFF :: day_window where
  "OFF = \<lparr>dw_enabled = False, dw_start = 540, dw_end = 1020\<rparr>"

definition length_minutes :: "day_window \<Rightarrow> 16 word" where
  "length_minutes d =
     (if dw_end d > dw_start d then dw_end d - dw_start d
      else MINUTES_PER_DAY - dw_start d + dw_end d)"

datatype override_mode = Run | Pause

record schedule_override =
  ov_mode :: override_mode
  ov_until :: int

record processing_schedule =
  sched_enabled :: bool
  sched_days :: "day_window list"
  sched_grace_minutes :: "32 word"
  active_override :: "schedule_override option"

definition default_schedule :: processing_schedule where
  "default_schedule =
     (let weekday = \<lparr>dw_enabled = True, dw_start = 9 * 60, dw_end = 17 * 60\<rparr>
      in \<lparr>sched_enabled = False,
          sched_days = [weekday, weekday, weekday, weekday, weekday, OFF, OFF],
          sched_grace_minutes = 10,
          active_override = None\<rparr>)"

datatype schedule_reason = Disabled | InWindow | OutsideWindow | OverrideRun | OverridePause

record schedule_decision =
  allowed :: bool
  reason :: schedule_reason
  next_change_secs :: "int option"

section \<open>Normalisation\<close>

fun push_off :: "nat \<Rightarrow> day_window list \<Rightarrow> day_window list" where
  "push_off 0 ds = ds"
| "push_off (Suc n) ds = push_off n (ds @ [OFF])"

definition clamp_day :: "day_window \<Rightarrow> day_window" where
  "clamp_day d = d\<lparr>dw_start := min (dw_start d) MINUTES_PER_DAY,
                   dw_end := min (dw_end d) MINUTES_PER_DAY\<rparr>"

text \<open>\<open>normalize\<close>, with the clock reading \<open>Utc::now()\<close> as an argument.\<close>

definition normalize :: "int \<Rightarrow> processing_schedule \<Rightarrow> processing_schedule" where
  "normalize now_utc s =
     s\<lparr>sched_days := map clamp_day (let t = take 7 (sched_days s) in push_off (7 - length t) t),
       sched_grace_minutes := min (sched_grace_minutes s) (24 * 60),
       active_override :=
         (case active_override s of
            None \<Rightarrow> None
          | Some ov \<Rightarrow> if ov_until ov \<le> now_utc then None else Some ov)\<rparr>"

section \<open>Instants\<close>

abbreviation second_ns :: int where "second_ns \<equiv> 1000000000"
abbreviation minute_ns :: int where "minute_ns \<equiv> 60000000000"
abbreviation day_ns :: int where "day_ns \<equiv> 86400000000000"

record calendar =
  weekday :: "int \<Rightarrow> nat"       \<comment> \<open>\<open>Datelike::weekday().num_days_from_monday()\<close>\<close>
  representable :: "int \<Rightarrow> bool" \<comment> \<open>\<open>checked_add_signed\<close> answers \<open>Some\<close> for this day\<close>

text \<open>\<open>TimeDelta::num_seconds\<close>: whole seconds, truncated towards zero.\<close>

definition num_seconds :: "int \<Rightarrow> int" where
  "num_seconds d = (if d < 0 then - ((- d) div second_ns) else d div second_ns)"

definition date_of :: "int \<Rightarrow> int" where
  "date_of t = t div day_ns"

section \<open>Windows\<close>

type_synonym window = "int \<times> int"

definition window_on :: "day_window \<Rightarrow> int \<Rightarrow> window" where
  "window_on day date =
     (let midnight = date * day_ns;
          start = midnight + uint (dw_start day) * minute_ns
      in (start, start + uint (length_minutes day) * minute_ns))"

text \<open>One turn of the loop over the offsets: the window of that day, or \<open>continue\<close>.\<close>

definition day_windows :: "calendar \<Rightarrow> processing_schedule \<Rightarrow> int \<Rightarrow> window list" where
  "day_windows cal s date =
     (if \<not> representable cal date then []
      else if length (sched_days s) \<le> weekday cal date then []
      else let day = sched_days s ! weekday cal date
           in if \<not> dw_enabled day then [] else [window_on day date])"

definition raw_windows :: "calendar \<Rightarrow> processing_schedule \<Rightarrow> int \<Rightarrow> window list" where
  "raw_windows cal s anchor =
     concat (map (\<lambda>off. day_windows cal s (anchor + off)) [-1..LOOKAHEAD_DAYS - 1])"

text \<open>
  The merging loop, with the last element of \<open>merged\<close> as the accumulator: a window that starts
  at or before the end of the last one extends it.
\<close>

fun merge_loop :: "window list \<Rightarrow> window list \<Rightarrow> window list" where
  "merge_loop merged [] = merged"
| "merge_loop merged (w # ws) =
     (if merged \<noteq> [] \<and> fst w \<le> snd (last merged)
      then merge_loop (butlast merged @ [(fst (last merged), max (snd (last merged)) (snd w))]) ws
      else merge_loop (merged @ [w]) ws)"

definition merged_windows :: "calendar \<Rightarrow> processing_schedule \<Rightarrow> int \<Rightarrow> window list" where
  "merged_windows cal s anchor = merge_loop [] (sort_key fst (raw_windows cal s anchor))"

section \<open>The verdict\<close>

text \<open>Steps 2 and 3 of \<open>decide\<close>: no schedule, or the windows around now.\<close>

definition decide_windows :: "calendar \<Rightarrow> processing_schedule \<Rightarrow> int \<Rightarrow> schedule_decision" where
  "decide_windows cal s now_local =
     (if \<not> sched_enabled s then
        \<lparr>allowed = True, reason = Disabled, next_change_secs = None\<rparr>
      else
        let windows = merged_windows cal s (date_of now_local) in
        case find (\<lambda>w. fst w \<le> now_local \<and> now_local < snd w) windows of
          Some w \<Rightarrow>
            \<lparr>allowed = True, reason = InWindow,
             next_change_secs = Some (max (num_seconds (snd w - now_local)) 0)\<rparr>
        | None \<Rightarrow>
            \<lparr>allowed = False, reason = OutsideWindow,
             next_change_secs =
               map_option (\<lambda>w. max (num_seconds (fst w - now_local)) 0)
                 (find (\<lambda>w. fst w > now_local) windows)\<rparr>)"

definition decide :: "calendar \<Rightarrow> processing_schedule \<Rightarrow> int \<Rightarrow> int \<Rightarrow> schedule_decision" where
  "decide cal s now_local now_utc =
     (case active_override s of
        Some ov \<Rightarrow>
          if ov_until ov > now_utc then
            \<lparr>allowed = (case ov_mode ov of Run \<Rightarrow> True | Pause \<Rightarrow> False),
             reason = (case ov_mode ov of Run \<Rightarrow> OverrideRun | Pause \<Rightarrow> OverridePause),
             next_change_secs = Some (max (num_seconds (ov_until ov - now_utc)) 0)\<rparr>
          else decide_windows cal s now_local
      | None \<Rightarrow> decide_windows cal s now_local)"

definition claimable_kinds :: "job_kind list \<Rightarrow> schedule_decision \<Rightarrow> job_kind list" where
  "claimable_kinds configured d =
     (if allowed d then configured else filter bypasses_schedule configured)"

section \<open>Specification\<close>

text \<open>The instant lies in the window of some day of the calendar, however far away.\<close>

definition open_at :: "calendar \<Rightarrow> processing_schedule \<Rightarrow> int \<Rightarrow> bool" where
  "open_at cal s t \<longleftrightarrow> (\<exists>date. \<exists>w \<in> set (day_windows cal s date). fst w \<le> t \<and> t < snd w)"

definition live_override :: "processing_schedule \<Rightarrow> int \<Rightarrow> override_mode option" where
  "live_override s now_utc =
     (case active_override s of
        None \<Rightarrow> None
      | Some ov \<Rightarrow> if ov_until ov > now_utc then Some (ov_mode ov) else None)"

definition clamped :: "processing_schedule \<Rightarrow> bool" where
  "clamped s \<longleftrightarrow> (\<forall>d \<in> set (sched_days s). dw_start d \<le> MINUTES_PER_DAY \<and> dw_end d \<le> MINUTES_PER_DAY)"

text \<open>Does some window of the list hold the instant?\<close>

definition covers :: "window list \<Rightarrow> int \<Rightarrow> bool" where
  "covers ws t \<longleftrightarrow> (\<exists>w \<in> set ws. fst w \<le> t \<and> t < snd w)"

section \<open>Normalisation establishes what evaluation needs\<close>

lemma length_push_off: "length (push_off n ds) = length ds + n"
  by (induction n arbitrary: ds) auto

lemma set_push_off: "set (push_off n ds) \<subseteq> set ds \<union> {OFF}"
proof (induction n arbitrary: ds)
  case (Suc n)
  show ?case using Suc.IH [of "ds @ [OFF]"] by auto
qed auto

lemma clamp_day_bounds:
  "dw_start (clamp_day d) \<le> MINUTES_PER_DAY" "dw_end (clamp_day d) \<le> MINUTES_PER_DAY"
  by (simp_all add: clamp_day_def)

lemma clamp_day_idem: "clamp_day (clamp_day d) = clamp_day d"
  by (simp add: clamp_day_def)

lemma length_normalize: "length (sched_days (normalize n s)) = 7"
  by (simp add: normalize_def Let_def length_push_off)

lemma clamped_normalize: "clamped (normalize n s)"
  by (auto simp: clamped_def normalize_def clamp_day_bounds)

lemma normalize_idem: "normalize n (normalize n s) = normalize n s"
  using length_normalize [of n s]
  by (simp add: normalize_def Let_def length_push_off clamp_day_idem o_def split: option.splits)

lemma normalize_override: "live_override (normalize n s) n = live_override s n"
  by (auto simp: live_override_def normalize_def split: option.splits)

text \<open>
  Whatever is stored, \<open>normalize\<close> yields seven days whose edges are at most 1440 and a grace
  of at most a day, drops exactly an override that has lapsed, leaves the master switch alone,
  and normalising again at the same instant changes nothing.
\<close>

theorem normalize_wf:
  "length (sched_days (normalize n s)) = 7 \<and> clamped (normalize n s) \<and>
   sched_grace_minutes (normalize n s) \<le> 24 * 60 \<and>
   live_override (normalize n s) n = live_override s n \<and>
   (active_override (normalize n s) = None \<longleftrightarrow> live_override s n = None) \<and>
   sched_enabled (normalize n s) = sched_enabled s \<and>
   normalize n (normalize n s) = normalize n s"
  using length_normalize clamped_normalize normalize_override normalize_idem
  by (auto simp: normalize_def live_override_def split: option.splits)

section \<open>The length of a window\<close>

lemma uint_MINUTES [simp]: "uint MINUTES_PER_DAY = 1440"
  by (simp add: MINUTES_PER_DAY_def)

lemma clamped_edges:
  assumes "dw_start d \<le> MINUTES_PER_DAY" and "dw_end d \<le> MINUTES_PER_DAY"
  obtains a b where "uint (dw_start d) = a" "uint (dw_end d) = b"
    "0 \<le> a" "a \<le> 1440" "0 \<le> b" "b \<le> 1440"
  using assms by (simp add: word_le_def)

lemma uint_length_minutes:
  assumes "dw_start d \<le> MINUTES_PER_DAY" and "dw_end d \<le> MINUTES_PER_DAY"
  shows "uint (length_minutes d) =
    (if uint (dw_end d) > uint (dw_start d) then uint (dw_end d) - uint (dw_start d)
     else 1440 - uint (dw_start d) + uint (dw_end d))"
proof (rule clamped_edges [OF assms])
  fix a b assume "uint (dw_start d) = a" "uint (dw_end d) = b" "0 \<le> a" "a \<le> 1440" "0 \<le> b" "b \<le> 1440"
  then show ?thesis by (simp add: length_minutes_def word_less_def uint_word_ariths)
qed

lemma uint_length_minutes_bound:
  assumes "dw_start d \<le> MINUTES_PER_DAY" and "dw_end d \<le> MINUTES_PER_DAY"
  shows "uint (length_minutes d) \<le> 1440"
  by (rule clamped_edges [OF assms]) (simp add: uint_length_minutes [OF assms])

text \<open>
  For edges in range the \<open>u16\<close> arithmetic of \<open>length_minutes\<close> neither wraps nor
  underflows: the length is the distance from start to end, across midnight when the end is not
  after the start, and it is at most a day. It is zero exactly for the window \<open>1440 \<rightarrow> 0\<close>.
\<close>

theorem length_minutes_spec:
  assumes "dw_start d \<le> MINUTES_PER_DAY" and "dw_end d \<le> MINUTES_PER_DAY"
  shows "uint (length_minutes d) =
      (if uint (dw_end d) > uint (dw_start d) then uint (dw_end d) - uint (dw_start d)
       else 1440 - uint (dw_start d) + uint (dw_end d)) \<and>
    uint (length_minutes d) \<le> 1440 \<and>
    (uint (length_minutes d) = 0 \<longleftrightarrow> uint (dw_start d) = 1440 \<and> uint (dw_end d) = 0)"
proof (intro conjI)
  show "uint (length_minutes d) = 0 \<longleftrightarrow> uint (dw_start d) = 1440 \<and> uint (dw_end d) = 0"
    by (rule clamped_edges [OF assms]) (simp add: uint_length_minutes [OF assms], arith)
qed (rule uint_length_minutes [OF assms] uint_length_minutes_bound [OF assms])+

theorem length_minutes_spec_witness:
  "uint (length_minutes \<lparr>dw_enabled = True, dw_start = 1320, dw_end = 360\<rparr>) = 480"
  using length_minutes_spec [of "\<lparr>dw_enabled = True, dw_start = 1320, dw_end = 360\<rparr>"]
  by (simp add: MINUTES_PER_DAY_def word_le_def)

section \<open>Merging keeps the covered instants\<close>

definition proper :: "window list \<Rightarrow> bool" where
  "proper ws \<longleftrightarrow> (\<forall>w \<in> set ws. fst w \<le> snd w)"

text \<open>Sorted, and each window ends before the next one starts.\<close>

definition separated :: "window list \<Rightarrow> bool" where
  "separated ws \<longleftrightarrow> proper ws \<and> sorted_wrt (\<lambda>v w. snd v < fst w) ws"

lemma covers_append [simp]: "covers (vs @ ws) t \<longleftrightarrow> covers vs t \<or> covers ws t"
  by (auto simp: covers_def)

lemma covers_Cons [simp]: "covers (w # ws) t \<longleftrightarrow> (fst w \<le> t \<and> t < snd w) \<or> covers ws t"
  by (auto simp: covers_def)

lemma covers_Nil [simp]: "\<not> covers [] t"
  by (simp add: covers_def)

lemma separated_snoc:
  "separated (vs @ [w]) \<longleftrightarrow> separated vs \<and> fst w \<le> snd w \<and> (\<forall>v \<in> set vs. snd v < fst w)"
  by (auto simp: separated_def proper_def sorted_wrt_append)

lemma merge_loop_correct:
  assumes "separated merged" and "sorted (map fst ws)" and "proper ws"
    and "merged \<noteq> [] \<Longrightarrow> \<forall>w \<in> set ws. fst (last merged) \<le> fst w"
  shows "separated (merge_loop merged ws) \<and>
    (covers (merge_loop merged ws) t \<longleftrightarrow> covers merged t \<or> covers ws t)"
  using assms
proof (induction merged ws rule: merge_loop.induct)
  case (1 merged)
  then show ?case by simp
next
  case (2 merged w ws)
  show ?case
  proof (cases "merged \<noteq> [] \<and> fst w \<le> snd (last merged)")
    case True
    let ?l = "last merged" and ?b = "butlast merged"
    let ?m = "?b @ [(fst ?l, max (snd ?l) (snd w))]"
    have eq: "?b @ [?l] = merged" using True by simp
    have sb: "separated ?b" "fst ?l \<le> snd ?l" "\<forall>v \<in> set ?b. snd v < fst ?l"
      using "2.prems"(1) separated_snoc [of ?b ?l] eq by simp_all
    have lw: "fst ?l \<le> fst w" "fst w \<le> snd w"
      using "2.prems"(3,4) True by (simp_all add: proper_def)
    have "separated (merge_loop ?m ws) \<and>
        (covers (merge_loop ?m ws) t \<longleftrightarrow> covers ?m t \<or> covers ws t)"
    proof (rule "2.IH"(1) [OF True])
      show "separated ?m" using sb lw by (simp add: separated_snoc)
      show "\<forall>v \<in> set ws. fst (last ?m) \<le> fst v"
        using "2.prems"(2,4) True by auto
    qed (use "2.prems"(2,3) in \<open>auto simp: proper_def\<close>)
    moreover have "covers merged t \<longleftrightarrow> covers ?b t \<or> (fst ?l \<le> t \<and> t < snd ?l)"
      using covers_append [of ?b "[?l]" t] eq by simp
    ultimately show ?thesis using True lw by auto
  next
    case False
    have sep: "separated (merged @ [w])"
    proof (cases "merged = []")
      case True
      then show ?thesis using "2.prems"(3) by (simp add: separated_def proper_def)
    next
      case ne: False
      have lt: "snd (last merged) < fst w" using False ne by simp
      have "\<forall>v \<in> set merged. snd v < fst w"
      proof
        fix v assume v: "v \<in> set merged"
        have sp: "separated (butlast merged @ [last merged])" using "2.prems"(1) ne by simp
        from v ne have "v \<in> set (butlast merged) \<or> v = last merged"
          by (metis append_butlast_last_id in_set_conv_decomp insert_iff list.set(1) list.set(2)
              rotate1.simps(2) set_rotate1)
        then show "snd v < fst w"
          using sp lt unfolding separated_snoc by (auto dest: bspec)
      qed
      then show ?thesis using "2.prems"(1,3) by (simp add: separated_snoc proper_def)
    qed
    have "separated (merge_loop (merged @ [w]) ws) \<and>
        (covers (merge_loop (merged @ [w]) ws) t \<longleftrightarrow> covers (merged @ [w]) t \<or> covers ws t)"
      by (rule "2.IH"(2) [OF False sep]) (use "2.prems"(2,3) in \<open>auto simp: proper_def\<close>)
    then show ?thesis using False by auto
  qed
qed

section \<open>Windows around an anchor\<close>

lemma day_window_bounds:
  assumes "clamped s" and "w \<in> set (day_windows cal s date)"
  shows "date * day_ns \<le> fst w" "fst w \<le> (date + 1) * day_ns"
    "fst w \<le> snd w" "snd w \<le> (date + 2) * day_ns"
proof -
  let ?day = "sched_days s ! weekday cal date"
  from assms(2) have "weekday cal date < length (sched_days s)" and w: "w = window_on ?day date"
    by (auto simp: day_windows_def Let_def split: if_splits)
  then obtain day where day: "day \<in> set (sched_days s)" and w: "w = window_on day date"
    using nth_mem by blast
  from assms(1) day have c: "dw_start day \<le> MINUTES_PER_DAY" "dw_end day \<le> MINUTES_PER_DAY"
    by (auto simp: clamped_def)
  obtain a b where "uint (dw_start day) = a" "uint (dw_end day) = b"
    "0 \<le> a" "a \<le> 1440" "0 \<le> b" "b \<le> 1440" by (rule clamped_edges [OF c])
  then show "date * day_ns \<le> fst w" "fst w \<le> (date + 1) * day_ns"
    "fst w \<le> snd w" "snd w \<le> (date + 2) * day_ns"
    by (simp_all add: w window_on_def Let_def uint_length_minutes [OF c] algebra_simps)
qed

lemma set_raw_windows:
  "set (raw_windows cal s anchor) = (\<Union>date \<in> {anchor - 1..anchor + 7}. set (day_windows cal s date))"
proof -
  have "(\<Union>off \<in> {-1..7}. set (day_windows cal s (anchor + off))) =
      (\<Union>date \<in> (\<lambda>off. anchor + off) ` {-1..7}. set (day_windows cal s date))"
    by (rule UN_extend_simps(10))
  also have "(\<lambda>off. anchor + off) ` {-1..7} = {anchor - 1..anchor + 7}"
    using image_add_atLeastAtMost [of anchor "-1" 7] by simp
  finally show ?thesis by (simp add: raw_windows_def LOOKAHEAD_DAYS_def)
qed

lemma merged_windows_correct:
  assumes "clamped s"
  shows "separated (merged_windows cal s anchor) \<and>
    (covers (merged_windows cal s anchor) t \<longleftrightarrow> covers (raw_windows cal s anchor) t)"
proof -
  let ?ws = "sort_key fst (raw_windows cal s anchor)"
  have "proper ?ws"
    using day_window_bounds(3) [OF assms] by (force simp: proper_def set_raw_windows)
  then have "separated (merge_loop [] ?ws) \<and>
      (covers (merge_loop [] ?ws) t \<longleftrightarrow> covers [] t \<or> covers ?ws t)"
    by (intro merge_loop_correct) (simp_all add: separated_def proper_def)
  then show ?thesis by (simp add: merged_windows_def covers_def)
qed

text \<open>Within the lookahead, the nine days around the anchor are all that matter.\<close>

lemma covers_raw_iff_open:
  assumes c: "clamped s" and t: "anchor * day_ns \<le> t" "t < (anchor + 8) * day_ns"
  shows "covers (raw_windows cal s anchor) t \<longleftrightarrow> open_at cal s t"
proof
  assume "open_at cal s t"
  then obtain date w where w: "w \<in> set (day_windows cal s date)" "fst w \<le> t" "t < snd w"
    by (auto simp: open_at_def)
  have "date * day_ns < (anchor + 8) * day_ns" "anchor * day_ns < (date + 2) * day_ns"
    using day_window_bounds [OF c w(1)] w(2,3) t by linarith+
  then have "date \<in> {anchor - 1..anchor + 7}" by simp
  with w show "covers (raw_windows cal s anchor) t"
    unfolding covers_def set_raw_windows by blast
qed (auto simp: covers_def set_raw_windows open_at_def)

lemma date_of_bounds: "date_of t * day_ns \<le> t" "t < (date_of t + 1) * day_ns"
proof -
  have "t = (t div day_ns) * day_ns + t mod day_ns" by simp
  moreover have "0 \<le> t mod day_ns" "t mod day_ns < day_ns" by simp_all
  ultimately show "date_of t * day_ns \<le> t" "t < (date_of t + 1) * day_ns"
    by (simp_all add: date_of_def algebra_simps)
qed

lemma covers_merged_iff_open:
  assumes "clamped s" and "date_of now * day_ns \<le> t" and "t < (date_of now + 8) * day_ns"
  shows "covers (merged_windows cal s (date_of now)) t \<longleftrightarrow> open_at cal s t"
  using merged_windows_correct [OF assms(1)] covers_raw_iff_open [OF assms] by blast

lemma covers_merged_now:
  assumes "clamped s"
  shows "covers (merged_windows cal s (date_of now)) now \<longleftrightarrow> open_at cal s now"
proof (rule covers_merged_iff_open [OF assms])
  show "date_of now * day_ns \<le> now" by (rule date_of_bounds)
  show "now < (date_of now + 8) * day_ns" using date_of_bounds(2) [of now] by simp
qed

section \<open>The verdict decides the specification\<close>

lemma find_in_window: "(find (\<lambda>w. fst w \<le> t \<and> t < snd w) ws \<noteq> None) \<longleftrightarrow> covers ws t"
  unfolding find_None_iff covers_def by blast

lemma allowed_decide_windows:
  assumes "clamped s"
  shows "allowed (decide_windows cal s now) \<longleftrightarrow> \<not> sched_enabled s \<or> open_at cal s now"
  using covers_merged_now [OF assms, of cal now]
    find_in_window [of now "merged_windows cal s (date_of now)"]
  by (auto simp: decide_windows_def Let_def split: option.splits)

lemma decide_cases:
  "decide cal s now_local now_utc =
     (case live_override s now_utc of
        None \<Rightarrow> decide_windows cal s now_local
      | Some _ \<Rightarrow> decide cal s now_local now_utc)"
  by (auto simp: decide_def live_override_def split: option.splits)

lemma reason_decide_windows:
  assumes "clamped s"
  shows "reason (decide_windows cal s now) =
    (if \<not> sched_enabled s then Disabled
     else if open_at cal s now then InWindow else OutsideWindow)"
  using covers_merged_now [OF assms, of cal now]
    find_in_window [of now "merged_windows cal s (date_of now)"]
  by (auto simp: decide_windows_def Let_def split: option.splits)

lemma decide_live:
  "live_override s now_utc = Some m \<Longrightarrow>
     allowed (decide cal s now_local now_utc) = (m = Run) \<and>
     reason (decide cal s now_local now_utc) = (if m = Run then OverrideRun else OverridePause)"
  by (auto simp: decide_def live_override_def split: option.splits if_splits override_mode.splits)

lemma decide_not_live:
  "live_override s now_utc = None \<Longrightarrow> decide cal s now_local now_utc = decide_windows cal s now_local"
  by (auto simp: decide_def live_override_def split: option.splits if_splits)

lemma normalize_enabled [simp]: "sched_enabled (normalize n s) = sched_enabled s"
  by (simp add: normalize_def)

text \<open>
  C8: the verdict on a stored (hence normalised) schedule is the policy: a live override decides
  alone; otherwise processing is allowed exactly when the schedule is off or the instant lies in
  the window of some calendar day, including a window that began yesterday and wraps past
  midnight. The reason reported is the one that applied.
\<close>

theorem decide_refines_policy:
  "(allowed (decide cal (normalize n s) now_local now_utc) \<longleftrightarrow>
     (case live_override (normalize n s) now_utc of
        Some mode \<Rightarrow> mode = Run
      | None \<Rightarrow> if sched_enabled s then open_at cal (normalize n s) now_local else True)) \<and>
   reason (decide cal (normalize n s) now_local now_utc) =
     (case live_override (normalize n s) now_utc of
        Some mode \<Rightarrow> if mode = Run then OverrideRun else OverridePause
      | None \<Rightarrow> if \<not> sched_enabled s then Disabled
                else if open_at cal (normalize n s) now_local then InWindow else OutsideWindow)"
  using clamped_normalize [of n s]
  by (auto simp: decide_live decide_not_live allowed_decide_windows reason_decide_windows
      split: option.splits)

section \<open>The reported boundary\<close>

lemma set_fst_merge_loop: "fst ` set (merge_loop merged ws) \<subseteq> fst ` set merged \<union> fst ` set ws"
proof (induction merged ws rule: merge_loop.induct)
  case (2 merged w ws)
  show ?case
  proof (cases "merged \<noteq> [] \<and> fst w \<le> snd (last merged)")
    case True
    let ?x = "(fst (last merged), max (snd (last merged)) (snd w))"
    have "set (butlast merged) \<subseteq> set merged" by (auto dest: in_set_butlastD)
    then have "fst ` set (butlast merged @ [?x]) \<subseteq> fst ` set merged"
      using True last_in_set [of merged] by auto
    moreover have "merge_loop merged (w # ws) = merge_loop (butlast merged @ [?x]) ws"
      using True by simp
    moreover have "fst ` set ws \<subseteq> fst ` set (w # ws)" by auto
    ultimately show ?thesis
      by (simp only:) (rule order_trans [OF "2.IH"(1) [OF True] Un_mono])
  next
    case False
    then show ?thesis using "2.IH"(2) [OF False] by (simp only: merge_loop.simps if_False) auto
  qed
qed simp

lemma merged_starts:
  assumes "w \<in> set (merged_windows cal s anchor)"
  shows "\<exists>date \<in> {anchor - 1..anchor + 7}. \<exists>v \<in> set (day_windows cal s date). fst v = fst w"
proof -
  have "fst w \<in> fst ` set (raw_windows cal s anchor)"
    using assms set_fst_merge_loop [of "[]" "sort_key fst (raw_windows cal s anchor)"]
    by (auto simp: merged_windows_def)
  then obtain v where "v \<in> set (raw_windows cal s anchor)" "fst v = fst w"
    by (metis imageE)
  then show ?thesis unfolding set_raw_windows by blast
qed

lemma merged_start_horizon:
  assumes "clamped s" and "w \<in> set (merged_windows cal s anchor)"
  shows "fst w \<le> (anchor + 8) * day_ns"
proof -
  obtain date v where "date \<le> anchor + 7" and v: "v \<in> set (day_windows cal s date)" "fst v = fst w"
    using merged_starts [OF assms(2)] by auto
  then have "fst w \<le> (date + 1) * day_ns" "(date + 1) * day_ns \<le> (anchor + 8) * day_ns"
    using day_window_bounds(2) [OF assms(1) v(1)] by auto
  then show ?thesis by simp
qed

lemma separated_no_cover_before:
  assumes "separated ws" and "\<not> covers ws now" and "now \<le> t"
    and "case find (\<lambda>w. fst w > now) ws of None \<Rightarrow> True | Some w \<Rightarrow> t < fst w"
  shows "\<not> covers ws t"
proof
  assume "covers ws t"
  then obtain v where v: "v \<in> set ws" "fst v \<le> t" "t < snd v" by (auto simp: covers_def)
  with assms(2,3) have late: "fst v > now" by (force simp: covers_def)
  then have "find (\<lambda>w. fst w > now) ws \<noteq> None" unfolding find_None_iff using v(1) by blast
  then obtain w where w: "find (\<lambda>w. fst w > now) ws = Some w" by blast
  then obtain i where i: "i < length ws" "w = ws ! i" "\<forall>j < i. \<not> fst (ws ! j) > now"
    by (auto simp: find_Some_iff)
  obtain j where j: "j < length ws" "v = ws ! j" using v(1) by (auto simp: in_set_conv_nth)
  have "i \<le> j" using i(3) j(2) late by (metis not_le_imp_less)
  then have "fst w \<le> fst v"
  proof (cases "i = j")
    case False
    with \<open>i \<le> j\<close> have "snd w < fst v"
      using assms(1) i j by (auto simp: separated_def sorted_wrt_iff_nth_less)
    moreover have "fst w \<le> snd w" using assms(1) i by (auto simp: separated_def proper_def)
    ultimately show ?thesis by simp
  qed (use i j in simp)
  with assms(4) w v(2) show False by simp
qed

lemma num_seconds_nonneg: "0 \<le> d \<Longrightarrow> num_seconds d = d div second_ns"
  by (simp add: num_seconds_def)

lemma num_seconds_le:
  assumes "k = max (num_seconds d) 0" and "e < k * second_ns" and "0 \<le> e"
  shows "e < d"
proof -
  have "0 < k" using assms(2,3) by (simp add: zero_less_mult_iff order_le_less_trans)
  then have pos: "0 < num_seconds d" and k: "k = num_seconds d"
    using assms(1) by (auto simp: max_def split: if_splits)
  then have "0 \<le> d" by (auto simp: num_seconds_def split: if_splits)
  then have "num_seconds d * second_ns \<le> d" by (simp add: num_seconds_nonneg)
  with assms(2) k show ?thesis by simp
qed

text \<open>Inside: open until the end of the merged window. Outside: shut until the next start.\<close>

lemma stable_inside:
  assumes "w \<in> set (merged_windows cal s (date_of now))" "fst w \<le> now" "now \<le> t" "t < snd w"
    and "clamped s"
  shows "open_at cal s t"
proof -
  have "covers (merged_windows cal s (date_of now)) t" using assms(1-4) by (force simp: covers_def)
  then have "covers (raw_windows cal s (date_of now)) t" using merged_windows_correct [OF assms(5)] by blast
  then show ?thesis by (auto simp: covers_def set_raw_windows open_at_def)
qed

lemma stable_outside:
  assumes c: "clamped s" and out: "\<not> open_at cal s now" and t: "now \<le> t"
    and nxt: "case find (\<lambda>w. fst w > now) (merged_windows cal s (date_of now)) of
        None \<Rightarrow> t < (date_of now + 8) * day_ns | Some w \<Rightarrow> t < fst w"
  shows "\<not> open_at cal s t"
proof -
  let ?ws = "merged_windows cal s (date_of now)"
  have hor: "t < (date_of now + 8) * day_ns"
  proof (cases "find (\<lambda>w. fst w > now) ?ws")
    case (Some w)
    then have "w \<in> set ?ws" by (auto simp: find_Some_iff)
    then show ?thesis using merged_start_horizon [OF c] nxt Some by fastforce
  qed (use nxt in simp)
  have "\<not> covers ?ws t"
  proof (rule separated_no_cover_before [OF _ _ t])
    show "separated ?ws" using merged_windows_correct [OF c] by blast
    show "\<not> covers ?ws now" using covers_merged_now [OF c] out by blast
    show "case find (\<lambda>w. fst w > now) ?ws of None \<Rightarrow> True | Some w \<Rightarrow> t < fst w"
      using nxt by (cases "find (\<lambda>w. fst w > now) ?ws") simp_all
  qed
  moreover have "date_of now * day_ns \<le> t" using date_of_bounds(1) [of now] t by simp
  ultimately show ?thesis using covers_merged_iff_open [OF c] hor by blast
qed

lemma decide_windows_Some:
  assumes "next_change_secs (decide_windows cal s now) = Some k"
  obtains (inside) w where "w \<in> set (merged_windows cal s (date_of now))" "fst w \<le> now" "now < snd w"
      "k = max (num_seconds (snd w - now)) 0" "allowed (decide_windows cal s now)" "sched_enabled s"
    | (outside) w where "find (\<lambda>w. fst w > now) (merged_windows cal s (date_of now)) = Some w"
      "k = max (num_seconds (fst w - now)) 0" "\<not> allowed (decide_windows cal s now)" "sched_enabled s"
proof (cases "find (\<lambda>w. fst w \<le> now \<and> now < snd w) (merged_windows cal s (date_of now))")
  case None
  then show ?thesis using assms outside
    by (cases "sched_enabled s") (auto simp: decide_windows_def Let_def)
next
  case (Some w)
  then have w: "w \<in> set (merged_windows cal s (date_of now))" "fst w \<le> now" "now < snd w"
    unfolding find_Some_iff by auto
  show ?thesis using assms Some inside [OF w]
    by (cases "sched_enabled s") (auto simp: decide_windows_def Let_def)
qed

lemma allowed_stable_windows:
  assumes c: "clamped s" and k: "next_change_secs (decide_windows cal s now) = Some k"
    and e: "0 \<le> e" "e < k * second_ns"
  shows "allowed (decide_windows cal s (now + e)) = allowed (decide_windows cal s now)"
  using k
proof (cases rule: decide_windows_Some)
  case (inside w)
  have "now + e < snd w" using num_seconds_le [OF inside(4) e(2,1)] by simp
  then have "open_at cal s (now + e)"
    using stable_inside [OF inside(1,2)] e(1) c by simp
  then show ?thesis using inside by (simp add: allowed_decide_windows [OF c])
next
  case (outside w)
  have lt: "now + e < fst w" using num_seconds_le [OF outside(2) e(2,1)] by simp
  have "\<not> open_at cal s now" using outside by (simp add: allowed_decide_windows [OF c])
  then have "\<not> open_at cal s (now + e)"
    using stable_outside [OF c, of cal now "now + e"] outside(1) lt e(1) by simp
  then show ?thesis using outside by (simp add: allowed_decide_windows [OF c])
qed

lemma live_override_stable:
  assumes "next_change_secs (decide cal s l u) = Some k" "0 \<le> e" "e < k * second_ns"
  shows "live_override s (u + e) = live_override s u"
proof (cases "active_override s")
  case (Some ov)
  show ?thesis
  proof (cases "ov_until ov > u")
    case True
    with Some assms(1) have "k = max (num_seconds (ov_until ov - u)) 0" by (simp add: decide_def)
    from num_seconds_le [OF this assms(3,2)] have "u + e < ov_until ov" by simp
    with True Some show ?thesis by (simp add: live_override_def)
  qed (use Some assms(2) in \<open>simp add: live_override_def\<close>)
qed (simp add: live_override_def)

text \<open>
  The countdown is safe to sleep on: for any instant strictly before the reported
  \<open>next_change_secs\<close> have elapsed (on both clocks), evaluating the schedule again gives the same
  verdict, under an override, inside a window, and between windows alike.
\<close>

theorem next_change_is_safe:
  assumes "next_change_secs (decide cal (normalize n s) now_local now_utc) = Some k"
    and "0 \<le> e" and "e < k * second_ns"
  shows "allowed (decide cal (normalize n s) (now_local + e) (now_utc + e)) =
         allowed (decide cal (normalize n s) now_local now_utc)"
proof (cases "live_override (normalize n s) now_utc")
  case None
  then show ?thesis
    using live_override_stable [OF assms] assms allowed_stable_windows [OF clamped_normalize]
    by (simp add: decide_not_live)
next
  case (Some m)
  then show ?thesis using live_override_stable [OF assms] by (simp add: decide_live)
qed

text \<open>The work week of the default schedule, with day 0 a Monday.\<close>

definition monday_calendar :: calendar where
  "monday_calendar = \<lparr>weekday = (\<lambda>d. nat (d mod 7)), representable = (\<lambda>_. True)\<rparr>"

definition work_week :: processing_schedule where
  "work_week = default_schedule\<lparr>sched_enabled := True\<rparr>"

lemma work_week_normal: "normalize n work_week = work_week"
  by (simp add: work_week_def default_schedule_def normalize_def Let_def clamp_day_def OFF_def
      MINUTES_PER_DAY_def)

lemma work_week_ten:
  "next_change_secs (decide monday_calendar work_week 36000000000000 0) = Some 25200"
  by code_simp

theorem next_change_is_safe_witness:
  "allowed (decide monday_calendar (normalize 0 work_week)
      (10 * 3600 * second_ns + 5 * 3600 * second_ns) (0 + 5 * 3600 * second_ns)) =
   allowed (decide monday_calendar (normalize 0 work_week) (10 * 3600 * second_ns) 0)"
  by (rule next_change_is_safe [of _ _ _ _ _ 25200])
     (simp_all add: work_week_normal work_week_ten)

subsection \<open>The boundary is exact\<close>

definition no_empty_window :: "processing_schedule \<Rightarrow> bool" where
  "no_empty_window s \<longleftrightarrow> (\<forall>d \<in> set (sched_days s). 0 < length_minutes d)"

lemma day_window_nonempty:
  assumes "no_empty_window s" "w \<in> set (day_windows cal s date)"
  shows "fst w < snd w"
proof -
  let ?day = "sched_days s ! weekday cal date"
  from assms(2) have "weekday cal date < length (sched_days s)" and w: "w = window_on ?day date"
    by (auto simp: day_windows_def Let_def split: if_splits)
  then have "0 < length_minutes ?day" using assms(1) by (simp add: no_empty_window_def)
  then show ?thesis by (simp add: w window_on_def Let_def word_less_def)
qed

lemma opens_at_start:
  assumes "no_empty_window s" "w \<in> set (merged_windows cal s anchor)"
  shows "open_at cal s (fst w)"
proof -
  obtain date v where v: "v \<in> set (day_windows cal s date)" "fst v = fst w"
    using merged_starts [OF assms(2)] by blast
  have "fst v \<le> fst w \<and> fst w < snd v" using day_window_nonempty [OF assms(1) v(1)] v(2) by simp
  then show ?thesis using v(1) unfolding open_at_def by blast
qed

lemma separated_end_uncovered:
  assumes "separated ws" "w \<in> set ws"
  shows "\<not> covers ws (snd w)"
proof
  assume "covers ws (snd w)"
  then obtain v where v: "v \<in> set ws" "fst v \<le> snd w" "snd w < snd v" by (auto simp: covers_def)
  obtain i j where ij: "i < length ws" "w = ws ! i" "j < length ws" "v = ws ! j"
    using v(1) assms(2) by (auto simp: in_set_conv_nth)
  have "i < j \<Longrightarrow> snd w < fst v" "j < i \<Longrightarrow> snd v < fst w"
    using assms(1) ij by (auto simp: separated_def sorted_wrt_iff_nth_less)
  moreover have "fst w \<le> snd w" using assms by (simp add: separated_def proper_def)
  ultimately show False using v ij by (cases i j rule: linorder_cases) auto
qed

lemma num_seconds_bound: "0 \<le> d \<Longrightarrow> d < (num_seconds d + 1) * second_ns"
proof -
  assume "0 \<le> d"
  then have "num_seconds d = d div second_ns" by (rule num_seconds_nonneg)
  moreover have "d = d div second_ns * second_ns + d mod second_ns" by simp
  moreover have "d mod second_ns < second_ns" by simp
  ultimately show ?thesis by (simp add: algebra_simps)
qed

lemma boundary_windows:
  assumes c: "clamped s" and ne: "no_empty_window s"
    and k: "next_change_secs (decide_windows cal s now) = Some k"
    and h: "now + (k + 1) * second_ns \<le> (date_of now + LOOKAHEAD_DAYS) * day_ns"
  shows "\<exists>b. now < b \<and> k = num_seconds (b - now) \<and>
    (\<forall>t. now \<le> t \<and> t < b \<longrightarrow> open_at cal s t = open_at cal s now) \<and>
    open_at cal s b \<noteq> open_at cal s now"
  using k
proof (cases rule: decide_windows_Some)
  case (inside w)
  let ?ws = "merged_windows cal s (date_of now)"
  have k': "k = num_seconds (snd w - now)" using inside by (simp add: num_seconds_nonneg)
  have on: "open_at cal s t" if "now \<le> t" "t < snd w" for t
    using stable_inside [OF inside(1,2) that c] .
  have "snd w < (date_of now + 8) * day_ns"
    using num_seconds_bound [of "snd w - now"] inside(3) h k' by (simp add: LOOKAHEAD_DAYS_def)
  moreover have "date_of now * day_ns \<le> snd w" using date_of_bounds(1) [of now] inside(3) by simp
  moreover have "\<not> covers ?ws (snd w)"
    using separated_end_uncovered [OF _ inside(1)] merged_windows_correct [OF c] by blast
  ultimately have "\<not> open_at cal s (snd w)" using covers_merged_iff_open [OF c] by blast
  then show ?thesis using on inside(3) k' by (intro exI [of _ "snd w"]) auto
next
  case (outside w)
  have w: "w \<in> set (merged_windows cal s (date_of now))" "now < fst w"
    using outside(1) by (auto simp: find_Some_iff)
  have off: "\<not> open_at cal s now" using outside by (simp add: allowed_decide_windows [OF c])
  have "\<not> open_at cal s t" if "now \<le> t" "t < fst w" for t
    using stable_outside [OF c off that(1)] outside(1) that(2) by simp
  moreover have "k = num_seconds (fst w - now)" using outside(2) w(2) by (simp add: num_seconds_nonneg)
  ultimately show ?thesis
    using opens_at_start [OF ne w(1)] w(2) off by (intro exI [of _ "fst w"]) auto
qed

text \<open>
  When no override is live and no window is the empty one, the countdown is also exact: it is
  the time, in whole seconds, to the first instant at which the policy changes, as long as that
  lies inside the lookahead. Windows of neighbouring days that touch or overlap therefore never
  produce a boundary where nothing changes.
\<close>

theorem next_change_is_exact:
  assumes "live_override (normalize n s) now_utc = None"
    and "no_empty_window (normalize n s)"
    and "next_change_secs (decide cal (normalize n s) now now_utc) = Some k"
    and "now + (k + 1) * second_ns \<le> (date_of now + LOOKAHEAD_DAYS) * day_ns"
  shows "\<exists>b. now < b \<and> k = num_seconds (b - now) \<and>
    (\<forall>t. now \<le> t \<and> t < b \<longrightarrow> open_at cal (normalize n s) t = open_at cal (normalize n s) now) \<and>
    open_at cal (normalize n s) b \<noteq> open_at cal (normalize n s) now"
  using boundary_windows [OF clamped_normalize assms(2)] assms(1,3,4) by (simp add: decide_not_live)

theorem next_change_is_exact_witness:
  "\<exists>b. 10 * 3600 * second_ns < b \<and> 7 * 3600 = num_seconds (b - 10 * 3600 * second_ns) \<and>
    open_at monday_calendar (normalize 0 work_week) b \<noteq>
    open_at monday_calendar (normalize 0 work_week) (10 * 3600 * second_ns)"
proof -
  have "no_empty_window (normalize 0 work_week)" unfolding work_week_normal by code_simp
  moreover have "live_override (normalize 0 work_week) 0 = None"
    unfolding work_week_normal by code_simp
  moreover have "10 * 3600 * second_ns + (7 * 3600 + 1) * second_ns \<le>
      (date_of (10 * 3600 * second_ns) + LOOKAHEAD_DAYS) * day_ns" by code_simp
  ultimately show ?thesis
    using next_change_is_exact [of 0 work_week 0 monday_calendar "10 * 3600 * second_ns" "7 * 3600"]
      work_week_ten by (simp add: work_week_normal) blast
qed

section \<open>What a paused worker may claim\<close>

lemma set_claimable_kinds:
  "set (claimable_kinds ks d) = (if allowed d then set ks else set ks \<inter> {TranscribeSegment})"
  by (auto simp: claimable_kinds_def bypasses_schedule_def)

text \<open>The empty window that the range check does not exclude.\<close>

lemma empty_window_exists:
  "length_minutes \<lparr>dw_enabled = True, dw_start = 1440, dw_end = 0\<rparr> = 0"
  by (simp add: length_minutes_def MINUTES_PER_DAY_def)

end
