(* ===== verification/Scribe_Gate.thy ===== *)
theory Scribe_Gate
  imports Scribe_Schedule
begin

text \<open>
  The schedule as the worker sees it: the stored setting (\<open>scribe-db/src/settings.rs\<close>), the short
  cache in front of it (\<open>scribe-pipeline/src/gate.rs\<close>), and the waits and the window watch of
  \<open>worker.rs\<close>. Instants of the monotonic clock are nanoseconds. \<open>of_json\<close> and \<open>to_json\<close> are serde
  at \<open>ProcessingSchedule\<close>.
\<close>

section \<open>Settings\<close>

type_synonym settings = "(rstr \<times> json) list"

definition SETTING_KEY :: rstr where "SETTING_KEY = lit ''processing_schedule''"

definition get_setting :: "settings \<Rightarrow> rstr \<Rightarrow> json option" where
  "get_setting tab k = map_option snd (lookup_by fst k tab)"

definition put_setting :: "rstr \<Rightarrow> json \<Rightarrow> settings \<Rightarrow> settings" where
  "put_setting k v tab = upsert fst (\<lambda>old. (fst old, v)) (k, v) tab"

definition stored_schedule :: "(json \<Rightarrow> processing_schedule option) \<Rightarrow> int \<Rightarrow> settings \<Rightarrow> processing_schedule" where
  "stored_schedule of_json now_utc tab =
     normalize now_utc
       (case get_setting tab SETTING_KEY of
          Some v \<Rightarrow> (case of_json v of Some s \<Rightarrow> s | None \<Rightarrow> default_schedule)
        | None \<Rightarrow> default_schedule)"

definition set_processing_schedule ::
  "(processing_schedule \<Rightarrow> json) \<Rightarrow> int \<Rightarrow> processing_schedule \<Rightarrow> settings \<Rightarrow> processing_schedule \<times> settings" where
  "set_processing_schedule to_json now_utc s tab =
     (let s' = normalize now_utc s in (s', put_setting SETTING_KEY (to_json s') tab))"

interpretation setting_table: keyed_table "fst :: rstr \<times> json \<Rightarrow> rstr" "\<lambda>new old. (fst old, snd new)"
  by unfold_locales simp

lemma get_put_setting:
  "get_setting (put_setting k v tab) k = Some v"
  "k' \<noteq> k \<Longrightarrow> get_setting (put_setting k v tab) k' = get_setting tab k'"
  using setting_table.lookup_upsert_same [of "(k, v)" tab] setting_table.lookup_upsert_other [of k' "(k, v)" tab]
  by (auto simp: get_setting_def put_setting_def split: option.splits)

definition serde_ok :: "(processing_schedule \<Rightarrow> json) \<Rightarrow> (json \<Rightarrow> processing_schedule option) \<Rightarrow> bool" where
  "serde_ok to_json of_json \<longleftrightarrow> (\<forall>s. of_json (to_json s) = Some s)"

text \<open>
  A schedule saved through the settings table is read back as the normalised schedule that was
  returned to the caller, for as long as its override lasts; other settings keep their value, and
  a row nobody wrote, or one that cannot be read, means no schedule.
\<close>

theorem schedule_setting_roundtrip:
  assumes "serde_ok to_json of_json"
  shows "(case set_processing_schedule to_json now s tab of (s', tab') \<Rightarrow>
      s' = normalize now s \<and> stored_schedule of_json now tab' = s' \<and>
      stored_schedule of_json later tab' = normalize later s' \<and>
      (\<forall>k. k = SETTING_KEY \<or> get_setting tab' k = get_setting tab k)) \<and>
    (if Option.bind (get_setting tab SETTING_KEY) of_json = None
     then stored_schedule of_json now tab = normalize now default_schedule else True)"
proof -
  have "k = SETTING_KEY \<or> get_setting (put_setting SETTING_KEY v tab) k = get_setting tab k" for k v
    using get_put_setting(2) by blast
  moreover have "stored_schedule of_json t (put_setting SETTING_KEY (to_json s') tab) = normalize t s'" for t s'
    using assms by (simp add: stored_schedule_def get_put_setting(1) serde_ok_def)
  ultimately show ?thesis using normalize_idem [of now s]
    by (auto simp: set_processing_schedule_def stored_schedule_def Let_def split: option.splits)
qed

text \<open>An encoding with the property: the fields spelled out as numbers.\<close>

lemma serde_exists: "\<exists>to_json of_json. serde_ok to_json of_json"
proof -
  define enc_word :: "32 word \<Rightarrow> json" where "enc_word w = JArray (replicate (unat w) JNull)" for w
  define enc_int :: "int \<Rightarrow> json" where
    "enc_int i = (if i < 0 then JArray (JNull # replicate (nat (- i)) JNull) else JObject (replicate (nat i) ([], JNull)))" for i
  define enc_day :: "day_window \<Rightarrow> json" where
    "enc_day w = JArray [JBool (dw_enabled w), enc_int (uint (dw_start w)), enc_int (uint (dw_end w))]" for w
  define enc_ov :: "schedule_override option \<Rightarrow> json" where
    "enc_ov x = (case x of None \<Rightarrow> JNull | Some v \<Rightarrow> JArray [JBool (ov_mode v = Run), enc_int (ov_until v)])" for x
  define enc :: "processing_schedule \<Rightarrow> json" where
    "enc s = JArray [JBool (sched_enabled s), JArray (map enc_day (sched_days s)),
       enc_word (sched_grace_minutes s), enc_ov (active_override s)]" for s
  have int: "enc_int i = enc_int j \<Longrightarrow> i = j" for i j
    by (auto simp: enc_int_def split: if_splits dest: arg_cong [where f = length])
  have day: "enc_day v = enc_day w \<Longrightarrow> v = w" for v w
    by (cases v; cases w) (auto simp: enc_day_def word_uint_eq_iff dest!: int)
  then have days: "map enc_day vs = map enc_day ws \<Longrightarrow> vs = ws" for vs ws
    by (metis inj_map_eq_map injI)
  have ov: "enc_ov x = enc_ov y \<Longrightarrow> x = y" for x y
  proof -
    assume e: "enc_ov x = enc_ov y"
    have m: "(a = Run) = (b = Run) \<Longrightarrow> a = b" for a b by (cases a; cases b) auto
    show ?thesis using e
      by (cases x; cases y; (cases "the x"; cases "the y")?) (auto simp: enc_ov_def dest!: int m)
  qed
  have word: "enc_word v = enc_word w \<Longrightarrow> v = w" for v w
    by (auto simp: enc_word_def word_unat_eq_iff dest: arg_cong [where f = length])
  have "inj enc"
  proof (rule injI)
    fix s t assume e: "enc s = enc t"
    have "sched_enabled s = sched_enabled t" "sched_days s = sched_days t"
      "sched_grace_minutes s = sched_grace_minutes t" "active_override s = active_override t"
      using e by (auto simp: enc_def dest: days word ov)
    then show "s = t" by simp
  qed
  then have "serde_ok enc (\<lambda>v. Some (inv enc v))" by (simp add: serde_ok_def)
  then show ?thesis by blast
qed

theorem schedule_setting_roundtrip_witness:
  "\<exists>to_json of_json. serde_ok to_json of_json \<and>
     stored_schedule of_json 0 (snd (set_processing_schedule to_json 0 default_schedule [])) = normalize 0 default_schedule"
proof -
  obtain enc dec where ok: "serde_ok enc dec" using serde_exists by blast
  from schedule_setting_roundtrip [OF ok, where now = 0 and s = default_schedule and tab = "[]" and later = 0]
  show ?thesis using ok by (intro exI [of _ enc] exI [of _ dec]) (auto split: prod.splits)
qed

section \<open>The cached gate\<close>

definition CACHE_TTL :: int where "CACHE_TTL = 5 * second_ns"

record gate_state =
  gs_cached :: "(int \<times> processing_schedule) option"
  gs_last_logged :: "bool option"

definition new_gate :: gate_state where
  "new_gate = \<lparr>gs_cached = None, gs_last_logged = None\<rparr>"

definition invalidate :: "gate_state \<Rightarrow> gate_state" where
  "invalidate g = g\<lparr>gs_cached := None\<rparr>"

text \<open>\<open>read\<close> is what the settings table answers at this moment; the clock is read again after it.\<close>

definition gate_schedule ::
  "int \<Rightarrow> int \<Rightarrow> processing_schedule res \<Rightarrow> gate_state \<Rightarrow> processing_schedule \<times> gate_state" where
  "gate_schedule now after_read read g =
     (case gs_cached g of
        Some (at, s) \<Rightarrow>
          if now - at < CACHE_TTL then (s, g)
          else (case read of Inr s' \<Rightarrow> (s', g\<lparr>gs_cached := Some (after_read, s')\<rparr>) | Inl e \<Rightarrow> (s, g))
      | None \<Rightarrow>
          (case read of Inr s' \<Rightarrow> (s', g\<lparr>gs_cached := Some (after_read, s')\<rparr>) | Inl e \<Rightarrow> (default_schedule, g)))"

definition gate_decide ::
  "calendar \<Rightarrow> int \<Rightarrow> int \<Rightarrow> int \<Rightarrow> int \<Rightarrow> processing_schedule res \<Rightarrow> gate_state \<Rightarrow> schedule_decision \<times> gate_state" where
  "gate_decide cal now after_read now_local now_utc read g =
     (case gate_schedule now after_read read g of
        (s, g') \<Rightarrow>
          let dec = decide cal s now_local now_utc
          in (dec, if gs_last_logged g' \<noteq> Some (allowed dec) then g'\<lparr>gs_last_logged := Some (allowed dec)\<rparr> else g'))"

text \<open>
  The gate answers with the schedule as stored now, or with one read less than five seconds ago;
  a read that fails falls back to the last schedule known, and with none known to the default, which
  allows everything; after an invalidation the table is always asked.
\<close>

theorem gate_is_fresh:
  "case gate_schedule now after_read read g of (s, g') \<Rightarrow>
     (case read of
        Inr s0 \<Rightarrow> s = s0 \<or> (\<exists>at. gs_cached g = Some (at, s) \<and> now < at + 5 * second_ns)
      | Inl e \<Rightarrow> s = (case gs_cached g of Some (at, s1) \<Rightarrow> s1 | None \<Rightarrow> default_schedule) \<and> g' = g) \<and>
     fst (gate_schedule now after_read read (invalidate g)) = (case read of Inr s0 \<Rightarrow> s0 | Inl e \<Rightarrow> default_schedule) \<and>
     allowed (decide cal default_schedule l u)"
  by (auto simp: gate_schedule_def invalidate_def CACHE_TTL_def default_schedule_def decide_def
      decide_windows_def Let_def split: option.splits sum.splits)

section \<open>Waiting\<close>

text \<open>Durations in seconds, as the configuration has them.\<close>

definition WINDOW_CHECK_INTERVAL :: int where "WINDOW_CHECK_INTERVAL = 30"
definition PAUSED_POLL_MAX :: int where "PAUSED_POLL_MAX = 15"
definition MIN_DEFER :: int where "MIN_DEFER = 60"
definition FALLBACK_DEFER :: int where "FALLBACK_DEFER = 3600"

definition idle_wait :: "int \<Rightarrow> bool \<Rightarrow> int" where
  "idle_wait poll ok = (if ok then poll else min poll PAUSED_POLL_MAX)"

definition retry_delay :: "schedule_decision \<Rightarrow> int" where
  "retry_delay dec =
     (case next_change_secs dec of
        Some secs \<Rightarrow> if secs > 0 then max secs MIN_DEFER else FALLBACK_DEFER
      | None \<Rightarrow> FALLBACK_DEFER)"

section \<open>Watching the window\<close>

text \<open>One firing of the 30 s timer: the clock and the schedule as the gate returns it.\<close>

record tick =
  tk_at :: int
  tk_decision :: schedule_decision
  tk_grace_minutes :: "32 word"

text \<open>
  The loop of \<open>run_stage_within_window\<close> over the ticks that fire before the stage is done:
  \<open>Some retry\<close> when the stage is dropped, \<open>None\<close> when all ticks pass and the stage finishes.
\<close>

fun watch_window :: "int option \<Rightarrow> tick list \<Rightarrow> int option" where
  "watch_window closed_since [] = None"
| "watch_window closed_since (t # ts) =
     (if allowed (tk_decision t) then watch_window None ts
      else let since = (case closed_since of Some s \<Rightarrow> s | None \<Rightarrow> tk_at t);
               grace = uint (tk_grace_minutes t) * 60 * second_ns
           in if tk_at t - since \<ge> grace then Some (retry_delay (tk_decision t))
              else watch_window (Some since) ts)"

definition stage_abandoned :: "job_kind \<Rightarrow> tick list \<Rightarrow> int option" where
  "stage_abandoned kind ticks = (if bypasses_schedule kind then None else watch_window None ticks)"

text \<open>The ticks up to the last one saw the window shut, from a first that is a grace period back.\<close>

definition overrun :: "tick list \<Rightarrow> bool" where
  "overrun run \<longleftrightarrow> run \<noteq> [] \<and> (\<forall>t \<in> set run. \<not> allowed (tk_decision t)) \<and>
     tk_at (last run) - tk_at (hd run) \<ge> uint (tk_grace_minutes (last run)) * 60 * second_ns"

lemma watch_window_Some:
  "watch_window since ts = Some r \<Longrightarrow>
     \<exists>pre run post. ts = pre @ run @ post \<and> run \<noteq> [] \<and> (\<forall>t \<in> set run. \<not> allowed (tk_decision t)) \<and>
       r = retry_delay (tk_decision (last run)) \<and>
       tk_at (last run) - (if pre = [] then (case since of Some s \<Rightarrow> s | None \<Rightarrow> tk_at (hd run)) else tk_at (hd run))
         \<ge> uint (tk_grace_minutes (last run)) * 60 * second_ns"
proof (induction since ts rule: watch_window.induct)
  case (2 since t ts)
  show ?case
  proof (cases "allowed (tk_decision t)")
    case True
    then have "watch_window None ts = Some r" using "2.prems" by simp
    from "2.IH"(1) [OF True this] obtain pre run post where
      x: "ts = pre @ run @ post" "run \<noteq> []" "\<forall>t \<in> set run. \<not> allowed (tk_decision t)"
        "r = retry_delay (tk_decision (last run))"
        "tk_at (last run) - (if pre = [] then (case None of Some s \<Rightarrow> s | None \<Rightarrow> tk_at (hd run)) else tk_at (hd run))
           \<ge> uint (tk_grace_minutes (last run)) * 60 * second_ns" by blast
    then show ?thesis
      by (intro exI [of _ "t # pre"] exI [of _ run] exI [of _ post]) (auto split: if_splits)
  next
    case shut: False
    define s where "s = (case since of Some s \<Rightarrow> s | None \<Rightarrow> tk_at t)"
    show ?thesis
    proof (cases "tk_at t - s \<ge> uint (tk_grace_minutes t) * 60 * second_ns")
      case True
      then have "r = retry_delay (tk_decision t)" using "2.prems" shut by (simp add: s_def Let_def)
      then show ?thesis using True shut s_def
        by (intro exI [of _ "[]"] exI [of _ "[t]"] exI [of _ ts]) (auto split: option.splits)
    next
      case False
      then have "watch_window (Some s) ts = Some r" using "2.prems" shut by (simp add: s_def Let_def)
      from "2.IH"(2) [OF shut _ refl _ this] False s_def obtain pre run post where
        x: "ts = pre @ run @ post" "run \<noteq> []" "\<forall>t \<in> set run. \<not> allowed (tk_decision t)"
          "r = retry_delay (tk_decision (last run))"
          "tk_at (last run) - (if pre = [] then (case Some s of Some s \<Rightarrow> s | None \<Rightarrow> tk_at (hd run)) else tk_at (hd run))
             \<ge> uint (tk_grace_minutes (last run)) * 60 * second_ns" by blast
      show ?thesis
      proof (cases "pre = []")
        case True
        then show ?thesis using x shut s_def
          by (intro exI [of _ "[]"] exI [of _ "t # run"] exI [of _ post]) (auto split: option.splits)
      next
        case ne: False
        then show ?thesis using x
          by (intro exI [of _ "t # pre"] exI [of _ run] exI [of _ post]) auto
      qed
    qed
  qed
qed simp

lemma watch_window_run:
  "\<forall>t \<in> set run. \<not> allowed (tk_decision t) \<Longrightarrow> run \<noteq> [] \<Longrightarrow>
   tk_at (last run) - s \<ge> uint (tk_grace_minutes (last run)) * 60 * second_ns \<Longrightarrow>
   watch_window (Some s) (run @ post) \<noteq> None"
proof (induction run)
  case (Cons t run)
  show ?case
  proof (cases "run = []")
    case True
    then show ?thesis using Cons.prems by (simp add: Let_def)
  next
    case False
    then show ?thesis using Cons by (simp add: Let_def)
  qed
qed simp

lemma watch_window_overrun: "overrun run \<Longrightarrow> watch_window None (run @ post) \<noteq> None"
proof (cases run)
  case (Cons t rest)
  assume o: "overrun run"
  show ?thesis
  proof (cases "rest = []")
    case True
    then show ?thesis using o Cons by (simp add: overrun_def Let_def)
  next
    case False
    then have "watch_window (Some (tk_at t)) (rest @ post) \<noteq> None"
      using o Cons by (intro watch_window_run) (auto simp: overrun_def)
    then show ?thesis using o Cons by (simp add: overrun_def Let_def)
  qed
qed (simp add: overrun_def)

text \<open>
  A gated stage is dropped only after the window has been shut at every check for at least the
  grace period without a break, and then is retried no sooner than a minute and exactly when the
  next window opens if that is later; if the window closes for that long right after it was last
  seen open, the stage is dropped; the live stage never is.
\<close>

theorem stage_abandoned_spec:
  "(stage_abandoned kind ticks = Some retry \<longrightarrow>
      \<not> bypasses_schedule kind \<and> MIN_DEFER \<le> retry \<and>
      (\<exists>pre run post. ticks = pre @ run @ post \<and> overrun run \<and> retry = retry_delay (tk_decision (last run)))) \<and>
   (\<not> bypasses_schedule kind \<and> overrun run \<and> ticks = opened @ run @ post \<and>
      (\<forall>t \<in> set opened. allowed (tk_decision t)) \<longrightarrow> stage_abandoned kind ticks \<noteq> None)"
proof
  show "stage_abandoned kind ticks = Some retry \<longrightarrow>
      \<not> bypasses_schedule kind \<and> MIN_DEFER \<le> retry \<and>
      (\<exists>pre run post. ticks = pre @ run @ post \<and> overrun run \<and> retry = retry_delay (tk_decision (last run)))"
  proof
    assume "stage_abandoned kind ticks = Some retry"
    then have k: "\<not> bypasses_schedule kind" and w: "watch_window None ticks = Some retry"
      by (auto simp: stage_abandoned_def split: if_splits)
    from watch_window_Some [OF w] obtain pre run post where
      x: "ticks = pre @ run @ post" "run \<noteq> []" "\<forall>t \<in> set run. \<not> allowed (tk_decision t)"
        "retry = retry_delay (tk_decision (last run))"
        "tk_at (last run) - (if pre = [] then (case None of Some s \<Rightarrow> s | None \<Rightarrow> tk_at (hd run)) else tk_at (hd run))
           \<ge> uint (tk_grace_minutes (last run)) * 60 * second_ns" by blast
    then have "overrun run" by (auto simp: overrun_def split: if_splits)
    moreover have "MIN_DEFER \<le> retry"
      unfolding x(4) by (auto simp: retry_delay_def MIN_DEFER_def FALLBACK_DEFER_def split: option.splits)
    ultimately show "\<not> bypasses_schedule kind \<and> MIN_DEFER \<le> retry \<and>
      (\<exists>pre run post. ticks = pre @ run @ post \<and> overrun run \<and> retry = retry_delay (tk_decision (last run)))"
      using k x by blast
  qed
  have skip: "(\<forall>t \<in> set os. allowed (tk_decision t)) \<Longrightarrow> watch_window None (os @ ts) = watch_window None ts" for os ts
    by (induction os) auto
  show "\<not> bypasses_schedule kind \<and> overrun run \<and> ticks = opened @ run @ post \<and>
      (\<forall>t \<in> set opened. allowed (tk_decision t)) \<longrightarrow> stage_abandoned kind ticks \<noteq> None"
    using skip [of opened "run @ post"] watch_window_overrun [of run post] by (auto simp: stage_abandoned_def)
qed

definition shut_tick :: "int \<Rightarrow> tick" where
  "shut_tick at = \<lparr>tk_at = at, tk_decision = \<lparr>allowed = False, reason = OutsideWindow, next_change_secs = Some 7200\<rparr>,
     tk_grace_minutes = 1\<rparr>"

theorem stage_abandoned_spec_witness:
  "stage_abandoned Merge [shut_tick 0, shut_tick (30 * second_ns), shut_tick (60 * second_ns)] = Some 7200 \<and>
   overrun [shut_tick 0, shut_tick (30 * second_ns), shut_tick (60 * second_ns)]"
  using stage_abandoned_spec [of Merge "[shut_tick 0, shut_tick (30 * second_ns), shut_tick (60 * second_ns)]" 7200
      "[shut_tick 0, shut_tick (30 * second_ns), shut_tick (60 * second_ns)]" "[]" "[]"]
  by (simp add: stage_abandoned_def shut_tick_def overrun_def bypasses_schedule_def retry_delay_def MIN_DEFER_def Let_def)

end
