(* ===== verification/Scribe_Storage.thy ===== *)
theory Scribe_Storage
  imports Scribe_Types
begin

text \<open>
  The blob layout, \<open>crates/scribe-core/src/storage.rs\<close>. \<open>uuid_str\<close> is the \<open>Display\<close> of the \<open>uuid\<close>
  crate; what the layout relies on is that it is injective, non-empty and free of slashes.
\<close>

definition uuid_ok :: "(uuid \<Rightarrow> rstr) \<Rightarrow> bool" where
  "uuid_ok uuid_str \<longleftrightarrow> inj uuid_str \<and> (\<forall>u. uuid_str u \<noteq> [] \<and> ch CHR ''/'' \<notin> set (uuid_str u))"

text \<open>\<open>Path::join\<close> on Unix: an absolute right-hand side replaces the left.\<close>

definition path_join :: "rstr \<Rightarrow> rstr \<Rightarrow> rstr" where
  "path_join a b =
     (if b \<noteq> [] \<and> hd b = ch CHR ''/'' then b
      else if a = [] \<or> last a = ch CHR ''/'' then a @ b
      else a @ [ch CHR ''/''] @ b)"

definition storage_key :: "(uuid \<Rightarrow> rstr) \<Rightarrow> uuid \<Rightarrow> rstr" where
  "storage_key uuid_str rid = uuid_str rid"

definition recording_dir :: "(uuid \<Rightarrow> rstr) \<Rightarrow> rstr \<Rightarrow> uuid \<Rightarrow> rstr" where
  "recording_dir uuid_str blobs rid = path_join blobs (uuid_str rid)"

definition segments_dir :: "(uuid \<Rightarrow> rstr) \<Rightarrow> rstr \<Rightarrow> uuid \<Rightarrow> rstr" where
  "segments_dir uuid_str blobs rid = path_join (recording_dir uuid_str blobs rid) (lit ''segments'')"

definition strip_dots :: "rstr \<Rightarrow> rstr" where
  "strip_dots ext = trim_start_matches (\<lambda>c. c = ch CHR ''.'') ext"

definition segment_path :: "(uuid \<Rightarrow> rstr) \<Rightarrow> rstr \<Rightarrow> uuid \<Rightarrow> int \<Rightarrow> rstr \<Rightarrow> rstr" where
  "segment_path uuid_str blobs rid seq ext =
     path_join (segments_dir uuid_str blobs rid) (show_int_06 seq @ lit ''.'' @ strip_dots ext)"

definition segment_key :: "(uuid \<Rightarrow> rstr) \<Rightarrow> uuid \<Rightarrow> int \<Rightarrow> rstr \<Rightarrow> rstr" where
  "segment_key uuid_str rid seq ext =
     uuid_str rid @ lit ''/segments/'' @ show_int_06 seq @ lit ''.'' @ strip_dots ext"

definition wav_path :: "(uuid \<Rightarrow> rstr) \<Rightarrow> rstr \<Rightarrow> uuid \<Rightarrow> rstr" where
  "wav_path uuid_str blobs rid = path_join (recording_dir uuid_str blobs rid) (lit ''audio.wav'')"

definition resolve_key :: "rstr \<Rightarrow> rstr \<Rightarrow> rstr" where
  "resolve_key blobs key = path_join blobs key"

section \<open>Keys name their segment, and paths agree with keys\<close>

lemma split_unique: "a @ (c :: codepoint) # b = a' @ c # b' \<Longrightarrow> c \<notin> set a \<Longrightarrow> c \<notin> set a' \<Longrightarrow> a = a' \<and> b = b'"
proof -
  assume e: "a @ c # b = a' @ c # b'" and n: "c \<notin> set a" "c \<notin> set a'"
  have "Some (a, b) = split_once c (a @ c # b)" using n(1) by simp
  also have "\<dots> = split_once c (a' @ c # b')" by (simp only: e)
  also have "\<dots> = Some (a', b')" using n(2) by simp
  finally show ?thesis by simp
qed

lemma show_int_06_chars: "set (show_int_06 i) \<subseteq> {c. is_digit c} \<union> {45}"
  using pad_zero_digits [OF show_nat_digits, of 5 "nat (- i)"] pad_zero_digits [OF show_nat_digits, of 6 "nat i"]
  by (auto simp: show_int_06_def list_all_iff)

lemma show_int_06_hd: "show_int_06 i \<noteq> [] \<and> ch CHR ''.'' \<notin> set (show_int_06 i) \<and> hd (show_int_06 i) \<noteq> ch CHR ''/''"
proof -
  have "show_int_06 i \<noteq> []" by (auto simp: show_int_06_def pad_zero_def)
  moreover from this have "hd (show_int_06 i) \<in> set (show_int_06 i)" by simp
  then have "hd (show_int_06 i) \<in> {c. is_digit c} \<union> {45}" using show_int_06_chars by blast
  then have "hd (show_int_06 i) \<noteq> ch CHR ''/''" by (auto simp: is_digit_def)
  moreover have "ch CHR ''.'' \<notin> {c. is_digit c} \<union> {45}" by (simp add: is_digit_def)
  then have "ch CHR ''.'' \<notin> set (show_int_06 i)" using show_int_06_chars [of i] by blast
  ultimately show ?thesis by blast
qed

lemma resolve_segment_key:
  assumes "uuid_ok uuid_str"
  shows "resolve_key blobs (segment_key uuid_str r s e) = segment_path uuid_str blobs r s e"
proof -
  let ?sl = "ch CHR ''/''"
  have u: "uuid_str x \<noteq> []" "?sl \<notin> set (uuid_str x)" for x using assms by (auto simp: uuid_ok_def)
  have rel: "hd (uuid_str r @ x) \<noteq> ?sl" for x using u [of r] by (metis hd_append2 hd_in_set)
  have "last (uuid_str r) \<noteq> ?sl" using u [of r] by (metis last_in_set)
  moreover have "hd (show_int_06 s @ x) \<noteq> ?sl" for x using show_int_06_hd [of s] by simp
  ultimately show ?thesis
    using rel rel [of "[]"] u(1) [of r]
    by (simp add: resolve_key_def segment_path_def segments_dir_def recording_dir_def segment_key_def path_join_def)
qed

text \<open>
  Two segments never share a storage key: recording, sequence number and extension (leading dots
  apart) can be read off it. And the key, resolved against the blob root, is the very path the
  segment is written to, so the layout cannot drift between the writer and the readers.
\<close>

theorem segment_key_names_segment:
  assumes "uuid_ok uuid_str"
  shows "(segment_key uuid_str r s e = segment_key uuid_str r' s' e' \<longleftrightarrow>
      r = r' \<and> s = s' \<and> strip_dots e = strip_dots e') \<and>
    resolve_key blobs (segment_key uuid_str r s e) = segment_path uuid_str blobs r s e"
proof
  let ?sl = "ch CHR ''/''"
  have u: "uuid_str x \<noteq> []" "?sl \<notin> set (uuid_str x)" "uuid_str x = uuid_str y \<Longrightarrow> x = y" for x y
    using assms by (auto simp: uuid_ok_def inj_def)
  show "segment_key uuid_str r s e = segment_key uuid_str r' s' e' \<longleftrightarrow>
      r = r' \<and> s = s' \<and> strip_dots e = strip_dots e'"
  proof
    assume "segment_key uuid_str r s e = segment_key uuid_str r' s' e'"
    then have k: "uuid_str r @ ?sl # (lit ''segments/'' @ show_int_06 s @ lit ''.'' @ strip_dots e) =
        uuid_str r' @ ?sl # (lit ''segments/'' @ show_int_06 s' @ lit ''.'' @ strip_dots e')"
      by (simp add: segment_key_def)
    note k2 = split_unique [OF k u(2) u(2)]
    then have "show_int_06 s @ ch CHR ''.'' # strip_dots e = show_int_06 s' @ ch CHR ''.'' # strip_dots e'"
      by simp
    from split_unique [OF this] show "r = r' \<and> s = s' \<and> strip_dots e = strip_dots e'"
      using show_int_06_hd k2 u(3) by simp
  qed (simp add: segment_key_def)
  show "resolve_key blobs (segment_key uuid_str r s e) = segment_path uuid_str blobs r s e"
    by (rule resolve_segment_key [OF assms])
qed

lemma numeral_uuid_ok: "uuid_ok (\<lambda>u. show_nat (unat u))"
proof -
  have "ch CHR ''/'' \<notin> set (show_nat n)" for n
    using show_nat_digits [of n] by (auto simp: list_all_iff is_digit_def)
  then show ?thesis by (simp add: uuid_ok_def inj_def word_unat_eq_iff)
qed

theorem segment_key_names_segment_witness:
  "uuid_ok (\<lambda>u. show_nat (unat u)) \<and>
   segment_key (\<lambda>u. show_nat (unat u)) 1 2 (lit ''m4a'') \<noteq> segment_key (\<lambda>u. show_nat (unat u)) 1 3 (lit ''m4a'')"
  using segment_key_names_segment [OF numeral_uuid_ok, of 1 2 "lit ''m4a''" 1 3 "lit ''m4a''"] numeral_uuid_ok by simp

end
