(* ===== verification/Scribe_Identity.thy ===== *)
theory Scribe_Identity
  imports Scribe_Storage Scribe_Store
begin

text \<open>
  The diarize stage, \<open>crates/scribe-pipeline/src/stages/diarize.rs\<close>: matching a recording's voices
  against the enrolled ones, and what is stored of them.

  A voice print is a list of \<open>f32\<close> bit patterns. The arithmetic on them is IEEE 754 single precision,
  which enters as the record \<open>f32_ops\<close>; the theorems hold for any such operations, in particular
  whatever NaN compares to. The speech engine's \<open>diarize\<close> is a parameter, as is the file system.
\<close>

record f32_ops =
  f_lt :: "f32 \<Rightarrow> f32 \<Rightarrow> bool"
  f_le :: "f32 \<Rightarrow> f32 \<Rightarrow> bool"
  f_add :: "f32 \<Rightarrow> f32 \<Rightarrow> f32"
  f_sub :: "f32 \<Rightarrow> f32 \<Rightarrow> f32"
  f_mul :: "f32 \<Rightarrow> f32 \<Rightarrow> f32"
  f_div :: "f32 \<Rightarrow> f32 \<Rightarrow> f32"
  f_sqrt :: "f32 \<Rightarrow> f32"
  f_sum :: "f32 list \<Rightarrow> f32"

text \<open>The constants as bit patterns: 0.5, 0.10, 0.75, 2.0 and \<open>f32::EPSILON\<close>.\<close>

definition ENROLL_MATCH_THRESHOLD_DEFAULT :: f32 where "ENROLL_MATCH_THRESHOLD_DEFAULT = 0x3F000000"
definition SEPARATION :: f32 where "SEPARATION = 0x3DCCCCCD"
definition MATCH_CONSISTENCY :: f32 where "MATCH_CONSISTENCY = 0x3F400000"
definition F32_TWO :: f32 where "F32_TWO = 0x40000000"
definition F32_EPSILON :: f32 where "F32_EPSILON = 0x34000000"

text \<open>The experiment hooks: what the three environment variables parse to, if set.\<close>

record identity_env =
  env_floor :: "f32 option"
  env_separation :: "f32 option"
  env_consistency :: "f32 option"

definition unwrap_or :: "'a option \<Rightarrow> 'a \<Rightarrow> 'a" where
  "unwrap_or x y = (case x of None \<Rightarrow> y | Some v \<Rightarrow> v)"

definition enroll_match_threshold :: "identity_env \<Rightarrow> f32" where
  "enroll_match_threshold env = unwrap_or (env_floor env) ENROLL_MATCH_THRESHOLD_DEFAULT"

definition match_consistency :: "identity_env \<Rightarrow> f32" where
  "match_consistency env = unwrap_or (env_consistency env) MATCH_CONSISTENCY"

definition separation :: "identity_env \<Rightarrow> f32" where
  "separation env = unwrap_or (env_separation env) SEPARATION"

definition cosine :: "f32_ops \<Rightarrow> f32 list \<Rightarrow> f32 list \<Rightarrow> f32" where
  "cosine F a b =
     (if a = [] \<or> length a \<noteq> length b then 0
      else let dot = f_sum F (map (\<lambda>(x, y). f_mul F x y) (zip a b));
               na = f_sqrt F (f_sum F (map (\<lambda>x. f_mul F x x) a));
               nb = f_sqrt F (f_sum F (map (\<lambda>x. f_mul F x x) b))
           in if f_le F na F32_EPSILON \<or> f_le F nb F32_EPSILON then 0 else f_div F dot (f_mul F na nb))"

text \<open>\<open>sort_by\<close> is a stable sort: insertion by the comparison \<open>cmp\<close>, greater-than moves past.\<close>

fun insort_by :: "('a \<Rightarrow> 'a \<Rightarrow> bool) \<Rightarrow> 'a \<Rightarrow> 'a list \<Rightarrow> 'a list" where
  "insort_by gt x [] = [x]"
| "insort_by gt x (y # ys) = (if gt x y then y # insort_by gt x ys else x # y # ys)"

definition sort_by :: "('a \<Rightarrow> 'a \<Rightarrow> bool) \<Rightarrow> 'a list \<Rightarrow> 'a list" where
  "sort_by gt xs = foldr (insort_by gt) xs []"

definition median :: "f32_ops \<Rightarrow> f32 list \<Rightarrow> f32 option" where
  "median F values =
     (if values = [] then None
      else let sorted = sort_by (\<lambda>a b. f_lt F b a) values; mid = length sorted div 2
           in Some (if length sorted mod 2 = 0
                    then f_div F (f_add F (sorted ! (mid - 1)) (sorted ! mid)) F32_TWO
                    else sorted ! mid))"

type_synonym candidate = "f32 \<times> int \<times> uuid"

text \<open>The other scores of one voice: everything but position \<open>i\<close>.\<close>

definition others :: "f32 list \<Rightarrow> nat \<Rightarrow> f32 list" where
  "others scores i = map snd (filter (\<lambda>(j, s). j \<noteq> i) (enumerate 0 scores))"

definition admissible :: "f32_ops \<Rightarrow> identity_env \<Rightarrow> f32 \<Rightarrow> f32 list \<Rightarrow> nat \<Rightarrow> bool" where
  "admissible F env threshold scores i \<longleftrightarrow>
     \<not> f_lt F (scores ! i) threshold \<and>
     (case median F (others scores i) of
        None \<Rightarrow> True
      | Some baseline \<Rightarrow> \<not> f_lt F (f_sub F (scores ! i) baseline) (separation env))"

definition voice_candidates ::
  "f32_ops \<Rightarrow> identity_env \<Rightarrow> f32 \<Rightarrow> (uuid \<times> f32 list) list \<Rightarrow> int \<times> f32 list \<Rightarrow> candidate list" where
  "voice_candidates F env threshold enrolled v =
     (let scores = map (\<lambda>(sid, vp). cosine F (snd v) vp) enrolled
      in map (\<lambda>i. (scores ! i, fst v, fst (enrolled ! i)))
           (filter (admissible F env threshold scores) [0..<length enrolled]))"

text \<open>Best score first, then the lower local index, then the lower speaker id.\<close>

definition ranks_after :: "f32_ops \<Rightarrow> candidate \<Rightarrow> candidate \<Rightarrow> bool" where
  "ranks_after F a b =
     (case (a, b) of ((sa, ia, ua), (sb, ib, ub)) \<Rightarrow>
        if f_lt F sb sa then False else if f_lt F sa sb then True
        else if ia < ib then False else if ib < ia then True
        else ub < ua)"

fun take_matches ::
  "f32_ops \<Rightarrow> identity_env \<Rightarrow> candidate list \<Rightarrow> (int \<times> uuid \<times> f32) list \<Rightarrow> uuid list \<Rightarrow> f32 list \<Rightarrow>
     (int \<times> uuid \<times> f32) list" where
  "take_matches F env [] resolved claimed accepted = resolved"
| "take_matches F env ((sim, idx, sid) # cs) resolved claimed accepted =
     (if idx \<in> fst ` set resolved \<or> sid \<in> set claimed then take_matches F env cs resolved claimed accepted
      else if (case median F accepted of None \<Rightarrow> False
               | Some standard \<Rightarrow> f_lt F sim (f_mul F (match_consistency env) standard))
      then take_matches F env cs resolved claimed accepted
      else take_matches F env cs (resolved @ [(idx, sid, sim)]) (sid # claimed) (accepted @ [sim]))"

definition resolve_identities ::
  "f32_ops \<Rightarrow> identity_env \<Rightarrow> (int \<times> f32 list) list \<Rightarrow> (uuid \<times> f32 list) list \<Rightarrow> f32 \<Rightarrow>
     (int \<times> uuid \<times> f32) list" where
  "resolve_identities F env voices enrolled threshold =
     (let candidates = concat (map (voice_candidates F env threshold enrolled) voices)
      in take_matches F env (sort_by (ranks_after F) candidates) [] [] [])"

section \<open>The stage\<close>

record diarization =
  dz_turns :: "turn_artifact list"
  dz_embeddings :: "(int \<times> f32 list) list"
  dz_num_speakers :: nat

definition list_enrolled_voiceprints :: "db \<Rightarrow> (uuid \<times> f32 list) list" where
  "list_enrolled_voiceprints d =
     List.map_filter (\<lambda>s. map_option (\<lambda>v. (sp_id s, v)) (sp_embedding s)) (sort_key sp_id (speakers d))"

fun store_speakers ::
  "uuid \<Rightarrow> (int \<times> f32 list) list \<Rightarrow> (int \<times> uuid \<times> f32) list \<Rightarrow> int list \<Rightarrow> db \<Rightarrow> unit res \<times> db" where
  "store_speakers rid embs ids [] d = (Inr (), d)"
| "store_speakers rid embs ids (i # is) d =
     (case upsert_recording_speaker rid i (map_option fst (map_of ids i)) (map_of embs i) d of
        Inl e \<Rightarrow> (Inl e, d)
      | Inr d' \<Rightarrow> store_speakers rid embs ids is d')"

definition diarize_run ::
  "f32_ops \<Rightarrow> identity_env \<Rightarrow> (rstr \<Rightarrow> bool) \<Rightarrow> (rstr \<Rightarrow> int option \<Rightarrow> diarization res) \<Rightarrow> rstr \<Rightarrow>
     timestamp \<Rightarrow> uuid \<Rightarrow> db \<Rightarrow> unit res \<times> db" where
  "diarize_run F env exists diarize wav now rid d =
     (if \<not> exists wav then (Inl Pipeline, d)
      else case get_recording d rid of
        Inl e \<Rightarrow> (Inl e, d)
      | Inr r \<Rightarrow>
      (case diarize wav (rec_participants_expected r) of
         Inl e \<Rightarrow> (Inl Pipeline, d)
       | Inr dz \<Rightarrow>
           let spk = sort (remdups (map t_local_idx (dz_turns dz)));
               voices = List.map_filter (\<lambda>i. map_option (\<lambda>e. (i, e)) (map_of (dz_embeddings dz) i)) spk;
               ids = resolve_identities F env voices (list_enrolled_voiceprints d) (enroll_match_threshold env)
           in case store_speakers rid (dz_embeddings dz) ids spk d of
                (Inl e, d1) \<Rightarrow> (Inl e, d1)
              | (Inr _, d1) \<Rightarrow>
                  (case prune_recording_speakers rid spk d1 of
                     (_, d2) \<Rightarrow>
                       (case put_diarization now rid (dz_turns dz) (dz_num_speakers dz) d2 of
                          Inl e \<Rightarrow> (Inl e, d2)
                        | Inr d3 \<Rightarrow> (Inr (), d3)))))"

section \<open>One person, one voice\<close>

lemma set_insort_by: "set (insort_by gt x xs) = insert x (set xs)"
  by (induction gt x xs rule: insort_by.induct) auto

lemma set_sort_by [simp]: "set (sort_by gt xs) = set xs"
  by (induction xs) (auto simp: sort_by_def set_insort_by)

lemma take_matches_sound:
  assumes "distinct (map fst resolved)" "distinct (map (\<lambda>m. fst (snd m)) resolved)"
    "(\<lambda>m. fst (snd m)) ` set resolved \<subseteq> set claimed"
  shows "distinct (map fst (take_matches F env cs resolved claimed accepted)) \<and>
    distinct (map (\<lambda>m. fst (snd m)) (take_matches F env cs resolved claimed accepted)) \<and>
    set (take_matches F env cs resolved claimed accepted) \<subseteq>
      set resolved \<union> (\<lambda>(sim, idx, sid). (idx, sid, sim)) ` set cs"
  using assms
proof (induction F env cs resolved claimed accepted rule: take_matches.induct)
  case (2 F env sim idx sid cs resolved claimed accepted)
  let ?take = "\<not> (idx \<in> fst ` set resolved \<or> sid \<in> set claimed) \<and>
      \<not> (case median F accepted of None \<Rightarrow> False
          | Some standard \<Rightarrow> f_lt F sim (f_mul F (match_consistency env) standard))"
  show ?case
  proof (cases ?take)
    case False
    then have "take_matches F env ((sim, idx, sid) # cs) resolved claimed accepted =
        take_matches F env cs resolved claimed accepted" by auto
    then show ?thesis using 2 False by (auto split: if_splits)
  next
    case True
    then have eq: "take_matches F env ((sim, idx, sid) # cs) resolved claimed accepted =
        take_matches F env cs (resolved @ [(idx, sid, sim)]) (sid # claimed) (accepted @ [sim])"
      by auto
    have "distinct (map fst (resolved @ [(idx, sid, sim)]))"
      "distinct (map (\<lambda>m. fst (snd m)) (resolved @ [(idx, sid, sim)]))"
      "(\<lambda>m. fst (snd m)) ` set (resolved @ [(idx, sid, sim)]) \<subseteq> set (sid # claimed)"
      using "2.prems" True by auto
    from "2.IH"(3) [OF _ _ this] True show ?thesis unfolding eq by auto
  qed
qed simp

text \<open>
  Whatever the scores, the matching is one to one: no voice of the recording is given two
  people and no enrolled person is given to two voices; every pair that is accepted is a voice of the
  recording, an enrolled person, and their cosine similarity, which is not below the threshold.
\<close>

theorem resolve_identities_one_to_one:
  "let r = resolve_identities F env voices enrolled threshold in
   distinct (map fst r) \<and> distinct (map (\<lambda>m. fst (snd m)) r) \<and>
   set r \<subseteq> {(idx, sid, sim). \<exists>v p. (idx, v) \<in> set voices \<and> (sid, p) \<in> set enrolled \<and>
     sim = cosine F v p \<and> \<not> f_lt F sim threshold}"
proof -
  let ?cs = "concat (map (voice_candidates F env threshold enrolled) voices)"
  have cand: "\<exists>v p. (idx, v) \<in> set voices \<and> (sid, p) \<in> set enrolled \<and> sim = cosine F v p \<and> \<not> f_lt F sim threshold"
    if "(sim, idx, sid) \<in> set ?cs" for sim idx sid
  proof -
    from that obtain v i where v: "(idx, v) \<in> set voices" and i: "i < length enrolled"
      "admissible F env threshold (map (\<lambda>(sid, vp). cosine F v vp) enrolled) i"
      "sid = fst (enrolled ! i)" "sim = map (\<lambda>(sid, vp). cosine F v vp) enrolled ! i"
      by (auto simp: voice_candidates_def Let_def)
    have "sim = cosine F v (snd (enrolled ! i))" using i by (simp add: case_prod_beta)
    moreover have "(sid, snd (enrolled ! i)) \<in> set enrolled" using i by simp
    moreover have "\<not> f_lt F sim threshold" using i by (simp add: admissible_def)
    ultimately show ?thesis using v by blast
  qed
  let ?r = "resolve_identities F env voices enrolled threshold"
  have "distinct (map fst ?r)" "distinct (map (\<lambda>m. fst (snd m)) ?r)"
    "set ?r \<subseteq> (\<lambda>(sim, idx, sid). (idx, sid, sim)) ` set ?cs"
    using take_matches_sound [of "[]" "[]" F env "sort_by (ranks_after F) ?cs" "[]"]
    by (simp_all add: resolve_identities_def Let_def)
  moreover have "(\<lambda>(sim, idx, sid). (idx, sid, sim)) ` set ?cs \<subseteq>
      {(idx, sid, sim). \<exists>v p. (idx, v) \<in> set voices \<and> (sid, p) \<in> set enrolled \<and>
        sim = cosine F v p \<and> \<not> f_lt F sim threshold}"
    using cand by fast
  ultimately show ?thesis unfolding Let_def by blast
qed

section \<open>What the stage stores\<close>

definition voice_row ::
  "uuid \<Rightarrow> (int \<times> f32 list) list \<Rightarrow> (int \<times> uuid \<times> f32) list \<Rightarrow> int \<Rightarrow> rec_speaker" where
  "voice_row rid embs ids i =
     \<lparr>rs_recording_id = rid, rs_local_idx = i, rs_speaker_id = map_option fst (map_of ids i),
      rs_embedding = map_of embs i\<rparr>"

lemma set_upsert_rs:
  assumes "distinct (map rs_key xs)"
  shows "set (upsert rs_key (replace_rec_speaker s) s xs) = insert s {x \<in> set xs. rs_key x \<noteq> rs_key s}"
proof -
  have same: "rs_key x = rs_key s \<Longrightarrow> replace_rec_speaker s x = s" for x
    by (simp add: rs_key_def replace_rec_speaker_def)
  show ?thesis using assms
  proof (induction xs)
    case (Cons x xs)
    show ?case
    proof (cases "rs_key x = rs_key s")
      case True
      then have "\<forall>y \<in> set xs. rs_key y \<noteq> rs_key s" using Cons.prems
        by (metis distinct.simps(2) imageI list.map(2) list.set_map)
      then show ?thesis using True same by auto
    next
      case False
      then show ?thesis using Cons by auto
    qed
  qed simp
qed

lemma has_speaker_rows [simp]: "has_speaker (d\<lparr>recording_speakers := rows\<rparr>) sid = has_speaker d sid"
  by (cases sid) (simp_all add: has_speaker_def)

lemma store_speakers_total:
  assumes "has_recording d rid" "\<And>i. has_speaker d (map_option fst (map_of ids i))"
    "distinct (map rs_key (recording_speakers d))" "\<forall>i \<in> set is. width_ok VOICE_WIDTH (map_of embs i)"
  shows "\<exists>rows. store_speakers rid embs ids is d = (Inr (), d\<lparr>recording_speakers := rows\<rparr>) \<and>
    distinct (map rs_key rows) \<and>
    set rows = voice_row rid embs ids ` set is \<union>
      {s \<in> set (recording_speakers d). \<not> (rs_recording_id s = rid \<and> rs_local_idx s \<in> set is)}"
  using assms
proof (induction "is" arbitrary: d)
  case Nil
  then show ?case by (intro exI [of _ "recording_speakers d"]) auto
next
  case (Cons i "is")
  let ?s = "voice_row rid embs ids i"
  let ?rows = "upsert rs_key (replace_rec_speaker ?s) ?s (recording_speakers d)"
  let ?d = "d\<lparr>recording_speakers := ?rows\<rparr>"
  have up: "upsert_recording_speaker rid i (map_option fst (map_of ids i)) (map_of embs i) d = Inr ?d"
    using Cons.prems(1,2,4) by (simp add: upsert_recording_speaker_def voice_row_def Let_def)
  have "has_recording ?d rid" "\<And>i. has_speaker ?d (map_option fst (map_of ids i))"
    "distinct (map rs_key (recording_speakers ?d))" "\<forall>j \<in> set is. width_ok VOICE_WIDTH (map_of embs j)"
    using Cons.prems by (simp_all add: has_recording_def rs_table.distinct_upsert)
  from Cons.IH [OF this] obtain rows where
    r: "store_speakers rid embs ids is ?d = (Inr (), ?d\<lparr>recording_speakers := rows\<rparr>)" "distinct (map rs_key rows)"
      "set rows = voice_row rid embs ids ` set is \<union>
        {s \<in> set ?rows. \<not> (rs_recording_id s = rid \<and> rs_local_idx s \<in> set is)}"
    by auto
  have key: "rs_key s \<noteq> rs_key ?s \<longleftrightarrow> \<not> (rs_recording_id s = rid \<and> rs_local_idx s = i)" for s
    by (auto simp: rs_key_def voice_row_def)
  have "set rows = voice_row rid embs ids ` set (i # is) \<union>
      {s \<in> set (recording_speakers d). \<not> (rs_recording_id s = rid \<and> rs_local_idx s \<in> set (i # is))}"
    unfolding r(3) set_upsert_rs [OF Cons.prems(3)] key by (auto simp: voice_row_def)
  then show ?case using up r(1,2) by (intro exI [of _ rows]) simp
qed

lemma enrolled_known: "(sid, p) \<in> set (list_enrolled_voiceprints d) \<Longrightarrow> sid \<in> sp_id ` set (speakers d)"
  by (auto simp: list_enrolled_voiceprints_def List.map_filter_def)

lemma map_of_fst_mem: "map_option fst (map_of ids k) = Some p \<Longrightarrow> \<exists>s. (k, p, s) \<in> set ids"
  using map_of_SomeD [of ids k] by (cases "map_of ids k") force+

lemma resolved_one_to_one:
  "distinct (map fst (resolve_identities F env voices enrolled t)) \<and>
   distinct (map (\<lambda>m. fst (snd m)) (resolve_identities F env voices enrolled t)) \<and>
   (\<forall>(idx, sid, sim) \<in> set (resolve_identities F env voices enrolled t). \<exists>p. (sid, p) \<in> set enrolled)"
proof -
  let ?cs = "concat (map (voice_candidates F env t enrolled) voices)"
  have "\<forall>(sim, idx, sid) \<in> set ?cs. \<exists>p. (sid, p) \<in> set enrolled"
    by (auto simp: voice_candidates_def Let_def) (metis nth_mem prod.collapse)
  then show ?thesis
    using take_matches_sound [of "[]" "[]" F env "sort_by (ranks_after F) ?cs" "[]"]
    by (fastforce simp: resolve_identities_def Let_def)
qed

lemma diarize_run_rows:
  assumes "get_recording d rid = Inr r" and "exists wav"
    and "diarize wav (rec_participants_expected r) = Inr dz"
    and "distinct (map rs_key (recording_speakers d))"
    and "\<forall>t \<in> set (dz_turns dz). width_ok VOICE_WIDTH (map_of (dz_embeddings dz) (t_local_idx t))"
  shows "\<exists>d' who. diarize_run F env exists diarize wav now rid d = (Inr (), d') \<and>
    {s \<in> set (recording_speakers d'). rs_recording_id s = rid} =
      (\<lambda>i. \<lparr>rs_recording_id = rid, rs_local_idx = i, rs_speaker_id = who i,
            rs_embedding = map_of (dz_embeddings dz) i\<rparr>) ` t_local_idx ` set (dz_turns dz) \<and>
    (\<forall>i j p. who i = Some p \<and> who j = Some p \<longrightarrow> i = j) \<and>
    {s \<in> set (recording_speakers d'). rs_recording_id s \<noteq> rid} =
      {s \<in> set (recording_speakers d). rs_recording_id s \<noteq> rid} \<and>
    get_diarization d' rid = Inr (dz_turns dz, dz_num_speakers dz) \<and> jobs d' = jobs d"
proof -
  let ?spk = "sort (remdups (map t_local_idx (dz_turns dz)))"
  let ?embs = "dz_embeddings dz"
  let ?voices = "List.map_filter (\<lambda>i. map_option (\<lambda>e. (i, e)) (map_of ?embs i)) ?spk"
  let ?ids = "resolve_identities F env ?voices (list_enrolled_voiceprints d) (enroll_match_threshold env)"
  have hr: "has_recording d rid"
    using assms(1) by (auto simp: get_recording_def has_recording_def lookup_by_def dest: find_SomeD split: option.splits)
  have one: "distinct (map fst ?ids)" "distinct (map (\<lambda>m. fst (snd m)) ?ids)"
    and known: "\<And>idx sid sim. (idx, sid, sim) \<in> set ?ids \<Longrightarrow> sid \<in> sp_id ` set (speakers d)"
    using resolved_one_to_one [of F env ?voices "list_enrolled_voiceprints d" "enroll_match_threshold env"]
    by (fastforce dest: enrolled_known)+
  have fit: "\<forall>i \<in> set ?spk. width_ok VOICE_WIDTH (map_of ?embs i)" using assms(5) by simp
  have hs: "has_speaker d (map_option fst (map_of ?ids i))" for i
    using known by (cases "map_of ?ids i") (auto simp: has_speaker_def dest: map_of_SomeD)
  obtain rows where st: "store_speakers rid ?embs ?ids ?spk d = (Inr (), d\<lparr>recording_speakers := rows\<rparr>)"
    and rows: "set rows = voice_row rid ?embs ?ids ` set ?spk \<union>
      {s \<in> set (recording_speakers d). \<not> (rs_recording_id s = rid \<and> rs_local_idx s \<in> set ?spk)}"
    using store_speakers_total [OF hr hs assms(4) fit] by metis
  let ?kept = "delete_where (\<lambda>s. rs_recording_id s = rid \<and> rs_local_idx s \<notin> set ?spk) rows"
  let ?d2 = "d\<lparr>recording_speakers := ?kept\<rparr>"
  have "has_recording ?d2 rid" using hr by (simp add: has_recording_def)
  then obtain d3 where d3: "put_diarization now rid (dz_turns dz) (dz_num_speakers dz) ?d2 = Inr d3"
    "recording_speakers d3 = ?kept" "jobs d3 = jobs d"
    by (auto simp: put_diarization_def put_artifact_def Let_def)
  have run: "diarize_run F env exists diarize wav now rid d = (Inr (), d3)"
    using assms(1-3) st d3(1) by (simp add: diarize_run_def prune_recording_speakers_def Let_def)
  have "get_diarization d3 rid = Inr (dz_turns dz, dz_num_speakers dz)"
    using get_put_artifact(1) [OF d3(1) [unfolded put_diarization_def]] by (simp add: get_diarization_def)
  moreover have "i = j" if "map_option fst (map_of ?ids i) = Some p" "map_option fst (map_of ?ids j) = Some p" for i j p
  proof -
    note mem = map_of_fst_mem [OF that(1)] map_of_fst_mem [OF that(2)]
    then obtain s s' where "(i, p, s) \<in> set ?ids" "(j, p, s') \<in> set ?ids" by blast
    from distinct_map_eqD [OF one(2) this] show ?thesis by simp
  qed
  moreover have "{s \<in> set ?kept. rs_recording_id s = rid} = voice_row rid ?embs ?ids ` t_local_idx ` set (dz_turns dz)"
    using rows by (auto simp: voice_row_def)
  moreover have "{s \<in> set ?kept. rs_recording_id s \<noteq> rid} = {s \<in> set (recording_speakers d). rs_recording_id s \<noteq> rid}"
    using rows by (auto simp: voice_row_def)
  ultimately show ?thesis using run d3(2,3)
    by (intro exI [of _ d3] exI [of _ "\<lambda>i. map_option fst (map_of ?ids i)"]) (auto simp: voice_row_def [abs_def])
qed

text \<open>
  C26: when the recording exists and the engine succeeds with voices of the width of the column, the diarize stage succeeds. The
  recording's speakers are then exactly the indices that occur in a turn, including a voice too
  short to embed and none left over from an earlier run; no enrolled person is named for two of
  them; other recordings keep theirs; the turns are there for the merge stage; no job changed.
\<close>

theorem diarize_run_stores:
  assumes "get_recording d rid = Inr r" and "exists wav"
    and "diarize wav (rec_participants_expected r) = Inr dz"
    and "distinct (map rs_key (recording_speakers d))"
    and "\<forall>t \<in> set (dz_turns dz). width_ok VOICE_WIDTH (map_of (dz_embeddings dz) (t_local_idx t))"
  shows "\<exists>d' who. diarize_run F env exists diarize wav now rid d = (Inr (), d') \<and>
    {s \<in> set (recording_speakers d'). rs_recording_id s = rid} =
      (\<lambda>i. \<lparr>rs_recording_id = rid, rs_local_idx = i, rs_speaker_id = who i,
            rs_embedding = map_of (dz_embeddings dz) i\<rparr>) ` t_local_idx ` set (dz_turns dz) \<and>
    (\<forall>i j p. who i = Some p \<and> who j = Some p \<longrightarrow> i = j) \<and>
    {s \<in> set (recording_speakers d'). rs_recording_id s \<noteq> rid} =
      {s \<in> set (recording_speakers d). rs_recording_id s \<noteq> rid} \<and>
    get_diarization d' rid = Inr (dz_turns dz, dz_num_speakers dz) \<and> jobs d' = jobs d"
  using diarize_run_rows [where exists = exists and diarize = diarize, OF assms] .

text \<open>An instance: one speaker, nobody enrolled.\<close>

definition demo_ops :: f32_ops where
  "demo_ops = \<lparr>f_lt = (<), f_le = (\<le>), f_add = (+), f_sub = (-), f_mul = (*), f_div = (div),
     f_sqrt = (\<lambda>x. x), f_sum = sum_list\<rparr>"

definition demo_env :: identity_env where
  "demo_env = \<lparr>env_floor = None, env_separation = None, env_consistency = None\<rparr>"

definition demo_dz :: diarization where
  "demo_dz = \<lparr>dz_turns = [\<lparr>t_local_idx = 0, t_start_ms = 0, t_end_ms = 900\<rparr>], dz_embeddings = [], dz_num_speakers = 1\<rparr>"

theorem diarize_run_stores_witness:
  "\<exists>d' who. diarize_run demo_ops demo_env (\<lambda>p. True) (\<lambda>p n. Inr demo_dz) (lit ''a'') 1 7 sample_db = (Inr (), d') \<and>
     {s \<in> set (recording_speakers d'). rs_recording_id s = 7} =
       {\<lparr>rs_recording_id = 7, rs_local_idx = 0, rs_speaker_id = who, rs_embedding = None\<rparr>}"
proof -
  have "get_recording sample_db 7 = Inr sample_recording"
    by (simp add: get_recording_def sample_db_def lookup_by_def sample_recording_def)
  from diarize_run_stores [OF this, where exists = "\<lambda>p. True" and diarize = "\<lambda>p n. Inr demo_dz" and dz = demo_dz]
  show ?thesis by (fastforce simp: demo_dz_def sample_db_def empty_db_def)
qed

end
