(* ===== verification/Scribe_Merge.thy ===== *)
theory Scribe_Merge
  imports Scribe_Store
begin

text \<open>
  From words to utterances: the pure parts of \<open>crates/scribe-pipeline/src/stages/merge.rs\<close> and
  \<open>fillers.rs\<close>: the filler filter, speaker assignment, the island count, the grouping of words
  into utterances, and the name corrector with its search for a JSON array in a model's reply.

  Times are milliseconds in an \<open>i64\<close>, modelled as \<^typ>\<open>int\<close>; \<open>i64::MAX\<close> is kept where the code
  uses it as a starting value. \<open>alnum\<close> is \<open>char::is_alphanumeric\<close>, a table of the Unicode
  standard, and a parameter; \<open>parse_corrections\<close> is \<open>serde_json::from_str\<close> at \<^verbatim>\<open>Vec<Correction>\<close>.
\<close>

section \<open>Fillers\<close>

record asr_config =
  remove_fillers :: bool
  filler_words :: "rstr list"

record filler_filter =
  ff_enabled :: bool
  ff_set :: "rstr set"

definition normalize_filler :: "(codepoint \<Rightarrow> bool) \<Rightarrow> rstr \<Rightarrow> rstr" where
  "normalize_filler alnum w = to_ascii_lowercase (trim_matches (\<lambda>c. \<not> alnum c) (trim w))"

definition filler_from_config :: "(codepoint \<Rightarrow> bool) \<Rightarrow> asr_config \<Rightarrow> filler_filter" where
  "filler_from_config alnum cfg =
     \<lparr>ff_enabled = remove_fillers cfg,
      ff_set = set (filter (\<lambda>w. w \<noteq> []) (map (normalize_filler alnum) (filler_words cfg)))\<rparr>"

definition is_filler :: "(codepoint \<Rightarrow> bool) \<Rightarrow> filler_filter \<Rightarrow> rstr \<Rightarrow> bool" where
  "is_filler alnum f word =
     (if \<not> ff_enabled f then False
      else let n = normalize_filler alnum word in n \<noteq> [] \<and> n \<in> ff_set f)"

definition clean :: "(codepoint \<Rightarrow> bool) \<Rightarrow> filler_filter \<Rightarrow> word_rec list \<Rightarrow> nat \<times> word_rec list" where
  "clean alnum f ws =
     (if \<not> ff_enabled f \<or> ff_set f = {} then (0, ws)
      else let kept = filter (\<lambda>w. \<not> is_filler alnum f (w_text w)) ws
           in (length ws - length kept, kept))"

section \<open>Speaker assignment\<close>

definition I64_MAX :: int where "I64_MAX = 2 ^ 63 - 1"

text \<open>Integer division by two as \<open>i64\<close> does it: towards zero.\<close>

definition half :: "int \<Rightarrow> int" where
  "half x = (if x < 0 then - ((- x) div 2) else x div 2)"

definition overlap :: "int \<Rightarrow> int \<Rightarrow> int \<Rightarrow> int \<Rightarrow> int" where
  "overlap a0 a1 b0 b1 = max (min a1 b1 - max a0 b0) 0"

text \<open>\<^verbatim>\<open>*by_speaker.entry(idx).or_insert(0) += ov\<close>, the hash map as an association list.\<close>

fun add_overlap :: "int \<Rightarrow> int \<Rightarrow> (int \<times> int) list \<Rightarrow> (int \<times> int) list" where
  "add_overlap idx ov [] = [(idx, ov)]"
| "add_overlap idx ov ((i, o1) # es) =
     (if i = idx then (i, o1 + ov) # es else (i, o1) # add_overlap idx ov es)"

fun by_speaker :: "word_rec \<Rightarrow> turn_artifact list \<Rightarrow> (int \<times> int) list \<Rightarrow> (int \<times> int) list" where
  "by_speaker w [] es = es"
| "by_speaker w (t # ts) es =
     (let ov = overlap (w_start_ms w) (w_end_ms w) (t_start_ms t) (t_end_ms t)
      in by_speaker w ts (if ov > 0 then add_overlap (t_local_idx t) ov es else es))"

text \<open>\<^verbatim>\<open>max_by_key((ov, Reverse(idx)))\<close>: more overlap, then the lower index.\<close>

definition beats :: "int \<times> int \<Rightarrow> int \<times> int \<Rightarrow> bool" where
  "beats a b \<longleftrightarrow> snd a > snd b \<or> (snd a = snd b \<and> fst a < fst b)"

fun best_entry :: "(int \<times> int) list \<Rightarrow> (int \<times> int) option" where
  "best_entry [] = None"
| "best_entry (e # es) =
     (case best_entry es of None \<Rightarrow> Some e | Some b \<Rightarrow> Some (if beats e b then e else b))"

fun nearest_turn :: "int \<Rightarrow> int \<Rightarrow> int option \<Rightarrow> turn_artifact list \<Rightarrow> int option" where
  "nearest_turn wmid best_dist nearest [] = nearest"
| "nearest_turn wmid best_dist nearest (t # ts) =
     (let tmid = half (t_start_ms t + t_end_ms t);
          dist = \<bar>wmid - tmid\<bar>
      in if dist < best_dist then nearest_turn wmid dist (Some (t_local_idx t)) ts
         else nearest_turn wmid best_dist nearest ts)"

definition best_speaker :: "turn_artifact list \<Rightarrow> word_rec \<Rightarrow> int option" where
  "best_speaker turns w =
     (case best_entry (by_speaker w turns []) of
        Some (idx, _) \<Rightarrow> Some idx
      | None \<Rightarrow> nearest_turn (half (w_start_ms w + w_end_ms w)) I64_MAX None turns)"

definition assign_speakers :: "turn_artifact list \<Rightarrow> word_rec list \<Rightarrow> word_rec list" where
  "assign_speakers turns ws =
     (if turns = [] then ws else map (\<lambda>w. w\<lparr>w_local_idx := best_speaker turns w\<rparr>) ws)"

section \<open>Speaker islands\<close>

definition MAX_ISLAND_MS :: int where "MAX_ISLAND_MS = 800"

text \<open>
  The scan over runs of one speaker: \<open>prev\<close> is the word before the run that starts the rest.
\<close>

function speaker_islands_from :: "word_rec option \<Rightarrow> word_rec list \<Rightarrow> nat" where
  "speaker_islands_from prev [] = 0"
| "speaker_islands_from prev (w # ws) =
     (let run = w # takeWhile (\<lambda>x. w_local_idx x = w_local_idx w) ws;
          rest = dropWhile (\<lambda>x. w_local_idx x = w_local_idx w) ws;
          here = (case (prev, rest) of
                    (Some p, n # _) \<Rightarrow>
                      if w_local_idx p = w_local_idx n \<and> w_local_idx p \<noteq> w_local_idx w \<and>
                         w_end_ms (last run) - w_start_ms w \<le> MAX_ISLAND_MS then 1 else 0
                  | _ \<Rightarrow> 0)
      in here + speaker_islands_from (Some (last run)) rest)"
  by pat_completeness auto
termination
  by (relation "measure (\<lambda>(p, ws). length ws)") (auto simp: less_Suc_eq_le length_dropWhile_le)

definition speaker_islands :: "word_rec list \<Rightarrow> nat" where
  "speaker_islands ws = speaker_islands_from None ws"

section \<open>Utterances\<close>

definition GAP_BREAK_MS :: int where "GAP_BREAK_MS = 1500"
definition MAX_UTTERANCE_MS :: int where "MAX_UTTERANCE_MS = 30000"
definition SENTENCE_BREAK_AFTER_MS :: int where "SENTENCE_BREAK_AFTER_MS = 12000"

definition ends_sentence :: "rstr \<Rightarrow> bool" where
  "ends_sentence txt =
     (let t = trim_end txt in t \<noteq> [] \<and> last t \<in> {ch CHR ''.'', ch CHR ''?'', ch CHR ''!''})"

record grouped_utterance =
  g_local_idx :: "int option"
  g_start_ms :: int
  g_end_ms :: int
  g_text :: rstr
  g_words :: "word_rec list"

definition open_utterance :: "word_rec \<Rightarrow> grouped_utterance" where
  "open_utterance w =
     \<lparr>g_local_idx = w_local_idx w, g_start_ms = w_start_ms w, g_end_ms = w_end_ms w,
      g_text = w_text w, g_words = [w]\<rparr>"

definition long_enough :: "grouped_utterance \<Rightarrow> word_rec \<Rightarrow> bool" where
  "long_enough c w =
     (let span = w_end_ms w - g_start_ms c in
      span > MAX_UTTERANCE_MS \<or>
      (span > SENTENCE_BREAK_AFTER_MS \<and> g_words c \<noteq> [] \<and> ends_sentence (w_text (last (g_words c)))))"

definition continues :: "grouped_utterance option \<Rightarrow> int \<Rightarrow> word_rec \<Rightarrow> bool" where
  "continues cur prev_end w =
     (case cur of
        None \<Rightarrow> False
      | Some c \<Rightarrow> g_local_idx c = w_local_idx w \<and> w_start_ms w - prev_end \<le> GAP_BREAK_MS \<and>
                  \<not> long_enough c w)"

definition extend_utterance :: "word_rec \<Rightarrow> grouped_utterance \<Rightarrow> grouped_utterance" where
  "extend_utterance w c =
     c\<lparr>g_end_ms := max (g_end_ms c) (w_end_ms w),
       g_text := (if g_text c = [] then [] else g_text c @ [32]) @ w_text w,
       g_words := g_words c @ [w]\<rparr>"

fun group_loop ::
  "grouped_utterance list \<Rightarrow> grouped_utterance option \<Rightarrow> int \<Rightarrow> word_rec list \<Rightarrow> grouped_utterance list" where
  "group_loop out cur prev_end [] = (case cur of None \<Rightarrow> out | Some c \<Rightarrow> out @ [c])"
| "group_loop out cur prev_end (w # ws) =
     (if continues cur prev_end w
      then group_loop out (map_option (extend_utterance w) cur) (w_end_ms w) ws
      else group_loop (case cur of None \<Rightarrow> out | Some c \<Rightarrow> out @ [c]) (Some (open_utterance w)) (w_end_ms w) ws)"

definition group_into_utterances :: "word_rec list \<Rightarrow> grouped_utterance list" where
  "group_into_utterances ws = group_loop [] None 0 ws"

definition to_new_utterance :: "grouped_utterance \<Rightarrow> new_utterance" where
  "to_new_utterance u =
     \<lparr>n_local_idx = g_local_idx u, n_start_ms = g_start_ms u, n_end_ms = g_end_ms u,
      n_text = g_text u, n_words = g_words u\<rparr>"

section \<open>A balanced block in a model's reply\<close>

text \<open>
  \<open>first_json_array\<close> here and \<open>first_json_object\<close> of the summarize stage are one scan with
  different brackets. The code walks bytes; every byte it compares with is ASCII and no byte of a
  multi-byte UTF-8 character is, so walking characters finds the same end.
\<close>

fun scan :: "codepoint \<Rightarrow> codepoint \<Rightarrow> int \<Rightarrow> bool \<Rightarrow> bool \<Rightarrow> rstr \<Rightarrow> rstr option" where
  "scan op cl depth in_str escape [] = None"
| "scan op cl depth in_str escape (c # s) =
     map_option (Cons c)
       (if in_str then
          (if escape then scan op cl depth True False s
           else if c = 92 then scan op cl depth True True s
           else if c = 34 then scan op cl depth False False s
           else scan op cl depth True False s)
        else if c = 34 then scan op cl depth True escape s
        else if c = op then scan op cl (depth + 1) False escape s
        else if c = cl then
          (if depth - 1 = 0 then Some [] else scan op cl (depth - 1) False escape s)
        else scan op cl depth False escape s)"

definition first_block :: "codepoint \<Rightarrow> codepoint \<Rightarrow> rstr \<Rightarrow> rstr option" where
  "first_block op cl s =
     (case dropWhile (\<lambda>c. c \<noteq> op) s of [] \<Rightarrow> None | t \<Rightarrow> scan op cl 0 False False t)"

definition first_json_array :: "rstr \<Rightarrow> rstr option" where
  "first_json_array s = first_block (ch CHR ''['') (ch CHR '']'') s"

section \<open>Correcting names\<close>

record chat_message =
  cm_role :: rstr
  cm_content :: rstr

record correction =
  cor_i :: nat
  cor_text :: rstr

fun numbered_lines :: "nat \<Rightarrow> grouped_utterance list \<Rightarrow> rstr" where
  "numbered_lines i [] = []"
| "numbered_lines i (u # us) =
     (let line = trim (g_text u)
      in (if line = [] then [] else show_nat i @ lit '': '' @ line @ [10]) @ numbered_lines (Suc i) us)"

definition correction_prompt :: "rstr list \<Rightarrow> rstr \<Rightarrow> rstr" where
  "correction_prompt names transcript =
     (if names = [] then []
      else lit ''Known correct names/terms (prefer these spellings): '' @ join (lit '', '') names @ lit ''.'' @ [10])
     @ lit ''Below are numbered transcript lines from speech-to-text. Fix ONLY clear transcription errors: misheard proper nouns, names, and obviously wrong words. Do NOT paraphrase, translate, summarise, reorder, merge, or split lines, and do not change text that is already correct. Keep the wording and length as close to the original as possible. Return ONLY a JSON array of objects {''
     @ [34] @ lit ''i'' @ [34] @ lit '': <line number>, '' @ [34] @ lit ''text'' @ [34] @ lit '': '' @ [34]
     @ lit ''<corrected line>'' @ [34]
     @ lit ''} for the lines you actually changed; return [] if nothing needs fixing.'' @ [10, 10]
     @ lit ''Lines:'' @ [10] @ transcript"

definition acceptable_correction :: "rstr \<Rightarrow> rstr \<Rightarrow> bool" where
  "acceptable_correction old new =
     (let orig_len = int (length old); new_len = int (length new)
      in new \<noteq> [] \<and> new \<noteq> old \<and> \<bar>orig_len - new_len\<bar> \<le> max (orig_len div 3) 12)"

fun apply_corrections ::
  "correction list \<Rightarrow> nat \<Rightarrow> grouped_utterance list \<Rightarrow> nat \<times> grouped_utterance list" where
  "apply_corrections [] applied us = (applied, us)"
| "apply_corrections (c # cs) applied us =
     (if cor_i c < length us \<and> acceptable_correction (g_text (us ! cor_i c)) (trim (cor_text c))
      then apply_corrections cs (applied + 1)
             (us[cor_i c := (us ! cor_i c)\<lparr>g_text := trim (cor_text c)\<rparr>])
      else apply_corrections cs applied us)"

definition correct_names ::
  "(rstr \<Rightarrow> chat_message list \<Rightarrow> rstr res) \<Rightarrow> (rstr \<Rightarrow> correction list option) \<Rightarrow> rstr \<Rightarrow> rstr list \<Rightarrow>
     grouped_utterance list \<Rightarrow> nat \<times> grouped_utterance list" where
  "correct_names chat parse_corrections model names us =
     (if us = [] then (0, us)
      else let transcript = numbered_lines 0 us in
      if transcript = [] then (0, us)
      else case chat model
             [\<lparr>cm_role = lit ''system'', cm_content =
                 lit ''You correct speech-to-text transcription errors. Respond with only JSON.''\<rparr>,
              \<lparr>cm_role = lit ''user'', cm_content = correction_prompt names transcript\<rparr>] of
        Inl e \<Rightarrow> (0, us)
      | Inr raw \<Rightarrow>
          (case first_json_array raw of
             None \<Rightarrow> (0, us)
           | Some arr \<Rightarrow>
               (case parse_corrections arr of
                  None \<Rightarrow> (0, us)
                | Some cs \<Rightarrow> apply_corrections cs 0 us)))"

section \<open>Filler removal\<close>

text \<open>
  Cleaning keeps exactly the words that do not normalise to a configured filler, in their
  order, reports how many it dropped, and a second pass drops nothing; switched off it changes
  nothing.
\<close>

theorem clean_spec:
  "let f = filler_from_config alnum cfg;
       drop = (\<lambda>w. remove_fillers cfg \<and> normalize_filler alnum (w_text w) \<noteq> [] \<and>
          normalize_filler alnum (w_text w) \<in> normalize_filler alnum ` set (filler_words cfg))
   in clean alnum f ws = (length (filter drop ws), filter (\<lambda>w. \<not> drop w) ws) \<and>
      clean alnum f (snd (clean alnum f ws)) = (0, snd (clean alnum f ws))"
proof -
  let ?f = "filler_from_config alnum cfg"
  have fil: "is_filler alnum ?f w \<longleftrightarrow> remove_fillers cfg \<and> normalize_filler alnum w \<noteq> [] \<and>
      normalize_filler alnum w \<in> normalize_filler alnum ` set (filler_words cfg)" for w
    by (auto simp: is_filler_def filler_from_config_def Let_def)
  have none: "is_filler alnum ?f w = False" if "\<not> ff_enabled ?f \<or> ff_set ?f = {}" for w
    using that by (auto simp: is_filler_def Let_def)
  have c: "clean alnum ?f xs = (length (filter (\<lambda>w. is_filler alnum ?f (w_text w)) xs),
      filter (\<lambda>w. \<not> is_filler alnum ?f (w_text w)) xs)" for xs
  proof (cases "\<not> ff_enabled ?f \<or> ff_set ?f = {}")
    case True
    then show ?thesis by (simp add: clean_def none [OF True])
  next
    case False
    then show ?thesis
      using sum_length_filter_compl [of "\<lambda>w. is_filler alnum ?f (w_text w)" xs]
      by (simp add: clean_def Let_def)
  qed
  have two: "clean alnum ?f (snd (clean alnum ?f ws)) = (0, snd (clean alnum ?f ws))"
    unfolding c by (simp add: filter_False)
  show ?thesis unfolding Let_def using two by (simp add: c fil)
qed

section \<open>Every word goes to the speaker who covers most of it\<close>

definition coverage :: "turn_artifact list \<Rightarrow> word_rec \<Rightarrow> int \<Rightarrow> int" where
  "coverage turns w i =
     sum_list (map (\<lambda>t. overlap (w_start_ms w) (w_end_ms w) (t_start_ms t) (t_end_ms t))
       (filter (\<lambda>t. t_local_idx t = i) turns))"

definition mid_distance :: "word_rec \<Rightarrow> turn_artifact \<Rightarrow> int" where
  "mid_distance w t = \<bar>half (w_start_ms w + w_end_ms w) - half (t_start_ms t + t_end_ms t)\<bar>"

definition entry_value :: "(int \<times> int) list \<Rightarrow> int \<Rightarrow> int" where
  "entry_value es i = (case map_of es i of None \<Rightarrow> 0 | Some v \<Rightarrow> v)"

lemma fst_add_overlap: "fst ` set (add_overlap i v es) = insert i (fst ` set es)"
  by (induction i v es rule: add_overlap.induct) auto

lemma distinct_add_overlap: "distinct (map fst es) \<Longrightarrow> distinct (map fst (add_overlap i v es))"
proof (induction i v es rule: add_overlap.induct)
  case (2 i v k o1 es)
  then show ?case using fst_add_overlap [of i v es] by auto
qed simp

lemma entry_value_add: "entry_value (add_overlap i v es) k = entry_value es k + (if k = i then v else 0)"
  by (induction i v es rule: add_overlap.induct) (auto simp: entry_value_def)

lemma add_overlap_pos: "0 < v \<Longrightarrow> \<forall>e \<in> set es. 0 < snd e \<Longrightarrow> \<forall>e \<in> set (add_overlap i v es). 0 < snd e"
  by (induction i v es rule: add_overlap.induct) auto

lemma by_speaker_sound:
  "distinct (map fst es) \<Longrightarrow> \<forall>e \<in> set es. 0 < snd e \<Longrightarrow>
   distinct (map fst (by_speaker w ts es)) \<and> (\<forall>e \<in> set (by_speaker w ts es). 0 < snd e) \<and>
   entry_value (by_speaker w ts es) i = entry_value es i + coverage ts w i"
proof (induction ts arbitrary: es)
  case (Cons t ts)
  let ?ov = "overlap (w_start_ms w) (w_end_ms w) (t_start_ms t) (t_end_ms t)"
  let ?es = "if ?ov > 0 then add_overlap (t_local_idx t) ?ov es else es"
  have "distinct (map fst ?es)" "\<forall>e \<in> set ?es. 0 < snd e"
    using Cons.prems by (simp_all add: distinct_add_overlap add_overlap_pos)
  moreover have "entry_value ?es i + coverage ts w i = entry_value es i + coverage (t # ts) w i"
    by (auto simp: entry_value_add coverage_def overlap_def)
  ultimately show ?case using Cons.IH [of ?es] by (simp add: Let_def)
qed (simp add: coverage_def)

lemma set_by_speaker: "(i, v) \<in> set (by_speaker w ts []) \<longleftrightarrow> coverage ts w i = v \<and> 0 < v"
proof -
  have s: "distinct (map fst (by_speaker w ts []))" "\<forall>e \<in> set (by_speaker w ts []). 0 < snd e"
    "entry_value (by_speaker w ts []) i = coverage ts w i"
    using by_speaker_sound [of "[]" w ts i] by (simp_all add: entry_value_def)
  show ?thesis
  proof
    assume m: "(i, v) \<in> set (by_speaker w ts [])"
    then have "entry_value (by_speaker w ts []) i = v" using s(1) by (simp add: entry_value_def)
    then show "coverage ts w i = v \<and> 0 < v" using s(2,3) m by force
  next
    assume "coverage ts w i = v \<and> 0 < v"
    then have "entry_value (by_speaker w ts []) i = v" "v \<noteq> 0" using s(3) by auto
    then show "(i, v) \<in> set (by_speaker w ts [])"
      by (auto simp: entry_value_def dest: map_of_SomeD split: option.splits)
  qed
qed

lemma best_entry_None: "best_entry es = None \<longleftrightarrow> es = []"
  by (cases es) (auto split: option.splits)

lemma beats_trans: "beats a b \<Longrightarrow> beats b c \<Longrightarrow> beats a c"
  by (auto simp: beats_def)

lemma beats_total: "a \<noteq> b \<Longrightarrow> beats a b \<or> beats b a"
  by (cases a; cases b) (auto simp: beats_def)

lemma best_entry_max: "best_entry es = Some b \<Longrightarrow> b \<in> set es \<and> (\<forall>e \<in> set es. e = b \<or> beats b e)"
proof (induction es arbitrary: b)
  case (Cons e es)
  show ?case
  proof (cases "best_entry es")
    case None
    then show ?thesis using Cons.prems best_entry_None [of es] by auto
  next
    case (Some c)
    from Cons.IH [OF Some] have c: "c \<in> set es" "\<forall>x \<in> set es. x = c \<or> beats c x" by auto
    show ?thesis
    proof (cases "beats e c")
      case True
      then have "b = e" using Cons.prems Some by simp
      moreover have "beats e x" if "x \<in> set es" for x using c(2) that True beats_trans by metis
      ultimately show ?thesis by simp
    next
      case False
      then have "b = c" using Cons.prems Some by simp
      moreover have "e = c \<or> beats c e" using False beats_total by metis
      ultimately show ?thesis using c by simp
    qed
  qed
qed simp

lemma nearest_turn_first:
  defines "f \<equiv> \<lambda>m t. \<bar>m - half (t_start_ms t + t_end_ms t)\<bar>"
  shows "(\<forall>t \<in> set ts. bd \<le> f m t) \<Longrightarrow> nearest_turn m bd n ts = n"
    and "\<exists>t \<in> set ts. f m t < bd \<Longrightarrow>
      \<exists>pre t post. ts = pre @ t # post \<and> nearest_turn m bd n ts = Some (t_local_idx t) \<and>
        (\<forall>x \<in> set ts. f m t \<le> f m x) \<and> (\<forall>x \<in> set pre. f m t < f m x)"
proof (induction ts arbitrary: bd n)
  case (Cons t ts)
  {
    case 1
    then show ?case using Cons.IH(1) [of bd n] by (simp add: f_def Let_def)
  next
    case 2
    show ?case
    proof (cases "f m t < bd")
      case lt: True
      have step: "nearest_turn m bd n (t # ts) = nearest_turn m (f m t) (Some (t_local_idx t)) ts"
        using lt by (simp add: f_def Let_def)
      show ?thesis
      proof (cases "\<exists>x \<in> set ts. f m x < f m t")
        case True
        from Cons.IH(2) [OF True, of "Some (t_local_idx t)"] obtain pre u post where
          u: "ts = pre @ u # post" "nearest_turn m (f m t) (Some (t_local_idx t)) ts = Some (t_local_idx u)"
            "\<forall>x \<in> set ts. f m u \<le> f m x" "\<forall>x \<in> set pre. f m u < f m x" by blast
        have "f m u < f m t" using True u(3) by force
        then show ?thesis using u step by (intro exI [of _ "t # pre"] exI [of _ u] exI [of _ post]) auto
      next
        case False
        then have "\<forall>x \<in> set ts. f m t \<le> f m x" by auto
        then show ?thesis using Cons.IH(1) [of "f m t" "Some (t_local_idx t)"] step
          by (intro exI [of _ "[]"] exI [of _ t] exI [of _ ts]) auto
      qed
    next
      case ge: False
      have step: "nearest_turn m bd n (t # ts) = nearest_turn m bd n ts"
        using ge by (simp add: f_def Let_def)
      have "\<exists>x \<in> set ts. f m x < bd" using 2 ge by auto
      from Cons.IH(2) [OF this, of n] obtain pre u post where
        u: "ts = pre @ u # post" "nearest_turn m bd n ts = Some (t_local_idx u)"
          "\<forall>x \<in> set ts. f m u \<le> f m x" "\<forall>x \<in> set pre. f m u < f m x" by blast
      have "f m u < f m t" using ge u(1,3) \<open>\<exists>x \<in> set ts. f m x < bd\<close> by force
      then show ?thesis using u step by (intro exI [of _ "t # pre"] exI [of _ u] exI [of _ post]) auto
    qed
  }
qed simp_all

text \<open>What the assignment promises of one word.\<close>

definition assigned_to :: "turn_artifact list \<Rightarrow> word_rec \<Rightarrow> int \<Rightarrow> bool" where
  "assigned_to turns w i \<longleftrightarrow>
     (if \<exists>j. 0 < coverage turns w j
      then 0 < coverage turns w i \<and>
           (\<forall>j. coverage turns w j < coverage turns w i \<or> (coverage turns w j = coverage turns w i \<and> i \<le> j))
      else \<exists>pre t post. turns = pre @ t # post \<and> i = t_local_idx t \<and>
             (\<forall>x \<in> set turns. mid_distance w t \<le> mid_distance w x) \<and>
             (\<forall>x \<in> set pre. mid_distance w t < mid_distance w x))"

text \<open>What that says of who covers most.\<close>

lemma assigned_to_most:
  assumes "assigned_to turns w i"
  shows "if \<exists>j. 0 < coverage turns w j
    then 0 < coverage turns w i \<and> (\<forall>j. coverage turns w j \<le> coverage turns w i) \<and>
      (\<forall>k. (\<forall>j. j \<noteq> k \<longrightarrow> coverage turns w j < coverage turns w k) \<longrightarrow> i = k)
    else \<exists>t \<in> set turns. i = t_local_idx t \<and> (\<forall>x \<in> set turns. mid_distance w t \<le> mid_distance w x)"
proof (cases "\<exists>j. 0 < coverage turns w j")
  case True
  then have "0 < coverage turns w i" and le: "\<And>j. coverage turns w j \<le> coverage turns w i"
    using assms by (auto simp: assigned_to_def intro: less_imp_le)
  moreover have "i = k" if "\<forall>j. j \<noteq> k \<longrightarrow> coverage turns w j < coverage turns w k" for k
    using that le [of k] by (metis not_le)
  ultimately show ?thesis using True by simp
next
  case False
  then show ?thesis using assms by (auto simp: assigned_to_def)
qed

definition time_ok :: "int \<Rightarrow> int \<Rightarrow> bool" where
  "time_ok a b \<longleftrightarrow> \<bar>a\<bar> < 2 ^ 60 \<and> \<bar>b\<bar> < 2 ^ 60"

lemma half_bound: "\<bar>half x\<bar> \<le> \<bar>x\<bar>"
  by (auto simp: half_def abs_if)

lemma best_speaker_assigned:
  assumes "turns \<noteq> []" and "time_ok (w_start_ms w) (w_end_ms w)"
    and "\<forall>t \<in> set turns. time_ok (t_start_ms t) (t_end_ms t)"
  shows "\<exists>i. best_speaker turns w = Some i \<and> assigned_to turns w i"
proof (cases "best_entry (by_speaker w turns [])")
  case (Some e)
  obtain i v where e: "e = (i, v)" by (cases e)
  have "(i, v) \<in> set (by_speaker w turns [])" and
    mx: "\<forall>x \<in> set (by_speaker w turns []). x = (i, v) \<or> beats (i, v) x"
    using best_entry_max [OF Some] e by auto
  then have iv: "coverage turns w i = v" "0 < v" by (simp_all add: set_by_speaker)
  have "coverage turns w j < v \<or> (coverage turns w j = v \<and> i \<le> j)" for j
  proof (cases "0 < coverage turns w j")
    case True
    then have "(j, coverage turns w j) \<in> set (by_speaker w turns [])" by (simp add: set_by_speaker)
    then show ?thesis using mx by (auto simp: beats_def)
  next
    case False
    then show ?thesis using iv by auto
  qed
  then have "assigned_to turns w i" unfolding assigned_to_def using iv by auto
  then show ?thesis using Some e by (simp add: best_speaker_def)
next
  case None
  then have es: "by_speaker w turns [] = []" by (simp add: best_entry_None)
  then have none: "\<not> (\<exists>j. 0 < coverage turns w j)" using set_by_speaker [of _ _ w turns] by auto
  obtain t where t: "t \<in> set turns" using assms(1) by (cases turns) auto
  have "\<bar>w_start_ms w + w_end_ms w\<bar> < 2 ^ 61" "\<bar>t_start_ms t + t_end_ms t\<bar> < 2 ^ 61"
    using assms t by (fastforce simp: time_ok_def)+
  then have "mid_distance w t < I64_MAX"
    using half_bound [of "w_start_ms w + w_end_ms w"] half_bound [of "t_start_ms t + t_end_ms t"]
    by (simp add: mid_distance_def I64_MAX_def)
  then have "\<exists>t \<in> set turns. \<bar>half (w_start_ms w + w_end_ms w) - half (t_start_ms t + t_end_ms t)\<bar> < I64_MAX"
    using t by (auto simp: mid_distance_def)
  from nearest_turn_first(2) [OF this, of None] show ?thesis
    using none es by (auto simp: assigned_to_def best_speaker_def mid_distance_def)
qed

text \<open>
  C10: with any turn at all, every word is given a speaker and nothing else of it changes. When some
  turn overlaps the word, the speaker is one whose turns together cover most of it: nobody's cover more,
  and whoever covers strictly more than all others is the one. A word that no turn overlaps goes to a
  turn whose midpoint is nearest to its own. (Instants stay clear of the ends of the \<open>i64\<close> range. Which of
  several speakers who cover equally much is taken is not part of the claim.)
\<close>

theorem assign_speakers_spec:
  assumes "turns \<noteq> []" and "\<forall>t \<in> set turns. time_ok (t_start_ms t) (t_end_ms t)"
    and "\<forall>w \<in> set ws. time_ok (w_start_ms w) (w_end_ms w)"
  shows "\<exists>sp. assign_speakers turns ws = map (\<lambda>w. w\<lparr>w_local_idx := Some (sp w)\<rparr>) ws \<and>
    (\<forall>w \<in> set ws.
       if \<exists>j. 0 < coverage turns w j
       then 0 < coverage turns w (sp w) \<and> (\<forall>j. coverage turns w j \<le> coverage turns w (sp w)) \<and>
         (\<forall>i. (\<forall>j. j \<noteq> i \<longrightarrow> coverage turns w j < coverage turns w i) \<longrightarrow> sp w = i)
       else \<exists>t \<in> set turns. sp w = t_local_idx t \<and> (\<forall>x \<in> set turns. mid_distance w t \<le> mid_distance w x))"
proof -
  let ?sp = "\<lambda>w. the (best_speaker turns w)"
  have a: "\<forall>w \<in> set ws. best_speaker turns w = Some (?sp w) \<and> assigned_to turns w (?sp w)"
    using best_speaker_assigned [OF assms(1) _ assms(2)] assms(3) by fastforce
  then have "assign_speakers turns ws = map (\<lambda>w. w\<lparr>w_local_idx := Some (?sp w)\<rparr>) ws"
    using assms(1) by (auto simp: assign_speakers_def)
  moreover have "\<forall>w \<in> set ws. assigned_to turns w (?sp w)" using a by blast
  ultimately show ?thesis by (intro exI [of _ ?sp]) (blast intro: assigned_to_most)
qed

definition demo_word :: "rstr \<Rightarrow> int \<Rightarrow> int \<Rightarrow> word_rec" where
  "demo_word t a b = \<lparr>w_text = t, w_start_ms = a, w_end_ms = b, w_conf = 0, w_local_idx = None\<rparr>"

definition demo_turn :: "int \<Rightarrow> int \<Rightarrow> int \<Rightarrow> turn_artifact" where
  "demo_turn i a b = \<lparr>t_local_idx = i, t_start_ms = a, t_end_ms = b\<rparr>"

theorem assign_speakers_spec_witness:
  "assign_speakers [demo_turn 0 0 100, demo_turn 1 100 900] [demo_word (lit ''hi'') 50 300] =
     [(demo_word (lit ''hi'') 50 300)\<lparr>w_local_idx := Some 1\<rparr>]"
proof -
  let ?ts = "[demo_turn 0 0 100, demo_turn 1 100 900]" and ?w = "demo_word (lit ''hi'') 50 300"
  have c: "coverage ?ts ?w j = (if j = 0 then 50 else if j = 1 then 200 else 0)" for j
    by (simp add: coverage_def overlap_def demo_turn_def demo_word_def)
  have "\<exists>j. 0 < coverage ?ts ?w j" unfolding c by (intro exI [of _ 1]) simp
  moreover have "\<forall>j. j \<noteq> 1 \<longrightarrow> coverage ?ts ?w j < coverage ?ts ?w 1" unfolding c by simp
  moreover have "\<forall>t \<in> set ?ts. time_ok (t_start_ms t) (t_end_ms t)" "\<forall>w \<in> set [?w]. time_ok (w_start_ms w) (w_end_ms w)"
    by (simp_all add: time_ok_def demo_turn_def demo_word_def)
  ultimately show ?thesis using assign_speakers_spec [of ?ts "[?w]"] by auto
qed

text \<open>
  The comment of \<open>assign_speakers\<close> sends ties to the turn whose midpoint is nearest; the code takes the
  lowest index. Here two speakers cover the word equally, and the nearer turn is the other one's.
\<close>

lemma tie_goes_to_lower_index:
  "let ts = [demo_turn 0 (-800) 200, demo_turn 1 200 300]; w = demo_word (lit ''hi'') 100 300 in
   coverage ts w 0 = coverage ts w 1 \<and> mid_distance w (ts ! 1) < mid_distance w (ts ! 0) \<and>
   best_speaker ts w = Some 0"
  by (simp add: coverage_def mid_distance_def half_def overlap_def demo_turn_def demo_word_def best_speaker_def
      beats_def)

section \<open>Grouping loses nothing and bounds every utterance\<close>

definition utterance_ok :: "grouped_utterance \<Rightarrow> bool" where
  "utterance_ok u \<longleftrightarrow> g_words u \<noteq> [] \<and>
     (\<forall>w \<in> set (g_words u). w_local_idx w = g_local_idx u) \<and>
     g_start_ms u = w_start_ms (hd (g_words u)) \<and>
     g_end_ms u = Max (w_end_ms ` set (g_words u)) \<and>
     (\<forall>w \<in> set (tl (g_words u)). w_end_ms w - g_start_ms u \<le> MAX_UTTERANCE_MS) \<and>
     successively (\<lambda>a b. w_start_ms b - w_end_ms a \<le> GAP_BREAK_MS) (g_words u) \<and>
     ((\<forall>w \<in> set (g_words u). w_text w \<noteq> []) \<longrightarrow> g_text u = join [32] (map w_text (g_words u)))"

text \<open>Why two neighbouring utterances are two.\<close>

definition broken_between :: "grouped_utterance \<Rightarrow> grouped_utterance \<Rightarrow> bool" where
  "broken_between u v =
     (let w = hd (g_words v); l = last (g_words u)
      in g_local_idx u \<noteq> g_local_idx v \<or> w_start_ms w - w_end_ms l > GAP_BREAK_MS \<or>
         w_end_ms w - g_start_ms u > MAX_UTTERANCE_MS \<or>
         (w_end_ms w - g_start_ms u > SENTENCE_BREAK_AFTER_MS \<and> ends_sentence (w_text l)))"

lemma join_snoc: "xs \<noteq> [] \<Longrightarrow> join sep (xs @ [y]) = join sep xs @ sep @ y"
  by (induction sep xs rule: join.induct) auto

lemma join_eq_Nil: "x \<in> set xs \<Longrightarrow> x \<noteq> [] \<Longrightarrow> join sep xs \<noteq> []"
  by (induction sep xs rule: join.induct) auto

lemma words_open [simp]: "g_words (open_utterance w) = [w]"
  by (simp add: open_utterance_def)

lemma words_extend [simp]: "g_words (extend_utterance w c) = g_words c @ [w]"
  by (simp add: extend_utterance_def)

lemma open_utterance_ok: "utterance_ok (open_utterance w)"
  by (simp add: utterance_ok_def open_utterance_def)

lemma extend_utterance_ok:
  assumes ok: "utterance_ok c" and go: "continues (Some c) (w_end_ms (last (g_words c))) w"
  shows "utterance_ok (extend_utterance w c)"
proof -
  let ?ws = "g_words c"
  have ne: "?ws \<noteq> []" using ok by (simp add: utterance_ok_def)
  have g: "g_local_idx c = w_local_idx w" "w_start_ms w - w_end_ms (last ?ws) \<le> GAP_BREAK_MS"
    "w_end_ms w - g_start_ms c \<le> MAX_UTTERANCE_MS"
    using go by (auto simp: continues_def long_enough_def Let_def)
  have "Max (w_end_ms ` set (?ws @ [w])) = max (g_end_ms c) (w_end_ms w)"
    using ok ne by (simp add: utterance_ok_def max.commute)
  moreover have "tl (?ws @ [w]) = tl ?ws @ [w]" "hd (?ws @ [w]) = hd ?ws" using ne by auto
  moreover have "(if g_text c = [] then [] else g_text c @ [32]) @ w_text w = join [32] (map w_text (?ws @ [w]))"
    if "\<forall>x \<in> set (?ws @ [w]). w_text x \<noteq> []"
  proof -
    have t: "g_text c = join [32] (map w_text ?ws)" using that ok by (simp add: utterance_ok_def)
    have "w_text (hd ?ws) \<in> set (map w_text ?ws)" "w_text (hd ?ws) \<noteq> []" using ne that by auto
    then have "g_text c \<noteq> []" unfolding t by (rule join_eq_Nil)
    then show ?thesis using ne by (simp add: t join_snoc)
  qed
  moreover have "successively (\<lambda>a b. w_start_ms b - w_end_ms a \<le> GAP_BREAK_MS) (?ws @ [w])"
    using ok ne g(2) by (simp add: utterance_ok_def successively_append_iff)
  ultimately show ?thesis using ok ne g by (auto simp: utterance_ok_def extend_utterance_def)
qed

lemma not_continues_broken:
  "g_words u \<noteq> [] \<Longrightarrow> \<not> continues (Some u) (w_end_ms (last (g_words u))) w \<Longrightarrow> broken_between u (open_utterance w)"
  by (auto simp: continues_def broken_between_def open_utterance_def long_enough_def Let_def)

lemma broken_extend: "g_words c \<noteq> [] \<Longrightarrow> broken_between u (extend_utterance w c) = broken_between u c"
  by (simp add: broken_between_def extend_utterance_def)

lemma successively_snoc: "successively P (xs @ [a]) \<Longrightarrow> P a b \<Longrightarrow> successively P (xs @ [a, b])"
  by (simp add: successively_append_iff)

lemma successively_last: "(\<And>x. P x a = P x b) \<Longrightarrow> successively P (xs @ [a]) = successively P (xs @ [b])"
  by (cases xs rule: rev_cases) (simp_all add: successively_append_iff)

lemma group_loop_sound:
  assumes "\<forall>u \<in> set out. utterance_ok u"
    and "case cur of None \<Rightarrow> out = [] | Some c \<Rightarrow> utterance_ok c \<and> prev_end = w_end_ms (last (g_words c)) \<and>
      successively broken_between (out @ [c])"
  shows "(\<forall>u \<in> set (group_loop out cur prev_end ws). utterance_ok u) \<and>
    successively broken_between (group_loop out cur prev_end ws) \<and>
    concat (map g_words (group_loop out cur prev_end ws)) =
      concat (map g_words out) @ (case cur of None \<Rightarrow> [] | Some c \<Rightarrow> g_words c) @ ws"
  using assms
proof (induction out cur prev_end ws rule: group_loop.induct)
  case (1 out cur prev_end)
  then show ?case by (cases cur) auto
next
  case (2 out cur prev_end w ws)
  show ?case
  proof (cases cur)
    case None
    then have no: "\<not> continues cur prev_end w" and out: "out = []"
      using "2.prems"(2) by (simp_all add: continues_def)
    show ?thesis using "2.IH"(2) [OF no] open_utterance_ok [of w] no None out by simp
  next
    case (Some c)
    have c: "utterance_ok c" "prev_end = w_end_ms (last (g_words c))" "successively broken_between (out @ [c])"
      "g_words c \<noteq> []"
      using "2.prems"(2) Some by (auto simp: utterance_ok_def)
    show ?thesis
    proof (cases "continues cur prev_end w")
      case True
      have ext: "utterance_ok (extend_utterance w c)"
        using extend_utterance_ok c True Some by simp
      moreover have "successively broken_between (out @ [extend_utterance w c])"
        using c(3) successively_last [of broken_between c "extend_utterance w c" out] broken_extend [OF c(4)] by simp
      ultimately have pre: "case map_option (extend_utterance w) cur of None \<Rightarrow> out = [] | Some c \<Rightarrow>
          utterance_ok c \<and> w_end_ms w = w_end_ms (last (g_words c)) \<and> successively broken_between (out @ [c])"
        by (simp add: Some)
      show ?thesis using "2.IH"(1) [OF True "2.prems"(1) pre] by (simp only: group_loop.simps True if_True) (simp add: Some)
    next
      case False
      have "successively broken_between (out @ [c, open_utterance w])"
        using c not_continues_broken False Some by (intro successively_snoc) auto
      then have pre: "case Some (open_utterance w) of None \<Rightarrow> out @ [c] = [] | Some d \<Rightarrow>
          utterance_ok d \<and> w_end_ms w = w_end_ms (last (g_words d)) \<and> successively broken_between ((out @ [c]) @ [d])"
        using open_utterance_ok [of w] by simp
      have all: "\<forall>u \<in> set (out @ [c]). utterance_ok u" using "2.prems"(1) c(1) by simp
      have step: "group_loop out cur prev_end (w # ws) =
          group_loop (out @ [c]) (Some (open_utterance w)) (w_end_ms w) ws"
        using False Some by simp
      have flush: "(case cur of None \<Rightarrow> out | Some c \<Rightarrow> out @ [c]) = out @ [c]" by (simp add: Some)
      show ?thesis using "2.IH"(2) [OF False, unfolded flush, OF all pre]
        unfolding step by (simp add: Some)
    qed
  qed
qed

text \<open>
  C11: grouping returns every word once and in order. Each utterance has words of one speaker only,
  with no silence over 1.5 s between neighbours; it starts with its first word, ends with the
  latest end, and no word after the first reaches more than 30 s past the start. Two neighbouring
  utterances differ in speaker, or are apart by a long silence, or the next word would overrun the
  limit, or the sentence was over and the 12 s mark passed.
\<close>

theorem group_into_utterances_spec:
  "concat (map g_words (group_into_utterances ws)) = ws \<and>
   (\<forall>u. u \<in> set (group_into_utterances ws) \<longrightarrow> utterance_ok u) \<and>
   successively broken_between (group_into_utterances ws)"
  using group_loop_sound [where out = "[]" and cur = None and prev_end = 0 and ws = ws] by (simp add: group_into_utterances_def)

theorem group_into_utterances_spec_witness:
  "let ws = [demo_word (lit ''so'') 0 400, demo_word (lit ''yes'') 500 900, demo_word (lit ''no'') 5000 5400]
   in length (group_into_utterances ws) = 2 \<and> utterance_ok (hd (group_into_utterances ws)) \<and>
      concat (map g_words (group_into_utterances ws)) = ws"
proof -
  let ?ws = "[demo_word (lit ''so'') 0 400, demo_word (lit ''yes'') 500 900, demo_word (lit ''no'') 5000 5400]"
  have "length (group_into_utterances ?ws) = 2"
    by (simp add: group_into_utterances_def demo_word_def continues_def long_enough_def open_utterance_def
        extend_utterance_def GAP_BREAK_MS_def MAX_UTTERANCE_MS_def SENTENCE_BREAK_AFTER_MS_def Let_def)
  moreover from this have "hd (group_into_utterances ?ws) \<in> set (group_into_utterances ?ws)"
    by (intro hd_in_set) auto
  ultimately show ?thesis using group_into_utterances_spec [of ?ws] by (simp add: Let_def)
qed

section \<open>The block found is the first balanced one\<close>

text \<open>One character of the scan: depth, inside a string, after a backslash.\<close>

fun scan_step :: "codepoint \<Rightarrow> codepoint \<Rightarrow> int \<times> bool \<times> bool \<Rightarrow> codepoint \<Rightarrow> int \<times> bool \<times> bool" where
  "scan_step op cl (d, i, e) c =
     (if i then (if e then (d, True, False) else if c = 92 then (d, True, True)
                 else if c = 34 then (d, False, False) else (d, True, False))
      else if c = 34 then (d, True, e) else if c = op then (d + 1, False, e)
      else if c = cl then (d - 1, False, e) else (d, False, e))"

declare scan_step.simps [simp del]

definition nesting :: "codepoint \<Rightarrow> codepoint \<Rightarrow> int \<times> bool \<times> bool \<Rightarrow> rstr \<Rightarrow> int" where
  "nesting op cl st s = fst (foldl (scan_step op cl) st s)"

definition first_closing :: "codepoint \<Rightarrow> codepoint \<Rightarrow> int \<times> bool \<times> bool \<Rightarrow> rstr \<Rightarrow> bool" where
  "first_closing op cl st r \<longleftrightarrow> nesting op cl st r = 0 \<and> (\<forall>k. 0 < k \<and> k < length r \<longrightarrow> 0 < nesting op cl st (take k r))"

lemma first_closing_alt:
  "first_closing op cl st r \<longleftrightarrow>
     nesting op cl st r = 0 \<and> (\<nexists>k. 0 < k \<and> k < length r \<and> nesting op cl st (take k r) \<le> 0)"
  by (auto simp: first_closing_def not_le)

text \<open>Both callers use brackets that are not the quote and not each other.\<close>

locale bracket_pair =
  fixes op cl :: codepoint
  assumes distinct_brackets: "op \<noteq> cl" and op_no_quote: "op \<noteq> 34" and cl_no_quote: "cl \<noteq> 34"
begin

lemma scan_Cons:
  assumes "0 < d"
  shows "scan op cl d i e (c # s) = map_option (Cons c)
    (case scan_step op cl (d, i, e) c of (d', i', e') \<Rightarrow> if d' = 0 then Some [] else scan op cl d' i' e' s)"
  using assms distinct_brackets op_no_quote cl_no_quote by (simp add: scan_step.simps)

lemma scan_step_nonneg: "0 < d \<Longrightarrow> 0 \<le> fst (scan_step op cl (d, i, e) c)"
  by (simp add: scan_step.simps)

lemma first_closing_Cons:
  "first_closing op cl st (c # r) \<longleftrightarrow>
     (if r = [] then fst (scan_step op cl st c) = 0
      else 0 < fst (scan_step op cl st c) \<and> first_closing op cl (scan_step op cl st c) r)"
proof (cases "r = []")
  case False
  have k: "(\<forall>k. 0 < k \<and> k < length (c # r) \<longrightarrow> 0 < nesting op cl st (take k (c # r))) \<longleftrightarrow>
      (\<forall>k < length r. 0 < nesting op cl (scan_step op cl st c) (take k r))"
    by (auto simp: nesting_def less_Suc_eq_0_disj gr0_conv_Suc all_conj_distrib)
  have "(\<forall>k < length r. 0 < nesting op cl st' (take k r)) \<longleftrightarrow>
      0 < nesting op cl st' [] \<and> (\<forall>k. 0 < k \<and> k < length r \<longrightarrow> 0 < nesting op cl st' (take k r))" for st'
    using False by (metis gr0I length_greater_0_conv take0)
  then show ?thesis using False k by (auto simp: first_closing_def nesting_def)
qed (simp add: first_closing_def nesting_def)

lemma scan_iff:
  assumes "0 < d"
  shows "scan op cl d i e s = Some r \<longleftrightarrow> r \<noteq> [] \<and> first_closing op cl (d, i, e) r \<and> (\<exists>post. s = r @ post)"
  using assms
proof (induction s arbitrary: d i e r)
  case Nil
  then show ?case by auto
next
  case (Cons c s)
  obtain d' i' e' where st: "scan_step op cl (d, i, e) c = (d', i', e')" by (metis prod_cases3)
  have nn: "0 \<le> d'" using scan_step_nonneg [OF Cons.prems, of i e c] st by (simp only: fst_conv)
  have sc: "scan op cl d i e (c # s) = map_option (Cons c) (if d' = 0 then Some [] else scan op cl d' i' e' s)"
    by (simp only: scan_Cons [OF Cons.prems] st prod.case)
  show ?case
  proof (cases r)
    case Nil
    then show ?thesis by (simp only: sc) auto
  next
    case r: (Cons x xs)
    show ?thesis
    proof (cases "d' = 0")
      case True
      then show ?thesis unfolding sc r first_closing_Cons by (cases "x = c") (auto simp: st)
    next
      case False
      then have "0 < d'" using nn by simp
      from Cons.IH [OF this, of i' e' xs] show ?thesis
        unfolding sc r first_closing_Cons using False nn by (cases "x = c") (auto simp: st)
    qed
  qed
qed

lemma first_block_iff:
  "first_block op cl s = Some r \<longleftrightarrow>
     (\<exists>pre post. s = pre @ r @ post \<and> op \<notin> set pre \<and> r \<noteq> [] \<and> hd r = op \<and> first_closing op cl (0, False, False) r)"
proof (cases "dropWhile (\<lambda>c. c \<noteq> op) s")
  case Nil
  then have "op \<notin> set s" by (auto simp: dropWhile_eq_Nil_conv)
  moreover have "first_block op cl s = None" unfolding first_block_def Nil by simp
  ultimately show ?thesis by (cases r) auto
next
  case (Cons c t)
  have c: "c = op" using hd_dropWhile [of "\<lambda>c. c \<noteq> op" s] Cons by simp
  have s: "s = takeWhile (\<lambda>c. c \<noteq> op) s @ op # t" "op \<notin> set (takeWhile (\<lambda>c. c \<noteq> op) s)"
    using takeWhile_dropWhile_id [of "\<lambda>c. c \<noteq> op" s] Cons c by (auto dest: set_takeWhileD)
  have fb: "first_block op cl s = map_option (Cons op) (scan op cl 1 False False t)"
    using Cons c op_no_quote distinct_brackets by (simp add: first_block_def)
  have pre: "pre = takeWhile (\<lambda>c. c \<noteq> op) s \<and> rest = t" if "s = pre @ op # rest" "op \<notin> set pre" for pre rest
  proof -
    have "takeWhile (\<lambda>c. c \<noteq> op) s = pre" "dropWhile (\<lambda>c. c \<noteq> op) s = op # rest"
      using that by (auto simp: takeWhile_append dropWhile_append)
    then show ?thesis using Cons by simp
  qed
  have fc: "first_closing op cl (0, False, False) (op # xs) \<longleftrightarrow>
      xs \<noteq> [] \<and> first_closing op cl (1, False, False) xs" for xs
    unfolding first_closing_Cons using op_no_quote by (simp add: scan_step.simps)
  show ?thesis
  proof
    assume "first_block op cl s = Some r"
    then obtain xs where "r = op # xs" "xs \<noteq> []" "first_closing op cl (1, False, False) xs" "\<exists>post. t = xs @ post"
      by (auto simp: fb scan_iff)
    then show "\<exists>pre post. s = pre @ r @ post \<and> op \<notin> set pre \<and> r \<noteq> [] \<and> hd r = op \<and>
        first_closing op cl (0, False, False) r"
      using s fc by (metis append_Cons list.discI list.sel(1))
  next
    assume "\<exists>pre post. s = pre @ r @ post \<and> op \<notin> set pre \<and> r \<noteq> [] \<and> hd r = op \<and>
        first_closing op cl (0, False, False) r"
    then obtain pre post xs where x: "s = pre @ op # xs @ post" "op \<notin> set pre" "r = op # xs"
      "first_closing op cl (0, False, False) (op # xs)" by (cases r) auto
    then have "t = xs @ post" using pre by blast
    then have "scan op cl 1 False False t = Some xs" using x(4) fc by (simp add: scan_iff)
    then show "first_block op cl s = Some r" unfolding fb x(3) by simp
  qed
qed

end

interpretation json_array: bracket_pair "ch CHR ''[''" "ch CHR '']''"
  by unfold_locales simp_all

interpretation json_object: bracket_pair "ch CHR ''{''" "ch CHR ''}''"
  by unfold_locales simp_all

text \<open>
  The array taken from a model's reply, in whatever prose it is wrapped, is the text from the
  first opening bracket to the bracket that closes it, brackets inside JSON strings not counted;
  nothing is returned exactly when that bracket is never closed.
\<close>

theorem first_json_array_spec:
  "first_json_array s = Some r \<longleftrightarrow>
     (\<exists>pre post. s = pre @ r @ post \<and> ch CHR ''['' \<notin> set pre \<and> r \<noteq> [] \<and> hd r = ch CHR ''['' \<and>
        nesting (ch CHR ''['') (ch CHR '']'') (0, False, False) r = 0 \<and>
        (\<nexists>k. 0 < k \<and> k < length r \<and> nesting (ch CHR ''['') (ch CHR '']'') (0, False, False) (take k r) \<le> 0))"
  unfolding first_json_array_def json_array.first_block_iff first_closing_alt by blast

section \<open>Corrections touch nothing but text\<close>

definition blank_text :: "grouped_utterance \<Rightarrow> grouped_utterance" where
  "blank_text u = u\<lparr>g_text := []\<rparr>"

lemma apply_corrections_frame:
  "apply_corrections cs a us = (n, us') \<Longrightarrow>
     map blank_text us' = map blank_text us \<and> a \<le> n \<and> n \<le> a + length cs \<and> (n = a \<longrightarrow> us' = us) \<and>
     (\<forall>k < length us. g_text (us' ! k) = g_text (us ! k) \<or>
        (\<exists>c \<in> set cs. cor_i c = k \<and> g_text (us' ! k) = trim (cor_text c) \<and> trim (cor_text c) \<noteq> []))"
proof (induction cs a us rule: apply_corrections.induct)
  case (2 c cs a us)
  let ?i = "cor_i c"
  show ?case
  proof (cases "?i < length us \<and> acceptable_correction (g_text (us ! ?i)) (trim (cor_text c))")
    case True
    let ?us = "us[?i := (us ! ?i)\<lparr>g_text := trim (cor_text c)\<rparr>]"
    have ne: "trim (cor_text c) \<noteq> []" using True by (simp add: acceptable_correction_def Let_def)
    have bl: "map blank_text ?us = map blank_text us"
      using True by (simp add: map_update blank_text_def list_update_same_conv)
    have r: "apply_corrections cs (a + 1) ?us = (n, us')" using "2.prems" True by simp
    note IH = "2.IH"(1) [OF True r]
    have "g_text (us' ! k) = g_text (us ! k) \<or>
        (\<exists>c' \<in> set (c # cs). cor_i c' = k \<and> g_text (us' ! k) = trim (cor_text c') \<and> trim (cor_text c') \<noteq> [])"
      if k: "k < length us" for k
    proof (cases "g_text (us' ! k) = g_text (?us ! k)")
      case same: True
      show ?thesis
      proof (cases "k = ?i")
        case True
        then show ?thesis using same k ne by simp
      next
        case False
        then show ?thesis using same by simp
      qed
    next
      case False
      then show ?thesis using IH k by auto
    qed
    moreover have "map blank_text us' = map blank_text us" "a \<le> n" "n \<le> a + length (c # cs)" "n \<noteq> a"
      using IH bl by auto
    ultimately show ?thesis by blast
  next
    case False
    have r: "apply_corrections cs a us = (n, us')"
      using "2.prems" by (simp only: apply_corrections.simps False if_False)
    note IH = "2.IH"(2) [OF False r]
    have "n \<le> a + length (c # cs)" using IH by simp
    then show ?thesis using IH by (meson list.set_intros(2))
  qed
qed simp

text \<open>
  Whatever the language model answers, the corrector returns as many utterances as it was
  given, each with its words, speaker and times; the text of a line is either untouched or the
  non-empty text of a correction for that very line, and a reported count of zero means nothing
  changed. A model that is unreachable, or whose answer holds no array, changes nothing.
\<close>

theorem correct_names_safe:
  "case correct_names chat parse model names us of (n, us') \<Rightarrow>
     map blank_text us' = map blank_text us \<and> (if n = 0 then us' = us else True) \<and>
     (\<nexists>k. k < length us \<and> g_text (us' ! k) \<noteq> g_text (us ! k) \<and>
        (\<nexists>msgs raw arr cs c. chat model msgs = Inr raw \<and> first_json_array raw = Some arr \<and>
           parse arr = Some cs \<and> c \<in> set cs \<and> cor_i c = k \<and> g_text (us' ! k) = trim (cor_text c) \<and>
           trim (cor_text c) \<noteq> []))"
proof -
  obtain n us' where r: "correct_names chat parse model names us = (n, us')" by fastforce
  consider (same) "n = 0" "us' = us"
    | (applied) msgs raw arr cs where "chat model msgs = Inr raw" "first_json_array raw = Some arr"
        "parse arr = Some cs" "apply_corrections cs 0 us = (n, us')"
    using r unfolding correct_names_def Let_def by (auto split: if_splits sum.splits option.splits)
  then show ?thesis
  proof cases
    case same
    then show ?thesis unfolding r by simp
  next
    case applied
    note f = apply_corrections_frame [OF applied(4)]
    show ?thesis unfolding r prod.case
    proof (intro conjI notI)
      show "map blank_text us' = map blank_text us" using f by blast
      show "if n = 0 then us' = us else True" using f by simp
    next
      assume "\<exists>k<length us. g_text (us' ! k) \<noteq> g_text (us ! k) \<and>
        (\<nexists>msgs raw arr cs c. chat model msgs = Inr raw \<and> first_json_array raw = Some arr \<and>
           parse arr = Some cs \<and> c \<in> set cs \<and> cor_i c = k \<and> g_text (us' ! k) = trim (cor_text c) \<and>
           trim (cor_text c) \<noteq> [])"
      then show False using f applied(1,2,3) by blast
    qed
  qed
qed

text \<open>
  The length guard compares with the current text of the line, so two corrections of one line can
  carry it further from the original than the guard allows one correction to.
\<close>

lemma corrections_can_drift:
  "let u = (open_utterance (demo_word (lit ''a'') 0 1));
       c = (\<lambda>n. \<lparr>cor_i = 0, cor_text = replicate n 97\<rparr>);
       r = snd (apply_corrections [c 13, c 25] 0 [u])
   in \<bar>int (length (g_text u)) - int (length (g_text (hd r)))\<bar> = 24"
proof -
  have ws: "\<not> is_ws 97" by (simp add: is_ws_def)
  have "trim_end_matches is_ws (replicate n 97) = replicate n 97" for n
    by (rule trim_end_matches_id) (cases n, simp, simp add: ws last_replicate del: replicate_Suc)
  moreover have "dropWhile is_ws (replicate n 97) = replicate n 97" for n by (cases n) (simp_all add: ws)
  ultimately have "trim (replicate n 97) = replicate n 97" for n
    by (simp add: trim_def trim_matches_def trim_start_matches_def)
  moreover have acc: "acceptable_correction old new"
    if "length old \<noteq> length new" "new \<noteq> []" "\<bar>int (length old) - int (length new)\<bar> \<le> 12" for old new :: rstr
    using that by (auto simp: acceptable_correction_def Let_def)
  have "acceptable_correction [97] (replicate 13 97)" "acceptable_correction (replicate 13 97) (replicate 25 97)"
    by (rule acc; simp)+
  ultimately show ?thesis
    by (simp add: open_utterance_def demo_word_def Let_def del: replicate.simps)
qed

end
