(* ===== verification/Scribe_Summarize.thy ===== *)
theory Scribe_Summarize
  imports Scribe_Merge
begin

text \<open>
  Summaries and titles: \<open>stages/summarize.rs\<close>, \<open>title.rs\<close> and \<open>scribe-core/src/summary_template.rs\<close>.
  The transcript is rendered, cut to the prompt budget by splitting and condensing, sent to the
  language model, and the reply is read defensively.

  Parameters: \<open>chat\<close>, the request to the language-model server; \<open>parse_json\<close> and \<open>print_json\<close>,
  \<open>serde_json\<close> at \<open>Value\<close>. Nothing is assumed of them.
\<close>

section \<open>Templates\<close>

record summary_template =
  tmpl_id :: rstr
  tmpl_label :: rstr
  tmpl_instructions :: rstr

definition TEMPLATES :: "summary_template list" where
  "TEMPLATES =
    [\<lparr>tmpl_id = lit ''general'', tmpl_label = lit ''General meeting'', tmpl_instructions =
       lit ''Summarize this meeting. Capture the overall discussion, concrete action items, explicit decisions made, and the main topics covered.''\<rparr>,
     \<lparr>tmpl_id = lit ''standup'', tmpl_label = lit ''Standup'', tmpl_instructions =
       lit ''This is a team standup. For the summary, capture per-person what was done, what'' @ [39] @ lit ''s next, and any blockers. action_items = unblock/follow-up tasks. decisions = any scope or priority calls. topics = workstreams mentioned.''\<rparr>,
     \<lparr>tmpl_id = lit ''interview'', tmpl_label = lit ''Interview'', tmpl_instructions =
       lit ''This is an interview. summary = the candidate'' @ [39] @ lit ''s background and the strongest signals (positive and negative). action_items = recommended next steps (e.g. follow-up interview, references). decisions = the hiring lean if expressed. topics = competencies/areas probed.''\<rparr>,
     \<lparr>tmpl_id = lit ''one_on_one'', tmpl_label = lit ''1:1'', tmpl_instructions =
       lit ''This is a 1:1 meeting. summary = key discussion points and sentiment. action_items = commitments made by either side. decisions = anything agreed. topics = themes (growth, feedback, workload, etc.).''\<rparr>,
     \<lparr>tmpl_id = lit ''lecture'', tmpl_label = lit ''Lecture / talk'', tmpl_instructions =
       lit ''This is a lecture or talk. summary = the thesis and main arguments. action_items = suggested study/follow-up. decisions = N/A unless stated. topics = key concepts introduced.''\<rparr>,
     \<lparr>tmpl_id = lit ''sales'', tmpl_label = lit ''Sales call'', tmpl_instructions =
       lit ''This is a sales call. summary = the prospect'' @ [39] @ lit ''s needs, pain points, and buying signals. action_items = seller next steps. decisions = commitments/next-meeting. topics = objections and products discussed.''\<rparr>]"

definition DEFAULT_TEMPLATE_ID :: rstr where "DEFAULT_TEMPLATE_ID = lit ''general''"

text \<open>The inner \<open>expect\<close> cannot fire: \<open>general\<close> is in the table (\<open>resolve_defined\<close>).\<close>

definition resolve :: "rstr \<Rightarrow> summary_template option" where
  "resolve i =
     (case find (\<lambda>t. eq_ignore_ascii_case (tmpl_id t) (trim i)) TEMPLATES of
        Some t \<Rightarrow> Some t
      | None \<Rightarrow> find (\<lambda>t. tmpl_id t = DEFAULT_TEMPLATE_ID) TEMPLATES)"

definition is_known :: "rstr \<Rightarrow> bool" where
  "is_known i = list_ex (\<lambda>t. eq_ignore_ascii_case (tmpl_id t) (trim i)) TEMPLATES"

definition canonical_id :: "rstr \<Rightarrow> rstr" where
  "canonical_id i = (case resolve i of Some t \<Rightarrow> tmpl_id t | None \<Rightarrow> [])"

section \<open>Lines and budgets\<close>

text \<open>\<open>str::lines\<close>: pieces up to and including each newline, their \<^verbatim>\<open>\n\<close> or \<^verbatim>\<open>\r\n\<close> removed.\<close>

fun split_inclusive :: "codepoint \<Rightarrow> rstr \<Rightarrow> rstr list" where
  "split_inclusive d [] = []"
| "split_inclusive d (c # s) =
     (if c = d then [c] # split_inclusive d s
      else (case split_inclusive d s of [] \<Rightarrow> [[c]] | l # ls \<Rightarrow> (c # l) # ls))"

definition strip_eol :: "rstr \<Rightarrow> rstr" where
  "strip_eol l =
     (if l \<noteq> [] \<and> last l = 10
      then (let b = butlast l in if b \<noteq> [] \<and> last b = 13 then butlast b else b)
      else l)"

definition lines :: "rstr \<Rightarrow> rstr list" where
  "lines s = map strip_eol (split_inclusive 10 s)"

fun split_loop :: "nat \<Rightarrow> rstr list \<Rightarrow> rstr \<Rightarrow> rstr list \<Rightarrow> rstr list \<times> rstr" where
  "split_loop budget parts current [] = (parts, current)"
| "split_loop budget parts current (line # ls) =
     (let line_len = length line + 1 in
      if current \<noteq> [] \<and> length current + line_len > budget
      then split_loop budget (parts @ [current]) (line @ [10]) ls
      else split_loop budget parts (current @ line @ [10]) ls)"

definition split_on_lines :: "rstr \<Rightarrow> nat \<Rightarrow> rstr list" where
  "split_on_lines tx budget =
     (case split_loop budget [] [] (lines tx) of
        (parts, current) \<Rightarrow>
          let parts = (if trim current \<noteq> [] then parts @ [current] else parts)
          in if parts = [] then [tx] else parts)"

definition take_chars :: "rstr \<Rightarrow> nat \<Rightarrow> rstr" where
  "take_chars s mx = take mx s"

section \<open>The prompt\<close>

definition speaker_names :: "db \<Rightarrow> uuid \<Rightarrow> (int \<times> rstr) list" where
  "speaker_names d rid = list_recording_speakers d rid"

definition speaker_line :: "(int \<times> rstr) list \<Rightarrow> utterance \<Rightarrow> rstr" where
  "speaker_line names u =
     (case u_local_idx u of
        Some idx \<Rightarrow> (case map_of names idx of Some n \<Rightarrow> n | None \<Rightarrow> lit ''Speaker '' @ show_int idx)
      | None \<Rightarrow> lit ''Speaker'')
     @ lit '': '' @ trim (u_text u) @ [10]"

definition render_transcript :: "utterance list \<Rightarrow> (int \<times> rstr) list \<Rightarrow> rstr" where
  "render_transcript us names = concat (map (speaker_line names) us)"

definition participant_line :: "(int \<times> rstr) list \<Rightarrow> rstr" where
  "participant_line names =
     (if names = [] then []
      else lit ''The people speaking are: '' @ join (lit '', '') (map snd (sort_key fst names))
           @ lit ''. Attribute decisions and action items to them by name where the transcript supports it.''
           @ [10, 10])"

definition user_msg :: "rstr \<Rightarrow> chat_message" where
  "user_msg s = \<lparr>cm_role = lit ''user'', cm_content = s\<rparr>"

definition system_msg :: "rstr \<Rightarrow> chat_message" where
  "system_msg s = \<lparr>cm_role = lit ''system'', cm_content = s\<rparr>"

definition quoted :: "string \<Rightarrow> rstr" where
  "quoted s = [34] @ lit s @ [34]"

definition summary_prompt :: "summary_template \<Rightarrow> rstr \<Rightarrow> rstr \<Rightarrow> rstr" where
  "summary_prompt tmpl roster body =
     tmpl_instructions tmpl @ [10, 10]
     @ lit ''Return ONLY a JSON object with keys: '' @ quoted ''title'' @ lit '' (string), ''
     @ quoted ''summary'' @ lit '' (string), '' @ quoted ''action_items'' @ lit '' (array of strings), ''
     @ quoted ''decisions'' @ lit '' (array of strings), '' @ quoted ''topics'' @ lit '' (array of strings). ''
     @ lit ''If the transcript is empty or trivial, still return the object with empty values.'' @ [10, 10]
     @ roster @ lit ''Transcript:'' @ [10] @ body"

section \<open>Condensing\<close>

definition part_prompt :: "nat \<Rightarrow> nat \<Rightarrow> rstr \<Rightarrow> rstr" where
  "part_prompt n n_parts part =
     lit ''This is part '' @ show_nat n @ lit '' of '' @ show_nat n_parts
     @ lit '' of a meeting transcript. Write dense notes on THIS part only: what was discussed, what was decided, what was assigned to whom, and any numbers, dates or names that matter. Keep speaker names. Do not add a preamble, a conclusion, or anything that is not in this part.''
     @ [10, 10] @ part"

type_synonym chat_fun = "rstr \<Rightarrow> chat_message list \<Rightarrow> rstr res"

fun condense_parts :: "chat_fun \<Rightarrow> rstr \<Rightarrow> nat \<Rightarrow> nat \<Rightarrow> rstr list \<Rightarrow> rstr \<Rightarrow> rstr res" where
  "condense_parts chat model n_parts i [] notes = Inr notes"
| "condense_parts chat model n_parts i (part # parts) notes =
     (case chat model [system_msg (lit ''You take notes on meeting transcripts. Be dense and factual.''),
                       user_msg (part_prompt (i + 1) n_parts part)] of
        Inl e \<Rightarrow> Inl e
      | Inr tx \<Rightarrow> condense_parts chat model n_parts (i + 1) parts (notes @ trim tx @ [10, 10]))"

definition MAX_ROUNDS :: nat where "MAX_ROUNDS = 4"

fun condense_rounds :: "chat_fun \<Rightarrow> rstr \<Rightarrow> nat \<Rightarrow> nat \<Rightarrow> nat \<Rightarrow> rstr \<Rightarrow> rstr res" where
  "condense_rounds chat model budget part_budget 0 body = Inr (take_chars body budget)"
| "condense_rounds chat model budget part_budget (Suc r) body =
     (let parts = split_on_lines body part_budget in
      case condense_parts chat model (length parts) 0 parts [] of
        Inl e \<Rightarrow> Inl e
      | Inr notes \<Rightarrow>
          let body' = trim notes in
          if length body' \<le> budget then Inr body'
          else condense_rounds chat model budget part_budget r body')"

definition condense :: "chat_fun \<Rightarrow> rstr \<Rightarrow> rstr \<Rightarrow> nat \<Rightarrow> rstr res" where
  "condense chat model transcript budget =
     condense_rounds chat model budget (budget * 2 div 3) MAX_ROUNDS transcript"

section \<open>Reading the reply\<close>

definition first_json_object :: "rstr \<Rightarrow> rstr option" where
  "first_json_object s = first_block (ch CHR ''{'') (ch CHR ''}'') s"

record parsed_summary =
  ps_title :: "rstr option"
  ps_summary :: "rstr option"
  ps_action_items :: json
  ps_decisions :: json
  ps_topics :: json

definition string_field :: "json \<Rightarrow> rstr \<Rightarrow> rstr option" where
  "string_field v key =
     (case Option.bind (json_get v key) json_as_str of
        None \<Rightarrow> None
      | Some s \<Rightarrow> if trim s = [] then None else Some (trim s))"

definition string_item :: "(json \<Rightarrow> rstr) \<Rightarrow> json \<Rightarrow> json option" where
  "string_item print_json i =
     (case i of
        JString s \<Rightarrow> if trim s \<noteq> [] then Some (JString (trim s)) else None
      | other \<Rightarrow> Some (JString (print_json other)))"

definition string_array :: "(json \<Rightarrow> rstr) \<Rightarrow> json \<Rightarrow> rstr \<Rightarrow> json" where
  "string_array print_json v key =
     (case json_get v key of
        Some (JArray items) \<Rightarrow> JArray (List.map_filter (string_item print_json) items)
      | Some (JString s) \<Rightarrow> if trim s \<noteq> [] then JArray [JString (trim s)] else JArray []
      | _ \<Rightarrow> JArray [])"

definition parse_summary :: "(rstr \<Rightarrow> json option) \<Rightarrow> (json \<Rightarrow> rstr) \<Rightarrow> rstr \<Rightarrow> parsed_summary" where
  "parse_summary parse_json print_json raw =
     (case Option.bind (first_json_object raw) parse_json of
        Some v \<Rightarrow>
          \<lparr>ps_title = string_field v (lit ''title''), ps_summary = string_field v (lit ''summary''),
           ps_action_items = string_array print_json v (lit ''action_items''),
           ps_decisions = string_array print_json v (lit ''decisions''),
           ps_topics = string_array print_json v (lit ''topics'')\<rparr>
      | None \<Rightarrow>
          \<lparr>ps_title = None, ps_summary = Some (trim raw), ps_action_items = JArray [],
           ps_decisions = JArray [], ps_topics = JArray []\<rparr>)"

section \<open>The stage\<close>

record llm_config =
  summarize_model :: rstr
  default_template :: rstr
  correct_transcript :: bool
  max_prompt_chars :: nat

definition summary_budget :: "llm_config \<Rightarrow> nat" where
  "summary_budget cfg = max (max_prompt_chars cfg) 2000"

definition summary_body :: "chat_fun \<Rightarrow> llm_config \<Rightarrow> rstr \<Rightarrow> rstr" where
  "summary_body chat cfg transcript =
     (if length transcript > summary_budget cfg
      then (case condense chat (summarize_model cfg) transcript (summary_budget cfg) of
              Inr notes \<Rightarrow> notes
            | Inl e \<Rightarrow> take_chars transcript (summary_budget cfg))
      else transcript)"

definition summarize_reply ::
  "chat_fun \<Rightarrow> (rstr \<Rightarrow> json option) \<Rightarrow> (json \<Rightarrow> rstr) \<Rightarrow> llm_config \<Rightarrow> rstr \<Rightarrow> parsed_summary" where
  "summarize_reply chat parse_json print_json cfg prompt =
     (case chat (summarize_model cfg)
             [system_msg (lit ''You are a meeting-notes assistant. Respond with only JSON.''), user_msg prompt] of
        Inr raw \<Rightarrow> parse_summary parse_json print_json raw
      | Inl e \<Rightarrow> \<lparr>ps_title = None, ps_summary = None, ps_action_items = JArray [],
                  ps_decisions = JArray [], ps_topics = JArray []\<rparr>)"

definition summarize_run ::
  "chat_fun \<Rightarrow> (rstr \<Rightarrow> json option) \<Rightarrow> (json \<Rightarrow> rstr) \<Rightarrow> llm_config \<Rightarrow> timestamp \<Rightarrow> uuid \<Rightarrow> rstr \<Rightarrow>
     db \<Rightarrow> unit res \<times> db" where
  "summarize_run chat parse_json print_json cfg now rid template d =
     (let names = speaker_names d rid;
          transcript = render_transcript (list_utterances_by_recording d rid) names in
      case resolve template of
        None \<Rightarrow> (Inl Internal, d)
      | Some tmpl \<Rightarrow>
          let body = summary_body chat cfg transcript;
              parsed = summarize_reply chat parse_json print_json cfg
                         (summary_prompt tmpl (participant_line names) body)
          in case upsert_summary now rid (ps_title parsed) (ps_summary parsed) (ps_action_items parsed)
                   (ps_topics parsed) (ps_decisions parsed) (Some (summarize_model cfg)) (Some (tmpl_id tmpl)) d of
               Inl e \<Rightarrow> (Inl e, d)
             | Inr d' \<Rightarrow>
                 (case ps_title parsed of
                    None \<Rightarrow> (Inr (), d')
                  | Some title \<Rightarrow> (Inr (), snd (set_recording_title_auto rid title d'))))"

section \<open>Live titles\<close>

definition MAX_CHARS :: nat where "MAX_CHARS = 6000"

definition clean_title :: "rstr \<Rightarrow> rstr option" where
  "clean_title raw =
     (case find (\<lambda>l. l \<noteq> []) (map trim (lines raw)) of
        None \<Rightarrow> None
      | Some line \<Rightarrow>
          let t = trim (trim_matches (\<lambda>c. c = 34 \<or> c = 39 \<or> c = 96) line)
          in if t = [] then None else Some (take 120 t))"

text \<open>
  \<open>text.len()\<close> counts UTF-8 bytes and \<open>split_off\<close> panics when the offset is inside a character:
  \<open>None\<close>. The panic unwinds the worker task of this job.
\<close>

definition utf8_len :: "codepoint \<Rightarrow> nat" where
  "utf8_len c = (if c < 128 then 1 else if c < 2048 then 2 else if c < 65536 then 3 else 4)"

definition byte_len :: "rstr \<Rightarrow> nat" where
  "byte_len s = sum_list (map utf8_len s)"

fun split_off :: "nat \<Rightarrow> rstr \<Rightarrow> rstr option" where
  "split_off 0 s = Some s"
| "split_off n [] = None"
| "split_off n (c # s) = (if utf8_len c \<le> n then split_off (n - utf8_len c) s else None)"

definition title_text :: "utterance list \<Rightarrow> rstr option" where
  "title_text us =
     (let tx = concat (map (\<lambda>u. trim (u_text u) @ [10]) us)
      in if byte_len tx > MAX_CHARS then split_off (byte_len tx - MAX_CHARS) tx else Some tx)"

definition regenerate :: "chat_fun \<Rightarrow> llm_config \<Rightarrow> uuid \<Rightarrow> db \<Rightarrow> db option" where
  "regenerate chat cfg rid d =
     (let us = list_utterances_by_recording d rid in
      if us = [] then Some d
      else case title_text us of
        None \<Rightarrow> None
      | Some tx \<Rightarrow>
          (case chat (summarize_model cfg)
                  [system_msg (lit ''You name meetings. Given a partial meeting transcript, reply with ONLY a short, specific title (at most 8 words). No quotes, no trailing punctuation, no preamble.''),
                   user_msg tx] of
             Inl e \<Rightarrow> Some d
           | Inr raw \<Rightarrow>
               (case clean_title raw of
                  None \<Rightarrow> Some d
                | Some title \<Rightarrow> Some (snd (set_recording_title_auto rid title d)))))"

section \<open>Templates resolve\<close>

lemma lower_template_ids: "t \<in> set TEMPLATES \<Longrightarrow> to_ascii_lowercase (tmpl_id t) = tmpl_id t \<and> trim (tmpl_id t) = tmpl_id t"
  by (auto simp: TEMPLATES_def text_defs)

lemma find_template:
  "find (\<lambda>t. eq_ignore_ascii_case (tmpl_id t) s) TEMPLATES = find (\<lambda>t. tmpl_id t = to_ascii_lowercase s) TEMPLATES"
  by (rule find_cong) (auto simp: eq_ignore_ascii_case_def dest: lower_template_ids)

lemma resolve_defined: "\<exists>t \<in> set TEMPLATES. resolve i = Some t"
proof (cases "find (\<lambda>t. eq_ignore_ascii_case (tmpl_id t) (trim i)) TEMPLATES")
  case None
  have "\<exists>t \<in> set TEMPLATES. find (\<lambda>t. tmpl_id t = DEFAULT_TEMPLATE_ID) TEMPLATES = Some t"
    by (simp add: TEMPLATES_def DEFAULT_TEMPLATE_ID_def)
  then show ?thesis using None by (simp add: resolve_def)
next
  case (Some t)
  then show ?thesis using find_SomeD [OF Some] by (auto simp: resolve_def)
qed

lemma find_self: "t \<in> set TEMPLATES \<Longrightarrow> find (\<lambda>x. tmpl_id x = tmpl_id t) TEMPLATES = Some t"
  by (rule find_by_key) (simp_all add: TEMPLATES_def)

lemma is_known_iff: "is_known i \<longleftrightarrow> (\<exists>t \<in> set TEMPLATES. tmpl_id t = to_ascii_lowercase (trim i))"
  using lower_template_ids by (fastforce simp: is_known_def list_ex_iff eq_ignore_ascii_case_def)

text \<open>
  Any text resolves to one of the built-in templates: the one whose id it spells up to case
  and surrounding white space, and \<open>general\<close> exactly when it spells none; the canonical id of a
  canonical id is itself, so what is stored resolves to the same template again.
\<close>

theorem template_resolution:
  "(\<exists>t \<in> set TEMPLATES. resolve i = Some t \<and> canonical_id i = tmpl_id t) \<and>
   canonical_id i = (if is_known i then to_ascii_lowercase (trim i) else lit ''general'') \<and>
   resolve (canonical_id i) = resolve i"
proof -
  obtain t where t: "t \<in> set TEMPLATES" "resolve i = Some t" using resolve_defined by blast
  then have c: "canonical_id i = tmpl_id t" by (simp add: canonical_id_def)
  have "tmpl_id t = (if is_known i then to_ascii_lowercase (trim i) else lit ''general'')"
  proof (cases "find (\<lambda>t. tmpl_id t = to_ascii_lowercase (trim i)) TEMPLATES")
    case None
    then have "\<not> is_known i" by (auto simp: is_known_iff find_None_iff)
    then show ?thesis using None t(2) by (auto simp: resolve_def find_template find_Some_iff DEFAULT_TEMPLATE_ID_def)
  next
    case (Some u)
    then have "is_known i" using find_SomeD [OF Some] by (auto simp: is_known_iff)
    then show ?thesis using Some t(2) find_SomeD [OF Some] by (simp add: resolve_def find_template)
  qed
  moreover have "resolve (tmpl_id t) = Some t"
    using lower_template_ids [OF t(1)] find_self [OF t(1)] by (simp add: resolve_def find_template)
  ultimately show ?thesis using t c by auto
qed

section \<open>Splitting loses nothing and respects the budget\<close>

definition eol_lines :: "rstr list \<Rightarrow> rstr" where
  "eol_lines ls = concat (map (\<lambda>l. l @ [10]) ls)"

definition fits :: "nat \<Rightarrow> rstr list \<Rightarrow> rstr \<Rightarrow> bool" where
  "fits budget ls p \<longleftrightarrow> length p \<le> budget \<or> (\<exists>l \<in> set ls. p = l @ [10])"

lemma split_loop_sound:
  assumes "split_loop budget parts current ls = (parts', current')"
    and "\<forall>p \<in> set parts. fits budget all p" "current = [] \<or> fits budget all current" "set ls \<subseteq> set all"
  shows "concat parts' @ current' = concat parts @ current @ eol_lines ls \<and>
    (\<forall>p \<in> set parts'. fits budget all p) \<and> (current' = [] \<or> fits budget all current')"
  using assms
proof (induction budget parts current ls rule: split_loop.induct)
  case (1 budget parts current)
  then show ?case by (simp add: eol_lines_def)
next
  case (2 budget parts current line ls)
  show ?case
  proof (cases "current \<noteq> [] \<and> length current + (length line + 1) > budget")
    case True
    have "fits budget all (line @ [10])" using "2.prems"(4) by (auto simp: fits_def)
    then show ?thesis using "2.IH"(1) [OF refl True] "2.prems" True by (simp add: eol_lines_def)
  next
    case False
    have "fits budget all (current @ line @ [10])"
    proof (cases "current = []")
      case True
      then show ?thesis using "2.prems"(4) by (auto simp: fits_def)
    next
      case cur: False
      then show ?thesis using False by (simp add: fits_def)
    qed
    moreover have "split_loop budget parts (current @ line @ [10]) ls = (parts', current')"
      using "2.prems"(1) by (simp only: split_loop.simps Let_def False if_False)
    moreover have "set ls \<subseteq> set all" using "2.prems"(4) by simp
    ultimately show ?thesis using "2.IH"(2) [OF refl False _ "2.prems"(2)] by (simp add: eol_lines_def)
  qed
qed

lemma concat_split_inclusive: "concat (split_inclusive d s) = s"
  by (induction d s rule: split_inclusive.induct) (auto split: list.splits)

lemma set_butlast_last: "l \<noteq> [] \<Longrightarrow> set l = insert (last l) (set (butlast l))"
  by (cases l rule: rev_cases) auto

lemma set_strip_eol: "set l \<subseteq> set (strip_eol l) \<union> {10, 13}"
  using set_butlast_last [of l] set_butlast_last [of "butlast l"]
  by (auto simp: strip_eol_def Let_def)

lemma set_lines: "set s \<subseteq> set (eol_lines (lines s)) \<union> {10, 13}"
proof
  fix c assume "c \<in> set s"
  then have "c \<in> set (concat (split_inclusive 10 s))" by (simp only: concat_split_inclusive)
  then obtain l where l: "l \<in> set (split_inclusive 10 s)" "c \<in> set l" by auto
  then have "strip_eol l \<in> set (lines s)" by (simp add: lines_def)
  then have "set (strip_eol l) \<subseteq> set (eol_lines (lines s))" by (auto simp: eol_lines_def)
  then show "c \<in> set (eol_lines (lines s)) \<union> {10, 13}" using set_strip_eol [of l] l(2) by blast
qed

text \<open>
  The parts of a transcript, put back together, are its lines in order, up to trailing white
  space; every part fits the budget or is one single line that alone does not; there is always a
  part, and a transcript of white space only is handed on as it is.
\<close>

theorem split_on_lines_spec:
  "split_on_lines tx budget \<noteq> [] \<and>
   (split_on_lines tx budget = [tx] \<and> trim tx = [] \<or>
    (\<exists>tail. trim tail = [] \<and> concat (split_on_lines tx budget) @ tail = eol_lines (lines tx) \<and>
       list_all (fits budget (lines tx)) (split_on_lines tx budget)))"
proof -
  obtain parts current where l: "split_loop budget [] [] (lines tx) = (parts, current)" by fastforce
  have s: "concat parts @ current = eol_lines (lines tx)" "\<forall>p \<in> set parts. fits budget (lines tx) p"
    "current = [] \<or> fits budget (lines tx) current"
    using split_loop_sound [OF l, of "lines tx"] by auto
  let ?ps = "if trim current \<noteq> [] then parts @ [current] else parts"
  have sp: "split_on_lines tx budget = (if ?ps = [] then [tx] else ?ps)"
    by (simp add: split_on_lines_def l Let_def)
  show ?thesis
  proof (cases "?ps = []")
    case True
    then have "trim current = []" "parts = []" by (auto split: if_splits)
    then have "\<forall>c \<in> set (eol_lines (lines tx)). is_ws c" using s(1) by (simp add: trim_Nil_iff)
    then have "trim tx = []" using set_lines [of tx] by (auto simp: trim_Nil_iff is_ws_def)
    then show ?thesis using sp True by simp
  next
    case False
    show ?thesis
    proof (cases "trim current = []")
      case True
      then show ?thesis using False sp s by (auto simp: list_all_iff)
    next
      case ne: False
      then have "current \<noteq> []" by (auto simp: trim_Nil_iff)
      then have "concat ?ps @ [] = eol_lines (lines tx)" "list_all (fits budget (lines tx)) ?ps"
        using ne s by (auto simp: list_all_iff)
      moreover have "trim [] = []" by (simp add: trim_Nil_iff)
      ultimately show ?thesis using False sp by auto
    qed
  qed
qed

section \<open>The prompt stays within its budget\<close>

lemma condense_rounds_bounded: "condense_rounds chat model b pb r body = Inr notes \<Longrightarrow> length notes \<le> b"
proof (induction chat model b pb r body rule: condense_rounds.induct)
  case (1 chat model budget part_budget body)
  then show ?case by (auto simp: take_chars_def)
next
  case (2 chat model budget part_budget r body)
  show ?case
    using "2.prems" "2.IH" [OF refl _ refl]
    by (auto simp: Let_def split: sum.splits if_splits)
qed

text \<open>
  What is sent as the body of the prompt never exceeds the budget, however long the recording
  and whatever the model answers while condensing; a transcript that fits is sent unchanged.
\<close>

theorem summary_body_bounded:
  "length (summary_body chat cfg transcript) \<le> summary_budget cfg \<and>
   (if length transcript \<le> summary_budget cfg then summary_body chat cfg transcript = transcript else True)"
proof (cases "condense chat (summarize_model cfg) transcript (summary_budget cfg)")
  case (Inl e)
  then show ?thesis by (simp add: summary_body_def take_chars_def)
next
  case (Inr body)
  then have "length body \<le> summary_budget cfg"
    unfolding condense_def by (rule condense_rounds_bounded)
  then show ?thesis using Inr by (simp add: summary_body_def)
qed

section \<open>A reply is always readable\<close>

definition string_list :: "json \<Rightarrow> bool" where
  "string_list v \<longleftrightarrow> (\<exists>ss. v = JArray (map JString ss))"

lemma string_item_string: "string_item pr i = Some v \<Longrightarrow> \<exists>s. v = JString s"
  by (auto simp: string_item_def split: json.splits if_splits)

lemma map_filter_strings: "\<exists>ss. List.map_filter (string_item pr) items = map JString ss"
proof (induction items)
  case Nil
  then show ?case by (simp add: List.map_filter_simps)
next
  case (Cons i items)
  obtain ss where ss: "List.map_filter (string_item pr) items = map JString ss" using Cons by blast
  show ?case
  proof (cases "string_item pr i")
    case None
    then have "List.map_filter (string_item pr) (i # items) = map JString ss"
      using ss by (simp add: List.map_filter_simps)
    then show ?thesis by blast
  next
    case (Some v)
    obtain s where "v = JString s" using string_item_string [OF Some] by blast
    then have "List.map_filter (string_item pr) (i # items) = map JString (s # ss)"
      using ss Some by (simp add: List.map_filter_simps)
    then show ?thesis by blast
  qed
qed

lemma string_list_Nil [simp]: "string_list (JArray [])"
  unfolding string_list_def by (metis list.map(1))

lemma string_list_single [simp]: "string_list (JArray [JString s])"
  unfolding string_list_def by (metis list.map)

lemma string_array_list [simp]: "string_list (string_array pr v key)"
  using map_filter_strings [of pr]
  by (auto simp: string_array_def string_list_def [of "JArray (List.map_filter _ _)"] split: option.splits json.splits)

lemma string_field_trimmed: "string_field v k = Some s \<Longrightarrow> s \<noteq> [] \<and> trim s = s"
  by (auto simp: string_field_def split: option.splits if_splits)

text \<open>
  Any reply is read into three arrays of strings and, where present, a trimmed non-empty
  title; a reply with no readable JSON object keeps its whole text as the summary.
\<close>

theorem parse_summary_shape:
  "let p = parse_summary parse_json print_json raw in
   string_list (ps_action_items p) \<and> string_list (ps_decisions p) \<and> string_list (ps_topics p) \<and>
   ps_title p \<noteq> Some [] \<and> map_option trim (ps_title p) = ps_title p \<and>
   (if Option.bind (first_json_object raw) parse_json = None
    then ps_title p = None \<and> ps_summary p = Some (trim raw) else ps_summary p \<noteq> Some [])"
proof (cases "Option.bind (first_json_object raw) parse_json")
  case None
  then show ?thesis by (simp add: parse_summary_def Let_def)
next
  case (Some v)
  have "map_option trim (string_field v k) = string_field v k" "string_field v k \<noteq> Some []" for k
    using string_field_trimmed [of v k] by (cases "string_field v k"; auto)+
  then show ?thesis using Some by (simp add: parse_summary_def Let_def)
qed

section \<open>The stage always leaves a summary\<close>

lemma find_upsert:
  "\<exists>s. lookup_by summary_key k (upsert summary_key (replace_summary r) r xs) = Some s \<and>
     s_template s = snd k \<and> s_title s = s_title r \<and> s_summary s = s_summary r"
  if "k = summary_key r"
  using summary_table.lookup_upsert_same [of r xs] that
  by (auto simp: summary_key_def replace_summary_def lookup_by_def find_Some_iff split: option.splits)

lemma summarize_run_stores:
  assumes "has_recording d rid"
  shows "\<exists>d'. summarize_run chat parse_json print_json cfg now rid template d = (Inr (), d') \<and>
    lookup_by summary_key (rid, canonical_id template) (summaries d') \<noteq> None \<and>
    jobs d' = jobs d \<and> segments d' = segments d \<and> utterances d' = utterances d \<and>
    map rec_id (recordings d') = map rec_id (recordings d)"
proof -
  obtain t where t: "resolve template = Some t" "canonical_id template = tmpl_id t"
    using resolve_defined [of template] by (auto simp: canonical_id_def)
  let ?names = "speaker_names d rid"
  let ?body = "summary_body chat cfg (render_transcript (list_utterances_by_recording d rid) ?names)"
  let ?p = "summarize_reply chat parse_json print_json cfg (summary_prompt t (participant_line ?names) ?body)"
  let ?r = "\<lparr>s_recording_id = rid, s_title = ps_title ?p, s_summary = ps_summary ?p,
     s_action_items = ps_action_items ?p, s_topics = ps_topics ?p, s_decisions = ps_decisions ?p,
     s_model = Some (summarize_model cfg), s_template = tmpl_id t, s_created_at = now\<rparr>"
  let ?d = "d\<lparr>summaries := upsert summary_key (replace_summary ?r) ?r (summaries d)\<rparr>"
  have "upsert_summary now rid (ps_title ?p) (ps_summary ?p) (ps_action_items ?p) (ps_topics ?p)
      (ps_decisions ?p) (Some (summarize_model cfg)) (Some (tmpl_id t)) d = Inr ?d"
    using assms by (simp add: upsert_summary_def Let_def)
  then have run: "summarize_run chat parse_json print_json cfg now rid template d =
      (Inr (), case ps_title ?p of None \<Rightarrow> ?d | Some title \<Rightarrow> snd (set_recording_title_auto rid title ?d))"
    using t(1) by (simp add: summarize_run_def Let_def split: option.splits)
  have "lookup_by summary_key (rid, tmpl_id t) (summaries ?d) \<noteq> None"
    using find_upsert [of "(rid, tmpl_id t)" ?r "summaries d"] by (auto simp: summary_key_def)
  then show ?thesis unfolding run t(2)
    by (auto simp: set_recording_title_auto_def map_update_where split: option.splits)
qed


definition demo_llm :: llm_config where
  "demo_llm = \<lparr>summarize_model = lit ''m'', default_template = lit ''general'', correct_transcript = True,
      max_prompt_chars = 18000\<rparr>"


section \<open>Titles\<close>

text \<open>
  A generated title is non-empty and at most 120 characters, and writing it never replaces a
  title the user gave.
\<close>

theorem regenerate_titles:
  assumes "regenerate chat cfg rid d = Some d'"
  shows "length (recordings d') = length (recordings d) \<and>
    (\<forall>k < length (recordings d). let r = recordings d ! k; r' = recordings d' ! k in
       r' = r \<or> (rec_id r = rid \<and> title_is_auto r \<and>
         (\<exists>t. t \<noteq> [] \<and> length t \<le> 120 \<and> r' = r\<lparr>rec_title := Some t, rec_title_auto := True\<rparr>)))"
proof -
  have len: "clean_title raw = Some t \<Longrightarrow> t \<noteq> [] \<and> length t \<le> 120" for raw t
    by (auto simp: clean_title_def Let_def split: option.splits if_splits)
  consider "d' = d" | raw t where "clean_title raw = Some t" "d' = snd (set_recording_title_auto rid t d)"
    using assms by (auto simp: regenerate_def Let_def split: if_splits option.splits sum.splits)
  then show ?thesis
  proof cases
    case 2
    then show ?thesis using len [OF 2(1)]
      by (auto simp: set_recording_title_auto_def update_where_def Let_def)
  qed (simp add: Let_def)
qed

theorem regenerate_titles_witness:
  "\<exists>d'. regenerate (\<lambda>m ms. Inl Http) demo_llm 7 sample_db = Some d' \<and>
     length (recordings d') = length (recordings sample_db)"
proof -
  have "regenerate (\<lambda>m ms. Inl Http) demo_llm 7 sample_db = Some sample_db"
    by (simp add: regenerate_def list_utterances_by_recording_def sample_db_def empty_db_def)
  then show ?thesis using regenerate_titles by blast
qed

text \<open>The title prompt is cut at a byte offset that can fall inside a character.\<close>

lemma title_text_can_panic:
  "u_text u = replicate 3000 233 \<Longrightarrow> title_text [u] = None"
proof -
  assume u: "u_text u = replicate 3000 233"
  have "trim (u_text u) = replicate 3000 233" unfolding u by (rule trim_no_ws) (simp add: is_ws_def)
  moreover have "byte_len (replicate n 233 @ [10]) = 2 * n + 1" for n
    by (simp add: byte_len_def utf8_len_def sum_list_replicate)
  moreover have "split_off 1 (replicate (Suc n) 233 @ [10]) = None" for n
    by (simp add: utf8_len_def)
  from this [of 2999] have "split_off 1 (replicate 3000 233 @ [10]) = None" by (simp del: replicate_Suc)
  ultimately show ?thesis by (simp add: title_text_def MAX_CHARS_def Let_def)
qed

end
