(* ===== verification/Scribe_Chunks.thy ===== *)
theory Scribe_Chunks
  imports Scribe_Merge
begin

text \<open>
  Retrieval chunks: the pure part of \<open>crates/scribe-pipeline/src/stages/embed.rs\<close>. An utterance is
  one chunk, or several overlapping windows of 45 s when it is longer.
\<close>

definition WINDOW_MS :: int where "WINDOW_MS = 45000"
definition WINDOW_OVERLAP_MS :: int where "WINDOW_OVERLAP_MS = 5000"

record pending_chunk =
  pc_start_ms :: int
  pc_end_ms :: int
  pc_local_idx :: "int option"
  pc_text :: rstr

definition in_window :: "int \<Rightarrow> int \<Rightarrow> word_rec \<Rightarrow> bool" where
  "in_window win_start win_end w \<longleftrightarrow> w_end_ms w > win_start \<and> w_start_ms w < win_end"

text \<open>The chunk of one window; \<open>find\<close> and \<open>max\<close> have a value because the window has a word.\<close>

definition window_chunk :: "utterance \<Rightarrow> int \<Rightarrow> int \<Rightarrow> pending_chunk list" where
  "window_chunk u win_start win_end =
     (case filter (in_window win_start win_end) (u_words u) of
        [] \<Rightarrow> []
      | w # ws \<Rightarrow>
          [\<lparr>pc_start_ms = w_start_ms w, pc_end_ms = fold max (map w_end_ms ws) (w_end_ms w),
            pc_local_idx = u_local_idx u, pc_text = join [32] (map w_text (w # ws))\<rparr>])"

function window_loop :: "utterance \<Rightarrow> int \<Rightarrow> pending_chunk list" where
  "window_loop u win_start =
     (if \<not> win_start < u_end_ms u then []
      else let win_end = min (win_start + WINDOW_MS) (u_end_ms u) in
           window_chunk u win_start win_end @
           (if win_end \<ge> u_end_ms u then [] else window_loop u (win_end - WINDOW_OVERLAP_MS)))"
  by pat_completeness auto
termination
  by (relation "measure (\<lambda>(u, s). nat (u_end_ms u - s))")
    (auto simp: WINDOW_MS_def WINDOW_OVERLAP_MS_def min_def split: if_splits)

declare window_loop.simps [simp del]

definition window_utterance :: "utterance \<Rightarrow> pending_chunk list" where
  "window_utterance u = window_loop u (u_start_ms u)"

fun build_chunks :: "utterance list \<Rightarrow> pending_chunk list" where
  "build_chunks [] = []"
| "build_chunks (u # us) =
     (let txt = trim (u_text u) in
      if txt = [] then build_chunks us
      else if u_end_ms u - u_start_ms u \<le> WINDOW_MS \<or> u_words u = []
      then \<lparr>pc_start_ms = u_start_ms u, pc_end_ms = u_end_ms u, pc_local_idx = u_local_idx u, pc_text = txt\<rparr>
           # build_chunks us
      else window_utterance u @ build_chunks us)"

section \<open>No spoken word is lost to retrieval\<close>

text \<open>A chunk made of some words of an utterance that all meet one 45 s window.\<close>

definition chunk_of :: "utterance \<Rightarrow> word_rec list \<Rightarrow> pending_chunk \<Rightarrow> bool" where
  "chunk_of u ws c \<longleftrightarrow> ws \<noteq> [] \<and> set ws \<subseteq> set (u_words u) \<and>
     pc_text c = join [32] (map w_text ws) \<and> pc_local_idx c = u_local_idx u \<and>
     pc_start_ms c = w_start_ms (hd ws) \<and> pc_end_ms c = Max (w_end_ms ` set ws) \<and>
     (\<exists>s. list_all (in_window s (s + WINDOW_MS)) ws)"

lemma fold_max_Max: "fold max xs (x :: int) = Max (insert x (set xs))"
  using Max.set_eq_fold [of x xs] by simp

lemma window_chunk_words:
  assumes "win_end \<le> win_start + WINDOW_MS" and "c \<in> set (window_chunk u win_start win_end)"
  shows "chunk_of u (filter (in_window win_start win_end) (u_words u)) c"
proof (cases "filter (in_window win_start win_end) (u_words u)")
  case Nil
  then show ?thesis using assms by (simp add: window_chunk_def)
next
  case (Cons w ws)
  have sub: "set (w # ws) \<subseteq> set (u_words u)" unfolding Cons [symmetric] by auto
  have win: "list_all (in_window win_start (win_start + WINDOW_MS)) (w # ws)"
    unfolding Cons [symmetric] using assms(1) by (auto simp: list_all_iff in_window_def)
  have c: "c = \<lparr>pc_start_ms = w_start_ms w, pc_end_ms = fold max (map w_end_ms ws) (w_end_ms w),
            pc_local_idx = u_local_idx u, pc_text = join [32] (map w_text (w # ws))\<rparr>"
    using assms(2) Cons by (simp add: window_chunk_def)
  show ?thesis unfolding chunk_of_def Cons using sub win by (auto simp: c fold_max_Max)
qed

lemma window_loop_chunks:
  "c \<in> set (window_loop u s) \<Longrightarrow> \<exists>ws. chunk_of u ws c"
proof (induction u s rule: window_loop.induct)
  case (1 u s)
  let ?e = "min (s + WINDOW_MS) (u_end_ms u)"
  have s: "s < u_end_ms u" using "1.prems" by (subst (asm) window_loop.simps) (auto split: if_splits)
  consider "c \<in> set (window_chunk u s ?e)"
    | "\<not> ?e \<ge> u_end_ms u" "c \<in> set (window_loop u (?e - WINDOW_OVERLAP_MS))"
    using "1.prems" s by (subst (asm) window_loop.simps) (auto simp: Let_def split: if_splits)
  then show ?case
  proof cases
    case 1
    then show ?thesis using window_chunk_words [of ?e s c u] by auto
  next
    case 2
    then show ?thesis using "1.IH" [of ?e] s by auto
  qed
qed

lemma window_loop_covers:
  assumes "w \<in> set (u_words u)" "w_start_ms w \<le> w_end_ms w" "w_start_ms w < u_end_ms u"
    "s < w_end_ms w" "s < u_end_ms u"
  shows "\<exists>c \<in> set (window_loop u s). \<exists>ws. chunk_of u ws c \<and> w \<in> set ws"
  using assms
proof (induction u s rule: window_loop.induct)
  case (1 u s)
  let ?e = "min (s + WINDOW_MS) (u_end_ms u)"
  let ?more = "if ?e \<ge> u_end_ms u then [] else window_loop u (?e - WINDOW_OVERLAP_MS)"
  have step: "window_loop u s = window_chunk u s ?e @ ?more"
    using "1.prems"(5) by (subst window_loop.simps) (simp add: Let_def)
  show ?case
  proof (cases "w_start_ms w < ?e")
    case True
    then have w: "w \<in> set (filter (in_window s ?e) (u_words u))"
      using "1.prems" by (simp add: in_window_def)
    then obtain c where c: "c \<in> set (window_chunk u s ?e)"
      by (cases "filter (in_window s ?e) (u_words u)") (auto simp: window_chunk_def)
    have "chunk_of u (filter (in_window s ?e) (u_words u)) c"
      by (rule window_chunk_words [OF _ c]) simp
    moreover have "c \<in> set (window_loop u s)" using c unfolding step by simp
    ultimately show ?thesis using w by blast
  next
    case False
    then have e: "\<not> ?e \<ge> u_end_ms u" "?e \<le> w_start_ms w" using "1.prems"(3) by auto
    moreover have "?e - WINDOW_OVERLAP_MS < w_end_ms w"
      using e(2) "1.prems"(2) by (simp add: WINDOW_OVERLAP_MS_def)
    moreover have "?e - WINDOW_OVERLAP_MS < u_end_ms u" using e(1) by (simp add: WINDOW_OVERLAP_MS_def)
    ultimately have "\<exists>c \<in> set (window_loop u (?e - WINDOW_OVERLAP_MS)). \<exists>ws. chunk_of u ws c \<and> w \<in> set ws"
      using "1.IH" [of ?e] "1.prems" by simp
    then show ?thesis using step e(1) by auto
  qed
qed

text \<open>
  The windows of a long utterance end, and lose no speech: every word that meets the utterance's
  span is in the text of a chunk, and every chunk is made of words of the utterance that all meet
  one window of 45 s, with the speaker, first start and latest end of those words.
\<close>

theorem window_utterance_covers:
  assumes "w \<in> set (u_words u)" and "w_start_ms w \<le> w_end_ms w"
    and "u_start_ms u < w_end_ms w" and "w_start_ms w < u_end_ms u" and "u_start_ms u < u_end_ms u"
  shows "(\<exists>c \<in> set (window_utterance u). \<exists>ws. chunk_of u ws c \<and> w \<in> set ws) \<and>
    (\<forall>c \<in> set (window_utterance u). \<exists>ws. chunk_of u ws c)"
  using window_loop_covers [of w u "u_start_ms u"] window_loop_chunks assms
  by (auto simp: window_utterance_def)

definition demo_utterance :: utterance where
  "demo_utterance = \<lparr>u_id = 1, u_recording_id = 7, u_local_idx = Some 0, u_start_ms = 0, u_end_ms = 90000,
     u_text = lit ''a b'', u_words = [demo_word (lit ''a'') 0 500, demo_word (lit ''b'') 89000 90000],
     u_speaker_name = None\<rparr>"

theorem window_utterance_covers_witness:
  "\<exists>c \<in> set (window_utterance demo_utterance). \<exists>ws. chunk_of demo_utterance ws c \<and>
     demo_word (lit ''b'') 89000 90000 \<in> set ws"
  using window_utterance_covers [of "demo_word (lit ''b'') 89000 90000" demo_utterance]
  by (simp add: demo_utterance_def demo_word_def)

end
