(* ===== verification/Scribe_Stages.thy ===== *)
theory Scribe_Stages
  imports Scribe_Identity Scribe_Summarize Scribe_Chunks
begin

text \<open>
  The pipeline stages as steps on the database: \<open>stages/transcode.rs\<close>, \<open>transcribe.rs\<close>, \<open>merge.rs\<close>,
  \<open>embed.rs\<close>, \<open>transcribe_segment.rs\<close> (the diarize and summarize stages are in \<open>Scribe_Identity\<close> and
  \<open>Scribe_Summarize\<close>), and the dispatch \<open>run_stage\<close> of \<open>worker.rs\<close>.

  Everything outside the repository is in the record \<open>world\<close>: the file system and \<open>ffmpeg\<close>, the
  speech engine, the text embedder, the language-model server, JSON, Unicode tables and float
  arithmetic. A stage returns its result and the tables as it leaves them, also when it fails.
\<close>

record world =
  blobs :: rstr
  uuid_str :: "uuid \<Rightarrow> rstr"
  path_exists :: "rstr \<Rightarrow> bool"
  make_dir :: "rstr \<Rightarrow> unit res"
  write_file :: "rstr \<Rightarrow> rstr \<Rightarrow> unit res"
  ffmpeg :: "rstr \<Rightarrow> rstr \<Rightarrow> bool option"
  wav_ms :: "rstr \<Rightarrow> int res"
  transcribe :: "rstr \<Rightarrow> (rstr \<times> word_rec list) res"
  diarize :: "rstr \<Rightarrow> int option \<Rightarrow> diarization res"
  embedder_ready :: "unit res"
  embedder :: "rstr list \<Rightarrow> f32 list list res"
  chat :: chat_fun
  parse_json :: "rstr \<Rightarrow> json option"
  print_json :: "json \<Rightarrow> rstr"
  parse_corrections :: "rstr \<Rightarrow> correction list option"
  is_alphanumeric :: "codepoint \<Rightarrow> bool"
  floats :: f32_ops

record config =
  asr :: asr_config
  llm :: llm_config
  ident_env :: identity_env

section \<open>Transcode\<close>

text \<open>One line of the concat list: a single quote in the path is closed, escaped and reopened.\<close>

definition escape_quotes :: "rstr \<Rightarrow> rstr" where
  "escape_quotes p = concat (map (\<lambda>c. if c = 39 then [39, 92, 39, 39] else [c]) p)"

definition concat_list :: "rstr list \<Rightarrow> rstr" where
  "concat_list inputs = concat (map (\<lambda>p. lit ''file '' @ [39] @ escape_quotes p @ [39, 10]) inputs)"

text \<open>\<open>ffmpeg\<close> answers \<open>None\<close> when it cannot be started, else whether it exited with success.\<close>

definition transcode_to_wav :: "world \<Rightarrow> rstr \<Rightarrow> rstr list \<Rightarrow> rstr \<Rightarrow> unit res" where
  "transcode_to_wav W dir inputs out =
     (case make_dir W dir of
        Inl e \<Rightarrow> Inl e
      | Inr _ \<Rightarrow>
     (case write_file W (path_join dir (lit ''concat.txt'')) (concat_list inputs) of
        Inl e \<Rightarrow> Inl e
      | Inr _ \<Rightarrow>
     (case ffmpeg W (concat_list inputs) out of
        None \<Rightarrow> Inl Pipeline
      | Some False \<Rightarrow> Inl Pipeline
      | Some True \<Rightarrow> if path_exists W out then Inr () else Inl Pipeline)))"

definition transcode_inputs :: "world \<Rightarrow> segment list \<Rightarrow> rstr list" where
  "transcode_inputs W segs = map (\<lambda>s. resolve_key (blobs W) (seg_storage_key s)) segs"

definition transcode_ready :: "world \<Rightarrow> uuid \<Rightarrow> db \<Rightarrow> unit res" where
  "transcode_ready W rid d =
     (let wav = wav_path (uuid_str W) (blobs W) rid;
          segs = list_segments_by_recording d rid
      in if segs = [] then (if path_exists W wav then Inr () else Inl Pipeline)
         else if \<not> list_all (path_exists W) (transcode_inputs W segs) then Inl Pipeline
         else transcode_to_wav W (recording_dir (uuid_str W) (blobs W) rid) (transcode_inputs W segs) wav)"

definition transcode_run :: "world \<Rightarrow> uuid \<Rightarrow> db \<Rightarrow> unit res \<times> db" where
  "transcode_run W rid d =
     (let wav = wav_path (uuid_str W) (blobs W) rid
      in case transcode_ready W rid d of
           Inl e \<Rightarrow> (Inl e, d)
         | Inr _ \<Rightarrow>
         (case set_recording_storage_key rid (storage_key (uuid_str W) rid) d of
            Inl e \<Rightarrow> (Inl e, d)
          | Inr d1 \<Rightarrow>
          (case wav_ms W wav of
             Inl e \<Rightarrow> (Inl e, d1)
           | Inr ms \<Rightarrow>
               (case set_recording_duration rid ms d1 of Inl e \<Rightarrow> (Inl e, d1) | Inr d2 \<Rightarrow> (Inr (), d2)))))"

section \<open>Transcribe\<close>

definition transcribe_run :: "world \<Rightarrow> timestamp \<Rightarrow> uuid \<Rightarrow> db \<Rightarrow> unit res \<times> db" where
  "transcribe_run W now rid d =
     (let wav = wav_path (uuid_str W) (blobs W) rid in
      if \<not> path_exists W wav then (Inl Pipeline, d)
      else case transcribe W wav of
        Inl e \<Rightarrow> (Inl Pipeline, d)
      | Inr (txt, ws) \<Rightarrow>
          (case put_transcript now rid txt (map (\<lambda>w. w\<lparr>w_local_idx := None\<rparr>) ws) d of
             Inl e \<Rightarrow> (Inl e, d) | Inr d' \<Rightarrow> (Inr (), d')))"

section \<open>Merge\<close>

definition merged_words :: "world \<Rightarrow> config \<Rightarrow> word_rec list \<Rightarrow> turn_artifact list \<Rightarrow> word_rec list" where
  "merged_words W cfg ws turns =
     assign_speakers turns
       (snd (clean (is_alphanumeric W) (filler_from_config (is_alphanumeric W) (asr cfg)) ws))"

definition merge_run :: "world \<Rightarrow> config \<Rightarrow> uuid \<Rightarrow> db \<Rightarrow> unit res \<times> db" where
  "merge_run W cfg rid d =
     (case get_transcript d rid of
        Inl e \<Rightarrow> (Inl e, d)
      | Inr (txt, ws0) \<Rightarrow>
      (case get_diarization d rid of
         Inl e \<Rightarrow> (Inl e, d)
       | Inr (turns, n) \<Rightarrow>
           let ws = merged_words W cfg ws0 turns;
               us = group_into_utterances ws;
               names = map snd (list_recording_speakers d rid);
               us' = (if correct_transcript (llm cfg)
                      then snd (correct_names (chat W) (parse_corrections W) (summarize_model (llm cfg)) names us)
                      else us);
               d1 = delete_utterances_by_recording rid d
           in case insert_utterances rid (map to_new_utterance us') d1 of
                Inl e \<Rightarrow> (Inl e, d1)
              | Inr (inserted, d2) \<Rightarrow>
                  if inserted = 0 \<and> ws \<noteq> [] then (Inl Pipeline, d2) else (Inr (), d2)))"

section \<open>Embed\<close>

definition embed_run :: "world \<Rightarrow> uuid \<Rightarrow> db \<Rightarrow> unit res \<times> db" where
  "embed_run W rid d =
     (let pending = build_chunks (list_utterances_by_recording d rid) in
      if pending = [] then (Inr (), delete_chunks_by_recording rid d)
      else case embedder W (map pc_text pending) of
        Inl e \<Rightarrow> (Inl e, d)
      | Inr vectors \<Rightarrow>
          if length vectors \<noteq> length pending then (Inl Pipeline, d)
          else let new = map (\<lambda>(c, v). \<lparr>c_recording_id = rid, c_start_ms = Some (pc_start_ms c),
                              c_end_ms = Some (pc_end_ms c), c_local_idx = pc_local_idx c,
                              c_text = pc_text c, c_embedding = v\<rparr>) (zip pending vectors);
                   d1 = delete_chunks_by_recording rid d
               in case insert_chunks rid new d1 of
                    Inl e \<Rightarrow> (Inl e, d1) | Inr (_, d2) \<Rightarrow> (Inr (), d2))"

section \<open>Live transcription\<close>

datatype stage_exit = Finished "unit res" | Panicked

definition shift_word :: "int \<Rightarrow> word_rec \<Rightarrow> word_rec" where
  "shift_word offset w =
     w\<lparr>w_start_ms := w_start_ms w + offset, w_end_ms := w_end_ms w + offset, w_local_idx := None\<rparr>"

definition segment_wav :: "world \<Rightarrow> uuid \<Rightarrow> segment \<Rightarrow> rstr" where
  "segment_wav W rid s =
     path_join (recording_dir (uuid_str W) (blobs W) rid) (lit ''seg-'' @ show_int_06 (seg_seq s) @ lit ''.wav'')"

definition segment_words :: "world \<Rightarrow> config \<Rightarrow> int \<Rightarrow> word_rec list \<Rightarrow> word_rec list" where
  "segment_words W cfg offset ws =
     snd (clean (is_alphanumeric W) (filler_from_config (is_alphanumeric W) (asr cfg)) (map (shift_word offset) ws))"

fun live_segments ::
  "world \<Rightarrow> config \<Rightarrow> timestamp \<Rightarrow> uuid \<Rightarrow> int \<Rightarrow> segment list \<Rightarrow> db \<Rightarrow> unit res \<times> db" where
  "live_segments W cfg now rid offset [] d = (Inr (), d)"
| "live_segments W cfg now rid offset (s # ss) d =
     (let seg_path = resolve_key (blobs W) (seg_storage_key s); wav = segment_wav W rid s in
      if \<not> path_exists W seg_path then live_segments W cfg now rid offset ss d
      else case transcode_to_wav W (recording_dir (uuid_str W) (blobs W) rid) [seg_path] wav of
        Inl e \<Rightarrow> (Inl e, d)
      | Inr _ \<Rightarrow>
      (case wav_ms W wav of
         Inl e \<Rightarrow> (Inl Pipeline, d)
       | Inr duration \<Rightarrow>
       (case transcribe W wav of
          Inl e \<Rightarrow> (Inl Pipeline, d)
        | Inr (txt, ws) \<Rightarrow>
        (case insert_utterances rid
                (map to_new_utterance (group_into_utterances (segment_words W cfg offset ws))) d of
           Inl e \<Rightarrow> (Inl e, d)
         | Inr (_, d1) \<Rightarrow>
             live_segments W cfg now rid (offset + duration) ss
               (mark_segment_transcribed now (seg_id s) offset duration d1)))))"

definition transcribe_segment_run ::
  "world \<Rightarrow> config \<Rightarrow> timestamp \<Rightarrow> uuid \<Rightarrow> db \<Rightarrow> stage_exit \<times> db" where
  "transcribe_segment_run W cfg now rid d =
     (case get_recording d rid of
        Inl e \<Rightarrow> (Finished (Inl e), d)
      | Inr r \<Rightarrow>
          if rec_status r \<noteq> Uploading then (Finished (Inr ()), d)
          else let segs = list_untranscribed_segments d rid in
          if segs = [] then (Finished (Inr ()), d)
          else case live_segments W cfg now rid (unwrap_or (max_transcribed_end_ms d rid) 0) segs d of
            (Inl e, d1) \<Rightarrow> (Finished (Inl e), d1)
          | (Inr _, d1) \<Rightarrow>
              (case regenerate (chat W) (llm cfg) rid d1 of
                 None \<Rightarrow> (Panicked, d1)
               | Some d2 \<Rightarrow> (Finished (Inr ()), d2)))"

section \<open>Dispatch\<close>

definition summarize_template :: "llm_config \<Rightarrow> json \<Rightarrow> rstr" where
  "summarize_template cfg payload =
     (case Option.bind (json_get payload (lit ''template'')) json_as_str of
        Some t \<Rightarrow> if trim t \<noteq> [] then trim t
                  else if trim (default_template cfg) \<noteq> [] then trim (default_template cfg)
                  else DEFAULT_TEMPLATE_ID
      | None \<Rightarrow> if trim (default_template cfg) \<noteq> [] then trim (default_template cfg) else DEFAULT_TEMPLATE_ID)"

definition finished :: "unit res \<times> db \<Rightarrow> stage_exit \<times> db" where
  "finished r = (Finished (fst r), snd r)"

definition run_stage ::
  "world \<Rightarrow> config \<Rightarrow> timestamp \<Rightarrow> job_kind \<Rightarrow> uuid \<Rightarrow> json \<Rightarrow> db \<Rightarrow> stage_exit \<times> db" where
  "run_stage W cfg now kind rid payload d =
     (case kind of
        Transcode \<Rightarrow> finished (transcode_run W rid d)
      | Diarize \<Rightarrow> finished (diarize_run (floats W) (ident_env cfg) (path_exists W) (diarize W)
                    (wav_path (uuid_str W) (blobs W) rid) now rid d)
      | Transcribe \<Rightarrow> finished (transcribe_run W now rid d)
      | Merge \<Rightarrow> finished (merge_run W cfg rid d)
      | Embed \<Rightarrow> (case embedder_ready W of Inl e \<Rightarrow> (Finished (Inl e), d) | Inr _ \<Rightarrow> finished (embed_run W rid d))
      | Summarize \<Rightarrow> finished (summarize_run (chat W) (parse_json W) (print_json W) (llm cfg) now rid
                      (summarize_template (llm cfg) payload) d)
      | TranscribeSegment \<Rightarrow> transcribe_segment_run W cfg now rid d)"

section \<open>A stage that is abandoned\<close>

text \<open>
  A stage is a future: dropped, it stops at an \<^verbatim>\<open>await\<close>, and keeps what its statements have already
  committed. \<open>stage_states\<close> lists the tables after each statement that a stage commits, in order; the last
  of them is the state \<^const>\<open>run_stage\<close> leaves (\<open>stage_states_last\<close>). The live stage bypasses the
  schedule and is never dropped.
\<close>

definition transcode_states :: "world \<Rightarrow> uuid \<Rightarrow> db \<Rightarrow> db list" where
  "transcode_states W rid d =
     (case transcode_ready W rid d of
        Inl e \<Rightarrow> []
      | Inr _ \<Rightarrow>
      (case set_recording_storage_key rid (storage_key (uuid_str W) rid) d of
         Inl e \<Rightarrow> []
       | Inr d1 \<Rightarrow> d1 #
         (case wav_ms W (wav_path (uuid_str W) (blobs W) rid) of
            Inl e \<Rightarrow> []
          | Inr ms \<Rightarrow> (case set_recording_duration rid ms d1 of Inl e \<Rightarrow> [] | Inr d2 \<Rightarrow> [d2]))))"

definition merge_states :: "world \<Rightarrow> config \<Rightarrow> uuid \<Rightarrow> db \<Rightarrow> db list" where
  "merge_states W cfg rid d =
     (case get_transcript d rid of
        Inl e \<Rightarrow> []
      | Inr _ \<Rightarrow>
      (case get_diarization d rid of
         Inl e \<Rightarrow> []
       | Inr _ \<Rightarrow> [delete_utterances_by_recording rid d, snd (merge_run W cfg rid d)]))"

definition embed_states :: "world \<Rightarrow> uuid \<Rightarrow> db \<Rightarrow> db list" where
  "embed_states W rid d =
     (let pending = build_chunks (list_utterances_by_recording d rid) in
      if pending = [] then [delete_chunks_by_recording rid d]
      else case embedder W (map pc_text pending) of
        Inl e \<Rightarrow> []
      | Inr vectors \<Rightarrow>
          if length vectors \<noteq> length pending then []
          else [delete_chunks_by_recording rid d, snd (embed_run W rid d)])"

fun store_states :: "uuid \<Rightarrow> (int \<times> f32 list) list \<Rightarrow> (int \<times> uuid \<times> f32) list \<Rightarrow> int list \<Rightarrow> db \<Rightarrow> db list" where
  "store_states rid embs ids [] d = []"
| "store_states rid embs ids (i # is) d =
     (case upsert_recording_speaker rid i (map_option fst (map_of ids i)) (map_of embs i) d of
        Inl e \<Rightarrow> []
      | Inr d' \<Rightarrow> d' # store_states rid embs ids is d')"

definition diarize_states ::
  "f32_ops \<Rightarrow> identity_env \<Rightarrow> (rstr \<Rightarrow> bool) \<Rightarrow> (rstr \<Rightarrow> int option \<Rightarrow> diarization res) \<Rightarrow> rstr \<Rightarrow>
     timestamp \<Rightarrow> uuid \<Rightarrow> db \<Rightarrow> db list" where
  "diarize_states F env exists engine wav now rid d =
     (if \<not> exists wav then []
      else case get_recording d rid of
        Inl e \<Rightarrow> []
      | Inr r \<Rightarrow>
      (case engine wav (rec_participants_expected r) of
         Inl e \<Rightarrow> []
       | Inr dz \<Rightarrow>
           let spk = sort (remdups (map t_local_idx (dz_turns dz)));
               voices = List.map_filter (\<lambda>i. map_option (\<lambda>e. (i, e)) (map_of (dz_embeddings dz) i)) spk;
               ids = resolve_identities F env voices (list_enrolled_voiceprints d) (enroll_match_threshold env)
           in store_states rid (dz_embeddings dz) ids spk d @
              (case store_speakers rid (dz_embeddings dz) ids spk d of
                 (Inl e, d1) \<Rightarrow> []
               | (Inr _, d1) \<Rightarrow>
                   [snd (prune_recording_speakers rid spk d1), snd (diarize_run F env exists engine wav now rid d)])))"

definition summarize_states ::
  "chat_fun \<Rightarrow> (rstr \<Rightarrow> json option) \<Rightarrow> (json \<Rightarrow> rstr) \<Rightarrow> llm_config \<Rightarrow> timestamp \<Rightarrow> uuid \<Rightarrow> rstr \<Rightarrow>
     db \<Rightarrow> db list" where
  "summarize_states llm_chat parse print cfg now rid template d =
     (let names = speaker_names d rid;
          transcript = render_transcript (list_utterances_by_recording d rid) names in
      case resolve template of
        None \<Rightarrow> []
      | Some tmpl \<Rightarrow>
          let body = summary_body llm_chat cfg transcript;
              parsed = summarize_reply llm_chat parse print cfg
                         (summary_prompt tmpl (participant_line names) body)
          in case upsert_summary now rid (ps_title parsed) (ps_summary parsed) (ps_action_items parsed)
                   (ps_topics parsed) (ps_decisions parsed) (Some (summarize_model cfg)) (Some (tmpl_id tmpl)) d of
               Inl e \<Rightarrow> []
             | Inr d' \<Rightarrow> [d', snd (summarize_run llm_chat parse print cfg now rid template d)])"

definition stage_states :: "world \<Rightarrow> config \<Rightarrow> timestamp \<Rightarrow> job_kind \<Rightarrow> uuid \<Rightarrow> json \<Rightarrow> db \<Rightarrow> db list" where
  "stage_states W cfg now kind rid payload d =
     (case kind of
        Transcode \<Rightarrow> transcode_states W rid d
      | Diarize \<Rightarrow> diarize_states (floats W) (ident_env cfg) (path_exists W) (diarize W)
                    (wav_path (uuid_str W) (blobs W) rid) now rid d
      | Transcribe \<Rightarrow> [snd (transcribe_run W now rid d)]
      | Merge \<Rightarrow> merge_states W cfg rid d
      | Embed \<Rightarrow> (case embedder_ready W of Inl e \<Rightarrow> [] | Inr _ \<Rightarrow> embed_states W rid d)
      | Summarize \<Rightarrow> summarize_states (chat W) (parse_json W) (print_json W) (llm cfg) now rid
                      (summarize_template (llm cfg) payload) d
      | TranscribeSegment \<Rightarrow> [snd (transcribe_segment_run W cfg now rid d)])"

text \<open>The tables when the stage is dropped after \<open>n\<close> of its statements.\<close>

definition stage_dropped ::
  "world \<Rightarrow> config \<Rightarrow> timestamp \<Rightarrow> nat \<Rightarrow> job_kind \<Rightarrow> uuid \<Rightarrow> json \<Rightarrow> db \<Rightarrow> db" where
  "stage_dropped W cfg now n kind rid payload d = last (d # take n (stage_states W cfg now kind rid payload d))"

lemma store_states_last: "snd (store_speakers rid embs ids is d) = last (d # store_states rid embs ids is d)"
  by (induction rid embs ids "is" d rule: store_speakers.induct) (auto split: sum.split)

lemma stage_states_last:
  "snd (run_stage W cfg now kind rid payload d) = last (d # stage_states W cfg now kind rid payload d)"
proof (cases kind)
  case Transcode
  then show ?thesis
    by (simp add: run_stage_def finished_def stage_states_def transcode_states_def transcode_run_def Let_def split: sum.split)
next
  case Diarize
  have s: "store_speakers rid e i ks d = (x, d1) \<Longrightarrow> store_states rid e i ks d \<noteq> [] \<Longrightarrow> last (store_states rid e i ks d) = d1"
    "store_speakers rid e i ks d = (x, d1) \<Longrightarrow> store_states rid e i ks d = [] \<Longrightarrow> d1 = d" for e i ks x d1
    using store_states_last [of rid e i ks d] by simp_all
  show ?thesis
    by (auto simp: Diarize run_stage_def finished_def stage_states_def diarize_states_def diarize_run_def Let_def
        dest: s split: sum.split prod.split)
next
  case Merge
  then show ?thesis
    by (auto simp: run_stage_def finished_def stage_states_def merge_states_def merge_run_def Let_def split: sum.split)
next
  case Embed
  then show ?thesis
    by (auto simp: run_stage_def finished_def stage_states_def embed_states_def embed_run_def Let_def split: sum.split)
next
  case Summarize
  then show ?thesis
    by (auto simp: run_stage_def finished_def stage_states_def summarize_states_def summarize_run_def Let_def
        split: sum.split option.split)
qed (simp_all add: run_stage_def finished_def stage_states_def)

section \<open>No stage touches the queue\<close>

text \<open>What the worker relies on: jobs, their sequence, and each recording's id and status stay.\<close>

definition keeps_queue :: "db \<Rightarrow> db \<Rightarrow> bool" where
  "keeps_queue d d' \<longleftrightarrow> jobs d' = jobs d \<and> next_job_id d' = next_job_id d \<and>
     map (\<lambda>r. (rec_id r, rec_status r)) (recordings d') = map (\<lambda>r. (rec_id r, rec_status r)) (recordings d)"

lemma keeps_queue_refl [simp]: "keeps_queue d d"
  by (simp add: keeps_queue_def)

lemma keeps_queue_trans: "keeps_queue a b \<Longrightarrow> keeps_queue b c \<Longrightarrow> keeps_queue a c"
  by (simp add: keeps_queue_def)

lemma keeps_queue_has_recording: "keeps_queue d d' \<Longrightarrow> has_recording d' rid = has_recording d rid"
proof -
  assume "keeps_queue d d'"
  then have "map fst (map (\<lambda>r. (rec_id r, rec_status r)) (recordings d')) =
      map fst (map (\<lambda>r. (rec_id r, rec_status r)) (recordings d))" by (simp add: keeps_queue_def)
  then have "map rec_id (recordings d') = map rec_id (recordings d)" by (simp add: o_def)
  then show ?thesis unfolding has_recording_def by (metis list.set_map)
qed

lemma keeps_update_recording:
  "update_recording rid f d = Inr d' \<Longrightarrow> (\<And>r. rec_id (f r) = rec_id r \<and> rec_status (f r) = rec_status r) \<Longrightarrow>
     keeps_queue d d'"
  by (auto simp: update_recording_cases keeps_queue_def map_update_where split: if_splits)

lemma keeps_storage_key: "set_recording_storage_key rid k d = Inr d' \<Longrightarrow> keeps_queue d d'"
  unfolding set_recording_storage_key_def by (erule keeps_update_recording) simp

lemma keeps_duration: "set_recording_duration rid k d = Inr d' \<Longrightarrow> keeps_queue d d'"
  unfolding set_recording_duration_def by (erule keeps_update_recording) simp

lemma keeps_title_auto [simp]: "keeps_queue d (snd (set_recording_title_auto rid t d))"
  by (simp add: set_recording_title_auto_def keeps_queue_def map_update_where)

lemma keeps_put_artifact: "put_artifact now rid k x d = Inr d' \<Longrightarrow> keeps_queue d d'"
  by (auto simp: put_artifact_def keeps_queue_def Let_def split: if_splits)

lemma keeps_insert_utterances: "insert_utterances rid us d = Inr (n, d') \<Longrightarrow> keeps_queue d d'"
  by (auto simp: insert_utterances_def keeps_queue_def split: if_splits)

lemma keeps_insert_chunks: "insert_chunks rid cs d = Inr (n, d') \<Longrightarrow> keeps_queue d d'"
  by (auto simp: insert_chunks_def keeps_queue_def split: if_splits)

lemma keeps_deletes [simp]:
  "keeps_queue d (delete_utterances_by_recording rid d)" "keeps_queue d (delete_chunks_by_recording rid d)"
  "keeps_queue d (snd (prune_recording_speakers rid ks d))" "keeps_queue d (mark_segment_transcribed now sid a b d)"
  by (simp_all add: keeps_queue_def delete_utterances_by_recording_def delete_chunks_by_recording_def
      prune_recording_speakers_def mark_segment_transcribed_def Let_def)

lemma keeps_upsert_summary:
  "upsert_summary now rid a b c e f g h d = Inr d' \<Longrightarrow> keeps_queue d d'"
  by (auto simp: upsert_summary_def keeps_queue_def Let_def split: if_splits)

lemma keeps_store_speakers: "keeps_queue d (snd (store_speakers rid embs ids is d))"
proof (induction rid embs ids "is" d rule: store_speakers.induct)
  case (2 rid embs ids i "is" d)
  show ?case
  proof (cases "upsert_recording_speaker rid i (map_option fst (map_of ids i)) (map_of embs i) d")
    case (Inr d1)
    then have "keeps_queue d d1"
      by (auto simp: upsert_recording_speaker_def keeps_queue_def Let_def split: if_splits)
    then show ?thesis using 2 [OF Inr] Inr by (auto intro: keeps_queue_trans)
  qed simp
qed simp

lemmas keeps_intros =
  keeps_storage_key keeps_duration keeps_put_artifact keeps_insert_utterances keeps_insert_chunks
  keeps_upsert_summary

lemma transcode_keeps: "keeps_queue d (snd (transcode_run W rid d))"
  by (auto simp: transcode_run_def Let_def split: sum.splits intro: keeps_queue_trans keeps_intros)

lemma transcribe_keeps: "keeps_queue d (snd (transcribe_run W now rid d))"
  by (auto simp: transcribe_run_def put_transcript_def Let_def split: sum.splits prod.splits intro: keeps_intros)

lemma diarize_keeps: "keeps_queue d (snd (diarize_run F env ex dz wav now rid d))"
proof -
  have prune: "prune_recording_speakers rid ks d1 = (n, d2) \<Longrightarrow> keeps_queue d1 d2" for ks d1 n d2
    using keeps_deletes(3) [of d1 rid ks] by simp
  have store: "store_speakers rid e i ks d = (x, d1) \<Longrightarrow> keeps_queue d d1" for e i ks x d1
    using keeps_store_speakers [of d rid e i ks] by simp
  show ?thesis
    by (auto simp: diarize_run_def put_diarization_def Let_def split: sum.splits prod.splits
        dest!: store prune intro: keeps_queue_trans keeps_intros)
qed

lemma merge_keeps: "keeps_queue d (snd (merge_run W cfg rid d))"
  by (auto simp: merge_run_def Let_def split: sum.splits prod.splits
      intro: keeps_queue_trans [OF keeps_deletes(1)] keeps_intros)

lemma embed_keeps: "keeps_queue d (snd (embed_run W rid d))"
  by (auto simp: embed_run_def Let_def split: sum.splits prod.splits
      intro: keeps_queue_trans [OF keeps_deletes(2)] keeps_intros)

lemma summarize_keeps: "keeps_queue d (snd (summarize_run c pj pr l now rid t d))"
  by (auto simp: summarize_run_def Let_def split: sum.splits option.splits
      intro: keeps_queue_trans [OF _ keeps_title_auto] keeps_intros)

lemma live_segments_keeps: "keeps_queue d (snd (live_segments W cfg now rid offset ss d))"
proof (induction ss arbitrary: offset d)
  case (Cons s ss)
  have ins: "keeps_queue d (snd (live_segments W cfg now rid o' ss (mark_segment_transcribed now (seg_id s) a b d1)))"
    if "insert_utterances rid us d = Inr (n, d1)" for us n d1 o' a b
    using that Cons.IH by (meson keeps_deletes(4) keeps_insert_utterances keeps_queue_trans)
  show ?case using Cons.IH
    by (auto simp: Let_def split: sum.splits prod.splits intro: ins)
qed simp

lemma regenerate_keeps: "regenerate c l rid d = Some d' \<Longrightarrow> keeps_queue d d'"
  by (auto simp: regenerate_def Let_def split: if_splits option.splits sum.splits)

lemma transcribe_segment_keeps: "keeps_queue d (snd (transcribe_segment_run W cfg now rid d))"
proof -
  have live: "live_segments W cfg now rid o' ss d = (x, d1) \<Longrightarrow> keeps_queue d d1" for o' ss x d1
    using live_segments_keeps [of d W cfg now rid o' ss] by simp
  show ?thesis
    by (auto simp: transcribe_segment_run_def Let_def split: sum.splits prod.splits option.splits
        dest!: live intro: keeps_queue_trans regenerate_keeps)
qed

lemma run_stage_keeps: "keeps_queue d (snd (run_stage W cfg now kind rid payload d))"
  by (cases kind)
    (simp_all add: run_stage_def finished_def transcode_keeps transcribe_keeps diarize_keeps merge_keeps
      embed_keeps summarize_keeps transcribe_segment_keeps split: sum.split)

text \<open>Nor does a stage that is dropped half-way.\<close>

lemma store_states_keep: "e \<in> set (store_states rid embs ids is d) \<Longrightarrow> keeps_queue d e"
proof (induction rid embs ids "is" d rule: store_states.induct)
  case (2 rid embs ids i "is" d)
  show ?case
  proof (cases "upsert_recording_speaker rid i (map_option fst (map_of ids i)) (map_of embs i) d")
    case (Inr d1)
    then have "keeps_queue d d1"
      by (auto simp: upsert_recording_speaker_def keeps_queue_def Let_def split: if_splits)
    moreover have "e = d1 \<or> e \<in> set (store_states rid embs ids is d1)" using "2.prems" Inr by simp
    ultimately show ?thesis using "2.IH" [OF Inr] by (auto intro: keeps_queue_trans)
  qed (use 2 in simp)
qed simp

lemma stage_states_keep:
  assumes "e \<in> set (stage_states W cfg now kind rid payload d)"
  shows "keeps_queue d e"
proof (cases kind)
  case Transcode
  have one: "keeps_queue d e" if "set_recording_storage_key rid k d = Inr d1" "e = d1 \<or> set_recording_duration rid ms d1 = Inr e" for k d1 ms
    using that by (auto intro: keeps_storage_key keeps_queue_trans [OF keeps_storage_key keeps_duration])
  show ?thesis using assms unfolding Transcode stage_states_def
    by (auto simp: transcode_states_def split: sum.splits intro: one one [OF sym])
next
  case Diarize
  have prune: "store_speakers rid es ids ks d = (x, d1) \<Longrightarrow> keeps_queue d (snd (prune_recording_speakers rid ks' d1))"
    for es ids ks x d1 ks'
    using keeps_store_speakers [of d rid es ids ks] by (auto intro: keeps_queue_trans)
  show ?thesis using assms unfolding Diarize stage_states_def
    by (auto simp: diarize_states_def Let_def split: if_splits sum.splits prod.splits
        intro: store_states_keep prune [OF sym] diarize_keeps)
next
  case Merge
  then show ?thesis using assms merge_keeps by (auto simp: stage_states_def merge_states_def split: sum.splits)
next
  case Embed
  then show ?thesis using assms embed_keeps
    by (auto simp: stage_states_def embed_states_def Let_def split: sum.splits if_splits)
next
  case Summarize
  then show ?thesis using assms summarize_keeps
    by (auto simp: stage_states_def summarize_states_def Let_def split: sum.splits option.splits intro: keeps_intros)
qed (use assms transcribe_keeps transcribe_segment_keeps in \<open>auto simp: stage_states_def\<close>)

lemma stage_dropped_keeps: "keeps_queue d (stage_dropped W cfg now n kind rid payload d)"
proof (cases "take n (stage_states W cfg now kind rid payload d) = []")
  case False
  then have "last (take n (stage_states W cfg now kind rid payload d)) \<in> set (stage_states W cfg now kind rid payload d)"
    by (meson in_set_takeD last_in_set)
  then show ?thesis using False stage_states_keep by (simp add: stage_dropped_def)
qed (simp add: stage_dropped_def)

section \<open>Merging a transcript loses no word\<close>

lemma words_number_utterances: "concat (map u_words (number_utterances rid i ns)) = concat (map n_words ns)"
  by (induction rid i ns rule: number_utterances.induct) simp_all

lemma rec_number_utterances: "u \<in> set (number_utterances rid i ns) \<Longrightarrow> u_recording_id u = rid"
  by (induction rid i ns rule: number_utterances.induct) auto

lemma group_words: "concat (map g_words (group_into_utterances ws)) = ws"
  using group_loop_sound [where out = "[]" and cur = None and prev_end = 0 and ws = ws]
  by (simp add: group_into_utterances_def)

lemma correct_names_words: "map g_words (snd (correct_names c p m ns us)) = map g_words us"
proof -
  have w: "map blank_text vs = map blank_text us \<Longrightarrow> map g_words vs = map g_words us" for vs
  proof -
    assume "map blank_text vs = map blank_text us"
    then have "map g_words (map blank_text vs) = map g_words (map blank_text us)" by simp
    then show ?thesis by (simp add: blank_text_def o_def)
  qed
  have "apply_corrections cs 0 us = (n, vs) \<Longrightarrow> map g_words vs = map g_words us" for cs n vs
    using apply_corrections_frame [of cs 0 us n vs] w by blast
  then show ?thesis
    by (auto simp: correct_names_def Let_def split: sum.splits option.splits) (metis prod.collapse)
qed

lemma merge_run_words:
  assumes "has_recording d rid" and "get_transcript d rid = Inr (txt0, ws)"
    and "get_diarization d rid = Inr (turns, n)"
  shows "\<exists>d'. merge_run W cfg rid d = (Inr (), d') \<and>
    concat (map u_words (filter (\<lambda>u. u_recording_id u = rid) (utterances d'))) =
      assign_speakers turns (snd (clean (is_alphanumeric W) (filler_from_config (is_alphanumeric W) (asr cfg)) ws)) \<and>
    filter (\<lambda>u. u_recording_id u \<noteq> rid) (utterances d') = filter (\<lambda>u. u_recording_id u \<noteq> rid) (utterances d) \<and>
    jobs d' = jobs d"
proof -
  let ?ws = "merged_words W cfg ws turns"
  let ?us = "group_into_utterances ?ws"
  let ?us' = "if correct_transcript (llm cfg) then snd (correct_names (chat W) (parse_corrections W)
      (summarize_model (llm cfg)) (map snd (list_recording_speakers d rid)) ?us) else ?us"
  have "map g_words ?us' = map g_words ?us" by (simp add: correct_names_words)
  then have words: "concat (map g_words ?us') = ?ws" by (simp add: group_words)
  let ?new = "map to_new_utterance ?us'"
  let ?d1 = "delete_utterances_by_recording rid d"
  let ?d2 = "if ?new = [] then ?d1 else ?d1\<lparr>utterances := utterances ?d1 @ number_utterances rid (next_utterance_id ?d1) ?new,
      next_utterance_id := next_utterance_id ?d1 + int (length ?new)\<rparr>"
  have hr: "has_recording ?d1 rid" using assms(1) by (simp add: has_recording_def delete_utterances_by_recording_def)
  have ins: "insert_utterances rid ?new ?d1 = Inr (length ?new, ?d2)"
    using hr unfolding insert_utterances_def by (auto simp: Let_def)
  have "?new = [] \<Longrightarrow> ?ws = []" using words by (metis concat.simps(1) list.simps(8) map_is_Nil_conv)
  then have run: "merge_run W cfg rid d = (Inr (), ?d2)"
    using assms(2,3) ins by (simp add: merge_run_def Let_def)
  have new: "concat (map n_words ?new) = ?ws"
    using words by (simp add: to_new_utterance_def o_def)
  have f: "filter (\<lambda>u. u_recording_id u = rid) (utterances ?d1) = []"
    "filter (\<lambda>u. u_recording_id u \<noteq> rid) (utterances ?d1) = filter (\<lambda>u. u_recording_id u \<noteq> rid) (utterances d)"
    by (auto simp: delete_utterances_by_recording_def delete_where_def filter_empty_conv)
  have g: "filter (\<lambda>u. u_recording_id u = rid) (number_utterances rid i ns) = number_utterances rid i ns"
    "filter (\<lambda>u. u_recording_id u \<noteq> rid) (number_utterances rid i ns) = []" for i ns
    by (auto simp: filter_id_conv filter_empty_conv dest: rec_number_utterances)
  have u2: "utterances ?d2 = utterances ?d1 @ number_utterances rid (next_utterance_id ?d1) ?new"
    by (cases "?new = []") (simp_all only: if_True if_False, simp_all)
  have "concat (map u_words (filter (\<lambda>u. u_recording_id u = rid) (utterances ?d2))) = ?ws"
    by (simp only: u2 filter_append f(1) g(1) append_Nil words_number_utterances new)
  moreover have "filter (\<lambda>u. u_recording_id u \<noteq> rid) (utterances ?d2) = filter (\<lambda>u. u_recording_id u \<noteq> rid) (utterances d)"
    by (simp only: u2 filter_append f(2) g(2) append_Nil2)
  moreover have "jobs ?d2 = jobs d" by (simp add: delete_utterances_by_recording_def)
  ultimately show ?thesis unfolding run by (simp add: merged_words_def)
qed


text \<open>A world in which every call succeeds with little, for evaluating instances.\<close>

definition blank_vector :: "nat \<Rightarrow> f32 list" where
  "blank_vector n = replicate n 0"

lemma length_blank_vector [simp]: "length (blank_vector n) = n"
  by (simp add: blank_vector_def)

definition demo_world :: world where
  "demo_world = \<lparr>blobs = lit ''/b'', uuid_str = (\<lambda>u. show_nat (unat u)), path_exists = (\<lambda>p. True),
     make_dir = (\<lambda>p. Inr ()), write_file = (\<lambda>p c. Inr ()), ffmpeg = (\<lambda>l p. Some True),
     wav_ms = (\<lambda>p. Inr 1000), transcribe = (\<lambda>p. Inr ([], [])), diarize = (\<lambda>p n. Inr demo_dz),
     embedder_ready = Inr (), embedder = (\<lambda>ts. Inr (map (\<lambda>t. blank_vector CHUNK_WIDTH) ts)), chat = (\<lambda>m ms. Inl Http),
     parse_json = (\<lambda>s. None), print_json = (\<lambda>v. []), parse_corrections = (\<lambda>s. None),
     is_alphanumeric = (\<lambda>c. 97 \<le> c \<and> c \<le> 122), floats = demo_ops\<rparr>"

definition demo_config :: config where
  "demo_config = \<lparr>asr = \<lparr>remove_fillers = True, filler_words = [lit ''um'']\<rparr>, llm = demo_llm, ident_env = demo_env\<rparr>"

definition transcribed_db :: db where
  "transcribed_db = sample_db\<lparr>artifacts :=
     [\<lparr>a_recording_id = 7, a_kind = KIND_TRANSCRIPT, a_data = TranscriptArtifact (lit ''um hi'')
         [demo_word (lit ''um'') 0 100, demo_word (lit ''hi'') 200 400], a_created_at = 0\<rparr>,
      \<lparr>a_recording_id = 7, a_kind = KIND_DIARIZATION, a_data = DiarizationArtifact [demo_turn 3 0 900] 1, a_created_at = 0\<rparr>]\<rparr>"


section \<open>Embedding is all or nothing\<close>

lemma embed_run_stores:
  assumes "has_recording d rid" "p = build_chunks (list_utterances_by_recording d rid)" "p \<noteq> []"
    "embedder W (map pc_text p) = Inr vs" "length vs = length p" "\<forall>v \<in> set vs. length v = CHUNK_WIDTH"
    "d1 = delete_chunks_by_recording rid d"
  obtains new where "map c_text new = map pc_text p" "\<forall>c \<in> set new. c_recording_id c = rid"
    "embed_run W rid d = (Inr (), d1\<lparr>chunks := chunks d1 @ new\<rparr>)"
proof -
  let ?new = "map (\<lambda>(c, v). \<lparr>c_recording_id = rid, c_start_ms = Some (pc_start_ms c),
      c_end_ms = Some (pc_end_ms c), c_local_idx = pc_local_idx c, c_text = pc_text c, c_embedding = v\<rparr>) (zip p vs)"
  have "has_recording d1 rid" using assms(1,7) by (simp add: has_recording_def delete_chunks_by_recording_def)
  moreover have "list_all (\<lambda>c. width_ok CHUNK_WIDTH (Some (c_embedding c))) ?new"
    using assms(6) by (auto simp: list_all_iff dest: set_zip_rightD)
  moreover have "?new \<noteq> []" using assms(3,5) by auto
  moreover have "map (\<lambda>c. c\<lparr>c_recording_id := rid\<rparr>) ?new = ?new" by (auto simp: case_prod_beta)
  ultimately have "insert_chunks rid ?new d1 = Inr (length ?new, d1\<lparr>chunks := chunks d1 @ ?new\<rparr>)"
    by (simp only: insert_chunks_def if_False not_True_eq_False simp_thms)
  then have "embed_run W rid d = (Inr (), d1\<lparr>chunks := chunks d1 @ ?new\<rparr>)"
    using assms by (simp add: embed_run_def Let_def)
  moreover have "map c_text ?new = map pc_text (map fst (zip p vs))" by (auto simp: case_prod_beta)
  then have "map c_text ?new = map pc_text p" using assms(5) by (simp del: map_map)
  moreover have "\<forall>c \<in> set ?new. c_recording_id c = rid" by auto
  ultimately show ?thesis by (rule that [rotated -1])
qed

lemma chunks_of_delete:
  "filter (\<lambda>c. c_recording_id c = rid) (chunks (delete_chunks_by_recording rid d)) = []"
  "filter (\<lambda>c. c_recording_id c \<noteq> rid) (chunks (delete_chunks_by_recording rid d)) = filter (\<lambda>c. c_recording_id c \<noteq> rid) (chunks d)"
  by (auto simp: delete_chunks_by_recording_def delete_where_def filter_empty_conv)

text \<open>
  With vectors of the width of the column, a failing embed stage leaves the recording's chunks untouched; when it succeeds they are
  exactly the chunks of the current transcript, one per pending chunk and in that order. The chunks
  of other recordings stay either way.
\<close>

theorem embed_run_all_or_nothing:
  assumes "has_recording d rid"
    and "\<And>vs v. embedder W (map pc_text (build_chunks (list_utterances_by_recording d rid))) = Inr vs \<Longrightarrow> v \<in> set vs \<Longrightarrow> length v = CHUNK_WIDTH"
  shows "case embed_run W rid d of
      (Inl e, d') \<Rightarrow> d' = d
    | (Inr u, d') \<Rightarrow>
        map c_text (filter (\<lambda>c. c_recording_id c = rid) (chunks d')) =
          map pc_text (build_chunks (list_utterances_by_recording d rid)) \<and>
        filter (\<lambda>c. c_recording_id c \<noteq> rid) (chunks d') = filter (\<lambda>c. c_recording_id c \<noteq> rid) (chunks d)"
proof -
  let ?p = "build_chunks (list_utterances_by_recording d rid)"
  consider "?p = []" | e where "?p \<noteq> []" "embedder W (map pc_text ?p) = Inl e"
    | vs where "?p \<noteq> []" "embedder W (map pc_text ?p) = Inr vs" "length vs \<noteq> length ?p"
    | vs where "?p \<noteq> []" "embedder W (map pc_text ?p) = Inr vs" "length vs = length ?p"
    by (cases "embedder W (map pc_text ?p)") auto
  then show ?thesis
  proof cases
    case 1
    then show ?thesis by (simp add: embed_run_def chunks_of_delete)
  next
    case (4 vs)
    obtain new where "map c_text new = map pc_text ?p" "\<forall>c \<in> set new. c_recording_id c = rid"
      "embed_run W rid d = (Inr (), (delete_chunks_by_recording rid d)\<lparr>chunks := chunks (delete_chunks_by_recording rid d) @ new\<rparr>)"
      using embed_run_stores [OF assms(1) refl 4 _ refl] assms(2) [OF 4(2)] by blast
    moreover from this have "filter (\<lambda>c. c_recording_id c = rid) new = new" "filter (\<lambda>c. c_recording_id c \<noteq> rid) new = []"
      by (auto simp: filter_id_conv filter_empty_conv)
    ultimately show ?thesis by (simp add: chunks_of_delete)
  qed (simp_all add: embed_run_def Let_def)
qed

theorem embed_run_all_or_nothing_witness:
  "\<exists>d'. embed_run demo_world 7 (sample_db\<lparr>utterances := [demo_utterance\<lparr>u_end_ms := 900\<rparr>]\<rparr>) = (Inr (), d') \<and>
     map c_text (filter (\<lambda>c. c_recording_id c = 7) (chunks d')) = [lit ''a b'']"
proof -
  let ?d = "sample_db\<lparr>utterances := [demo_utterance\<lparr>u_end_ms := 900\<rparr>]\<rparr>"
  have h: "has_recording ?d 7" by (simp add: has_recording_def sample_db_def sample_recording_def)
  have b: "map pc_text (build_chunks (list_utterances_by_recording ?d 7)) = [lit ''a b'']"
    by (simp add: list_utterances_by_recording_def utterance_from_row_def demo_utterance_def WINDOW_MS_def text_defs Let_def
        split: option.split)
  have ok: "\<exists>d'. embed_run demo_world 7 ?d = (Inr (), d')"
    using b h by (auto simp: embed_run_def demo_world_def insert_chunks_def has_recording_def
        delete_chunks_by_recording_def Let_def)
  then obtain d' where d': "embed_run demo_world 7 ?d = (Inr (), d')" by blast
  have "length v = CHUNK_WIDTH" if "embedder demo_world ts = Inr vs" "v \<in> set vs" for ts vs v
    using that by (auto simp: demo_world_def)
  from embed_run_all_or_nothing [OF h this, of demo_world] show ?thesis using d' b by auto
qed

text \<open>
  With a vector of another width the stage fails after it has deleted the old chunks: deleting and inserting
  are two statements, so the recording is left without any.
\<close>

lemma wrong_width_loses_chunks:
  assumes "has_recording d rid" and "build_chunks (list_utterances_by_recording d rid) \<noteq> []"
    and "embedder W (map pc_text (build_chunks (list_utterances_by_recording d rid))) = Inr vs"
    and "length vs = length (build_chunks (list_utterances_by_recording d rid))" and "v \<in> set vs" "length v \<noteq> CHUNK_WIDTH"
  shows "embed_run W rid d = (Inl Database, delete_chunks_by_recording rid d)"
proof -
  let ?p = "build_chunks (list_utterances_by_recording d rid)"
  define new where "new = map (\<lambda>(c, v). \<lparr>c_recording_id = rid, c_start_ms = Some (pc_start_ms c),
      c_end_ms = Some (pc_end_ms c), c_local_idx = pc_local_idx c, c_text = pc_text c, c_embedding = v\<rparr>) (zip ?p vs)"
  have "map c_embedding new = map snd (zip ?p vs)" unfolding new_def map_map by (rule map_cong) auto
  then have "map c_embedding new = vs" using assms(4) by simp
  then have "v \<in> c_embedding ` set new" using assms(5) by (metis list.set_map)
  then have "new \<noteq> []" "\<not> list_all (\<lambda>c. width_ok CHUNK_WIDTH (Some (c_embedding c))) new"
    using assms(6) by (auto simp: list_all_iff)
  then have "insert_chunks rid new (delete_chunks_by_recording rid d) = Inl Database"
    by (simp add: insert_chunks_def)
  then show ?thesis using assms(2-4) by (simp add: embed_run_def Let_def new_def)
qed

section \<open>A live pass transcribes what it can read\<close>

definition untranscribed :: "uuid \<Rightarrow> segment \<Rightarrow> bool" where
  "untranscribed rid s \<longleftrightarrow> seg_recording_id s = rid \<and> seg_transcribed_at s = None"

definition readable :: "world \<Rightarrow> segment \<Rightarrow> bool" where
  "readable W s \<longleftrightarrow> path_exists W (resolve_key (blobs W) (seg_storage_key s))"

lemma segments_insert_utterances: "insert_utterances rid us d = Inr (n, d') \<Longrightarrow> segments d' = segments d"
  by (auto simp: insert_utterances_def split: if_splits)

lemma untranscribed_mark:
  "filter (untranscribed rid) (segments (mark_segment_transcribed now sid a b d)) =
     filter (\<lambda>s. untranscribed rid s \<and> seg_id s \<noteq> sid) (segments d)"
proof -
  have "filter (untranscribed rid) (update_where (\<lambda>s. seg_id s = sid)
      (\<lambda>s. s\<lparr>seg_transcribed_at := Some now, seg_start_ms := Some a, seg_duration_ms := Some b\<rparr>) xs) =
    filter (\<lambda>s. untranscribed rid s \<and> seg_id s \<noteq> sid) xs" for xs
    by (induction xs) (auto simp: update_where_def untranscribed_def)
  then show ?thesis by (simp add: mark_segment_transcribed_def)
qed

lemma live_segments_marks:
  "live_segments W cfg now rid offset ss d = (Inr u, d') \<Longrightarrow>
     filter (untranscribed rid) (segments d') =
       filter (\<lambda>s. untranscribed rid s \<and> \<not> (\<exists>x \<in> set ss. seg_id x = seg_id s \<and> readable W x)) (segments d)"
proof (induction ss arbitrary: offset d)
  case (Cons s ss)
  show ?case
  proof (cases "readable W s")
    case False
    then have r: "live_segments W cfg now rid offset ss d = (Inr u, d')"
      using Cons.prems by (simp add: readable_def)
    have skip: "(\<exists>y \<in> set (s # ss). seg_id y = seg_id x \<and> readable W y) \<longleftrightarrow>
        (\<exists>y \<in> set ss. seg_id y = seg_id x \<and> readable W y)" for x using False by auto
    show ?thesis unfolding skip by (rule Cons.IH [OF r])
  next
    case True
    then obtain us n d1 o' a b where i: "insert_utterances rid us d = Inr (n, d1)"
      and r: "live_segments W cfg now rid o' ss (mark_segment_transcribed now (seg_id s) a b d1) = (Inr u, d')"
      using Cons.prems by (auto simp: readable_def Let_def split: sum.splits prod.splits)
    let ?m = "mark_segment_transcribed now (seg_id s) a b d1"
    have "filter (untranscribed rid) (segments d') =
        filter (\<lambda>x. \<not> (\<exists>y \<in> set ss. seg_id y = seg_id x \<and> readable W y)) (filter (untranscribed rid) (segments ?m))"
      using Cons.IH [OF r] by (simp add: conj_commute)
    also have "\<dots> = filter (\<lambda>x. \<not> (\<exists>y \<in> set ss. seg_id y = seg_id x \<and> readable W y))
        (filter (\<lambda>x. untranscribed rid x \<and> seg_id x \<noteq> seg_id s) (segments d))"
      unfolding untranscribed_mark segments_insert_utterances [OF i] ..
    also have "\<dots> = filter (\<lambda>x. untranscribed rid x \<and>
        \<not> (\<exists>y \<in> set (s # ss). seg_id y = seg_id x \<and> readable W y)) (segments d)"
      unfolding filter_filter by (rule filter_cong) (use True in auto)
    finally show ?thesis .
  qed
qed simp

lemma segments_regenerate: "regenerate c l rid d = Some d' \<Longrightarrow> segments d' = segments d"
  by (auto simp: regenerate_def set_recording_title_auto_def Let_def split: if_splits option.splits sum.splits)

lemma list_untranscribed_alt:
  "list_untranscribed_segments d rid = sort_key seg_seq (filter (untranscribed rid) (segments d))"
  by (simp add: list_untranscribed_segments_def untranscribed_def [abs_def])

text \<open>
  A successful live pass over a recording that is still uploading leaves untranscribed exactly the
  segments whose file is not there; every other waiting segment has been transcribed and marked.
\<close>

theorem live_pass_marks_readable:
  assumes "transcribe_segment_run W cfg now rid d = (Finished (Inr ()), d')"
    and "get_recording d rid = Inr r" and "rec_status r = Uploading"
    and "distinct (map seg_id (segments d))"
  shows "list_untranscribed_segments d' rid =
    filter (\<lambda>s. \<not> path_exists W (resolve_key (blobs W) (seg_storage_key s))) (list_untranscribed_segments d rid)"
proof (cases "list_untranscribed_segments d rid = []")
  case True
  then have "d' = d" using assms(1-3) by (simp add: transcribe_segment_run_def)
  then show ?thesis using True by simp
next
  case False
  let ?ss = "list_untranscribed_segments d rid"
  obtain d1 where l: "live_segments W cfg now rid (unwrap_or (max_transcribed_end_ms d rid) 0) ?ss d = (Inr (), d1)"
    and r: "regenerate (chat W) (llm cfg) rid d1 = Some d'"
    using assms(1-3) False by (auto simp: transcribe_segment_run_def Let_def split: sum.splits prod.splits option.splits)
  have "(\<exists>x \<in> set ?ss. seg_id x = seg_id s \<and> readable W x) \<longleftrightarrow> readable W s"
    if "s \<in> set (segments d)" "untranscribed rid s" for s
  proof -
    have "s \<in> set ?ss" using that by (simp add: list_untranscribed_alt)
    moreover have "x = s" if "x \<in> set ?ss" "seg_id x = seg_id s" for x
      by (rule distinct_map_eqD [OF assms(4) _ \<open>s \<in> set (segments d)\<close> that(2)])
        (use that(1) in \<open>simp add: list_untranscribed_alt\<close>)
    ultimately show ?thesis by blast
  qed
  then have "filter (untranscribed rid) (segments d1) =
      filter (\<lambda>s. \<not> readable W s) (filter (untranscribed rid) (segments d))"
    unfolding live_segments_marks [OF l] filter_filter by (intro filter_cong) auto
  then show ?thesis
    unfolding list_untranscribed_alt segments_regenerate [OF r]
    by (simp only: filter_sort [symmetric] readable_def)
qed

definition live_db :: db where
  "live_db = sample_db\<lparr>segments := [\<lparr>seg_id = 1, seg_recording_id = 7, seg_seq = 1, seg_storage_key = lit ''k'',
     seg_start_ms = None, seg_duration_ms = None, seg_bytes = None, seg_sha256 = None, seg_uploaded_at = 0,
     seg_transcribed_at = None\<rparr>]\<rparr>"

lemma live_db_recording: "get_recording live_db 7 = Inr sample_recording" "rec_status sample_recording = Uploading"
  by (simp_all add: get_recording_def live_db_def sample_db_def lookup_by_def sample_recording_def)

theorem live_pass_marks_readable_witness:
  "\<exists>d'. transcribe_segment_run demo_world demo_config 5 7 live_db = (Finished (Inr ()), d') \<and>
     list_untranscribed_segments d' 7 = []"
proof -
  have "\<exists>d'. transcribe_segment_run demo_world demo_config 5 7 live_db = (Finished (Inr ()), d')"
    unfolding transcribe_segment_run_def live_db_recording
    by (simp add: sample_recording_def list_untranscribed_segments_def live_db_def sample_db_def empty_db_def
        demo_world_def transcode_to_wav_def segment_words_def clean_def filler_from_config_def
        group_into_utterances_def insert_utterances_def regenerate_def list_utterances_by_recording_def
        mark_segment_transcribed_def Let_def)
  then obtain d' where d': "transcribe_segment_run demo_world demo_config 5 7 live_db = (Finished (Inr ()), d')" ..
  have "distinct (map seg_id (segments live_db))" by (simp add: live_db_def)
  from live_pass_marks_readable [OF d' live_db_recording this] d' show ?thesis
    by (simp add: demo_world_def)
qed

end
