(* ===== verification/Scribe_Worker.thy ===== *)
theory Scribe_Worker
  imports Scribe_Queue Scribe_Gate Scribe_Stages
begin

text \<open>
  The worker, \<open>crates/scribe-pipeline/src/worker.rs\<close>, and the entry points of \<open>lib.rs\<close> that feed
  it. A claimed job is run, then settled by several statements, each committed on its own; a
  definition returns the tables as they are when it stops, also on an error.

  The stage a job runs is the argument \<open>stage\<close>; what the worker relies on is the interface
  \<open>stage_runner\<close>, which \<^const>\<open>run_stage\<close> fulfils. \<open>ticks\<close> are the window checks that fire while the
  stage runs, and \<open>dropped\<close> the tables a stage leaves that is abandoned half-way, which for this program
  is \<^const>\<open>stage_dropped\<close>.
\<close>

type_synonym stage_fun = "job_kind \<Rightarrow> uuid \<Rightarrow> json \<Rightarrow> db \<Rightarrow> stage_exit \<times> db"
type_synonym dropped_fun = "job_kind \<Rightarrow> uuid \<Rightarrow> json \<Rightarrow> db \<Rightarrow> db"

abbreviation secs :: "int \<Rightarrow> int" where "secs n \<equiv> n * 1000000"

record worker_config =
  max_attempts :: int
  poll_secs :: int
  heartbeat_secs :: int

section \<open>Settling\<close>

text \<open>\<open>json!({})\<close>.\<close>

abbreviation empty_payload :: json where "empty_payload \<equiv> JObject []"

fun enqueue_ready :: "timestamp \<Rightarrow> uuid \<Rightarrow> job_kind list \<Rightarrow> db \<Rightarrow> unit res \<times> db" where
  "enqueue_ready now rid [] d = (Inr (), d)"
| "enqueue_ready now rid (k # ks) d =
     (if predecessors_done d rid k
      then (case enqueue now rid k empty_payload d of
              Inl e \<Rightarrow> (Inl e, d) | Inr (j, d') \<Rightarrow> enqueue_ready now rid ks d')
      else enqueue_ready now rid ks d)"

definition enqueue_successors :: "timestamp \<Rightarrow> job_kind \<Rightarrow> uuid \<Rightarrow> db \<Rightarrow> unit res \<times> db" where
  "enqueue_successors now kind rid d = enqueue_ready now rid (successors kind) d"

definition embed_and_summarize_done :: "db \<Rightarrow> uuid \<Rightarrow> bool" where
  "embed_and_summarize_done d rid \<longleftrightarrow> count_done_kinds d rid [Embed, Summarize] = 2"

definition maybe_mark_ready :: "uuid \<Rightarrow> db \<Rightarrow> db res" where
  "maybe_mark_ready rid d =
     (if embed_and_summarize_done d rid then set_recording_status rid Ready d else Inr d)"

text \<open>The statements after a stage that succeeded, in order.\<close>

definition settle_ok :: "timestamp \<Rightarrow> job \<Rightarrow> uuid \<Rightarrow> db \<Rightarrow> unit res \<times> db" where
  "settle_ok now j rid d =
     (case complete now (job_id j) d of
        Inl e \<Rightarrow> (Inl e, d)
      | Inr d1 \<Rightarrow>
      (case enqueue_successors now (job_kind j) rid d1 of
         (Inl e, d2) \<Rightarrow> (Inl e, d2)
       | (Inr _, d2) \<Rightarrow>
       (case (if job_kind j \<in> {Embed, Summarize} then maybe_mark_ready rid d2 else Inr d2) of
          Inl e \<Rightarrow> (Inl e, d2)
        | Inr d3 \<Rightarrow>
            if job_kind j \<noteq> TranscribeSegment then (Inr (), d3)
            else (case get_recording d3 rid of
                    Inl e \<Rightarrow> (Inl e, d3)
                  | Inr r \<Rightarrow>
                      if rec_status r = Uploading \<and> count_untranscribed_segments d3 rid > 0
                      then (case enqueue now rid TranscribeSegment empty_payload d3 of
                              Inl e \<Rightarrow> (Inl e, d3) | Inr (_, d4) \<Rightarrow> (Inr (), d4))
                      else (Inr (), d3)))))"

text \<open>The message is the error's \<open>Display\<close>; the recording is parked with the job's last attempt.\<close>

definition settle_err :: "worker_config \<Rightarrow> timestamp \<Rightarrow> rstr \<Rightarrow> job \<Rightarrow> uuid \<Rightarrow> db \<Rightarrow> unit res \<times> db" where
  "settle_err wc now msg j rid d =
     (case fail now (job_id j) msg (max_attempts wc) (secs (max (poll_secs wc) 1)) d of
        Inl e \<Rightarrow> (Inl e, d)
      | Inr (True, d1) \<Rightarrow> (Inr (), d1)
      | Inr (False, d1) \<Rightarrow>
          (Inr (), case set_recording_status rid RFailed d1 of Inl e \<Rightarrow> d1 | Inr d2 \<Rightarrow> d2))"

section \<open>One job\<close>

text \<open>
  \<open>now\<close> is the time at which the job is settled. A stage the window check abandons keeps the statements
  it had committed, and its job goes back on the queue. A panic unwinds the task: nothing is settled.
  (The heartbeat task is detached, not stopped.)
\<close>

definition process_job ::
  "worker_config \<Rightarrow> stage_fun \<Rightarrow> dropped_fun \<Rightarrow> (error \<Rightarrow> rstr) \<Rightarrow> tick list \<Rightarrow> timestamp \<Rightarrow> job \<Rightarrow> db \<Rightarrow>
     unit res \<times> db" where
  "process_job wc stage dropped show_err ticks now j d =
     (case job_recording_id j of
        None \<Rightarrow> (case complete now (job_id j) d of Inl e \<Rightarrow> (Inl e, d) | Inr d' \<Rightarrow> (Inr (), d'))
      | Some rid \<Rightarrow>
          (case stage_abandoned (job_kind j) ticks of
             Some retry_in \<Rightarrow>
               (let d1 = dropped (job_kind j) rid (job_payload j) d in
                case defer_job now (job_id j) WINDOW_CLOSED (secs retry_in) d1 of
                  Inl e \<Rightarrow> (Inl e, d1) | Inr d' \<Rightarrow> (Inr (), d'))
           | None \<Rightarrow>
               (case stage (job_kind j) rid (job_payload j) d of
                  (Panicked, d1) \<Rightarrow> (Inr (), d1)
                | (Finished (Inr _), d1) \<Rightarrow> settle_ok now j rid d1
                | (Finished (Inl e), d1) \<Rightarrow> settle_err wc now (show_err e) j rid d1)))"

text \<open>
  One turn of the claim loop that finds a job, at \<open>claimed\<close>, and runs it to its end, at \<open>settled\<close>.
\<close>

definition worker_turn ::
  "worker_config \<Rightarrow> stage_fun \<Rightarrow> dropped_fun \<Rightarrow> (error \<Rightarrow> rstr) \<Rightarrow> (job list \<Rightarrow> job) \<Rightarrow> rstr \<Rightarrow> timestamp \<Rightarrow>
     timestamp \<Rightarrow> job_kind list \<Rightarrow> schedule_decision \<Rightarrow> tick list \<Rightarrow> db \<Rightarrow> (bool \<times> db) res" where
  "worker_turn wc stage dropped show_err pick worker claimed settled configured dec ticks d =
     (case claim_one pick {} claimed worker (claimable_kinds configured dec) d of
        Inl e \<Rightarrow> Inl e
      | Inr (None, d1) \<Rightarrow> Inr (False, d1)
      | Inr (Some j, d1) \<Rightarrow> Inr (True, snd (process_job wc stage dropped show_err ticks settled j d1)))"

section \<open>The reaper\<close>

fun park_recordings :: "reaped_job list \<Rightarrow> db \<Rightarrow> db" where
  "park_recordings [] d = d"
| "park_recordings (r # rs) d =
     park_recordings rs
       (if rj_exhausted r
        then (case rj_recording_id r of
                None \<Rightarrow> d
              | Some rid \<Rightarrow> (case set_recording_status rid RFailed d of Inl e \<Rightarrow> d | Inr d' \<Rightarrow> d'))
        else d)"

definition lease :: "worker_config \<Rightarrow> int" where
  "lease wc = 3 * secs (max (heartbeat_secs wc) 1)"

definition reaper_pass :: "worker_config \<Rightarrow> timestamp \<Rightarrow> db \<Rightarrow> db" where
  "reaper_pass wc now d =
     (case reap_stuck now (lease wc) (max_attempts wc) d of
        Inl e \<Rightarrow> d
      | Inr (rs, d') \<Rightarrow> park_recordings rs d')"

section \<open>Entry points\<close>

text \<open>
  \<open>process_recording_inline\<close>: every stage in order, no queue. \<open>load\<close> is the outcome of \<open>Engines::load\<close>,
  which comes before anything is written.
\<close>

definition INLINE_ORDER :: "job_kind list" where
  "INLINE_ORDER = [Transcode, Diarize, Transcribe, Merge, Embed, Summarize]"

fun inline_stages :: "stage_fun \<Rightarrow> uuid \<Rightarrow> job_kind list \<Rightarrow> db \<Rightarrow> stage_exit \<times> db" where
  "inline_stages stage rid [] d = (Finished (Inr ()), d)"
| "inline_stages stage rid (k # ks) d =
     (case stage k rid empty_payload d of
        (Finished (Inr _), d1) \<Rightarrow> inline_stages stage rid ks d1
      | (Finished (Inl e), d1) \<Rightarrow>
          (Finished (Inl e), case set_recording_status rid RFailed d1 of Inl _ \<Rightarrow> d1 | Inr d2 \<Rightarrow> d2)
      | (Panicked, d1) \<Rightarrow> (Panicked, d1))"

definition process_recording_inline :: "unit res \<Rightarrow> stage_fun \<Rightarrow> uuid \<Rightarrow> db \<Rightarrow> stage_exit \<times> db" where
  "process_recording_inline load stage rid d =
     (case load of
        Inl e \<Rightarrow> (Finished (Inl e), d)
      | Inr _ \<Rightarrow>
     (case set_recording_status rid Processing d of
        Inl e \<Rightarrow> (Finished (Inl e), d)
      | Inr d1 \<Rightarrow>
          (case inline_stages stage rid INLINE_ORDER d1 of
             (Finished (Inr _), d2) \<Rightarrow>
               (case set_recording_status rid Ready d2 of Inl e \<Rightarrow> (Finished (Inl e), d2) | Inr d3 \<Rightarrow> (Finished (Inr ()), d3))
           | r \<Rightarrow> r)))"

text \<open>\<open>reindex\<close>, over the recordings with a done merge in the order the database returns them.\<close>

definition recordings_with_merge_done :: "db \<Rightarrow> uuid list" where
  "recordings_with_merge_done d =
     remdups (List.map_filter job_recording_id (filter (\<lambda>j. job_kind j = Merge \<and> job_state j = Done) (jobs d)))"

definition reindex_payload :: json where
  "reindex_payload = JObject [(lit ''reindex'', JBool True)]"

definition enqueue_if :: "bool \<Rightarrow> timestamp \<Rightarrow> uuid \<Rightarrow> job_kind \<Rightarrow> db \<Rightarrow> unit res \<times> db" where
  "enqueue_if want now rid kind d =
     (if want then (case enqueue now rid kind reindex_payload d of Inl e \<Rightarrow> (Inl e, d) | Inr (_, d') \<Rightarrow> (Inr (), d'))
      else (Inr (), d))"

fun reindex_all :: "timestamp \<Rightarrow> bool \<Rightarrow> bool \<Rightarrow> uuid list \<Rightarrow> db \<Rightarrow> unit res \<times> db" where
  "reindex_all now do_embeddings do_summaries [] d = (Inr (), d)"
| "reindex_all now do_embeddings do_summaries (rid # rids) d =
     (case enqueue_if do_embeddings now rid Embed d of
        (Inl e, d1) \<Rightarrow> (Inl e, d1)
      | (Inr _, d1) \<Rightarrow>
          (case enqueue_if do_summaries now rid Summarize d1 of
             (Inl e, d2) \<Rightarrow> (Inl e, d2)
           | (Inr _, d2) \<Rightarrow> reindex_all now do_embeddings do_summaries rids d2))"

definition reindex :: "timestamp \<Rightarrow> bool \<Rightarrow> bool \<Rightarrow> db \<Rightarrow> unit res \<times> db" where
  "reindex now do_embeddings do_summaries d =
     (if \<not> do_embeddings \<and> \<not> do_summaries then (Inr (), d)
      else reindex_all now do_embeddings do_summaries (recordings_with_merge_done d) d)"

section \<open>The interface of a stage\<close>

locale stage_runner =
  fixes stage :: stage_fun
  assumes keeps: "keeps_queue d (snd (stage k rid payload d))"
begin

lemma stage_jobs: "stage k rid payload d = (x, d') \<Longrightarrow> jobs d' = jobs d \<and> next_job_id d' = next_job_id d"
  using keeps [of d k rid payload] by (simp add: keeps_queue_def)

lemma stage_has_recording: "stage k rid payload d = (x, d') \<Longrightarrow> has_recording d' r = has_recording d r"
  using keeps_queue_has_recording [OF keeps [of d k rid payload]] by simp

lemma stage_queue_ok: "stage k rid payload d = (x, d') \<Longrightarrow> queue_ok d' = queue_ok d"
proof -
  assume s: "stage k rid payload d = (x, d')"
  have "has_recording d' = has_recording d" using stage_has_recording [OF s] by auto
  then have "job_ok d' = job_ok d"
    using stage_jobs [OF s] by (auto simp: job_ok_def fun_eq_iff split: option.splits)
  then show ?thesis using stage_jobs [OF s] by (simp add: queue_ok_def)
qed

end

interpretation stages: stage_runner "run_stage W cfg now" for W cfg now
  by unfold_locales (rule run_stage_keeps)

end
