(* ===== verification/Scribe_System.thy ===== *)
theory Scribe_System
  imports Scribe_Worker
begin

text \<open>
  The whole server as interleaved steps. A state is the tables together with the claims that a
  worker is processing right now; a step is one SQL statement of the worker, the reaper or a request
  handler, in any order and by any number of workers. Every transaction the code runs is one or more
  of these steps, so what every step keeps, every execution keeps.

  There are three relations. \<open>step_with K\<close> lets a request queue any kind in \<open>K\<close> without looking at the
  stages before it, and assumes of the timing, in its rule \<open>reaped\<close>, that a worker that is alive renews
  its lease before it lapses. \<open>sys_step\<close> is the instance for the requests of the API and the commands
  other than removing a voice, which queues \<open>Embed\<close> as well. \<open>any_step\<close> assumes nothing: a lease may
  lapse under a living worker, whose statements then come late.
\<close>

type_synonym system = "db \<times> job list"

text \<open>The kinds a request handler may enqueue without looking at the stages before it.\<close>

definition REQUEST_KINDS :: "job_kind set" where
  "REQUEST_KINDS = {Transcode, TranscribeSegment, Diarize, Summarize}"

inductive step_with :: "job_kind set \<Rightarrow> worker_config \<Rightarrow> system \<Rightarrow> system \<Rightarrow> bool"
  for K :: "job_kind set" and wc :: worker_config where
  claimed: "pick_ok pick \<Longrightarrow> claim_one pick skip now w kinds d = Inr (Some j, d') \<Longrightarrow>
     step_with K wc (d, A) (d', j # A)"
| beaten: "heartbeat now jid w d = Inr (b, d') \<Longrightarrow> step_with K wc (d, A) (d', A)"
| edited: "keeps_queue d d' \<Longrightarrow> step_with K wc (d, A) (d', A)"
| completed: "j \<in> set A \<Longrightarrow> complete now (job_id j) d = Inr d' \<Longrightarrow> step_with K wc (d, A) (d', remove1 j A)"
| retried: "j \<in> set A \<Longrightarrow> fail now (job_id j) msg (max_attempts wc) b d = Inr (r, d') \<Longrightarrow>
     step_with K wc (d, A) (d', remove1 j A)"
| deferred: "j \<in> set A \<Longrightarrow> defer_job now (job_id j) msg delay d = Inr d' \<Longrightarrow>
     step_with K wc (d, A) (d', remove1 j A)"
| died: "step_with K wc (d, A) (d, remove1 j A)"
| reaped: "(\<And>j r. j \<in> set A \<Longrightarrow> get_job d (job_id j) = Some r \<Longrightarrow> \<not> lease_expired now (lease wc) r) \<Longrightarrow>
     reap_stuck now (lease wc) (max_attempts wc) d = Inr (rs, d') \<Longrightarrow> step_with K wc (d, A) (d', A)"
| marked: "set_recording_status rid s d = Inr d' \<Longrightarrow> step_with K wc (d, A) (d', A)"
| followed: "predecessors_done d rid k \<Longrightarrow> enqueue now rid k p d = Inr (j, d') \<Longrightarrow> step_with K wc (d, A) (d', A)"
| requested: "k \<in> K \<Longrightarrow> enqueue now rid k p d = Inr (j, d') \<Longrightarrow> step_with K wc (d, A) (d', A)"
| created: "create_recording i now title dev parts fmt rate d = Inr (r, d') \<Longrightarrow> step_with K wc (d, A) (d', A)"
| reprocessed: "reset_for_reprocess rid d = Inr d' \<Longrightarrow> step_with K wc (d, A) (d', A)"
| rediarized: "reset_for_rediarize rid d = Inr (ok, d') \<Longrightarrow> step_with K wc (d, A) (d', A)"
| deleted: "delete_recording rid d = Inr d' \<Longrightarrow> step_with K wc (d, A) (d', A)"

abbreviation sys_step :: "worker_config \<Rightarrow> system \<Rightarrow> system \<Rightarrow> bool" where
  "sys_step \<equiv> step_with REQUEST_KINDS"

lemma step_with_mono: "step_with K wc s t \<Longrightarrow> K \<subseteq> K' \<Longrightarrow> step_with K' wc s t"
  by (induction rule: step_with.induct)
    (blast intro: step_with.intros)+

text \<open>
  Without the assumption on timing the reaper may take back a job that is still being processed; the
  claim stays, and its worker goes on to settle it. Its \<^const>\<open>fail\<close> then writes a number that it read
  at any earlier time.
\<close>

inductive any_step :: "worker_config \<Rightarrow> system \<Rightarrow> system \<Rightarrow> bool" for wc :: worker_config where
  on_time: "step_with K wc s t \<Longrightarrow> any_step wc s t"
| reaped_late: "reap_stuck now (lease wc) (max_attempts wc) d = Inr (rs, d') \<Longrightarrow> any_step wc (d, A) (d', A)"
| failed_late: "j \<in> set A \<Longrightarrow> 0 \<le> n \<Longrightarrow>
     write_failure now (job_id j) (n + 1) msg (max_attempts wc) b d = Inr (r, d') \<Longrightarrow>
     any_step wc (d, A) (d', remove1 j A)"

definition sys_init :: "system \<Rightarrow> bool" where
  "sys_init s \<longleftrightarrow> s = (empty_db, [])"

section \<open>The invariant\<close>

text \<open>A stage that no request queues has a job only once its predecessors are done.\<close>

definition gated :: "job_kind set \<Rightarrow> db \<Rightarrow> bool" where
  "gated K d \<longleftrightarrow> (\<forall>j \<in> set (jobs d). \<forall>rid. job_recording_id j = Some rid \<longrightarrow> job_kind j \<notin> K \<longrightarrow>
     predecessors_done d rid (job_kind j))"

text \<open>The row of a job that is being processed, as long as there is one, is running under its lease.\<close>

definition same_lease :: "job \<Rightarrow> job \<Rightarrow> bool" where
  "same_lease r j \<longleftrightarrow> job_state r = Running \<and> job_locked_by r = job_locked_by j \<and>
     job_recording_id r = job_recording_id j \<and> job_kind r = job_kind j"

definition held :: "db \<Rightarrow> job list \<Rightarrow> bool" where
  "held d A \<longleftrightarrow> distinct (map job_id A) \<and> (\<forall>j \<in> set A. job_id j < next_job_id d \<and>
     (\<forall>r \<in> set (jobs d). job_id r = job_id j \<longrightarrow> same_lease r j))"

text \<open>\<open>fail\<close> and the reaper park a job whose attempts are used up, so a live job has one left.\<close>

definition attempt_limit :: "worker_config \<Rightarrow> int" where
  "attempt_limit wc = max 1 (max_attempts wc)"

definition inv_with :: "job_kind set \<Rightarrow> worker_config \<Rightarrow> system \<Rightarrow> bool" where
  "inv_with K wc = (\<lambda>(d, A). queue_ok d \<and> gated K d \<and> attempts_ok (attempt_limit wc) d \<and> held d A)"

lemma gatedD:
  "gated K d \<Longrightarrow> j \<in> set (jobs d) \<Longrightarrow> job_recording_id j = Some rid \<Longrightarrow> job_kind j \<notin> K \<Longrightarrow>
     k \<in> set (predecessors (job_kind j)) \<Longrightarrow> done_for d rid k"
  by (simp add: gated_def predecessors_done_iff)

lemma gatedI:
  "(\<And>j rid k. j \<in> set (jobs d) \<Longrightarrow> job_recording_id j = Some rid \<Longrightarrow> job_kind j \<notin> K \<Longrightarrow>
     k \<in> set (predecessors (job_kind j)) \<Longrightarrow> done_for d rid k) \<Longrightarrow> gated K d"
  by (simp add: gated_def predecessors_done_iff)

subsection \<open>Steps that rewrite rows in place\<close>

lemma done_for_map:
  assumes "jobs d' = map g (jobs d)"
    and "\<And>j. j \<in> set (jobs d) \<Longrightarrow> job_recording_id (g j) = job_recording_id j \<and> job_kind (g j) = job_kind j"
    and "\<And>j. j \<in> set (jobs d) \<Longrightarrow> job_state j = Done \<Longrightarrow> job_state (g j) = Done"
    and "done_for d rid k"
  shows "done_for d' rid k"
proof -
  obtain j where "j \<in> set (jobs d)" "job_recording_id j = Some rid" "job_kind j = k" "job_state j = Done"
    using assms(4) by (auto simp: done_for_def)
  then have "g j \<in> set (jobs d')" "job_recording_id (g j) = Some rid" "job_kind (g j) = k" "job_state (g j) = Done"
    using assms(1-3) by simp_all
  then show ?thesis unfolding done_for_def by blast
qed

lemma gated_map:
  assumes "gated K d" and "jobs d' = map g (jobs d)"
    and "\<And>j. j \<in> set (jobs d) \<Longrightarrow> job_recording_id (g j) = job_recording_id j \<and> job_kind (g j) = job_kind j"
    and "\<And>j. j \<in> set (jobs d) \<Longrightarrow> job_state j = Done \<Longrightarrow> job_state (g j) = Done"
  shows "gated K d'"
proof (rule gatedI)
  fix j' rid k
  assume "j' \<in> set (jobs d')" and rid: "job_recording_id j' = Some rid" "job_kind j' \<notin> K"
    and k: "k \<in> set (predecessors (job_kind j'))"
  then obtain j where "j \<in> set (jobs d)" "j' = g j" using assms(2) by auto
  then have "done_for d rid k" using gatedD [OF assms(1), of j rid k] assms(3) rid k by simp
  then show "done_for d' rid k" using done_for_map [OF assms(2,3,4)] by blast
qed

lemma held_map:
  assumes "held d A" and "jobs d' = map g (jobs d)" and "next_job_id d' = next_job_id d"
    and "\<And>r. r \<in> set (jobs d) \<Longrightarrow> job_id (g r) = job_id r"
    and "\<And>r j. r \<in> set (jobs d) \<Longrightarrow> j \<in> set A' \<Longrightarrow> job_id r = job_id j \<Longrightarrow> same_lease r j \<Longrightarrow> same_lease (g r) j"
    and "distinct (map job_id A')" and "set A' \<subseteq> set A"
  shows "held d' A'"
  unfolding held_def
proof (intro conjI ballI impI)
  show "distinct (map job_id A')" by fact
next
  fix j assume j: "j \<in> set A'"
  then have old: "job_id j < next_job_id d" "\<And>r. r \<in> set (jobs d) \<Longrightarrow> job_id r = job_id j \<Longrightarrow> same_lease r j"
    using assms(1,7) by (auto simp: held_def)
  then show "job_id j < next_job_id d'" using assms(3) by simp
  fix r' assume "r' \<in> set (jobs d')" "job_id r' = job_id j"
  then show "same_lease r' j" using assms(2,4,5) old(2) j by auto
qed

lemma attempts_map:
  assumes "jobs d' = map g (jobs d)"
    and "\<And>j. j \<in> set (jobs d) \<Longrightarrow> live (g j) \<Longrightarrow> job_attempts (g j) < m"
  shows "attempts_ok m d'"
  using assms by (auto simp: attempts_ok_def)

lemma held_remove1: "held d A \<Longrightarrow> held d (remove1 j A)"
  by (auto simp: held_def distinct_map set_remove1_eq inj_on_def dest: notin_set_remove1 set_remove1_subset [THEN subsetD])

lemma remove1_other:
  "distinct (map job_id A) \<Longrightarrow> j \<in> set A \<Longrightarrow> x \<in> set (remove1 j A) \<Longrightarrow> x \<in> set A \<and> job_id x \<noteq> job_id j"
  by (metis distinct_map distinct_map_eqD set_remove1_eq DiffD1 DiffD2 insertCI)

lemma distinct_remove1_ids: "distinct (map job_id A) \<Longrightarrow> distinct (map job_id (remove1 j A))"
  by (metis distinct_map distinct_remove1 inj_on_subset set_remove1_subset)

text \<open>Settling the claim \<open>j\<close>: only its row changes, and that row was running.\<close>

lemma settle_inv:
  assumes inv: "inv_with K wc (d, A)" and j: "j \<in> set A"
    and up: "update_jobs now (\<lambda>r. job_id r = job_id j) f d = Inr d'" and ok: "queue_ok d'"
    and keep: "\<And>r. job_id (f r) = job_id r" "\<And>r. job_recording_id (f r) = job_recording_id r" "\<And>r. job_kind (f r) = job_kind r"
    and att: "\<And>r. r \<in> set (jobs d) \<Longrightarrow> job_id r = job_id j \<Longrightarrow> live (f r) \<Longrightarrow> job_attempts (f r) < attempt_limit wc"
  shows "inv_with K wc (d', remove1 j A)"
proof -
  have old: "queue_ok d" "gated K d" "attempts_ok (attempt_limit wc) d" "held d A"
    using inv by (simp_all add: inv_with_def)
  let ?g = "\<lambda>r. if job_id r = job_id j then (f r)\<lparr>job_updated_at := now\<rparr> else r"
  have d': "jobs d' = map ?g (jobs d)" "next_job_id d' = next_job_id d"
    using update_jobs_Inr [OF up] by (auto simp: update_where_def)
  have run: "job_state r = Running" if "r \<in> set (jobs d)" "job_id r = job_id j" for r
    using old(4) j that by (auto simp: held_def same_lease_def)
  have "gated K d'" by (rule gated_map [OF old(2) d'(1)]) (use keep run in auto)
  moreover have "attempts_ok (attempt_limit wc) d'"
    by (rule attempts_map [OF d'(1)]) (use old(3) att in \<open>auto simp: attempts_ok_def\<close>)
  moreover have "held d' (remove1 j A)"
  proof (rule held_map [OF old(4) d'])
    have dist: "distinct (map job_id A)" using old(4) by (simp add: held_def)
    then show "distinct (map job_id (remove1 j A))" by (rule distinct_remove1_ids)
    show "same_lease (?g r) x" if "x \<in> set (remove1 j A)" "job_id r = job_id x" "same_lease r x" for r x
      using remove1_other [OF dist j that(1)] that by simp
  qed (use keep in \<open>auto simp: set_remove1_subset\<close>)
  ultimately show ?thesis using ok by (simp add: inv_with_def)
qed


subsection \<open>Steps that leave, add or remove rows\<close>

lemma queue_ok_same_jobs:
  assumes "queue_ok d" and "jobs d' = jobs d" and "next_job_id d \<le> next_job_id d'"
    and "\<And>r. has_recording d r \<Longrightarrow> has_recording d' r"
  shows "queue_ok d'"
  using assms unfolding queue_ok_def job_ok_def by (fastforce split: option.splits)

lemma inv_same_jobs:
  assumes "inv_with K wc (d, A)" and "jobs d' = jobs d" and "next_job_id d \<le> next_job_id d'"
    and "\<And>r. has_recording d r \<Longrightarrow> has_recording d' r"
  shows "inv_with K wc (d', A)"
proof -
  have "gated K d'" using assms(1,2) by (simp add: inv_with_def gated_def predecessors_done_iff done_for_def)
  moreover have "held d' A" using assms(1-3) by (auto simp: inv_with_def held_def)
  ultimately show ?thesis using assms queue_ok_same_jobs [OF _ assms(2-4)]
    by (simp add: inv_with_def attempts_ok_def)
qed

lemma queue_ok_filter:
  assumes ok: "queue_ok d" and d': "jobs d' = filter P (jobs d)" "next_job_id d' = next_job_id d"
    and rec: "\<And>j r. j \<in> set (jobs d) \<Longrightarrow> P j \<Longrightarrow> job_recording_id j = Some r \<Longrightarrow> has_recording d r \<Longrightarrow> has_recording d' r"
  shows "queue_ok d'"
proof -
  have "distinct (map job_id (jobs d'))" "distinct (live_keys (jobs d'))"
    using ok distinct_map_filter [of job_id "jobs d" P]
      distinct_map_filter [of "\<lambda>j. (job_recording_id j, job_kind j)" "filter (\<lambda>j. live j \<and> job_recording_id j \<noteq> None) (jobs d)" P]
    by (auto simp: queue_ok_def d' live_keys_def conj_commute conj_left_commute)
  moreover have "job_ok d' j" if "j \<in> set (jobs d')" for j
  proof -
    have j: "j \<in> set (jobs d)" "P j" using that d'(1) by simp_all
    then have "job_ok d j" using ok by (simp add: queue_ok_def)
    then show ?thesis using rec [OF j] d'(2) by (auto simp: job_ok_def split: option.splits)
  qed
  ultimately show ?thesis by (simp add: queue_ok_def)
qed

lemma inv_remove:
  assumes inv: "inv_with K wc (d, A)" and d': "jobs d' = filter P (jobs d)" "next_job_id d' = next_job_id d"
    and rec: "\<And>j r. j \<in> set (jobs d) \<Longrightarrow> P j \<Longrightarrow> job_recording_id j = Some r \<Longrightarrow> has_recording d r \<Longrightarrow> has_recording d' r"
    and closed: "\<And>j x. P j \<Longrightarrow> job_kind j \<notin> K \<Longrightarrow> job_recording_id x = job_recording_id j \<Longrightarrow>
       job_kind x \<in> set (predecessors (job_kind j)) \<Longrightarrow> P x"
  shows "inv_with K wc (d', A)"
proof -
  have old: "queue_ok d" "gated K d" "attempts_ok (attempt_limit wc) d" "held d A"
    using inv by (simp_all add: inv_with_def)
  have "queue_ok d'" using queue_ok_filter [OF old(1) d'] rec by blast
  moreover have "gated K d'"
  proof (rule gatedI)
    fix j rid k
    assume j: "j \<in> set (jobs d')" "job_recording_id j = Some rid" "job_kind j \<notin> K" "k \<in> set (predecessors (job_kind j))"
    then have "done_for d rid k" using gatedD [OF old(2), of j rid k] d'(1) by simp
    then obtain x where x: "x \<in> set (jobs d)" "job_recording_id x = Some rid" "job_kind x = k" "job_state x = Done"
      by (auto simp: done_for_def)
    have "P x" using closed [of j x] j x d'(1) by simp
    then show "done_for d' rid k" unfolding done_for_def d'(1) using x by auto
  qed
  ultimately show ?thesis using old(3,4) by (auto simp: inv_with_def attempts_ok_def held_def d')
qed

lemma inv_enqueue:
  assumes inv: "inv_with K wc (d, A)" and k: "k \<in> K \<or> predecessors_done d rid k"
    and e: "enqueue now rid k p d = Inr (j, d')"
  shows "inv_with K wc (d', A)"
proof -
  have e': "enqueue_with_priority now rid k p 0 d = Inr (j, d')" using e by (simp add: enqueue_def)
  have old: "queue_ok d" "gated K d" "attempts_ok (attempt_limit wc) d" "held d A"
    using inv by (simp_all add: inv_with_def)
  show ?thesis using e'
  proof (cases rule: enqueue_cases)
    case existing
    then show ?thesis by (intro inv_same_jobs [OF inv]) (simp_all add: has_recording_def)
  next
    case fresh
    have more: "done_for d r x \<Longrightarrow> done_for d' r x" for r x unfolding done_for_def fresh(4) by auto
    have j: "job_recording_id j = Some rid" "job_kind j = k" "job_id j = next_job_id d" "job_attempts j = 0"
      by (simp_all add: fresh(3) new_job_def)
    have mem: "set (jobs d') = insert j (set (jobs d))" by (auto simp: fresh(4))
    have "gated K d'"
    proof (rule gatedI)
      fix x r y assume x: "x \<in> set (jobs d')" "job_recording_id x = Some r" "job_kind x \<notin> K" "y \<in> set (predecessors (job_kind x))"
      have "done_for d r y"
      proof (cases "x = j")
        case True
        then show ?thesis using k j x by (simp add: predecessors_done_iff)
      next
        case False
        then show ?thesis using gatedD [OF old(2)] mem x by simp
      qed
      then show "done_for d' r y" by (rule more)
    qed
    moreover have "held d' A" using old(4) j(3) unfolding held_def mem by (auto simp: fresh(4))
    moreover have "attempts_ok (attempt_limit wc) d'"
      using old(3) j(4) unfolding attempts_ok_def mem by (auto simp: attempt_limit_def)
    ultimately show ?thesis using enqueue_ok [OF old(1) e'] by (simp add: inv_with_def)
  qed
qed

lemma inv_claimed:
  assumes inv: "inv_with K wc (d, A)" and pick: "pick_ok pick"
    and c: "claim_one pick skip now w kinds d = Inr (Some j, d')"
  shows "inv_with K wc (d', j # A)"
proof -
  have old: "queue_ok d" "gated K d" "attempts_ok (attempt_limit wc) d" "held d A"
    using inv by (simp_all add: inv_with_def)
  obtain j0 where j0: "j0 \<in> set (jobs d)" "claimable now kinds skip j0" "j = leased now w j0"
    and d': "d' = d\<lparr>jobs := map (\<lambda>x. if x = j0 then j else x) (jobs d)\<rparr>" and ok: "queue_ok d'"
    using claim_one_result [OF old(1) pick, where skip = skip and now = now and w = w and kinds = kinds] c by auto
  let ?g = "\<lambda>x. if x = j0 then j else x"
  have same: "job_id j = job_id j0" "job_recording_id j = job_recording_id j0" "job_kind j = job_kind j0"
    "job_attempts j = job_attempts j0" "job_state j = Running" "job_state j0 = Queued"
    using j0(2,3) by (simp_all add: leased_def take_lease_def claimable_def)
  have jd': "jobs d' = map ?g (jobs d)" "next_job_id d' = next_job_id d" by (simp_all add: d')
  have "gated K d'" by (rule gated_map [OF old(2) jd'(1)]) (use same(5,6) in \<open>auto simp: same(2,3)\<close>)
  moreover have "attempts_ok (attempt_limit wc) d'"
    by (rule attempts_map [OF jd'(1)]) (use old(3) j0(1) same in \<open>auto simp: attempts_ok_def live_def\<close>)
  moreover have "held d' (j # A)"
  proof -
    have "job_id x \<noteq> job_id j" if "x \<in> set A" for x
      using old(4) that j0(1) same by (auto simp: held_def same_lease_def)
    then have ids: "job_id j \<notin> job_id ` set A" by force
    have rest: "held d' A"
      by (rule held_map [OF old(4) jd']) (use old(4) same in \<open>auto simp: held_def same_lease_def\<close>)
    have "r = j" if "r \<in> set (jobs d')" "job_id r = job_id j" for r
    proof -
      have "distinct (map job_id (jobs d'))" "j \<in> set (jobs d')" using ok j0(1) by (auto simp: queue_ok_def d')
      then show ?thesis using that by (blast intro: distinct_map_eqD)
    qed
    moreover have "job_id j < next_job_id d'"
      using old(1) j0(1) same(1) by (auto simp: queue_ok_def job_ok_def jd')
    ultimately show ?thesis using rest ids same(5) unfolding held_def
      by (auto simp: same_lease_def)
  qed
  ultimately show ?thesis using ok by (simp add: inv_with_def)
qed

lemma inv_reaped:
  assumes inv: "inv_with K wc (d, A)"
    and fresh: "\<And>j r. j \<in> set A \<Longrightarrow> get_job d (job_id j) = Some r \<Longrightarrow> \<not> lease_expired now (lease wc) r"
    and r: "reap_stuck now (lease wc) (max_attempts wc) d = Inr (rs, d')"
  shows "inv_with K wc (d', A)"
proof -
  have old: "queue_ok d" "gated K d" "attempts_ok (attempt_limit wc) d" "held d A"
    using inv by (simp_all add: inv_with_def)
  let ?g = "\<lambda>j. if lease_expired now (lease wc) j then (reap (max_attempts wc) j)\<lparr>job_updated_at := now\<rparr> else j"
  have d': "jobs d' = map ?g (jobs d)" "next_job_id d' = next_job_id d"
    using r reap_stuck_eq [OF old(1), of now "lease wc" "max_attempts wc"] by auto
  have "gated K d'" by (rule gated_map [OF old(2) d'(1)]) (auto simp: reap_def lease_expired_def)
  moreover have "attempts_ok (attempt_limit wc) d'"
    by (rule attempts_map [OF d'(1)])
      (use old(3) in \<open>auto simp: attempts_ok_def reap_def live_def attempt_limit_def split: if_splits\<close>)
  moreover have "held d' A"
  proof (rule held_map [OF old(4) d'])
    fix r j assume "r \<in> set (jobs d)" "j \<in> set A" "job_id r = job_id j" "same_lease r j"
    then show "same_lease (?g r) j" using fresh [of j r] get_job_mem [OF old(1), of r] by simp
  qed (use old(4) in \<open>auto simp: reap_def held_def\<close>)
  ultimately show ?thesis using reap_ok [OF old(1) r] by (simp add: inv_with_def)
qed

lemma inv_beaten:
  assumes inv: "inv_with K wc (d, A)" and h: "heartbeat now jid w d = Inr (b, d')"
  shows "inv_with K wc (d', A)"
proof -
  have old: "queue_ok d" "gated K d" "attempts_ok (attempt_limit wc) d" "held d A"
    using inv by (simp_all add: inv_with_def)
  let ?P = "\<lambda>j. job_id j = jid \<and> job_locked_by j = Some w \<and> job_state j = Running"
  let ?g = "\<lambda>j. if ?P j then j\<lparr>job_locked_at := Some now, job_updated_at := now\<rparr> else j"
  have u: "update_jobs now ?P (\<lambda>j. j\<lparr>job_locked_at := Some now\<rparr>) d = Inr d'"
    using h by (auto simp: heartbeat_def Let_def split: sum.splits)
  have d': "jobs d' = map ?g (jobs d)" "next_job_id d' = next_job_id d"
    using update_jobs_Inr [OF u] by (auto simp: update_where_def)
  have "gated K d'" by (rule gated_map [OF old(2) d'(1)]) auto
  moreover have "attempts_ok (attempt_limit wc) d'"
    by (rule attempts_map [OF d'(1)]) (use old(3) in \<open>auto simp: attempts_ok_def live_def\<close>)
  moreover have "held d' A"
    by (rule held_map [OF old(4) d']) (use old(4) in \<open>auto simp: held_def same_lease_def\<close>)
  ultimately show ?thesis using heartbeat_ok [OF old(1) h] by (simp add: inv_with_def)
qed


section \<open>Every execution keeps it\<close>

lemma jobs_of_update_recording:
  "update_recording rid f d = Inr d' \<Longrightarrow> (\<And>r. rec_id (f r) = rec_id r) \<Longrightarrow>
     jobs d' = jobs d \<and> next_job_id d' = next_job_id d \<and> (\<forall>r. has_recording d' r = has_recording d r)"
proof -
  assume u: "update_recording rid f d = Inr d'" and f: "\<And>r. rec_id (f r) = rec_id r"
  have "jobs d' = jobs d \<and> next_job_id d' = next_job_id d"
    using u by (auto simp: update_recording_cases split: if_splits)
  then show ?thesis using has_recording_update [OF u f] by simp
qed

lemma jobs_of_status:
  "set_recording_status rid s d = Inr d' \<Longrightarrow>
     jobs d' = jobs d \<and> next_job_id d' = next_job_id d \<and> (\<forall>r. has_recording d' r = has_recording d r)"
  unfolding set_recording_status_def by (erule jobs_of_update_recording) simp

lemma inv_retried:
  assumes inv: "inv_with K wc (d, A)" and j: "j \<in> set A"
    and f: "fail now (job_id j) msg (max_attempts wc) b d = Inr (r, d')"
  shows "inv_with K wc (d', remove1 j A)"
proof -
  obtain j0 :: job where "write_failure now (job_id j) (job_attempts j0 + 1) msg (max_attempts wc) b d = Inr (r, d')"
    using f by (rule fail_cases)
  then obtain g where u: "update_jobs now (\<lambda>x. job_id x = job_id j) g d = Inr d'"
    and r: "r = (job_attempts j0 + 1 < max_attempts wc)"
    and g: "g = (if r then (\<lambda>x. x\<lparr>job_state := Queued, job_attempts := job_attempts j0 + 1, job_error := Some msg,
                      job_locked_by := None, job_locked_at := None,
                      job_run_after := now + fail_delay b (job_attempts j0 + 1)\<rparr>)
          else (\<lambda>x. x\<lparr>job_state := Failed, job_attempts := job_attempts j0 + 1, job_error := Some msg,
                      job_locked_by := None, job_locked_at := None\<rparr>))"
    by (rule write_failure_cases)
  have "queue_ok d'" using inv f fail_ok by (auto simp: inv_with_def)
  then show ?thesis
    by (rule settle_inv [OF inv j u]) (use r in \<open>auto simp: g live_def attempt_limit_def\<close>)
qed

text \<open>The stages a re-diarize runs again are closed under successors among the gated ones.\<close>

lemma rediarize_closed:
  "k \<noteq> Diarize \<Longrightarrow> k \<noteq> Merge \<Longrightarrow> k \<noteq> Embed \<Longrightarrow> k \<noteq> Summarize \<Longrightarrow> k' \<in> set (predecessors k) \<Longrightarrow>
     k' \<noteq> Diarize \<and> k' \<noteq> Merge \<and> k' \<noteq> Embed \<and> k' \<noteq> Summarize"
  by (cases k) auto

lemma inv_step:
  assumes "inv_with K wc s" and "step_with K wc s t"
  shows "inv_with K wc t"
  using assms(2,1)
proof (cases rule: step_with.cases)
  case (claimed pick skip now w kinds d j d' A)
  then show ?thesis using assms(1) inv_claimed by blast
next
  case (beaten now jid w d b d' A)
  then show ?thesis using assms(1) inv_beaten by blast
next
  case (edited d d' A)
  have "inv_with K wc (d, A)" using assms(1) edited(1) by simp
  then have "inv_with K wc (d', A)"
    by (rule inv_same_jobs) (use edited(3) keeps_queue_has_recording [OF edited(3)] in \<open>simp_all add: keeps_queue_def\<close>)
  then show ?thesis using edited(2) by simp
next
  case (completed j A now d d')
  have inv: "inv_with K wc (d, A)" using assms(1) completed(1) by simp
  then have "queue_ok d'" using complete_ok [OF _ completed(4)] by (simp add: inv_with_def)
  then have "inv_with K wc (d', remove1 j A)"
    by (rule settle_inv [OF inv completed(3) completed(4) [unfolded complete_def]]) (simp_all add: live_def)
  then show ?thesis using completed(2) by simp
next
  case (retried j A now msg b d r d')
  have "inv_with K wc (d, A)" using assms(1) retried(1) by simp
  from inv_retried [OF this retried(3,4)] show ?thesis using retried(2) by simp
next
  case (deferred j A now msg delay d d')
  have inv: "inv_with K wc (d, A)" using assms(1) deferred(1) by simp
  then have ok: "queue_ok d'" and att: "attempts_ok (attempt_limit wc) d" and h: "held d A"
    using defer_ok [OF _ deferred(4)] by (simp_all add: inv_with_def)
  have "inv_with K wc (d', remove1 j A)"
    by (rule settle_inv [OF inv deferred(3) deferred(4) [unfolded defer_job_def] ok])
      (use att h deferred(3) in \<open>auto simp: attempts_ok_def held_def same_lease_def live_def\<close>)
  then show ?thesis using deferred(2) by simp
next
  case (died d A j)
  then show ?thesis using assms(1) by (simp add: inv_with_def held_remove1)
next
  case (reaped A d now rs d')
  then show ?thesis using assms(1) inv_reaped by blast
next
  case (marked rid s d d' A)
  have "inv_with K wc (d, A)" using assms(1) marked(1) by simp
  then have "inv_with K wc (d', A)" by (rule inv_same_jobs) (use jobs_of_status [OF marked(3)] in auto)
  then show ?thesis using marked(2) by simp
next
  case (followed d rid k now p j d' A)
  then show ?thesis using assms(1) inv_enqueue by blast
next
  case (requested k now rid p d j d' A)
  then show ?thesis using assms(1) inv_enqueue by blast
next
  case (created i now title dev parts fmt rate d r d' A)
  have "inv_with K wc (d, A)" using assms(1) created(1) by simp
  then have "inv_with K wc (d', A)"
    by (rule inv_same_jobs)
      (use created(3) in \<open>auto simp: create_recording_def has_recording_def Let_def split: if_splits\<close>)
  then show ?thesis using created(2) by simp
next
  case (reprocessed rid d d' A)
  have "inv_with K wc (d, A)" using assms(1) reprocessed(1) by simp
  then have "inv_with K wc (d', A)"
    by (rule inv_remove [where P = "\<lambda>j. job_recording_id j \<noteq> Some rid"])
      (use jobs_of_status [OF reprocessed(3) [unfolded reset_for_reprocess_def]] in
        \<open>auto simp: delete_where_def has_recording_def\<close>)
  then show ?thesis using reprocessed(2) by simp
next
  case (rediarized rid d ok d' A)
  have inv: "inv_with K wc (d, A)" using assms(1) rediarized(1) by simp
  have "inv_with K wc (d', A)"
  proof (cases ok)
    case True
    let ?P = "\<lambda>j. \<not> (job_recording_id j = Some rid \<and> job_kind j \<in> {Diarize, Merge, Embed, Summarize})"
    have d': "jobs d' = filter ?P (jobs d)" "next_job_id d' = next_job_id d" "\<And>r. has_recording d' r = has_recording d r"
      using True rediarized(3)
      by (auto simp: reset_for_rediarize_def delete_where_def has_recording_def split: if_splits sum.splits dest!: jobs_of_status)
    show ?thesis
    proof (rule inv_remove [OF inv d'(1,2)])
      show "?P x" if "?P j" "job_kind j \<notin> K" "job_recording_id x = job_recording_id j"
        "job_kind x \<in> set (predecessors (job_kind j))" for j x
        using rediarize_closed [of "job_kind j" "job_kind x"] that by auto
    qed (simp add: d'(3))
  next
    case False
    then show ?thesis using inv rediarized(3) by (auto simp: reset_for_rediarize_def split: if_splits sum.splits)
  qed
  then show ?thesis using rediarized(2) by simp
next
  case (deleted rid d d' A)
  have "inv_with K wc (d, A)" using assms(1) deleted(1) by simp
  then have "inv_with K wc (d', A)"
    by (rule inv_remove [where P = "\<lambda>j. job_recording_id j \<noteq> Some rid"])
      (use deleted(3) in \<open>auto simp: delete_recording_def not_found_if_zero_def delete_where_def
         has_recording_def split: if_splits\<close>)
  then show ?thesis using deleted(2) by simp
qed


interpretation server: step_system sys_init "step_with K wc" "inv_with K wc" for K wc
proof
  show "sys_init s \<Longrightarrow> inv_with K wc s" for s
    by (simp add: sys_init_def inv_with_def empty_db_def queue_ok_def gated_def attempts_ok_def held_def)
qed (rule inv_step)

section \<open>Without the assumption on timing\<close>

lemma queue_ok_step:
  assumes "step_with K wc s t" and "queue_ok (fst s)"
  shows "queue_ok (fst t)"
  using assms
proof (cases rule: step_with.cases)
  case (claimed pick skip now w kinds d j d' A)
  then show ?thesis using assms(2)
      claim_one_result [OF _ claimed(3), where d = d and skip = skip and now = now and w = w and kinds = kinds] by auto
next
  case (edited d d' A)
  then show ?thesis using assms(2) keeps_queue_has_recording [OF edited(3)]
    by (auto simp: keeps_queue_def intro: queue_ok_same_jobs)
next
  case (marked rid st d d' A)
  then show ?thesis using assms(2) jobs_of_status [OF marked(3)] by (auto intro: queue_ok_same_jobs)
next
  case (followed d rid k now p j d' A)
  then show ?thesis using assms(2) enqueue_ok by (auto simp: enqueue_def)
next
  case (requested k now rid p d j d' A)
  then show ?thesis using assms(2) enqueue_ok by (auto simp: enqueue_def)
next
  case (created i now title dev parts fmt rate d r d' A)
  have "jobs d' = jobs d \<and> next_job_id d' = next_job_id d \<and> (\<forall>r. has_recording d r \<longrightarrow> has_recording d' r)"
    using created(3) by (auto simp: create_recording_def has_recording_def Let_def split: if_splits)
  then show ?thesis using assms(2) created(1,2) by (auto intro: queue_ok_same_jobs)
next
  case (reprocessed rid d d' A)
  have "queue_ok d'"
    by (rule queue_ok_filter [where d = d and P = "\<lambda>j. job_recording_id j \<noteq> Some rid"])
      (use assms(2) reprocessed(1) jobs_of_status [OF reprocessed(3) [unfolded reset_for_reprocess_def]] in
        \<open>auto simp: delete_where_def has_recording_def\<close>)
  then show ?thesis using reprocessed(2) by simp
next
  case (rediarized rid d ok d' A)
  have old: "queue_ok d" using assms(2) rediarized(1) by simp
  show ?thesis
  proof (cases ok)
    case True
    have "queue_ok d'"
      by (rule queue_ok_filter [where d = d and P = "\<lambda>j. \<not> (job_recording_id j = Some rid \<and> job_kind j \<in> {Diarize, Merge, Embed, Summarize})"])
        (use True old rediarized(3) in \<open>auto simp: reset_for_rediarize_def delete_where_def has_recording_def
           split: if_splits sum.splits dest!: jobs_of_status\<close>)
    then show ?thesis using rediarized(2) by simp
  next
    case False
    then show ?thesis using old rediarized(2,3) by (auto simp: reset_for_rediarize_def split: if_splits sum.splits)
  qed
next
  case (deleted rid d d' A)
  have "queue_ok d'"
    by (rule queue_ok_filter [where d = d and P = "\<lambda>j. job_recording_id j \<noteq> Some rid"])
      (use assms(2) deleted(1,3) in \<open>auto simp: delete_recording_def not_found_if_zero_def delete_where_def
         has_recording_def split: if_splits\<close>)
  then show ?thesis using deleted(2) by simp
next
  case (beaten now jid w d b d' A)
  then show ?thesis using assms(2) heartbeat_ok by simp
next
  case (completed j A now d d')
  then show ?thesis using assms(2) complete_ok by simp
next
  case (retried j A now msg b d r d')
  then show ?thesis using assms(2) fail_ok by simp
next
  case (deferred j A now msg delay d d')
  then show ?thesis using assms(2) defer_ok by simp
next
  case (reaped A d now rs d')
  have "queue_ok d" using assms(2) reaped(1) by simp
  then show ?thesis using reap_ok [OF _ reaped(4)] reaped(2) by simp
qed (use assms(2) in simp)

interpretation untimed: step_system sys_init "any_step wc" "\<lambda>s. queue_ok (fst s)" for wc
proof
  show "sys_init s \<Longrightarrow> queue_ok (fst s)" for s by (simp add: sys_init_def empty_db_def queue_ok_def)
  fix s t assume "queue_ok (fst s)" "any_step wc s t"
  from this(2,1) show "queue_ok (fst t)"
  proof cases
    case (failed_late j A n now msg b d r d')
    then show ?thesis using write_failure_ok [OF _ _ failed_late(5)] \<open>queue_ok (fst s)\<close> by simp
  qed (use \<open>queue_ok (fst s)\<close> queue_ok_step reap_ok in auto)
qed

text \<open>
  What a late statement can do: a job that the reaper parked after its last attempt is put back on the
  queue by a worker that is told its window has closed.
\<close>

lemma late_defer_revives_parked_job:
  "let d = demo_db\<lparr>jobs := [demo_job\<lparr>job_state := Failed, job_attempts := 3\<rparr>]\<rparr> in
   queue_ok d \<and> attempts_ok 3 d \<and> (\<exists>d'. defer_job 9 1 WINDOW_CLOSED 60 d = Inr d' \<and> \<not> attempts_ok 3 d')"
  by (simp add: demo_db_def demo_job_def new_job_def queue_ok_def live_keys_def live_def job_ok_def lease_ok_def
      has_recording_def sample_db_def sample_recording_def attempts_ok_def defer_job_def update_jobs_def
      update_where_def)

section \<open>Claims\<close>

lemma claimed_row:
  assumes ok: "queue_ok d" and pick: "pick_ok pick" and c: "claim_one pick skip now w kinds d = Inr (Some j, d')"
  shows "queue_ok d' \<and> get_job d' (job_id j) = Some j \<and> job_state j = Running \<and> job_locked_by j = Some w \<and>
    job_locked_at j = Some now"
proof -
  obtain j0 where "j0 \<in> set (jobs d)" "d' = d\<lparr>jobs := map (\<lambda>x. if x = j0 then j else x) (jobs d)\<rparr>"
    and r: "queue_ok d'" "job_state j = Running" "job_locked_by j = Some w" "job_locked_at j = Some now"
    using claim_one_result [OF ok pick, where skip = skip and now = now and w = w and kinds = kinds] c by auto
  then have "j \<in> set (jobs d')" by auto
  then show ?thesis using r get_job_mem [OF r(1)] by blast
qed

lemma claims_exclusive:
  assumes old: "inv_with K wc (d, A)" and pick: "pick_ok pick"
    and c: "claim_one pick skip now w kinds d = Inr (Some j, d')"
    and a: "a \<in> set A" "get_job d (job_id a) = Some r" "job_recording_id j = Some x"
  shows "(job_recording_id a, job_kind a) \<noteq> (job_recording_id j, job_kind j)"
proof
  assume same: "(job_recording_id a, job_kind a) = (job_recording_id j, job_kind j)"
  obtain j0 where j0: "j0 \<in> set (jobs d)" "claimable now kinds skip j0" "j = leased now w j0"
    using claim_one_result [OF _ pick, where d = d and skip = skip and now = now and w = w and kinds = kinds] c old
    by (auto simp: inv_with_def)
  have r: "r \<in> set (jobs d)" "job_id r = job_id a" using get_job_Some [OF a(2)] by simp_all
  have l: "same_lease r a" using old a(1) r by (auto simp: inv_with_def held_def)
  then have "j0 \<noteq> r" "live j0" "live r" using j0(2) by (auto simp: same_lease_def claimable_def live_def)
  then show False
    using live_unique [of d j0 r x] l old j0(1,3) r(1) same a(3)
    by (simp add: inv_with_def same_lease_def leased_def take_lease_def)
qed


text \<open>A run of three steps: a recording is created, its transcode requested, and claimed.\<close>

lemma demo_created: "create_recording 7 0 None None None None None empty_db = Inr (sample_recording, sample_db)"
  by (simp add: create_recording_def has_recording_def empty_db_def sample_db_def sample_recording_def Let_def)

lemma demo_requested: "enqueue 1 7 Transcode (JObject []) sample_db = Inr (demo_job, demo_db)"
  by (simp add: enqueue_def enqueue_with_priority_def live_job_for_def demo_db_def demo_job_def sample_db_def
      empty_db_def has_recording_def sample_recording_def Let_def new_job_def)

lemma reach_any: "reach sys_init (step_with K wc) s \<Longrightarrow> reach sys_init (any_step wc) s"
  by (induction rule: reach.induct) (auto intro: reach_init reach_step on_time)

lemma demo_reach: "reach sys_init (sys_step wc) (demo_db, [])"
proof -
  have "reach sys_init (sys_step wc) (empty_db, [])" by (rule reach_init) (simp add: sys_init_def)
  then have "reach sys_init (sys_step wc) (sample_db, [])" by (rule reach_step) (rule created [OF demo_created])
  then show ?thesis by (rule reach_step) (rule requested [OF _ demo_requested], simp add: REQUEST_KINDS_def)
qed

definition demo_wc :: worker_config where
  "demo_wc = \<lparr>max_attempts = 3, poll_secs = 2, heartbeat_secs = 30\<rparr>"


section \<open>A failure's two statements\<close>

text \<open>
  \<open>fail\<close> reads the attempts in one statement and writes them in another. While the lease is held no step
  of anybody else changes them in between, so \<open>retried\<close> may take both at once.
\<close>

lemma updated_row:
  assumes "update_jobs now P f d = Inr d'" and "r' \<in> set (jobs d')" and "\<And>x. job_id (f x) = job_id x"
    and "\<And>x. x \<in> set (jobs d) \<Longrightarrow> P x \<Longrightarrow> job_id x = job_id r' \<Longrightarrow> job_attempts (f x) = job_attempts x"
  shows "\<exists>x \<in> set (jobs d). job_id x = job_id r' \<and> job_attempts x = job_attempts r'"
proof -
  have "r' \<in> (\<lambda>x. if P x then (f x)\<lparr>job_updated_at := now\<rparr> else x) ` set (jobs d)"
    using update_jobs_Inr [OF assms(1)] assms(2) by (simp add: set_update_where)
  then obtain x where "x \<in> set (jobs d)" "r' = (if P x then (f x)\<lparr>job_updated_at := now\<rparr> else x)" by blast
  then show ?thesis using assms(3,4) by (intro bexI [of _ x]) auto
qed

lemma enqueued_row:
  assumes "enqueue now rid k p d = Inr (j, d')" and "r' \<in> set (jobs d')" and "job_id r' < next_job_id d"
  shows "\<exists>x \<in> set (jobs d). job_id x = job_id r' \<and> job_attempts x = job_attempts r'"
proof -
  have "enqueue_with_priority now rid k p 0 d = Inr (j, d')" using assms(1) by (simp add: enqueue_def)
  then show ?thesis by (cases rule: enqueue_cases) (use assms(2,3) in \<open>auto simp: new_job_def\<close>)
qed

lemma held_row:
  assumes inv: "inv_with K wc (d, A)" and step: "step_with K wc (d, A) (d', A')" and j: "j \<in> set A" "j \<in> set A'"
    and r': "r' \<in> set (jobs d')" "job_id r' = job_id j"
  shows "\<exists>x \<in> set (jobs d). job_id x = job_id r' \<and> job_attempts x = job_attempts r'"
proof -
  have ok: "queue_ok d" and h: "held d A" using inv by (simp_all add: inv_with_def)
  have same: ?thesis if "set (jobs d') \<subseteq> set (jobs d)" using that r'(1) by blast
  have id: "job_id r' < next_job_id d" using h j(1) r'(2) by (simp add: held_def)
  have other: "job_id j \<noteq> job_id i" if "A' = remove1 i A" "i \<in> set A" for i
    using remove1_other [of A i j] h j that by (simp add: held_def)
  show ?thesis using step
  proof cases
    case (claimed pick skip now w kinds i)
    then obtain j0 where "j0 \<in> set (jobs d)" "i = leased now w j0"
      and d': "d' = d\<lparr>jobs := map (\<lambda>x. if x = j0 then i else x) (jobs d)\<rparr>"
      using claim_one_result [OF ok claimed(2), where skip = skip and now = now and w = w and kinds = kinds] by auto
    then have "job_id i = job_id j0" "job_attempts i = job_attempts j0" "r' \<in> set (jobs d) \<or> r' = i"
      using r'(1) by (auto simp: leased_def take_lease_def split: if_splits)
    then show ?thesis using \<open>j0 \<in> set (jobs d)\<close> by metis
  next
    case (beaten now jid w b)
    then have "update_jobs now (\<lambda>j. job_id j = jid \<and> job_locked_by j = Some w \<and> job_state j = Running)
        (\<lambda>j. j\<lparr>job_locked_at := Some now\<rparr>) d = Inr d'" by (auto simp: heartbeat_def Let_def split: sum.splits)
    then show ?thesis by (rule updated_row) (use r'(1) in simp_all)
  next
    case (completed i now)
    show ?thesis by (rule updated_row [OF completed(3) [unfolded complete_def] r'(1)]) simp_all
  next
    case (retried i now msg b r)
    obtain j0 :: job where "write_failure now (job_id i) (job_attempts j0 + 1) msg (max_attempts wc) b d = Inr (r, d')"
      using retried(3) by (rule fail_cases)
    then obtain g where u: "update_jobs now (\<lambda>x. job_id x = job_id i) g d = Inr d'" and g: "\<And>x. job_id (g x) = job_id x"
      by (rule write_failure_cases) (rule that, assumption, simp)
    show ?thesis by (rule updated_row [OF u r'(1) g]) (use other retried(1,2) r'(2) in auto)
  next
    case (deferred i now msg delay)
    show ?thesis by (rule updated_row [OF deferred(3) [unfolded defer_job_def] r'(1)]) simp_all
  next
    case (reaped now rs)
    then have u: "update_jobs now (lease_expired now (lease wc)) (reap (max_attempts wc)) d = Inr d'"
      by (auto simp: reap_stuck_def split: sum.splits)
    have fresh: "\<not> lease_expired now (lease wc) x" if "x \<in> set (jobs d)" "job_id x = job_id r'" for x
      using reaped(2) [OF j(1), of x] get_job_mem [OF ok that(1)] that(2) r'(2) by simp
    show ?thesis by (rule updated_row [OF u r'(1)]) (use fresh in \<open>auto simp: reap_def\<close>)
  next
    case (followed rid k now p i)
    show ?thesis by (rule enqueued_row [OF followed(3) r'(1) id])
  next
    case (requested k now rid p i)
    show ?thesis by (rule enqueued_row [OF requested(3) r'(1) id])
  next
    case (marked rid st)
    then show ?thesis using same jobs_of_status [OF marked(2)] by simp
  next
    case (reprocessed rid)
    then show ?thesis using same jobs_of_status [OF reprocessed(2) [unfolded reset_for_reprocess_def]]
      by (auto simp: delete_where_def)
  next
    case (rediarized rid b)
    have "set (jobs d') \<subseteq> set (jobs d)" using rediarized(2)
      by (auto simp: reset_for_rediarize_def delete_where_def split: if_splits sum.splits dest!: jobs_of_status)
    then show ?thesis by (rule same)
  next
    case (deleted rid)
    have "set (jobs d') \<subseteq> set (jobs d)" using deleted(2)
      by (auto simp: delete_recording_def not_found_if_zero_def delete_where_def split: if_splits)
    then show ?thesis by (rule same)
  next
    case (created i now title dev parts fmt rate r)
    have "jobs d' = jobs d" using created(2) by (auto simp: create_recording_def Let_def split: if_splits)
    then show ?thesis using same by simp
  qed (use same in \<open>simp_all add: keeps_queue_def\<close>)
qed

lemma attempts_while_leased:
  assumes "inv_with K wc (d, A)" and "step_with K wc (d, A) (d', A')" and "j \<in> set A" "j \<in> set A'"
    and "read_attempts (job_id j) d = Inr n" and "read_attempts (job_id j) d' = Inr n'"
  shows "n' = n"
proof -
  obtain r r' where r: "r \<in> set (jobs d)" "job_id r = job_id j" "job_attempts r = n"
    and r': "r' \<in> set (jobs d')" "job_id r' = job_id j" "job_attempts r' = n'"
    using assms(5,6) by (auto simp: read_attempts_def split: option.splits dest!: get_job_Some)
  obtain x where "x \<in> set (jobs d)" "job_id x = job_id r'" "job_attempts x = job_attempts r'"
    using held_row [OF assms(1-4) r'(1,2)] by blast
  moreover have "distinct (map job_id (jobs d))" using assms(1) by (simp add: inv_with_def queue_ok_def)
  ultimately show ?thesis using r r' distinct_map_eqD by metis
qed

section \<open>The code takes only these steps\<close>

lemma steps_one: "sys_step wc s t \<Longrightarrow> (sys_step wc)\<^sup>*\<^sup>* s t"
  by (rule r_into_rtranclp)

lemma steps_two: "sys_step wc s t \<Longrightarrow> sys_step wc t u \<Longrightarrow> (sys_step wc)\<^sup>*\<^sup>* s u"
  by (metis r_into_rtranclp rtranclp.rtrancl_into_rtrancl)

lemma enqueue_ready_steps:
  "enqueue_ready now rid ks d = (r, d') \<Longrightarrow> (sys_step wc)\<^sup>*\<^sup>* (d, A) (d', A)"
proof (induction now rid ks d rule: enqueue_ready.induct)
  case (2 now rid k ks d)
  show ?case
  proof (cases "predecessors_done d rid k")
    case ready: True
    show ?thesis
    proof (cases "enqueue now rid k empty_payload d")
      case (Inr p)
      obtain j d1 where p: "p = (j, d1)" by force
      have "sys_step wc (d, A) (d1, A)" using ready Inr p by (auto intro: followed)
      moreover have "(sys_step wc)\<^sup>*\<^sup>* (d1, A) (d', A)" using "2.IH"(1) [OF ready Inr p [symmetric]] "2.prems" ready Inr p by simp
      ultimately show ?thesis by (rule converse_rtranclp_into_rtranclp)
    qed (use 2 ready in simp)
  qed (use 2 in simp)
qed simp

lemma settle_ok_steps:
  assumes j: "j \<in> set A" and s: "settle_ok now j rid d = (r, d')"
  shows "(sys_step wc)\<^sup>*\<^sup>* (d, A) (d', remove1 j A)"
proof (cases "complete now (job_id j) d")
  case (Inl e)
  then show ?thesis using s steps_one [OF died] by (simp add: settle_ok_def)
next
  case (Inr d1)
  let ?A = "remove1 j A"
  obtain x d2 where e: "enqueue_successors now (job_kind j) rid d1 = (x, d2)" by force
  have "(sys_step wc)\<^sup>*\<^sup>* (d1, ?A) (d2, ?A)"
    using e enqueue_ready_steps by (simp add: enqueue_successors_def)
  moreover have "sys_step wc (d, A) (d1, ?A)" using j Inr by (rule completed)
  ultimately have to2: "(sys_step wc)\<^sup>*\<^sup>* (d, A) (d2, ?A)" by (meson converse_rtranclp_into_rtranclp)
  let ?m = "if job_kind j \<in> {Embed, Summarize} then maybe_mark_ready rid d2 else Inr d2"
  have mark: "(sys_step wc)\<^sup>*\<^sup>* (d2, ?A) (d3, ?A)" if "?m = Inr d3" for d3
    using that by (auto simp: maybe_mark_ready_def intro: steps_one marked split: if_splits)
  have more: "(sys_step wc)\<^sup>*\<^sup>* (d3, ?A) (d4, ?A)" if "enqueue now rid TranscribeSegment empty_payload d3 = Inr (y, d4)" for d3 d4 y
    by (rule steps_one, rule requested [OF _ that]) (simp add: REQUEST_KINDS_def)
  show ?thesis
  proof (cases x)
    case (Inl err)
    then show ?thesis using s e Inr to2 by (simp add: settle_ok_def)
  next
    case ok: (Inr u)
    show ?thesis
    proof (cases ?m)
      case (Inl err)
      then show ?thesis using s e ok Inr to2 by (simp add: settle_ok_def)
    next
      case m: (Inr d3)
      have "(sys_step wc)\<^sup>*\<^sup>* (d, A) (d3, ?A)" using to2 mark [OF m] by (rule rtranclp_trans)
      moreover have "d' = d3 \<or> (\<exists>y. enqueue now rid TranscribeSegment empty_payload d3 = Inr (y, d'))"
        using s e ok Inr m by (auto simp: settle_ok_def split: if_splits sum.splits)
      ultimately show ?thesis using more by (meson rtranclp_trans)
    qed
  qed
qed

lemma settle_err_steps:
  assumes j: "j \<in> set A" and s: "settle_err wc now msg j rid d = (r, d')"
  shows "(sys_step wc)\<^sup>*\<^sup>* (d, A) (d', remove1 j A)"
proof (cases "fail now (job_id j) msg (max_attempts wc) (secs (max (poll_secs wc) 1)) d")
  case (Inl e)
  then show ?thesis using s steps_one [OF died] by (simp add: settle_err_def)
next
  case (Inr p)
  obtain b d1 where p: "p = (b, d1)" by force
  have f: "sys_step wc (d, A) (d1, remove1 j A)" using j Inr [unfolded p] by (rule retried)
  have "d' = d1 \<or> set_recording_status rid RFailed d1 = Inr d'"
    using s Inr p by (cases b) (auto simp: settle_err_def split: sum.splits)
  then show ?thesis using steps_one [OF f] steps_two [OF f marked] by auto
qed

lemma process_job_steps:
  assumes j: "j \<in> set A" and s: "process_job wc (run_stage W cfg started) (stage_dropped W cfg started n) show_err ticks now j d = (r, d')"
  shows "(sys_step wc)\<^sup>*\<^sup>* (d, A) (d', remove1 j A)"
proof (cases "job_recording_id j")
  case None
  then show ?thesis using s j
    by (auto simp: process_job_def intro: steps_one died completed split: sum.splits)
next
  case (Some rid)
  show ?thesis
  proof (cases "stage_abandoned (job_kind j) ticks")
    case (Some retry_in)
    let ?d = "stage_dropped W cfg started n (job_kind j) rid (job_payload j) d"
    have "sys_step wc (d, A) (?d, A)" by (rule edited) (rule stage_dropped_keeps)
    moreover have "sys_step wc (?d, A) (d', remove1 j A)"
      using s j Some \<open>job_recording_id j = Some rid\<close>
      by (auto simp: process_job_def Let_def intro: died deferred split: sum.splits)
    ultimately show ?thesis by (rule steps_two)
  next
    case None
    obtain x d1 where st: "run_stage W cfg started (job_kind j) rid (job_payload j) d = (x, d1)" by force
    have e: "sys_step wc (d, A) (d1, A)" using run_stage_keeps [of d W cfg started "job_kind j" rid "job_payload j"] st
      by (simp add: edited)
    have "(sys_step wc)\<^sup>*\<^sup>* (d1, A) (d', remove1 j A)"
      using s \<open>job_recording_id j = Some rid\<close> None st
      by (auto simp: process_job_def intro: steps_one died settle_ok_steps [OF j] settle_err_steps [OF j]
          split: stage_exit.splits sum.splits)
    with e show ?thesis by (rule converse_rtranclp_into_rtranclp)
  qed
qed


lemma worker_turn_result:
  assumes pick: "pick_ok pick" and ok: "queue_ok d"
  shows "\<exists>b d'. worker_turn wc (run_stage W cfg started) (stage_dropped W cfg started n) show_err pick w claimed
      settled configured dec ticks d = Inr (b, d') \<and>
    (if b then \<exists>j d1. claim_one pick {} claimed w (claimable_kinds configured dec) d = Inr (Some j, d1) \<and>
         sys_step wc (d, A) (d1, j # A) \<and> (sys_step wc)\<^sup>*\<^sup>* (d1, j # A) (d', A)
     else d' = d)"
proof -
  let ?kinds = "claimable_kinds configured dec"
  obtain x d1 where c: "claim_one pick {} claimed w ?kinds d = Inr (x, d1)"
    using claim_one_result [OF ok pick, where skip = "{}" and now = claimed and w = w and kinds = ?kinds]
    by (auto split: sum.splits option.splits)
  show ?thesis
  proof (cases x)
    case None
    then have "d1 = d"
      using claim_one_result [OF ok pick, where skip = "{}" and now = claimed and w = w and kinds = ?kinds] c by simp
    then show ?thesis using c None by (intro exI [of _ False]) (simp add: worker_turn_def)
  next
    case (Some j)
    obtain r d' where p: "process_job wc (run_stage W cfg started) (stage_dropped W cfg started n) show_err ticks settled j d1 = (r, d')"
      by force
    have "(sys_step wc)\<^sup>*\<^sup>* (d1, j # A) (d', A)" using process_job_steps [OF _ p, of "j # A"] by simp
    moreover have "sys_step wc (d, A) (d1, j # A)" using pick c Some by (auto intro: claimed)
    ultimately show ?thesis using c Some p by (auto simp: worker_turn_def)
  qed
qed

lemma worker_turn_steps:
  assumes "pick_ok pick" and "queue_ok d"
    and "worker_turn wc (run_stage W cfg started) (stage_dropped W cfg started n) show_err pick w claimed settled
      configured dec ticks d = Inr (b, d')"
  shows "(sys_step wc)\<^sup>*\<^sup>* (d, A) (d', A)"
  using worker_turn_result [OF assms(1,2), where wc = wc and W = W and cfg = cfg and started = started and n = n and
      show_err = show_err and w = w and claimed = claimed and settled = settled and configured = configured and
      dec = dec and ticks = ticks and A = A] assms(3)
  by (auto split: if_splits intro: converse_rtranclp_into_rtranclp)

lemma park_recordings_steps: "(sys_step wc)\<^sup>*\<^sup>* (d, A) (park_recordings rs d, A)"
proof (induction rs d rule: park_recordings.induct)
  case (2 r rs d)
  let ?d = "if rj_exhausted r then (case rj_recording_id r of None \<Rightarrow> d
      | Some rid \<Rightarrow> (case set_recording_status rid RFailed d of Inl e \<Rightarrow> d | Inr d' \<Rightarrow> d')) else d"
  have "(sys_step wc)\<^sup>*\<^sup>* (d, A) (?d, A)"
    by (auto intro: steps_one marked split: option.splits sum.splits)
  then show ?case using 2 by (simp del: if_split)
qed simp

lemma reaper_pass_steps:
  assumes "\<And>j r. j \<in> set A \<Longrightarrow> get_job d (job_id j) = Some r \<Longrightarrow> \<not> lease_expired now (lease wc) r"
  shows "(sys_step wc)\<^sup>*\<^sup>* (d, A) (reaper_pass wc now d, A)"
proof (cases "reap_stuck now (lease wc) (max_attempts wc) d")
  case (Inl e)
  then show ?thesis by (simp add: reaper_pass_def)
next
  case (Inr p)
  obtain rs d1 where p: "p = (rs, d1)" by force
  have "sys_step wc (d, A) (d1, A)" using assms Inr [unfolded p] by (rule reaped)
  then show ?thesis using park_recordings_steps [of wc d1 A rs] Inr p
    by (simp add: reaper_pass_def converse_rtranclp_into_rtranclp)
qed

lemma inline_stages_steps:
  "inline_stages (run_stage W cfg now) rid ks d = (x, d') \<Longrightarrow> (sys_step wc)\<^sup>*\<^sup>* (d, A) (d', A)"
proof (induction "run_stage W cfg now" rid ks d rule: inline_stages.induct)
  case (2 rid k ks d)
  obtain y d1 where st: "run_stage W cfg now k rid empty_payload d = (y, d1)" by force
  have e: "sys_step wc (d, A) (d1, A)"
    using run_stage_keeps [of d W cfg now k rid empty_payload] st by (simp add: edited)
  have "(sys_step wc)\<^sup>*\<^sup>* (d1, A) (d', A)"
    using 2 st by (auto intro: steps_one marked split: stage_exit.splits sum.splits)
  with e show ?case by (rule converse_rtranclp_into_rtranclp)
qed simp

lemma process_recording_inline_steps:
  assumes "process_recording_inline load (run_stage W cfg now) rid d = (x, d')"
  shows "(sys_step wc)\<^sup>*\<^sup>* (d, A) (d', A)"
proof (cases "set_recording_status rid Processing d")
  case (Inl e)
  then show ?thesis using assms by (cases load) (simp_all add: process_recording_inline_def)
next
  case (Inr d1)
  obtain y d2 where i: "inline_stages (run_stage W cfg now) rid INLINE_ORDER d1 = (y, d2)" by force
  have "(sys_step wc)\<^sup>*\<^sup>* (d, A) (d2, A)"
    using marked [OF Inr, of REQUEST_KINDS wc A] inline_stages_steps [OF i] by (rule converse_rtranclp_into_rtranclp)
  moreover have "d' = d \<or> d' = d2 \<or> set_recording_status rid Ready d2 = Inr d'"
    using assms Inr i by (cases load) (auto simp: process_recording_inline_def split: stage_exit.splits sum.splits)
  ultimately show ?thesis by (auto intro: rtranclp.rtrancl_into_rtrancl marked)
qed


lemma enqueue_done_mono: "enqueue now rid k p d = Inr (j, d') \<Longrightarrow> done_for d r x \<Longrightarrow> done_for d' r x"
  unfolding enqueue_def by (erule enqueue_cases) (auto simp: done_for_def)

lemma enqueue_if_steps:
  assumes "enqueue_if want now rid k d = (x, d')" and "k \<in> REQUEST_KINDS \<or> predecessors_done d rid k"
  shows "(sys_step wc)\<^sup>*\<^sup>* (d, A) (d', A) \<and> (\<forall>r y. done_for d r y \<longrightarrow> done_for d' r y)"
  using assms
  by (auto simp: enqueue_if_def intro: steps_one followed requested dest: enqueue_done_mono split: if_splits sum.splits)

lemma reindex_all_steps:
  "reindex_all now e s rids d = (x, d') \<Longrightarrow> (\<forall>rid \<in> set rids. done_for d rid Merge) \<Longrightarrow> (sys_step wc)\<^sup>*\<^sup>* (d, A) (d', A)"
proof (induction now e s rids d rule: reindex_all.induct)
  case (2 now e s rid rids d)
  obtain x1 d1 where e1: "enqueue_if e now rid Embed d = (x1, d1)" by force
  obtain x2 d2 where e2: "enqueue_if s now rid Summarize d1 = (x2, d2)" by force
  have s1: "(sys_step wc)\<^sup>*\<^sup>* (d, A) (d1, A)" "\<And>r y. done_for d r y \<Longrightarrow> done_for d1 r y"
    using enqueue_if_steps [OF e1, of wc A] "2.prems"(2) by (auto simp: predecessors_done_iff)
  have s2: "(sys_step wc)\<^sup>*\<^sup>* (d1, A) (d2, A)" "\<And>r y. done_for d1 r y \<Longrightarrow> done_for d2 r y"
    using enqueue_if_steps [OF e2, of wc A] by (auto simp: REQUEST_KINDS_def)
  show ?case
  proof (cases x1)
    case (Inl err)
    then show ?thesis using "2.prems"(1) e1 s1(1) by simp
  next
    case i1: (Inr u)
    show ?thesis
    proof (cases x2)
      case (Inl err)
      then show ?thesis using "2.prems"(1) e1 e2 i1 rtranclp_trans [OF s1(1) s2(1)] by simp
    next
      case i2: (Inr v)
      have "(sys_step wc)\<^sup>*\<^sup>* (d2, A) (d', A)"
        using "2.IH" [of x1 d1 u x2 d2 v] "2.prems" e1 e2 i1 i2 s1(2) s2(2) by simp
      with s1(1) s2(1) show ?thesis by (meson rtranclp_trans)
    qed
  qed
qed simp

lemma reindex_steps:
  assumes "reindex now e s d = (x, d')"
  shows "(sys_step wc)\<^sup>*\<^sup>* (d, A) (d', A)"
proof -
  have "\<forall>rid \<in> set (recordings_with_merge_done d). done_for d rid Merge"
    by (auto simp: recordings_with_merge_done_def done_for_def map_filter_def)
  then show ?thesis using assms reindex_all_steps by (auto simp: reindex_def split: if_splits)
qed

lemma reach_steps: "(sys_step wc)\<^sup>*\<^sup>* s t \<Longrightarrow> reach sys_init (sys_step wc) s \<Longrightarrow> reach sys_init (sys_step wc) t"
  by (induction rule: rtranclp_induct) (auto intro: reach_step)

text \<open>Without the assumption on timing a pass of the reaper takes the steps of \<open>any_step\<close>.\<close>

lemma reaper_pass_any: "(any_step wc)\<^sup>*\<^sup>* (d, A) (reaper_pass wc now d, A)"
proof (cases "reap_stuck now (lease wc) (max_attempts wc) d")
  case (Inl e)
  then show ?thesis by (simp add: reaper_pass_def)
next
  case (Inr p)
  obtain rs d1 where p: "p = (rs, d1)" by force
  have "(any_step wc)\<^sup>*\<^sup>* (d1, A) (park_recordings rs d1, A)"
    using park_recordings_steps [of wc d1 A rs] by (rule rtranclp_mono [THEN predicate2D, rotated]) (auto intro: on_time)
  moreover have "any_step wc (d, A) (d1, A)" using Inr p by (auto intro: reaped_late)
  ultimately show ?thesis using Inr p by (simp add: reaper_pass_def converse_rtranclp_into_rtranclp)
qed

text \<open>
  C3: the code refines the step system: each of its operations is a sequence of steps from the tables
  it starts with to those it leaves, whatever statement fails, whenever a stage is dropped, and wherever
  it panics. On a well-formed queue a turn of a worker never fails; it either finds nothing, and changes
  nothing, or it claims a job in one step and then runs and settles it in further ones, at the end of
  which it holds no claim. An inline run and a reindex are such sequences too. So is a pass of the
  reaper if no living worker's lease has lapsed; if one has, it is a sequence of the steps without the
  assumption on timing.
\<close>

theorem code_refines_steps:
  assumes "queue_ok d" and "pick_ok pick"
  shows "(\<exists>b d'. worker_turn wc (run_stage W cfg started) (stage_dropped W cfg started n) show_err pick w claimed
        settled configured dec ticks d = Inr (b, d') \<and>
      (if b then \<exists>j d1. claim_one pick {} claimed w (claimable_kinds configured dec) d = Inr (Some j, d1) \<and>
           sys_step wc (d, A) (d1, j # A) \<and> (sys_step wc)\<^sup>*\<^sup>* (d1, j # A) (d', A)
       else d' = d)) \<and>
    (sys_step wc)\<^sup>*\<^sup>* (d, A) (snd (process_recording_inline load (run_stage W cfg now) rid d), A) \<and>
    (sys_step wc)\<^sup>*\<^sup>* (d, A) (snd (reindex now e s d), A) \<and>
    (any_step wc)\<^sup>*\<^sup>* (d, A) (reaper_pass wc now d, A) \<and>
    ((\<forall>a \<in> set A. \<forall>r. get_job d (job_id a) = Some r \<longrightarrow> \<not> lease_expired now (lease wc) r) \<longrightarrow>
       (sys_step wc)\<^sup>*\<^sup>* (d, A) (reaper_pass wc now d, A))"
  (is "?turn \<and> ?inline \<and> ?reindex \<and> ?late \<and> (?fresh \<longrightarrow> ?reaper)")
proof (intro conjI impI)
  show ?turn by (rule worker_turn_result [OF assms(2,1)])
  show ?inline using process_recording_inline_steps by (metis prod.collapse)
  show ?reindex using reindex_steps by (metis prod.collapse)
  show ?late by (rule reaper_pass_any)
  show ?reaper if ?fresh by (rule reaper_pass_steps) (use that in blast)
qed

text \<open>One worker is processing a job while another takes the next one, and the reaper comes by.\<close>

definition shared_db :: db where
  "shared_db = demo_db2\<lparr>jobs := [leased 5 (lit ''a'') demo_job, demo_job2]\<rparr>"

definition all_hours :: schedule_decision where
  "all_hours = \<lparr>allowed = True, reason = InWindow, next_change_secs = None\<rparr>"

theorem code_refines_steps_witness:
  "let A = [leased 5 (lit ''a'') demo_job] in
   (\<exists>d'. worker_turn demo_wc (run_stage demo_world demo_config 6) (stage_dropped demo_world demo_config 6 0)
        (\<lambda>_. []) hd (lit ''b'') 6 8 ALL_KINDS all_hours [] shared_db = Inr (True, d') \<and>
      (\<exists>j d1. sys_step demo_wc (shared_db, A) (d1, j # A) \<and> job_kind j = Summarize \<and>
         (sys_step demo_wc)\<^sup>*\<^sup>* (d1, j # A) (d', A))) \<and>
   (sys_step demo_wc)\<^sup>*\<^sup>* (shared_db, A) (snd (reindex 9 True True shared_db), A) \<and>
   (sys_step demo_wc)\<^sup>*\<^sup>* (shared_db, A) (reaper_pass demo_wc 9 shared_db, A)"
proof -
  let ?A = "[leased 5 (lit ''a'') demo_job]"
  have ok: "queue_ok shared_db"
    using claimed_row [OF demo_ok2 pick_ok_hd demo_claim1, of "lit ''a''"] by (simp add: shared_db_def)
  have kinds: "claimable_kinds ALL_KINDS all_hours = ALL_KINDS" by (simp add: claimable_kinds_def all_hours_def)
  have c: "claim_one hd {} 6 (lit ''b'') ALL_KINDS shared_db = Inr (Some (leased 6 (lit ''b'') demo_job2),
      demo_db2\<lparr>jobs := [leased 5 (lit ''a'') demo_job, leased 6 (lit ''b'') demo_job2]\<rparr>)"
    using demo_claim2 by (simp add: shared_db_def)
  have k: "job_kind (leased 6 (lit ''b'') demo_job2) = Summarize"
    by (simp add: leased_def take_lease_def demo_job2_def new_job_def)
  have fresh: "\<forall>a \<in> set ?A. \<forall>r. get_job shared_db (job_id a) = Some r \<longrightarrow> \<not> lease_expired 9 (lease demo_wc) r"
    by (simp add: shared_db_def get_job_def lookup_by_def demo_db2_def demo_job_def new_job_def leased_def take_lease_def
        lease_expired_def lease_def demo_wc_def)
  note R = code_refines_steps [OF ok pick_ok_hd, where wc = demo_wc and W = demo_world and cfg = demo_config and started = 6
      and n = 0 and show_err = "\<lambda>_. []" and w = "lit ''b''" and claimed = 6 and settled = 8 and configured = ALL_KINDS
      and dec = all_hours and ticks = "[]" and A = ?A and now = 9 and e = True and s = True, unfolded kinds c]
  obtain b d' where t: "worker_turn demo_wc (run_stage demo_world demo_config 6) (stage_dropped demo_world demo_config 6 0)
        (\<lambda>_. []) hd (lit ''b'') 6 8 ALL_KINDS all_hours [] shared_db = Inr (b, d')"
    and more: "if b then \<exists>j d1. Inr (Some (leased 6 (lit ''b'') demo_job2),
        demo_db2\<lparr>jobs := [leased 5 (lit ''a'') demo_job, leased 6 (lit ''b'') demo_job2]\<rparr>) = (Inr (Some j, d1) :: (job option \<times> db) res) \<and>
        sys_step demo_wc (shared_db, ?A) (d1, j # ?A) \<and> (sys_step demo_wc)\<^sup>*\<^sup>* (d1, j # ?A) (d', ?A)
      else d' = shared_db" using R by blast
  have b using t c kinds by (simp add: worker_turn_def)
  with more have "\<exists>j d1. sys_step demo_wc (shared_db, ?A) (d1, j # ?A) \<and> job_kind j = Summarize \<and>
      (sys_step demo_wc)\<^sup>*\<^sup>* (d1, j # ?A) (d', ?A)" using k by auto
  moreover have "(sys_step demo_wc)\<^sup>*\<^sup>* (shared_db, ?A) (snd (reindex 9 True True shared_db), ?A)" using R by blast
  moreover have "(sys_step demo_wc)\<^sup>*\<^sup>* (shared_db, ?A) (reaper_pass demo_wc 9 shared_db, ?A)" using R fresh by blast
  moreover have "worker_turn demo_wc (run_stage demo_world demo_config 6) (stage_dropped demo_world demo_config 6 0)
        (\<lambda>_. []) hd (lit ''b'') 6 8 ALL_KINDS all_hours [] shared_db = Inr (True, d')" using t \<open>b\<close> by simp
  ultimately show ?thesis unfolding Let_def by blast
qed

end
