(* ===== verification/Scribe_Drain.thy ===== *)
theory Scribe_Drain
  imports Scribe_System
begin

text \<open>
  Progress of the pipeline: when the engines work and the window is open, a worker that keeps taking
  turns brings every recording whose upload was completed to \<open>ready\<close>, through all six stages, in a
  number of turns known beforehand.
\<close>

definition PIPELINE :: "job_kind list" where
  "PIPELINE = [Transcode, Diarize, Transcribe, Merge, Embed, Summarize]"

lemma PIPELINE_iff: "k \<in> set PIPELINE \<longleftrightarrow> k \<noteq> TranscribeSegment"
  by (cases k) (simp_all add: PIPELINE_def)

definition slot :: "job \<Rightarrow> uuid option \<times> job_kind" where
  "slot j = (job_recording_id j, job_kind j)"

section \<open>The interface of a stage that works\<close>

text \<open>
  \<open>made\<close> says that what the stage hands to its successors is in the tables. With its inputs there a
  stage of a known recording succeeds and leaves its output, as long as its engines are \<open>able\<close>; no
  stage takes away an output.
\<close>

locale productive_stages = stage_runner +
  fixes made :: "db \<Rightarrow> uuid \<Rightarrow> job_kind \<Rightarrow> bool" and able :: bool
  assumes runs: "able \<Longrightarrow> has_recording d rid \<Longrightarrow> k \<noteq> TranscribeSegment \<Longrightarrow> (\<forall>p \<in> set (predecessors k). made d rid p) \<Longrightarrow>
      \<exists>d'. stage k rid payload d = (Finished (Inr ()), d') \<and> made d' rid k"
    and keeps_made: "made d r x \<Longrightarrow> made (snd (stage k rid payload d)) r x"
    and made_cong: "artifacts d' = artifacts d \<Longrightarrow> made d' r x = made d r x"

section \<open>States of the pipeline under way\<close>

text \<open>
  Every job is queued and due or done, of one of the recordings; a stage has its one job exactly when
  the stages before it are done; a recording with both last stages done is ready.
\<close>

definition status_is :: "db \<Rightarrow> uuid \<Rightarrow> recording_status \<Rightarrow> bool" where
  "status_is d rid s \<longleftrightarrow> (\<forall>r \<in> set (recordings d). rec_id r = rid \<longrightarrow> rec_status r = s)"

definition under_way :: "timestamp \<Rightarrow> uuid list \<Rightarrow> db \<Rightarrow> bool" where
  "under_way now rids d \<longleftrightarrow> queue_ok d \<and> (\<forall>rid \<in> set rids. has_recording d rid) \<and> distinct (map slot (jobs d)) \<and>
     (\<forall>j \<in> set (jobs d). slot j \<in> (\<lambda>(r, k). (Some r, k)) ` (set rids \<times> set PIPELINE) \<and>
        (job_state j = Done \<or> job_state j = Queued \<and> job_run_after j \<le> now)) \<and>
     (\<forall>rid \<in> set rids. \<forall>k \<in> set PIPELINE. (Some rid, k) \<in> slot ` set (jobs d) \<longleftrightarrow> predecessors_done d rid k) \<and>
     (\<forall>rid \<in> set rids. done_for d rid Embed \<and> done_for d rid Summarize \<longrightarrow> status_is d rid Ready)"

definition finished_jobs :: "db \<Rightarrow> nat" where
  "finished_jobs d = length (filter (\<lambda>j. job_state j = Done) (jobs d))"

lemma under_way_later: "under_way now rids d \<Longrightarrow> now \<le> later \<Longrightarrow> under_way later rids d"
  by (fastforce simp: under_way_def)

lemma slot_simps [simp]: "slot j = (r, k) \<longleftrightarrow> job_recording_id j = r \<and> job_kind j = k"
  by (simp add: slot_def)

lemma done_for_slot: "done_for d rid k \<longleftrightarrow> (\<exists>j \<in> set (jobs d). slot j = (Some rid, k) \<and> job_state j = Done)"
  by (auto simp: done_for_def)

text \<open>At most six jobs per recording, so at most that many are ever finished.\<close>

lemma jobs_bounded:
  assumes "under_way now rids d"
  shows "length (jobs d) \<le> 6 * length rids"
proof -
  let ?S = "(\<lambda>(r, k). (Some r, k)) ` (set rids \<times> set PIPELINE)"
  have "length (jobs d) = card (slot ` set (jobs d))"
    using assms distinct_card [of "map slot (jobs d)"] by (simp add: under_way_def)
  also have "\<dots> \<le> card ?S" using assms by (intro card_mono) (auto simp: under_way_def)
  also have "\<dots> \<le> card (set rids \<times> set PIPELINE)" by (rule card_image_le) simp
  also have "\<dots> \<le> 6 * length rids" using card_length [of rids] by (simp add: card_cartesian_product PIPELINE_def)
  finally show ?thesis .
qed

text \<open>When nothing is waiting, everything is done.\<close>

lemma all_done:
  assumes u: "under_way now rids d" and none: "\<forall>j \<in> set (jobs d). job_state j = Done" and rid: "rid \<in> set rids"
  shows "(\<forall>k \<in> set PIPELINE. done_for d rid k) \<and> status_is d rid Ready"
proof -
  have step: "done_for d rid k" if "k \<noteq> TranscribeSegment" "\<forall>p \<in> set (predecessors k). done_for d rid p" for k
  proof -
    have "(Some rid, k) \<in> slot ` set (jobs d)"
      using u rid that by (auto simp: under_way_def predecessors_done_iff PIPELINE_iff)
    then show ?thesis using none by (auto simp: done_for_slot simp del: slot_simps)
  qed
  have tc: "done_for d rid Transcode" by (rule step) simp_all
  have dz: "done_for d rid Diarize" "done_for d rid Transcribe" by (rule step; simp add: tc)+
  have mg: "done_for d rid Merge" by (rule step) (simp_all add: dz)
  have es: "done_for d rid Embed" "done_for d rid Summarize" by (rule step; simp add: mg)+
  have "\<forall>k \<in> set PIPELINE. done_for d rid k" by (simp add: PIPELINE_def tc dz mg es)
  moreover have "status_is d rid Ready" using u rid es by (simp add: under_way_def)
  ultimately show ?thesis ..
qed

section \<open>Settling a finished stage\<close>

lemma enqueue_fresh:
  assumes "has_recording d rid" and "(Some rid, k) \<notin> slot ` set (jobs d)"
  shows "enqueue now rid k p d = Inr (new_job now (next_job_id d) rid k p 0,
    d\<lparr>jobs := jobs d @ [new_job now (next_job_id d) rid k p 0], next_job_id := next_job_id d + 1\<rparr>)"
proof -
  have "set (live_job_for d rid k) = {}"
    using assms(2) unfolding live_job_for_mem by (auto simp: image_iff slot_def)
  then have "live_job_for d rid k = []" by simp
  then show ?thesis using assms(1) by (simp add: enqueue_def enqueue_with_priority_def Let_def)
qed

text \<open>The jobs that \<open>enqueue_ready\<close> adds.\<close>

definition appended :: "timestamp \<Rightarrow> uuid \<Rightarrow> job_kind list \<Rightarrow> db \<Rightarrow> db \<Rightarrow> bool" where
  "appended now rid ks d d' \<longleftrightarrow> (\<exists>new. jobs d' = jobs d @ new \<and> recordings d' = recordings d \<and> artifacts d' = artifacts d \<and>
     map slot new = map (\<lambda>k. (Some rid, k)) ks \<and> (\<forall>j \<in> set new. job_state j = Queued \<and> job_run_after j = now))"

lemma enqueue_ready_fresh:
  assumes "queue_ok d" and "has_recording d rid" and "distinct ks"
    and "\<forall>k \<in> set ks. (Some rid, k) \<notin> slot ` set (jobs d)"
  shows "\<exists>d'. enqueue_ready now rid ks d = (Inr (), d') \<and> queue_ok d' \<and>
    appended now rid (filter (predecessors_done d rid) ks) d d'"
  using assms
proof (induction ks arbitrary: d)
  case Nil
  then show ?case by (simp add: appended_def)
next
  case (Cons k ks)
  show ?case
  proof (cases "predecessors_done d rid k")
    case False
    then show ?thesis using Cons by simp
  next
    case True
    let ?j = "new_job now (next_job_id d) rid k empty_payload 0"
    let ?d = "d\<lparr>jobs := jobs d @ [?j], next_job_id := next_job_id d + 1\<rparr>"
    have e: "enqueue now rid k empty_payload d = Inr (?j, ?d)" using Cons.prems by (intro enqueue_fresh) simp_all
    have ok: "queue_ok ?d" using enqueue_ok [OF Cons.prems(1)] e unfolding enqueue_def by blast
    have pd: "predecessors_done ?d rid x = predecessors_done d rid x" for x
      by (auto simp: predecessors_done_iff done_for_def new_job_def)
    have sl: "slot ?j = (Some rid, k)" by (simp add: new_job_def)
    have "has_recording ?d rid" "distinct ks" "\<forall>x \<in> set ks. (Some rid, x) \<notin> slot ` set (jobs ?d)"
      using Cons.prems(2-4) sl by (auto simp: has_recording_def simp del: slot_simps)
    from Cons.IH [OF ok this] obtain d' where d': "enqueue_ready now rid ks ?d = (Inr (), d')" "queue_ok d'"
      "appended now rid (filter (predecessors_done ?d rid) ks) ?d d'" by blast
    have "predecessors_done ?d rid = predecessors_done d rid" using pd by (rule ext)
    then obtain new where new: "jobs d' = jobs ?d @ new" "recordings d' = recordings d" "artifacts d' = artifacts d"
      "map slot new = map (\<lambda>k. (Some rid, k)) (filter (predecessors_done d rid) ks)"
      "\<forall>j \<in> set new. job_state j = Queued \<and> job_run_after j = now"
      using d'(3) by (auto simp: appended_def)
    have "jobs d' = jobs d @ (?j # new)" "job_state ?j = Queued" "job_run_after ?j = now"
      "map slot (?j # new) = map (\<lambda>k. (Some rid, k)) (filter (predecessors_done d rid) (k # ks))"
      using new(1,4) sl True by (simp_all add: new_job_def)
    then have "appended now rid (filter (predecessors_done d rid) (k # ks)) d d'"
      using new(2,3,5) unfolding appended_def by (intro exI [of _ "?j # new"]) simp
    then show ?thesis using True e d' by auto
  qed
qed


text \<open>The job \<open>j0\<close> has been replaced by \<open>dj\<close>, which is done; nothing else in the queue differs.\<close>

definition ticked_off :: "job \<Rightarrow> job \<Rightarrow> db \<Rightarrow> db \<Rightarrow> bool" where
  "ticked_off j0 dj d d' \<longleftrightarrow> jobs d' = map (\<lambda>x. if x = j0 then dj else x) (jobs d) \<and>
     slot dj = slot j0 \<and> job_state dj = Done \<and>
     map (\<lambda>r. (rec_id r, rec_status r)) (recordings d') = map (\<lambda>r. (rec_id r, rec_status r)) (recordings d)"

lemma ticked_off_slots: "ticked_off j0 dj d d' \<Longrightarrow> map slot (jobs d') = map slot (jobs d)"
  by (auto simp: ticked_off_def simp del: slot_simps)

lemma ticked_off_done:
  assumes "ticked_off j0 dj d d'" and "j0 \<in> set (jobs d)" and "slot j0 = (Some rid, k)" and "job_state j0 = Queued"
  shows "done_for d' r x \<longleftrightarrow> done_for d r x \<or> (r, x) = (rid, k)"
proof
  assume "done_for d' r x"
  then obtain j where j: "j \<in> set (jobs d')" "slot j = (Some r, x)" "job_state j = Done" by (auto simp: done_for_slot)
  then obtain i where i: "i \<in> set (jobs d)" "j = (if i = j0 then dj else i)" using assms(1) by (auto simp: ticked_off_def)
  show "done_for d r x \<or> (r, x) = (rid, k)"
  proof (cases "i = j0")
    case True
    then have "slot j0 = (Some r, x)" using assms(1) i j(2) by (simp add: ticked_off_def del: slot_simps)
    then show ?thesis using assms(3) by simp
  next
    case False
    then show ?thesis using i j by (auto simp: done_for_slot)
  qed
next
  assume "done_for d r x \<or> (r, x) = (rid, k)"
  then show "done_for d' r x"
  proof
    assume "done_for d r x"
    then obtain j where j: "j \<in> set (jobs d)" "slot j = (Some r, x)" "job_state j = Done" by (auto simp: done_for_slot)
    then have "j \<noteq> j0" using assms(4) by auto
    then have "j \<in> set (jobs d')" using assms(1) j(1) by (force simp: ticked_off_def simp del: slot_simps)
    then show ?thesis using j by (auto simp: done_for_slot)
  next
    assume "(r, x) = (rid, k)"
    moreover have "dj \<in> set (jobs d')" "slot dj = (Some rid, k)" "job_state dj = Done"
      using assms by (auto simp: ticked_off_def simp del: slot_simps)
    ultimately show ?thesis unfolding done_for_slot by blast
  qed
qed

lemma ticked_off_count:
  assumes "ticked_off j0 dj d d'" and "distinct (jobs d)" and "j0 \<in> set (jobs d)" and "job_state j0 = Queued"
  shows "finished_jobs d' = finished_jobs d + 1"
proof -
  obtain xs ys where js: "jobs d = xs @ j0 # ys" using assms(3) by (meson split_list)
  have out: "j0 \<notin> set xs" "j0 \<notin> set ys" using assms(2) js by auto
  have id: "map (\<lambda>x. if x = j0 then dj else x) zs = zs" if "j0 \<notin> set zs" for zs
    using that by (induction zs) auto
  have "jobs d' = xs @ dj # ys" using assms(1) js id [OF out(1)] id [OF out(2)] by (simp add: ticked_off_def del: slot_simps)
  then show ?thesis using assms(1,4) js by (simp add: finished_jobs_def ticked_off_def)
qed

text \<open>Then the stages that have become ready are queued.\<close>

lemma under_way_successors:
  assumes u: "under_way now rids d" and j0: "j0 \<in> set (jobs d)" "slot j0 = (Some rid, k)" "job_state j0 = Queued"
    and t: "ticked_off j0 dj d d3" and ok: "queue_ok d3"
  shows "\<exists>d4. enqueue_ready now rid (successors k) d3 = (Inr (), d4) \<and> queue_ok d4 \<and>
    recordings d4 = recordings d3 \<and> artifacts d4 = artifacts d3 \<and> finished_jobs d4 = finished_jobs d3 \<and>
    (\<forall>r x. done_for d4 r x = done_for d3 r x) \<and> distinct (map slot (jobs d4)) \<and>
    slot ` set (jobs d4) = slot ` set (jobs d) \<union> {(Some rid, s) | s. s \<in> set (successors k) \<and> predecessors_done d3 rid s} \<and>
    (\<forall>j \<in> set (jobs d4). job_state j = Done \<or> job_state j = Queued \<and> job_run_after j \<le> now)"
proof -
  note D = ticked_off_done [OF t j0(1,2,3)]
  have hr: "has_recording d rid" and rid: "rid \<in> set rids" using u j0(1,2) by (auto simp: under_way_def)
  have nd: "\<not> done_for d rid k"
  proof
    assume "done_for d rid k"
    then obtain j where j: "j \<in> set (jobs d)" "slot j = slot j0" "job_state j = Done" using j0(2) by (auto simp: done_for_slot)
    then have "j = j0" using u j0(1) by (auto simp: under_way_def intro: distinct_map_eqD simp del: slot_simps)
    then show False using j(3) j0(3) by simp
  qed
  have slots: "map slot (jobs d3) = map slot (jobs d)" by (rule ticked_off_slots [OF t])
  have sset: "slot ` set (jobs d3) = slot ` set (jobs d)" using slots by (metis list.set_map)
  have fresh: "\<forall>s \<in> set (successors k). (Some rid, s) \<notin> slot ` set (jobs d3)"
  proof
    fix s assume "s \<in> set (successors k)"
    then have "k \<in> set (predecessors s)" by (simp add: successors_iff_predecessors)
    then have "\<not> predecessors_done d rid s" "s \<in> set PIPELINE"
      using nd by (auto simp: predecessors_done_iff PIPELINE_iff)
    then have "(Some rid, s) \<notin> slot ` set (jobs d)" using u rid unfolding under_way_def by blast
    then show "(Some rid, s) \<notin> slot ` set (jobs d3)" by (simp only: sset not_False_eq_True)
  qed
  have hr3: "has_recording d3 rid"
  proof -
    have "map fst (map (\<lambda>r. (rec_id r, rec_status r)) (recordings d3)) = map fst (map (\<lambda>r. (rec_id r, rec_status r)) (recordings d))"
      using t by (simp add: ticked_off_def)
    then have "map rec_id (recordings d3) = map rec_id (recordings d)" by (simp add: o_def)
    then show ?thesis using hr unfolding has_recording_def by (metis list.set_map)
  qed
  have "distinct (successors k)" by (cases k) simp_all
  from enqueue_ready_fresh [OF ok hr3 this fresh, of now] obtain d4 new where
    d4: "enqueue_ready now rid (successors k) d3 = (Inr (), d4)" "queue_ok d4"
      "jobs d4 = jobs d3 @ new" "recordings d4 = recordings d3" "artifacts d4 = artifacts d3"
      "map slot new = map (\<lambda>k. (Some rid, k)) (filter (predecessors_done d3 rid) (successors k))"
      "\<forall>j \<in> set new. job_state j = Queued \<and> job_run_after j = now"
    unfolding appended_def by blast
  have new: "slot ` set new = {(Some rid, s) | s. s \<in> set (successors k) \<and> predecessors_done d3 rid s}"
    using arg_cong [OF d4(6), of set] by auto
  have "distinct (map slot (jobs d4))"
  proof -
    have "distinct (map slot new)" unfolding d4(6) using \<open>distinct (successors k)\<close> by (simp add: distinct_map inj_on_def)
    moreover have "distinct (map slot (jobs d3))" using u slots by (simp add: under_way_def)
    moreover have "set (map slot (jobs d3)) \<inter> set (map slot new) = {}" using fresh new by auto
    ultimately show ?thesis by (simp add: d4(3))
  qed
  moreover have "done_for d4 r x = done_for d3 r x" for r x
    using d4(7) by (auto simp: done_for_def d4(3))
  moreover have "finished_jobs d4 = finished_jobs d3"
    using d4(7) by (auto simp: finished_jobs_def d4(3) filter_empty_conv)
  moreover have "slot ` set (jobs d4) = slot ` set (jobs d) \<union> {(Some rid, s) | s. s \<in> set (successors k) \<and> predecessors_done d3 rid s}"
    by (simp only: d4(3) set_append image_Un sset new)
  moreover have "job_state j = Done \<or> job_state j = Queued \<and> job_run_after j \<le> now" if "j \<in> set (jobs d4)" for j
  proof -
    have "j \<in> set (jobs d) \<or> j = dj \<or> j \<in> set new" using that t by (auto simp: d4(3) ticked_off_def split: if_splits)
    then show ?thesis using u t d4(7) by (auto simp: under_way_def ticked_off_def simp del: slot_simps)
  qed
  ultimately show ?thesis using d4(1,2,4,5) by blast
qed


lemma status_is_map:
  "status_is d rid s \<longleftrightarrow> (\<forall>p \<in> set (map (\<lambda>r. (rec_id r, rec_status r)) (recordings d)). fst p = rid \<longrightarrow> snd p = s)"
  by (auto simp: status_is_def)

lemma marked_ready:
  assumes "has_recording d rid"
  obtains d' where "set_recording_status rid s d = Inr d'" "status_is d' rid s" "jobs d' = jobs d"
    "artifacts d' = artifacts d" "next_job_id d' = next_job_id d" "\<And>r. has_recording d' r = has_recording d r"
    "\<And>r x. r \<noteq> rid \<Longrightarrow> status_is d' r x = status_is d r x"
proof -
  let ?d = "d\<lparr>recordings := update_where (\<lambda>r. rec_id r = rid) (\<lambda>r. r\<lparr>rec_status := s\<rparr>) (recordings d)\<rparr>"
  have e: "set_recording_status rid s d = Inr ?d"
    using assms by (simp add: set_recording_status_def update_recording_cases)
  have recs: "recordings ?d = map (\<lambda>y. if rec_id y = rid then y\<lparr>rec_status := s\<rparr> else y) (recordings d)"
    by (simp add: update_where_def)
  have mem: "r \<in> set (recordings ?d) \<longleftrightarrow> (\<exists>y \<in> set (recordings d). r = (if rec_id y = rid then y\<lparr>rec_status := s\<rparr> else y))" for r
    unfolding recs list.set_map image_iff ..
  have "status_is ?d rid s" unfolding status_is_def by (metis mem recording.select_convs(6) recording.surjective recording.update_convs(6))
  moreover have "status_is ?d r x = status_is d r x" if "r \<noteq> rid" for r x
    unfolding status_is_def Ball_def mem using that by fastforce
  moreover have "jobs ?d = jobs d" "artifacts ?d = artifacts d" "next_job_id ?d = next_job_id d" by simp_all
  moreover have "has_recording ?d r = has_recording d r" for r using jobs_of_status [OF e] by blast
  ultimately show ?thesis using that [OF e] by blast
qed

lemma embed_and_summarize_iff:
  "embed_and_summarize_done d rid \<longleftrightarrow> done_for d rid Embed \<and> done_for d rid Summarize"
  using count_done_all [of "[Embed, Summarize]" d rid] by (simp add: embed_and_summarize_done_def numeral_2_eq_2)

lemma done_completed:
  assumes ok: "queue_ok d" "queue_ok d2" and j0: "j0 \<in> set (jobs d)" and r: "rj = leased now w j0"
    and d2: "jobs d2 = map (\<lambda>x. if x = j0 then rj else x) (jobs d)"
      "map (\<lambda>r. (rec_id r, rec_status r)) (recordings d2) = map (\<lambda>r. (rec_id r, rec_status r)) (recordings d)"
  obtains d3 dj where "complete now' (job_id rj) d2 = Inr d3" "ticked_off j0 dj d d3" "queue_ok d3"
    "artifacts d3 = artifacts d2"
proof -
  let ?f = "\<lambda>j. j\<lparr>job_state := Done, job_locked_by := None, job_locked_at := None, job_error := None\<rparr>"
  let ?dj = "(?f rj)\<lparr>job_updated_at := now'\<rparr>"
  have rj: "rj \<in> set (jobs d2)" using j0 d2(1) by auto
  have c: "complete now' (job_id rj) d2 = Inr (replace_job rj ?dj d2)"
    unfolding complete_def by (subst update_job_by_id [OF ok(2) rj]) (simp_all add: live_def)
  have "x \<noteq> rj" if "x \<in> set (jobs d)" "x \<noteq> j0" for x
  proof
    assume "x = rj"
    then have "job_id x = job_id j0" by (simp add: r leased_def take_lease_def)
    then show False using ok(1) that j0 unfolding queue_ok_def by (blast dest: distinct_map_eqD)
  qed
  then have "map (\<lambda>x. if x = rj then ?dj else x) (jobs d2) = map (\<lambda>x. if x = j0 then ?dj else x) (jobs d)"
    unfolding d2(1) by simp
  then have "ticked_off j0 ?dj d (replace_job rj ?dj d2)"
    using d2(2) unfolding ticked_off_def replace_job_def by (simp add: slot_def) (simp add: r leased_def take_lease_def)
  then show ?thesis using that [OF c] complete_ok [OF ok(2) c] by (simp add: replace_job_def)
qed

lemma settle_under_way:
  assumes u: "under_way now rids d" and j0: "j0 \<in> set (jobs d)" "slot j0 = (Some rid, k)" "job_state j0 = Queued"
    and rj: "rj = leased c w j0" and ok: "queue_ok d2"
    and d2: "jobs d2 = map (\<lambda>x. if x = j0 then rj else x) (jobs d)"
      "map (\<lambda>r. (rec_id r, rec_status r)) (recordings d2) = map (\<lambda>r. (rec_id r, rec_status r)) (recordings d)"
  shows "\<exists>d'. settle_ok now rj rid d2 = (Inr (), d') \<and> under_way now rids d' \<and> artifacts d' = artifacts d2 \<and>
    finished_jobs d' = finished_jobs d + 1 \<and> (\<forall>r x. done_for d' r x \<longleftrightarrow> done_for d r x \<or> (r, x) = (rid, k))"
proof -
  have old: "queue_ok d" "distinct (jobs d)" and rid: "rid \<in> set rids" and k: "k \<in> set PIPELINE" "k \<noteq> TranscribeSegment"
    and kind: "job_kind rj = k"
    using u j0 by (auto simp: under_way_def PIPELINE_iff rj leased_def take_lease_def distinct_map)
  obtain d3 dj where c: "complete now (job_id rj) d2 = Inr d3" and t: "ticked_off j0 dj d d3" and ok3: "queue_ok d3"
    and a3: "artifacts d3 = artifacts d2"
    by (rule done_completed [OF old(1) ok j0(1) rj d2])
  note D = ticked_off_done [OF t j0]
  obtain d4 where e: "enqueue_ready now rid (successors k) d3 = (Inr (), d4)" and ok4: "queue_ok d4"
    and r4: "recordings d4 = recordings d3" "artifacts d4 = artifacts d3" "finished_jobs d4 = finished_jobs d3"
    and D4': "\<forall>r x. done_for d4 r x = done_for d3 r x" and dist: "distinct (map slot (jobs d4))"
    and slots: "slot ` set (jobs d4) = slot ` set (jobs d) \<union> {(Some rid, s) | s. s \<in> set (successors k) \<and> predecessors_done d3 rid s}"
    and due: "\<forall>j \<in> set (jobs d4). job_state j = Done \<or> job_state j = Queued \<and> job_run_after j \<le> now"
    using under_way_successors [OF u j0 t ok3] by (elim exE conjE) (rule that)
  then have D4: "done_for d4 r x = done_for d3 r x" for r x by blast
  have rec: "map (\<lambda>r. (rec_id r, rec_status r)) (recordings d4) = map (\<lambda>r. (rec_id r, rec_status r)) (recordings d)"
    using t r4(1) by (simp add: ticked_off_def)
  have hr: "has_recording d4 r = has_recording d r" for r
    using keeps_queue_has_recording [of d "d\<lparr>recordings := recordings d4\<rparr>" r] rec by (simp add: keeps_queue_def has_recording_def)
  have st: "status_is d4 r s = status_is d r s" for r s unfolding status_is_map rec ..
  obtain d5 where m: "(if k \<in> {Embed, Summarize} then maybe_mark_ready rid d4 else Inr d4) = Inr d5"
    and d5: "jobs d5 = jobs d4" "artifacts d5 = artifacts d4" "next_job_id d5 = next_job_id d4"
      "\<And>r. has_recording d5 r = has_recording d4 r"
    and ready: "\<And>r. r \<in> set rids \<Longrightarrow> done_for d4 r Embed \<Longrightarrow> done_for d4 r Summarize \<Longrightarrow> status_is d5 r Ready"
  proof (cases "k \<in> {Embed, Summarize} \<and> embed_and_summarize_done d4 rid")
    case True
    have "has_recording d4 rid" using u rid hr by (simp add: under_way_def)
    then obtain d5 where d5: "set_recording_status rid Ready d4 = Inr d5" "status_is d5 rid Ready" "jobs d5 = jobs d4"
      "artifacts d5 = artifacts d4" "next_job_id d5 = next_job_id d4" "\<And>r. has_recording d5 r = has_recording d4 r"
      "\<And>r x. r \<noteq> rid \<Longrightarrow> status_is d5 r x = status_is d4 r x" by (rule marked_ready [where s = Ready]) (rule that)
    have "status_is d5 r Ready" if "r \<in> set rids" "done_for d4 r Embed" "done_for d4 r Summarize" for r
      using that u d5(2,7) D D4 st by (cases "r = rid") (auto simp: under_way_def)
    then show ?thesis using that [of d5] True d5 by (auto simp: maybe_mark_ready_def)
  next
    case False
    have "status_is d4 r Ready" if "r \<in> set rids" "done_for d4 r Embed" "done_for d4 r Summarize" for r
      using that u D D4 st False by (auto simp: under_way_def embed_and_summarize_iff)
    then show ?thesis using that [of d4] False by (auto simp: maybe_mark_ready_def)
  qed
  have D5: "done_for d5 r x \<longleftrightarrow> done_for d r x \<or> (r, x) = (rid, k)" for r x
    using D D4 [of r x] by (simp add: done_for_def d5(1))
  have P5: "predecessors_done d5 r x = predecessors_done d3 r x" for r x
    using D D5 by (simp add: predecessors_done_iff)
  have gate: "(Some r, x) \<in> slot ` set (jobs d5) \<longleftrightarrow> predecessors_done d5 r x" if "r \<in> set rids" "x \<in> set PIPELINE" for r x
  proof -
    have old_iff: "(Some r, x) \<in> slot ` set (jobs d) \<longleftrightarrow> predecessors_done d r x" using u that unfolding under_way_def by blast
    have "predecessors_done d3 r x \<longleftrightarrow> predecessors_done d r x \<or> (r = rid \<and> x \<in> set (successors k) \<and> predecessors_done d3 rid x)"
      using D by (auto simp: predecessors_done_iff successors_iff_predecessors)
    then show ?thesis using old_iff by (auto simp: d5(1) slots P5)
  qed
  have "under_way now rids d5"
    unfolding under_way_def
  proof (intro conjI ballI impI)
    show "queue_ok d5" by (rule queue_ok_same_jobs [OF ok4]) (simp_all add: d5)
    show "has_recording d5 r" if "r \<in> set rids" for r using that u by (simp add: under_way_def d5(4) hr)
    show "distinct (map slot (jobs d5))" using dist by (simp add: d5(1))
    show "slot j \<in> (\<lambda>(r, k). (Some r, k)) ` (set rids \<times> set PIPELINE)" if "j \<in> set (jobs d5)" for j
    proof -
      have "slot j \<in> slot ` set (jobs d4)" using that d5(1) by simp
      moreover have "x \<in> set PIPELINE" if "x \<in> set (successors k)" for x
        using that by (cases k) (auto simp: PIPELINE_def)
      ultimately show ?thesis unfolding slots using u rid
        by (fastforce simp: under_way_def image_iff simp del: slot_simps)
    qed
    show "job_state j = Done \<or> job_state j = Queued \<and> job_run_after j \<le> now" if "j \<in> set (jobs d5)" for j
      using due that d5(1) by simp
    show "(Some r, x) \<in> slot ` set (jobs d5) \<longleftrightarrow> predecessors_done d5 r x" if "r \<in> set rids" "x \<in> set PIPELINE" for r x
      by (rule gate [OF that])
    show "status_is d5 r Ready" if "r \<in> set rids" "done_for d5 r Embed \<and> done_for d5 r Summarize" for r
      using ready [OF that(1)] that(2) by (simp add: done_for_def d5(1))
  qed
  moreover have "settle_ok now rj rid d2 = (Inr (), d5)"
    using c e m kind k(2) by (simp add: settle_ok_def enqueue_successors_def)
  moreover have "finished_jobs d5 = finished_jobs d + 1"
    using ticked_off_count [OF t old(2) j0(1,3)] r4(3) by (simp add: finished_jobs_def d5(1))
  ultimately show ?thesis using D5 a3 r4(2) d5(2) by auto
qed


section \<open>One turn finishes one job\<close>

definition all_made :: "(db \<Rightarrow> uuid \<Rightarrow> job_kind \<Rightarrow> bool) \<Rightarrow> db \<Rightarrow> bool" where
  "all_made made d \<longleftrightarrow> (\<forall>rid k. done_for d rid k \<longrightarrow> made d rid k)"

lemma claim_waiting:
  assumes u: "under_way now rids d" and pick: "pick_ok pick" and kinds: "set PIPELINE \<subseteq> set kinds"
    and waiting: "\<exists>j \<in> set (jobs d). job_state j \<noteq> Done"
  obtains j0 rid k d1 where "claim_one pick {} now w kinds d = Inr (Some (leased now w j0), d1)" "j0 \<in> set (jobs d)"
    "slot j0 = (Some rid, k)" "job_state j0 = Queued" "rid \<in> set rids" "k \<in> set PIPELINE" "queue_ok d1"
    "d1 = d\<lparr>jobs := map (\<lambda>x. if x = j0 then leased now w j0 else x) (jobs d)\<rparr>"
proof -
  have ok: "queue_ok d" using u by (simp add: under_way_def)
  have "\<exists>j \<in> set (jobs d). claimable now kinds {} j"
    using u waiting kinds by (fastforce simp: under_way_def claimable_def)
  then obtain j d1 where c: "claim_one pick {} now w kinds d = Inr (Some j, d1)"
    using claim_one_result [OF ok pick, where skip = "{}" and now = now and w = w and kinds = kinds]
    by (auto split: sum.splits option.splits)
  then obtain j0 where j0: "j0 \<in> set (jobs d)" "claimable now kinds {} j0" "j = leased now w j0" "queue_ok d1"
    "d1 = d\<lparr>jobs := map (\<lambda>x. if x = j0 then j else x) (jobs d)\<rparr>"
    using claim_one_result [OF ok pick, where skip = "{}" and now = now and w = w and kinds = kinds] by auto
  then obtain rid k where "slot j0 = (Some rid, k)" "rid \<in> set rids" "k \<in> set PIPELINE"
    using u by (auto simp: under_way_def simp del: slot_simps)
  then show ?thesis using that c j0 by (auto simp: claimable_def)
qed

context productive_stages
begin

lemma turn_finishes_job:
  assumes able and u: "under_way now rids d" and later: "now \<le> settled" and made: "all_made made d" and pick: "pick_ok pick"
    and kinds: "set PIPELINE \<subseteq> set (claimable_kinds configured dec)" and opened: "\<And>k. stage_abandoned k ticks = None"
    and waiting: "\<exists>j \<in> set (jobs d). job_state j \<noteq> Done"
  shows "\<exists>d'. worker_turn wc stage dropped se pick w now settled configured dec ticks d = Inr (True, d') \<and>
    under_way settled rids d' \<and> all_made made d' \<and> finished_jobs d' = finished_jobs d + 1"
proof -
  obtain j0 rid k d1 where c: "claim_one pick {} now w (claimable_kinds configured dec) d = Inr (Some (leased now w j0), d1)"
    and j0: "j0 \<in> set (jobs d)" "slot j0 = (Some rid, k)" "job_state j0 = Queued"
    and k: "rid \<in> set rids" "k \<in> set PIPELINE" and ok1: "queue_ok d1"
    and d1: "d1 = d\<lparr>jobs := map (\<lambda>x. if x = j0 then leased now w j0 else x) (jobs d)\<rparr>"
    by (rule claim_waiting [OF u pick kinds waiting])
  let ?j = "leased now w j0"
  have j: "job_recording_id ?j = Some rid" "job_kind ?j = k" using j0(2) by (simp_all add: leased_def take_lease_def)
  have made1: "made d1 r x = made d r x" for r x by (rule made_cong) (simp add: d1)
  have "predecessors_done d rid k" using u k j0(1,2) unfolding under_way_def by (metis image_eqI)
  then have inputs: "\<forall>p \<in> set (predecessors k). made d1 rid p"
    using made by (simp add: all_made_def made1 predecessors_done_iff)
  have "has_recording d1 rid" using u k(1) by (simp add: under_way_def d1 has_recording_def)
  from runs [OF \<open>able\<close> this _ inputs, of "job_payload ?j"] obtain d2
    where st: "stage k rid (job_payload ?j) d1 = (Finished (Inr ()), d2)" and out: "made d2 rid k"
    using k(2) by (auto simp: PIPELINE_iff)
  have kq: "keeps_queue d1 d2" using keeps [of d1 k rid "job_payload ?j"] st by simp
  have kept: "made d r x \<Longrightarrow> made d2 r x" for r x
    using keeps_made [of d1 r x k rid "job_payload ?j"] made1 st by simp
  have d2: "jobs d2 = map (\<lambda>x. if x = j0 then ?j else x) (jobs d)"
    "map (\<lambda>r. (rec_id r, rec_status r)) (recordings d2) = map (\<lambda>r. (rec_id r, rec_status r)) (recordings d)"
    using kq by (simp_all add: keeps_queue_def d1)
  have ok2: "queue_ok d2" using stage_queue_ok [OF st] ok1 by simp
  obtain d' where s: "settle_ok settled ?j rid d2 = (Inr (), d')" and u': "under_way settled rids d'"
    and a: "artifacts d' = artifacts d2" and n: "finished_jobs d' = finished_jobs d + 1"
    and D: "\<forall>r x. done_for d' r x \<longleftrightarrow> done_for d r x \<or> (r, x) = (rid, k)"
    using settle_under_way [OF under_way_later [OF u later] j0 refl ok2 d2] by (elim exE conjE) (rule that)
  have "all_made made d'"
    using D kept out made made_cong [OF a] by (auto simp: all_made_def)
  moreover have "worker_turn wc stage dropped se pick w now settled configured dec ticks d = Inr (True, d')"
    using c j st s opened by (simp add: worker_turn_def process_job_def)
  ultimately show ?thesis using u' n by blast
qed

end

section \<open>The stages of this program\<close>

text \<open>
  Everything outside works: files are there, commands succeed, the engines and the embedder answer, with vectors
  of the widths the columns have.
\<close>

definition healthy :: "world \<Rightarrow> bool" where
  "healthy W \<longleftrightarrow> (\<forall>p. path_exists W p) \<and> (\<forall>p. make_dir W p = Inr ()) \<and> (\<forall>p c. write_file W p c = Inr ()) \<and>
     (\<forall>l p. ffmpeg W l p = Some True) \<and> (\<forall>p. \<exists>n. wav_ms W p = Inr n) \<and> (\<forall>p. \<exists>t. transcribe W p = Inr t) \<and>
     (\<forall>p n. \<exists>dz. diarize W p n = Inr dz \<and> (\<forall>(i, e) \<in> set (dz_embeddings dz). length e = VOICE_WIDTH)) \<and>
     embedder_ready W = Inr () \<and>
     (\<forall>ts. \<exists>vs. embedder W ts = Inr vs \<and> length vs = length ts \<and> (\<forall>v \<in> set vs. length v = CHUNK_WIDTH))"

definition stored_output :: "db \<Rightarrow> uuid \<Rightarrow> job_kind \<Rightarrow> bool" where
  "stored_output d rid k \<longleftrightarrow>
     (case k of Transcribe \<Rightarrow> \<exists>t. get_transcript d rid = Inr t
              | Diarize \<Rightarrow> \<exists>z. get_diarization d rid = Inr z
              | _ \<Rightarrow> True)"

lemma stored_output_cong: "artifacts d' = artifacts d \<Longrightarrow> stored_output d' r x = stored_output d r x"
  by (auto simp: stored_output_def get_transcript_def get_diarization_def get_artifact_def split: job_kind.splits)

lemma get_recording_has: "has_recording d rid \<Longrightarrow> \<exists>r. get_recording d rid = Inr r"
  by (auto simp: has_recording_def get_recording_def lookup_by_def find_None_iff split: option.splits)


lemma healthy_transcode:
  assumes "healthy W" and "has_recording d rid"
  shows "\<exists>d'. transcode_run W rid d = (Inr (), d')"
proof -
  obtain d1 where d1: "set_recording_storage_key rid (storage_key (uuid_str W) rid) d = Inr d1"
    using assms(2) by (auto simp: set_recording_storage_key_def update_recording_cases)
  then have "has_recording d1 rid"
    using assms(2) has_recording_update [OF d1 [unfolded set_recording_storage_key_def]] by simp
  then have d2: "\<exists>d2. set_recording_duration rid ms d1 = Inr d2" for ms
    by (simp add: set_recording_duration_def update_recording_cases)
  obtain ms where ms: "wav_ms W (wav_path (uuid_str W) (blobs W) rid) = Inr ms" using assms(1) unfolding healthy_def by blast
  obtain d2 where "set_recording_duration rid ms d1 = Inr d2" using d2 by blast
  then show ?thesis using assms(1) d1 ms
    by (simp add: transcode_run_def transcode_ready_def transcode_to_wav_def healthy_def list_all_iff Let_def)
qed

lemma store_speakers_succeeds:
  "has_recording d rid \<Longrightarrow> (\<And>i. has_speaker d (map_option fst (map_of ids i))) \<Longrightarrow> (\<And>i. width_ok VOICE_WIDTH (map_of embs i)) \<Longrightarrow>
     \<exists>d'. store_speakers rid embs ids is d = (Inr (), d') \<and> recordings d' = recordings d"
proof (induction rid embs ids "is" d rule: store_speakers.induct)
  case (2 rid embs ids i "is" d)
  obtain d1 where u: "upsert_recording_speaker rid i (map_option fst (map_of ids i)) (map_of embs i) d = Inr d1"
    "recordings d1 = recordings d" "speakers d1 = speakers d"
    using "2.prems" by (auto simp: upsert_recording_speaker_def Let_def)
  have "has_speaker d1 = has_speaker d" "has_recording d1 = has_recording d"
    using u(2,3) by (simp_all add: fun_eq_iff has_speaker_def has_recording_def split: option.split)
  then have "has_recording d1 rid" "\<And>n. has_speaker d1 (map_option fst (map_of ids n))" using "2.prems" by simp_all
  then show ?case using "2.IH" [OF u(1) _ _ "2.prems"(3)] u by auto
qed simp

lemma healthy_diarize:
  assumes "healthy W" and "has_recording d rid"
  shows "\<exists>d' z. diarize_run (floats W) env (path_exists W) (diarize W) wav now rid d = (Inr (), d') \<and>
    get_diarization d' rid = Inr z"
proof -
  obtain r where r: "get_recording d rid = Inr r" using get_recording_has [OF assms(2)] by blast
  obtain dz where dz: "diarize W wav (rec_participants_expected r) = Inr dz"
    and wide: "\<forall>(i, e) \<in> set (dz_embeddings dz). length e = VOICE_WIDTH" using assms(1) unfolding healthy_def by blast
  have fit: "width_ok VOICE_WIDTH (map_of (dz_embeddings dz) i)" for i
    using wide by (auto simp: width_ok_def split: option.split dest!: map_of_SomeD)
  let ?spk = "sort (remdups (map t_local_idx (dz_turns dz)))"
  let ?voices = "List.map_filter (\<lambda>i. map_option (\<lambda>e. (i, e)) (map_of (dz_embeddings dz) i)) ?spk"
  let ?ids = "resolve_identities (floats W) env ?voices (list_enrolled_voiceprints d) (enroll_match_threshold env)"
  have known: "\<And>idx sid sim. (idx, sid, sim) \<in> set ?ids \<Longrightarrow> sid \<in> sp_id ` set (speakers d)"
    using resolved_one_to_one [of "floats W" env ?voices "list_enrolled_voiceprints d" "enroll_match_threshold env"]
    by (fastforce dest: enrolled_known)
  have hs: "has_speaker d (map_option fst (map_of ?ids i))" for i
    using known by (cases "map_of ?ids i") (auto simp: has_speaker_def dest: map_of_SomeD)
  obtain d1 where s: "store_speakers rid (dz_embeddings dz) ?ids ?spk d = (Inr (), d1)" "recordings d1 = recordings d"
    using store_speakers_succeeds [OF assms(2) hs fit] by blast
  let ?d2 = "snd (prune_recording_speakers rid ?spk d1)"
  have "has_recording ?d2 rid" using assms(2) s(2) by (simp add: has_recording_def prune_recording_speakers_def Let_def)
  then obtain d3 where p: "put_diarization now rid (dz_turns dz) (dz_num_speakers dz) ?d2 = Inr d3"
    by (auto simp: put_diarization_def put_artifact_def Let_def)
  have "get_diarization d3 rid = Inr (dz_turns dz, dz_num_speakers dz)"
    using get_put_artifact(1) [OF p [unfolded put_diarization_def]] by (simp add: get_diarization_def)
  moreover have "diarize_run (floats W) env (path_exists W) (diarize W) wav now rid d = (Inr (), d3)"
    using assms(1) r dz s(1) p by (simp add: diarize_run_def healthy_def Let_def case_prod_beta)
  ultimately show ?thesis by blast
qed

lemma healthy_transcribe:
  assumes "healthy W" and "has_recording d rid"
  shows "\<exists>d' t. transcribe_run W now rid d = (Inr (), d') \<and> get_transcript d' rid = Inr t"
proof -
  obtain tx ws where t: "transcribe W (wav_path (uuid_str W) (blobs W) rid) = Inr (tx, ws)"
    using assms(1) unfolding healthy_def by (metis prod.collapse)
  let ?ws = "map (\<lambda>w. w\<lparr>w_local_idx := None\<rparr>) ws"
  obtain d' where p: "put_transcript now rid tx ?ws d = Inr d'"
    using assms(2) by (auto simp: put_transcript_def put_artifact_def Let_def)
  have "get_transcript d' rid = Inr (tx, ?ws)"
    using get_put_artifact(1) [OF p [unfolded put_transcript_def]] by (simp add: get_transcript_def)
  then show ?thesis using assms(1) t p by (simp add: transcribe_run_def healthy_def Let_def)
qed

lemma healthy_embed:
  assumes "healthy W" and "has_recording d rid"
  shows "\<exists>d'. embed_run W rid d = (Inr (), d')"
proof -
  have "has_recording (delete_chunks_by_recording rid d) rid"
    using assms(2) by (simp add: has_recording_def delete_chunks_by_recording_def)
  then have ins: "\<exists>n d'. insert_chunks rid cs (delete_chunks_by_recording rid d) = Inr (n, d')"
    if "\<forall>c \<in> set cs. length (c_embedding c) = CHUNK_WIDTH" for cs
    using that by (simp add: insert_chunks_def list_all_iff)
  have "\<exists>vs. embedder W ts = Inr vs \<and> length vs = length ts \<and> (\<forall>v \<in> set vs. length v = CHUNK_WIDTH)" for ts
    using assms(1) by (simp add: healthy_def)
  then obtain vs where e: "embedder W (map pc_text (build_chunks (list_utterances_by_recording d rid))) = Inr vs"
    "length vs = length (build_chunks (list_utterances_by_recording d rid))" "\<forall>v \<in> set vs. length v = CHUNK_WIDTH"
    by (metis length_map)
  show ?thesis
  proof (cases "build_chunks (list_utterances_by_recording d rid) = []")
    case True
    then show ?thesis by (simp add: embed_run_def)
  next
    case False
    let ?new = "map (\<lambda>(c, v). \<lparr>c_recording_id = rid, c_start_ms = Some (pc_start_ms c),
        c_end_ms = Some (pc_end_ms c), c_local_idx = pc_local_idx c, c_text = pc_text c, c_embedding = v\<rparr>)
        (zip (build_chunks (list_utterances_by_recording d rid)) vs)"
    have "\<forall>c \<in> set ?new. length (c_embedding c) = CHUNK_WIDTH" using e(3) by (auto dest: set_zip_rightD)
    from ins [OF this] obtain n d' where "insert_chunks rid ?new (delete_chunks_by_recording rid d) = Inr (n, d')" by blast
    then show ?thesis using False e by (simp add: embed_run_def Let_def)
  qed
qed


text \<open>Only the diarize and transcribe stages write artifacts, each its own.\<close>

lemma artifacts_of_stage_steps:
  "set_recording_storage_key rid x d = Inr d' \<Longrightarrow> artifacts d' = artifacts d"
  "set_recording_duration rid n d = Inr d' \<Longrightarrow> artifacts d' = artifacts d"
  "insert_utterances rid us d = Inr (m, d') \<Longrightarrow> artifacts d' = artifacts d"
  "insert_chunks rid cs d = Inr (m, d') \<Longrightarrow> artifacts d' = artifacts d"
  "upsert_summary now rid a b c e f g h d = Inr d' \<Longrightarrow> artifacts d' = artifacts d"
  "prune_recording_speakers rid ks d = (m, d') \<Longrightarrow> artifacts d' = artifacts d"
  "regenerate cf l rid d = Some d' \<Longrightarrow> artifacts d' = artifacts d"
  by (auto simp: set_recording_storage_key_def set_recording_duration_def update_recording_cases insert_utterances_def
      insert_chunks_def upsert_summary_def prune_recording_speakers_def regenerate_def set_recording_title_auto_def Let_def
      split: if_splits option.splits sum.splits)

lemma artifacts_of_deletes [simp]:
  "artifacts (delete_utterances_by_recording rid d) = artifacts d" "artifacts (delete_chunks_by_recording rid d) = artifacts d"
  "artifacts (snd (set_recording_title_auto rid t d)) = artifacts d" "artifacts (mark_segment_transcribed now sid a b d) = artifacts d"
  by (simp_all add: delete_utterances_by_recording_def delete_chunks_by_recording_def set_recording_title_auto_def
      mark_segment_transcribed_def Let_def)

lemma artifacts_of_store_speakers: "store_speakers rid embs ids is d = (x, d') \<Longrightarrow> artifacts d' = artifacts d"
proof (induction rid embs ids "is" d rule: store_speakers.induct)
  case (2 rid embs ids i "is" d)
  show ?case
  proof (cases "upsert_recording_speaker rid i (map_option fst (map_of ids i)) (map_of embs i) d")
    case (Inr d1)
    then have "artifacts d1 = artifacts d" by (auto simp: upsert_recording_speaker_def Let_def split: if_splits)
    then show ?thesis using "2.IH" [OF Inr] "2.prems" Inr by simp
  qed (use 2 in simp)
qed simp


lemma artifacts_of_live_segments: "live_segments W cfg now rid offset ss d = (x, d') \<Longrightarrow> artifacts d' = artifacts d"
proof (induction ss arbitrary: offset d)
  case (Cons s ss)
  from Cons.prems Cons.IH show ?case
    by (auto simp: Let_def split: if_splits sum.splits prod.splits dest: artifacts_of_stage_steps(3))
qed simp

lemma kept_by_put:
  assumes "put_artifact now rid kind data d = Inr d'" and "stored_output d r x"
    and "kind = KIND_TRANSCRIPT \<Longrightarrow> \<exists>t. get_transcript d' rid = Inr t"
    and "kind = KIND_DIARIZATION \<Longrightarrow> \<exists>z. get_diarization d' rid = Inr z"
  shows "stored_output d' r x"
proof -
  have "get_transcript d' r = get_transcript d r" if "(r, KIND_TRANSCRIPT) \<noteq> (rid, kind)"
    using get_put_artifact(2) [OF assms(1) that] by (simp add: get_transcript_def)
  moreover have "get_diarization d' r = get_diarization d r" if "(r, KIND_DIARIZATION) \<noteq> (rid, kind)"
    using get_put_artifact(2) [OF assms(1) that] by (simp add: get_diarization_def)
  ultimately have t: "(\<exists>t. get_transcript d r = Inr t) \<Longrightarrow> \<exists>t. get_transcript d' r = Inr t"
    and z: "(\<exists>z. get_diarization d r = Inr z) \<Longrightarrow> \<exists>z. get_diarization d' r = Inr z"
    using assms(3,4) by (metis prod.inject)+
  show ?thesis using assms(2) t z unfolding stored_output_def by (cases x) (simp_all only: job_kind.case)
qed

lemma kept_by_put_transcript: "put_transcript now rid tx ws d = Inr d' \<Longrightarrow> stored_output d r x \<Longrightarrow> stored_output d' r x"
  unfolding put_transcript_def
  by (rule kept_by_put, assumption, assumption)
    (auto dest!: get_put_artifact(1) simp: get_transcript_def KIND_TRANSCRIPT_def KIND_DIARIZATION_def lit_def)

lemma kept_by_put_diarization: "put_diarization now rid ts n d = Inr d' \<Longrightarrow> stored_output d r x \<Longrightarrow> stored_output d' r x"
  unfolding put_diarization_def
  by (rule kept_by_put, assumption, assumption)
    (auto dest!: get_put_artifact(1) simp: get_diarization_def KIND_TRANSCRIPT_def KIND_DIARIZATION_def lit_def)

lemma run_stage_keeps_output:
  assumes "stored_output d r x"
  shows "stored_output (snd (run_stage W cfg now k rid payload d)) r x"
proof -
  note A = artifacts_of_stage_steps artifacts_of_store_speakers artifacts_of_live_segments
  have same: "artifacts d' = artifacts d \<Longrightarrow> stored_output d' r x" for d'
    using stored_output_cong [of d' d r x] assms by simp
  show ?thesis
  proof (cases k)
    case Transcode
    show ?thesis
      by (auto simp: Transcode run_stage_def finished_def transcode_run_def Let_def intro!: same split: sum.splits dest!: A)
  next
    case Diarize
    have put: "stored_output d2 r x" if "put_diarization now rid ts n d1 = Inr d2" "artifacts d1 = artifacts d" for d1 d2 ts n
      using kept_by_put_diarization [OF that(1)] same [OF that(2)] by blast
    show ?thesis
      by (auto simp: Diarize run_stage_def finished_def diarize_run_def Let_def intro: same put
          split: sum.splits prod.splits dest!: A)
  next
    case Transcribe
    show ?thesis using assms kept_by_put_transcript
      by (auto simp: Transcribe run_stage_def finished_def transcribe_run_def Let_def split: sum.splits prod.splits)
  next
    case Merge
    show ?thesis
      by (auto simp: Merge run_stage_def finished_def merge_run_def Let_def intro!: same split: sum.splits prod.splits dest!: A)
  next
    case Embed
    show ?thesis
      by (auto simp: Embed run_stage_def finished_def embed_run_def Let_def intro!: same split: sum.splits prod.splits dest!: A)
  next
    case Summarize
    show ?thesis
      by (auto simp: Summarize run_stage_def finished_def summarize_run_def Let_def intro!: same
          split: sum.splits prod.splits option.splits dest!: A)
  next
    case TranscribeSegment
    show ?thesis
      by (auto simp: TranscribeSegment run_stage_def transcribe_segment_run_def Let_def intro!: same
          split: sum.splits prod.splits option.splits dest!: A)
  qed
qed


lemma run_stage_succeeds:
  assumes "healthy W" and "has_recording d rid" and "k \<noteq> TranscribeSegment"
    and inputs: "\<forall>p \<in> set (predecessors k). stored_output d rid p"
  shows "\<exists>d'. run_stage W cfg now k rid payload d = (Finished (Inr ()), d') \<and> stored_output d' rid k"
proof (cases k)
  case Merge
  then have "\<exists>t. get_transcript d rid = Inr t" "\<exists>z. get_diarization d rid = Inr z"
    using inputs by (simp_all add: stored_output_def)
  then obtain tx ws turns n where "get_transcript d rid = Inr (tx, ws)" "get_diarization d rid = Inr (turns, n)"
    by (metis prod.collapse)
  from merge_run_words [OF assms(2) this, of W cfg] show ?thesis
    by (auto simp: Merge run_stage_def finished_def stored_output_def)
next
  case Summarize
  obtain d' where "summarize_run (chat W) (parse_json W) (print_json W) (llm cfg) now rid
      (summarize_template (llm cfg) payload) d = (Inr (), d')"
    using summarize_run_stores [OF assms(2)] by blast
  then show ?thesis by (simp add: Summarize run_stage_def finished_def stored_output_def)
next
  case Transcode
  then show ?thesis using healthy_transcode [OF assms(1,2)] by (auto simp: run_stage_def finished_def stored_output_def)
next
  case Diarize
  obtain d' z where "diarize_run (floats W) (ident_env cfg) (path_exists W) (diarize W)
      (wav_path (uuid_str W) (blobs W) rid) now rid d = (Inr (), d')" "get_diarization d' rid = Inr z"
    using healthy_diarize [OF assms(1,2)] by blast
  then show ?thesis by (simp add: Diarize run_stage_def finished_def stored_output_def)
next
  case Transcribe
  obtain d' t where "transcribe_run W now rid d = (Inr (), d')" "get_transcript d' rid = Inr t"
    using healthy_transcribe [OF assms(1,2)] by blast
  then show ?thesis by (simp add: Transcribe run_stage_def finished_def stored_output_def)
next
  case Embed
  have "embedder_ready W = Inr ()" using assms(1) by (simp add: healthy_def)
  then show ?thesis using Embed healthy_embed [OF assms(1,2)] by (auto simp: run_stage_def finished_def stored_output_def)
qed (use assms(3) in simp)

interpretation pipeline: productive_stages "run_stage W cfg now" stored_output "healthy W" for W cfg now
proof
  show "artifacts d' = artifacts d \<Longrightarrow> stored_output d' r x = stored_output d r x" for d d' r x by (rule stored_output_cong)
  show "stored_output d r x \<Longrightarrow> stored_output (snd (run_stage W cfg now k rid payload d)) r x" for d r x k rid payload
    by (rule run_stage_keeps_output)
qed (rule run_stage_succeeds)

section \<open>The queue drains\<close>

text \<open>
  Turns of one worker, each with the instants at which it claims and settles, the window open throughout:
  no stage is dropped.
\<close>

fun run_turns ::
  "worker_config \<Rightarrow> (timestamp \<Rightarrow> stage_fun) \<Rightarrow> (error \<Rightarrow> rstr) \<Rightarrow> (job list \<Rightarrow> job) \<Rightarrow> rstr \<Rightarrow> job_kind list \<Rightarrow>
     schedule_decision \<Rightarrow> (timestamp \<times> timestamp) list \<Rightarrow> db \<Rightarrow> db res" where
  "run_turns wc stage se pick w configured dec [] d = Inr d"
| "run_turns wc stage se pick w configured dec ((claimed, settled) # ts) d =
     (case worker_turn wc (stage claimed) (\<lambda>_ _ _ x. x) se pick w claimed settled configured dec [] d of
        Inl e \<Rightarrow> Inl e
      | Inr (b, d') \<Rightarrow> run_turns wc stage se pick w configured dec ts d')"

fun instants :: "('a \<times> 'a) list \<Rightarrow> 'a list" where
  "instants [] = []"
| "instants ((a, b) # ts) = a # b # instants ts"

lemma idle_turn:
  assumes u: "under_way now rids d" and pick: "pick_ok pick" and none: "\<forall>j \<in> set (jobs d). job_state j = Done"
  shows "worker_turn wc stage dropped se pick w now settled configured dec ticks d = Inr (False, d)"
proof -
  have "queue_ok d" using u by (simp add: under_way_def)
  moreover have "\<forall>j \<in> set (jobs d). \<not> claimable now (claimable_kinds configured dec) {} j"
    using none by (simp add: claimable_def)
  ultimately have "claim_one pick {} now w (claimable_kinds configured dec) d = Inr (None, d)"
    using claim_one_result [OF _ pick, where d = d and skip = "{}" and now = now and w = w and kinds = "claimable_kinds configured dec"]
    by (auto split: sum.splits option.splits)
  then show ?thesis by (simp add: worker_turn_def)
qed

lemma run_turns_drain:
  assumes "healthy W" and "pick_ok pick" and "set PIPELINE \<subseteq> set (claimable_kinds configured dec)"
    and "sorted (instants ts)" and "\<forall>t \<in> set (instants ts). start \<le> t" and "under_way start rids d" and "all_made stored_output d"
    and "6 * length rids \<le> finished_jobs d + length ts"
  shows "\<exists>d' later. run_turns wc (run_stage W cfg) se pick w configured dec ts d = Inr d' \<and> under_way later rids d' \<and>
    (\<forall>j \<in> set (jobs d'). job_state j = Done)"
  using assms(4-8)
proof (induction ts arbitrary: start d)
  case Nil
  have "length (filter (\<lambda>j. job_state j = Done) (jobs d)) = length (jobs d)"
  proof (rule order_antisym)
    show "length (jobs d) \<le> length (filter (\<lambda>j. job_state j = Done) (jobs d))"
      using jobs_bounded [OF Nil(3)] Nil(5) by (simp add: finished_jobs_def)
  qed (rule length_filter_le)
  then have "\<forall>j \<in> set (jobs d). job_state j = Done" 
    using length_filter_less [of _ "jobs d" "\<lambda>j. job_state j = Done"] by fastforce
  then show ?case using Nil(3) by auto
next
  case (Cons turn ts)
  obtain now settled where turn: "turn = (now, settled)" by force
  have u: "under_way now rids d" using under_way_later [OF Cons.prems(3)] Cons.prems(2) turn by simp
  have after: "now \<le> settled" "sorted (instants ts)" "\<forall>t \<in> set (instants ts). settled \<le> t"
    "\<forall>t \<in> set (instants (turn # ts)). now \<le> t"
    using Cons.prems(1) turn by auto
  show ?case
  proof (cases "\<exists>j \<in> set (jobs d). job_state j \<noteq> Done")
    case True
    have "stage_abandoned k [] = None" for k by (simp add: stage_abandoned_def)
    from pipeline.turn_finishes_job [OF assms(1) u after(1) Cons.prems(4) assms(2,3) this True]
    obtain d1 where "worker_turn wc (run_stage W cfg now) (\<lambda>_ _ _ x. x) se pick w now settled configured dec [] d = Inr (True, d1)"
      "under_way settled rids d1" "all_made stored_output d1" "finished_jobs d1 = finished_jobs d + 1" by blast
    then show ?thesis using Cons.IH [OF after(2,3), of d1] Cons.prems(5) turn by simp
  next
    case False
    then have fin: "\<forall>j \<in> set (jobs d). job_state j = Done" by blast
    have "\<exists>d' later. run_turns wc (run_stage W cfg) se pick w configured dec us d = Inr d' \<and> under_way later rids d' \<and>
        (\<forall>j \<in> set (jobs d'). job_state j = Done)" if "\<forall>t \<in> set (instants us). now \<le> t" for us
      using that idle_turn [OF under_way_later [OF u] assms(2) fin] fin u
      by (induction us rule: instants.induct) auto
    from this [of "turn # ts"] show ?thesis using after(4) by (simp del: run_turns.simps instants.simps)
  qed
qed

text \<open>A recording whose upload was just completed: its transcode job is queued and nothing else.\<close>

definition submitted :: "timestamp \<Rightarrow> uuid list \<Rightarrow> db \<Rightarrow> bool" where
  "submitted now rids d \<longleftrightarrow> queue_ok d \<and> distinct rids \<and> map job_recording_id (jobs d) = map Some rids \<and>
     (\<forall>j \<in> set (jobs d). job_kind j = Transcode \<and> job_state j = Queued \<and> job_run_after j \<le> now)"

lemma submitted_under_way:
  assumes "submitted now rids d"
  shows "under_way now rids d" and "all_made made d"
proof -
  have none: "\<not> done_for d rid k" for rid k using assms by (auto simp: submitted_def done_for_def)
  have ids: "job_recording_id ` set (jobs d) = Some ` set rids"
    using assms by (metis list.set_map submitted_def)
  show "all_made made d" by (simp add: all_made_def none)
  have "distinct (map slot (jobs d))"
  proof -
    have "map slot (jobs d) = map (\<lambda>r. (r, Transcode)) (map job_recording_id (jobs d))"
      unfolding map_map by (rule map_cong) (use assms in \<open>auto simp: submitted_def\<close>)
    also have "\<dots> = map (\<lambda>r. (Some r, Transcode)) rids" using assms by (simp add: submitted_def)
    finally show ?thesis using assms by (simp add: submitted_def distinct_map inj_on_def)
  qed
  moreover have slots: "slot ` set (jobs d) = (\<lambda>r. (Some r, Transcode)) ` set rids"
  proof -
    have "slot ` set (jobs d) = (\<lambda>r. (r, Transcode)) ` job_recording_id ` set (jobs d)"
      using assms by (auto simp: submitted_def slot_def image_image)
    then show ?thesis by (simp only: ids image_image)
  qed
  moreover have "has_recording d rid" if "rid \<in> set rids" for rid
  proof -
    have "Some rid \<in> job_recording_id ` set (jobs d)" using that ids by simp
    then obtain j where j: "j \<in> set (jobs d)" "Some rid = job_recording_id j" by blast
    then have "job_ok d j" using assms by (simp add: submitted_def queue_ok_def)
    then show ?thesis using j(2) [symmetric] by (simp add: job_ok_def)
  qed
  moreover have "predecessors_done d rid k \<longleftrightarrow> k \<in> {Transcode, TranscribeSegment}" for rid k
    by (cases k) (auto simp: predecessors_done_iff none)
  moreover have "slot j \<in> (\<lambda>(r, k). (Some r, k)) ` (set rids \<times> set PIPELINE)" if "j \<in> set (jobs d)" for j
  proof -
    have "slot j \<in> (\<lambda>r. (Some r, Transcode)) ` set rids" using that slots by blast
    then show ?thesis by (force simp: PIPELINE_def simp del: slot_simps)
  qed
  ultimately show "under_way now rids d"
    using assms unfolding under_way_def submitted_def
    by (auto simp: none image_iff PIPELINE_iff simp del: slot_simps)
qed

text \<open>
  C1: progress. When everything outside works and the processing window is open, six turns of a worker
  for each recording that was submitted, each claimed and settled at any later instants and in whatever
  order the database offers the jobs, bring every one of them to \<open>ready\<close> with all six stages done and no job left over.
\<close>

theorem pipeline_drains:
  assumes "healthy W" and "pick_ok pick" and "submitted start rids d" and "allowed dec"
    and "sorted (instants ts)" and "\<forall>t \<in> set (instants ts). start \<le> t" and "6 * length rids \<le> length ts"
  shows "\<exists>d'. run_turns wc (run_stage W cfg) se pick w ALL_KINDS dec ts d = Inr d' \<and>
    (\<forall>rid \<in> set rids. (\<forall>k. k \<noteq> TranscribeSegment \<longrightarrow> done_for d' rid k) \<and> status_is d' rid Ready) \<and>
    (\<forall>j \<in> set (jobs d'). job_state j = Done) \<and> length (jobs d') = 6 * length rids"
proof -
  have kinds: "set PIPELINE \<subseteq> set (claimable_kinds ALL_KINDS dec)"
    using assms(4) by (simp add: claimable_kinds_def ALL_KINDS_def PIPELINE_def)
  obtain d' later where run: "run_turns wc (run_stage W cfg) se pick w ALL_KINDS dec ts d = Inr d'"
    and u: "under_way later rids d'" and fin: "\<forall>j \<in> set (jobs d'). job_state j = Done"
    using run_turns_drain [OF assms(1,2) kinds assms(5,6) submitted_under_way [OF assms(3)]] assms(7) by (metis trans_le_add2)
  have all: "(\<forall>k. k \<noteq> TranscribeSegment \<longrightarrow> done_for d' rid k) \<and> status_is d' rid Ready" if "rid \<in> set rids" for rid
    using all_done [OF u fin that] by (simp add: PIPELINE_iff)
  then have "slot ` set (jobs d') = (\<lambda>(r, k). (Some r, k)) ` (set rids \<times> set PIPELINE)"
  proof (intro equalityI)
    show "slot ` set (jobs d') \<subseteq> (\<lambda>(r, k). (Some r, k)) ` (set rids \<times> set PIPELINE)"
      using u by (auto simp: under_way_def simp del: slot_simps)
    have "(Some r, k) \<in> slot ` set (jobs d')" if "r \<in> set rids" "k \<in> set PIPELINE" for r k
    proof -
      have "done_for d' r k" using all that by (simp add: PIPELINE_iff)
      then show ?thesis unfolding done_for_slot by (metis image_eqI)
    qed
    then show "(\<lambda>(r, k). (Some r, k)) ` (set rids \<times> set PIPELINE) \<subseteq> slot ` set (jobs d')" by auto
  qed
  moreover have "card ((\<lambda>(r, k). (Some r, k)) ` (set rids \<times> set PIPELINE)) = 6 * length rids"
    using assms(3) by (subst card_image) (auto simp: inj_on_def card_cartesian_product submitted_def distinct_card PIPELINE_def)
  ultimately have "length (jobs d') = 6 * length rids"
    using u distinct_card [of "map slot (jobs d')"] by (simp add: under_way_def)
  then show ?thesis using run all fin by blast
qed


text \<open>Two submitted recordings on the healthy sample world; the database offers the last job first.\<close>

definition two_submitted :: db where
  "two_submitted = empty_db\<lparr>recordings := [sample_recording, sample_recording\<lparr>rec_id := 8\<rparr>],
     jobs := [new_job 1 1 7 Transcode (JObject []) 0, new_job 2 2 8 Transcode (JObject []) 0], next_job_id := 3\<rparr>"

lemma two_submitted_ok: "submitted 5 [7, 8] two_submitted"
  by (simp add: two_submitted_def submitted_def new_job_def queue_ok_def live_keys_def live_def job_ok_def
      lease_ok_def has_recording_def empty_db_def sample_recording_def)

lemma demo_healthy: "healthy demo_world"
  by (simp add: healthy_def demo_world_def demo_dz_def)

lemma pick_ok_last: "pick_ok last"
  by (simp add: pick_ok_def)

definition open_window :: schedule_decision where
  "open_window = \<lparr>allowed = True, reason = InWindow, next_change_secs = None\<rparr>"

theorem pipeline_drains_witness:
  "\<exists>d'. run_turns demo_wc (run_stage demo_world demo_config) (\<lambda>e. []) last (lit ''w'') ALL_KINDS open_window
       [(5, 6), (6, 6), (7, 9), (9, 9), (10, 12), (13, 14), (14, 15), (16, 17), (17, 18), (18, 20), (21, 22), (30, 31)] two_submitted = Inr d' \<and>
     (\<forall>rid \<in> {7, 8}. (\<forall>k. k \<noteq> TranscribeSegment \<longrightarrow> done_for d' rid k) \<and> status_is d' rid Ready)"
proof -
  have "allowed open_window" by (simp add: open_window_def)
  from pipeline_drains [OF demo_healthy pick_ok_last two_submitted_ok this, where
      ts = "[(5, 6), (6, 6), (7, 9), (9, 9), (10, 12), (13, 14), (14, 15), (16, 17), (17, 18), (18, 20), (21, 22), (30, 31)]" and wc = demo_wc and cfg = demo_config and se = "\<lambda>e. []" and w = "lit ''w''"]
  obtain d' where "run_turns demo_wc (run_stage demo_world demo_config) (\<lambda>e. []) last (lit ''w'') ALL_KINDS open_window
       [(5, 6), (6, 6), (7, 9), (9, 9), (10, 12), (13, 14), (14, 15), (16, 17), (17, 18), (18, 20), (21, 22), (30, 31)] two_submitted = Inr d'"
    "\<forall>rid \<in> set [7, 8]. (\<forall>k. k \<noteq> TranscribeSegment \<longrightarrow> done_for d' rid k) \<and> status_is d' rid Ready"
    by auto
  then show ?thesis by (intro exI [of _ d']) simp
qed

end
