(* ===== verification/Scribe_Api.thy ===== *)
theory Scribe_Api
  imports Scribe_Drain
begin

text \<open>
  The request handlers of \<open>crates/scribe-api/src/handlers/recordings.rs\<close> and \<open>speakers.rs\<close>. A handler
  answers with a status code and a JSON document or an error, and leaves the tables as its statements
  have changed them, also when it stops half-way. A handler that shares its name with the statement it
  wraps has the suffix \<open>_handler\<close>; ids are printed by the parameter \<open>uuid_str\<close>.
\<close>

type_synonym reply = "(nat \<times> json) res"

abbreviation obj :: "(string \<times> json) list \<Rightarrow> json" where
  "obj kvs \<equiv> JObject (map (\<lambda>(k, v). (lit k, v)) kvs)"

definition json_opt :: "('a \<Rightarrow> json) \<Rightarrow> 'a option \<Rightarrow> json" where
  "json_opt f x = (case x of None \<Rightarrow> JNull | Some y \<Rightarrow> f y)"

definition json_int :: "int \<Rightarrow> json" where
  "json_int n = JNumber (show_int n)"

section \<open>Creating, listing, deleting\<close>

record create_recording_body =
  cb_title :: "rstr option"
  cb_participants_expected :: "int option"
  cb_device_id :: "rstr option"
  cb_audio_format :: "rstr option"
  cb_sample_rate :: "int option"

definition default_create_body :: create_recording_body where
  "default_create_body = \<lparr>cb_title = None, cb_participants_expected = None, cb_device_id = None,
     cb_audio_format = None, cb_sample_rate = None\<rparr>"

definition create_recording_handler ::
  "world \<Rightarrow> uuid \<Rightarrow> timestamp \<Rightarrow> create_recording_body option \<Rightarrow> db \<Rightarrow> reply \<times> db" where
  "create_recording_handler W new_id now b d =
     (let body = (case b of None \<Rightarrow> default_create_body | Some x \<Rightarrow> x);
          audio_format = (case cb_audio_format body of None \<Rightarrow> Some (lit ''m4a'') | Some f \<Rightarrow> Some f)
      in case create_recording new_id now (cb_title body) (cb_device_id body) (cb_participants_expected body)
                audio_format (cb_sample_rate body) d of
           Inl e \<Rightarrow> (Inl e, d)
         | Inr (r, d1) \<Rightarrow>
         (case set_recording_storage_key (rec_id r) (storage_key (uuid_str W) (rec_id r)) d1 of
            Inl e \<Rightarrow> (Inl e, d1)
          | Inr d2 \<Rightarrow>
          (case make_dir W (segments_dir (uuid_str W) (blobs W) (rec_id r)) of
             Inl e \<Rightarrow> (Inl Storage, d2)
           | Inr _ \<Rightarrow>
               (Inr (201, obj [(''id'', JString (uuid_str W (rec_id r))),
                               (''status'', JString (status_as_str Uploading)),
                               (''upload'', obj [(''segment_url_template'',
                                  JString (lit ''/recordings/'' @ uuid_str W (rec_id r) @ lit ''/segments/{seq}''))])]), d2))))"

text \<open>The page that \<open>GET /recordings\<close> asks the database for.\<close>

record list_query =
  lq_limit :: "int option"
  lq_offset :: "int option"
  lq_tag :: "rstr option"

definition list_page :: "list_query \<Rightarrow> int \<times> int \<times> rstr option" where
  "list_page q =
     (max 1 (min 500 (case lq_limit q of None \<Rightarrow> 50 | Some n \<Rightarrow> n)),
      max 0 (case lq_offset q of None \<Rightarrow> 0 | Some n \<Rightarrow> n),
      (case map_option trim (lq_tag q) of Some t \<Rightarrow> if t = [] then None else Some t | None \<Rightarrow> None))"

text \<open>The blobs go first; \<open>removed\<close> is what removing the recording's directory answered.\<close>

datatype removal = Removed | AlreadyGone | RemovalFailed

definition delete_recording_handler :: "world \<Rightarrow> removal \<Rightarrow> uuid \<Rightarrow> db \<Rightarrow> reply \<times> db" where
  "delete_recording_handler W removed rid d =
     (case get_recording d rid of
        Inl e \<Rightarrow> (Inl e, d)
      | Inr _ \<Rightarrow>
          if removed = RemovalFailed then (Inl Io, d)
          else (case delete_recording rid d of
                  Inl e \<Rightarrow> (Inl e, d)
                | Inr d' \<Rightarrow> (Inr (200, obj [(''id'', JString (uuid_str W rid)), (''deleted'', JBool True)]), d')))"

section \<open>Progress\<close>

definition PIPELINE_STAGES :: "job_kind list" where
  "PIPELINE_STAGES = [Transcode, Diarize, Transcribe, Merge, Embed, Summarize]"

record stage_progress =
  sg_kind :: job_kind
  sg_state :: rstr
  sg_started_at :: "timestamp option"
  sg_finished_at :: "timestamp option"
  sg_attempts :: int
  sg_error :: "rstr option"

record pipeline_progress =
  pp_stages :: "stage_progress list"
  pp_current :: "job_kind option"
  pp_completed :: nat
  pp_total :: nat

text \<open>\<open>Iterator::next_back\<close> of the jobs of a kind.\<close>

definition last_job :: "job list \<Rightarrow> job_kind \<Rightarrow> job option" where
  "last_job js k = (case rev (filter (\<lambda>j. job_kind j = k) js) of [] \<Rightarrow> None | j # _ \<Rightarrow> Some j)"

definition stage_of :: "job list \<Rightarrow> job_kind \<Rightarrow> stage_progress" where
  "stage_of js k =
     (case last_job js k of
        Some j \<Rightarrow> \<lparr>sg_kind = k, sg_state = state_as_str (job_state j), sg_started_at = job_locked_at j,
                   sg_finished_at = (if job_state j \<in> {Done, Failed} then Some (job_updated_at j) else None),
                   sg_attempts = job_attempts j, sg_error = job_error j\<rparr>
      | None \<Rightarrow> \<lparr>sg_kind = k, sg_state = lit ''pending'', sg_started_at = None, sg_finished_at = None,
                 sg_attempts = 0, sg_error = None\<rparr>)"

definition build_progress :: "job list \<Rightarrow> pipeline_progress" where
  "build_progress js =
     (let stages = map (stage_of js) PIPELINE_STAGES in
      \<lparr>pp_stages = stages,
       pp_current = map_option sg_kind (find (\<lambda>s. sg_state s = lit ''running'') stages),
       pp_completed = length (filter (\<lambda>s. sg_state s = lit ''done'') stages),
       pp_total = length PIPELINE_STAGES\<rparr>)"

text \<open>\<^verbatim>\<open>ORDER BY created_at, template\<close>; the order of templates is the database's collation.\<close>

definition list_summaries_by_recording ::
  "(summary_row list \<Rightarrow> summary_row list) \<Rightarrow> db \<Rightarrow> uuid \<Rightarrow> summary_row list" where
  "list_summaries_by_recording by_template d rid =
     sort_key s_created_at (by_template (filter (\<lambda>s. s_recording_id s = rid) (summaries d)))"

text \<open>The rows of \<open>list_recording_speakers\<close> with the name each is shown under.\<close>

definition recording_speaker_rows :: "db \<Rightarrow> uuid \<Rightarrow> (rec_speaker \<times> rstr) list" where
  "recording_speaker_rows d rid =
     map (\<lambda>s. (s, case display_name_of d rid (rs_local_idx s) of
                    Some n \<Rightarrow> n | None \<Rightarrow> speaker_label (rs_local_idx s)))
       (sort_key rs_local_idx (filter (\<lambda>s. rs_recording_id s = rid) (recording_speakers d)))"

record recording_detail =
  rd_recording :: recording
  rd_speakers :: "(rec_speaker \<times> rstr) list"
  rd_utterances :: "utterance list"
  rd_summaries :: "summary_row list"
  rd_progress :: "pipeline_progress option"

definition get_recording_handler ::
  "(summary_row list \<Rightarrow> summary_row list) \<Rightarrow> uuid \<Rightarrow> db \<Rightarrow> recording_detail res" where
  "get_recording_handler by_template rid d =
     (case get_recording d rid of
        Inl e \<Rightarrow> Inl e
      | Inr r \<Rightarrow>
          Inr \<lparr>rd_recording = r, rd_speakers = recording_speaker_rows d rid,
               rd_utterances = list_utterances_by_recording d rid,
               rd_summaries = list_summaries_by_recording by_template d rid,
               rd_progress = (if rec_status r \<in> {Processing, RFailed}
                              then Some (build_progress (list_jobs_by_recording d rid)) else None)\<rparr>)"

section \<open>Starting the pipeline\<close>

record complete_body =
  cp_duration_ms :: "int option"
  cp_marks :: "int list option"

definition default_complete_body :: complete_body where
  "default_complete_body = \<lparr>cp_duration_ms = None, cp_marks = None\<rparr>"

text \<open>A statement that is only run when its value was supplied.\<close>

definition when_given :: "('a \<Rightarrow> db \<Rightarrow> db res) \<Rightarrow> 'a option \<Rightarrow> db \<Rightarrow> db res" where
  "when_given f x d = (case x of None \<Rightarrow> Inr d | Some y \<Rightarrow> f y d)"

definition complete_recording ::
  "world \<Rightarrow> timestamp \<Rightarrow> uuid \<Rightarrow> complete_body option \<Rightarrow> db \<Rightarrow> reply \<times> db" where
  "complete_recording W now rid b d =
     (let body = (case b of None \<Rightarrow> default_complete_body | Some x \<Rightarrow> x) in
      case get_recording d rid of
        Inl e \<Rightarrow> (Inl e, d)
      | Inr r \<Rightarrow>
      if rec_status r \<noteq> Uploading then (Inl Conflict, d)
      else case when_given (set_recording_duration rid) (cp_duration_ms body) d of
        Inl e \<Rightarrow> (Inl e, d)
      | Inr d1 \<Rightarrow>
     (case when_given (set_recording_marks rid) (cp_marks body) d1 of
        Inl e \<Rightarrow> (Inl e, d1)
      | Inr d2 \<Rightarrow>
     (case set_recording_status rid Processing d2 of
        Inl e \<Rightarrow> (Inl e, d2)
      | Inr d3 \<Rightarrow>
     (case enqueue now rid Transcode empty_payload d3 of
        Inl e \<Rightarrow> (Inl e, d3)
      | Inr (_, d4) \<Rightarrow>
          (Inr (200, obj [(''id'', JString (uuid_str W rid)), (''status'', JString (status_as_str Processing))]), d4)))))"

definition processing_reply :: "world \<Rightarrow> uuid \<Rightarrow> nat \<times> json" where
  "processing_reply W rid =
     (202, obj [(''id'', JString (uuid_str W rid)), (''status'', JString (status_as_str Processing))])"

definition reprocess_recording :: "world \<Rightarrow> timestamp \<Rightarrow> uuid \<Rightarrow> db \<Rightarrow> reply \<times> db" where
  "reprocess_recording W now rid d =
     (case get_recording d rid of
        Inl e \<Rightarrow> (Inl e, d)
      | Inr _ \<Rightarrow>
     (case reset_for_reprocess rid d of
        Inl e \<Rightarrow> (Inl e, d)
      | Inr d1 \<Rightarrow>
     (case enqueue now rid Transcode empty_payload d1 of
        Inl e \<Rightarrow> (Inl e, d1)
      | Inr (_, d2) \<Rightarrow> (Inr (processing_reply W rid), d2))))"

definition rediarize_recording :: "world \<Rightarrow> timestamp \<Rightarrow> uuid \<Rightarrow> db \<Rightarrow> reply \<times> db" where
  "rediarize_recording W now rid d =
     (case get_recording d rid of
        Inl e \<Rightarrow> (Inl e, d)
      | Inr _ \<Rightarrow>
     (case reset_for_rediarize rid d of
        Inl e \<Rightarrow> (Inl e, d)
      | Inr (False, d1) \<Rightarrow> (Inl Conflict, d1)
      | Inr (True, d1) \<Rightarrow>
     (case enqueue now rid Diarize empty_payload d1 of
        Inl e \<Rightarrow> (Inl e, d1)
      | Inr (_, d2) \<Rightarrow> (Inr (processing_reply W rid), d2))))"

definition summarize_recording :: "world \<Rightarrow> timestamp \<Rightarrow> uuid \<Rightarrow> rstr option \<Rightarrow> db \<Rightarrow> reply \<times> db" where
  "summarize_recording W now rid template_q d =
     (let raw = trim (case template_q of None \<Rightarrow> [] | Some t \<Rightarrow> t) in
      if raw \<noteq> [] \<and> \<not> is_known raw then (Inl BadRequest, d)
      else let template = (if raw = [] then DEFAULT_TEMPLATE_ID else canonical_id raw) in
      case get_recording d rid of
        Inl e \<Rightarrow> (Inl e, d)
      | Inr _ \<Rightarrow>
     (case enqueue now rid Summarize (obj [(''template'', JString template)]) d of
        Inl e \<Rightarrow> (Inl e, d)
      | Inr (_, d1) \<Rightarrow>
          (Inr (202, obj [(''id'', JString (uuid_str W rid)), (''template'', JString template),
                          (''status'', JString (lit ''queued''))]), d1)))"


definition list_summary_templates :: json where
  "list_summary_templates = obj [(''templates'', JArray (map (\<lambda>t.
     obj [(''id'', JString (tmpl_id t)), (''label'', JString (tmpl_label t))]) TEMPLATES))]"

section \<open>Corrections\<close>

definition set_recording_tags_handler :: "world \<Rightarrow> (rstr \<Rightarrow> rstr) \<Rightarrow> uuid \<Rightarrow> rstr list option \<Rightarrow> db \<Rightarrow> reply \<times> db" where
  "set_recording_tags_handler W lower rid b d =
     (case set_recording_tags lower rid (case b of None \<Rightarrow> [] | Some ts \<Rightarrow> ts) d of
        Inl e \<Rightarrow> (Inl e, d)
      | Inr (tags, d') \<Rightarrow>
          (Inr (200, obj [(''id'', JString (uuid_str W rid)), (''tags'', JArray (map JString tags))]), d'))"

definition set_participants :: "world \<Rightarrow> uuid \<Rightarrow> int option \<Rightarrow> db \<Rightarrow> reply \<times> db" where
  "set_participants W rid n d =
     (if is_some_and n (\<lambda>n. \<not> (1 \<le> n \<and> n \<le> 64)) then (Inl BadRequest, d)
      else case set_participants_expected rid n d of
        Inl e \<Rightarrow> (Inl e, d)
      | Inr d' \<Rightarrow>
          (Inr (200, obj [(''id'', JString (uuid_str W rid)), (''participants_expected'', json_opt json_int n)]), d'))"

definition edit_utterance :: "uuid \<Rightarrow> int \<Rightarrow> rstr \<Rightarrow> db \<Rightarrow> utterance res \<times> db" where
  "edit_utterance rid uid body_text d =
     (if trim body_text = [] then (Inl BadRequest, d)
      else case update_utterance_text rid uid (trim body_text) d of
        (None, d') \<Rightarrow> (Inl NotFound, d')
      | (Some u, d') \<Rightarrow> (Inr u, d'))"

text \<open>The text block of a summary; \<open>pj\<close> (\<open>to_string\<close>) stringifies an entry that is not a string.\<close>

fun json_strings :: "(json \<Rightarrow> rstr) \<Rightarrow> json \<Rightarrow> rstr list" where
  "json_strings pj (JArray items) =
     List.map_filter (\<lambda>i. case i of
        JString s \<Rightarrow> if trim s \<noteq> [] then Some (trim s) else None
      | other \<Rightarrow> Some (pj other)) items"
| "json_strings pj _ = []"

definition push_list :: "(json \<Rightarrow> rstr) \<Rightarrow> rstr \<Rightarrow> rstr \<Rightarrow> json \<Rightarrow> rstr" where
  "push_list pj out header v =
     (let items = json_strings pj v in
      if items = [] then out
      else out @ header @ [10] @ concat (map (\<lambda>i. lit ''- '' @ i @ [10]) items) @ [10])"

definition push_text :: "rstr \<Rightarrow> rstr option \<Rightarrow> rstr" where
  "push_text out t =
     (case map_option trim t of Some s \<Rightarrow> if s \<noteq> [] then out @ s @ [10, 10] else out | None \<Rightarrow> out)"

definition render_summary_block :: "(json \<Rightarrow> rstr) \<Rightarrow> summary_row \<Rightarrow> rstr" where
  "render_summary_block pj s =
     (let out = push_text (push_text [] (s_title s)) (s_summary s);
          out = push_list pj out (lit ''Action items:'') (s_action_items s);
          out = push_list pj out (lit ''Decisions:'') (s_decisions s);
          topics = json_strings pj (s_topics s);
          out = (if topics = [] then out else out @ lit ''Topics: '' @ join (lit '', '') topics @ [10])
      in trim_end out)"

definition translate_summary ::
  "world \<Rightarrow> config \<Rightarrow> (summary_row list \<Rightarrow> summary_row list) \<Rightarrow> uuid \<Rightarrow> rstr \<Rightarrow> db \<Rightarrow> (rstr \<times> rstr) res" where
  "translate_summary W cfg by_template rid lang_q d =
     (let lang = trim lang_q in
      if lang = [] then Inl BadRequest
      else let ss = list_summaries_by_recording by_template d rid in
      case (case find (\<lambda>s. s_template s = DEFAULT_TEMPLATE_ID) ss of
              Some s \<Rightarrow> Some s | None \<Rightarrow> (case ss of [] \<Rightarrow> None | s # _ \<Rightarrow> Some s)) of
        None \<Rightarrow> Inl NotFound
      | Some s \<Rightarrow>
          let user = lit ''Translate the following meeting summary into '' @ lang @
                lit ''. Preserve the structure and meaning. Output only the translation, no preamble.'' @ [10, 10] @
                render_summary_block (print_json W) s
          in case chat W (summarize_model (llm cfg)) [system_msg (lit ''You are a translator.''), user_msg user] of
               Inl e \<Rightarrow> Inl ServiceUnavailable
             | Inr reply \<Rightarrow> Inr (lang, trim reply))"

section \<open>Speakers\<close>

definition delete_recording_speaker_handler :: "world \<Rightarrow> timestamp \<Rightarrow> uuid \<Rightarrow> int \<Rightarrow> db \<Rightarrow> reply \<times> db" where
  "delete_recording_speaker_handler W now rid i d =
     (case get_recording d rid of
        Inl e \<Rightarrow> (Inl e, d)
      | Inr _ \<Rightarrow>
     (case delete_recording_speaker rid i d of
        Inl e \<Rightarrow> (Inl e, d)
      | Inr (removed, d1) \<Rightarrow>
     (case enqueue now rid Embed empty_payload d1 of
        Inl e \<Rightarrow> (Inl e, d1)
      | Inr (_, d2) \<Rightarrow>
     (case enqueue now rid Summarize empty_payload d2 of
        Inl e \<Rightarrow> (Inl e, d2)
      | Inr (_, d3) \<Rightarrow>
          (Inr (200, obj [(''id'', JString (uuid_str W rid)), (''local_idx'', json_int i),
                          (''utterances_removed'', json_int (int removed))]), d3)))))"

definition get_speaker :: "db \<Rightarrow> uuid \<Rightarrow> speaker_row res" where
  "get_speaker d sid = (case lookup_by sp_id sid (speakers d) of None \<Rightarrow> Inl NotFound | Some s \<Rightarrow> Inr s)"

text \<open>\<^verbatim>\<open>ORDER BY display_name\<close> under the database's collation.\<close>

definition list_speakers :: "(speaker_row list \<Rightarrow> speaker_row list) \<Rightarrow> db \<Rightarrow> speaker_row list" where
  "list_speakers by_name d = by_name (speakers d)"

definition recording_count :: "db \<Rightarrow> uuid \<Rightarrow> nat" where
  "recording_count d sid =
     length (remdups (map rs_recording_id (filter (\<lambda>s. rs_speaker_id s = Some sid) (recording_speakers d))))"

definition list_speakers_with_usage :: "(speaker_row list \<Rightarrow> speaker_row list) \<Rightarrow> db \<Rightarrow> (speaker_row \<times> nat) list" where
  "list_speakers_with_usage by_name d = map (\<lambda>s. (s, recording_count d (sp_id s))) (by_name (speakers d))"

record speaker_view =
  sv_id :: uuid
  sv_display_name :: rstr
  sv_created_at :: timestamp
  sv_has_voiceprint :: bool
  sv_recording_count :: nat

definition new_speaker_view :: "speaker_row \<Rightarrow> nat \<Rightarrow> speaker_view" where
  "new_speaker_view s n = \<lparr>sv_id = sp_id s, sv_display_name = sp_display_name s, sv_created_at = sp_created_at s,
     sv_has_voiceprint = (sp_embedding s \<noteq> None), sv_recording_count = n\<rparr>"

record name_body =
  nb_name :: "rstr option"
  nb_speaker_id :: "uuid option"
  nb_enroll :: bool
  nb_replace_voiceprint :: bool

text \<open>
  The identity a diarized voice is given: the one picked from the library, else the first whose name
  is the given one up to ASCII case, else a new one, which gets the voice at once when enrolling.
\<close>

definition pick_identity ::
  "(speaker_row list \<Rightarrow> speaker_row list) \<Rightarrow> uuid \<Rightarrow> timestamp \<Rightarrow> name_body \<Rightarrow> rstr \<Rightarrow> f32 list option \<Rightarrow> db \<Rightarrow>
     (speaker_row \<times> db) res" where
  "pick_identity by_name new_id now b name emb d =
     (case nb_speaker_id b of
        Some sid \<Rightarrow> (case get_speaker d sid of Inl e \<Rightarrow> Inl e | Inr s \<Rightarrow> Inr (s, d))
      | None \<Rightarrow>
          (case find (\<lambda>s. eq_ignore_ascii_case (sp_display_name s) name) (list_speakers by_name d) of
             Some s \<Rightarrow> Inr (s, d)
           | None \<Rightarrow> create_speaker new_id now name (if nb_enroll b then emb else None) d))"

text \<open>\<open>nearest\<close> is the answer of \<open>nearest_enrolled\<close>; it only decides what the client is told.\<close>

definition learn_voice ::
  "(f32 list \<Rightarrow> db \<Rightarrow> speaker_row option) \<Rightarrow> name_body \<Rightarrow> speaker_row \<Rightarrow> f32 list option \<Rightarrow> db \<Rightarrow>
     (bool \<times> rstr option \<times> db) res" where
  "learn_voice nearest b s emb d =
     (let enrolled = (sp_embedding s \<noteq> None) in
      case emb of
        None \<Rightarrow> Inr (enrolled, None, d)
      | Some e \<Rightarrow>
          if nb_enroll b \<and> (\<not> enrolled \<or> nb_replace_voiceprint b)
          then let other = (case nearest e d of Some t \<Rightarrow> if sp_id t \<noteq> sp_id s then Some (sp_display_name t) else None
                                             | None \<Rightarrow> None)
               in (case set_speaker_embedding (sp_id s) e d of Inl x \<Rightarrow> Inl x | Inr d' \<Rightarrow> Inr (True, other, d'))
          else Inr (enrolled, None, d))"

definition name_speaker ::
  "world \<Rightarrow> (speaker_row list \<Rightarrow> speaker_row list) \<Rightarrow> (f32 list \<Rightarrow> db \<Rightarrow> speaker_row option) \<Rightarrow> uuid \<Rightarrow> timestamp \<Rightarrow>
     uuid \<Rightarrow> int \<Rightarrow> name_body \<Rightarrow> db \<Rightarrow> reply \<times> db" where
  "name_speaker W by_name nearest new_id now rid i b d =
     (let name = (case map_option trim (nb_name b) of None \<Rightarrow> [] | Some n \<Rightarrow> n) in
      if name = [] \<and> nb_speaker_id b = None then (Inl BadRequest, d)
      else case find (\<lambda>s. rs_local_idx s = i)
                 (sort_key rs_local_idx (filter (\<lambda>s. rs_recording_id s = rid) (recording_speakers d))) of
        None \<Rightarrow> (Inl NotFound, d)
      | Some rs \<Rightarrow>
     (case pick_identity by_name new_id now b name (rs_embedding rs) d of
        Inl e \<Rightarrow> (Inl e, d)
      | Inr (s, d1) \<Rightarrow>
     (case learn_voice nearest b s (rs_embedding rs) d1 of
        Inl e \<Rightarrow> (Inl e, d1)
      | Inr (enrolled, other, d2) \<Rightarrow>
     (case set_recording_speaker rid i (Some (sp_id s)) d2 of
        Inl e \<Rightarrow> (Inl e, d2)
      | Inr d3 \<Rightarrow>
          (Inr (200, obj [(''local_idx'', json_int i), (''already_enrolled_as'', json_opt JString other),
                          (''speaker_id'', JString (uuid_str W (sp_id s))),
                          (''display_name'', JString (sp_display_name s)), (''enrolled'', JBool enrolled)]), d3)))))"

definition unname_speaker :: "uuid \<Rightarrow> int \<Rightarrow> db \<Rightarrow> reply \<times> db" where
  "unname_speaker rid i d =
     (case set_recording_speaker rid i None d of
        Inl e \<Rightarrow> (Inl e, d)
      | Inr d' \<Rightarrow> (Inr (200, obj [(''local_idx'', json_int i), (''speaker_id'', JNull)]), d'))"

definition list_speakers_handler :: "(speaker_row list \<Rightarrow> speaker_row list) \<Rightarrow> db \<Rightarrow> speaker_view list" where
  "list_speakers_handler by_name d = map (\<lambda>(s, n). new_speaker_view s n) (list_speakers_with_usage by_name d)"

definition rename_speaker_handler ::
  "(speaker_row list \<Rightarrow> speaker_row list) \<Rightarrow> uuid \<Rightarrow> rstr \<Rightarrow> db \<Rightarrow> speaker_view res \<times> db" where
  "rename_speaker_handler by_name sid body_name d =
     (if trim body_name = [] then (Inl BadRequest, d)
      else case rename_speaker sid (trim body_name) d of
        Inl e \<Rightarrow> (Inl e, d)
      | Inr d1 \<Rightarrow>
     (case get_speaker d1 sid of
        Inl e \<Rightarrow> (Inl e, d1)
      | Inr s \<Rightarrow>
          (Inr (new_speaker_view s (case find (\<lambda>(x, n). sp_id x = sid) (list_speakers_with_usage by_name d1) of
                                      Some (x, n) \<Rightarrow> n | None \<Rightarrow> 0)), d1)))"

definition delete_speaker_handler :: "world \<Rightarrow> uuid \<Rightarrow> db \<Rightarrow> reply \<times> db" where
  "delete_speaker_handler W sid d =
     (case delete_speaker sid d of
        Inl e \<Rightarrow> (Inl e, d)
      | Inr d' \<Rightarrow> (Inr (200, obj [(''id'', JString (uuid_str W sid)), (''deleted'', JBool True)]), d'))"


section \<open>Handlers are steps of the system\<close>

lemma keeps_marks: "set_recording_marks rid ms d = Inr d' \<Longrightarrow> keeps_queue d d'"
  unfolding set_recording_marks_def by (erule keeps_update_recording) simp

lemma keeps_participants: "set_participants_expected rid n d = Inr d' \<Longrightarrow> keeps_queue d d'"
  unfolding set_participants_expected_def by (erule keeps_update_recording) simp

lemma keeps_tags: "set_recording_tags lower rid ts d = Inr (x, d') \<Longrightarrow> keeps_queue d d'"
  by (auto simp: set_recording_tags_def Let_def split: sum.splits intro: keeps_update_recording)

lemma keeps_speaker_edits:
  "set_recording_speaker rid i sid d = Inr d' \<Longrightarrow> keeps_queue d d'"
  "delete_recording_speaker rid i d = Inr (n, d') \<Longrightarrow> keeps_queue d d'"
  "create_speaker s now name e d = Inr (x, d') \<Longrightarrow> keeps_queue d d'"
  "set_speaker_embedding s v d = Inr d' \<Longrightarrow> keeps_queue d d'"
  "rename_speaker s name d = Inr d' \<Longrightarrow> keeps_queue d d'"
  "delete_speaker s d = Inr d' \<Longrightarrow> keeps_queue d d'"
  "update_utterance_text rid uid t d = (y, d') \<Longrightarrow> keeps_queue d d'"
  by (auto simp: set_recording_speaker_def delete_recording_speaker_def create_speaker_def set_speaker_embedding_def
      rename_speaker_def update_speaker_def delete_speaker_def update_utterance_text_def not_found_if_zero_def
      keeps_queue_def Let_def split: if_splits)

lemmas keeps_edits =
  keeps_marks keeps_participants keeps_tags keeps_speaker_edits keeps_storage_key keeps_duration

lemma keeps_when_given:
  "when_given f x d = Inr d' \<Longrightarrow> (\<And>y. f y d = Inr d' \<Longrightarrow> keeps_queue d d') \<Longrightarrow> keeps_queue d d'"
  by (auto simp: when_given_def split: option.splits)

text \<open>What one statement of a handler does to a state of the system, whoever is at work.\<close>

definition goes :: "worker_config \<Rightarrow> db \<Rightarrow> db \<Rightarrow> bool" where
  "goes wc d d' \<longleftrightarrow> (\<forall>A. (sys_step wc)\<^sup>*\<^sup>* (d, A) (d', A))"

lemma goes_refl [simp]: "goes wc d d"
  by (simp add: goes_def)

lemma goes_trans [trans]: "goes wc a b \<Longrightarrow> goes wc b c \<Longrightarrow> goes wc a c"
  unfolding goes_def by (meson rtranclp_trans)

lemma goes_edit: "keeps_queue d d' \<Longrightarrow> goes wc d d'"
  by (simp add: goes_def steps_one edited)

lemma goes_segment: "insert_segment s now rid q key a b n sha d = Inr d' \<Longrightarrow> goes wc d d'"
  by (rule goes_edit) (auto simp: insert_segment_def Let_def keeps_queue_def split: if_splits)

lemma goes_when_given:
  "when_given (set_recording_duration rid) x d = Inr d' \<Longrightarrow> goes wc d d'"
  "when_given (set_recording_marks rid) y d = Inr d' \<Longrightarrow> goes wc d d'"
  by (auto intro!: goes_edit elim!: keeps_when_given intro: keeps_edits)

lemma goes_status: "set_recording_status rid s d = Inr d' \<Longrightarrow> goes wc d d'"
  by (simp add: goes_def steps_one marked)

lemma goes_request: "enqueue now rid k p d = Inr (j, d') \<Longrightarrow> k \<in> REQUEST_KINDS \<Longrightarrow> goes wc d d'"
  by (simp add: goes_def steps_one requested)

lemma goes_follow: "enqueue now rid k p d = Inr (j, d') \<Longrightarrow> predecessors_done d rid k \<Longrightarrow> goes wc d d'"
  by (simp add: goes_def steps_one followed)

lemma goes_created: "create_recording i now t dv ps f rt d = Inr (r, d') \<Longrightarrow> goes wc d d'"
  by (simp add: goes_def steps_one created)

lemma goes_resets:
  "reset_for_reprocess rid d = Inr d' \<Longrightarrow> goes wc d d'" "reset_for_rediarize rid d = Inr (b, d') \<Longrightarrow> goes wc d d'"
  "delete_recording rid d = Inr d' \<Longrightarrow> goes wc d d'"
  by (simp_all add: goes_def steps_one reprocessed rediarized deleted)

lemmas goes_edits = keeps_edits [THEN goes_edit]

lemma goes_complete: "goes wc d (snd (complete_recording W now rid b d))"
  unfolding complete_recording_def Let_def
  by (auto split: sum.splits simp: REQUEST_KINDS_def
      dest!: goes_when_given [where wc = wc] goes_status [where wc = wc] goes_request [where wc = wc]
      intro: goes_trans)

lemma goes_reprocess: "goes wc d (snd (reprocess_recording W now rid d))"
  unfolding reprocess_recording_def
  by (auto split: sum.splits simp: REQUEST_KINDS_def
      dest!: goes_resets [where wc = wc] goes_request [where wc = wc] intro: goes_trans)

lemma goes_rediarize: "goes wc d (snd (rediarize_recording W now rid d))"
  unfolding rediarize_recording_def
  by (auto split: sum.splits bool.splits simp: REQUEST_KINDS_def
      dest!: goes_resets [where wc = wc] goes_request [where wc = wc] intro: goes_trans)

lemma goes_summarize: "goes wc d (snd (summarize_recording W now rid t d))"
  unfolding summarize_recording_def Let_def
  by (auto split: sum.splits simp: REQUEST_KINDS_def dest!: goes_request [where wc = wc])

lemma goes_create: "goes wc d (snd (create_recording_handler W i now b d))"
  unfolding create_recording_handler_def Let_def
  by (auto split: sum.splits dest!: goes_created [where wc = wc] goes_edits [where wc = wc] intro: goes_trans)

lemma goes_delete: "goes wc d (snd (delete_recording_handler W r rid d))"
  unfolding delete_recording_handler_def
  by (auto split: sum.splits dest!: goes_resets [where wc = wc])

lemma goes_corrections:
  "goes wc d (snd (set_recording_tags_handler W lower rid ts d))"
  "goes wc d (snd (set_participants W rid n d))"
  "goes wc d (snd (edit_utterance rid uid tx d))"
  "goes wc d (snd (unname_speaker rid i d))"
  "goes wc d (snd (rename_speaker_handler by_name sid nm d))"
  "goes wc d (snd (delete_speaker_handler W sid d))"
  unfolding set_recording_tags_handler_def set_participants_def edit_utterance_def unname_speaker_def
    rename_speaker_handler_def delete_speaker_handler_def
  by (auto split: sum.splits prod.splits option.splits dest!: goes_edits [where wc = wc])

lemma goes_name: "goes wc d (snd (name_speaker W by_name nearest i now rid k b d))"
proof -
  have pick: "pick_identity by_name i now b nm e d = Inr (s, d1) \<Longrightarrow> goes wc d d1" for nm e s d1
    by (auto simp: pick_identity_def split: option.splits sum.splits intro: goes_edits)
  have learn: "learn_voice nearest b s e d1 = Inr (x, y, d2) \<Longrightarrow> goes wc d1 d2" for s e d1 x y d2
    by (auto simp: learn_voice_def Let_def split: option.splits sum.splits if_splits intro: goes_edits)
  show ?thesis
    unfolding name_speaker_def Let_def
    by (auto split: sum.splits option.splits dest!: pick learn goes_edits [where wc = wc] intro: goes_trans)
qed


text \<open>Removing a voice is a step too, provided the merge stage is done, as its comment takes for granted.\<close>

lemma goes_delete_recording_speaker:
  assumes "done_for d rid Merge"
  shows "goes wc d (snd (delete_recording_speaker_handler W now rid i d))"
proof -
  have emb: "goes wc d1 d2" if "delete_recording_speaker rid i d = Inr (n, d1)" "enqueue now rid Embed p d1 = Inr (j, d2)" for n d1 p j d2
  proof (rule goes_follow [OF that(2)])
    have "jobs d1 = jobs d" using keeps_edits(5) [OF that(1)] by (simp add: keeps_queue_def)
    then show "predecessors_done d1 rid Embed" using assms by (simp add: predecessors_done_iff done_for_def)
  qed
  have del: "goes wc d d1" if "delete_recording_speaker rid i d = Inr (n, d1)" for n d1
    using keeps_edits(5) [OF that] by (rule goes_edit)
  have sum: "goes wc d1 d2" if "enqueue now rid Summarize p d1 = Inr (j, d2)" for p d1 j d2
    using goes_request [OF that] by (simp add: REQUEST_KINDS_def)
  show ?thesis
    unfolding delete_recording_speaker_handler_def
    by (auto split: sum.splits intro: del goes_trans [OF del emb] goes_trans [OF goes_trans [OF del emb] sum])
qed

text \<open>
  Without that proviso it queues \<open>Embed\<close> ungated: a sequence of the steps that allow requests to do so.
\<close>

lemma voice_removal_steps:
  "(step_with (insert Embed REQUEST_KINDS) wc)\<^sup>*\<^sup>* (d, A) (snd (delete_recording_speaker_handler W now rid i d), A)"
proof -
  let ?go = "\<lambda>x y. (step_with (insert Embed REQUEST_KINDS) wc)\<^sup>*\<^sup>* (x, A) (y, A)"
  have del: "?go d d1" if "delete_recording_speaker rid i d = Inr (n, d1)" for n d1
    by (rule r_into_rtranclp, rule edited) (rule keeps_edits(5) [OF that])
  have ask: "?go d1 d2" if "enqueue now rid k p d1 = Inr (j, d2)" "k \<in> {Embed, Summarize}" for k p d1 j d2
    by (rule r_into_rtranclp, rule requested [OF _ that(1)]) (use that(2) in \<open>auto simp: REQUEST_KINDS_def\<close>)
  show ?thesis
    unfolding delete_recording_speaker_handler_def
    by (auto split: sum.splits intro: del rtranclp_trans [OF del ask]
        rtranclp_trans [OF rtranclp_trans [OF del ask] ask])
qed

text \<open>
  No request can break the queue. From any reachable state, with workers in whatever they are doing,
  every handler that changes a recording or a speaker ends in a reachable state, whether it succeeds,
  is refused or stops at a failing statement; only the removal of a voice needs its recording merged.
\<close>

theorem handlers_refine_steps:
  assumes "reach sys_init (sys_step wc) (d, A)" and "done_for d merged Merge"
  shows "\<forall>d' \<in> {snd (create_recording_handler W new_id now cb d), snd (complete_recording W now rid co d),
      snd (delete_recording_handler W removed rid d), snd (reprocess_recording W now rid d),
      snd (rediarize_recording W now rid d), snd (summarize_recording W now rid tmpl d),
      snd (set_recording_tags_handler W lower rid tags d), snd (set_participants W rid n d),
      snd (edit_utterance rid uid tx d), snd (name_speaker W by_name nearest new_id now rid i nb d),
      snd (unname_speaker rid i d), snd (rename_speaker_handler by_name sid nm d),
      snd (delete_speaker_handler W sid d), snd (delete_recording_speaker_handler W now merged i d)}.
    reach sys_init (sys_step wc) (d', A)"
proof -
  have "goes wc d d' \<Longrightarrow> reach sys_init (sys_step wc) (d', A)" for d'
    using reach_steps [OF _ assms(1)] by (simp add: goes_def)
  then show ?thesis
    using goes_create goes_complete goes_delete goes_reprocess goes_rediarize goes_summarize goes_corrections goes_name
      goes_delete_recording_speaker [OF assms(2)]
    by (simp only: ball_simps)
qed

lemma run_turns_reach:
  assumes "pick_ok pick" and "reach sys_init (sys_step wc) (d, A)"
    and "run_turns wc (run_stage W cfg) se pick w configured dec ts d = Inr d'"
  shows "reach sys_init (sys_step wc) (d', A)"
  using assms(2,3)
proof (induction ts arbitrary: d)
  case (Cons turn ts)
  obtain now settled where turn: "turn = (now, settled)" by force
  have ok: "queue_ok d" using server.inv_reach [OF Cons.prems(1)] by (simp add: inv_with_def)
  have none: "stage_dropped W cfg now 0 = (\<lambda>_ _ _ x. x)" by (simp add: stage_dropped_def fun_eq_iff)
  obtain b d1 where t: "worker_turn wc (run_stage W cfg now) (\<lambda>_ _ _ x. x) se pick w now settled configured dec [] d = Inr (b, d1)"
    using Cons.prems(2) turn by (auto split: sum.splits)
  have "reach sys_init (sys_step wc) (d1, A)"
    using t [folded none] reach_steps [OF worker_turn_steps [OF assms(1) ok] Cons.prems(1)] by blast
  then show ?case using Cons.IH Cons.prems(2) t turn by simp
qed simp

lemma demo_submitted: "submitted 5 [7] demo_db"
  by (simp add: submitted_def demo_ok) (simp add: demo_db_def demo_job_def new_job_def)

lemma processed_exists: "\<exists>d. reach sys_init (sys_step demo_wc) (d, []) \<and> done_for d 7 Merge"
proof -
  have kinds: "set PIPELINE \<subseteq> set (claimable_kinds ALL_KINDS open_window)"
    by (simp add: claimable_kinds_def ALL_KINDS_def PIPELINE_def open_window_def)
  let ?ts = "[(5, 5), (6, 6), (7, 7), (8, 8), (9, 9), (10, 10)] :: (int \<times> int) list"
  have pre: "sorted (instants ?ts)" "\<forall>t \<in> set (instants ?ts). 5 \<le> t"
    "6 * length [7 :: uuid] \<le> finished_jobs demo_db + length ?ts" by simp_all
  obtain d' later where run: "run_turns demo_wc (run_stage demo_world demo_config) (\<lambda>e. []) hd [] ALL_KINDS open_window
      ?ts demo_db = Inr d'" "under_way later [7] d'" "\<forall>j \<in> set (jobs d'). job_state j = Done"
    using run_turns_drain [OF demo_healthy pick_ok_hd kinds pre(1,2) submitted_under_way [OF demo_submitted] pre(3),
        where cfg = demo_config] by blast
  then have "done_for d' 7 Merge" using all_done [OF run(2,3), of 7] by (simp add: PIPELINE_def)
  then show ?thesis using run_turns_reach [OF pick_ok_hd demo_reach run(1)] by blast
qed

theorem handlers_refine_steps_witness:
  "\<exists>d. done_for d 7 Merge \<and> reach sys_init (sys_step demo_wc) (snd (delete_recording_speaker_handler demo_world 9 7 0 d), [])"
proof -
  obtain d where d: "reach sys_init (sys_step demo_wc) (d, [])" "done_for d 7 Merge" using processed_exists by blast
  show ?thesis using handlers_refine_steps [OF d, where W = demo_world and now = 9 and i = 0] d(2) by blast
qed


text \<open>
  Without that proviso the step does not exist: a voice removed between diarize and merge is answered
  with success, and queues the embedding of a recording that has not been merged.
\<close>

definition unmerged_db :: db where
  "unmerged_db = sample_db\<lparr>recording_speakers :=
     [\<lparr>rs_recording_id = 7, rs_local_idx = 0, rs_speaker_id = None, rs_embedding = None\<rparr>]\<rparr>"

lemma voice_removed_too_early:
  "\<exists>v d. delete_recording_speaker_handler W 9 7 0 unmerged_db = (Inr v, d) \<and>
     list_ex (\<lambda>j. job_kind j = Embed \<and> job_state j = Queued) (jobs d) \<and> \<not> predecessors_done d 7 Embed \<and> \<not> gated REQUEST_KINDS d"
  by (simp add: delete_recording_speaker_handler_def delete_recording_speaker_def unmerged_db_def sample_db_def
      empty_db_def sample_recording_def get_recording_def lookup_by_def enqueue_def enqueue_with_priority_def
      live_job_for_def has_recording_def new_job_def live_def predecessors_done_iff done_for_def gated_def
      REQUEST_KINDS_def rows_affected_def Let_def)

section \<open>Completing an upload\<close>


lemma get_recording_status:
  assumes "get_recording d rid = Inr r" and "status_is d rid s"
  shows "rec_status r = s"
  using assms by (auto simp: get_recording_def lookup_by_def status_is_def split: option.splits dest!: find_SomeD)

lemma when_given_total:
  assumes "has_recording d rid"
  shows "\<exists>d'. when_given (set_recording_duration rid) x d = Inr d'" "\<exists>d'. when_given (set_recording_marks rid) y d = Inr d'"
  using assms by (auto simp: when_given_def set_recording_duration_def set_recording_marks_def update_recording_cases
      split: option.splits)

text \<open>
  C14: an upload is completed once. For a recording that is still uploading the request succeeds: the
  recording is then \<open>processing\<close> with exactly one live transcode job, and a second request, whatever it
  carries, is a conflict that changes nothing; a recording in any other status is refused at once.
\<close>

theorem complete_recording_once:
  assumes "queue_ok d" and "get_recording d rid = Inr r"
  shows "if rec_status r \<noteq> Uploading then complete_recording W now rid b d = (Inl Conflict, d)
    else \<exists>v d' j. complete_recording W now rid b d = (Inr v, d') \<and> queue_ok d' \<and> status_is d' rid Processing \<and>
      live_job_for d' rid Transcode = [j] \<and>
      (\<forall>now' b'. complete_recording W now' rid b' d' = (Inl Conflict, d'))"
proof (cases "rec_status r = Uploading")
  case False
  then show ?thesis using assms(2) by (simp add: complete_recording_def)
next
  case True
  let ?b = "case b of None \<Rightarrow> default_complete_body | Some x \<Rightarrow> x"
  have hr: "has_recording d rid"
    using assms(2) by (auto simp: get_recording_def has_recording_def lookup_by_def dest: find_SomeD split: option.splits)
  obtain d1 where d1: "when_given (set_recording_duration rid) (cp_duration_ms ?b) d = Inr d1"
    using when_given_total(1) [OF hr] by blast
  have k1: "keeps_queue d d1" by (rule keeps_when_given [OF d1]) (rule keeps_duration)
  have hr1: "has_recording d1 rid" using keeps_queue_has_recording [OF k1] hr by simp
  obtain d2 where d2: "when_given (set_recording_marks rid) (cp_marks ?b) d1 = Inr d2"
    using when_given_total(2) [OF hr1] by blast
  have k2: "keeps_queue d1 d2" by (rule keeps_when_given [OF d2]) (rule keeps_marks)
  have hr2: "has_recording d2 rid" using keeps_queue_has_recording [OF k2] hr1 by simp
  obtain d3 where d3: "set_recording_status rid Processing d2 = Inr d3" "status_is d3 rid Processing" "jobs d3 = jobs d2"
    "next_job_id d3 = next_job_id d2" "\<And>r. has_recording d3 r = has_recording d2 r"
    by (rule marked_ready [OF hr2, of Processing]) (rule that)
  have kq: "keeps_queue d d2" by (rule keeps_queue_trans [OF k1 k2])
  have ok3: "queue_ok d3"
    by (rule queue_ok_same_jobs [OF assms(1)])
      (use kq d3 keeps_queue_has_recording [OF kq] in \<open>simp_all add: keeps_queue_def\<close>)
  obtain j d4 where e: "enqueue now rid Transcode empty_payload d3 = Inr (j, d4)"
    using enqueue_total [of d3 rid now Transcode empty_payload] d3(5) hr2 by blast
  have ok4: "queue_ok d4" using enqueue_ok [OF ok3] e unfolding enqueue_def by blast
  have one: "live_job_for d4 rid Transcode = [j]" by (rule live_job_for_enqueued [OF ok3 e])
  have rec: "recordings d4 = recordings d3"
    using e unfolding enqueue_def by (elim enqueue_cases) simp_all
  then have st: "status_is d4 rid Processing" using d3(2) by (simp add: status_is_def)
  have "has_recording d4 rid" using hr2 d3(5) rec by (simp add: has_recording_def)
  then obtain r4 where r4: "get_recording d4 rid = Inr r4" using get_recording_has by blast
  have "rec_status r4 \<noteq> Uploading" using get_recording_status [OF r4 st] by simp
  then have "complete_recording W now' rid b' d4 = (Inl Conflict, d4)" for now' b'
    using r4 by (simp add: complete_recording_def)
  moreover have "\<exists>v. complete_recording W now rid b d = (Inr v, d4)"
    using assms(2) True d1 d2 d3(1) e by (simp add: complete_recording_def)
  ultimately show ?thesis using True ok4 st one by auto
qed

theorem complete_recording_once_witness:
  "\<exists>v d' j. complete_recording demo_world 3 7 None sample_db = (Inr v, d') \<and> live_job_for d' 7 Transcode = [j] \<and>
     complete_recording demo_world 4 7 None d' = (Inl Conflict, d')"
proof -
  have "queue_ok sample_db" by (simp add: queue_ok_def sample_db_def empty_db_def)
  moreover have "get_recording sample_db 7 = Inr sample_recording"
    by (simp add: get_recording_def lookup_by_def sample_db_def sample_recording_def)
  moreover have "rec_status sample_recording = Uploading" by (simp add: sample_recording_def)
  ultimately show ?thesis using complete_recording_once [of sample_db 7 sample_recording demo_world 3 None] by auto
qed


section \<open>Progress is the newest job of each stage\<close>

lemma last_job_None: "last_job js k = None \<longleftrightarrow> (\<forall>j \<in> set js. job_kind j \<noteq> k)"
proof -
  have "last_job js k = None \<longleftrightarrow> filter (\<lambda>j. job_kind j = k) js = []"
    by (auto simp: last_job_def split: list.splits)
  then show ?thesis by (simp add: filter_empty_conv)
qed

lemma last_job_newest:
  assumes "sorted (map job_id js)" and "last_job js k = Some j"
  shows "j \<in> set js \<and> job_kind j = k \<and> (\<forall>x \<in> set js. job_kind x = k \<longrightarrow> job_id x \<le> job_id j)"
proof -
  let ?f = "filter (\<lambda>j. job_kind j = k) js"
  obtain ys where "rev ?f = j # ys" using assms(2) by (auto simp: last_job_def split: list.splits)
  then have f: "?f = rev ys @ [j]" by (metis rev.simps(2) rev_rev_ident)
  have "sorted (map job_id ?f)" using assms(1) by (simp add: sorted_filter)
  then have le: "\<forall>x \<in> set ?f. job_id x \<le> job_id j" unfolding f by (auto simp: sorted_append)
  have "j \<in> set ?f" unfolding f by simp
  then show ?thesis using le by auto
qed

lemma state_strings: "state_as_str s = lit ''pending'' \<longleftrightarrow> False" "state_as_str s = lit ''done'' \<longleftrightarrow> s = Done"
    "state_as_str s = lit ''running'' \<longleftrightarrow> s = Running"
  by (cases s; simp)+

text \<open>The newest job of a stage, if it has one.\<close>

definition newest_job :: "db \<Rightarrow> uuid \<Rightarrow> job_kind \<Rightarrow> job \<Rightarrow> bool" where
  "newest_job d rid k j \<longleftrightarrow> j \<in> set (jobs d) \<and> job_recording_id j = Some rid \<and> job_kind j = k \<and>
     (\<forall>x \<in> set (jobs d). job_recording_id x = Some rid \<longrightarrow> job_kind x = k \<longrightarrow> job_id x \<le> job_id j)"

lemma stage_of_recording:
  "(case last_job (list_jobs_by_recording d rid) k of
      None \<Rightarrow> \<forall>j \<in> set (jobs d). job_recording_id j = Some rid \<longrightarrow> job_kind j \<noteq> k
    | Some j \<Rightarrow> newest_job d rid k j)"
proof -
  have s: "sorted (map job_id (list_jobs_by_recording d rid))" by (simp add: list_jobs_by_recording_def)
  have m: "set (list_jobs_by_recording d rid) = {j \<in> set (jobs d). job_recording_id j = Some rid}"
    by (auto simp: list_jobs_by_recording_def)
  show ?thesis
  proof (cases "last_job (list_jobs_by_recording d rid) k")
    case None
    then have "\<forall>j \<in> {j \<in> set (jobs d). job_recording_id j = Some rid}. job_kind j \<noteq> k" unfolding last_job_None m .
    then show ?thesis using None by simp
  next
    case (Some j)
    from last_job_newest [OF s Some] show ?thesis using Some unfolding m by (simp add: newest_job_def)
  qed
qed

lemma newest_job_unique: "queue_ok d \<Longrightarrow> newest_job d rid k a \<Longrightarrow> newest_job d rid k b \<Longrightarrow> a = b"
proof -
  assume ok: "queue_ok d" and a: "newest_job d rid k a" and b: "newest_job d rid k b"
  then have "job_id a = job_id b" by (auto simp: newest_job_def intro: order_antisym)
  moreover have "distinct (map job_id (jobs d))" using ok by (simp add: queue_ok_def)
  ultimately show ?thesis using a b distinct_map_eqD [of job_id "jobs d" a b] by (simp add: newest_job_def)
qed

lemma length_filter_card: "distinct xs \<Longrightarrow> length (filter P xs) = card {x \<in> set xs. P x}"
  by (metis distinct_card distinct_filter set_filter)

lemma stage_state_iff:
  assumes "queue_ok d" and "s \<in> {Done, Running}"
  shows "sg_state (stage_of (list_jobs_by_recording d rid) k) = state_as_str s \<longleftrightarrow>
    (\<exists>j. newest_job d rid k j \<and> job_state j = s)"
proof (cases "last_job (list_jobs_by_recording d rid) k")
  case None
  then have "\<not> newest_job d rid k j" for j using stage_of_recording [of d rid k] by (auto simp: newest_job_def)
  moreover have "lit ''pending'' \<noteq> state_as_str s" using state_strings(1) by metis
  ultimately show ?thesis using None by (simp add: stage_of_def)
next
  case (Some j)
  then have "newest_job d rid k j" using stage_of_recording [of d rid k] by simp
  then have "(\<exists>j. newest_job d rid k j \<and> job_state j = s) \<longleftrightarrow> job_state j = s"
    using newest_job_unique [OF assms(1)] by blast
  moreover have "state_as_str a = state_as_str s \<longleftrightarrow> a = s" for a using assms(2) by (cases a) auto
  ultimately show ?thesis using Some by (simp add: stage_of_def)
qed

text \<open>
  The checklist a client polls always has the six stages in pipeline order. A stage is \<open>pending\<close>
  exactly when the recording has no job of it, and otherwise shows the state, attempts and error of the
  newest one; \<open>completed\<close> counts the stages whose newest job is done, and \<open>current\<close> is a stage whose
  newest job is running, if there is one.
\<close>

theorem progress_reports_newest:
  assumes "queue_ok d" and "p = build_progress (list_jobs_by_recording d rid)"
  shows "map sg_kind (pp_stages p) = [Transcode, Diarize, Transcribe, Merge, Embed, Summarize] \<and> pp_total p = 6 \<and>
   (\<forall>s \<in> set (pp_stages p). if sg_state s = lit ''pending''
       then \<forall>j \<in> set (jobs d). job_recording_id j = Some rid \<longrightarrow> job_kind j \<noteq> sg_kind s
       else \<exists>j. newest_job d rid (sg_kind s) j \<and> sg_state s = state_as_str (job_state j) \<and>
         sg_attempts s = job_attempts j \<and> sg_error s = job_error j) \<and>
   pp_completed p = card {k \<in> set PIPELINE. \<exists>j. newest_job d rid k j \<and> job_state j = Done} \<and>
   (case pp_current p of
      Some k \<Rightarrow> \<exists>j. newest_job d rid k j \<and> job_state j = Running
    | None \<Rightarrow> {k \<in> set PIPELINE. \<exists>j. newest_job d rid k j \<and> job_state j = Running} = {})"
proof -
  let ?st = "stage_of (list_jobs_by_recording d rid)"
  have kind: "sg_kind (?st k) = k" for k by (simp add: stage_of_def split: option.splits)
  have stages: "pp_stages p = map ?st PIPELINE_STAGES" "pp_total p = 6"
    by (simp_all add: assms(2) build_progress_def Let_def PIPELINE_STAGES_def)
  have "map sg_kind (pp_stages p) = [Transcode, Diarize, Transcribe, Merge, Embed, Summarize]"
    by (simp add: stages kind PIPELINE_STAGES_def)
  moreover have "if sg_state (?st k) = lit ''pending''
       then \<forall>j \<in> set (jobs d). job_recording_id j = Some rid \<longrightarrow> job_kind j \<noteq> k
       else \<exists>j. newest_job d rid k j \<and> sg_state (?st k) = state_as_str (job_state j) \<and>
         sg_attempts (?st k) = job_attempts j \<and> sg_error (?st k) = job_error j" for k
    using stage_of_recording [of d rid k] state_strings(1)
    by (cases "last_job (list_jobs_by_recording d rid) k") (auto simp: stage_of_def simp del: lit_Cons)
  then have "\<forall>s \<in> set (pp_stages p). if sg_state s = lit ''pending''
       then \<forall>j \<in> set (jobs d). job_recording_id j = Some rid \<longrightarrow> job_kind j \<noteq> sg_kind s
       else \<exists>j. newest_job d rid (sg_kind s) j \<and> sg_state s = state_as_str (job_state j) \<and>
         sg_attempts s = job_attempts j \<and> sg_error s = job_error j"
    by (simp only: stages set_map ball_simps(9) kind) blast
  moreover have "pp_completed p = card {k \<in> set PIPELINE. \<exists>j. newest_job d rid k j \<and> job_state j = Done}"
  proof -
    have "pp_completed p = length (filter (\<lambda>k. sg_state (?st k) = lit ''done'') PIPELINE_STAGES)"
      by (simp add: assms(2) build_progress_def Let_def filter_map o_def del: lit_Cons)
    also have "\<dots> = card {k \<in> set PIPELINE_STAGES. sg_state (?st k) = lit ''done''}"
      by (rule length_filter_card) (simp add: PIPELINE_STAGES_def)
    finally show ?thesis using stage_state_iff [OF assms(1), of Done rid]
      by (simp add: PIPELINE_def PIPELINE_STAGES_def)
  qed
  moreover have "case pp_current p of
      Some k \<Rightarrow> \<exists>j. newest_job d rid k j \<and> job_state j = Running
    | None \<Rightarrow> {k \<in> set PIPELINE. \<exists>j. newest_job d rid k j \<and> job_state j = Running} = {}"
  proof -
    have run: "sg_state (?st k) = lit ''running'' \<longleftrightarrow> (\<exists>j. newest_job d rid k j \<and> job_state j = Running)" for k
      using stage_state_iff [OF assms(1), of Running rid k] by (simp del: lit_Cons)
    have cur: "pp_current p = map_option sg_kind (find (\<lambda>s. sg_state s = lit ''running'') (map ?st PIPELINE_STAGES))"
      by (simp add: assms(2) build_progress_def Let_def del: lit_Cons)
    show ?thesis
    proof (cases "find (\<lambda>s. sg_state s = lit ''running'') (map ?st PIPELINE_STAGES)")
      case None
      have "\<forall>k \<in> set PIPELINE_STAGES. sg_state (?st k) \<noteq> lit ''running''"
        using None [unfolded find_None_iff] by (metis imageI list.set_map)
      then have "\<forall>k \<in> set PIPELINE. \<not> (\<exists>j. newest_job d rid k j \<and> job_state j = Running)"
        unfolding run by (simp add: PIPELINE_def PIPELINE_STAGES_def)
      then show ?thesis using cur None by auto
    next
      case (Some s)
      then obtain k where "s = ?st k" "sg_state s = lit ''running''" by (auto dest!: find_SomeD simp del: lit_Cons)
      then show ?thesis using cur Some run [of k] kind by simp
    qed
  qed
  ultimately show ?thesis using stages(2) by blast
qed

theorem progress_reports_newest_witness:
  "queue_ok demo_db \<and> pp_completed (build_progress (list_jobs_by_recording demo_db 7)) =
     card {k \<in> set PIPELINE. \<exists>j. newest_job demo_db 7 k j \<and> job_state j = Done}"
  using progress_reports_newest [OF demo_ok refl, of 7] demo_ok by blast


section \<open>Naming a voice\<close>

lemma pick_identity_result:
  assumes "pick_identity by_name new_id now b name emb d = Inr (s, d1)" and "\<And>xs. set (by_name xs) = set xs"
  shows "s \<in> set (speakers d1) \<and> recording_speakers d1 = recording_speakers d \<and> set (speakers d) \<subseteq> set (speakers d1) \<and>
    (distinct (map sp_id (speakers d)) \<longrightarrow> distinct (map sp_id (speakers d1))) \<and>
    (case nb_speaker_id b of Some sid \<Rightarrow> sp_id s = sid | None \<Rightarrow> eq_ignore_ascii_case (sp_display_name s) name)"
proof (cases "nb_speaker_id b")
  case (Some sid)
  then show ?thesis using assms(1)
    by (auto simp: pick_identity_def get_speaker_def lookup_by_def split: option.splits sum.splits dest!: find_SomeD)
next
  case None
  show ?thesis
  proof (cases "find (\<lambda>s. eq_ignore_ascii_case (sp_display_name s) name) (list_speakers by_name d)")
    case (Some t)
    then have "t \<in> set (speakers d)" "eq_ignore_ascii_case (sp_display_name t) name"
      using assms(2) by (auto simp: list_speakers_def dest!: find_SomeD)
    then show ?thesis using assms(1) None Some by (simp add: pick_identity_def)
  next
    case none: None
    then show ?thesis using assms(1) None
      by (auto simp: pick_identity_def create_speaker_def Let_def eq_ignore_ascii_case_def split: if_splits)
  qed
qed

lemma learn_voice_result:
  assumes "learn_voice nearest b s emb d = Inr (enrolled, other, d1)" and "s \<in> set (speakers d)" and "distinct (map sp_id (speakers d))"
  shows "recording_speakers d1 = recording_speakers d \<and> map sp_id (speakers d1) = map sp_id (speakers d) \<and>
    (\<exists>s' \<in> set (speakers d1). sp_id s' = sp_id s \<and> sp_display_name s' = sp_display_name s) \<and>
    (\<forall>t \<in> set (speakers d). sp_embedding t \<noteq> None \<longrightarrow> (nb_enroll b \<and> nb_replace_voiceprint b \<longrightarrow> sp_id t \<noteq> sp_id s) \<longrightarrow>
       t \<in> set (speakers d1))"
proof (cases "emb \<noteq> None \<and> nb_enroll b \<and> (sp_embedding s = None \<or> nb_replace_voiceprint b)")
  case False
  then have "d1 = d" using assms(1) by (auto simp: learn_voice_def Let_def split: option.splits if_splits)
  then show ?thesis using assms(2) by auto
next
  case True
  then obtain e where e: "set_speaker_embedding (sp_id s) e d = Inr d1"
    using assms(1) by (auto simp: learn_voice_def Let_def split: option.splits if_splits sum.splits)
  let ?f = "\<lambda>x. if sp_id x = sp_id s then x\<lparr>sp_embedding := Some e\<rparr> else x"
  have d1: "speakers d1 = map ?f (speakers d)" "recording_speakers d1 = recording_speakers d"
    using e by (auto simp: set_speaker_embedding_def update_speaker_def not_found_if_zero_def update_where_def split: if_splits)
  have img: "?f x \<in> set (speakers d1)" if "x \<in> set (speakers d)" for x unfolding d1(1) set_map using that by (rule imageI)
  from img [OF assms(2)]
  have "\<exists>s' \<in> set (speakers d1). sp_id s' = sp_id s \<and> sp_display_name s' = sp_display_name s"
    by (rule rev_bexI) simp
  moreover have "t \<in> set (speakers d1)" if "t \<in> set (speakers d)" "sp_embedding t \<noteq> None"
    "nb_enroll b \<and> nb_replace_voiceprint b \<longrightarrow> sp_id t \<noteq> sp_id s" for t
  proof -
    have "sp_id t \<noteq> sp_id s" using that True distinct_map_eqD [OF assms(3) that(1) assms(2)] by auto
    then have "?f t = t" by simp
    then show ?thesis using img [OF that(1)] by simp
  qed
  moreover have "map sp_id (speakers d1) = map sp_id (speakers d)" by (simp add: d1(1))
  ultimately show ?thesis using d1(2) by blast
qed

text \<open>
  Naming a diarized voice points that voice, and no other, at one enrolled person: the one picked by
  id, or one whose name is the given one up to case. A voiceprint, once learnt, is never lost or changed,
  except that of this person when the caller asks to enroll and to replace it.
\<close>

theorem name_speaker_keeps_voiceprints:
  assumes "name_speaker W by_name nearest new_id now rid i b d = (Inr v, d')" and "\<And>xs. set (by_name xs) = set xs"
    and "distinct (map sp_id (speakers d))"
  shows "\<exists>s \<in> set (speakers d').
    (case nb_speaker_id b of Some sid \<Rightarrow> sp_id s = sid
       | None \<Rightarrow> eq_ignore_ascii_case (sp_display_name s) (case map_option trim (nb_name b) of Some n \<Rightarrow> n | None \<Rightarrow> [])) \<and>
    recording_speakers d' = map (\<lambda>r. if rs_recording_id r = rid \<and> rs_local_idx r = i then r\<lparr>rs_speaker_id := Some (sp_id s)\<rparr> else r)
      (recording_speakers d) \<and>
    (\<forall>t \<in> set (speakers d). sp_embedding t \<noteq> None \<longrightarrow> (nb_enroll b \<and> nb_replace_voiceprint b \<longrightarrow> sp_id t \<noteq> sp_id s) \<longrightarrow>
       t \<in> set (speakers d'))"
proof -
  let ?name = "case map_option trim (nb_name b) of Some n \<Rightarrow> n | None \<Rightarrow> []"
  obtain emb s d1 enrolled other d2 where p: "pick_identity by_name new_id now b ?name emb d = Inr (s, d1)"
    and l: "learn_voice nearest b s emb d1 = Inr (enrolled, other, d2)"
    and r: "set_recording_speaker rid i (Some (sp_id s)) d2 = Inr d'"
    using assms(1) unfolding name_speaker_def Let_def
    by (auto split: if_splits option.splits sum.splits prod.splits)
  note P = pick_identity_result [OF p assms(2)]
  have dist: "distinct (map sp_id (speakers d1))" using P assms(3) by blast
  note L = learn_voice_result [OF l conjunct1 [OF P] dist]
  have d': "speakers d' = speakers d2" "recording_speakers d' = map (\<lambda>r. if rs_recording_id r = rid \<and> rs_local_idx r = i
      then r\<lparr>rs_speaker_id := Some (sp_id s)\<rparr> else r) (recording_speakers d2)"
    using r by (auto simp: set_recording_speaker_def update_where_def Let_def split: if_splits)
  obtain s' where s': "s' \<in> set (speakers d2)" "sp_id s' = sp_id s" "sp_display_name s' = sp_display_name s" using L by blast
  have rs: "recording_speakers d2 = recording_speakers d" using P L by simp
  have keep: "t \<in> set (speakers d')" if "t \<in> set (speakers d)" "sp_embedding t \<noteq> None"
    "nb_enroll b \<and> nb_replace_voiceprint b \<longrightarrow> sp_id t \<noteq> sp_id s" for t
    using that P L by (simp only: d'(1)) blast
  have who: "case nb_speaker_id b of Some sid \<Rightarrow> sp_id s' = sid | None \<Rightarrow> eq_ignore_ascii_case (sp_display_name s') ?name"
    using P s'(2,3) by (simp split: option.splits)
  show ?thesis using who keep s'(1,2) d' rs by (intro bexI [of _ s']) auto
qed

definition voices_db :: db where
  "voices_db = unmerged_db\<lparr>speakers := [\<lparr>sp_id = 3, sp_display_name = lit ''Ann'', sp_embedding = Some (blank_vector VOICE_WIDTH), sp_created_at = 0\<rparr>]\<rparr>"

theorem name_speaker_keeps_voiceprints_witness:
  "\<exists>v d'. name_speaker demo_world (\<lambda>xs. xs) (\<lambda>e d. None) 4 9 7 0
      \<lparr>nb_name = Some (lit ''ann ''), nb_speaker_id = None, nb_enroll = True, nb_replace_voiceprint = False\<rparr> voices_db = (Inr v, d') \<and>
     (\<exists>s \<in> set (speakers d'). map rs_speaker_id (recording_speakers d') = [Some (sp_id s)])"
proof -
  let ?b = "\<lparr>nb_name = Some (lit ''ann ''), nb_speaker_id = None, nb_enroll = True, nb_replace_voiceprint = False\<rparr>"
  obtain v d' where n: "name_speaker demo_world (\<lambda>xs. xs) (\<lambda>e d. None) 4 9 7 0 ?b voices_db = (Inr v, d')"
    by (simp add: name_speaker_def voices_db_def unmerged_db_def sample_db_def empty_db_def pick_identity_def list_speakers_def
        learn_voice_def set_recording_speaker_def has_speaker_def rows_affected_def Let_def text_defs)
  have "distinct (map sp_id (speakers voices_db))" by (simp add: voices_db_def)
  from name_speaker_keeps_voiceprints [OF n refl this] show ?thesis using n
    by (auto simp: voices_db_def unmerged_db_def)
qed

end
