(* ===== verification/Scribe_Range.thy ===== *)
theory Scribe_Range
  imports Scribe_Storage Scribe_Store
begin

text \<open>
  Serving a recording's audio, \<open>crates/scribe-api/src/range.rs\<close> and \<open>handlers/audio.rs\<close>: the
  single-range subset of RFC 7233 on 64-bit lengths, and the response that is built from it.

  Opening the file is a parameter (its outcome); a body is the bytes that will be streamed.
\<close>

type_synonym u64 = "64 word"

section \<open>Parsing the header\<close>

datatype parsed_range = Full | Bytes u64 u64 | Unsatisfiable

definition parse_word :: "rstr \<Rightarrow> u64 option" where
  "parse_word s = map_option word_of_nat (parse_u64 s)"

definition parse_range :: "rstr \<Rightarrow> u64 \<Rightarrow> parsed_range" where
  "parse_range value file_len =
     (case strip_prefix (lit ''bytes='') (trim value) of
        None \<Rightarrow> Full
      | Some spec \<Rightarrow>
      (case split_once (ch CHR ''-'') (trim (split_first (ch CHR '','') spec)) of
         None \<Rightarrow> Full
       | Some (start_s, end_s) \<Rightarrow>
           if file_len = 0 then Unsatisfiable
           else let last = file_len - 1 in
           if start_s = [] then
             (case parse_word end_s of
                None \<Rightarrow> Full
              | Some suffix \<Rightarrow>
                  if suffix = 0 then Unsatisfiable
                  else let len = min suffix file_len in Bytes (file_len - len) last)
           else
             (case parse_word start_s of
                None \<Rightarrow> Full
              | Some start \<Rightarrow>
                  if start > last then Unsatisfiable
                  else (case (if end_s = [] then Some last else map_option (\<lambda>e. min e last) (parse_word end_s)) of
                          None \<Rightarrow> Full
                        | Some end_ \<Rightarrow> if end_ < start then Unsatisfiable else Bytes start end_))))"

section \<open>The response\<close>

datatype open_failure = NoSuchFile | OtherIo

record http_response =
  status :: nat
  content_type :: "rstr option"
  content_range :: "rstr option"
  content_length :: "rstr option"
  body :: "8 word list"

definition show_u64 :: "u64 \<Rightarrow> rstr" where
  "show_u64 n = show_nat (unat n)"

definition full_body :: "8 word list \<Rightarrow> u64 \<Rightarrow> rstr option \<Rightarrow> http_response" where
  "full_body file file_len ct =
     \<lparr>status = 200, content_type = ct, content_range = None, content_length = Some (show_u64 file_len), body = file\<rparr>"

text \<open>
  \<open>opened\<close> is the file's content or why it cannot be opened, \<open>range_header\<close> the header if it is there
  and visible ASCII, \<open>ct\<close> the content type as a header value.
\<close>

definition serve_file_range ::
  "open_failure + 8 word list \<Rightarrow> rstr option \<Rightarrow> rstr option \<Rightarrow> http_response res" where
  "serve_file_range opened ct range_header =
     (case opened of
        Inl NoSuchFile \<Rightarrow> Inl NotFound
      | Inl OtherIo \<Rightarrow> Inl Io
      | Inr file \<Rightarrow>
          let file_len = word_of_nat (length file) in
          case range_header of
            None \<Rightarrow> Inr (full_body file file_len ct)
          | Some h \<Rightarrow>
              (case parse_range h file_len of
                 Full \<Rightarrow> Inr (full_body file file_len ct)
               | Unsatisfiable \<Rightarrow>
                   Inr \<lparr>status = 416, content_type = ct,
                        content_range = Some (lit ''bytes */'' @ show_u64 file_len),
                        content_length = None, body = []\<rparr>
               | Bytes start end_ \<Rightarrow>
                   let len = end_ - start + 1 in
                   Inr \<lparr>status = 206, content_type = ct,
                        content_range = Some (lit ''bytes '' @ show_u64 start @ lit ''-'' @ show_u64 end_ @ lit ''/'' @ show_u64 file_len),
                        content_length = Some (show_u64 len),
                        body = take (unat len) (drop (unat start) file)\<rparr>))"

definition get_audio ::
  "(uuid \<Rightarrow> rstr) \<Rightarrow> rstr \<Rightarrow> (rstr \<Rightarrow> open_failure + 8 word list) \<Rightarrow> uuid \<Rightarrow> rstr option \<Rightarrow> db \<Rightarrow> http_response res" where
  "get_audio uuid_str blobs open_file rid range_header d =
     (case get_recording d rid of
        Inl e \<Rightarrow> Inl e
      | Inr _ \<Rightarrow> serve_file_range (open_file (wav_path uuid_str blobs rid)) (Some (lit ''audio/wav'')) range_header)"

section \<open>A range stays inside the file\<close>

lemma parse_range_bounds:
  assumes "parse_range h n = Bytes a b"
  shows "a \<le> b \<and> b < n"
proof -
  have clip: "n - min x n \<le> n - 1 \<and> n - 1 < n" if "x \<noteq> 0" "n \<noteq> 0" for x :: u64
    using that unfolding min_def by (cases "x \<le> n") unat_arith+
  have below: "min e (n - 1) < n" "n - 1 < n" if "n \<noteq> 0" for e :: u64
    using that unfolding min_def by unat_arith+
  show ?thesis using assms clip below
    by (auto simp: parse_range_def Let_def not_less split: option.splits prod.splits if_splits)
qed

lemma unat_span:
  assumes "a \<le> b" and "b < (n :: u64)"
  shows "unat (b - a + 1) = unat b - unat a + 1"
  using assms by unat_arith

text \<open>
  C39: whatever the header says, the answer for a file of fewer than \<open>2 ^ 64\<close> bytes is one of three:
  the whole file (200); a non-empty slice that lies inside it, announced with its true bounds, its
  true length and the size of the file (206); or no bytes and the size (416). The unsigned
  subtractions never wrap.
\<close>

theorem audio_response_shape:
  assumes "length file < 2 ^ 64" and "serve_file_range (Inr file) ct h = Inr r"
  shows "(status r = 200 \<and> body r = file \<and> content_length r = Some (show_nat (length file)) \<and> content_range r = None) \<or>
    (status r = 206 \<and> (\<exists>a b. a \<le> b \<and> b < length file \<and> body r = take (b - a + 1) (drop a file) \<and>
       length (body r) = b - a + 1 \<and> content_length r = Some (show_nat (b - a + 1)) \<and>
       content_range r = Some (lit ''bytes '' @ show_nat a @ lit ''-'' @ show_nat b @ lit ''/'' @ show_nat (length file)))) \<or>
    (status r = 416 \<and> body r = [] \<and> content_range r = Some (lit ''bytes */'' @ show_nat (length file)))"
proof -
  let ?n = "word_of_nat (length file) :: u64"
  have n: "unat ?n = length file" using assms(1) by (simp add: unat_of_nat)
  have full: "status (full_body file ?n ct) = 200" "body (full_body file ?n ct) = file"
    "content_length (full_body file ?n ct) = Some (show_nat (length file))" "content_range (full_body file ?n ct) = None"
    by (simp_all add: full_body_def show_u64_def n)
  show ?thesis
  proof (cases h)
    case None
    then show ?thesis using assms(2) full by (simp add: serve_file_range_def)
  next
    case (Some v)
    show ?thesis
    proof (cases "parse_range v ?n")
      case Full
      then show ?thesis using assms(2) Some full by (simp add: serve_file_range_def)
    next
      case Unsatisfiable
      then show ?thesis using assms(2) Some n by (auto simp: serve_file_range_def show_u64_def Let_def)
    next
      case (Bytes a b)
      have ab: "a \<le> b" "b < ?n" using parse_range_bounds [OF Bytes] by simp_all
      then have nat: "unat a \<le> unat b" "unat b < length file" using n by (simp_all add: word_le_nat_alt word_less_nat_alt)
      have "r = \<lparr>status = 206, content_type = ct,
          content_range = Some (lit ''bytes '' @ show_u64 a @ lit ''-'' @ show_u64 b @ lit ''/'' @ show_u64 ?n),
          content_length = Some (show_u64 (b - a + 1)), body = take (unat (b - a + 1)) (drop (unat a) file)\<rparr>"
        using assms(2) Some Bytes by (simp add: serve_file_range_def Let_def)
      then show ?thesis using nat unat_span [OF ab] n
        by (intro disjI2 disjI1 conjI exI [of _ "unat a"] exI [of _ "unat b"]) (simp_all add: show_u64_def)
    qed
  qed
qed


definition demo_file :: "8 word list" where
  "demo_file = [10, 11, 12, 13]"

section \<open>What a client asks for is what it gets\<close>

lemma digit_plain: "list_all is_digit s \<Longrightarrow> c \<in> set s \<Longrightarrow> \<not> is_ws c \<and> c \<noteq> 44 \<and> c \<noteq> 45"
  by (auto simp: list_all_iff is_digit_def is_ws_def)

lemma parse_range_digits:
  assumes "list_all is_digit a" and "list_all is_digit b" and "n \<noteq> 0"
  shows "parse_range (lit ''bytes='' @ a @ lit ''-'' @ b) n =
    (if a = [] then (case parse_word b of None \<Rightarrow> Full
        | Some k \<Rightarrow> if k = 0 then Unsatisfiable else Bytes (n - min k n) (n - 1))
     else (case parse_word a of None \<Rightarrow> Full
        | Some i \<Rightarrow> if i > n - 1 then Unsatisfiable
           else (case (if b = [] then Some (n - 1) else map_option (\<lambda>e. min e (n - 1)) (parse_word b)) of
                   None \<Rightarrow> Full | Some e \<Rightarrow> if e < i then Unsatisfiable else Bytes i e)))"
proof -
  let ?spec = "a @ 45 # b"
  have plain: "\<not> is_ws c" "c \<noteq> 44" if "c \<in> set ?spec" for c
    using that digit_plain [OF assms(1)] digit_plain [OF assms(2)] by (auto simp: is_ws_def)
  have "\<not> is_ws c" if "c \<in> set (lit ''bytes='')" for c using that by (auto simp: is_ws_def)
  then have t: "trim (lit ''bytes='' @ ?spec) = lit ''bytes='' @ ?spec" using plain by (intro trim_no_ws) auto
  have f: "split_first 44 ?spec = ?spec" using plain(2) by (simp only: split_first_def takeWhile_eq_all_conv) blast
  have "45 \<notin> set a" using digit_plain [OF assms(1)] by blast
  then have so: "split_once 45 (trim ?spec) = Some (a, b)" using plain(1) by (simp add: trim_no_ws)
  have "parse_range (lit ''bytes='' @ ?spec) n = (if a = [] then (case parse_word b of None \<Rightarrow> Full
        | Some k \<Rightarrow> if k = 0 then Unsatisfiable else Bytes (n - min k n) (n - 1))
     else (case parse_word a of None \<Rightarrow> Full
        | Some i \<Rightarrow> if i > n - 1 then Unsatisfiable
           else (case (if b = [] then Some (n - 1) else map_option (\<lambda>e. min e (n - 1)) (parse_word b)) of
                   None \<Rightarrow> Full | Some e \<Rightarrow> if e < i then Unsatisfiable else Bytes i e)))"
    unfolding parse_range_def t strip_prefix_append using so f assms(3) by (simp add: Let_def split: option.split)
  then show ?thesis by simp
qed

lemma parse_word_show: "n < 2 ^ 64 \<Longrightarrow> parse_word (show_nat n) = Some (word_of_nat n)"
  by (simp add: parse_word_def parse_u64_show_nat)


lemma serve_slice:
  assumes "length file < 2 ^ 64" and "parse_range h (word_of_nat (length file)) = Bytes a b"
  shows "\<exists>r. serve_file_range (Inr file) ct (Some h) = Inr r \<and> status r = 206 \<and>
    body r = take (unat b + 1 - unat a) (drop (unat a) file)"
proof -
  note ab = parse_range_bounds [OF assms(2), THEN conjunct1] parse_range_bounds [OF assms(2), THEN conjunct2]
  have "unat b - unat a + 1 = unat b + 1 - unat a" using ab(1) by (simp add: word_le_nat_alt)
  then show ?thesis using assms(2) unat_span [OF ab] by (simp add: serve_file_range_def Let_def)
qed

text \<open>
  The three forms a client may send are answered with the bytes they name: from \<open>a\<close> to \<open>b\<close> (clipped
  at the end of the file), from \<open>a\<close> on, and the last \<open>k\<close>; a start past the end is refused with 416.
\<close>

theorem range_requests_honoured:
  assumes "file \<noteq> []" and "length file < 2 ^ 64" and "a < length file" and "a \<le> b" and "b < 2 ^ 64"
    and "0 < k" and "k < 2 ^ 64" and "length file \<le> c" and "c < 2 ^ 64"
  shows "(\<exists>r. serve_file_range (Inr file) ct (Some (lit ''bytes='' @ show_nat a @ lit ''-'' @ show_nat b)) = Inr r \<and>
       status r = 206 \<and> body r = take (b + 1 - a) (drop a file)) \<and>
    (\<exists>r. serve_file_range (Inr file) ct (Some (lit ''bytes='' @ show_nat a @ lit ''-'')) = Inr r \<and>
       status r = 206 \<and> body r = drop a file) \<and>
    (\<exists>r. serve_file_range (Inr file) ct (Some (lit ''bytes=-'' @ show_nat k)) = Inr r \<and>
       status r = 206 \<and> body r = drop (length file - k) file) \<and>
    (\<exists>r. serve_file_range (Inr file) ct (Some (lit ''bytes='' @ show_nat c @ lit ''-'' @ show_nat b)) = Inr r \<and>
       status r = 416 \<and> body r = [])"
proof -
  let ?n = "word_of_nat (length file) :: u64"
  let ?w = "word_of_nat :: nat \<Rightarrow> u64"
  have nz: "?n \<noteq> 0" using assms(1,2) by (simp add: word_of_nat_eq_0_iff nat_dvd_not_less)
  have u: "unat (?w x) = x" if "x < 2 ^ 64" for x using that by (simp add: unat_of_nat)
  have last: "unat (?n - 1) = length file - 1" using nz u [OF assms(2)] by (simp add: unat_minus_one)
  have small: "a < 2 ^ 64" using assms(2,3) by linarith
  note D = parse_range_digits [OF _ _ nz] and S = parse_word_show
  have digits: "list_all is_digit (show_nat x)" for x by (rule show_nat_digits)
  have ords: "\<not> ?w a > ?n - 1" "\<not> min (?w b) (?n - 1) < ?w a" "?w c > ?n - 1" "?w k \<noteq> 0"
    using assms u [OF small] u [OF assms(5)] u [OF assms(9)] u [OF assms(7)] last
    by (auto simp: word_less_nat_alt min_def word_le_nat_alt simp del: unat_of_nat)
  have p1: "parse_range (lit ''bytes='' @ show_nat a @ lit ''-'' @ show_nat b) ?n = Bytes (?w a) (min (?w b) (?n - 1))"
    by (subst D) (use ords in \<open>simp_all add: digits S [OF small] S [OF assms(5)]\<close>)
  have p2: "parse_range (lit ''bytes='' @ show_nat a @ lit ''-'' @ []) ?n = Bytes (?w a) (?n - 1)"
    by (subst D) (use ords in \<open>simp_all add: digits S [OF small]\<close>)
  have p3: "parse_range (lit ''bytes='' @ [] @ lit ''-'' @ show_nat k) ?n = Bytes (?n - min (?w k) ?n) (?n - 1)"
    by (subst D) (use ords in \<open>simp_all add: digits S [OF assms(7)]\<close>)
  have p4: "parse_range (lit ''bytes='' @ show_nat c @ lit ''-'' @ show_nat b) ?n = Unsatisfiable"
    by (subst D) (use ords in \<open>simp_all add: digits S [OF assms(9)]\<close>)
  have m: "unat (min (?w b) (?n - 1)) = min b (length file - 1)"
    using u [OF assms(5)] last by (simp add: min_def word_le_nat_alt)
  have k: "unat (?n - min (?w k) ?n) = length file - k"
  proof (cases "?w k \<le> ?n")
    case True
    then have "unat (?n - min (?w k) ?n) = unat ?n - unat (?w k)" by (simp add: min_def unat_sub)
    then show ?thesis by (simp only: u [OF assms(2)] u [OF assms(7)])
  next
    case False
    then have "length file < k" using u [OF assms(2)] u [OF assms(7)] by (simp add: word_le_nat_alt del: unat_of_nat)
    then show ?thesis using False by (simp add: min_def)
  qed
  have t1: "take (min b (length file - 1) + 1 - a) (drop a file) = take (b + 1 - a) (drop a file)"
    by (cases "b \<le> length file - 1") (simp_all add: min_def)
  have t2: "take (length file - 1 + 1 - x) (drop x file) = drop x file" for x by simp
  note slice = serve_slice [OF assms(2), where ct = ct]
  have "\<exists>r. serve_file_range (Inr file) ct (Some (lit ''bytes='' @ show_nat a @ lit ''-'' @ show_nat b)) = Inr r \<and>
       status r = 206 \<and> body r = take (b + 1 - a) (drop a file)"
    using slice [OF p1] unfolding m u [OF small] t1 .
  moreover have "\<exists>r. serve_file_range (Inr file) ct (Some (lit ''bytes='' @ show_nat a @ lit ''-'')) = Inr r \<and>
       status r = 206 \<and> body r = drop a file"
    using slice [OF p2] unfolding last u [OF small] t2 append_Nil2 .
  moreover have "\<exists>r. serve_file_range (Inr file) ct (Some (lit ''bytes=-'' @ show_nat k)) = Inr r \<and>
       status r = 206 \<and> body r = drop (length file - k) file"
    using slice [OF p3] unfolding last k t2 by simp
  moreover have "\<exists>r. serve_file_range (Inr file) ct (Some (lit ''bytes='' @ show_nat c @ lit ''-'' @ show_nat b)) = Inr r \<and>
       status r = 416 \<and> body r = []"
    using p4 by (simp add: serve_file_range_def Let_def del: lit_Cons)
  ultimately show ?thesis by blast
qed

theorem range_requests_honoured_witness:
  "\<exists>r. serve_file_range (Inr demo_file) None (Some (lit ''bytes='' @ show_nat 1 @ lit ''-'' @ show_nat 9)) = Inr r \<and>
     status r = 206 \<and> body r = [11, 12, 13]"
proof -
  have "demo_file \<noteq> []" "length demo_file < 2 ^ 64" "1 < length demo_file" "length demo_file \<le> 7"
    by (simp_all add: demo_file_def)
  from range_requests_honoured [OF this(1,2,3) _ _ _ _ this(4), of 9 1 None] show ?thesis
    by (simp add: demo_file_def del: lit_Cons)
qed

theorem audio_response_shape_witness:
  "length demo_file < 2 ^ 64 \<and> (\<exists>r. serve_file_range (Inr demo_file) None None = Inr r \<and>
     content_length r = Some (show_nat 4) \<and> (status r = 200 \<or> status r = 206 \<or> status r = 416))"
proof -
  have l: "length demo_file < 2 ^ 64" by (simp add: demo_file_def)
  obtain r where r: "serve_file_range (Inr demo_file) None None = Inr r" by (simp add: serve_file_range_def)
  then have "content_length r = Some (show_nat 4)"
    by (auto simp: serve_file_range_def full_body_def show_u64_def demo_file_def)
  then show ?thesis using audio_response_shape [OF l r] r l by blast
qed

end
