(* ===== verification/Scribe_Upload.thy ===== *)
theory Scribe_Upload
  imports Scribe_Api Scribe_Range
begin

text \<open>
  Uploading and playing back raw segments, \<open>crates/scribe-api/src/handlers/segments.rs\<close>. The blob store
  is a map from paths to contents; \<open>disk\<close> says which of the calls on it succeed, and the request body is
  the list of chunks the client's stream yields, the last one possibly an error. \<open>stores\<close> says whether the
  database takes the row it is given after the file is in place: it does not when the connection is gone,
  or when another request has deleted the recording while the body was read.
\<close>

type_synonym files = "rstr \<Rightarrow> 8 word list option"

section \<open>Headers and extensions\<close>

definition parse_i64 :: "rstr \<Rightarrow> int option" where
  "parse_i64 s =
     (let neg = (s \<noteq> [] \<and> hd s = 45); ds = (if s \<noteq> [] \<and> hd s \<in> {43, 45} then tl s else s)
      in if ds = [] \<or> \<not> list_all is_digit ds then None
         else let n = (if neg then - int (digits_val 0 ds) else int (digits_val 0 ds))
              in if - (2 ^ 63) \<le> n \<and> n < 2 ^ 63 then Some n else None)"

definition header_i64 :: "rstr option \<Rightarrow> int option" where
  "header_i64 v = Option.bind v (\<lambda>s. parse_i64 (trim s))"

definition ext_from_content_type :: "rstr \<Rightarrow> rstr option" where
  "ext_from_content_type ct =
     (if ct \<in> {lit ''audio/mp4'', lit ''audio/m4a'', lit ''audio/x-m4a'', lit ''audio/aac''} then Some (lit ''m4a'')
      else if ct \<in> {lit ''audio/mpeg'', lit ''audio/mp3''} then Some (lit ''mp3'')
      else if ct \<in> {lit ''audio/wav'', lit ''audio/x-wav'', lit ''audio/wave''} then Some (lit ''wav'')
      else if ct \<in> {lit ''audio/ogg'', lit ''audio/opus''} then Some (lit ''ogg'')
      else if ct = lit ''audio/webm'' then Some (lit ''webm'')
      else if ct \<in> {lit ''audio/flac'', lit ''audio/x-flac''} then Some (lit ''flac'')
      else None)"

definition audio_content_type :: "rstr \<Rightarrow> rstr" where
  "audio_content_type ext =
     (if ext \<in> {lit ''m4a'', lit ''mp4'', lit ''aac''} then lit ''audio/mp4''
      else if ext = lit ''mp3'' then lit ''audio/mpeg''
      else if ext = lit ''wav'' then lit ''audio/wav''
      else if ext \<in> {lit ''ogg'', lit ''opus''} then lit ''audio/ogg''
      else if ext = lit ''webm'' then lit ''audio/webm''
      else if ext = lit ''flac'' then lit ''audio/flac''
      else lit ''application/octet-stream'')"

definition resolve_ext :: "rstr option \<Rightarrow> rstr option \<Rightarrow> rstr" where
  "resolve_ext ext_q content_type_h =
     (let ext = (case ext_q of None \<Rightarrow> [] | Some e \<Rightarrow> to_ascii_lowercase (strip_dots (trim e))) in
      if ext \<noteq> [] then ext
      else case Option.bind content_type_h (\<lambda>ct. ext_from_content_type (trim (split_first (ch CHR '';'') ct))) of
        Some e \<Rightarrow> e
      | None \<Rightarrow> lit ''m4a'')"

section \<open>Upload\<close>

record disk =
  dk_create_dir :: bool
  dk_create :: bool
  dk_write :: "nat \<Rightarrow> bool"
  dk_flush :: bool
  dk_rename :: bool

datatype streamed = ReadFailed "8 word list" | WriteFailed | Streamed "8 word list"

text \<open>The loop over the body; \<open>acc\<close> is what the temporary file holds.\<close>

fun stream_body :: "(nat \<Rightarrow> bool) \<Rightarrow> nat \<Rightarrow> 8 word list \<Rightarrow> (unit + 8 word list) list \<Rightarrow> streamed" where
  "stream_body can_write n acc [] = Streamed acc"
| "stream_body can_write n acc (Inl _ # cs) = ReadFailed acc"
| "stream_body can_write n acc (Inr c # cs) =
     (if can_write n then stream_body can_write (n + 1) (acc @ c) cs else WriteFailed)"

definition tmp_path :: "(uuid \<Rightarrow> rstr) \<Rightarrow> rstr \<Rightarrow> uuid \<Rightarrow> int \<Rightarrow> rstr \<Rightarrow> rstr" where
  "tmp_path us root rid seq ext =
     path_join (segments_dir us root rid) (lit ''.'' @ show_int_06 seq @ lit ''.'' @ ext @ lit ''.partial'')"

record upload =
  up_ext :: "rstr option"
  up_content_type :: "rstr option"
  up_start_ms :: "rstr option"
  up_duration_ms :: "rstr option"
  up_body :: "(unit + 8 word list) list"

text \<open>Publishing: the rename, the row, and the live pass, whose failure does not fail the upload.\<close>

definition publish_segment ::
  "world \<Rightarrow> bool \<Rightarrow> (8 word list \<Rightarrow> 8 word list) \<Rightarrow> uuid \<Rightarrow> timestamp \<Rightarrow> recording \<Rightarrow> int \<Rightarrow> upload \<Rightarrow> rstr \<Rightarrow>
     8 word list \<Rightarrow> files \<Rightarrow> db \<Rightarrow> reply \<times> files \<times> db" where
  "publish_segment W stores sha256 new_id now r seq u ext content files d =
     (let rid = rec_id r;
          files' = (files(tmp_path (uuid_str W) (blobs W) rid seq ext := None))
                     (segment_path (uuid_str W) (blobs W) rid seq ext := Some content);
          key = segment_key (uuid_str W) rid seq ext
      in if \<not> stores then (Inl Database, files', d)
         else case insert_segment new_id now rid seq key (header_i64 (up_start_ms u)) (header_i64 (up_duration_ms u))
                (Some (int (length content))) (Some (sha256 content)) d of
           Inl e \<Rightarrow> (Inl e, files', d)
         | Inr d1 \<Rightarrow>
             (Inr (200, obj [(''seq'', json_int seq), (''bytes'', json_int (int (length content))), (''storage_key'', JString key)]),
              files',
              if rec_status r = Uploading
              then (case enqueue now rid TranscribeSegment empty_payload d1 of Inl e \<Rightarrow> d1 | Inr (_, d2) \<Rightarrow> d2)
              else d1))"

definition put_segment ::
  "world \<Rightarrow> disk \<Rightarrow> bool \<Rightarrow> (8 word list \<Rightarrow> 8 word list) \<Rightarrow> uuid \<Rightarrow> timestamp \<Rightarrow> uuid \<Rightarrow> int \<Rightarrow> upload \<Rightarrow> files \<Rightarrow> db \<Rightarrow>
     reply \<times> files \<times> db" where
  "put_segment W dk stores sha256 new_id now rid seq u files d =
     (case get_recording d rid of
        Inl e \<Rightarrow> (Inl e, files, d)
      | Inr r \<Rightarrow>
          let ext = resolve_ext (up_ext u) (up_content_type u);
              tmp = tmp_path (uuid_str W) (blobs W) rid seq ext
          in if \<not> dk_create_dir dk \<or> \<not> dk_create dk then (Inl Storage, files, d)
             else case stream_body (dk_write dk) 0 [] (up_body u) of
               ReadFailed part \<Rightarrow> (Inl BadRequest, files(tmp := Some part), d)
             | WriteFailed \<Rightarrow> (Inl Storage, files(tmp := None), d)
             | Streamed content \<Rightarrow>
                 if \<not> dk_flush dk \<or> \<not> dk_rename dk then (Inl Storage, files(tmp := Some content), d)
                 else publish_segment W stores sha256 new_id now r seq u ext content files d)"

section \<open>Playback\<close>

text \<open>\<open>Path::extension\<close>: after the last dot of the file name, unless that is its first character.\<close>

definition path_extension :: "rstr \<Rightarrow> rstr option" where
  "path_extension p =
     (let name = rev (takeWhile (\<lambda>c. c \<noteq> 47) (rev p));
          after = rev (takeWhile (\<lambda>c. c \<noteq> 46) (rev name))
      in if 46 \<in> set name \<and> length after + 1 < length name then Some after else None)"

definition open_in :: "files \<Rightarrow> rstr \<Rightarrow> open_failure + 8 word list" where
  "open_in files p = (case files p of None \<Rightarrow> Inl NoSuchFile | Some c \<Rightarrow> Inr c)"

definition get_segment :: "world \<Rightarrow> files \<Rightarrow> uuid \<Rightarrow> int \<Rightarrow> rstr option \<Rightarrow> db \<Rightarrow> http_response res" where
  "get_segment W files rid seq range_header d =
     (case find (\<lambda>s. seg_seq s = seq) (list_segments_by_recording d rid) of
        None \<Rightarrow> Inl NotFound
      | Some s \<Rightarrow>
          let p = resolve_key (blobs W) (seg_storage_key s);
              ext = to_ascii_lowercase (case path_extension p of Some e \<Rightarrow> e | None \<Rightarrow> lit ''m4a'')
          in serve_file_range (open_in files p) (Some (audio_content_type ext)) range_header)"


section \<open>What was uploaded is what is played\<close>

lemma stream_body_Streamed:
  "stream_body w n acc cs = Streamed content \<Longrightarrow> content = acc @ concat (map projr cs) \<and> list_all (\<lambda>c. \<not> isl c) cs"
  by (induction w n acc cs rule: stream_body.induct) (auto split: if_splits)

lemma stream_body_total:
  "list_all (\<lambda>c. \<not> isl c) cs \<Longrightarrow> (\<And>n. w n) \<Longrightarrow> stream_body w n acc cs = Streamed (acc @ concat (map projr cs))"
  by (induction w n acc cs rule: stream_body.induct) auto

lemma path_join_inject:
  "x \<noteq> [] \<Longrightarrow> y \<noteq> [] \<Longrightarrow> hd x \<noteq> ch CHR ''/'' \<Longrightarrow> hd y \<noteq> ch CHR ''/'' \<Longrightarrow> path_join a x = path_join a y \<Longrightarrow> x = y"
  by (auto simp: path_join_def split: if_splits)

lemma tmp_is_not_final: "tmp_path us root rid seq ext \<noteq> segment_path us root rid seq' ext'"
proof
  let ?t = "lit ''.'' @ show_int_06 seq @ lit ''.'' @ ext @ lit ''.partial''"
  let ?f = "show_int_06 seq' @ lit ''.'' @ strip_dots ext'"
  assume e: "tmp_path us root rid seq ext = segment_path us root rid seq' ext'"
  have h: "show_int_06 seq' \<noteq> []" "ch CHR ''.'' \<notin> set (show_int_06 seq')" "hd ?f \<noteq> ch CHR ''/''"
    using show_int_06_hd [of seq'] by simp_all
  have "?t = ?f"
  proof (rule path_join_inject)
    show "path_join (segments_dir us root rid) ?t = path_join (segments_dir us root rid) ?f"
      using e unfolding tmp_path_def segment_path_def .
  qed (use h in simp_all)
  then have "hd ?t = hd ?f" by (rule arg_cong)
  then have "hd (show_int_06 seq') = ch CHR ''.''" using h(1) by simp
  then show False using h(1,2) hd_in_set [of "show_int_06 seq'"] by simp
qed

lemma listed_segment:
  assumes "distinct (map seg_key (segments d))" and "lookup_by seg_key (rid, seq) (segments d) = Some s"
  shows "find (\<lambda>s. seg_seq s = seq) (list_segments_by_recording d rid) = Some s"
proof -
  let ?l = "list_segments_by_recording d rid"
  have s: "s \<in> set (segments d)" "seg_key s = (rid, seq)"
    using find_SomeD [OF assms(2) [unfolded lookup_by_def]] by simp_all
  then have "s \<in> set ?l" "seg_seq s = seq" by (auto simp: list_segments_by_recording_def seg_key_def)
  then have "find (\<lambda>s. seg_seq s = seq) ?l \<noteq> None" by (auto simp: find_None_iff)
  then obtain t where t: "find (\<lambda>s. seg_seq s = seq) ?l = Some t" by blast
  then have "t \<in> set (segments d)" "seg_key t = (rid, seq)"
    using find_SomeD [OF t] by (auto simp: list_segments_by_recording_def seg_key_def)
  then have "t = s" using distinct_map_eqD [OF assms(1)] s by simp
  then show ?thesis using t by simp
qed

lemma find_rec_has: "get_recording d rid = Inr r \<Longrightarrow> has_recording d rid \<and> rec_id r = rid"
  by (auto simp: get_recording_def has_recording_def lookup_by_def split: option.splits dest!: find_SomeD)

lemma enqueue_keeps_segments: "enqueue now rid k p d = Inr (j, d') \<Longrightarrow> segments d' = segments d"
  unfolding enqueue_def by (erule enqueue_cases) simp_all

lemma publish_succeeds:
  assumes "get_recording d rid = Inr r"
  shows "\<exists>s d'. publish_segment W True sha256 new_id now r seq u ext content files d =
      (Inr (200, obj [(''seq'', json_int seq), (''bytes'', json_int (int (length content))),
                      (''storage_key'', JString (segment_key (uuid_str W) rid seq ext))]),
       (files(tmp_path (uuid_str W) (blobs W) rid seq ext := None))
         (segment_path (uuid_str W) (blobs W) rid seq ext := Some content), d') \<and>
    segments d' = upsert seg_key (refresh_segment s) s (segments d) \<and> seg_key s = (rid, seq) \<and>
    seg_storage_key s = segment_key (uuid_str W) rid seq ext"
proof -
  let ?s = "\<lparr>seg_id = new_id, seg_recording_id = rid, seg_seq = seq,
      seg_storage_key = segment_key (uuid_str W) rid seq ext, seg_start_ms = header_i64 (up_start_ms u),
      seg_duration_ms = header_i64 (up_duration_ms u), seg_bytes = Some (int (length content)),
      seg_sha256 = Some (sha256 content), seg_uploaded_at = now, seg_transcribed_at = None\<rparr>"
  let ?d = "d\<lparr>segments := upsert seg_key (refresh_segment ?s) ?s (segments d)\<rparr>"
  let ?e = "case enqueue now rid TranscribeSegment empty_payload ?d of Inl e \<Rightarrow> ?d | Inr (_, d2) \<Rightarrow> d2"
  have "segments ?e = segments ?d" by (auto split: sum.split dest: enqueue_keeps_segments)
  then show ?thesis
    using find_rec_has [OF assms]
    by (intro exI [of _ ?s] exI [of _ "if rec_status r = Uploading then ?e else ?d"])
      (simp add: publish_segment_def insert_segment_def Let_def seg_key_def)
qed

text \<open>
  C23: what was uploaded is what is played. When \<open>PUT /recordings/{id}/segments/{seq}\<close> answers with
  success, the body was received whole, and \<open>GET\<close> on the same segment answers 200 with exactly the
  concatenation of the chunks, whatever row or file was there before.
\<close>

theorem upload_roundtrip:
  assumes "uuid_ok (uuid_str W)" and "distinct (map seg_key (segments d))"
    and "put_segment W dk stores sha256 new_id now rid seq u files d = (Inr v, files', d')"
  shows "list_all (\<lambda>c. \<not> isl c) (up_body u) \<and>
    (\<exists>r. get_segment W files' rid seq None d' = Inr r \<and> status r = 200 \<and> body r = concat (map projr (up_body u)))"
proof -
  let ?ext = "resolve_ext (up_ext u) (up_content_type u)"
  obtain r where r: "get_recording d rid = Inr r"
    using assms(3) by (auto simp: put_segment_def split: sum.splits)
  obtain content where c: "stream_body (dk_write dk) 0 [] (up_body u) = Streamed content"
    and q: "publish_segment W stores sha256 new_id now r seq u ?ext content files d = (Inr v, files', d')"
    using assms(3) r by (auto simp: put_segment_def Let_def split: streamed.splits if_splits)
  have p: "publish_segment W True sha256 new_id now r seq u ?ext content files d = (Inr v, files', d')"
    using q by (cases stores) (simp_all add: publish_segment_def Let_def)
  have body: "content = concat (map projr (up_body u))" "list_all (\<lambda>c. \<not> isl c) (up_body u)"
    using stream_body_Streamed [OF c] by simp_all
  obtain s where s: "segments d' = upsert seg_key (refresh_segment s) s (segments d)" "seg_key s = (rid, seq)"
      "seg_storage_key s = segment_key (uuid_str W) rid seq ?ext"
    and f: "files' (segment_path (uuid_str W) (blobs W) rid seq ?ext) = Some content"
    using publish_succeeds [OF r, of W sha256 new_id now seq u ?ext content files] p by auto
  obtain t where t: "lookup_by seg_key (rid, seq) (segments d') = Some t" "seg_storage_key t = seg_storage_key s"
    using seg_table.lookup_upsert_same [of s "segments d"] s(1,2)
    by (auto simp: refresh_segment_def split: option.splits)
  have "distinct (map seg_key (segments d'))" using seg_table.distinct_upsert [OF assms(2)] s(1) by simp
  from listed_segment [OF this t(1)] show ?thesis
    using t(2) s(3) f body resolve_segment_key [OF assms(1)]
    by (simp add: get_segment_def Let_def open_in_def serve_file_range_def full_body_def)
qed

definition good_disk :: disk where
  "good_disk = \<lparr>dk_create_dir = True, dk_create = True, dk_write = (\<lambda>n. True), dk_flush = True, dk_rename = True\<rparr>"

definition demo_upload :: "(unit + 8 word list) list \<Rightarrow> upload" where
  "demo_upload cs = \<lparr>up_ext = Some (lit ''wav''), up_content_type = None, up_start_ms = None, up_duration_ms = None,
     up_body = cs\<rparr>"

lemma sample_found: "get_recording sample_db 7 = Inr sample_recording"
  by (simp add: get_recording_def lookup_by_def sample_db_def sample_recording_def)

theorem upload_roundtrip_witness:
  "\<exists>v files' d' r. put_segment demo_world good_disk True (\<lambda>c. []) 4 9 7 2 (demo_upload [Inr [1, 2], Inr [3]]) Map.empty sample_db =
       (Inr v, files', d') \<and> get_segment demo_world files' 7 2 None d' = Inr r \<and> body r = [1, 2, 3]"
proof -
  let ?u = "demo_upload [Inr [1, 2], Inr [3]]"
  obtain v f d' where p: "put_segment demo_world good_disk True (\<lambda>c. []) 4 9 7 2 ?u Map.empty sample_db = (Inr v, f, d')"
    using publish_succeeds [OF sample_found, of demo_world "\<lambda>c. []" 4 9 2 ?u "resolve_ext (up_ext ?u) (up_content_type ?u)" "[1, 2, 3]" Map.empty]
    by (auto simp: put_segment_def sample_found good_disk_def Let_def demo_upload_def)
  have "uuid_ok (uuid_str demo_world)" using numeral_uuid_ok by (simp add: demo_world_def)
  moreover have "distinct (map seg_key (segments sample_db))" by (simp add: sample_db_def empty_db_def)
  ultimately have "\<exists>r. get_segment demo_world f 7 2 None d' = Inr r \<and> body r = [1, 2, 3]"
    using upload_roundtrip [OF _ _ p] by (auto simp: demo_upload_def)
  then show ?thesis using p by blast
qed

lemma publish_fails:
  assumes "get_recording d rid = Inr r"
    and "publish_segment W stores sha256 new_id now r seq u ext content files d = (Inl e, files', d')"
  shows "\<not> stores \<and> e = Database \<and> d' = d \<and>
    files' = (files(tmp_path (uuid_str W) (blobs W) rid seq ext := None))
      (segment_path (uuid_str W) (blobs W) rid seq ext := Some content)"
proof (cases stores)
  case True
  then show ?thesis using publish_succeeds [OF assms(1), of W sha256 new_id now seq u ext content files] assms(2) by auto
next
  case False
  then show ?thesis using assms(2) find_rec_has [OF assms(1)] by (auto simp: publish_segment_def Let_def)
qed

text \<open>
  C24: what a failed upload leaves. Whatever went wrong - no such recording, the client's stream
  breaking off, the disk refusing any of the calls, the database the row - the tables are as they were.
  Unless it was the database, so is every file but the upload's own temporary one, and that is never
  the path a segment is served from. The database is asked last: when it refuses, the body had been
  received whole, and it has already replaced the file at the path of its segment, and only that one,
  while the old row, if there is one, still has the size and the checksum of the old file.
\<close>

theorem failed_upload_effects:
  assumes "put_segment W dk stores sha256 new_id now rid seq u files d = (Inl e, files', d')"
    and "ext = resolve_ext (up_ext u) (up_content_type u)"
  shows "d' = d \<and> e \<in> {NotFound, BadRequest, Storage, Database} \<and>
    (if e = Database
     then \<not> stores \<and> list_all (\<lambda>c. \<not> isl c) (up_body u) \<and>
       files' = (files(tmp_path (uuid_str W) (blobs W) rid seq ext := None))
         (segment_path (uuid_str W) (blobs W) rid seq ext := Some (concat (map projr (up_body u))))
     else (\<forall>p. p \<noteq> tmp_path (uuid_str W) (blobs W) rid seq ext \<longrightarrow> files' p = files p) \<and>
       (\<forall>s x. files' (segment_path (uuid_str W) (blobs W) rid s x) = files (segment_path (uuid_str W) (blobs W) rid s x)))"
proof (cases "get_recording d rid")
  case (Inl e)
  then show ?thesis using assms by (auto simp: put_segment_def get_recording_def split: option.splits)
next
  case (Inr r)
  note out = assms(1) [unfolded put_segment_def Inr, simplified Let_def, folded assms(2)]
  show ?thesis
  proof (cases "\<exists>content. stream_body (dk_write dk) 0 [] (up_body u) = Streamed content \<and>
      publish_segment W stores sha256 new_id now r seq u ext content files d = (Inl e, files', d')")
    case True
    then obtain content where c: "stream_body (dk_write dk) 0 [] (up_body u) = Streamed content"
      and p: "publish_segment W stores sha256 new_id now r seq u ext content files d = (Inl e, files', d')" by blast
    show ?thesis using publish_fails [OF Inr p] stream_body_Streamed [OF c] by simp
  next
    case False
    then have d: "d' = d" and e: "e = BadRequest \<or> e = Storage"
      and f: "\<And>p. p \<noteq> tmp_path (uuid_str W) (blobs W) rid seq ext \<Longrightarrow> files' p = files p"
      using out by (auto split: streamed.splits if_splits)
    have "files' (segment_path (uuid_str W) (blobs W) rid s x) = files (segment_path (uuid_str W) (blobs W) rid s x)" for s x
      by (rule f) (rule tmp_is_not_final [symmetric])
    then show ?thesis using d e f by auto
  qed
qed

theorem failed_upload_effects_witness:
  "(\<exists>files'. put_segment demo_world good_disk True (\<lambda>c. []) 4 9 7 2 (demo_upload [Inr [1], Inl ()]) Map.empty sample_db =
       (Inl BadRequest, files', sample_db) \<and>
     files' (segment_path (uuid_str demo_world) (blobs demo_world) 7 2 (lit ''wav'')) = None) \<and>
   (\<exists>files'. put_segment demo_world good_disk False (\<lambda>c. []) 4 9 7 2 (demo_upload [Inr [1], Inr [2]]) Map.empty sample_db =
       (Inl Database, files', sample_db) \<and>
     files' (segment_path (uuid_str demo_world) (blobs demo_world) 7 2
       (resolve_ext (Some (lit ''wav'')) None)) = Some [1, 2])"
proof -
  obtain f where p: "put_segment demo_world good_disk True (\<lambda>c. []) 4 9 7 2 (demo_upload [Inr [1], Inl ()]) Map.empty sample_db =
      (Inl BadRequest, f, sample_db)"
    by (simp add: put_segment_def sample_found good_disk_def Let_def demo_upload_def)
  obtain g where q: "put_segment demo_world good_disk False (\<lambda>c. []) 4 9 7 2 (demo_upload [Inr [1], Inr [2]]) Map.empty sample_db =
      (Inl Database, g, sample_db)"
    by (simp add: put_segment_def publish_segment_def sample_found good_disk_def Let_def demo_upload_def)
  show ?thesis
    using failed_upload_effects [OF p refl] failed_upload_effects [OF q refl] p q by (auto simp: demo_upload_def)
qed

end
