(* ===== verification/Scribe_Auth.thy ===== *)
theory Scribe_Auth
  imports Scribe_Types "HOL-Library.AList"
begin

text \<open>
  Who may call the API: \<open>crates/scribe-api/src/auth.rs\<close> and the \<open>AuthState\<close> of \<open>state.rs\<close>. A request is
  the part of it that the checks read: the two header values (absent when not visible ASCII) and the
  peer address (absent when the server was built without connection info).
\<close>

section \<open>State and request\<close>

record auth_state =
  require_device_token :: bool
  keys :: "(rstr \<times> rstr) list"
  trust_tailscale_identity :: bool
  tailnet_users :: "rstr list"

datatype ip_addr = V4 "8 word" "8 word" "8 word" "8 word" | V6 "128 word"

fun is_loopback :: "ip_addr \<Rightarrow> bool" where
  "is_loopback (V4 a b c d) \<longleftrightarrow> a = 127"
| "is_loopback (V6 w) \<longleftrightarrow> w = 1"

record api_request =
  authorization :: "rstr option"
  tailscale_user_login :: "rstr option"
  peer :: "ip_addr option"

text \<open>\<open>HashMap::insert\<close> of the inverted pairs, in the table's iteration order; the later one stays.\<close>

definition load_device_keys :: "bool \<Rightarrow> rstr res \<Rightarrow> (rstr \<Rightarrow> (rstr \<times> rstr) list option) \<Rightarrow> (rstr \<times> rstr) list res" where
  "load_device_keys present contents parse_toml =
     (if \<not> present then Inr []
      else case contents of
        Inl e \<Rightarrow> Inl Io
      | Inr s \<Rightarrow>
          (case parse_toml s of
             None \<Rightarrow> Inl Config
           | Some table \<Rightarrow> Inr (fold (\<lambda>(device_id, key) ks. AList.update key device_id ks) table [])))"

definition tailnet_user_allowed :: "auth_state \<Rightarrow> rstr \<Rightarrow> bool" where
  "tailnet_user_allowed auth login \<longleftrightarrow>
     tailnet_users auth = [] \<or> list_ex (\<lambda>u. eq_ignore_ascii_case u login) (tailnet_users auth)"

definition is_valid :: "auth_state \<Rightarrow> rstr \<Rightarrow> bool" where
  "is_valid auth token \<longleftrightarrow> map_of (keys auth) token \<noteq> None"

section \<open>The checks\<close>

definition bearer_token :: "api_request \<Rightarrow> rstr option" where
  "bearer_token req =
     (case authorization req of
        None \<Rightarrow> None
      | Some v \<Rightarrow>
          (case split_once 32 v of
             None \<Rightarrow> None
           | Some (scheme, token) \<Rightarrow>
               if eq_ignore_ascii_case scheme (lit ''bearer'')
               then (if trim token = [] then None else Some (trim token))
               else None))"

definition tailnet_login :: "auth_state \<Rightarrow> api_request \<Rightarrow> rstr option" where
  "tailnet_login auth req =
     (if \<not> trust_tailscale_identity auth then None
      else case tailscale_user_login req of
        None \<Rightarrow> None
      | Some v \<Rightarrow>
          let login = trim v in
          if login = [] then None
          else if \<not> is_some_and (peer req) is_loopback then None
          else if \<not> tailnet_user_allowed auth login then None
          else Some login)"

definition require_auth :: "auth_state \<Rightarrow> api_request \<Rightarrow> unit res" where
  "require_auth auth req =
     (if \<not> require_device_token auth then Inr ()
      else case tailnet_login auth req of
        Some login \<Rightarrow> Inr ()
      | None \<Rightarrow>
          (case bearer_token req of
             Some t \<Rightarrow> if is_valid auth t then Inr () else Inl Unauthorized
           | None \<Rightarrow> Inl Unauthorized))"

text \<open>\<open>str::as_bytes\<close>: the UTF-8 encoding.\<close>

definition utf8 :: "codepoint \<Rightarrow> nat list" where
  "utf8 c =
     (if c < 128 then [c]
      else if c < 2048 then [192 + c div 64, 128 + c mod 64]
      else if c < 65536 then [224 + c div 4096, 128 + (c div 64) mod 64, 128 + c mod 64]
      else [240 + c div 262144, 128 + (c div 4096) mod 64, 128 + (c div 64) mod 64, 128 + c mod 64])"

definition as_bytes :: "rstr \<Rightarrow> nat list" where
  "as_bytes s = concat (map utf8 s)"

text \<open>\<open>subtle\<close>'s comparison of equally long byte strings looks at every byte, without an early exit.\<close>

definition ct_eq :: "rstr \<Rightarrow> rstr \<Rightarrow> bool" where
  "ct_eq a b \<longleftrightarrow> length (as_bytes a) = length (as_bytes b) \<and>
     fold (\<lambda>(x, y) ok. ok \<and> x = y) (zip (as_bytes a) (as_bytes b)) True"

record update_config =
  upd_enabled :: bool
  upd_token :: "rstr option"

definition require_update_auth :: "update_config \<Rightarrow> api_request \<Rightarrow> unit res" where
  "require_update_auth upd req =
     (if \<not> upd_enabled upd then Inl NotFound
      else case (case upd_token upd of Some t \<Rightarrow> if t = [] then None else Some t | None \<Rightarrow> None) of
        None \<Rightarrow> Inl Config
      | Some expected \<Rightarrow>
          (case bearer_token req of
             Some t \<Rightarrow> if ct_eq t expected then Inr () else Inl Unauthorized
           | None \<Rightarrow> Inl Unauthorized))"

section \<open>Comparing secrets\<close>

definition scalar :: "codepoint \<Rightarrow> bool" where
  "scalar c \<longleftrightarrow> c < 1114112"

text \<open>The first byte tells the length of a code, so no code is the beginning of another.\<close>

lemma utf8_lead:
  assumes "scalar c"
  shows "hd (utf8 c) < 128 \<longleftrightarrow> c < 128" "hd (utf8 c) < 224 \<longleftrightarrow> c < 2048" "hd (utf8 c) < 240 \<longleftrightarrow> c < 65536"
  using assms by (auto simp: utf8_def scalar_def less_mult_imp_div_less)

lemma digits64_eq: "c div 64 = d div 64 \<Longrightarrow> c mod 64 = d mod 64 \<Longrightarrow> c = (d :: nat)"
  by (metis div_mult_mod_eq)

lemma digits64_eq2: "c div 4096 = d div 4096 \<Longrightarrow> c div 64 mod 64 = d div 64 mod 64 \<Longrightarrow> c div 64 = (d :: nat) div 64"
  using digits64_eq [of "c div 64" "d div 64"] by (simp add: div_mult2_eq [symmetric])

lemma digits64_eq3: "c div 262144 = d div 262144 \<Longrightarrow> c div 4096 mod 64 = d div 4096 mod 64 \<Longrightarrow> c div 4096 = (d :: nat) div 4096"
  using digits64_eq [of "c div 4096" "d div 4096"] by (simp add: div_mult2_eq [symmetric])

lemma utf8_not_Nil [simp]: "utf8 c \<noteq> []" "[] \<noteq> utf8 c"
  by (simp_all add: utf8_def)

lemma utf8_four:
  "\<not> x < 65536 \<Longrightarrow> utf8 x = [240 + x div 262144, 128 + (x div 4096) mod 64, 128 + (x div 64) mod 64, 128 + x mod 64]"
  by (simp add: utf8_def)

lemma utf8_prefix_free:
  assumes "scalar c" "scalar d" "utf8 c @ s = utf8 d @ t"
  shows "c = d \<and> s = t"
proof -
  have "hd (utf8 c) = hd (utf8 d)" using assms(3) utf8_not_Nil(1) by (metis hd_append2)
  then have same: "(c < 128) = (d < 128)" "(c < 2048) = (d < 2048)" "(c < 65536) = (d < 65536)"
    using utf8_lead [OF assms(1)] utf8_lead [OF assms(2)] by simp_all
  consider "c < 128" | "\<not> c < 128" "c < 2048" | "\<not> c < 2048" "c < 65536" | "\<not> c < 65536" by blast
  then show ?thesis
  proof cases
    case 1
    then show ?thesis using assms(3) same by (simp add: utf8_def)
  next
    case 2
    then show ?thesis using assms(3) same digits64_eq [of c d] by (simp add: utf8_def)
  next
    case 3
    then show ?thesis using assms(3) same digits64_eq [of c d] digits64_eq2 [of c d] by (simp add: utf8_def)
  next
    case 4
    have "c div 262144 = d div 262144 \<and> c div 4096 mod 64 = d div 4096 mod 64 \<and> c div 64 mod 64 = d div 64 mod 64 \<and>
        c mod 64 = d mod 64 \<and> s = t"
      using assms(3) 4 same(3) by (simp only: utf8_four append_Cons append_Nil list.inject add_left_cancel not_False_eq_True)
    then have e: "c div 262144 = d div 262144" "c div 4096 mod 64 = d div 4096 mod 64" "c div 64 mod 64 = d div 64 mod 64"
      "c mod 64 = d mod 64" "s = t" by blast+
    from digits64_eq [OF digits64_eq2 [OF digits64_eq3 [OF e(1,2)] e(3)] e(4)] e(5) show ?thesis ..
  qed
qed

lemma as_bytes_inject:
  "list_all scalar a \<Longrightarrow> list_all scalar b \<Longrightarrow> as_bytes a = as_bytes b \<Longrightarrow> a = b"
proof (induction a arbitrary: b)
  case Nil
  then show ?case by (cases b) (simp_all add: as_bytes_def)
next
  case (Cons c a)
  from Cons.prems(3) have "b \<noteq> []" by (auto simp: as_bytes_def)
  then obtain d b' where b: "b = d # b'" by (meson neq_Nil_conv)
  have "utf8 c @ as_bytes a = utf8 d @ as_bytes b'" using Cons.prems(3) b by (simp add: as_bytes_def)
  from utf8_prefix_free [OF _ _ this] show ?case using Cons.IH [of b'] Cons.prems(1,2) b by simp
qed

lemma all_equal_fold: "length xs = length ys \<Longrightarrow> fold (\<lambda>(x, y) ok. ok \<and> x = y) (zip xs ys) ok \<longleftrightarrow> ok \<and> xs = ys"
  by (induction xs ys arbitrary: ok rule: list_induct2) auto

lemma ct_eq_iff: "list_all scalar a \<Longrightarrow> list_all scalar b \<Longrightarrow> ct_eq a b \<longleftrightarrow> a = b"
  using as_bytes_inject all_equal_fold [of "as_bytes a" "as_bytes b" True] by (auto simp: ct_eq_def)

section \<open>Exactly who gets in\<close>

definition presents_token :: "api_request \<Rightarrow> rstr \<Rightarrow> bool" where
  "presents_token req t \<longleftrightarrow> (\<exists>scheme rest. authorization req = Some (scheme @ 32 # rest) \<and>
     to_ascii_lowercase scheme = lit ''bearer'' \<and> trim rest = t \<and> t \<noteq> [])"

lemma lowercase_bearer_no_space: "to_ascii_lowercase s = lit ''bearer'' \<Longrightarrow> 32 \<notin> set s"
proof
  assume s: "to_ascii_lowercase s = lit ''bearer''" and "32 \<in> set s"
  then have "ascii_lower_char 32 \<in> set (to_ascii_lowercase s)" by (auto simp: to_ascii_lowercase_def)
  then show False unfolding s by (simp add: ascii_lower_char_def)
qed

lemma lower_bearer: "to_ascii_lowercase (lit ''bearer'') = lit ''bearer''"
  by (simp add: to_ascii_lowercase_def ascii_lower_char_def)

lemma bearer_token_iff: "bearer_token req = Some t \<longleftrightarrow> presents_token req t"
proof
  assume b: "bearer_token req = Some t"
  then obtain v scheme rest where v: "authorization req = Some v" "split_once 32 v = Some (scheme, rest)"
    "eq_ignore_ascii_case scheme (lit ''bearer'')" "trim rest \<noteq> []" "t = trim rest"
    by (auto simp only: bearer_token_def split: option.splits prod.splits if_splits)
  then have "v = scheme @ 32 # rest" "to_ascii_lowercase scheme = lit ''bearer''"
    by (simp_all only: split_once_Some eq_ignore_ascii_case_def lower_bearer)
  then show "presents_token req t" using v unfolding presents_token_def by blast
next
  assume "presents_token req t"
  then obtain scheme rest where "authorization req = Some (scheme @ 32 # rest)" "to_ascii_lowercase scheme = lit ''bearer''"
    "trim rest = t" "t \<noteq> []" by (auto simp: presents_token_def)
  moreover from lowercase_bearer_no_space [OF this(2)] have "split_once 32 (scheme @ 32 # rest) = Some (scheme, rest)"
    by simp
  ultimately show "bearer_token req = Some t"
    by (simp add: bearer_token_def eq_ignore_ascii_case_def lower_bearer del: lit_Cons)
qed

text \<open>
  C34: a request to a protected route passes exactly when tokens are not required at all, or it carries
  a bearer token that is a configured key, or tailnet identities are trusted, it comes from a loopback
  peer, and names a non-blank login on the allow list (any, if the list is empty). Everything else is
  refused as unauthorized; in particular a tailnet header without a loopback peer never helps.
\<close>

theorem require_auth_iff:
  "require_auth auth req =
     (if \<not> require_device_token auth \<or>
         (\<exists>t. presents_token req t \<and> t \<in> fst ` set (keys auth)) \<or>
         (trust_tailscale_identity auth \<and> (\<exists>v a. tailscale_user_login req = Some v \<and> trim v \<noteq> [] \<and>
            peer req = Some a \<and> is_loopback a \<and>
            (tailnet_users auth = [] \<or> (\<exists>u \<in> set (tailnet_users auth). to_ascii_lowercase u = to_ascii_lowercase (trim v)))))
      then Inr () else Inl Unauthorized)"
proof -
  have t: "(\<exists>t. presents_token req t \<and> t \<in> fst ` set (keys auth)) \<longleftrightarrow> is_some_and (bearer_token req) (is_valid auth)"
    using bearer_token_iff [of req] by (cases "bearer_token req") (auto simp: is_valid_def map_of_eq_None_iff)
  have l: "(trust_tailscale_identity auth \<and> (\<exists>v a. tailscale_user_login req = Some v \<and> trim v \<noteq> [] \<and>
      peer req = Some a \<and> is_loopback a \<and>
      (tailnet_users auth = [] \<or> (\<exists>u \<in> set (tailnet_users auth). to_ascii_lowercase u = to_ascii_lowercase (trim v))))) \<longleftrightarrow>
      tailnet_login auth req \<noteq> None"
    by (cases "peer req")
      (auto simp: tailnet_login_def Let_def tailnet_user_allowed_def list_ex_iff eq_ignore_ascii_case_def split: option.splits)
  show ?thesis unfolding t l by (auto simp: require_auth_def split: option.splits)
qed

theorem require_auth_iff_witness:
  "require_auth \<lparr>require_device_token = True, keys = [], trust_tailscale_identity = True, tailnet_users = []\<rparr>
     \<lparr>authorization = None, tailscale_user_login = Some (lit ''eve''), peer = Some (V4 10 0 0 1)\<rparr> = Inl Unauthorized"
  unfolding require_auth_iff by simp

text \<open>
  Code can be installed exactly by whoever presents the configured update token, character for
  character, while the feature is on; when it is off the endpoint does not exist, and without a
  configured token nobody gets in. The byte-wise comparison decides equality of the texts.
\<close>

theorem require_update_auth_iff:
  assumes "list_all scalar (case authorization req of Some v \<Rightarrow> v | None \<Rightarrow> [])"
    and "list_all scalar (case upd_token upd of Some t \<Rightarrow> t | None \<Rightarrow> [])"
  shows "require_update_auth upd req =
    (if \<not> upd_enabled upd then Inl NotFound
     else case upd_token upd of
       None \<Rightarrow> Inl Config
     | Some expected \<Rightarrow> if expected = [] then Inl Config
         else if presents_token req expected then Inr () else Inl Unauthorized)"
proof (cases "bearer_token req")
  case None
  then have "\<not> presents_token req t" for t using bearer_token_iff [of req t] by simp
  then show ?thesis by (auto simp: require_update_auth_def None split: option.splits)
next
  case (Some t)
  then have p: "presents_token req t" by (simp add: bearer_token_iff)
  have one: "presents_token req x \<longleftrightarrow> x = t" for x using Some bearer_token_iff [of req x] by auto
  have "list_all scalar t"
    using p assms(1) set_trim_matches [of is_ws] unfolding presents_token_def list_all_iff trim_def by fastforce
  then show ?thesis using assms(2) ct_eq_iff [of t]
    by (auto simp: require_update_auth_def Some one split: option.splits)
qed

theorem require_update_auth_iff_witness:
  "require_update_auth \<lparr>upd_enabled = True, upd_token = Some (lit ''s3'')\<rparr>
     \<lparr>authorization = Some (lit ''BEARER  s3''), tailscale_user_login = None, peer = None\<rparr> = Inr ()"
proof -
  let ?r = "\<lparr>authorization = Some (lit ''BEARER  s3''), tailscale_user_login = None, peer = None\<rparr>"
  have "presents_token ?r (lit ''s3'')"
    unfolding bearer_token_iff [symmetric] by code_simp
  then show ?thesis
    using require_update_auth_iff [of ?r "\<lparr>upd_enabled = True, upd_token = Some (lit ''s3'')\<rparr>"]
    by (simp add: scalar_def)
qed

end
