(* ===== verification/Scribe_Update.thy ===== *)
theory Scribe_Update
  imports Scribe_Upload Scribe_Auth
begin

text \<open>
  Self-update, \<open>crates/scribe-update/src\<close>: reading, signing and verifying a package, installing it over the running binary
  with a backup, and rolling back; and the update endpoints of \<open>crates/scribe-api/src/handlers/admin.rs\<close>. Files
  are a map from paths to contents. The crates the code calls (hex, sha2, ed25519-dalek, serde_json, tar
  with flate2) are the record \<open>vendor\<close>; \<open>host\<close> says which of the calls on the host succeed and what the staged binary does.
\<close>

section \<open>Errors\<close>

datatype update_error =
  Disabled | Misconfigured | InvalidPackage | BadSignature | ChecksumMismatch | Downgrade | TargetMismatch
| SanityCheck | Migration | NoBackup | UpdateIo | OtherError

fun into_core :: "update_error \<Rightarrow> error" where
  "into_core Disabled = NotFound"
| "into_core Misconfigured = Config"
| "into_core BadSignature = BadRequest"
| "into_core InvalidPackage = BadRequest"
| "into_core ChecksumMismatch = BadRequest"
| "into_core Downgrade = BadRequest"
| "into_core TargetMismatch = BadRequest"
| "into_core NoBackup = NotFound"
| "into_core SanityCheck = Internal"
| "into_core Migration = Internal"
| "into_core UpdateIo = Internal"
| "into_core OtherError = Internal"

section \<open>Packages\<close>

record manifest =
  mf_name :: rstr
  mf_version :: rstr
  mf_target :: rstr
  mf_sha256 :: rstr
  mf_created_at :: rstr
  mf_notes :: rstr

record package =
  pk_manifest_bytes :: "8 word list"
  pk_manifest :: manifest
  pk_signature_hex :: rstr
  pk_binary :: "8 word list"

datatype tar_entry = BadEntry | BadPath | Unreadable | Entry rstr "8 word list"

record vendor =
  vn_hex_encode :: "8 word list \<Rightarrow> rstr"
  vn_hex_decode :: "rstr \<Rightarrow> 8 word list option"
  vn_sha256 :: "8 word list \<Rightarrow> 8 word list"
  vn_key_ok :: "8 word list \<Rightarrow> bool"
  vn_verify :: "8 word list \<Rightarrow> 8 word list \<Rightarrow> 8 word list \<Rightarrow> bool"   \<comment> \<open>\<open>verify_strict\<close> of key, message and signature\<close>
  vn_public :: "8 word list \<Rightarrow> 8 word list"
  vn_sign :: "8 word list \<Rightarrow> 8 word list \<Rightarrow> 8 word list"
  vn_to_json :: "manifest \<Rightarrow> 8 word list"
  vn_from_json :: "8 word list \<Rightarrow> manifest option"
  vn_pack :: "(rstr \<times> 8 word list) list \<Rightarrow> 8 word list"
  vn_unpack :: "8 word list \<Rightarrow> tar_entry list option"
  vn_utf8_lossy :: "8 word list \<Rightarrow> rstr"
  vn_lowercase :: "rstr \<Rightarrow> rstr"

definition MANIFEST_ENTRY :: rstr where "MANIFEST_ENTRY = lit ''manifest.json''"
definition SIG_ENTRY :: rstr where "SIG_ENTRY = lit ''manifest.sig''"
definition BINARY_ENTRY :: rstr where "BINARY_ENTRY = lit ''scribe''"

definition to_signed_bytes :: "vendor \<Rightarrow> manifest \<Rightarrow> 8 word list" where
  "to_signed_bytes V m = vn_to_json V m @ [10]"

text \<open>The last piece of \<open>rsplit(['/', '\'])\<close>.\<close>

definition base_name :: "rstr \<Rightarrow> rstr" where
  "base_name path = rev (takeWhile (\<lambda>c. c \<noteq> 47 \<and> c \<noteq> 92) (rev path))"

record parts =
  pt_manifest :: "8 word list option"
  pt_signature :: "rstr option"
  pt_binary :: "8 word list option"

definition take_entry :: "vendor \<Rightarrow> rstr \<Rightarrow> 8 word list \<Rightarrow> parts \<Rightarrow> parts" where
  "take_entry V path buf p =
     (let name = base_name path in
      if name = MANIFEST_ENTRY then p\<lparr>pt_manifest := Some buf\<rparr>
      else if name = SIG_ENTRY then p\<lparr>pt_signature := Some (trim (vn_utf8_lossy V buf))\<rparr>
      else if name = BINARY_ENTRY \<or> name = lit ''scribe.exe'' then p\<lparr>pt_binary := Some buf\<rparr>
      else p)"

fun take_entries :: "vendor \<Rightarrow> tar_entry list \<Rightarrow> parts \<Rightarrow> update_error + parts" where
  "take_entries V [] p = Inr p"
| "take_entries V (BadEntry # es) p = Inl InvalidPackage"
| "take_entries V (BadPath # es) p = Inl InvalidPackage"
| "take_entries V (Unreadable # es) p = Inl UpdateIo"
| "take_entries V (Entry path buf # es) p = take_entries V es (take_entry V path buf p)"

definition from_reader :: "vendor \<Rightarrow> 8 word list \<Rightarrow> update_error + package" where
  "from_reader V archive =
     (case vn_unpack V archive of
        None \<Rightarrow> Inl InvalidPackage
      | Some es \<Rightarrow>
          (case take_entries V es \<lparr>pt_manifest = None, pt_signature = None, pt_binary = None\<rparr> of
             Inl e \<Rightarrow> Inl e
           | Inr p \<Rightarrow>
               (case (pt_manifest p, pt_signature p, pt_binary p) of
                  (Some mb, Some sg, Some b) \<Rightarrow>
                    (case vn_from_json V mb of
                       None \<Rightarrow> Inl InvalidPackage
                     | Some m \<Rightarrow> Inr \<lparr>pk_manifest_bytes = mb, pk_manifest = m, pk_signature_hex = sg, pk_binary = b\<rparr>)
                | _ \<Rightarrow> Inl InvalidPackage)))"

definition read_package :: "vendor \<Rightarrow> files \<Rightarrow> rstr \<Rightarrow> update_error + package" where
  "read_package V fs path = (case fs path of None \<Rightarrow> Inl UpdateIo | Some bytes \<Rightarrow> from_reader V bytes)"

text \<open>\<open>Package::write\<close> of three entries; the tar writer is the vendor's.\<close>

definition write_package :: "vendor \<Rightarrow> 8 word list \<Rightarrow> rstr \<Rightarrow> 8 word list \<Rightarrow> 8 word list" where
  "write_package V mb sg binary = vn_pack V [(MANIFEST_ENTRY, mb), (SIG_ENTRY, map of_nat (as_bytes sg)), (BINARY_ENTRY, binary)]"

definition current_target :: "rstr \<Rightarrow> rstr \<Rightarrow> rstr" where
  "current_target arch os =
     (if os = lit ''macos'' then arch @ lit ''-apple-darwin''
      else if os = lit ''linux'' then arch @ lit ''-unknown-linux-gnu''
      else if os = lit ''windows'' then arch @ lit ''-pc-windows-msvc''
      else arch @ lit ''-'' @ os)"

section \<open>Keys and signing\<close>

text \<open>\<open>Keypair::from_private_hex\<close> and \<open>public_hex\<close>; a key pair is its 32 private bytes.\<close>

definition from_private_hex :: "vendor \<Rightarrow> rstr \<Rightarrow> update_error + 8 word list" where
  "from_private_hex V s =
     (case vn_hex_decode V (trim s) of
        None \<Rightarrow> Inl OtherError
      | Some bs \<Rightarrow> if length bs = 32 then Inr bs else Inl OtherError)"

definition public_hex :: "vendor \<Rightarrow> 8 word list \<Rightarrow> rstr" where
  "public_hex V key = vn_hex_encode V (vn_public V key)"

definition sign_package ::
  "vendor \<Rightarrow> 8 word list \<Rightarrow> rstr \<Rightarrow> 8 word list \<Rightarrow> rstr \<Rightarrow> rstr option \<Rightarrow> rstr \<Rightarrow> rstr \<Rightarrow> manifest \<times> 8 word list" where
  "sign_package V key here binary version target notes created_at =
     (let m = \<lparr>mf_name = lit ''scribe'', mf_version = version, mf_target = unwrap_or target here,
               mf_sha256 = vn_hex_encode V (vn_sha256 V binary), mf_created_at = created_at, mf_notes = notes\<rparr>;
          mb = to_signed_bytes V m
      in (m, write_package V mb (vn_hex_encode V (vn_sign V key mb)) binary))"

section \<open>Versions\<close>

fun split_all :: "codepoint \<Rightarrow> rstr \<Rightarrow> rstr list" where
  "split_all d [] = [[]]"
| "split_all d (c # s) =
     (if c = d then [] # split_all d s else (case split_all d s of p # ps \<Rightarrow> (c # p) # ps | [] \<Rightarrow> [[c]]))"

definition parse_version :: "rstr \<Rightarrow> nat \<times> nat \<times> nat" where
  "parse_version v =
     (let core = takeWhile (\<lambda>c. c \<noteq> 45 \<and> c \<noteq> 43) (trim_start_matches (\<lambda>c. c = 118) (trim v));
          ns = map (\<lambda>s. unwrap_or (parse_u64 s) 0) (split_all 46 core);
          part = (\<lambda>i. if i < length ns then ns ! i else 0)
      in (part 0, part 1, part 2))"

text \<open>The derived order of tuples is lexicographic.\<close>

definition version_le :: "rstr \<Rightarrow> rstr \<Rightarrow> bool" where
  "version_le a b =
     (case (parse_version a, parse_version b) of
        ((a1, a2, a3), (b1, b2, b3)) \<Rightarrow> a1 < b1 \<or> a1 = b1 \<and> (a2 < b2 \<or> a2 = b2 \<and> a3 \<le> b3))"

section \<open>Verification\<close>

datatype restart_mode = SelfExec | Supervisor

record update_cfg =
  uc_public_key :: "rstr option"
  uc_restart :: restart_mode
  uc_staging_dir :: rstr
  uc_binary_path :: "rstr option"
  uc_allow_downgrade :: bool
  uc_allow_target_mismatch :: bool
  uc_restart_delay_ms :: nat

definition default_update_cfg :: update_cfg where
  "default_update_cfg = \<lparr>uc_public_key = None, uc_restart = SelfExec, uc_staging_dir = lit ''/var/lib/scribe/updates'',
     uc_binary_path = None, uc_allow_downgrade = False, uc_allow_target_mismatch = False, uc_restart_delay_ms = 750\<rparr>"

definition parse_public_key :: "vendor \<Rightarrow> rstr \<Rightarrow> update_error + 8 word list" where
  "parse_public_key V s =
     (case vn_hex_decode V (trim s) of
        None \<Rightarrow> Inl Misconfigured
      | Some bs \<Rightarrow> if length bs \<noteq> 32 then Inl Misconfigured else if vn_key_ok V bs then Inr bs else Inl Misconfigured)"

definition parse_signature :: "vendor \<Rightarrow> rstr \<Rightarrow> update_error + 8 word list" where
  "parse_signature V s =
     (case vn_hex_decode V (trim s) of
        None \<Rightarrow> Inl InvalidPackage
      | Some bs \<Rightarrow> if length bs = 64 then Inr bs else Inl InvalidPackage)"

text \<open>The host: its target and the version of the running binary, and how its calls end.\<close>

record host =
  ho_target :: rstr
  ho_running :: rstr
  ho_current_exe :: "rstr option"

definition verify_package :: "vendor \<Rightarrow> host \<Rightarrow> update_cfg \<Rightarrow> package \<Rightarrow> update_error + unit" where
  "verify_package V H cfg pkg =
     (case uc_public_key cfg of
        None \<Rightarrow> Inl Misconfigured
      | Some key_hex \<Rightarrow>
          (case parse_public_key V key_hex of
             Inl e \<Rightarrow> Inl e
           | Inr key \<Rightarrow>
               (case parse_signature V (pk_signature_hex pkg) of
                  Inl e \<Rightarrow> Inl e
                | Inr sg \<Rightarrow>
                    if \<not> vn_verify V key (pk_manifest_bytes pkg) sg then Inl BadSignature
                    else let m = pk_manifest pkg in
                      if vn_hex_encode V (vn_sha256 V (pk_binary pkg)) \<noteq> vn_lowercase V (trim (mf_sha256 m)) then Inl ChecksumMismatch
                      else if mf_name m \<noteq> lit ''scribe'' then Inl InvalidPackage
                      else if mf_target m \<noteq> ho_target H \<and> \<not> uc_allow_target_mismatch cfg \<and> mf_target m \<noteq> lit ''any'' then Inl TargetMismatch
                      else if \<not> uc_allow_downgrade cfg \<and> version_le (mf_version m) (ho_running H) then Inl Downgrade
                      else Inr ())))"

section \<open>Installing\<close>

text \<open>Binary paths name a file, so \<open>set_file_name\<close> of the name with a suffix appends to the path.\<close>

definition sibling :: "rstr \<Rightarrow> rstr \<Rightarrow> rstr" where
  "sibling path ext = path @ lit ''.'' @ ext"

definition staged_of :: "rstr \<Rightarrow> rstr" where "staged_of path = sibling path (lit ''new'')"
definition backup_of :: "rstr \<Rightarrow> rstr" where "backup_of path = sibling path (lit ''old'')"
definition pending_of :: "rstr \<Rightarrow> rstr" where "pending_of path = sibling path (lit ''rollback-tmp'')"

definition resolve_binary_path :: "host \<Rightarrow> update_cfg \<Rightarrow> update_error + rstr" where
  "resolve_binary_path H cfg =
     (case uc_binary_path cfg of
        Some p \<Rightarrow> Inr p
      | None \<Rightarrow> (case ho_current_exe H of Some p \<Rightarrow> Inr p | None \<Rightarrow> Inl OtherError))"

record apply_options =
  ao_db_url :: "rstr option"
  ao_sanity :: bool
  ao_migrate :: bool

text \<open>
  How the calls of one installation end: \<open>io_write\<close> is what a failed write left behind, \<open>io_version\<close> and \<open>io_migrated\<close>
  say whether the staged binary could be run and exited with success.
\<close>

record installer =
  io_mkdir :: bool
  io_write :: "8 word list \<Rightarrow> 8 word list option option"   \<comment> \<open>\<open>None\<close>: written; \<open>Some left\<close>: failed, leaving \<open>left\<close>\<close>
  io_chmod :: bool
  io_version :: "8 word list \<Rightarrow> bool"
  io_migrated :: "8 word list \<Rightarrow> rstr \<Rightarrow> bool"
  io_remove_backup :: bool
  io_rename_backup :: bool
  io_rename_install :: bool
  io_rename_restore :: bool
  io_remove_staged :: bool

definition rename :: "rstr \<Rightarrow> rstr \<Rightarrow> files \<Rightarrow> files" where
  "rename a b fs = (fs(b := fs a))(a := None)"

text \<open>The closure: sanity check, migration, and the swap. An error keeps the file system as far as it got.\<close>

definition swap_in :: "installer \<Rightarrow> apply_options \<Rightarrow> rstr \<Rightarrow> 8 word list \<Rightarrow> files \<Rightarrow> (update_error + unit) \<times> files" where
  "swap_in I opts path binary fs =
     (let staged = staged_of path; backup = backup_of path in
      if ao_sanity opts \<and> \<not> io_version I binary then (Inl SanityCheck, fs)
      else if ao_migrate opts \<and> is_some_and (ao_db_url opts) (\<lambda>u. u \<noteq> [] \<and> \<not> io_migrated I binary u) then (Inl Migration, fs)
      else let fs1 = (if fs path \<noteq> None \<and> io_remove_backup I then fs(backup := None) else fs) in
        if fs path \<noteq> None \<and> \<not> io_rename_backup I then (Inl UpdateIo, fs1)
        else let fs2 = (if fs path \<noteq> None then rename path backup fs1 else fs1) in
          if io_rename_install I then (Inr (), rename staged path fs2)
          else (Inl UpdateIo, if fs2 backup \<noteq> None \<and> io_rename_restore I then rename backup path fs2 else fs2))"

record update_outcome =
  ou_from_version :: rstr
  ou_to_version :: rstr
  ou_target :: rstr
  ou_binary_path :: rstr
  ou_backup_path :: rstr

definition apply_package ::
  "vendor \<Rightarrow> host \<Rightarrow> installer \<Rightarrow> update_cfg \<Rightarrow> package \<Rightarrow> apply_options \<Rightarrow> files \<Rightarrow> (update_error + update_outcome) \<times> files" where
  "apply_package V H I cfg pkg opts fs =
     (case verify_package V H cfg pkg of
        Inl e \<Rightarrow> (Inl e, fs)
      | Inr _ \<Rightarrow>
          (case resolve_binary_path H cfg of
             Inl e \<Rightarrow> (Inl e, fs)
           | Inr path \<Rightarrow>
               let staged = staged_of path; backup = backup_of path in
               if \<not> io_mkdir I then (Inl UpdateIo, fs)
               else case io_write I (pk_binary pkg) of
                 Some left \<Rightarrow> (Inl UpdateIo, fs(staged := left))
               | None \<Rightarrow>
                   let fs1 = fs(staged \<mapsto> pk_binary pkg) in
                   if \<not> io_chmod I then (Inl UpdateIo, fs1)
                   else (case swap_in I opts path (pk_binary pkg) fs1 of
                     (Inl e, fs2) \<Rightarrow> (Inl e, if io_remove_staged I then fs2(staged := None) else fs2)
                   | (Inr _, fs2) \<Rightarrow>
                       (Inr \<lparr>ou_from_version = ho_running H, ou_to_version = mf_version (pk_manifest pkg),
                             ou_target = mf_target (pk_manifest pkg), ou_binary_path = path, ou_backup_path = backup\<rparr>, fs2))))"

text \<open>\<open>rollback\<close>; \<open>rb_version\<close> is what the restored binary prints.\<close>

record roller =
  rb_remove_pending :: bool
  rb_rename_away :: bool
  rb_rename_in :: bool
  rb_rename_keep :: bool
  rb_version :: "8 word list \<Rightarrow> rstr option"

definition rollback :: "host \<Rightarrow> roller \<Rightarrow> update_cfg \<Rightarrow> files \<Rightarrow> (update_error + rstr) \<times> files" where
  "rollback H R cfg fs =
     (case resolve_binary_path H cfg of
        Inl e \<Rightarrow> (Inl e, fs)
      | Inr path \<Rightarrow>
          let backup = backup_of path; pending = pending_of path in
          if fs backup = None then (Inl NoBackup, fs)
          else let fs1 = (if rb_remove_pending R then fs(pending := None) else fs) in
            if fs1 path \<noteq> None \<and> \<not> rb_rename_away R then (Inl UpdateIo, fs1)
            else let fs2 = (if fs1 path \<noteq> None then rename path pending fs1 else fs1) in
              if \<not> rb_rename_in R then (Inl UpdateIo, fs2)
              else let fs3 = rename backup path fs2;
                       fs4 = (if fs3 pending \<noteq> None \<and> rb_rename_keep R then rename pending backup fs3 else fs3)
                   in (Inr (case fs4 path of None \<Rightarrow> lit ''unknown''
                            | Some b \<Rightarrow> (case rb_version R b of Some v \<Rightarrow> trim v | None \<Rightarrow> lit ''unknown'')), fs4))"

section \<open>Restart and endpoints\<close>

datatype restart_action = ExitForSupervisor | Exec rstr "rstr list" | NoRestart update_error

definition restart :: "host \<Rightarrow> update_cfg \<Rightarrow> rstr list \<Rightarrow> restart_action" where
  "restart H cfg args =
     (case uc_restart cfg of
        Supervisor \<Rightarrow> ExitForSupervisor
      | SelfExec \<Rightarrow> (case resolve_binary_path H cfg of Inl e \<Rightarrow> NoRestart e | Inr p \<Rightarrow> Exec p (drop 1 args)))"

definition has_backup :: "host \<Rightarrow> update_cfg \<Rightarrow> files \<Rightarrow> bool" where
  "has_backup H cfg fs =
     (case resolve_binary_path H cfg of Inl _ \<Rightarrow> False | Inr p \<Rightarrow> fs (backup_of p) \<noteq> None)"

definition staged_upload :: "update_cfg \<Rightarrow> rstr \<Rightarrow> rstr" where
  "staged_upload cfg id_str = path_join (uc_staging_dir cfg) (lit ''upload-'' @ id_str @ lit ''.tar.gz'')"

text \<open>\<open>POST /admin/update\<close>: the body goes to the staging file, which is removed only after a successful installation; \<open>partial\<close>
  is what a failed write left in it.\<close>

definition update_handler ::
  "vendor \<Rightarrow> host \<Rightarrow> installer \<Rightarrow> disk \<Rightarrow> update_cfg \<Rightarrow> rstr \<Rightarrow> rstr \<Rightarrow> (unit + 8 word list) list \<Rightarrow> 8 word list \<Rightarrow> bool \<Rightarrow> files \<Rightarrow>
     (error + update_outcome) \<times> files" where
  "update_handler V H I dk cfg db_url id_str received partial can_remove fs =
     (let pkg_path = staged_upload cfg id_str in
      if \<not> dk_create_dir dk then (Inl Storage, fs)
      else if \<not> dk_create dk then (Inl Storage, fs)
      else case stream_body (dk_write dk) 0 [] received of
        ReadFailed acc \<Rightarrow> (Inl BadRequest, fs(pkg_path \<mapsto> acc))
      | WriteFailed \<Rightarrow> (Inl Storage, fs(pkg_path \<mapsto> partial))
      | Streamed content \<Rightarrow>
          let fs1 = fs(pkg_path \<mapsto> content) in
          (case read_package V fs1 pkg_path of
             Inl e \<Rightarrow> (Inl (into_core e), fs1)
           | Inr pkg \<Rightarrow>
               (case apply_package V H I cfg pkg \<lparr>ao_db_url = Some db_url, ao_sanity = True, ao_migrate = True\<rparr> fs1 of
                  (Inl e, fs2) \<Rightarrow> (Inl (into_core e), fs2)
                | (Inr out, fs2) \<Rightarrow> (Inr out, if can_remove then fs2(pkg_path := None) else fs2))))"

definition rollback_handler :: "host \<Rightarrow> roller \<Rightarrow> update_cfg \<Rightarrow> files \<Rightarrow> (error + rstr) \<times> files" where
  "rollback_handler H R cfg fs =
     (case rollback H R cfg fs of (Inl e, fs1) \<Rightarrow> (Inl (into_core e), fs1) | (Inr v, fs1) \<Rightarrow> (Inr v, fs1))"

section \<open>Only signed packages are installed, and the binary is never lost\<close>

lemma siblings_differ [simp]:
  "staged_of p \<noteq> p" "backup_of p \<noteq> p" "pending_of p \<noteq> p"
  "p \<noteq> staged_of p" "p \<noteq> backup_of p" "p \<noteq> pending_of p"
  "staged_of p \<noteq> backup_of p" "backup_of p \<noteq> staged_of p"
  "pending_of p \<noteq> backup_of p" "backup_of p \<noteq> pending_of p"
  by (simp_all add: sibling_def staged_of_def backup_of_def pending_of_def)

definition trusted :: "vendor \<Rightarrow> host \<Rightarrow> update_cfg \<Rightarrow> package \<Rightarrow> bool" where
  "trusted V H cfg pkg \<longleftrightarrow>
     (\<exists>key_hex key sg. uc_public_key cfg = Some key_hex \<and> vn_hex_decode V (trim key_hex) = Some key \<and> length key = 32 \<and> vn_key_ok V key \<and>
        vn_hex_decode V (trim (pk_signature_hex pkg)) = Some sg \<and> length sg = 64 \<and> vn_verify V key (pk_manifest_bytes pkg) sg) \<and>
     vn_hex_encode V (vn_sha256 V (pk_binary pkg)) = vn_lowercase V (trim (mf_sha256 (pk_manifest pkg))) \<and>
     mf_name (pk_manifest pkg) = lit ''scribe'' \<and>
     (uc_allow_target_mismatch cfg \<or> mf_target (pk_manifest pkg) \<in> {ho_target H, lit ''any''}) \<and>
     (uc_allow_downgrade cfg \<or> \<not> version_le (mf_version (pk_manifest pkg)) (ho_running H))"

lemma parse_public_key_Inr: "parse_public_key V s = Inr k \<longleftrightarrow> vn_hex_decode V (trim s) = Some k \<and> length k = 32 \<and> vn_key_ok V k"
  by (auto simp: parse_public_key_def split: option.splits)

lemma parse_signature_Inr: "parse_signature V s = Inr k \<longleftrightarrow> vn_hex_decode V (trim s) = Some k \<and> length k = 64"
  by (auto simp: parse_signature_def split: option.splits)

lemma verify_package_iff: "verify_package V H cfg pkg = Inr () \<longleftrightarrow> trusted V H cfg pkg"
proof
  assume "verify_package V H cfg pkg = Inr ()"
  then show "trusted V H cfg pkg" unfolding verify_package_def trusted_def Let_def
    by (auto simp: parse_public_key_Inr parse_signature_Inr split: option.splits sum.splits if_splits)
next
  assume "trusted V H cfg pkg"
  then obtain key_hex key sg where "uc_public_key cfg = Some key_hex" "parse_public_key V key_hex = Inr key"
    "parse_signature V (pk_signature_hex pkg) = Inr sg" "vn_verify V key (pk_manifest_bytes pkg) sg"
    by (auto simp: trusted_def parse_public_key_Inr parse_signature_Inr)
  then show "verify_package V H cfg pkg = Inr ()" using \<open>trusted V H cfg pkg\<close>
    by (auto simp: verify_package_def trusted_def)
qed

lemma swap_in_effect:
  assumes "swap_in I opts path binary fs = (r, fs')" and "fs path = Some old" and "fs (staged_of path) = Some binary"
    and "io_rename_restore I"
  shows "case r of
      Inl e \<Rightarrow> fs' path = Some old
    | Inr _ \<Rightarrow> fs' path = Some binary \<and> fs' (backup_of path) = Some old \<and> fs' (staged_of path) = None"
    "p \<notin> {path, staged_of path, backup_of path} \<Longrightarrow> fs' p = fs p"
  using assms by (auto simp: swap_in_def Let_def rename_def split: if_splits)

text \<open>
  C37: the update path installs only what the operator signed, and never loses the running binary. A package that is installed
  carries a valid signature of the configured key over the exact manifest bytes, its binary has the hash the
  manifest states, and it passed the target and downgrade rules; afterwards the binary is the packaged one and the previous one
  is the backup. When any step fails - verification, staging, the trial run, the migration, either rename - the
  binary is the one that was there, as long as moving the backup back works. Nothing but the binary and its two siblings is touched.
\<close>

theorem update_installs_only_trusted:
  assumes "apply_package V H I cfg pkg opts fs = (r, fs')" and "resolve_binary_path H cfg = Inr path"
    and "fs path = Some old" and "io_rename_restore I"
  shows "(case r of
      Inl e \<Rightarrow> fs' path = Some old
    | Inr out \<Rightarrow> trusted V H cfg pkg \<and> fs' path = Some (pk_binary pkg) \<and> fs' (backup_of path) = Some old \<and>
        fs' (staged_of path) = None \<and> ou_to_version out = mf_version (pk_manifest pkg)) \<and>
    (\<forall>p. p \<notin> {path, staged_of path, backup_of path} \<longrightarrow> fs' p = fs p)"
proof (cases "verify_package V H cfg pkg = Inr () \<and> io_mkdir I \<and> io_write I (pk_binary pkg) = None \<and> io_chmod I")
  case True
  let ?fs1 = "fs(staged_of path \<mapsto> pk_binary pkg)"
  obtain q fs2 where s: "swap_in I opts path (pk_binary pkg) ?fs1 = (q, fs2)" by (cases "swap_in I opts path (pk_binary pkg) ?fs1")
  have "?fs1 path = Some old" "?fs1 (staged_of path) = Some (pk_binary pkg)" using assms(3) by simp_all
  note e = swap_in_effect [OF s this assms(4)]
  have t: "trusted V H cfg pkg" using True verify_package_iff by blast
  show ?thesis
  proof (cases q)
    case (Inl x)
    then show ?thesis using True assms(1,2) s e by (auto simp: apply_package_def Let_def)
  next
    case (Inr x)
    then show ?thesis using True t assms(1,2) s e by (auto simp: apply_package_def Let_def)
  qed
next
  case False
  then have "(\<exists>e. r = Inl e) \<and> (\<forall>p. p \<noteq> staged_of path \<longrightarrow> fs' p = fs p)"
    using assms(1,2) by (auto simp: apply_package_def Let_def split: sum.splits option.splits if_splits)
  then show ?thesis using assms(3) by (auto split: sum.split)
qed

section \<open>Rolling back\<close>

definition roller_ok :: "roller \<Rightarrow> bool" where
  "roller_ok R \<longleftrightarrow> rb_remove_pending R \<and> rb_rename_away R \<and> rb_rename_in R \<and> rb_rename_keep R"

lemma rollback_swaps:
  assumes "roller_ok R" and "resolve_binary_path H cfg = Inr path" and "fs path = Some new" and "fs (backup_of path) = Some old"
  shows "\<exists>v. rollback H R cfg fs =
    (Inr v, fs(path \<mapsto> old, backup_of path \<mapsto> new, pending_of path := None))"
  using assms by (auto simp: rollback_def roller_ok_def rename_def Let_def fun_eq_iff)

text \<open>
  A roll back undoes an update and can itself be undone. After a successful installation over an existing binary, a roll
  back whose renames succeed puts the previous binary back and keeps the new one as the backup; rolling back once
  more installs the new one again.
\<close>

theorem rollback_undoes_update:
  assumes "apply_package V H I cfg pkg opts fs = (Inr out, fs1)" and "resolve_binary_path H cfg = Inr path"
    and "fs path = Some old" and "roller_ok R"
  shows "\<exists>v w fs2 fs3. rollback H R cfg fs1 = (Inr v, fs2) \<and> fs2 path = Some old \<and> fs2 (backup_of path) = Some (pk_binary pkg) \<and>
    rollback H R cfg fs2 = (Inr w, fs3) \<and> fs3 path = Some (pk_binary pkg) \<and> fs3 (backup_of path) = Some old"
proof -
  let ?fs0 = "fs(staged_of path \<mapsto> pk_binary pkg)"
  obtain q where s: "swap_in I opts path (pk_binary pkg) ?fs0 = (Inr q, fs1)"
    using assms(1,2) by (auto simp: apply_package_def Let_def split: sum.splits option.splits if_splits prod.splits)
  have "fs1 path = Some (pk_binary pkg)" "fs1 (backup_of path) = Some old"
    using s assms(3) by (auto simp: swap_in_def Let_def rename_def split: if_splits)
  from rollback_swaps [OF assms(4,2) this] obtain v where
    v: "rollback H R cfg fs1 = (Inr v, fs1(path \<mapsto> old, backup_of path \<mapsto> pk_binary pkg, pending_of path := None))" (is "_ = (_, ?fs2)") by blast
  have "?fs2 path = Some old" "?fs2 (backup_of path) = Some (pk_binary pkg)" by simp_all
  from rollback_swaps [OF assms(4,2) this] obtain w where
    "rollback H R cfg ?fs2 = (Inr w, ?fs2(path \<mapsto> pk_binary pkg, backup_of path \<mapsto> old, pending_of path := None))" by blast
  then show ?thesis using v by fastforce
qed

text \<open>
  A roll back whose second rename fails leaves no binary at its path: the running one has been moved aside and is
  not moved back.
\<close>

lemma rollback_can_lose_binary:
  assumes "resolve_binary_path H cfg = Inr path" and "fs path = Some new" and "fs (backup_of path) = Some old"
    and "rb_rename_away R" and "\<not> rb_rename_in R"
  shows "\<exists>fs'. rollback H R cfg fs = (Inl UpdateIo, fs') \<and> fs' path = None"
  using assms by (auto simp: rollback_def rename_def Let_def)

section \<open>Versions are compared as numbers\<close>

lemma split_all_none: "d \<notin> set s \<Longrightarrow> split_all d s = [s]"
  by (induction s) auto

lemma split_all_append: "d \<notin> set s \<Longrightarrow> split_all d (s @ d # t) = s # split_all d t"
  by (induction s) auto

definition dotted :: "nat \<Rightarrow> nat \<Rightarrow> nat \<Rightarrow> rstr" where
  "dotted a b c = show_nat a @ 46 # show_nat b @ 46 # show_nat c"

lemma digit_chars: "x \<in> set (show_nat n) \<Longrightarrow> 48 \<le> x \<and> x \<le> 57"
  using show_nat_digits [of n] by (auto simp: list_all_iff is_digit_def)

lemma parse_version_dotted:
  assumes "a < 2 ^ 64" and "b < 2 ^ 64" and "c < 2 ^ 64"
  shows "parse_version (dotted a b c) = (a, b, c)"
proof -
  have ch: "46 \<le> x \<and> x \<le> 57" if "x \<in> set (dotted a b c)" for x
    using that digit_chars [of x] by (fastforce simp: dotted_def)
  have no: "46 \<notin> set (show_nat n)" for n using digit_chars [of 46 n] by auto
  have t: "trim (dotted a b c) = dotted a b c" by (rule trim_no_ws) (use ch in \<open>fastforce simp: is_ws_def\<close>)
  have v: "trim_start_matches (\<lambda>x. x = 118) (dotted a b c) = dotted a b c"
    using ch by (fastforce simp: trim_start_matches_def dropWhile_eq_self_iff intro: hd_in_set)
  have w: "takeWhile (\<lambda>x. x \<noteq> 45 \<and> x \<noteq> 43) (dotted a b c) = dotted a b c"
    using ch by (fastforce simp: takeWhile_eq_all_conv)
  have sp: "split_all 46 (dotted a b c) = [show_nat a, show_nat b, show_nat c]"
    using no by (simp add: dotted_def split_all_append split_all_none)
  show ?thesis unfolding parse_version_def Let_def t v w sp using assms
    by (simp add: parse_u64_show_nat unwrap_or_def)
qed

lemma version_le_dotted:
  assumes "a < 2 ^ 64" and "b < 2 ^ 64" and "c < 2 ^ 64" and "x < 2 ^ 64" and "y < 2 ^ 64" and "z < 2 ^ 64"
  shows "version_le (dotted a b c) (dotted x y z) \<longleftrightarrow> a < x \<or> a = x \<and> (b < y \<or> b = y \<and> c \<le> z)"
  using assms by (simp add: version_le_def parse_version_dotted)

section \<open>What is signed can be installed\<close>

text \<open>What the code relies on of the crates it calls.\<close>

definition hex_ok :: "vendor \<Rightarrow> bool" where
  "hex_ok V \<longleftrightarrow> (\<forall>bs. vn_hex_decode V (vn_hex_encode V bs) = Some bs \<and> trim (vn_hex_encode V bs) = vn_hex_encode V bs \<and>
     vn_lowercase V (vn_hex_encode V bs) = vn_hex_encode V bs \<and>
     vn_utf8_lossy V (map of_nat (as_bytes (vn_hex_encode V bs))) = vn_hex_encode V bs)"

definition ed25519_ok :: "vendor \<Rightarrow> bool" where
  "ed25519_ok V \<longleftrightarrow> (\<forall>key msg. length key = 32 \<longrightarrow> length (vn_public V key) = 32 \<and> vn_key_ok V (vn_public V key) \<and>
     length (vn_sign V key msg) = 64 \<and> vn_verify V (vn_public V key) msg (vn_sign V key msg))"

definition json_ok :: "vendor \<Rightarrow> manifest \<Rightarrow> bool" where
  "json_ok V m \<longleftrightarrow> vn_from_json V (vn_to_json V m @ [10]) = Some m"

definition tar_ok :: "vendor \<Rightarrow> (rstr \<times> 8 word list) list \<Rightarrow> bool" where
  "tar_ok V es \<longleftrightarrow> vn_unpack V (vn_pack V es) = Some (map (\<lambda>(p, b). Entry p b) es)"

lemma entry_names: "base_name MANIFEST_ENTRY = MANIFEST_ENTRY" "base_name SIG_ENTRY = SIG_ENTRY" "base_name BINARY_ENTRY = BINARY_ENTRY"
  "SIG_ENTRY \<noteq> MANIFEST_ENTRY" "BINARY_ENTRY \<noteq> MANIFEST_ENTRY" "BINARY_ENTRY \<noteq> SIG_ENTRY"
  by (simp_all add: base_name_def MANIFEST_ENTRY_def SIG_ENTRY_def BINARY_ENTRY_def)

text \<open>
  What \<open>scribe update sign\<close> writes, the server reads back and accepts. The package yields the manifest and
  the binary that were signed, and verification with the public half of the key succeeds when the target fits and the
  version is newer than the running one.
\<close>

theorem signed_package_verifies:
  assumes "hex_ok V" and "ed25519_ok V" and "length key = 32"
    and "sign_package V key here binary version target notes created_at = (m, archive)" and "json_ok V m"
    and "tar_ok V [(MANIFEST_ENTRY, to_signed_bytes V m), (SIG_ENTRY, map of_nat (as_bytes (vn_hex_encode V (vn_sign V key (to_signed_bytes V m))))),
           (BINARY_ENTRY, binary)]"
    and "uc_public_key cfg = Some (public_hex V key)" and "unwrap_or target here \<in> {ho_target H, lit ''any''}"
    and "\<not> version_le version (ho_running H)"
  shows "\<exists>pkg. from_reader V archive = Inr pkg \<and> pk_manifest pkg = m \<and> pk_binary pkg = binary \<and> verify_package V H cfg pkg = Inr ()"
proof -
  let ?sig = "vn_sign V key (to_signed_bytes V m)"
  have hex: "vn_hex_decode V (vn_hex_encode V bs) = Some bs" "trim (vn_hex_encode V bs) = vn_hex_encode V bs"
    "vn_lowercase V (vn_hex_encode V bs) = vn_hex_encode V bs" "vn_utf8_lossy V (map of_nat (as_bytes (vn_hex_encode V bs))) = vn_hex_encode V bs" for bs
    using assms(1) by (auto simp: hex_ok_def)
  have ed: "length (vn_public V key) = 32" "vn_key_ok V (vn_public V key)" "length (vn_sign V key msg) = 64"
    "vn_verify V (vn_public V key) msg (vn_sign V key msg)" for msg using assms(2,3) by (auto simp: ed25519_ok_def)
  have m: "mf_name m = lit ''scribe''" "mf_sha256 m = vn_hex_encode V (vn_sha256 V binary)" "mf_target m = unwrap_or target here" "mf_version m = version"
    and ar: "archive = write_package V (to_signed_bytes V m) (vn_hex_encode V ?sig) binary"
    using assms(4) by (auto simp: sign_package_def Let_def)
  define pkg where "pkg = \<lparr>pk_manifest_bytes = to_signed_bytes V m, pk_manifest = m, pk_signature_hex = vn_hex_encode V ?sig, pk_binary = binary\<rparr>"
  have "from_reader V archive = Inr pkg"
    using assms(5,6) by (simp add: from_reader_def ar write_package_def tar_ok_def json_ok_def take_entry_def Let_def entry_names hex to_signed_bytes_def pkg_def)
  moreover have "trusted V H cfg pkg"
    unfolding trusted_def using assms(7-9) m by (auto simp: pkg_def public_hex_def hex ed)
  ultimately show ?thesis using verify_package_iff by (intro exI [of _ pkg]) (simp add: pkg_def)
qed

section \<open>Examples\<close>

text \<open>A vendor whose texts are pairs of letters, whose signatures are always accepted, and whose archives hold one package.\<close>

fun letters :: "8 word list \<Rightarrow> rstr" where
  "letters [] = []"
| "letters (b # bs) = (97 + unat b div 16) # (97 + unat b mod 16) # letters bs"

fun unletters :: "rstr \<Rightarrow> 8 word list option" where
  "unletters [] = Some []"
| "unletters [_] = None"
| "unletters (x # y # s) = map_option ((#) (of_nat ((x - 97) * 16 + (y - 97)))) (unletters s)"

lemma unletters_letters: "unletters (letters bs) = Some bs"
proof (induction bs)
  case (Cons b bs)
  have "unat b div 16 * 16 + unat b mod 16 = unat b" by (rule div_mult_mod_eq)
  then show ?case using Cons by simp
qed simp

lemma letters_ascii: "c \<in> set (letters bs) \<Longrightarrow> 97 \<le> c \<and> c < 128"
proof (induction bs)
  case (Cons b bs)
  have "unat b < 256" using unsigned_less [of b, where 'a = nat] by simp
  then have "unat b div 16 < 16" by (simp add: div_less_iff_less_mult)
  then show ?case using Cons by (auto simp: less_imp_le)
qed simp

lemma ascii_bytes: "(\<And>c. c \<in> set s \<Longrightarrow> c < 128) \<Longrightarrow> map (\<lambda>n. unat (of_nat n :: 8 word)) (as_bytes s) = s"
proof (induction s)
  case (Cons a s)
  then have "a < 128" "map (\<lambda>n. unat (of_nat n :: 8 word)) (as_bytes s) = s" by auto
  then show ?case by (simp add: as_bytes_def utf8_def unat_of_nat)
qed (simp add: as_bytes_def)

definition demo_manifest :: manifest where
  "demo_manifest = \<lparr>mf_name = lit ''scribe'', mf_version = dotted 0 2 0, mf_target = lit ''any'', mf_sha256 = letters [7],
     mf_created_at = [], mf_notes = []\<rparr>"

definition demo_vendor :: vendor where
  "demo_vendor = \<lparr>vn_hex_encode = letters, vn_hex_decode = unletters, vn_sha256 = (\<lambda>_. [7]), vn_key_ok = (\<lambda>_. True),
     vn_verify = (\<lambda>_ _ _. True), vn_public = (\<lambda>k. k), vn_sign = (\<lambda>_ _. replicate 64 0), vn_to_json = (\<lambda>_. []),
     vn_from_json = (\<lambda>_. Some demo_manifest), vn_pack = (\<lambda>_. []),
     vn_unpack = (\<lambda>_. Some [Entry MANIFEST_ENTRY [10], Entry SIG_ENTRY (map of_nat (as_bytes (letters (replicate 64 0)))), Entry BINARY_ENTRY [1, 2]]),
     vn_utf8_lossy = map unat, vn_lowercase = (\<lambda>s. s)\<rparr>"

definition demo_host :: host where
  "demo_host = \<lparr>ho_target = lit ''x86_64-unknown-linux-gnu'', ho_running = dotted 0 1 9, ho_current_exe = None\<rparr>"

definition demo_cfg :: update_cfg where
  "demo_cfg = default_update_cfg\<lparr>uc_public_key := Some (letters (replicate 32 5)), uc_binary_path := Some (lit ''/opt/scribe'')\<rparr>"

definition demo_package :: package where
  "demo_package = \<lparr>pk_manifest_bytes = [10], pk_manifest = demo_manifest, pk_signature_hex = letters (replicate 64 0), pk_binary = [1, 2]\<rparr>"

definition demo_installer :: installer where
  "demo_installer = \<lparr>io_mkdir = True, io_write = (\<lambda>_. None), io_chmod = True, io_version = (\<lambda>_. True), io_migrated = (\<lambda>_ _. True),
     io_remove_backup = True, io_rename_backup = True, io_rename_install = True, io_rename_restore = True, io_remove_staged = True\<rparr>"

lemma demo_hex: "hex_ok demo_vendor"
proof -
  have "trim (letters bs) = letters bs" for bs
    by (rule trim_no_ws) (use letters_ascii in \<open>fastforce simp: is_ws_def\<close>)
  moreover have "map unat (map (of_nat :: nat \<Rightarrow> 8 word) (as_bytes (letters bs))) = letters bs" for bs
    using ascii_bytes [of "letters bs"] letters_ascii by (fastforce simp: comp_def)
  ultimately show ?thesis by (simp add: hex_ok_def demo_vendor_def unletters_letters)
qed

lemma demo_newer: "\<not> version_le (dotted 0 2 0) (dotted 0 1 9)"
  by (simp add: version_le_dotted)

lemma demo_trusted: "trusted demo_vendor demo_host demo_cfg demo_package"
  using demo_hex demo_newer by (simp add: trusted_def hex_ok_def demo_cfg_def default_update_cfg_def demo_package_def demo_manifest_def
      demo_host_def demo_vendor_def unletters_letters del: letters.simps)

lemma demo_applied:
  "\<exists>out fs'. apply_package demo_vendor demo_host demo_installer demo_cfg demo_package \<lparr>ao_db_url = None, ao_sanity = True, ao_migrate = True\<rparr>
     [lit ''/opt/scribe'' \<mapsto> [9]] = (Inr out, fs')"
  using demo_trusted [folded verify_package_iff]
  by (simp add: apply_package_def resolve_binary_path_def demo_cfg_def Let_def demo_installer_def swap_in_def)

theorem update_installs_only_trusted_witness:
  "\<exists>out fs'. apply_package demo_vendor demo_host demo_installer demo_cfg demo_package \<lparr>ao_db_url = None, ao_sanity = True, ao_migrate = True\<rparr>
     [lit ''/opt/scribe'' \<mapsto> [9]] = (Inr out, fs') \<and> fs' (lit ''/opt/scribe'') = Some [1, 2] \<and> fs' (backup_of (lit ''/opt/scribe'')) = Some [9]"
proof -
  obtain out fs' where a: "apply_package demo_vendor demo_host demo_installer demo_cfg demo_package
      \<lparr>ao_db_url = None, ao_sanity = True, ao_migrate = True\<rparr> [lit ''/opt/scribe'' \<mapsto> [9]] = (Inr out, fs')" using demo_applied by blast
  have "resolve_binary_path demo_host demo_cfg = Inr (lit ''/opt/scribe'')" by (simp add: resolve_binary_path_def demo_cfg_def)
  from update_installs_only_trusted [OF a this] show ?thesis using a by (simp add: demo_installer_def demo_package_def)
qed

theorem rollback_undoes_update_witness:
  "\<exists>v fs1 fs2. rollback demo_host \<lparr>rb_remove_pending = True, rb_rename_away = True, rb_rename_in = True, rb_rename_keep = True, rb_version = (\<lambda>_. None)\<rparr>
     demo_cfg fs1 = (Inr v, fs2) \<and> fs1 (lit ''/opt/scribe'') = Some [1, 2] \<and> fs2 (lit ''/opt/scribe'') = Some [9]"
proof -
  let ?R = "\<lparr>rb_remove_pending = True, rb_rename_away = True, rb_rename_in = True, rb_rename_keep = True, rb_version = (\<lambda>_. None)\<rparr>"
  obtain out fs1 where a: "apply_package demo_vendor demo_host demo_installer demo_cfg demo_package
      \<lparr>ao_db_url = None, ao_sanity = True, ao_migrate = True\<rparr> [lit ''/opt/scribe'' \<mapsto> [9]] = (Inr out, fs1)" using demo_applied by blast
  have p: "resolve_binary_path demo_host demo_cfg = Inr (lit ''/opt/scribe'')" by (simp add: resolve_binary_path_def demo_cfg_def)
  have "roller_ok ?R" by (simp add: roller_ok_def)
  from rollback_undoes_update [OF a p _ this] obtain v w fs2 fs3 where
    r: "rollback demo_host ?R demo_cfg fs1 = (Inr v, fs2)" "fs2 (lit ''/opt/scribe'') = Some [9]"
    "rollback demo_host ?R demo_cfg fs2 = (Inr w, fs3)" "fs3 (lit ''/opt/scribe'') = Some [1, 2]"
    "fs2 (backup_of (lit ''/opt/scribe'')) = Some [1, 2]" by (auto simp: demo_package_def)
  have "fs1 (lit ''/opt/scribe'') = Some [1, 2]"
    using a p demo_trusted [folded verify_package_iff] by (auto simp: apply_package_def Let_def demo_installer_def swap_in_def rename_def demo_package_def)
  then show ?thesis using r(1,2) by blast
qed

theorem signed_package_verifies_witness:
  "\<exists>pkg. from_reader demo_vendor [] = Inr pkg \<and> pk_binary pkg = [1, 2] \<and> verify_package demo_vendor demo_host demo_cfg pkg = Inr ()"
proof -
  have s: "sign_package demo_vendor (replicate 32 5) [] [1, 2] (dotted 0 2 0) (Some (lit ''any'')) [] [] = (demo_manifest, [])"
    by (simp add: sign_package_def Let_def demo_vendor_def demo_manifest_def write_package_def unwrap_or_def)
  have "ed25519_ok demo_vendor" "json_ok demo_vendor demo_manifest"
    "tar_ok demo_vendor [(MANIFEST_ENTRY, to_signed_bytes demo_vendor demo_manifest),
       (SIG_ENTRY, map of_nat (as_bytes (vn_hex_encode demo_vendor (vn_sign demo_vendor (replicate 32 5) (to_signed_bytes demo_vendor demo_manifest))))),
       (BINARY_ENTRY, [1, 2])]"
    by (simp_all add: ed25519_ok_def json_ok_def tar_ok_def demo_vendor_def to_signed_bytes_def)
  from signed_package_verifies [OF demo_hex this(1) _ s this(2,3), of demo_cfg demo_host] show ?thesis
    using demo_newer by (auto simp: demo_cfg_def public_hex_def demo_vendor_def demo_host_def unwrap_or_def)
qed

end
