(* ===== verification/Scribe_Control.thy ===== *)
theory Scribe_Control
  imports Scribe_Gate Scribe_Queue
begin

text \<open>
  The schedule endpoints, \<open>crates/scribe-api/src/handlers/schedule.rs\<close>, on the settings table of
  \<open>Scribe_Gate\<close> and the backlog of \<open>Scribe_Queue\<close>. Every \<open>Utc::now()\<close> of a handler is an argument of
  its own, in the order the code reads the clock; \<open>wake_workers\<close> only sends a notification.
\<close>

section \<open>Requests and replies\<close>

record set_schedule_request =
  sr_enabled :: bool
  sr_days :: "day_window list"
  sr_grace_minutes :: "32 word"

datatype override_action = ActRun | ActPause | ActClear

record override_request =
  or_mode :: override_action
  or_minutes :: "int option"

record schedule_response =
  resp_schedule :: processing_schedule
  resp_decision :: schedule_decision
  resp_next_change_at :: "int option"
  resp_server_time :: int
  resp_backlog :: queue_backlog

definition build_response ::
  "calendar \<Rightarrow> int \<Rightarrow> int \<Rightarrow> processing_schedule \<Rightarrow> queue_backlog \<Rightarrow> schedule_response" where
  "build_response cal now_local now_utc s b =
     (let dec = decide cal s now_local now_utc in
      \<lparr>resp_schedule = s, resp_decision = dec,
       resp_next_change_at = map_option (\<lambda>secs. now_utc + secs * second_ns) (next_change_secs dec),
       resp_server_time = now_local, resp_backlog = b\<rparr>)"

definition validate_days :: "day_window list \<Rightarrow> unit res" where
  "validate_days ds =
     (if length ds \<noteq> 7 then Inl BadRequest
      else if \<exists>d \<in> set ds. dw_start d > MINUTES_PER_DAY \<or> dw_end d > MINUTES_PER_DAY then Inl BadRequest
      else Inr ())"

section \<open>Handlers\<close>

definition get_schedule_handler ::
  "(json \<Rightarrow> processing_schedule option) \<Rightarrow> calendar \<Rightarrow> int \<Rightarrow> int \<Rightarrow> int \<Rightarrow> settings \<Rightarrow> db \<Rightarrow> schedule_response" where
  "get_schedule_handler of_json cal now_local t1 t2 tab d =
     build_response cal now_local t2 (stored_schedule of_json t1 tab) (backlog d)"

definition set_schedule_handler ::
  "(processing_schedule \<Rightarrow> json) \<Rightarrow> (json \<Rightarrow> processing_schedule option) \<Rightarrow> calendar \<Rightarrow> int \<Rightarrow> int \<Rightarrow> int \<Rightarrow> int \<Rightarrow>
     set_schedule_request \<Rightarrow> settings \<Rightarrow> db \<Rightarrow> schedule_response res \<times> settings" where
  "set_schedule_handler to_json of_json cal now_local t1 t2 t3 req tab d =
     (case validate_days (sr_days req) of
        Inl e \<Rightarrow> (Inl e, tab)
      | Inr _ \<Rightarrow>
          if sr_grace_minutes req > 24 * 60 then (Inl BadRequest, tab)
          else
            let existing = stored_schedule of_json t1 tab;
                s = \<lparr>sched_enabled = sr_enabled req, sched_days = sr_days req,
                     sched_grace_minutes = sr_grace_minutes req, active_override = active_override existing\<rparr>
            in case set_processing_schedule to_json t2 s tab of
                 (saved, tab') \<Rightarrow> (Inr (build_response cal now_local t3 saved (backlog d)), tab'))"

definition requested_override :: "int \<Rightarrow> override_request \<Rightarrow> schedule_override option res" where
  "requested_override t req =
     (case or_mode req of
        ActClear \<Rightarrow> Inr None
      | m \<Rightarrow>
          let minutes = (case or_minutes req of Some x \<Rightarrow> x | None \<Rightarrow> 60) in
          if minutes < 1 \<or> minutes > MAX_OVERRIDE_MINUTES then Inl BadRequest
          else Inr (Some \<lparr>ov_mode = (if m = ActRun then Run else Pause), ov_until = t + minutes * minute_ns\<rparr>))"

definition set_override_handler ::
  "(processing_schedule \<Rightarrow> json) \<Rightarrow> (json \<Rightarrow> processing_schedule option) \<Rightarrow> calendar \<Rightarrow> int \<Rightarrow> int \<Rightarrow> int \<Rightarrow> int \<Rightarrow> int \<Rightarrow>
     override_request \<Rightarrow> settings \<Rightarrow> db \<Rightarrow> schedule_response res \<times> settings" where
  "set_override_handler to_json of_json cal now_local t1 t2 t3 t4 req tab d =
     (case requested_override t2 req of
        Inl e \<Rightarrow> (Inl e, tab)
      | Inr ov \<Rightarrow>
          case set_processing_schedule to_json t3 ((stored_schedule of_json t1 tab)\<lparr>active_override := ov\<rparr>) tab of
            (saved, tab') \<Rightarrow> (Inr (build_response cal now_local t4 saved (backlog d)), tab'))"

section \<open>A schedule is saved as it was asked for\<close>

lemma validate_days_iff:
  "validate_days ds = Inr () \<longleftrightarrow> length ds = 7 \<and> (\<forall>d \<in> set ds. dw_start d \<le> MINUTES_PER_DAY \<and> dw_end d \<le> MINUTES_PER_DAY)"
  unfolding validate_days_def by (simp add: Ball_def Bex_def not_less [symmetric])

lemma clamp_valid_day: "dw_start w \<le> MINUTES_PER_DAY \<Longrightarrow> dw_end w \<le> MINUTES_PER_DAY \<Longrightarrow> clamp_day w = w"
  by (simp add: clamp_day_def)

lemma normalize_valid:
  assumes "validate_days (sched_days s) = Inr ()" and "sched_grace_minutes s \<le> 24 * 60"
  shows "normalize t s = s\<lparr>active_override := active_override (normalize t s)\<rparr>"
proof -
  have "length (sched_days s) = 7" and v: "\<forall>d \<in> set (sched_days s). clamp_day d = d"
    using assms(1) clamp_valid_day by (auto simp: validate_days_iff)
  moreover have "map clamp_day (sched_days s) = sched_days s" using v by (simp add: map_idI)
  ultimately show ?thesis using assms(2) by (simp add: normalize_def)
qed

lemma stored_after_save:
  assumes "serde_ok to_json of_json"
  shows "stored_schedule of_json t (snd (set_processing_schedule to_json t0 s tab)) = normalize t (normalize t0 s)"
  using assms by (simp add: set_processing_schedule_def stored_schedule_def Let_def get_put_setting serde_ok_def)

lemma live_override_normalize: "n \<le> t \<Longrightarrow> live_override (normalize n s) t = live_override s t"
  by (auto simp: live_override_def normalize_def split: option.splits)

lemma live_override_cong: "active_override s = active_override s' \<Longrightarrow> live_override s t = live_override s' t"
  by (simp add: live_override_def)

lemma live_override_stored:
  "t1 \<le> t \<Longrightarrow> live_override (stored_schedule of_json t1 tab) t = live_override (stored_schedule of_json t tab) t"
  by (simp add: stored_schedule_def live_override_normalize)

lemma set_schedule_saved:
  assumes "serde_ok to_json of_json" and "t1 \<le> t" "t2 \<le> t"
    and "validate_days (sr_days req) = Inr ()" and "sr_grace_minutes req \<le> 24 * 60"
    and "tab' = snd (set_schedule_handler to_json of_json cal l t1 t2 t3 req tab d)"
  shows "(let s = stored_schedule of_json t tab' in
      sched_enabled s = sr_enabled req \<and> sched_days s = sr_days req \<and> sched_grace_minutes s = sr_grace_minutes req \<and>
      live_override s t = live_override (stored_schedule of_json t tab) t)"
proof -
  let ?s = "\<lparr>sched_enabled = sr_enabled req, sched_days = sr_days req, sched_grace_minutes = sr_grace_minutes req,
     active_override = active_override (stored_schedule of_json t1 tab)\<rparr>"
  have n: "normalize u (?s\<lparr>active_override := ov\<rparr>) =
      ?s\<lparr>active_override := active_override (normalize u (?s\<lparr>active_override := ov\<rparr>))\<rparr>" for u ov
    using normalize_valid [of "?s\<lparr>active_override := ov\<rparr>" u] assms(4,5) by simp
  have st: "stored_schedule of_json t tab' = normalize t (normalize t2 ?s)"
    using assms(4,5,6) stored_after_save [OF assms(1), of t t2 ?s tab]
    by (simp add: set_schedule_handler_def Let_def not_less case_prod_unfold)
  define o1 where "o1 = active_override (normalize t2 ?s)"
  have "normalize t2 ?s = ?s\<lparr>active_override := o1\<rparr>" using n [of t2 "active_override ?s"] by (simp add: o1_def)
  then have "stored_schedule of_json t tab' = ?s\<lparr>active_override := active_override (stored_schedule of_json t tab')\<rparr>"
    using n [of t o1] st by simp
  then have "sched_enabled (stored_schedule of_json t tab') = sr_enabled req"
    "sched_days (stored_schedule of_json t tab') = sr_days req"
    "sched_grace_minutes (stored_schedule of_json t tab') = sr_grace_minutes req"
    by (metis processing_schedule.select_convs processing_schedule.update_convs(4))+
  moreover have "live_override (stored_schedule of_json t tab') t = live_override ?s t"
    using st assms(3) by (simp add: live_override_normalize)
  moreover have "live_override ?s t = live_override (stored_schedule of_json t1 tab) t"
    by (rule live_override_cong) simp
  ultimately show ?thesis using live_override_stored [OF assms(2), of of_json tab] by (simp add: Let_def)
qed

lemma set_schedule_rejected:
  assumes "\<not> (validate_days (sr_days req) = Inr () \<and> sr_grace_minutes req \<le> 24 * 60)"
    and "set_schedule_handler to_json of_json cal l t1 t2 t3 req tab d = (resp, tab')"
  shows "resp = Inl BadRequest \<and> tab' = tab"
proof -
  have "validate_days (sr_days req) = Inl BadRequest \<or> validate_days (sr_days req) = Inr ()"
    by (simp add: validate_days_def)
  then show ?thesis using assms by (auto simp: set_schedule_handler_def not_le)
qed

text \<open>
  \<open>PUT /processing-schedule\<close> saves what was asked for or nothing. A list of seven days inside the
  day with a grace of at most 1440 minutes is read back field by field as it was sent, never
  clamped, and the override in force before the write is in force after it; any other request is
  rejected and the stored setting is untouched.
\<close>

theorem schedule_saved_as_asked:
  assumes "serde_ok to_json of_json" and "t1 \<le> t" "t2 \<le> t"
    and "set_schedule_handler to_json of_json cal l t1 t2 t3 req tab d = (resp, tab')"
  shows "if length (sr_days req) = 7 \<and> (\<forall>w \<in> set (sr_days req). dw_start w \<le> 1440 \<and> dw_end w \<le> 1440) \<and>
        sr_grace_minutes req \<le> 1440
      then \<not> isl resp \<and> (let s = stored_schedule of_json t tab' in
        sched_enabled s = sr_enabled req \<and> sched_days s = sr_days req \<and> sched_grace_minutes s = sr_grace_minutes req \<and>
        live_override s t = live_override (stored_schedule of_json t tab) t)
      else resp = Inl BadRequest \<and> tab' = tab"
proof (cases "validate_days (sr_days req) = Inr () \<and> sr_grace_minutes req \<le> 24 * 60")
  case True
  then have "\<not> isl resp"
    using assms(4) by (auto simp: set_schedule_handler_def Let_def case_prod_unfold split: if_splits)
  then show ?thesis
    using True set_schedule_saved [OF assms(1-3), of req tab' cal l t3 tab d] assms(4)
    by (simp add: validate_days_iff MINUTES_PER_DAY_def)
next
  case False
  then have "\<not> (length (sr_days req) = 7 \<and> (\<forall>w \<in> set (sr_days req). dw_start w \<le> 1440 \<and> dw_end w \<le> 1440) \<and>
        sr_grace_minutes req \<le> 1440)"
    by (simp add: validate_days_iff MINUTES_PER_DAY_def)
  then show ?thesis using set_schedule_rejected [OF False assms(4)] by simp
qed

definition demo_request :: set_schedule_request where
  "demo_request = \<lparr>sr_enabled = True, sr_days = replicate 7 \<lparr>dw_enabled = True, dw_start = 60, dw_end = 1440\<rparr>,
     sr_grace_minutes = 5\<rparr>"

theorem schedule_saved_as_asked_witness:
  "\<exists>to_json of_json. \<exists>s. sched_days s = sr_days demo_request \<and> sched_grace_minutes s = 5 \<and>
     s = stored_schedule of_json 20 (snd (set_schedule_handler to_json of_json monday_calendar 0 3 4 5 demo_request [] empty_db))"
proof -
  obtain enc dec where ok: "serde_ok enc dec" using serde_exists by blast
  have "(3 :: int) \<le> 20" "(4 :: int) \<le> 20" by simp_all
  from schedule_saved_as_asked [OF ok this surjective_pairing, where cal = monday_calendar and l = 0 and ?t3.0 = 5 and
      req = demo_request and tab = "[]" and d = empty_db] show ?thesis
    by (intro exI [of _ enc] exI [of _ dec]) (simp add: demo_request_def Let_def)
qed

section \<open>An override decides until its deadline\<close>

lemma decide_live_override:
  "decide cal s l t = (case live_override s t of
     None \<Rightarrow> decide_windows cal s l
   | Some m \<Rightarrow> \<lparr>allowed = (m = Run), reason = (if m = Run then OverrideRun else OverridePause),
       next_change_secs = Some (max (num_seconds (ov_until (the (active_override s)) - t)) 0)\<rparr>)"
  by (auto simp: decide_def live_override_def split: option.splits override_mode.splits)

lemma set_override_stored:
  assumes "serde_ok to_json of_json" and "t3 \<le> t" and "requested_override t2 req = Inr ov"
    and "tab' = snd (set_override_handler to_json of_json cal l t1 t2 t3 t4 req tab d)"
  shows "live_override (stored_schedule of_json t tab') t =
      (case ov of Some v \<Rightarrow> if t < ov_until v then Some (ov_mode v) else None | None \<Rightarrow> None)"
proof -
  let ?s = "(stored_schedule of_json t1 tab)\<lparr>active_override := ov\<rparr>"
  have "stored_schedule of_json t tab' = normalize t (normalize t3 ?s)"
    using assms(3,4) stored_after_save [OF assms(1), of t t3 ?s tab]
    by (simp add: set_override_handler_def case_prod_unfold)
  then have "live_override (stored_schedule of_json t tab') t = live_override ?s t"
    using assms(2) by (simp add: live_override_normalize)
  then show ?thesis by (simp add: live_override_def split: option.split)
qed

text \<open>
  Run-now and pause-now. An accepted override lasts between a minute and a day from the request;
  until then the gate follows it whatever the windows say, and saving new windows in between does not cancel
  it. From the deadline on, and after a clear, the windows decide.
\<close>

theorem override_decides_until_deadline:
  assumes "serde_ok to_json of_json" and "t3 \<le> t5" "t5 \<le> t6" "t6 \<le> t"
    and "set_override_handler to_json of_json cal l t1 t2 t3 t4 req tab d = (Inr resp, tab')"
    and "set_schedule_handler to_json of_json cal l' t5 t6 t7 req' tab' d' = (resp', tab'')"
    and "minutes = (case or_minutes req of Some x \<Rightarrow> x | None \<Rightarrow> 60)"
    and "s = stored_schedule of_json t tab''"
  shows "if or_mode req = ActClear then decide cal s now_local t = decide_windows cal s now_local
    else 1 \<le> minutes \<and> minutes \<le> 1440 \<and>
      (if t < t2 + minutes * 60000000000 then allowed (decide cal s now_local t) = (or_mode req = ActRun)
       else decide cal s now_local t = decide_windows cal s now_local)"
proof -
  obtain ov where ov: "requested_override t2 req = Inr ov"
    using assms(5) by (auto simp: set_override_handler_def split: sum.splits)
  have "live_override s t = live_override (stored_schedule of_json t tab') t"
  proof (cases "validate_days (sr_days req') = Inr () \<and> sr_grace_minutes req' \<le> 24 * 60")
    case True
    then show ?thesis
      using set_schedule_saved [OF assms(1) _ assms(4), of t5 req' tab'' cal l' t7 tab' d'] assms(3,4,6,8) by (simp add: Let_def)
  next
    case False
    then show ?thesis using set_schedule_rejected [OF False assms(6)] assms(8) by simp
  qed
  then have lo: "live_override s t = (case ov of Some v \<Rightarrow> if t < ov_until v then Some (ov_mode v) else None | None \<Rightarrow> None)"
    using set_override_stored [OF assms(1) _ ov, of t3 t tab' cal l t1 t4 tab d] assms(2-5) by simp
  show ?thesis
    using ov lo assms(7)
    by (cases "or_mode req") (auto simp: requested_override_def Let_def MAX_OVERRIDE_MINUTES_def decide_live_override split: if_splits)
qed

theorem override_decides_until_deadline_witness:
  "\<exists>to_json of_json resp tab'. set_override_handler to_json of_json monday_calendar 0 1 2 3 4
       \<lparr>or_mode = ActPause, or_minutes = None\<rparr> [] empty_db = (Inr resp, tab') \<and>
     \<not> allowed (decide monday_calendar (stored_schedule of_json 9
         (snd (set_schedule_handler to_json of_json monday_calendar 0 5 6 7 demo_request tab' empty_db))) 8 9)"
proof -
  obtain enc dec where ok: "serde_ok enc dec" using serde_exists by blast
  let ?req = "\<lparr>or_mode = ActPause, or_minutes = None\<rparr>"
  obtain resp tab' where o: "set_override_handler enc dec monday_calendar 0 1 2 3 4 ?req [] empty_db = (Inr resp, tab')"
    by (cases "set_override_handler enc dec monday_calendar 0 1 2 3 4 ?req [] empty_db")
      (auto simp: set_override_handler_def requested_override_def MAX_OVERRIDE_MINUTES_def split: prod.splits)
  have "(3 :: int) \<le> 5" "(5 :: int) \<le> 6" "(6 :: int) \<le> 9" by simp_all
  from override_decides_until_deadline [OF ok this o surjective_pairing refl refl, where l' = 0 and ?t7.0 = 7 and req' = demo_request and d' = empty_db and now_local = 8]
  show ?thesis using o by (intro exI [of _ enc] exI [of _ dec]) auto
qed

end
