(* ===== verification/Scribe_Cluster.thy ===== *)
theory Scribe_Cluster
  imports Complex_Main Scribe_Identity "HOL-Library.Multiset"
begin

text \<open>
  Who is in the room: the clustering of \<open>crates/scribe-asr/src/real/diarize.rs\<close>. Every stretch of speech
  has an embedding; the most similar clusters are merged until one is left, a point of that merge
  sequence is chosen, and the partition there is repaired and numbered.

  The arithmetic is a record of operations on a type \<open>'f\<close>: the code runs it at \<open>f32\<close>, and what the
  comments claim of the linkage is proved at the reals. What the environment variables parse to, or
  their defaults, is the record \<open>tuning\<close>. Fragment counts and milliseconds stay far below \<open>2 ^ 63\<close>.
\<close>

section \<open>Arithmetic and settings\<close>

record 'f arith =
  ar_zero :: 'f
  ar_one :: 'f
  ar_two :: 'f
  ar_epsilon :: 'f
  ar_top :: 'f                            \<comment> \<open>\<open>f32::MAX\<close>\<close>
  ar_bottom :: 'f                         \<comment> \<open>\<open>f32::MIN\<close>\<close>
  ar_lt :: "'f \<Rightarrow> 'f \<Rightarrow> bool"
  ar_le :: "'f \<Rightarrow> 'f \<Rightarrow> bool"
  ar_add :: "'f \<Rightarrow> 'f \<Rightarrow> 'f"
  ar_sub :: "'f \<Rightarrow> 'f \<Rightarrow> 'f"
  ar_mul :: "'f \<Rightarrow> 'f \<Rightarrow> 'f"
  ar_div :: "'f \<Rightarrow> 'f \<Rightarrow> 'f"
  ar_max :: "'f \<Rightarrow> 'f \<Rightarrow> 'f"
  ar_min :: "'f \<Rightarrow> 'f \<Rightarrow> 'f"
  ar_sqrt :: "'f \<Rightarrow> 'f"
  ar_pow :: "'f \<Rightarrow> 'f \<Rightarrow> 'f"
  ar_sum :: "'f list \<Rightarrow> 'f"
  ar_of_int :: "int \<Rightarrow> 'f"
  ar_to_nat :: "'f \<Rightarrow> nat"
  ar_share :: "int \<Rightarrow> int \<Rightarrow> bool"        \<comment> \<open>\<open>(ms as f64) / (total as f64) >= MIN_SPEAKER_SHARE\<close>\<close>

datatype linkage = Average | Single | Complete
datatype count_rule = MergesRule | PeopleRule | BothRules

record 'f tuning =
  tn_min_speaker_ms :: int
  tn_relative_drop :: 'f
  tn_people_drop :: 'f
  tn_cohesion_ratio :: 'f
  tn_linkage :: linkage
  tn_count_rule :: count_rule
  tn_refine :: nat

definition MAX_COHESION_STEPS :: nat where "MAX_COHESION_STEPS = 4"
definition MIN_CLUSTERS_TO_JUDGE :: nat where "MIN_CLUSTERS_TO_JUDGE = 3"
definition MAX_INFERRED_SPEAKERS :: nat where "MAX_INFERRED_SPEAKERS = 12"

text \<open>The defaults at \<open>f32\<close>, as bit patterns: 0.8, 0.2 and 0.73.\<close>

definition MIN_SPEAKER_SPEECH_MS_DEFAULT :: int where "MIN_SPEAKER_SPEECH_MS_DEFAULT = 3000"
definition RELATIVE_DROP_DEFAULT :: f32 where "RELATIVE_DROP_DEFAULT = 0x3F4CCCCD"
definition PEOPLE_DROP_DEFAULT :: f32 where "PEOPLE_DROP_DEFAULT = 0x3E4CCCCD"
definition COHESION_RATIO :: f32 where "COHESION_RATIO = 0x3F3AE148"

definition default_tuning :: "f32 tuning" where
  "default_tuning = \<lparr>tn_min_speaker_ms = MIN_SPEAKER_SPEECH_MS_DEFAULT, tn_relative_drop = RELATIVE_DROP_DEFAULT,
     tn_people_drop = PEOPLE_DROP_DEFAULT, tn_cohesion_ratio = COHESION_RATIO, tn_linkage = Average,
     tn_count_rule = BothRules, tn_refine = 1\<rparr>"

record 'f fragment =
  fr_turns :: "turn_artifact list"
  fr_embedding :: "'f list option"
  fr_speech_ms :: int

definition voice_cosine :: "'f arith \<Rightarrow> 'f list \<Rightarrow> 'f list \<Rightarrow> 'f" where
  "voice_cosine A a b =
     (if a = [] \<or> length a \<noteq> length b then ar_zero A
      else let dot = ar_sum A (map (\<lambda>(x, y). ar_mul A x y) (zip a b));
               na = ar_sqrt A (ar_sum A (map (\<lambda>x. ar_mul A x x) a));
               nb = ar_sqrt A (ar_sum A (map (\<lambda>x. ar_mul A x x) b))
           in if ar_le A na (ar_epsilon A) \<or> ar_le A nb (ar_epsilon A) then ar_zero A
              else ar_div A dot (ar_mul A na nb))"

definition voice_median :: "'f arith \<Rightarrow> 'f list \<Rightarrow> 'f option" where
  "voice_median A values =
     (if values = [] then None
      else let sorted = sort_by (\<lambda>a b. ar_lt A b a) values; mid = length sorted div 2
           in Some (if length sorted mod 2 = 0
                    then ar_div A (ar_add A (sorted ! (mid - 1)) (sorted ! mid)) (ar_two A)
                    else sorted ! mid))"

definition l2_normalize :: "'f arith \<Rightarrow> 'f list \<Rightarrow> 'f list" where
  "l2_normalize A v =
     (let norm = ar_sqrt A (ar_sum A (map (\<lambda>x. ar_mul A x x) v))
      in if ar_lt A (ar_epsilon A) norm then map (\<lambda>x. ar_div A x norm) v else v)"

section \<open>The merge sequence\<close>

definition usable :: "'f fragment \<Rightarrow> bool" where
  "usable f \<longleftrightarrow> is_some_and (fr_embedding f) (\<lambda>e. e \<noteq> [])"

definition embedded_of :: "'f fragment list \<Rightarrow> nat list" where
  "embedded_of fs = filter (\<lambda>i. usable (fs ! i)) [0..<length fs]"

definition embedding_at :: "'f fragment list \<Rightarrow> nat \<Rightarrow> 'f list" where
  "embedding_at fs i = (case fr_embedding (fs ! i) of Some e \<Rightarrow> e | None \<Rightarrow> [])"

text \<open>The symmetric matrix, computed for \<open>a < b\<close> and written to both places.\<close>

definition similarity :: "'f arith \<Rightarrow> 'f fragment list \<Rightarrow> nat list \<Rightarrow> nat \<Rightarrow> nat \<Rightarrow> 'f" where
  "similarity A fs emb a b =
     (if a = b then ar_zero A
      else voice_cosine A (embedding_at fs (emb ! min a b)) (embedding_at fs (emb ! max a b)))"

text \<open>
  \<open>mg_history\<close>: clusters before the merge, its similarity, and the pair. \<open>mg_people\<close>: the merges of two
  clusters that each hold a person's speech. \<open>mg_substantial\<close>: how many clusters do, after each merge.
\<close>

record 'f merging =
  mg_alive :: "bool list"
  mg_size :: "'f list"
  mg_speech :: "int list"
  mg_sim :: "nat \<Rightarrow> nat \<Rightarrow> 'f"
  mg_live :: nat
  mg_history :: "(nat \<times> 'f \<times> nat \<times> nat) list"
  mg_people :: "(nat \<times> 'f) list"
  mg_substantial :: "nat list"

definition is_person :: "'f arith \<Rightarrow> 'f tuning \<Rightarrow> int \<Rightarrow> int \<Rightarrow> bool" where
  "is_person A tn all_speech ms \<longleftrightarrow> tn_min_speaker_ms tn \<le> ms \<and> (all_speech \<le> 0 \<or> ar_share A ms all_speech)"

definition count_substantial :: "'f arith \<Rightarrow> 'f tuning \<Rightarrow> int \<Rightarrow> bool list \<Rightarrow> int list \<Rightarrow> nat" where
  "count_substantial A tn all_speech alive speech =
     length (filter (\<lambda>k. alive ! k \<and> is_person A tn all_speech (speech ! k)) [0..<length alive])"

definition start_merging :: "'f arith \<Rightarrow> 'f tuning \<Rightarrow> int \<Rightarrow> (nat \<Rightarrow> nat \<Rightarrow> 'f) \<Rightarrow> int list \<Rightarrow> 'f merging" where
  "start_merging A tn all_speech sim speech =
     (let n = length speech in
      \<lparr>mg_alive = replicate n True, mg_size = replicate n (ar_one A), mg_speech = speech, mg_sim = sim,
       mg_live = n, mg_history = [], mg_people = [],
       mg_substantial = [count_substantial A tn all_speech (replicate n True) speech]\<rparr>)"

text \<open>The pairs of live clusters in the order of the two loops, and the first most similar one.\<close>

definition live_pairs :: "bool list \<Rightarrow> (nat \<times> nat) list" where
  "live_pairs alive =
     concat (map (\<lambda>i. map (Pair i) (filter (\<lambda>j. alive ! j) [i + 1..<length alive]))
       (filter (\<lambda>i. alive ! i) [0..<length alive]))"

fun best_pair ::
  "('f \<Rightarrow> 'f \<Rightarrow> bool) \<Rightarrow> (nat \<Rightarrow> nat \<Rightarrow> 'f) \<Rightarrow> (nat \<times> nat \<times> 'f) option \<Rightarrow> (nat \<times> nat) list \<Rightarrow> (nat \<times> nat \<times> 'f) option" where
  "best_pair lt sim best [] = best"
| "best_pair lt sim best ((i, j) # ps) =
     best_pair lt sim
       (case best of
          None \<Rightarrow> Some (i, j, sim i j)
        | Some (_, _, b) \<Rightarrow> if lt b (sim i j) then Some (i, j, sim i j) else best) ps"

definition linked :: "'f arith \<Rightarrow> linkage \<Rightarrow> 'f \<Rightarrow> 'f \<Rightarrow> 'f \<Rightarrow> 'f \<Rightarrow> 'f" where
  "linked A lk si sj wi wj =
     (case lk of
        Single \<Rightarrow> ar_max A si sj
      | Complete \<Rightarrow> ar_min A si sj
      | Average \<Rightarrow> ar_div A (ar_add A (ar_mul A si wi) (ar_mul A sj wj)) (ar_add A wi wj))"

text \<open>The loop over \<open>k\<close> reads rows \<open>i\<close> and \<open>j\<close> at \<open>k\<close> and writes \<open>(i, k)\<close> and \<open>(k, i)\<close> only.\<close>

definition relink :: "'f arith \<Rightarrow> linkage \<Rightarrow> nat \<Rightarrow> nat \<Rightarrow> 'f merging \<Rightarrow> nat \<Rightarrow> nat \<Rightarrow> 'f" where
  "relink A lk i j st a b =
     (let touched = (\<lambda>k. k < length (mg_alive st) \<and> mg_alive st ! k \<and> k \<noteq> i \<and> k \<noteq> j);
          merged = (\<lambda>k. linked A lk (mg_sim st i k) (mg_sim st j k) (mg_size st ! i) (mg_size st ! j))
      in if a = i \<and> touched b then merged b
         else if b = i \<and> touched a then merged a
         else mg_sim st a b)"

definition merge_step :: "'f arith \<Rightarrow> 'f tuning \<Rightarrow> int \<Rightarrow> nat \<Rightarrow> nat \<Rightarrow> 'f \<Rightarrow> 'f merging \<Rightarrow> 'f merging" where
  "merge_step A tn all_speech i j s st =
     (let alive = (mg_alive st)[j := False];
          speech = (mg_speech st)[i := mg_speech st ! i + mg_speech st ! j]
      in \<lparr>mg_alive = alive,
          mg_size = (mg_size st)[i := ar_add A (mg_size st ! i) (mg_size st ! j)],
          mg_speech = speech,
          mg_sim = relink A (tn_linkage tn) i j st,
          mg_live = mg_live st - 1,
          mg_history = mg_history st @ [(mg_live st, s, i, j)],
          mg_people = (if is_person A tn all_speech (mg_speech st ! i) \<and> is_person A tn all_speech (mg_speech st ! j)
                       then mg_people st @ [(length (mg_history st), s)] else mg_people st),
          mg_substantial = mg_substantial st @ [count_substantial A tn all_speech alive speech]\<rparr>)"

function merge_all :: "'f arith \<Rightarrow> 'f tuning \<Rightarrow> int \<Rightarrow> 'f merging \<Rightarrow> 'f merging" where
  "merge_all A tn all_speech st =
     (if mg_live st > 1
      then (case best_pair (ar_lt A) (mg_sim st) None (live_pairs (mg_alive st)) of
              None \<Rightarrow> st
            | Some (i, j, s) \<Rightarrow> merge_all A tn all_speech (merge_step A tn all_speech i j s st))
      else st)"
  by pat_completeness auto
termination by (relation "measure (\<lambda>(A, tn, t, st). mg_live st)") (auto simp: merge_step_def Let_def)

declare merge_all.simps [simp del]

section \<open>Where to stop\<close>

fun cut_loop :: "'f arith \<Rightarrow> 'f \<Rightarrow> 'f list \<Rightarrow> nat \<Rightarrow> (nat \<times> 'f \<times> nat \<times> nat) list \<Rightarrow> nat" where
  "cut_loop A drop_ratio accepted m [] = m"
| "cut_loop A drop_ratio accepted m ((left, sim, _) # hs) =
     (if left \<le> MAX_INFERRED_SPEAKERS \<and>
         ar_lt A sim (ar_mul A drop_ratio (unwrap_or (voice_median A accepted) (ar_one A)))
      then m
      else cut_loop A drop_ratio (accepted @ [sim]) (m + 1) hs)"

definition choose_cut :: "'f arith \<Rightarrow> 'f tuning \<Rightarrow> (nat \<times> 'f \<times> nat \<times> nat) list \<Rightarrow> nat" where
  "choose_cut A tn history = cut_loop A (tn_relative_drop tn) [] 0 history"

definition choose_people_cut :: "'f arith \<Rightarrow> 'f tuning \<Rightarrow> (nat \<times> 'f) list \<Rightarrow> nat option" where
  "choose_people_cut A tn people =
     (let fall = (\<lambda>a b. ar_sub A (snd (people ! a)) (snd (people ! b))) in
      if length people < 2 then None
      else case find (\<lambda>k. ar_le A (tn_people_drop tn) (fall k (k + 2))) [0..<length people - 2] of
        Some k \<Rightarrow> Some (if ar_le A (fall (k + 1) (k + 2)) (fall k (k + 1)) then fst (people ! (k + 1))
                        else fst (people ! (k + 2)))
      | None \<Rightarrow> if length people = 2 \<and> ar_le A (tn_people_drop tn) (fall 0 1) then Some (fst (people ! 1)) else None)"

definition discovered_cut :: "'f arith \<Rightarrow> 'f tuning \<Rightarrow> 'f merging \<Rightarrow> nat" where
  "discovered_cut A tn st =
     (let merged = choose_cut A tn (mg_history st); people = choose_people_cut A tn (mg_people st) in
      case tn_count_rule tn of
        MergesRule \<Rightarrow> merged
      | PeopleRule \<Rightarrow> unwrap_or people merged
      | BothRules \<Rightarrow> (case people of None \<Rightarrow> merged | Some p \<Rightarrow> min p merged))"

text \<open>A stated count picks the last point of the sequence at which that many people were present.\<close>

definition chosen_cut :: "nat option \<Rightarrow> nat list \<Rightarrow> nat \<Rightarrow> nat" where
  "chosen_cut target substantial discovered =
     (case target of
        None \<Rightarrow> discovered
      | Some t \<Rightarrow> unwrap_or (find (\<lambda>k. substantial ! k = t) (rev [0..<length substantial])) discovered)"

fun replay_loop :: "nat list list \<Rightarrow> bool list \<Rightarrow> (nat \<times> 'f \<times> nat \<times> nat) list \<Rightarrow> nat list list \<times> bool list" where
  "replay_loop members alive [] = (members, alive)"
| "replay_loop members alive ((_, _, i, j) # hs) =
     replay_loop (members[j := [], i := members ! i @ members ! j]) (alive[j := False]) hs"

definition replay :: "nat \<Rightarrow> (nat \<times> 'f \<times> nat \<times> nat) list \<Rightarrow> nat \<Rightarrow> nat list \<Rightarrow> nat list list" where
  "replay n history cutoff emb =
     (case replay_loop (map (\<lambda>e. [e]) emb) (replicate n True) (take cutoff history) of
        (members, alive) \<Rightarrow> map (\<lambda>i. members ! i) (filter (\<lambda>i. alive ! i) [0..<n]))"

definition cluster_worst_pair :: "'f arith \<Rightarrow> 'f fragment list \<Rightarrow> nat list \<Rightarrow> 'f option" where
  "cluster_worst_pair A fs members =
     (let embs = map (embedding_at fs) (filter (\<lambda>f. usable (fs ! f)) members) in
      if length embs < 2 then None
      else Some (fold (\<lambda>(a, b) worst. ar_min A worst (voice_cosine A (embs ! a) (embs ! b)))
                  (concat (map (\<lambda>a. map (Pair a) [a + 1..<length embs]) [0..<length embs])) (ar_top A)))"

text \<open>The step back: undo merges while the loosest cluster is far looser than the median one.\<close>

fun step_back :: "'f arith \<Rightarrow> 'f tuning \<Rightarrow> 'f fragment list \<Rightarrow> nat list \<Rightarrow> (nat \<times> 'f \<times> nat \<times> nat) list \<Rightarrow> nat \<Rightarrow> nat \<Rightarrow> nat" where
  "step_back A tn fs emb history 0 cutoff = cutoff"
| "step_back A tn fs emb history (Suc steps) cutoff =
     (if cutoff = 0 then cutoff
      else let worsts = List.map_filter (cluster_worst_pair A fs) (replay (length emb) history cutoff emb) in
        if length worsts < MIN_CLUSTERS_TO_JUDGE then cutoff
        else case voice_median A worsts of
          None \<Rightarrow> cutoff
        | Some mid \<Rightarrow>
            let loosest = fold (\<lambda>x acc. ar_min A acc x) worsts (ar_top A) in
            if ar_lt A (ar_zero A) mid \<and> ar_lt A (ar_div A loosest mid) (tn_cohesion_ratio tn)
            then step_back A tn fs emb history steps (cutoff - 1)
            else cutoff)"

section \<open>From clusters to speakers\<close>

definition assign_clusters :: "nat list list \<Rightarrow> int list \<Rightarrow> int list" where
  "assign_clusters clusters assignment =
     fold (\<lambda>(idx, members) a. fold (\<lambda>f a. a[f := int idx]) members a) (enumerate 0 clusters) assignment"

text \<open>Integer division truncates towards zero.\<close>

definition quot :: "int \<Rightarrow> int \<Rightarrow> int" where
  "quot a b = sgn a * sgn b * (\<bar>a\<bar> div \<bar>b\<bar>)"

definition mid_ms :: "'f fragment \<Rightarrow> int" where
  "mid_ms f =
     (if fr_turns f = [] then 0
      else quot (sum_list (map (\<lambda>t. quot (t_start_ms t + t_end_ms t) 2) (fr_turns f))) (int (length (fr_turns f))))"

fun first_min :: "('a \<Rightarrow> int) \<Rightarrow> 'a option \<Rightarrow> 'a list \<Rightarrow> 'a option" where
  "first_min key best [] = best"
| "first_min key best (x # xs) =
     first_min key (case best of None \<Rightarrow> Some x | Some b \<Rightarrow> if key x < key b then Some x else best) xs"

definition nearest_assigned :: "'f fragment list \<Rightarrow> int list \<Rightarrow> nat \<Rightarrow> int option" where
  "nearest_assigned fs assignment i =
     map_option (\<lambda>k. assignment ! k)
       (first_min (\<lambda>k. \<bar>mid_ms (fs ! k) - mid_ms (fs ! i)\<bar>) None
          (filter (\<lambda>k. assignment ! k \<ge> 0) [0..<length fs]))"

definition place_unembedded :: "'f fragment list \<Rightarrow> int list \<Rightarrow> int list" where
  "place_unembedded fs assignment =
     fold (\<lambda>i a. if a ! i \<ge> 0 then a else a[i := unwrap_or (nearest_assigned fs a i) 0]) [0..<length fs] assignment"

text \<open>\<open>sort_unstable\<close>, \<open>dedup\<close>, and the position of each index in the result.\<close>

definition renumber :: "int list \<Rightarrow> int list" where
  "renumber assignment =
     (let seen = sort (remdups assignment) in map (\<lambda>a. int (length (takeWhile (\<lambda>x. x \<noteq> a) seen))) assignment)"

definition weight_of :: "'f arith \<Rightarrow> 'f fragment \<Rightarrow> 'f" where
  "weight_of A f = ar_div A (ar_of_int A (max (fr_speech_ms f) 1)) (ar_of_int A 1000)"

definition add_weighted :: "'f arith \<Rightarrow> 'f \<Rightarrow> 'f list \<Rightarrow> 'f list \<Rightarrow> 'f list" where
  "add_weighted A w acc emb = map (\<lambda>(a, b). ar_add A a (ar_mul A b w)) (zip acc emb)"

text \<open>One fragment added to its cluster's sum; a sum of another dimension is started afresh.\<close>

definition add_voice ::
  "'f arith \<Rightarrow> int \<Rightarrow> 'f list \<Rightarrow> 'f \<Rightarrow> (int \<rightharpoonup> 'f list \<times> 'f) \<Rightarrow> (int \<rightharpoonup> 'f list \<times> 'f)" where
  "add_voice A c emb w tot =
     (let zeros = map (\<lambda>_. ar_zero A) emb;
          (acc, t) = unwrap_or (tot c) (zeros, ar_zero A);
          acc = (if length acc \<noteq> length emb then zeros else acc)
      in tot(c \<mapsto> (add_weighted A w acc emb, ar_add A t w)))"

fun sum_voices :: "'f arith \<Rightarrow> int list \<Rightarrow> ('f fragment \<times> int) list \<Rightarrow> (int \<rightharpoonup> 'f list \<times> 'f) \<Rightarrow> (int \<rightharpoonup> 'f list \<times> 'f)" where
  "sum_voices A among [] tot = tot"
| "sum_voices A among ((f, c) # fcs) tot =
     sum_voices A among fcs
       (case fr_embedding f of
          None \<Rightarrow> tot
        | Some emb \<Rightarrow> if c \<in> set among then add_voice A c emb (weight_of A f) tot else tot)"

definition mean_voice :: "'f arith \<Rightarrow> 'f list \<times> 'f \<Rightarrow> 'f list" where
  "mean_voice A v =
     l2_normalize A (if ar_lt A (ar_zero A) (snd v) then map (\<lambda>x. ar_div A x (snd v)) (fst v) else fst v)"

definition speech_of :: "'f fragment list \<Rightarrow> int list \<Rightarrow> int \<Rightarrow> int" where
  "speech_of fs assignment c =
     sum_list (map (\<lambda>(f, a). max (fr_speech_ms f) 0) (filter (\<lambda>(f, a). a = c) (zip fs assignment)))"

text \<open>
  The centroids are visited in the order \<open>hash_order\<close> of a hash map. \<open>ranked_last\<close> says when one
  candidate comes after another: less similar, or (equal or incomparable) with the higher index.
\<close>

definition ranked_last :: "'f arith \<Rightarrow> int \<times> 'f \<Rightarrow> int \<times> 'f \<Rightarrow> bool" where
  "ranked_last A x y \<longleftrightarrow>
     (if ar_lt A (snd x) (snd y) then True else if ar_lt A (snd y) (snd x) then False else fst x > fst y)"

definition closest_voice ::
  "'f arith \<Rightarrow> (int list \<Rightarrow> int list) \<Rightarrow> int list \<Rightarrow> (int \<rightharpoonup> 'f list) \<Rightarrow> 'f fragment \<Rightarrow> int option" where
  "closest_voice A hash_order cs centroids f =
     (case fr_embedding f of
        None \<Rightarrow> None
      | Some emb \<Rightarrow>
          (case sort_by (ranked_last A)
                  (List.map_filter (\<lambda>c. map_option (\<lambda>v. (c, voice_cosine A v emb)) (centroids c)) (hash_order cs)) of
             [] \<Rightarrow> None
           | (c, _) # _ \<Rightarrow> Some c))"

definition fold_slight_speakers ::
  "'f arith \<Rightarrow> 'f tuning \<Rightarrow> (int list \<Rightarrow> int list) \<Rightarrow> 'f fragment list \<Rightarrow> int list \<Rightarrow> int list" where
  "fold_slight_speakers A tn hash_order fs assignment =
     (let cs = remdups assignment;
          all_speech = sum_list (map (speech_of fs assignment) cs);
          surviving = filter (\<lambda>c. is_person A tn all_speech (speech_of fs assignment c)) cs
      in if surviving = [] \<or> length surviving = length cs then assignment
         else let tot = sum_voices A surviving (zip fs assignment) Map.empty;
                  centroids = (\<lambda>c. map_option (mean_voice A) (tot c))
              in renumber (map (\<lambda>(f, a). if a \<in> set surviving then a
                     else unwrap_or (closest_voice A hash_order surviving centroids f) (Min (set surviving)))
                   (zip fs assignment)))"

text \<open>In the refinement a fragment of another dimension is left out of the sum.\<close>

fun refine_sums :: "'f arith \<Rightarrow> ('f fragment \<times> int) list \<Rightarrow> (int \<rightharpoonup> 'f list \<times> 'f) \<Rightarrow> (int \<rightharpoonup> 'f list \<times> 'f)" where
  "refine_sums A [] tot = tot"
| "refine_sums A ((f, c) # fcs) tot =
     refine_sums A fcs
       (case fr_embedding f of
          None \<Rightarrow> tot
        | Some emb \<Rightarrow>
            if emb = [] then tot
            else let (acc, t) = unwrap_or (tot c) (map (\<lambda>_. ar_zero A) emb, ar_zero A) in
              if length acc \<noteq> length emb then tot
              else tot(c \<mapsto> (add_weighted A (weight_of A f) acc emb, ar_add A t (weight_of A f))))"

definition best_voice :: "'f arith \<Rightarrow> (int \<times> 'f list) list \<Rightarrow> 'f fragment \<times> int \<Rightarrow> int" where
  "best_voice A voices fc =
     (case fr_embedding (fst fc) of
        None \<Rightarrow> snd fc
      | Some emb \<Rightarrow>
          if emb = [] then snd fc
          else fst (fold (\<lambda>(c, voice) best.
                 if length voice \<noteq> length emb then best
                 else if ar_lt A (snd best) (voice_cosine A voice emb) then (c, voice_cosine A voice emb) else best)
               voices (snd fc, ar_bottom A)))"

text \<open>The sums live as long as their clusters; fewer than two voices end the function at once.\<close>

fun refine_assignment :: "'f arith \<Rightarrow> 'f fragment list \<Rightarrow> nat \<Rightarrow> int list \<Rightarrow> int list" where
  "refine_assignment A fs 0 assignment = renumber assignment"
| "refine_assignment A fs (Suc passes) assignment =
     (let tot = refine_sums A (zip fs assignment) Map.empty;
          cs = filter (\<lambda>c. tot c \<noteq> None) (sort (remdups assignment)) in
      if length cs < 2 then assignment
      else let voices = map (\<lambda>c. (c, l2_normalize A (fst (the (tot c))))) cs;
               moved = map (best_voice A voices) (zip fs assignment)
           in if moved = assignment then renumber moved else refine_assignment A fs passes moved)"

definition stated_target :: "int option \<Rightarrow> nat \<Rightarrow> nat option" where
  "stated_target expected n =
     (case expected of None \<Rightarrow> None | Some v \<Rightarrow> if v \<ge> 1 then Some (min (nat v) n) else None)"

definition merge_run_of :: "'f arith \<Rightarrow> 'f tuning \<Rightarrow> 'f fragment list \<Rightarrow> 'f merging" where
  "merge_run_of A tn fs =
     (let emb = embedded_of fs; speech = map (\<lambda>i. max (fr_speech_ms (fs ! i)) 0) emb; all_speech = sum_list speech
      in merge_all A tn all_speech (start_merging A tn all_speech (similarity A fs emb) speech))"

definition final_cut :: "'f arith \<Rightarrow> 'f tuning \<Rightarrow> 'f fragment list \<Rightarrow> int option \<Rightarrow> nat" where
  "final_cut A tn fs expected =
     (let emb = embedded_of fs; st = merge_run_of A tn fs; target = stated_target expected (length emb);
          cutoff = chosen_cut target (mg_substantial st) (discovered_cut A tn st)
      in if target = None then step_back A tn fs emb (mg_history st) MAX_COHESION_STEPS cutoff else cutoff)"

definition cluster_fragments ::
  "'f arith \<Rightarrow> 'f tuning \<Rightarrow> (int list \<Rightarrow> int list) \<Rightarrow> 'f fragment list \<Rightarrow> int option \<Rightarrow> int list" where
  "cluster_fragments A tn hash_order fs expected =
     (let emb = embedded_of fs in
      if emb = [] then replicate (length fs) 0
      else let clusters = replay (length emb) (mg_history (merge_run_of A tn fs)) (final_cut A tn fs expected) emb;
               placed = place_unembedded fs (assign_clusters clusters (replicate (length fs) (- 1)))
           in refine_assignment A fs (tn_refine tn) (fold_slight_speakers A tn hash_order fs placed))"

section \<open>The merge sequence partitions the fragments\<close>

text \<open>Merges that can be replayed: both clusters exist when they are joined.\<close>

fun valid_merges :: "bool list \<Rightarrow> (nat \<times> 'f \<times> nat \<times> nat) list \<Rightarrow> bool" where
  "valid_merges alive [] \<longleftrightarrow> True"
| "valid_merges alive ((_, _, i, j) # hs) \<longleftrightarrow>
     i < j \<and> j < length alive \<and> alive ! i \<and> alive ! j \<and> valid_merges (alive[j := False]) hs"

definition survivors :: "nat list list \<times> bool list \<Rightarrow> nat list list" where
  "survivors p = map (\<lambda>i. fst p ! i) (filter (\<lambda>i. snd p ! i) [0..<length (snd p)])"

text \<open>What every replay keeps: the live clusters are non-empty and hold each member once.\<close>

definition tidy :: "nat list \<Rightarrow> nat list list \<times> bool list \<Rightarrow> bool" where
  "tidy emb p \<longleftrightarrow> length (fst p) = length (snd p) \<and> mset (concat (fst p)) = mset emb \<and>
     (\<forall>i < length (snd p). fst p ! i = [] \<longleftrightarrow> \<not> snd p ! i)"

lemma mset_concat_sum: "mset (concat ms) = (\<Sum>k<length ms. mset (ms ! k))"
  by (simp add: mset_concat sum_list_sum_nth atLeast0LessThan)

lemma sum_two:
  fixes f :: "nat \<Rightarrow> 'a :: comm_monoid_add"
  assumes "i < n" "j < n" "i \<noteq> j"
  shows "(\<Sum>k<n. f k) = f i + f j + (\<Sum>k \<in> {..<n} - {i, j}. f k)"
proof -
  have "{..<n} = insert i (insert j ({..<n} - {i, j}))" using assms by auto
  then have "(\<Sum>k<n. f k) = (\<Sum>k \<in> insert i (insert j ({..<n} - {i, j})). f k)" by simp
  also have "\<dots> = f i + f j + (\<Sum>k \<in> {..<n} - {i, j}. f k)" using assms(3) by (simp add: add.assoc)
  finally show ?thesis .
qed

text \<open>Joining cluster \<open>j\<close> to cluster \<open>i\<close> moves an additive measure from one to the other.\<close>

lemma sum_merge:
  fixes f g :: "nat \<Rightarrow> 'a :: comm_monoid_add"
  assumes "i < n" "j < n" "i \<noteq> j" and "g i = f i + f j" and "g j = 0" and "\<And>k. k < n \<Longrightarrow> k \<noteq> i \<Longrightarrow> k \<noteq> j \<Longrightarrow> g k = f k"
  shows "(\<Sum>k<n. g k) = (\<Sum>k<n. f k)"
proof -
  have "(\<Sum>k \<in> {..<n} - {i, j}. g k) = (\<Sum>k \<in> {..<n} - {i, j}. f k)" by (rule sum.cong) (auto simp: assms(6))
  then show ?thesis unfolding sum_two [OF assms(1-3)] using assms(4,5) by (simp add: add.assoc)
qed

lemma mset_concat_merge:
  assumes "i < length ms" "j < length ms" "i \<noteq> j"
  shows "mset (concat (ms[j := [], i := ms ! i @ ms ! j])) = mset (concat ms)"
  unfolding mset_concat_sum length_list_update
  by (rule sum_merge [OF assms]) (use assms in \<open>simp_all add: nth_list_update\<close>)

lemma tidy_merge:
  assumes "tidy emb (ms, al)" "i < j" "j < length al" "al ! i" "al ! j"
  shows "tidy emb (ms[j := [], i := ms ! i @ ms ! j], al[j := False])"
proof -
  have "length ms = length al" "ms ! i \<noteq> []" using assms by (auto simp: tidy_def)
  then show ?thesis
    using assms mset_concat_merge [of i ms j] by (auto simp: tidy_def nth_list_update)
qed

lemma tidy_replay:
  "tidy emb (ms, al) \<Longrightarrow> valid_merges al hs \<Longrightarrow> tidy emb (replay_loop ms al hs)"
proof (induction ms al hs rule: replay_loop.induct)
  case (2 ms al c s i j hs)
  then show ?case using tidy_merge [of emb ms al i j] by simp
qed simp

lemma tidy_start: "tidy emb (map (\<lambda>e. [e]) emb, replicate (length emb) True)"
  by (simp add: tidy_def)

lemma tidy_survivors:
  assumes "tidy emb p"
  shows "mset (concat (survivors p)) = mset emb" "[] \<notin> set (survivors p)"
proof -
  let ?n = "length (snd p)"
  have l: "length (fst p) = ?n" and e: "\<And>i. i < ?n \<Longrightarrow> fst p ! i = [] \<longleftrightarrow> \<not> snd p ! i"
    using assms by (auto simp: tidy_def)
  have "mset (concat (survivors p)) = (\<Sum>i \<leftarrow> filter (\<lambda>i. snd p ! i) [0..<?n]. mset (fst p ! i))"
    by (simp add: survivors_def mset_concat comp_def)
  also have "\<dots> = (\<Sum>i \<in> {i. i < ?n \<and> snd p ! i}. mset (fst p ! i))"
    by (simp add: sum_list_distinct_conv_sum_set conj_commute)
  also have "\<dots> = (\<Sum>i < ?n. mset (fst p ! i))"
    by (rule sum.mono_neutral_left) (auto simp: e)
  also have "\<dots> = mset (concat (fst p))" using l by (simp add: mset_concat_sum)
  finally show "mset (concat (survivors p)) = mset emb" using assms by (simp add: tidy_def)
  show "[] \<notin> set (survivors p)"
  proof
    assume "[] \<in> set (survivors p)"
    then obtain i where "i < ?n" "snd p ! i" "fst p ! i = []" by (auto simp: survivors_def)
    then show False using e by simp
  qed
qed

lemma alive_replay:
  "valid_merges al hs \<Longrightarrow>
     length (snd (replay_loop ms al hs)) = length al \<and>
     length (filter (\<lambda>i. snd (replay_loop ms al hs) ! i) [0..<length al]) + length hs = length (filter (\<lambda>i. al ! i) [0..<length al])"
proof (induction ms al hs rule: replay_loop.induct)
  case (2 ms al c s i j hs)
  have j: "j < length al" "al ! j" using 2 by simp_all
  have c: "length (filter (\<lambda>k. al[j := False] ! k) [0..<length al]) + 1 = length (filter (\<lambda>k. al ! k) [0..<length al])"
  proof -
    have f: "length (filter P [0..<n]) = card {k. k < n \<and> P k}" for P n
      by (simp add: distinct_length_filter Int_def conj_commute)
    have "{k. k < length al \<and> al ! k} = insert j {k. k < length al \<and> al[j := False] ! k}"
      using j by (auto simp: nth_list_update)
    moreover have "j \<notin> {k. k < length al \<and> al[j := False] ! k}" using j by simp
    ultimately show ?thesis unfolding f by simp
  qed
  have "valid_merges (al[j := False]) hs" using 2(2) by simp
  from 2(1) [OF this] show ?case using c by simp
qed simp

lemma length_survivors: "length (survivors p) = length (filter (\<lambda>i. snd p ! i) [0..<length (snd p)])"
  by (simp add: survivors_def)

lemma replay_survivors:
  "valid_merges (replicate n True) (take k hs) \<Longrightarrow>
     replay n hs k emb = survivors (replay_loop (map (\<lambda>e. [e]) emb) (replicate n True) (take k hs))"
  using alive_replay [of "replicate n True" "take k hs" "map (\<lambda>e. [e]) emb"]
  by (simp add: replay_def survivors_def case_prod_unfold)

lemma replay_loop_snoc:
  "replay_loop ms al (hs @ [(c, s, i, j)]) =
     (case replay_loop ms al hs of (ms', al') \<Rightarrow> (ms'[j := [], i := ms' ! i @ ms' ! j], al'[j := False]))"
  by (induction ms al hs rule: replay_loop.induct) simp_all

lemma valid_merges_snoc:
  "valid_merges al (hs @ [(c, s, i, j)]) \<longleftrightarrow>
     valid_merges al hs \<and> (let al' = snd (replay_loop ms al hs) in i < j \<and> j < length al' \<and> al' ! i \<and> al' ! j)"
  by (induction ms al hs rule: replay_loop.induct) (auto simp: Let_def)

lemma valid_merges_take: "valid_merges al hs \<Longrightarrow> valid_merges al (take k hs)"
proof (induction hs arbitrary: al k)
  case (Cons h hs)
  then show ?case by (cases h; cases k) auto
qed simp

lemma mem_live_pairs: "(i, j) \<in> set (live_pairs al) \<longleftrightarrow> i < j \<and> j < length al \<and> al ! i \<and> al ! j"
proof -
  have "(i, j) \<in> set (live_pairs al) \<longleftrightarrow> (\<exists>x < length al. al ! x \<and> i = x \<and> Suc x \<le> j \<and> j < length al \<and> al ! j)"
    by (simp add: live_pairs_def image_iff)
  then show ?thesis by auto
qed

lemma best_pair_Some:
  "best_pair lt sim best ps = Some (i, j, s) \<Longrightarrow> best = Some (i, j, s) \<or> (i, j) \<in> set ps \<and> s = sim i j"
  by (induction lt sim best ps rule: best_pair.induct) (auto split: option.splits if_splits prod.splits)

lemma best_pair_None: "best_pair lt sim best ps = None \<longleftrightarrow> best = None \<and> ps = []"
  by (induction lt sim best ps rule: best_pair.induct) (auto split: option.splits)

lemma two_live_pair:
  assumes "length (filter (\<lambda>i. al ! i) [0..<length al]) > 1"
  shows "live_pairs al \<noteq> []"
proof -
  let ?S = "{i. i < length al \<and> al ! i}"
  have "card ?S > 1" using assms by (simp add: distinct_length_filter Int_def conj_commute)
  then have "\<not> (\<forall>i \<in> ?S. \<forall>j \<in> ?S. i = j)" using card_le_Suc0_iff_eq [of ?S] by simp
  then obtain i j where "i \<in> ?S" "j \<in> ?S" "i < j" by (metis nat_neq_iff)
  then have "(i, j) \<in> set (live_pairs al)" by (simp add: mem_live_pairs)
  then show ?thesis by auto
qed

text \<open>The clusters that hold a person's worth of speech; \<open>w\<close> is the speech of a fragment.\<close>

definition people_in :: "'f arith \<Rightarrow> 'f tuning \<Rightarrow> int \<Rightarrow> (nat \<Rightarrow> int) \<Rightarrow> nat list list \<Rightarrow> nat" where
  "people_in A tn all_speech w clusters = length (filter (\<lambda>m. is_person A tn all_speech (sum_list (map w m))) clusters)"

definition merge_inv :: "'f arith \<Rightarrow> 'f tuning \<Rightarrow> int \<Rightarrow> (nat \<Rightarrow> int) \<Rightarrow> nat list \<Rightarrow> 'f merging \<Rightarrow> bool" where
  "merge_inv A tn all_speech w emb st \<longleftrightarrow>
     (let n = length emb; p = replay_loop (map (\<lambda>e. [e]) emb) (replicate n True) (mg_history st) in
      valid_merges (replicate n True) (mg_history st) \<and> mg_alive st = snd p \<and>
      length (mg_size st) = n \<and> length (mg_speech st) = n \<and> mg_live st + length (mg_history st) = n \<and>
      (\<forall>k < n. snd p ! k \<longrightarrow> mg_speech st ! k = sum_list (map w (fst p ! k))) \<and>
      length (mg_substantial st) = length (mg_history st) + 1 \<and>
      (\<forall>k \<le> length (mg_history st). mg_substantial st ! k = people_in A tn all_speech w (replay n (mg_history st) k emb)))"

lemma count_substantial_people:
  assumes "length al = n" and "\<And>k. k < n \<Longrightarrow> al ! k \<Longrightarrow> speech ! k = sum_list (map w (ms ! k))"
  shows "count_substantial A tn t al speech = people_in A tn t w (survivors (ms, al))"
proof -
  have "filter (\<lambda>k. al ! k \<and> is_person A tn t (speech ! k)) [0..<n] =
      filter (\<lambda>k. is_person A tn t (sum_list (map w (ms ! k)))) (filter (\<lambda>k. al ! k) [0..<n])"
    using assms(2) by (auto intro!: filter_cong)
  then show ?thesis using assms(1)
    by (simp add: count_substantial_def people_in_def survivors_def filter_map comp_def)
qed

lemma merge_inv_start:
  assumes "speech = map w emb"
  shows "merge_inv A tn t w emb (start_merging A tn t sim speech)"
proof -
  let ?n = "length emb"
  let ?h = "mg_history (start_merging A tn t sim speech)"
  have "survivors (map (\<lambda>e. [e]) emb, replicate ?n True) = replay ?n ?h 0 emb"
    by (simp add: replay_def survivors_def)
  then have "count_substantial A tn t (replicate ?n True) speech = people_in A tn t w (replay ?n ?h 0 emb)"
    using count_substantial_people [of "replicate ?n True" ?n speech w "map (\<lambda>e. [e]) emb"] assms by simp
  then show ?thesis using assms by (simp add: merge_inv_def start_merging_def Let_def)
qed

lemma take_snoc: "k \<le> length hs \<Longrightarrow> take k (hs @ [h]) = take k hs"
  by simp

lemma merge_inv_step:
  assumes inv: "merge_inv A tn t w emb st" and ij: "(i, j) \<in> set (live_pairs (mg_alive st))"
  shows "merge_inv A tn t w emb (merge_step A tn t i j s st)"
proof -
  let ?n = "length emb" and ?hs = "mg_history st" and ?h = "(mg_live st, s, i, j)"
  let ?m0 = "map (\<lambda>e. [e]) emb" and ?a0 = "replicate (length emb) True"
  obtain ms al where p: "replay_loop ?m0 ?a0 ?hs = (ms, al)" by fastforce
  have v: "valid_merges ?a0 ?hs" and al: "mg_alive st = al" and sp: "\<And>k. k < ?n \<Longrightarrow> al ! k \<Longrightarrow> mg_speech st ! k = sum_list (map w (ms ! k))"
    and lens: "length (mg_size st) = ?n" "length (mg_speech st) = ?n" "mg_live st + length ?hs = ?n"
      "length (mg_substantial st) = length ?hs + 1"
    and sub: "\<And>k. k \<le> length ?hs \<Longrightarrow> mg_substantial st ! k = people_in A tn t w (replay ?n ?hs k emb)"
    using inv p by (auto simp: merge_inv_def Let_def)
  have la: "length al = ?n" and lm: "length ms = ?n"
    using alive_replay [OF v, of ?m0] tidy_replay [OF tidy_start v] p by (auto simp: tidy_def)
  have ij': "i < j" "j < ?n" "al ! i" "al ! j" using ij al la by (auto simp: mem_live_pairs)
  have v': "valid_merges ?a0 (?hs @ [?h])"
    using v ij' la p by (simp add: valid_merges_snoc [where ms = ?m0] Let_def)
  define ms' where "ms' = ms[j := [], i := ms ! i @ ms ! j]"
  have p': "replay_loop ?m0 ?a0 (?hs @ [?h]) = (ms', al[j := False])"
    by (simp add: replay_loop_snoc p ms'_def)
  define sp' where "sp' = (mg_speech st)[i := mg_speech st ! i + mg_speech st ! j]"
  have sp': "sp' ! k = sum_list (map w (ms' ! k))" if "k < ?n" "al[j := False] ! k" for k
    using that sp ij' lens la lm by (auto simp: sp'_def ms'_def nth_list_update)
  have "replay ?n (?hs @ [?h]) (length ?hs + 1) emb = survivors (ms', al[j := False])"
    using replay_survivors [of ?n "length ?hs + 1" "?hs @ [?h]" emb] v' p' by simp
  then have last: "count_substantial A tn t (al[j := False]) sp' = people_in A tn t w (replay ?n (?hs @ [?h]) (length ?hs + 1) emb)"
    using count_substantial_people [of "al[j := False]" ?n sp' w ms'] sp' la by simp
  have "mg_live st > 0" using ij' la lens(3) al alive_replay [OF v, of ?m0] p
    by (cases "mg_live st") (auto simp: filter_empty_conv)
  moreover from this have "Suc (?n - Suc 0) = ?n" using lens(3) by simp
  moreover have "length sp' = ?n" using lens(2) by (simp add: sp'_def)
  ultimately show ?thesis unfolding merge_inv_def
    using v' p' lens al sp' sub last
    by (simp add: merge_step_def Let_def sp'_def [symmetric] le_Suc_eq nth_append replay_def)
qed

lemma merge_all_inv:
  "merge_inv A tn t w emb st \<Longrightarrow> merge_inv A tn t w emb (merge_all A tn t st) \<and> mg_live (merge_all A tn t st) \<le> 1"
proof (induction A tn t st rule: merge_all.induct)
  case (1 A tn t st)
  show ?case
  proof (cases "mg_live st > 1")
    case True
    let ?b = "best_pair (ar_lt A) (mg_sim st) None (live_pairs (mg_alive st))"
    have "length (filter (\<lambda>i. mg_alive st ! i) [0..<length (mg_alive st)]) = mg_live st"
      using "1.prems" alive_replay [of "replicate (length emb) True" "mg_history st" "map (\<lambda>e. [e]) emb"]
      by (auto simp: merge_inv_def Let_def)
    then have "?b \<noteq> None" using two_live_pair [of "mg_alive st"] True by (simp add: best_pair_None)
    then obtain i j s where b: "?b = Some (i, j, s)" by auto
    then have "(i, j) \<in> set (live_pairs (mg_alive st))" using best_pair_Some [OF b] by simp
    from 1(1) [OF True b refl refl merge_inv_step [OF "1.prems" this]] show ?thesis
      using True b by (simp add: merge_all.simps [of A tn t st])
  next
    case False
    then show ?thesis using "1.prems" by (simp add: merge_all.simps [of A tn t st])
  qed
qed

section \<open>A stated count is a number of people\<close>

definition fragment_speech :: "'f fragment list \<Rightarrow> nat \<Rightarrow> int" where
  "fragment_speech fs i = max (fr_speech_ms (fs ! i)) 0"

abbreviation all_speech_of :: "'f fragment list \<Rightarrow> int" where
  "all_speech_of fs \<equiv> sum_list (map (fragment_speech fs) (embedded_of fs))"

lemma merge_run_inv:
  "merge_inv A tn (all_speech_of fs) (fragment_speech fs) (embedded_of fs) (merge_run_of A tn fs)"
  "mg_live (merge_run_of A tn fs) \<le> 1"
  using merge_all_inv [OF merge_inv_start, of "map (fragment_speech fs) (embedded_of fs)" "fragment_speech fs" "embedded_of fs"
      A tn "all_speech_of fs" "similarity A fs (embedded_of fs)"]
  by (simp_all add: merge_run_of_def Let_def fragment_speech_def [abs_def])

lemma length_merge_history:
  assumes "embedded_of fs \<noteq> []"
  shows "length (mg_history (merge_run_of A tn fs)) + 1 = length (embedded_of fs)"
proof -
  let ?st = "merge_run_of A tn fs"
  have i: "mg_live ?st + length (mg_history ?st) = length (embedded_of fs)"
    using merge_run_inv(1) [of A tn fs] by (simp add: merge_inv_def Let_def)
  have "mg_live ?st \<noteq> 0"
  proof
    assume "mg_live ?st = 0"
    have v: "valid_merges (replicate (length (embedded_of fs)) True) (mg_history ?st)"
      using merge_run_inv(1) [of A tn fs] by (simp add: merge_inv_def Let_def)
    let ?p = "replay_loop (map (\<lambda>e. [e]) (embedded_of fs)) (replicate (length (embedded_of fs)) True) (mg_history ?st)"
    have "tidy (embedded_of fs) ?p" by (rule tidy_replay [OF tidy_start v])
    from tidy_survivors(1) [OF this] have "survivors ?p \<noteq> []" using assms by (metis concat.simps(1) mset_zero_iff)
    then show False using i \<open>mg_live ?st = 0\<close> alive_replay [OF v, of "map (\<lambda>e. [e]) (embedded_of fs)"]
      by (auto simp: survivors_def)
  qed
  then show ?thesis using i merge_run_inv(2) [of A tn fs] by simp
qed

lemma replay_partitions:
  assumes "clusters = replay (length (embedded_of fs)) (mg_history (merge_run_of A tn fs)) k (embedded_of fs)"
  shows "mset (concat clusters) = mset (embedded_of fs)" "[] \<notin> set clusters"
    "length clusters = length (embedded_of fs) - min k (length (mg_history (merge_run_of A tn fs)))"
proof -
  let ?n = "length (embedded_of fs)" and ?hs = "mg_history (merge_run_of A tn fs)"
  have v: "valid_merges (replicate ?n True) (take k ?hs)"
    using merge_run_inv(1) [of A tn fs] by (intro valid_merges_take) (simp add: merge_inv_def Let_def)
  let ?p = "replay_loop (map (\<lambda>e. [e]) (embedded_of fs)) (replicate ?n True) (take k ?hs)"
  have c: "clusters = survivors ?p" unfolding assms by (rule replay_survivors [OF v])
  note t = tidy_survivors [OF tidy_replay [OF tidy_start v]]
  show "mset (concat clusters) = mset (embedded_of fs)" "[] \<notin> set clusters" unfolding c by (rule t)+
  show "length clusters = ?n - min k (length ?hs)" unfolding c length_survivors
    using alive_replay [OF v, of "map (\<lambda>e. [e]) (embedded_of fs)"] by (auto simp: min.commute)
qed

lemma find_rev_Some:
  "find P (rev [0..<n]) = Some k \<Longrightarrow> k < n \<and> P k \<and> (\<forall>m. k < m \<longrightarrow> m < n \<longrightarrow> \<not> P m)"
  by (induction n) (auto simp: less_Suc_eq split: if_splits)

lemma find_rev_None: "find P (rev [0..<n]) = None \<longleftrightarrow> (\<forall>k < n. \<not> P k)"
  by (simp add: find_None_iff)

text \<open>
  C29: a stated number of participants selects the partition with that many people. Whatever the
  arithmetic answers, the merge sequence runs down to one cluster, and after any number of its merges the
  clusters hold every embedded fragment exactly once. If some of these partitions has the stated number of
  clusters with a person's worth of speech, the one that is used has, and it is the coarsest such.
\<close>

theorem stated_count_honoured:
  assumes "embedded_of fs \<noteq> []" and "stated_target expected (length (embedded_of fs)) = Some people"
    and "parts = (\<lambda>k. replay (length (embedded_of fs)) (mg_history (merge_run_of A tn fs)) k (embedded_of fs))"
    and "persons = (\<lambda>k. people_in A tn (all_speech_of fs) (fragment_speech fs) (parts k))"
    and "\<exists>k < length (embedded_of fs). persons k = people"
  shows "(\<forall>k < length (embedded_of fs). mset (concat (parts k)) = mset (embedded_of fs) \<and> [] \<notin> set (parts k) \<and>
      length (parts k) = length (embedded_of fs) - k) \<and>
    final_cut A tn fs expected < length (embedded_of fs) \<and> persons (final_cut A tn fs expected) = people \<and>
    (\<forall>k < length (embedded_of fs). persons k = people \<longrightarrow> k \<le> final_cut A tn fs expected)"
proof -
  let ?n = "length (embedded_of fs)" and ?st = "merge_run_of A tn fs"
  have l: "length (mg_history ?st) + 1 = ?n" by (rule length_merge_history [OF assms(1)])
  have sub: "length (mg_substantial ?st) = ?n" "k < ?n \<Longrightarrow> mg_substantial ?st ! k = persons k" for k
    using merge_run_inv(1) [of A tn fs] l assms(3,4) by (auto simp: merge_inv_def Let_def)
  let ?f = "find (\<lambda>k. mg_substantial ?st ! k = people) (rev [0..<?n])"
  obtain k where f: "?f = Some k" using assms(5) sub(2) find_rev_None [of "\<lambda>k. mg_substantial ?st ! k = people" ?n] by auto
  note k = find_rev_Some [OF f]
  have "final_cut A tn fs expected = k"
    using assms(2) f sub(1) by (simp add: final_cut_def Let_def chosen_cut_def unwrap_or_def)
  moreover have "\<forall>m < ?n. persons m = people \<longrightarrow> m \<le> k" using k sub(2) by (metis not_le)
  moreover have "\<forall>m < ?n. mset (concat (parts m)) = mset (embedded_of fs) \<and> [] \<notin> set (parts m) \<and> length (parts m) = ?n - m"
    using replay_partitions [OF refl, of fs A tn] assms(3) l by (auto simp: min_def)
  ultimately show ?thesis using k sub(2) by auto
qed

section \<open>Speakers are numbered without gaps\<close>

definition numbered :: "int list \<Rightarrow> bool" where
  "numbered xs \<longleftrightarrow> (\<exists>m. set xs = {0..<int m})"

lemma takeWhile_nth: "distinct ys \<Longrightarrow> k < length ys \<Longrightarrow> length (takeWhile (\<lambda>x. x \<noteq> ys ! k) ys) = k"
proof (induction ys arbitrary: k)
  case (Cons y ys)
  then show ?case by (cases k) auto
qed simp

lemma renumber_numbered: "numbered (renumber xs)" "length (renumber xs) = length xs"
proof -
  let ?s = "sort (remdups xs)" and ?g = "\<lambda>a. int (length (takeWhile (\<lambda>x. x \<noteq> a) (sort (remdups xs))))"
  have s: "distinct ?s" "set ?s = set xs" by simp_all
  have g: "?g (?s ! k) = int k" if "k < length ?s" for k using takeWhile_nth [OF s(1) that] by simp
  have "set (renumber xs) = ?g ` set ?s" using s(2) by (simp add: renumber_def)
  also have "\<dots> = ?g ` ((!) ?s ` {..<length ?s})" by (rule arg_cong [where f = "image ?g"]) (auto simp: set_conv_nth)
  also have "\<dots> = (\<lambda>k. int k) ` {..<length ?s}" unfolding image_image by (rule image_cong) (use g in auto)
  also have "\<dots> = {0..<int (length ?s)}" by (simp add: atLeast0LessThan [symmetric] image_int_atLeastLessThan)
  finally show "numbered (renumber xs)" unfolding numbered_def by blast
  show "length (renumber xs) = length xs" by (simp add: renumber_def)
qed

lemma fold_assign:
  "length (fold (\<lambda>f a. a[f := v]) ms a) = length a"
  "f < length a \<Longrightarrow> fold (\<lambda>f a. a[f := v]) ms a ! f = (if f \<in> set ms then v else a ! f)"
  by (induction ms arbitrary: a) (auto simp: nth_list_update)

lemma assign_from:
  assumes "distinct (concat clusters)"
  shows "length (fold (\<lambda>(idx, members) a. fold (\<lambda>f a. a[f := int idx]) members a) (enumerate n clusters) a) = length a \<and>
    (\<forall>f < length a. fold (\<lambda>(idx, members) a. fold (\<lambda>f a. a[f := int idx]) members a) (enumerate n clusters) a ! f =
       (if f \<in> set (concat clusters) then int (n + length (takeWhile (\<lambda>c. f \<notin> set c) clusters)) else a ! f))"
  using assms
proof (induction clusters arbitrary: n a)
  case (Cons c cs)
  then have d: "distinct (concat cs)" "set c \<inter> set (concat cs) = {}" by auto
  show ?case
    using Cons.IH [OF d(1), of "Suc n" "fold (\<lambda>f a. a[f := int n]) c a"] d(2)
    by (auto simp: fold_assign)
qed simp

lemma assign_clusters_values:
  assumes "distinct (concat clusters)" "[] \<notin> set clusters" "\<forall>f \<in> set (concat clusters). f < n"
    and "a = assign_clusters clusters (replicate n (- 1))"
  shows "length a = n" "\<forall>f < n. a ! f \<in> {- 1..<int (length clusters)}" "\<forall>k < length clusters. int k \<in> set a"
proof -
  let ?ix = "\<lambda>f. length (takeWhile (\<lambda>c. f \<notin> set c) clusters)"
  have a: "length a = n" "\<And>f. f < n \<Longrightarrow> a ! f = (if f \<in> set (concat clusters) then int (?ix f) else - 1)"
    using assign_from [OF assms(1), of 0 "replicate n (- 1)"] assms(4) by (auto simp: assign_clusters_def)
  show "length a = n" by (rule a(1))
  have lt: "?ix f < length clusters" if f: "f \<in> set (concat clusters)" for f
  proof (rule ccontr)
    assume "\<not> ?ix f < length clusters"
    then have "takeWhile (\<lambda>c. f \<notin> set c) clusters = clusters"
      using takeWhile_eq_take [of "\<lambda>c. f \<notin> set c" clusters] by simp
    then have "\<forall>c \<in> set clusters. f \<notin> set c" by (metis takeWhile_eq_all_conv)
    then show False using f by auto
  qed
  then show "\<forall>f < n. a ! f \<in> {- 1..<int (length clusters)}" using a(2) by auto
  show "\<forall>k < length clusters. int k \<in> set a"
  proof (intro allI impI)
    fix k assume k: "k < length clusters"
    then obtain f where f: "f \<in> set (clusters ! k)" using assms(2) by (metis list.set_intros(1) neq_Nil_conv nth_mem)
    have other: "f \<notin> set (clusters ! m)" if "m < k" for m
    proof -
      have "concat clusters = concat (take k clusters) @ clusters ! k @ concat (drop (Suc k) clusters)"
        by (metis append_take_drop_id concat.simps(2) concat_append id_take_nth_drop k)
      moreover have "clusters ! m \<in> set (take k clusters)" using that k by (metis in_set_conv_nth length_take min_less_iff_conj nth_take order_less_trans)
      ultimately show ?thesis using f assms(1) by auto
    qed
    have "takeWhile (\<lambda>c. f \<notin> set c) clusters = take k clusters"
      using k f other by (intro takeWhile_eq_take_P_nth) auto
    then have "?ix f = k" using k by simp
    moreover have fc: "f \<in> set (concat clusters)" using f k by auto
    moreover have "f < n" using assms(3) fc by blast
    ultimately have "a ! f = int k" using a(2) by simp
    then show "int k \<in> set a" using a(1) \<open>f < n\<close> by (metis nth_mem)
  qed
qed

lemma first_min_mem: "first_min key best xs = Some x \<Longrightarrow> best = Some x \<or> x \<in> set xs"
  by (induction key best xs rule: first_min.induct) (auto split: option.splits if_splits)

lemma nearest_assigned_value:
  "length a = length fs \<Longrightarrow> nearest_assigned fs a i = Some v \<Longrightarrow> v \<ge> 0 \<and> v \<in> set a"
  by (auto simp: nearest_assigned_def dest!: first_min_mem)

lemma place_upto:
  assumes "length a = length fs" "0 < m" "\<forall>f < length fs. a ! f \<in> {- 1..<int m}" "i \<le> length fs"
    and "b = fold (\<lambda>i a. if a ! i \<ge> 0 then a else a[i := unwrap_or (nearest_assigned fs a i) 0]) [0..<i] a"
  shows "length b = length fs \<and> (\<forall>f < length fs. b ! f \<in> {- 1..<int m} \<and> (f < i \<longrightarrow> 0 \<le> b ! f) \<and> (0 \<le> a ! f \<longrightarrow> b ! f = a ! f))"
  using assms(4,5)
proof (induction i arbitrary: b)
  case 0
  then show ?case using assms(1,3) by simp
next
  case (Suc i)
  let ?c = "fold (\<lambda>i a. if a ! i \<ge> 0 then a else a[i := unwrap_or (nearest_assigned fs a i) 0]) [0..<i] a"
  have c: "length ?c = length fs" "\<forall>f < length fs. ?c ! f \<in> {- 1..<int m} \<and> (f < i \<longrightarrow> 0 \<le> ?c ! f) \<and> (0 \<le> a ! f \<longrightarrow> ?c ! f = a ! f)"
    using Suc by simp_all
  have "unwrap_or (nearest_assigned fs ?c i) 0 \<in> {0..<int m}"
  proof (cases "nearest_assigned fs ?c i")
    case (Some v)
    note v = nearest_assigned_value [OF c(1) Some]
    then obtain f where "f < length fs" "?c ! f = v" using c(1) by (auto simp: in_set_conv_nth)
    then have "v \<in> {- 1..<int m}" using c(2) by blast
    then show ?thesis using Some v by (simp add: unwrap_or_def)
  qed (use assms(2) in \<open>simp add: unwrap_or_def\<close>)
  moreover have "b = (if ?c ! i \<ge> 0 then ?c else ?c[i := unwrap_or (nearest_assigned fs ?c i) 0])"
    using Suc.prems by simp
  moreover have "i < length fs" using Suc.prems by simp
  ultimately show ?case using c by (auto simp: nth_list_update less_Suc_eq)
qed

lemma placed_numbered:
  assumes "distinct (concat clusters)" "[] \<notin> set clusters" "\<forall>f \<in> set (concat clusters). f < length fs" "clusters \<noteq> []"
    and "b = place_unembedded fs (assign_clusters clusters (replicate (length fs) (- 1)))"
  shows "set b = {0..<int (length clusters)}" "length b = length fs"
proof -
  let ?a = "assign_clusters clusters (replicate (length fs) (- 1))"
  note a = assign_clusters_values [OF assms(1-3) refl]
  have b: "length b = length fs" "\<And>f. f < length fs \<Longrightarrow> b ! f \<in> {0..<int (length clusters)} \<and> (0 \<le> ?a ! f \<longrightarrow> b ! f = ?a ! f)"
    using place_upto [OF a(1) _ a(2) order_refl, of b] assms(4,5) by (auto simp: place_unembedded_def)
  show "length b = length fs" by (rule b(1))
  show "set b = {0..<int (length clusters)}"
  proof
    show "set b \<subseteq> {0..<int (length clusters)}" using b by (metis (no_types, lifting) in_set_conv_nth subsetI)
    show "{0..<int (length clusters)} \<subseteq> set b"
    proof
      fix x assume x: "x \<in> {0..<int (length clusters)}"
      then have "x = int (nat x)" "nat x < length clusters" by auto
      then have "x \<in> set ?a" using a(3) by metis
      then obtain f where "f < length fs" "?a ! f = x" using a(1) by (metis in_set_conv_nth)
      then show "x \<in> set b" using b x by (metis atLeastLessThan_iff nth_mem)
    qed
  qed
qed

lemma fold_slight_numbered:
  assumes "numbered a" "length a = length fs"
  shows "numbered (fold_slight_speakers A tn ho fs a)" "length (fold_slight_speakers A tn ho fs a) = length fs"
  using assms renumber_numbered by (auto simp: fold_slight_speakers_def Let_def)

lemma refine_numbered:
  assumes "numbered a" "length a = length fs" "passes \<le> 1"
  shows "numbered (refine_assignment A fs passes a) \<and> length (refine_assignment A fs passes a) = length fs"
proof (cases passes)
  case (Suc p)
  then show ?thesis using assms renumber_numbered by (simp add: Let_def)
qed (use assms renumber_numbered in simp)

lemma cluster_fragments_numbered:
  assumes "fs \<noteq> []" and "tn_refine tn \<le> 1" and "a = cluster_fragments A tn hash_order fs expected"
  shows "length a = length fs" "numbered a"
proof -
  have n: "length a = length fs \<and> numbered a"
  proof (cases "embedded_of fs = []")
    case True
    then have "set a = {0..<int 1}" "length a = length fs" using assms(1,3) by (auto simp: cluster_fragments_def)
    then show ?thesis unfolding numbered_def by blast
  next
    case False
    define clusters where "clusters = replay (length (embedded_of fs)) (mg_history (merge_run_of A tn fs)) (final_cut A tn fs expected) (embedded_of fs)"
    note c = replay_partitions [OF clusters_def]
    have "set (concat clusters) = set (embedded_of fs)" using c(1) by (rule mset_eq_setD)
    moreover have "distinct (concat clusters)" using c(1) by (metis distinct_filter distinct_upt embedded_of_def mset_eq_imp_distinct_iff)
    moreover have "clusters \<noteq> []" using c(1) False by auto
    ultimately have "numbered (place_unembedded fs (assign_clusters clusters (replicate (length fs) (- 1))))"
      "length (place_unembedded fs (assign_clusters clusters (replicate (length fs) (- 1)))) = length fs"
      using placed_numbered [OF _ c(2) _ _ refl, of fs] unfolding numbered_def by (auto simp: embedded_of_def)
    from refine_numbered [OF fold_slight_numbered [OF this] assms(2), of A A tn hash_order] show ?thesis
      using False assms(3) by (simp add: cluster_fragments_def Let_def clusters_def)
  qed
  then show "length a = length fs" "numbered a" by blast+
qed

text \<open>
  Every fragment gets a speaker, and the speakers are numbered from zero without a gap, so the highest
  index plus one is the number of speakers. It holds whatever the similarities are - also when none
  could be computed - and through folding and the one pass of refinement.
\<close>

lemma speakers_numbered:
  assumes "numbered a" and "a \<noteq> []"
  shows "set a = {0..Max (set a)}" "nat (Max (set a)) + 1 = card (set a)" "0 \<le> Max (set a)"
proof -
  obtain m where m: "set a = {0..<int m}" using assms(1) unfolding numbered_def by blast
  then have "0 < m" using assms(2) by (cases m) auto
  then have mx: "Max (set a) = int m - 1" unfolding m by (intro Max_eqI) auto
  have "set a = {0..int m - 1}" "card (set a) = m" unfolding m by auto
  then show "set a = {0..Max (set a)}" "nat (Max (set a)) + 1 = card (set a)" "0 \<le> Max (set a)"
    unfolding mx using \<open>0 < m\<close> by simp_all
qed

section \<open>Average linkage\<close>

definition exact :: "real arith \<Rightarrow> bool" where
  "exact A \<longleftrightarrow> ar_lt A = (<) \<and> ar_add A = (+) \<and> ar_mul A = (*) \<and> ar_div A = (/) \<and> ar_one A = 1"

text \<open>The reference: the mean of the raw similarities over all pairs of members.\<close>

definition mean_link :: "(nat \<Rightarrow> nat \<Rightarrow> real) \<Rightarrow> nat list \<Rightarrow> nat list \<Rightarrow> real" where
  "mean_link s0 X Y = (\<Sum>x \<leftarrow> X. \<Sum>y \<leftarrow> Y. s0 x y) / (real (length X) * real (length Y))"

lemma sum_list_swap: "(\<Sum>x \<leftarrow> X. \<Sum>y \<leftarrow> Y. (f x y :: real)) = (\<Sum>y \<leftarrow> Y. \<Sum>x \<leftarrow> X. f x y)"
  by (induction X) (simp_all add: sum_list_addf)

lemma mean_link_sym: "(\<And>x y. s0 x y = s0 y x) \<Longrightarrow> mean_link s0 X Y = mean_link s0 Y X"
  unfolding mean_link_def by (subst sum_list_swap) (simp add: mult.commute)

lemma mean_link_append:
  assumes "X \<noteq> []" "X' \<noteq> []" "Y \<noteq> []"
  shows "mean_link s0 (X @ X') Y =
    (mean_link s0 X Y * real (length X) + mean_link s0 X' Y * real (length X')) / (real (length X) + real (length X'))"
proof -
  have "0 < real (length X)" "0 < real (length X')" "0 < real (length Y)" using assms by simp_all
  then show ?thesis by (simp add: mean_link_def field_simps)
qed

lemma best_pair_max:
  "best_pair (<) sim best ps = Some (i, j, s) \<Longrightarrow>
     (\<forall>(a, b) \<in> set ps. sim a b \<le> s) \<and> (\<forall>a b x. best = Some (a, b, x) \<longrightarrow> x \<le> (s :: real))"
proof (induction "(<) :: real \<Rightarrow> real \<Rightarrow> bool" sim best ps rule: best_pair.induct)
  case (2 sim best a b ps)
  let ?best = "case best of None \<Rightarrow> Some (a, b, sim a b) | Some (_, _, x) \<Rightarrow> if x < sim a b then Some (a, b, sim a b) else best"
  have ih: "\<forall>(a, b) \<in> set ps. sim a b \<le> s" "\<And>a' b' x. ?best = Some (a', b', x) \<Longrightarrow> x \<le> s"
    using 2 by auto
  have "sim a b \<le> s \<and> (\<forall>a' b' x. best = Some (a', b', x) \<longrightarrow> x \<le> s)"
  proof (cases best)
    case (Some t)
    obtain a' b' x where t: "t = (a', b', x)" by (cases t)
    show ?thesis using ih(2) Some t by (cases "x < sim a b") force+
  qed (use ih(2) in auto)
  then show ?case using ih(1) by auto
qed auto

definition link_inv :: "(nat \<Rightarrow> nat \<Rightarrow> real) \<Rightarrow> nat list \<Rightarrow> real merging \<Rightarrow> bool" where
  "link_inv s0 emb st \<longleftrightarrow>
     (case replay_loop (map (\<lambda>e. [e]) emb) (replicate (length emb) True) (mg_history st) of (ms, al) \<Rightarrow>
        (\<forall>a < length emb. al ! a \<longrightarrow> mg_size st ! a = real (length (ms ! a))) \<and>
        (\<forall>a < length emb. \<forall>b < length emb. al ! a \<longrightarrow> al ! b \<longrightarrow> a \<noteq> b \<longrightarrow> mg_sim st a b = mean_link s0 (ms ! a) (ms ! b)))"

definition greedy :: "(nat \<Rightarrow> nat \<Rightarrow> real) \<Rightarrow> nat list \<Rightarrow> (nat \<times> real \<times> nat \<times> nat) list \<Rightarrow> nat \<Rightarrow> bool" where
  "greedy s0 emb hist k \<longleftrightarrow>
     (case (hist ! k, replay_loop (map (\<lambda>e. [e]) emb) (replicate (length emb) True) (take k hist)) of ((c, s, i, j), (ms, al)) \<Rightarrow>
        (i, j) \<in> set (live_pairs al) \<and> s = mean_link s0 (ms ! i) (ms ! j) \<and>
        (\<forall>(a, b) \<in> set (live_pairs al). mean_link s0 (ms ! a) (ms ! b) \<le> s))"

lemma greedy_snoc: "k < length hist \<Longrightarrow> greedy s0 emb (hist @ [h]) k = greedy s0 emb hist k"
  by (simp add: greedy_def nth_append)

lemma link_inv_step:
  assumes A: "exact A" "tn_linkage tn = Average" and sym: "\<And>x y. s0 x y = s0 y x"
    and inv: "merge_inv A tn t w emb st" "link_inv s0 emb st"
    and ij: "(i, j) \<in> set (live_pairs (mg_alive st))"
  shows "link_inv s0 emb (merge_step A tn t i j s st)"
proof -
  let ?n = "length emb" and ?m0 = "map (\<lambda>e. [e]) emb" and ?a0 = "replicate (length emb) True"
  obtain ms al where p: "replay_loop ?m0 ?a0 (mg_history st) = (ms, al)" by fastforce
  have v: "valid_merges ?a0 (mg_history st)" and al: "mg_alive st = al" "length (mg_size st) = ?n"
    using inv(1) p by (auto simp: merge_inv_def Let_def)
  have tidy: "tidy emb (ms, al)" using tidy_replay [OF tidy_start v] p by simp
  have l: "length al = ?n" "length ms = ?n" using alive_replay [OF v, of ?m0] tidy p by (auto simp: tidy_def)
  have ne: "ms ! a \<noteq> []" if "a < ?n" "al ! a" for a using tidy that l by (auto simp: tidy_def)
  have ij': "i < j" "j < ?n" "al ! i" "al ! j" using ij al l by (auto simp: mem_live_pairs)
  have sz: "mg_size st ! a = real (length (ms ! a))" if "a < ?n" "al ! a" for a
    using inv(2) p that by (auto simp: link_inv_def)
  have sim: "mg_sim st a b = mean_link s0 (ms ! a) (ms ! b)" if "a < ?n" "b < ?n" "al ! a" "al ! b" "a \<noteq> b" for a b
    using inv(2) p that by (auto simp: link_inv_def)
  have merged: "linked A Average (mg_sim st i k) (mg_sim st j k) (mg_size st ! i) (mg_size st ! j) =
      mean_link s0 (ms ! i @ ms ! j) (ms ! k)" if "k < ?n" "al ! k" "k \<noteq> i" "k \<noteq> j" for k
    using that ij' A(1) sim sz ne by (simp add: linked_def exact_def mean_link_append)
  define ms' where "ms' = ms[j := [], i := ms ! i @ ms ! j]"
  have p': "replay_loop ?m0 ?a0 (mg_history st @ [(mg_live st, s, i, j)]) = (ms', al[j := False])"
    by (simp add: replay_loop_snoc p ms'_def)
  have new: "ms' ! i = ms ! i @ ms ! j" "\<And>k. k \<noteq> i \<Longrightarrow> k \<noteq> j \<Longrightarrow> ms' ! k = ms ! k"
    using ij' l by (auto simp: ms'_def nth_list_update)
  have size': "(mg_size st)[i := ar_add A (mg_size st ! i) (mg_size st ! j)] ! a = real (length (ms' ! a))"
    if "a < ?n" "al[j := False] ! a" for a
    using that ij' al(2) sz l A(1) new by (cases "a = i"; cases "a = j") (auto simp: exact_def)
  have sim': "relink A Average i j st a b = mean_link s0 (ms' ! a) (ms' ! b)"
    if ab: "a < ?n" "b < ?n" "al[j := False] ! a" "al[j := False] ! b" "a \<noteq> b" for a b
  proof -
    have ab': "al ! a" "al ! b" "a \<noteq> j" "b \<noteq> j" using ab ij' l by (auto simp: nth_list_update split: if_splits)
    consider (row) "a = i" | (col) "b = i" | (rest) "a \<noteq> i" "b \<noteq> i" by blast
    then show ?thesis
    proof cases
      case row
      then show ?thesis using merged [of b] ab ab' al(1) l new by (simp add: relink_def Let_def)
    next
      case col
      then have "mean_link s0 (ms' ! a) (ms' ! b) = mean_link s0 (ms ! i @ ms ! j) (ms ! a)"
        using new ab ab' mean_link_sym [of s0, OF sym] by metis
      then show ?thesis using merged [of a] col ab ab' al(1) l by (simp add: relink_def Let_def)
    next
      case rest
      then show ?thesis using sim [of a b] new ab ab' by (simp add: relink_def Let_def)
    qed
  qed
  show ?thesis using size' sim' A(2) by (simp add: link_inv_def merge_step_def Let_def p')
qed

lemma merge_all_greedy:
  assumes "exact A" "tn_linkage tn = Average" "\<And>x y. s0 x y = s0 y x"
  shows "merge_inv A tn t w emb st \<Longrightarrow> link_inv s0 emb st \<Longrightarrow> (\<forall>k < length (mg_history st). greedy s0 emb (mg_history st) k) \<Longrightarrow>
    (\<forall>k < length (mg_history (merge_all A tn t st)). greedy s0 emb (mg_history (merge_all A tn t st)) k)"
  using assms(1,2)
proof (induction A tn t st rule: merge_all.induct)
  case (1 A tn t st)
  let ?b = "best_pair (ar_lt A) (mg_sim st) None (live_pairs (mg_alive st))"
  show ?case
  proof (cases "mg_live st > 1 \<and> ?b \<noteq> None")
    case True
    then obtain i j s where b: "?b = Some (i, j, s)" by auto
    let ?st = "merge_step A tn t i j s st"
    have ij: "(i, j) \<in> set (live_pairs (mg_alive st))" "s = mg_sim st i j" using best_pair_Some [OF b] by simp_all
    obtain ms al where p: "replay_loop (map (\<lambda>e. [e]) emb) (replicate (length emb) True) (mg_history st) = (ms, al)" by fastforce
    have al: "mg_alive st = al" "length al = length emb"
      using "1.prems"(1) p alive_replay [of "replicate (length emb) True" "mg_history st" "map (\<lambda>e. [e]) emb"]
      by (auto simp: merge_inv_def Let_def)
    have link: "mg_sim st a b = mean_link s0 (ms ! a) (ms ! b)" if "(a, b) \<in> set (live_pairs al)" for a b
      using "1.prems"(2) p that al(2) by (auto simp: link_inv_def mem_live_pairs)
    have "\<forall>(a, b) \<in> set (live_pairs al). mg_sim st a b \<le> s"
      using best_pair_max [of "mg_sim st" None "live_pairs (mg_alive st)" i j s] b al(1) "1.prems"(4) by (simp add: exact_def)
    then have "greedy s0 emb (mg_history ?st) (length (mg_history st))"
      using ij link al(1) by (auto simp: greedy_def merge_step_def Let_def p)
    moreover have "mg_history ?st = mg_history st @ [(mg_live st, s, i, j)]" by (simp add: merge_step_def Let_def)
    ultimately have g: "\<forall>k < length (mg_history ?st). greedy s0 emb (mg_history ?st) k"
      using "1.prems"(3) by (auto simp: less_Suc_eq greedy_snoc)
    from True have "mg_live st > 1" by simp
    from "1.IH" [OF this b refl refl merge_inv_step [OF "1.prems"(1) ij(1)]
        link_inv_step [OF "1.prems"(4,5) assms(3) "1.prems"(1,2) ij(1)] g "1.prems"(4,5)] show ?thesis
      using True b by (simp add: merge_all.simps [of A tn t st])
  next
    case False
    then have "merge_all A tn t st = st" by (cases ?b) (auto simp: merge_all.simps [of A tn t st])
    then show ?thesis using "1.prems"(3) by simp
  qed
qed

definition raw_similarity :: "'f arith \<Rightarrow> 'f fragment list \<Rightarrow> nat \<Rightarrow> nat \<Rightarrow> 'f" where
  "raw_similarity A fs x y = voice_cosine A (embedding_at fs (min x y)) (embedding_at fs (max x y))"

lemma embedded_of_mono: "a < b \<Longrightarrow> b < length (embedded_of fs) \<Longrightarrow> embedded_of fs ! a < embedded_of fs ! b"
  unfolding embedded_of_def by (rule sorted_wrt_nth_less [OF sorted_wrt_filter]) simp_all

lemma similarity_raw:
  assumes "a < length (embedded_of fs)" "b < length (embedded_of fs)" "a \<noteq> b"
  shows "similarity A fs (embedded_of fs) a b = raw_similarity A fs (embedded_of fs ! a) (embedded_of fs ! b)"
  using assms embedded_of_mono [of a b fs] embedded_of_mono [of b a fs]
  by (cases a b rule: linorder_cases) (simp_all add: similarity_def raw_similarity_def min_def max_def)

text \<open>
  C30: the cheap update is average linkage. In exact arithmetic, every merge of the sequence joins the two
  clusters with the highest mean of the raw cosine similarities over all pairs of their fragments, and
  records that mean - although the code only ever combines two rows of a matrix of scalars.
\<close>

theorem average_linkage_is_mean_similarity:
  assumes "exact A" and "tn_linkage tn = Average" and "hist = mg_history (merge_run_of A tn fs)" and "k < length hist"
    and "hist ! k = (c, s, i, j)" and "n = length (embedded_of fs)"
    and "replay_loop (map (\<lambda>e. [e]) (embedded_of fs)) (replicate n True) (take k hist) = (members, alive)"
  shows "i < j \<and> j < n \<and> alive ! i \<and> alive ! j \<and> s = mean_link (raw_similarity A fs) (members ! i) (members ! j) \<and>
    (\<forall>a b. a < b \<longrightarrow> b < n \<longrightarrow> alive ! a \<longrightarrow> alive ! b \<longrightarrow>
       mean_link (raw_similarity A fs) (members ! a) (members ! b) \<le> s)"
proof -
  let ?emb = "embedded_of fs" and ?s0 = "raw_similarity A fs"
  let ?sp = "map (fragment_speech fs) ?emb"
  let ?st = "start_merging A tn (all_speech_of fs) (similarity A fs ?emb) ?sp"
  have run: "merge_run_of A tn fs = merge_all A tn (all_speech_of fs) ?st"
    by (simp add: merge_run_of_def Let_def fragment_speech_def [abs_def])
  have sym: "?s0 x y = ?s0 y x" for x y by (simp add: raw_similarity_def min.commute max.commute)
  have "link_inv ?s0 ?emb ?st"
    using similarity_raw [of _ fs _ A] assms(1) by (auto simp: link_inv_def start_merging_def Let_def mean_link_def exact_def)
  from merge_all_greedy [OF assms(1,2) sym merge_inv_start [OF refl] this] have "greedy ?s0 ?emb hist k"
    using assms(3,4) by (simp add: run) (simp add: start_merging_def Let_def)
  moreover have "length alive = n"
    using alive_replay [of "replicate n True" "take k hist" "map (\<lambda>e. [e]) ?emb"] assms(3,6,7) merge_run_inv(1) [of A tn fs]
    by (auto simp: merge_inv_def Let_def valid_merges_take)
  ultimately show ?thesis using assms(5-7) by (auto simp: greedy_def mem_live_pairs)
qed

section \<open>Examples\<close>

definition real_arith :: "real arith" where
  "real_arith = \<lparr>ar_zero = 0, ar_one = 1, ar_two = 2, ar_epsilon = 0, ar_top = 10 ^ 38, ar_bottom = - (10 ^ 38),
     ar_lt = (<), ar_le = (\<le>), ar_add = (+), ar_sub = (-), ar_mul = (*), ar_div = (/), ar_max = max, ar_min = min,
     ar_sqrt = sqrt, ar_pow = (powr), ar_sum = sum_list, ar_of_int = of_int, ar_to_nat = (\<lambda>x. nat \<lfloor>x\<rfloor>),
     ar_share = (\<lambda>ms t. real_of_int ms / real_of_int t \<ge> 1 / 100)\<rparr>"

definition real_tuning :: "real tuning" where
  "real_tuning = \<lparr>tn_min_speaker_ms = 3000, tn_relative_drop = 4 / 5, tn_people_drop = 1 / 5, tn_cohesion_ratio = 73 / 100,
     tn_linkage = Average, tn_count_rule = BothRules, tn_refine = 1\<rparr>"

definition voice :: "real list \<Rightarrow> real fragment" where
  "voice e = \<lparr>fr_turns = [], fr_embedding = Some e, fr_speech_ms = 5000\<rparr>"

lemma embedded_two: "embedded_of [voice [1, 0], voice [0, 1]] = [0, 1]"
  by (simp add: embedded_of_def usable_def voice_def upt_rec)

lemma speech_two: "all_speech_of [voice [1, 0], voice [0, 1]] = 10000"
  by (simp add: embedded_two fragment_speech_def) (simp add: voice_def)

theorem stated_count_honoured_witness:
  "let fs = [voice [1, 0], voice [0, 1]]; emb = embedded_of fs in
   people_in real_arith real_tuning (all_speech_of fs) (fragment_speech fs)
     (replay (length emb) (mg_history (merge_run_of real_arith real_tuning fs)) (final_cut real_arith real_tuning fs (Some 2)) emb) = 2"
proof -
  let ?fs = "[voice [1, 0], voice [0, 1]]"
  have p: "people_in real_arith real_tuning (all_speech_of ?fs) (fragment_speech ?fs)
      (replay (length (embedded_of ?fs)) (mg_history (merge_run_of real_arith real_tuning ?fs)) 0 (embedded_of ?fs)) = 2"
    unfolding speech_two unfolding embedded_two
    by (simp add: people_in_def replay_def is_person_def fragment_speech_def voice_def real_arith_def real_tuning_def upt_rec)
  have "stated_target (Some 2) (length (embedded_of ?fs)) = Some 2" "embedded_of ?fs \<noteq> []" "0 < length (embedded_of ?fs)"
    by (simp_all add: embedded_two stated_target_def)
  from stated_count_honoured [OF this(2,1) refl refl exI, OF conjI, OF this(3) p] show ?thesis unfolding Let_def by blast
qed

theorem average_linkage_is_mean_similarity_witness:
  "\<exists>c. mg_history (merge_run_of real_arith real_tuning [voice [1, 0], voice [0, 1]]) = [(c, 0, 0, 1)]"
proof -
  let ?fs = "[voice [1, 0], voice [0, 1]]"
  let ?h = "mg_history (merge_run_of real_arith real_tuning ?fs)"
  have "length ?h = 1" using length_merge_history [of ?fs real_arith real_tuning] by (simp add: embedded_two)
  then obtain c s i j where h: "?h = [(c, s, i, j)]" by (cases ?h) auto
  have "exact real_arith" "tn_linkage real_tuning = Average" by (simp_all add: exact_def real_arith_def real_tuning_def)
  from average_linkage_is_mean_similarity [OF this refl, of 0 ?fs c s i j 2 "[[0], [1]]" "[True, True]"]
  have "i < j" "j < 2" "s = mean_link (raw_similarity real_arith ?fs) ([[0], [1]] ! i) ([[0], [1]] ! j)"
    by (simp_all add: h embedded_two numeral_2_eq_2)
  moreover from this have "i = 0" "j = 1" by simp_all
  ultimately show ?thesis
    using h by (simp add: mean_link_def raw_similarity_def embedding_at_def voice_def voice_cosine_def real_arith_def)
qed

end
