(* ===== verification/Scribe_Wav.thy ===== *)
theory Scribe_Wav
  imports Scribe_Cluster
begin

text \<open>
  The RIFF/WAVE reader, \<open>crates/scribe-asr/src/wav.rs\<close>, over bytes. Every error of the reader is a model error
  that differs in its message, which \<open>wav_error\<close> names. The interpretation of four bytes as an \<open>f32\<close>
  (\<open>from_bits\<close>) is a parameter; file lengths stay below \<open>2 ^ 63\<close>, so positions are natural numbers and the
  checked addition never overflows.
\<close>

section \<open>Bytes\<close>

type_synonym byte = "8 word"

definition ascii :: "string \<Rightarrow> byte list" where
  "ascii s = map (\<lambda>c. of_nat (of_char c)) s"

text \<open>Little-endian numbers: \<open>from_le_bytes\<close> and \<open>to_le_bytes\<close>.\<close>

fun le_nat :: "byte list \<Rightarrow> nat" where
  "le_nat [] = 0"
| "le_nat (b # bs) = unat b + 256 * le_nat bs"

fun le_bytes :: "nat \<Rightarrow> nat \<Rightarrow> byte list" where
  "le_bytes 0 x = []"
| "le_bytes (Suc n) x = of_nat (x mod 256) # le_bytes n (x div 256)"

definition sub_slice :: "'a list \<Rightarrow> nat \<Rightarrow> nat \<Rightarrow> 'a list" where
  "sub_slice xs from to = take (to - from) (drop from xs)"

text \<open>\<open>slice::chunks_exact\<close>: a rest that is too short is dropped.\<close>

function chunks_exact :: "nat \<Rightarrow> 'a list \<Rightarrow> 'a list list" where
  "chunks_exact k xs = (if k = 0 \<or> length xs < k then [] else take k xs # chunks_exact k (drop k xs))"
  by pat_completeness auto
termination by (relation "measure (\<lambda>(k, xs). length xs)") auto

declare chunks_exact.simps [simp del]

section \<open>The reader\<close>

datatype wav_error =
  EndOfFile | NotRiff | FmtTooSmall | MissingFmt | MissingData | ZeroChannels
| UnsupportedFormat "16 word" | UnsupportedDepth "16 word"

record 'f wav_data =
  wv_rate :: "32 word"
  wv_channels :: "16 word"
  wv_samples :: "'f list"

definition duration_ms :: "'f wav_data \<Rightarrow> int" where
  "duration_ms w =
     (if wv_rate w = 0 then 0 else quot (int (length (wv_samples w)) * 1000) (uint (wv_rate w)))"

definition read_u16 :: "byte list \<Rightarrow> nat \<Rightarrow> wav_error + 16 word" where
  "read_u16 b off = (if off + 2 \<le> length b then Inr (of_nat (le_nat (sub_slice b off (off + 2)))) else Inl EndOfFile)"

definition read_u32 :: "byte list \<Rightarrow> nat \<Rightarrow> wav_error + 32 word" where
  "read_u32 b off = (if off + 4 \<le> length b then Inr (of_nat (le_nat (sub_slice b off (off + 4)))) else Inl EndOfFile)"

record wav_format =
  audio_format :: "16 word"
  fmt_channels :: "16 word"
  fmt_rate :: "32 word"
  bits_per_sample :: "16 word"

definition read_fmt :: "byte list \<Rightarrow> wav_error + wav_format" where
  "read_fmt body =
     (if length body < 16 then Inl FmtTooSmall
      else case read_u16 body 0 of Inl e \<Rightarrow> Inl e | Inr f \<Rightarrow>
           (case read_u16 body 2 of Inl e \<Rightarrow> Inl e | Inr c \<Rightarrow>
           (case read_u32 body 4 of Inl e \<Rightarrow> Inl e | Inr r \<Rightarrow>
           (case read_u16 body 14 of Inl e \<Rightarrow> Inl e | Inr b \<Rightarrow>
              Inr \<lparr>audio_format = f, fmt_channels = c, fmt_rate = r, bits_per_sample = b\<rparr>))))"

text \<open>The walk over the chunks: the last \<open>fmt\<close> and the last \<open>data\<close> chunk count, a chunk past the end is cut off.\<close>

function walk_chunks ::
  "byte list \<Rightarrow> nat \<Rightarrow> wav_format option \<Rightarrow> byte list option \<Rightarrow> wav_error + wav_format option \<times> byte list option" where
  "walk_chunks bytes pos fmt data =
     (if length bytes < pos + 8 then Inr (fmt, data)
      else case read_u32 bytes (pos + 4) of
        Inl e \<Rightarrow> Inl e
      | Inr n \<Rightarrow>
          let chunk_id = sub_slice bytes pos (pos + 4);
              body = sub_slice bytes (pos + 8) (min (pos + 8 + unat n) (length bytes));
              next = pos + (8 + unat n + unat n mod 2)
          in if chunk_id = ascii ''fmt ''
             then (case read_fmt body of Inl e \<Rightarrow> Inl e | Inr f \<Rightarrow> walk_chunks bytes next (Some f) data)
             else if chunk_id = ascii ''data'' then walk_chunks bytes next fmt (Some body)
             else walk_chunks bytes next fmt data)"
  by pat_completeness auto
termination by (relation "measure (\<lambda>(bytes, pos, fmt, data). length bytes - pos)") (auto simp: not_less)

declare walk_chunks.simps [simp del]

definition decode_samples ::
  "'f arith \<Rightarrow> (32 word \<Rightarrow> 'f) \<Rightarrow> byte list \<Rightarrow> 16 word \<Rightarrow> bool \<Rightarrow> wav_error + 'f list" where
  "decode_samples A from_bits data bits is_float =
     (if is_float \<and> bits = 32 then Inr (map (\<lambda>c. from_bits (of_nat (le_nat c))) (chunks_exact 4 data))
      else if \<not> is_float \<and> bits = 8
      then Inr (map (\<lambda>b. ar_div A (ar_sub A (ar_of_int A (uint b)) (ar_of_int A 128)) (ar_of_int A 128)) data)
      else if \<not> is_float \<and> bits = 16
      then Inr (map (\<lambda>c. ar_div A (ar_of_int A (sint (of_nat (le_nat c) :: 16 word))) (ar_of_int A 32768)) (chunks_exact 2 data))
      else if \<not> is_float \<and> bits = 24
      then Inr (map (\<lambda>c. ar_div A (ar_of_int A (sint (signed_drop_bit 8 (push_bit 8 (of_nat (le_nat c) :: 32 word)))))
                                   (ar_of_int A 8388608)) (chunks_exact 3 data))
      else if \<not> is_float \<and> bits = 32
      then Inr (map (\<lambda>c. ar_div A (ar_of_int A (sint (of_nat (le_nat c) :: 32 word))) (ar_of_int A 2147483648)) (chunks_exact 4 data))
      else Inl (UnsupportedDepth bits))"

definition downmix_to_mono :: "'f arith \<Rightarrow> 'f list \<Rightarrow> 16 word \<Rightarrow> 'f list" where
  "downmix_to_mono A interleaved chans =
     (if chans \<le> 1 then interleaved
      else map (\<lambda>frame. ar_div A (ar_sum A frame) (ar_of_int A (uint chans))) (chunks_exact (unat chans) interleaved))"

definition parse_wav :: "'f arith \<Rightarrow> (32 word \<Rightarrow> 'f) \<Rightarrow> byte list \<Rightarrow> wav_error + 'f wav_data" where
  "parse_wav A from_bits bytes =
     (if length bytes < 12 \<or> sub_slice bytes 0 4 \<noteq> ascii ''RIFF'' \<or> sub_slice bytes 8 12 \<noteq> ascii ''WAVE'' then Inl NotRiff
      else case walk_chunks bytes 12 None None of
        Inl e \<Rightarrow> Inl e
      | Inr (None, _) \<Rightarrow> Inl MissingFmt
      | Inr (Some f, None) \<Rightarrow> Inl MissingData
      | Inr (Some f, Some data) \<Rightarrow>
          if fmt_channels f = 0 then Inl ZeroChannels
          else let is_float = (audio_format f = 3) in
            if \<not> is_float \<and> audio_format f \<noteq> 1 \<and> audio_format f \<noteq> 0xFFFE then Inl (UnsupportedFormat (audio_format f))
            else case decode_samples A from_bits data (bits_per_sample f) is_float of
                   Inl e \<Rightarrow> Inl e
                 | Inr interleaved \<Rightarrow>
                     Inr \<lparr>wv_rate = fmt_rate f, wv_channels = fmt_channels f,
                          wv_samples = downmix_to_mono A interleaved (fmt_channels f)\<rparr>)"

text \<open>\<open>read_wav\<close>: \<open>file\<close> is the content of the file, \<open>None\<close> when it cannot be read.\<close>

definition read_wav :: "'f arith \<Rightarrow> (32 word \<Rightarrow> 'f) \<Rightarrow> byte list option \<Rightarrow> error + 'f wav_data" where
  "read_wav A from_bits file =
     (case file of
        None \<Rightarrow> Inl Io
      | Some bytes \<Rightarrow> (case parse_wav A from_bits bytes of Inl e \<Rightarrow> Inl Model | Inr w \<Rightarrow> Inr w))"

text \<open>The bytes that \<open>write_pcm16_mono\<close> writes; \<open>byte_rate\<close> and the sizes wrap at 32 bits.\<close>

definition write_pcm16_mono :: "32 word \<Rightarrow> 16 word list \<Rightarrow> byte list" where
  "write_pcm16_mono rate ss =
     (let data_len = (of_nat (length ss * 2) :: 32 word) in
      ascii ''RIFF'' @ le_bytes 4 (unat (36 + data_len)) @ ascii ''WAVE'' @
      ascii ''fmt '' @ le_bytes 4 16 @ le_bytes 2 1 @ le_bytes 2 1 @ le_bytes 4 (unat rate) @ le_bytes 4 (unat (rate * 2)) @
      le_bytes 2 2 @ le_bytes 2 16 @ ascii ''data'' @ le_bytes 4 (unat data_len) @
      concat (map (\<lambda>s. le_bytes 2 (unat s)) ss))"

section \<open>Numbers in bytes\<close>

lemma length_le_bytes [simp]: "length (le_bytes n x) = n"
  by (induction n arbitrary: x) auto

lemma length_ascii [simp]: "length (ascii s) = length s"
  by (simp add: ascii_def)

lemma le_nat_bytes: "le_nat (le_bytes n x) = x mod 256 ^ n"
proof (induction n arbitrary: x)
  case (Suc n)
  have "unat (of_nat (x mod 256) :: byte) = x mod 256" by (simp add: unat_of_nat)
  then show ?case by (simp add: Suc mod_mult2_eq)
qed simp

lemma le_word [simp]:
  "of_nat (le_nat (le_bytes 2 (unat (w :: 16 word)))) = w" "of_nat (le_nat (le_bytes 4 (unat (v :: 32 word)))) = v"
  using unsigned_less [of w, where 'a = nat] unsigned_less [of v, where 'a = nat] by (simp_all add: le_nat_bytes)

lemma chunks_exact_concat:
  assumes "0 < k" and "\<And>x. x \<in> set xs \<Longrightarrow> length x = k"
  shows "chunks_exact k (concat xs) = xs"
  using assms(2)
proof (induction xs)
  case Nil
  then show ?case using assms(1) by (subst chunks_exact.simps) simp
next
  case (Cons x xs)
  then show ?case using assms(1) by (subst chunks_exact.simps) simp
qed

section \<open>Files as lists of chunks\<close>

text \<open>A chunk on disk: identifier, size, body, and a pad byte after a body of odd length.\<close>

definition chunk_bytes :: "byte \<Rightarrow> byte list \<times> byte list \<Rightarrow> byte list" where
  "chunk_bytes pad c = fst c @ le_bytes 4 (length (snd c)) @ snd c @ replicate (length (snd c) mod 2) pad"

definition riff_file :: "nat \<Rightarrow> byte \<Rightarrow> (byte list \<times> byte list) list \<Rightarrow> byte list" where
  "riff_file n pad cs = ascii ''RIFF'' @ le_bytes 4 n @ ascii ''WAVE'' @ concat (map (chunk_bytes pad) cs)"

definition chunk_ok :: "byte list \<times> byte list \<Rightarrow> bool" where
  "chunk_ok c \<longleftrightarrow> length (fst c) = 4 \<and> length (snd c) < 2 ^ 32"

text \<open>What a list of chunks means, without positions.\<close>

fun read_chunks ::
  "(byte list \<times> byte list) list \<Rightarrow> wav_format option \<Rightarrow> byte list option \<Rightarrow> wav_error + wav_format option \<times> byte list option" where
  "read_chunks [] fmt data = Inr (fmt, data)"
| "read_chunks ((cid, body) # cs) fmt data =
     (if cid = ascii ''fmt '' then (case read_fmt body of Inl e \<Rightarrow> Inl e | Inr f \<Rightarrow> read_chunks cs (Some f) data)
      else if cid = ascii ''data'' then read_chunks cs fmt (Some body)
      else read_chunks cs fmt data)"

lemma sub_slice_append: "length a = i \<Longrightarrow> length m = n \<Longrightarrow> sub_slice (a @ m @ b) i (i + n) = m"
  by (simp add: sub_slice_def)

lemma length_chunk_bytes: "length (fst c) = 4 \<Longrightarrow> length (chunk_bytes pad c) = 8 + length (snd c) + length (snd c) mod 2"
  by (simp add: chunk_bytes_def)

lemma walk_one:
  assumes "chunk_ok (cid, body)" and b: "bytes = pre @ chunk_bytes pad (cid, body) @ rest"
    and n: "n = length pre + length (chunk_bytes pad (cid, body))"
  shows "walk_chunks bytes (length pre) fmt data =
    (if cid = ascii ''fmt '' then (case read_fmt body of Inl e \<Rightarrow> Inl e | Inr f \<Rightarrow> walk_chunks bytes n (Some f) data)
     else if cid = ascii ''data'' then walk_chunks bytes n fmt (Some body) else walk_chunks bytes n fmt data)"
proof -
  let ?tail = "body @ replicate (length body mod 2) pad @ rest"
  have ok: "length cid = 4" "length body < 2 ^ 32" using assms(1) by (auto simp: chunk_ok_def)
  have bs: "bytes = pre @ cid @ le_bytes 4 (length body) @ ?tail" using b by (simp add: chunk_bytes_def)
  have i: "sub_slice bytes (length pre) (length pre + 4) = cid" unfolding bs by (rule sub_slice_append) (use ok in simp_all)
  have "sub_slice bytes (length pre + 4) (length pre + 4 + 4) = le_bytes 4 (length body)"
    using sub_slice_append [of "pre @ cid" "length pre + 4" "le_bytes 4 (length body)" 4 ?tail] ok unfolding bs by simp
  then have r: "read_u32 bytes (length pre + 4) = Inr (of_nat (length body))"
    using ok by (simp add: read_u32_def le_nat_bytes) (simp add: bs ok)
  have u: "unat (of_nat (length body) :: 32 word) = length body" using ok by (simp add: unat_of_nat)
  have l: "length pre + 8 + length body \<le> length bytes" using ok unfolding bs by simp
  have "sub_slice bytes (length pre + 8) (length pre + 8 + length body) = body"
    using sub_slice_append [of "pre @ cid @ le_bytes 4 (length body)" "length pre + 8" body "length body" "replicate (length body mod 2) pad @ rest"] ok
    unfolding bs by simp
  moreover have "n = length pre + (8 + length body + length body mod 2)" using n ok by (simp add: length_chunk_bytes)
  ultimately show ?thesis using l i r u
    by (subst walk_chunks.simps) (simp add: Let_def min_def split: sum.split)
qed

lemma walk_reads_chunks:
  assumes "\<And>c. c \<in> set cs \<Longrightarrow> chunk_ok c"
  shows "walk_chunks (pre @ concat (map (chunk_bytes pad) cs)) (length pre) fmt data = read_chunks cs fmt data"
  using assms
proof (induction cs arbitrary: pre fmt data)
  case Nil
  then show ?case by (subst walk_chunks.simps) simp
next
  case (Cons c cs)
  obtain cid body where c: "c = (cid, body)" by (cases c)
  have ok: "chunk_ok (cid, body)" using Cons.prems c by simp
  define B where "B = pre @ concat (map (chunk_bytes pad) (c # cs))"
  have B: "B = pre @ chunk_bytes pad (cid, body) @ concat (map (chunk_bytes pad) cs)" by (simp add: B_def c)
  have ih: "walk_chunks B (length pre + length (chunk_bytes pad (cid, body))) f d = read_chunks cs f d" for f d
    using Cons.IH [of "pre @ chunk_bytes pad (cid, body)" f d] Cons.prems by (simp add: B)
  have "walk_chunks B (length pre) fmt data = read_chunks (c # cs) fmt data" unfolding c walk_one [OF ok B refl] ih by simp
  then show ?case by (simp only: B_def)
qed

section \<open>Reading back\<close>

definition fmt_body :: "wav_format \<Rightarrow> nat \<Rightarrow> nat \<Rightarrow> byte list \<Rightarrow> byte list" where
  "fmt_body f byte_rate block_align ext =
     le_bytes 2 (unat (audio_format f)) @ le_bytes 2 (unat (fmt_channels f)) @ le_bytes 4 (unat (fmt_rate f)) @
     le_bytes 4 byte_rate @ le_bytes 2 block_align @ le_bytes 2 (unat (bits_per_sample f)) @ ext"

lemma read_fmt_body: "read_fmt (fmt_body f byte_rate block_align ext) = Inr f"
proof -
  let ?b = "fmt_body f byte_rate block_align ext"
  have "sub_slice ?b 0 2 = le_bytes 2 (unat (audio_format f))" "sub_slice ?b 2 4 = le_bytes 2 (unat (fmt_channels f))"
    "sub_slice ?b 4 8 = le_bytes 4 (unat (fmt_rate f))" "sub_slice ?b 14 16 = le_bytes 2 (unat (bits_per_sample f))"
    by (simp_all add: sub_slice_def fmt_body_def)
  moreover have "16 \<le> length ?b" by (simp add: fmt_body_def)
  ultimately show ?thesis by (simp add: read_fmt_def read_u16_def read_u32_def flip: numeral_2_eq_2)
qed

lemma ids_differ: "ascii ''data'' \<noteq> ascii ''fmt ''"
  by (simp add: ascii_def)

lemma read_chunks_skip:
  assumes "\<And>c. c \<in> set xs \<Longrightarrow> fst c \<notin> {ascii ''fmt '', ascii ''data''}"
  shows "read_chunks (xs @ cs) f d = read_chunks cs f d"
  using assms
proof (induction xs)
  case (Cons x xs)
  then have "fst x \<notin> {ascii ''fmt '', ascii ''data''}" "read_chunks (xs @ cs) f d = read_chunks cs f d" by auto
  then show ?case by (cases x) simp
qed simp

lemma decode_pcm16:
  "decode_samples A from_bits (concat (map (\<lambda>s. le_bytes 2 (unat s)) ss)) 16 False =
     Inr (map (\<lambda>s :: 16 word. ar_div A (ar_of_int A (sint s)) (ar_of_int A 32768)) ss)"
proof -
  have "chunks_exact 2 (concat (map (\<lambda>s :: 16 word. le_bytes 2 (unat s)) ss)) = map (\<lambda>s. le_bytes 2 (unat s)) ss"
    by (rule chunks_exact_concat) auto
  then show ?thesis by (simp add: decode_samples_def comp_def)
qed

lemma parse_riff:
  assumes "\<And>c. c \<in> set cs \<Longrightarrow> chunk_ok c" and "read_chunks cs None None = Inr (Some f, Some data)"
    and "fmt_channels f \<noteq> 0" and "audio_format f = 1 \<or> audio_format f = 0xFFFE"
    and "decode_samples A from_bits data (bits_per_sample f) False = Inr xs"
  shows "parse_wav A from_bits (riff_file n pad cs) =
    Inr \<lparr>wv_rate = fmt_rate f, wv_channels = fmt_channels f, wv_samples = downmix_to_mono A xs (fmt_channels f)\<rparr>"
proof -
  define pre where "pre = ascii ''RIFF'' @ le_bytes 4 n @ ascii ''WAVE''"
  have l: "length pre = 12" by (simp add: pre_def)
  have f: "riff_file n pad cs = pre @ concat (map (chunk_bytes pad) cs)" by (simp add: riff_file_def pre_def)
  have "sub_slice (riff_file n pad cs) 0 4 = ascii ''RIFF''" "sub_slice (riff_file n pad cs) 8 12 = ascii ''WAVE''"
    by (simp_all add: sub_slice_def riff_file_def)
  moreover have "walk_chunks (riff_file n pad cs) 12 None None = Inr (Some f, Some data)"
    using walk_reads_chunks [of cs pre pad None None] assms(1) assms(2) l unfolding f by simp
  moreover have "12 \<le> length (riff_file n pad cs)" using l unfolding f by simp
  ultimately show ?thesis using assms(3-5) by (auto simp: parse_wav_def Let_def)
qed

lemma length_pcm16: "length (concat (map (\<lambda>s :: 16 word. le_bytes 2 (unat s)) ss)) = length ss * 2"
  by (induction ss) auto

definition pcm16_chunks ::
  "(byte list \<times> byte list) list \<Rightarrow> (byte list \<times> byte list) list \<Rightarrow> (byte list \<times> byte list) list \<Rightarrow> 32 word \<Rightarrow> nat \<Rightarrow> nat \<Rightarrow>
     byte list \<Rightarrow> 16 word list \<Rightarrow> (byte list \<times> byte list) list" where
  "pcm16_chunks before between behind rate byte_rate block_align ext ss =
     before @ (ascii ''fmt '', fmt_body \<lparr>audio_format = 1, fmt_channels = 1, fmt_rate = rate, bits_per_sample = 16\<rparr> byte_rate block_align ext) #
     between @ (ascii ''data'', concat (map (\<lambda>s. le_bytes 2 (unat s)) ss)) # behind"

definition pcm16_wav :: "'f arith \<Rightarrow> 32 word \<Rightarrow> 16 word list \<Rightarrow> 'f wav_data" where
  "pcm16_wav A rate ss = \<lparr>wv_rate = rate, wv_channels = 1,
     wv_samples = map (\<lambda>s. ar_div A (ar_of_int A (sint s)) (ar_of_int A 32768)) ss\<rparr>"

lemma parse_pcm16_chunks:
  assumes "length ss * 2 < 2 ^ 32" and "length ext < 2 ^ 31"
    and skip: "\<forall>x \<in> set (before @ between @ behind). chunk_ok x \<and> fst x \<notin> {ascii ''fmt '', ascii ''data''}"
  shows "parse_wav A from_bits (riff_file n pad (pcm16_chunks before between behind rate byte_rate block_align ext ss)) = Inr (pcm16_wav A rate ss)"
proof -
  let ?f = "\<lparr>audio_format = 1, fmt_channels = 1, fmt_rate = rate, bits_per_sample = 16\<rparr>"
  let ?cs = "pcm16_chunks before between behind rate byte_rate block_align ext ss"
  have ok: "chunk_ok x" if "x \<in> set ?cs" for x
    using that assms length_pcm16 by (auto simp: pcm16_chunks_def chunk_ok_def fmt_body_def)
  have rd: "read_chunks ?cs None None = Inr (Some ?f, Some (concat (map (\<lambda>s. le_bytes 2 (unat s)) ss)))"
    using skip read_chunks_skip [of behind "[]"] by (simp add: pcm16_chunks_def read_chunks_skip read_fmt_body ids_differ)
  have "decode_samples A from_bits (concat (map (\<lambda>s. le_bytes 2 (unat s)) ss)) (bits_per_sample ?f) False = Inr (wv_samples (pcm16_wav A rate ss))"
    by (simp add: pcm16_wav_def decode_pcm16)
  from parse_riff [OF ok rd _ _ this, of n pad] show ?thesis by (simp add: pcm16_wav_def downmix_to_mono_def)
qed

lemma parse_pcm16:
  assumes "length ss * 2 < 2 ^ 32"
  shows "parse_wav A from_bits (write_pcm16_mono rate ss) = Inr (pcm16_wav A rate ss)"
proof -
  have u: "unat (of_nat (length ss * 2) :: 32 word) = length ss * 2"
    using assms by (simp add: unat_of_nat del: of_nat_mult)
  have "write_pcm16_mono rate ss =
      riff_file (unat (36 + of_nat (length ss * 2) :: 32 word)) 0 (pcm16_chunks [] [] [] rate (unat (rate * 2)) 2 [] ss)"
    using u length_pcm16 [of ss]
    by (simp add: write_pcm16_mono_def riff_file_def pcm16_chunks_def chunk_bytes_def fmt_body_def Let_def del: of_nat_mult)
  then show ?thesis using parse_pcm16_chunks [OF assms, of "[]" "[]" "[]" "[]"] by simp
qed

text \<open>
  C32: what was written is what is read. A file of 16-bit mono samples is read back with its rate and the samples
  as signed numbers over \<open>32768\<close>, also when other chunks, of odd or even length, stand before, between
  and behind the format and the data, and when the format chunk carries an extension. The files that \<open>write_pcm16_mono\<close>
  writes are read back too.
\<close>

theorem wav_roundtrip:
  assumes "length ss * 2 < 2 ^ 32" and "length ext < 2 ^ 31"
    and "\<forall>c \<in> set (before @ between @ behind). chunk_ok c \<and> fst c \<notin> {ascii ''fmt '', ascii ''data''}"
    and "file = riff_file n pad (pcm16_chunks before between behind rate byte_rate block_align ext ss)"
    and "wav = \<lparr>wv_rate = rate, wv_channels = 1,
      wv_samples = map (\<lambda>s :: 16 word. ar_div A (ar_of_int A (sint s)) (ar_of_int A 32768)) ss\<rparr>"
  shows "parse_wav A from_bits file = Inr wav \<and> parse_wav A from_bits (write_pcm16_mono rate ss) = Inr wav"
  unfolding assms(4,5) pcm16_wav_def [symmetric] by (intro conjI parse_pcm16_chunks parse_pcm16 assms(1-3))

text \<open>No input makes the reader produce more samples than it was given bytes, or a file without channels.\<close>

lemma length_chunks_exact: "length (chunks_exact k xs) \<le> length xs"
proof (induction k xs rule: chunks_exact.induct)
  case (1 k xs)
  show ?case
  proof (cases "k = 0 \<or> length xs < k")
    case False
    then have "length (chunks_exact k (drop k xs)) \<le> length (drop k xs)" using 1 by simp
    then show ?thesis using False by (subst chunks_exact.simps) (simp, linarith)
  qed (subst chunks_exact.simps, simp)
qed

lemma length_decode: "decode_samples A from_bits data bits is_float = Inr xs \<Longrightarrow> length xs \<le> length data"
  using length_chunks_exact [of _ data] by (auto simp: decode_samples_def split: if_splits)

lemma walk_data_bounded:
  "walk_chunks bytes pos fmt data = Inr (fmt', Some d) \<Longrightarrow> (\<And>x. data = Some x \<Longrightarrow> length x \<le> length bytes) \<Longrightarrow> length d \<le> length bytes"
proof (induction bytes pos fmt data rule: walk_chunks.induct)
  case (1 bytes pos fmt data)
  have b: "length (sub_slice bytes i j) \<le> length bytes" for i j by (simp add: sub_slice_def)
  show ?case using 1 b
    by (subst (asm) (4) walk_chunks.simps) (auto simp: Let_def split: if_splits sum.splits)
qed

theorem wav_roundtrip_witness:
  "let file = riff_file 60 0 (pcm16_chunks [(ascii ''LIST'', [7])] [] [] 16000 32000 2 [] [0x8000, 0x7FFF])
   in parse_wav real_arith (\<lambda>_. 0) file = Inr \<lparr>wv_rate = 16000, wv_channels = 1, wv_samples = [- 1, 32767 / 32768]\<rparr>"
proof -
  have a: "\<forall>c \<in> set ([(ascii ''LIST'', [7])] @ [] @ []). chunk_ok c \<and> fst c \<notin> {ascii ''fmt '', ascii ''data''}"
    by (simp add: chunk_ok_def) (simp add: ascii_def)
  show ?thesis using wav_roundtrip [OF _ _ a refl refl, of "[0x8000, 0x7FFF]" "[]" real_arith "\<lambda>_. 0" 60 0 16000 32000 2]
    by (simp add: Let_def real_arith_def)
qed

end
