(* ===== verification/Scribe_Voices.thy ===== *)
theory Scribe_Voices
  imports Scribe_Wav
begin

text \<open>
  From audio to fragments and back, the rest of \<open>crates/scribe-asr/src/real/diarize.rs\<close>: turns are split at
  silence, every piece is embedded within the limits of the model, the pieces are clustered, and turns and
  voices are handed out per speaker. The segmentation model (\<open>process\<close>) and the embedding
  extractor (\<open>extractor\<close>: no stream, not ready or no result is \<open>None\<close>) are parameters. A model that cannot be built,
  a file that cannot be read as sound and a fragment cache that cannot be read or written end the diarization with
  their error; a sample rate of zero ends it with the panic of a division by zero.
\<close>

section \<open>Settings\<close>

record 'f voice_tuning =
  vt_split_silence_ms :: int
  vt_min_piece_ms :: int
  vt_floor_alpha :: 'f
  vt_silence_ratio :: 'f
  vt_speech_percentile :: 'f
  vt_window_ms :: int

definition MIN_SPLIT_SILENCE_MS_DEFAULT :: int where "MIN_SPLIT_SILENCE_MS_DEFAULT = 160"
definition MIN_PIECE_MS :: int where "MIN_PIECE_MS = 400"
definition FLOOR_ALPHA :: f32 where "FLOOR_ALPHA = 0x3EB33333"
definition SILENCE_RATIO_DEFAULT :: f32 where "SILENCE_RATIO_DEFAULT = 0x3E19999A"
definition SPEECH_PERCENTILE :: f32 where "SPEECH_PERCENTILE = 0x3F59999A"
definition DIARIZE_WINDOW_MS :: int where "DIARIZE_WINDOW_MS = 10 * 60 * 1000"
definition SILENCE_FRAME_MS :: int where "SILENCE_FRAME_MS = 20"
definition MAX_EMBED_MS :: int where "MAX_EMBED_MS = 30000"
definition EMBED_BUDGET_MS :: int where "EMBED_BUDGET_MS = 60000"

definition default_voice_tuning :: "f32 voice_tuning" where
  "default_voice_tuning = \<lparr>vt_split_silence_ms = MIN_SPLIT_SILENCE_MS_DEFAULT, vt_min_piece_ms = MIN_PIECE_MS,
     vt_floor_alpha = FLOOR_ALPHA, vt_silence_ratio = SILENCE_RATIO_DEFAULT, vt_speech_percentile = SPEECH_PERCENTILE,
     vt_window_ms = DIARIZE_WINDOW_MS\<rparr>"

text \<open>\<open>as usize\<close> of an \<open>i64\<close>.\<close>

definition as_usize :: "int \<Rightarrow> nat" where
  "as_usize x = nat (x mod 2 ^ 64)"

text \<open>The samples a turn spans; \<open>n\<close> is the number of samples there are.\<close>

definition turn_span :: "nat \<Rightarrow> int \<Rightarrow> turn_artifact \<Rightarrow> nat \<times> nat" where
  "turn_span n sr t =
     (as_usize (quot (max (t_start_ms t) 0 * sr) 1000),
      min (as_usize (quot (max (t_end_ms t) (t_start_ms t) * sr) 1000)) n)"

section \<open>Splitting at silence\<close>

text \<open>\<open>slice::chunks\<close>.\<close>

function chunks_of :: "nat \<Rightarrow> 'a list \<Rightarrow> 'a list list" where
  "chunks_of k xs = (if xs = [] \<or> k = 0 then [] else take k xs # chunks_of k (drop k xs))"
  by pat_completeness auto
termination by (relation "measure (\<lambda>(k, xs). length xs)") auto

declare chunks_of.simps [simp del]

definition frame_energy :: "'f arith \<Rightarrow> 'f list \<Rightarrow> 'f" where
  "frame_energy A c =
     ar_sqrt A (ar_div A (ar_sum A (map (\<lambda>x. ar_mul A x x) c)) (ar_of_int A (int (length c))))"

definition silence_threshold :: "'f arith \<Rightarrow> 'f voice_tuning \<Rightarrow> 'f list \<Rightarrow> 'f" where
  "silence_threshold A vt energies =
     (let mean = ar_div A (ar_sum A energies) (ar_of_int A (int (length energies)));
          sorted = sort_by (\<lambda>a b. ar_lt A b a) energies;
          floor_level = sorted ! 0;
          speech = sorted ! ar_to_nat A (ar_mul A (ar_of_int A (int (length sorted - 1))) (vt_speech_percentile vt));
          adaptive = (if ar_lt A (ar_zero A) floor_level \<and> ar_lt A floor_level speech
                      then ar_mul A floor_level (ar_pow A (ar_div A speech floor_level) (vt_floor_alpha vt)) else ar_zero A)
      in ar_max A (ar_mul A mean (vt_silence_ratio vt)) adaptive)"

text \<open>
  The scan for runs of quiet frames: \<open>i\<close> is the frame, \<open>run\<close> where the current run began. The last
  turn of the loop is past the end and never quiet.
\<close>

fun quiet_cuts :: "nat \<Rightarrow> nat \<Rightarrow> nat option \<Rightarrow> bool list \<Rightarrow> nat list" where
  "quiet_cuts min_run i run [] = []"
| "quiet_cuts min_run i run (q # qs) =
     (case (q, run) of
        (True, None) \<Rightarrow> quiet_cuts min_run (i + 1) (Some i) qs
      | (False, Some from) \<Rightarrow>
          (if i - from \<ge> min_run then [from + (i - from) div 2] else []) @ quiet_cuts min_run (i + 1) None qs
      | _ \<Rightarrow> quiet_cuts min_run (i + 1) run qs)"

fun keep_cuts :: "int \<Rightarrow> int \<Rightarrow> int list \<Rightarrow> int list" where
  "keep_cuts min_piece prev [] = []"
| "keep_cuts min_piece prev (c # cs) =
     (if c - prev \<ge> min_piece then c # keep_cuts min_piece c cs else keep_cuts min_piece prev cs)"

definition drop_sliver :: "int \<Rightarrow> int \<Rightarrow> int list \<Rightarrow> int list" where
  "drop_sliver min_piece end_ms kept = rev (dropWhile (\<lambda>c. end_ms - c < min_piece) (rev kept))"

fun pieces_between :: "int \<Rightarrow> int \<Rightarrow> int list \<Rightarrow> (int \<times> int) list" where
  "pieces_between s e [] = (if e > s then [(s, e)] else [])"
| "pieces_between s e (c # cs) = (if c > s then (s, c) # pieces_between c e cs else pieces_between s e cs)"

definition turn_pieces :: "'f arith \<Rightarrow> 'f voice_tuning \<Rightarrow> 'f list \<Rightarrow> int \<Rightarrow> turn_artifact \<Rightarrow> (int \<times> int) list" where
  "turn_pieces A vt samples sr t =
     (let frame = as_usize (max (quot (SILENCE_FRAME_MS * sr) 1000) 1);
          min_run = as_usize (max (quot (vt_split_silence_ms vt) SILENCE_FRAME_MS) 1);
          (start, stop) = turn_span (length samples) sr t
      in if stop \<le> start \<or> stop - start < frame * 2 then pieces_between (t_start_ms t) (t_end_ms t) []
         else let energies = map (frame_energy A) (chunks_of frame (take (stop - start) (drop start samples)));
                  threshold = silence_threshold A vt energies;
                  cuts = map (\<lambda>m. t_start_ms t + int m * SILENCE_FRAME_MS)
                    (quiet_cuts min_run 0 None (map (\<lambda>e. ar_le A e threshold) energies @ [False]))
              in pieces_between (t_start_ms t) (t_end_ms t)
                   (drop_sliver (vt_min_piece_ms vt) (t_end_ms t) (keep_cuts (vt_min_piece_ms vt) (t_start_ms t) cuts)))"

definition split_turns_at_silence ::
  "'f arith \<Rightarrow> 'f voice_tuning \<Rightarrow> turn_artifact list \<Rightarrow> 'f list \<Rightarrow> int \<Rightarrow> turn_artifact list" where
  "split_turns_at_silence A vt turns samples sr =
     map (\<lambda>(i, s, e). \<lparr>t_local_idx = int i, t_start_ms = s, t_end_ms = e\<rparr>)
       (enumerate 0 (concat (map (turn_pieces A vt samples sr) turns)))"

section \<open>Embedding\<close>

definition split_evenly :: "nat \<Rightarrow> nat \<Rightarrow> nat \<Rightarrow> (nat \<times> nat) list" where
  "split_evenly start stop max_len =
     (if stop \<le> start \<or> max_len = 0 then [(start, stop)]
      else let len = stop - start; pieces = (len + max_len - 1) div max_len
           in map (\<lambda>i. (start + len * i div pieces, start + len * (i + 1) div pieces)) [0..<pieces])"

text \<open>The slices of a turn that are handed to the extractor: its middle, in equal pieces.\<close>

definition embed_slices :: "nat \<Rightarrow> int \<Rightarrow> turn_artifact \<Rightarrow> (nat \<times> nat) list" where
  "embed_slices n sr t =
     (let (start, stop) = turn_span n sr t in
      if stop \<le> start then []
      else let budget = as_usize (quot (EMBED_BUDGET_MS * sr) 1000);
               centre = start + (stop - start) div 2;
               (start, stop) = (if stop - start > budget then (centre - budget div 2, centre + budget div 2) else (start, stop));
               max_len = as_usize (quot (MAX_EMBED_MS * sr) 1000)
           in filter (\<lambda>(from, to). \<not> to \<le> from) (split_evenly start stop max_len))"

fun embed_turn_slices ::
  "'f arith \<Rightarrow> ('f list \<Rightarrow> 'f list option) \<Rightarrow> 'f list \<Rightarrow> int \<Rightarrow> int \<Rightarrow> (nat \<times> nat) list \<Rightarrow>
     (int \<rightharpoonup> 'f list \<times> 'f) \<Rightarrow> (int \<rightharpoonup> 'f list \<times> 'f)" where
  "embed_turn_slices A extractor samples sr idx [] acc = acc"
| "embed_turn_slices A extractor samples sr idx ((from, to) # ss) acc =
     embed_turn_slices A extractor samples sr idx ss
       (case extractor (take (to - from) (drop from samples)) of
          None \<Rightarrow> acc
        | Some emb \<Rightarrow> add_voice A idx emb (ar_div A (ar_of_int A (int (to - from))) (ar_of_int A sr)) acc)"

definition compute_speaker_embeddings ::
  "'f arith \<Rightarrow> ('f list \<Rightarrow> 'f list option) \<Rightarrow> 'f list \<Rightarrow> int \<Rightarrow> turn_artifact list \<Rightarrow> (int \<rightharpoonup> 'f list)" where
  "compute_speaker_embeddings A extractor samples sr turns =
     (let acc = fold (\<lambda>t. embed_turn_slices A extractor samples sr (t_local_idx t) (embed_slices (length samples) sr t)) turns Map.empty
      in (\<lambda>idx. case acc idx of
            None \<Rightarrow> None
          | Some (v, w) \<Rightarrow> if ar_le A w (ar_zero A) then None else Some (l2_normalize A (map (\<lambda>x. ar_div A x w) v))))"

section \<open>Windows\<close>

function window_spans :: "nat \<Rightarrow> nat \<Rightarrow> nat \<Rightarrow> (nat \<times> nat) list" where
  "window_spans w start n =
     (if start < n \<and> 0 < w then (start, min (start + w) n) # window_spans w (min (start + w) n) n else [])"
  by pat_completeness auto
termination by (relation "measure (\<lambda>(w, start, n). n - start)") auto

declare window_spans.simps [simp del]

definition diarize_window :: "'f voice_tuning \<Rightarrow> int \<Rightarrow> nat \<Rightarrow> nat" where
  "diarize_window vt sr n =
     (let w = as_usize (quot (vt_window_ms vt * sr) 1000) in if w = 0 then max n 1 else w)"

definition window_fragments ::
  "'f arith \<Rightarrow> 'f voice_tuning \<Rightarrow> ('f list \<Rightarrow> turn_artifact list option) \<Rightarrow> ('f list \<Rightarrow> 'f list option) \<Rightarrow>
     'f list \<Rightarrow> int \<Rightarrow> nat \<times> nat \<Rightarrow> 'f fragment list" where
  "window_fragments A vt process extractor samples sr sp =
     (let slice = take (snd sp - fst sp) (drop (fst sp) samples);
          offset_ms = quot (int (fst sp) * 1000) sr
      in case process slice of
           None \<Rightarrow> []
         | Some local_turns \<Rightarrow>
             if local_turns = [] then []
             else let pieces = split_turns_at_silence A vt local_turns slice sr;
                      embs = compute_speaker_embeddings A extractor slice sr pieces
                  in map (\<lambda>p. \<lparr>fr_turns = [p\<lparr>t_start_ms := t_start_ms p + offset_ms, t_end_ms := t_end_ms p + offset_ms\<rparr>],
                               fr_embedding = embs (t_local_idx p), fr_speech_ms = max (t_end_ms p - t_start_ms p) 0\<rparr>) pieces)"

record 'f voices =
  vc_turns :: "turn_artifact list"
  vc_embeddings :: "int \<rightharpoonup> 'f list"
  vc_num_speakers :: nat

text \<open>
  Pass 3: the turns under their speaker, and one mean voice per speaker. The speakers are \<open>i32\<close>s that are
  never negative, so the cast of the highest to \<open>usize\<close> is \<open>nat\<close>.
\<close>

definition speaker_turns :: "'f fragment list \<Rightarrow> int list \<Rightarrow> turn_artifact list" where
  "speaker_turns fs assignment =
     sort_key t_start_ms (sort_key t_end_ms
       (concat (map (\<lambda>(f, c). map (\<lambda>t. t\<lparr>t_local_idx := c\<rparr>) (fr_turns f)) (zip fs assignment))))"

definition speaker_voices :: "'f arith \<Rightarrow> 'f fragment list \<Rightarrow> int list \<Rightarrow> (int \<rightharpoonup> 'f list)" where
  "speaker_voices A fs assignment =
     (let acc = sum_voices A assignment (zip fs assignment) Map.empty
      in (\<lambda>c. case acc c of
            None \<Rightarrow> None
          | Some (v, w) \<Rightarrow> if ar_le A w (ar_zero A) then None else Some (l2_normalize A (map (\<lambda>x. ar_div A x w) v))))"

definition settle_speakers ::
  "'f arith \<Rightarrow> 'f tuning \<Rightarrow> (int list \<Rightarrow> int list) \<Rightarrow> 'f fragment list \<Rightarrow> int option \<Rightarrow> 'f voices" where
  "settle_speakers A tn hash_order fs expected =
     (if fs = [] then \<lparr>vc_turns = [], vc_embeddings = Map.empty, vc_num_speakers = 0\<rparr>
      else let assignment = cluster_fragments A tn hash_order fs expected
           in \<lparr>vc_turns = speaker_turns fs assignment, vc_embeddings = speaker_voices A fs assignment,
               vc_num_speakers = (if assignment = [] then 0 else nat (Max (set assignment)) + 1)\<rparr>)"

section \<open>The fragment cache\<close>

record 'f cached_fragment =
  cf_turns :: "(int \<times> int \<times> int) list"
  cf_embedding :: "'f list option"
  cf_speech_ms :: int

definition save_fragments :: "('f cached_fragment list \<Rightarrow> rstr option) \<Rightarrow> bool \<Rightarrow> 'f fragment list \<Rightarrow> rstr res" where
  "save_fragments to_json can_write fragments =
     (case to_json (map (\<lambda>f. \<lparr>cf_turns = map (\<lambda>t. (t_local_idx t, t_start_ms t, t_end_ms t)) (fr_turns f),
                             cf_embedding = fr_embedding f, cf_speech_ms = fr_speech_ms f\<rparr>) fragments) of
        None \<Rightarrow> Inl Internal
      | Some json \<Rightarrow> if can_write then Inr json else Inl Io)"

definition load_fragments :: "(rstr \<Rightarrow> 'f cached_fragment list option) \<Rightarrow> rstr option \<Rightarrow> 'f fragment list res" where
  "load_fragments of_json contents =
     (case contents of
        None \<Rightarrow> Inl Io
      | Some s \<Rightarrow> (case of_json s of
          None \<Rightarrow> Inl Internal
        | Some cached \<Rightarrow> Inr (map (\<lambda>c. \<lparr>fr_turns = map (\<lambda>(i, s, e). \<lparr>t_local_idx = i, t_start_ms = s, t_end_ms = e\<rparr>) (cf_turns c),
              fr_embedding = cf_embedding c, fr_speech_ms = cf_speech_ms c\<rparr>) cached)))"

lemma fragments_roundtrip:
  assumes "save_fragments to_json can_write fs = Inr json" and "\<And>v t. to_json v = Some t \<Longrightarrow> of_json t = Some v"
  shows "load_fragments of_json (Some json) = Inr fs"
proof -
  have "map (\<lambda>(i, s, e). \<lparr>t_local_idx = i, t_start_ms = s, t_end_ms = e\<rparr>) (map (\<lambda>t. (t_local_idx t, t_start_ms t, t_end_ms t)) ts) = ts"
    for ts by (induction ts) simp_all
  then have frag: "map (\<lambda>c. \<lparr>fr_turns = map (\<lambda>(i, s, e). \<lparr>t_local_idx = i, t_start_ms = s, t_end_ms = e\<rparr>) (cf_turns c),
        fr_embedding = cf_embedding c, fr_speech_ms = cf_speech_ms c\<rparr>)
      (map (\<lambda>f. \<lparr>cf_turns = map (\<lambda>t. (t_local_idx t, t_start_ms t, t_end_ms t)) (fr_turns f),
        cf_embedding = fr_embedding f, cf_speech_ms = fr_speech_ms f\<rparr>) fs) = fs"
    by (induction fs) simp_all
  then show ?thesis using assms
    by (auto simp: save_fragments_def load_fragments_def split: option.splits if_splits)
qed

text \<open>
  \<open>SCRIBE_DIARIZE_FRAGMENTS\<close>: whether the file it names is there, what reading it gives, the two directions
  of \<open>serde_json\<close> and whether it can be written. No cache is named unless somebody experiments.
\<close>

record 'f fragment_cache =
  fc_exists :: bool
  fc_contents :: "rstr option"
  fc_of_json :: "rstr \<Rightarrow> 'f cached_fragment list option"
  fc_to_json :: "'f cached_fragment list \<Rightarrow> rstr option"
  fc_can_write :: bool

definition cached_fragments :: "'f fragment_cache option \<Rightarrow> 'f fragment list option res" where
  "cached_fragments cache =
     (case cache of
        None \<Rightarrow> Inr None
      | Some c \<Rightarrow>
          if fc_exists c
          then (case load_fragments (fc_of_json c) (fc_contents c) of Inl e \<Rightarrow> Inl e | Inr fs \<Rightarrow> Inr (Some fs))
          else Inr None)"

definition keep_fragments :: "'f fragment_cache option \<Rightarrow> 'f fragment list \<Rightarrow> unit res" where
  "keep_fragments cache fs =
     (case cache of
        None \<Rightarrow> Inr ()
      | Some c \<Rightarrow>
          if fc_exists c then Inr ()
          else (case save_fragments (fc_to_json c) (fc_can_write c) fs of Inl e \<Rightarrow> Inl e | Inr json \<Rightarrow> Inr ()))"

section \<open>Diarization\<close>

text \<open>
  What \<open>build_diarizer\<close> and \<open>build_extractor\<close> answer is \<open>diarizer\<close> and \<open>extractor\<close>: an error, or the model.
  The answer of \<open>diarize_windowed\<close> is an error, the voices, or \<open>Inr None\<close> for the panic: the division by the
  sample rate in the first turn of the loop, which the reader of the file does not rule out.
\<close>

definition diarize_windowed ::
  "'f arith \<Rightarrow> 'f tuning \<Rightarrow> 'f voice_tuning \<Rightarrow> (int list \<Rightarrow> int list) \<Rightarrow> ('f list \<Rightarrow> turn_artifact list option) res \<Rightarrow>
     ('f list \<Rightarrow> 'f list option) res \<Rightarrow> 'f fragment_cache option \<Rightarrow> 'f wav_data \<Rightarrow> int option \<Rightarrow> 'f voices option res" where
  "diarize_windowed A tn vt hash_order diarizer extractor cache audio expected =
     (case diarizer of
        Inl e \<Rightarrow> Inl e
      | Inr process \<Rightarrow> (case extractor of
          Inl e \<Rightarrow> Inl e
        | Inr ex \<Rightarrow> (case cached_fragments cache of
            Inl e \<Rightarrow> Inl e
          | Inr cached \<Rightarrow>
              let sr = uint (wv_rate audio); samples = wv_samples audio;
                  spans = (if cached = None then window_spans (diarize_window vt sr (length samples)) 0 (length samples) else [])
              in if spans \<noteq> [] \<and> sr = 0 then Inr None
                 else let fs = (case cached of Some fs \<Rightarrow> fs
                             | None \<Rightarrow> concat (map (window_fragments A vt process ex samples sr) spans))
                      in case keep_fragments cache fs of
                           Inl e \<Rightarrow> Inl e
                         | Inr u \<Rightarrow> Inr (Some (settle_speakers A tn hash_order fs expected)))))"

definition single_turns :: "'f arith \<Rightarrow> 'f voice_tuning \<Rightarrow> 'f wav_data \<Rightarrow> turn_artifact list" where
  "single_turns A vt audio =
     (let whole = \<lparr>t_local_idx = 0, t_start_ms = 0, t_end_ms = duration_ms audio\<rparr>;
          turns = map (\<lambda>t. t\<lparr>t_local_idx := 0\<rparr>) (split_turns_at_silence A vt [whole] (wv_samples audio) (uint (wv_rate audio)))
      in if turns = [] then [whole] else turns)"

definition single_speaker ::
  "'f arith \<Rightarrow> 'f voice_tuning \<Rightarrow> ('f list \<Rightarrow> 'f list option) res \<Rightarrow> 'f wav_data \<Rightarrow> 'f voices option res" where
  "single_speaker A vt extractor audio =
     (let turns = single_turns A vt audio
      in case extractor of
           Inl e \<Rightarrow> Inl e
         | Inr ex \<Rightarrow> Inr (Some \<lparr>vc_turns = turns,
             vc_embeddings = compute_speaker_embeddings A ex (wv_samples audio) (uint (wv_rate audio)) turns, vc_num_speakers = 1\<rparr>))"

definition diarize_audio ::
  "'f arith \<Rightarrow> (32 word \<Rightarrow> 'f) \<Rightarrow> 'f tuning \<Rightarrow> 'f voice_tuning \<Rightarrow> (int list \<Rightarrow> int list) \<Rightarrow>
     ('f list \<Rightarrow> turn_artifact list option) res \<Rightarrow> ('f list \<Rightarrow> 'f list option) res \<Rightarrow> 'f fragment_cache option \<Rightarrow>
     byte list option \<Rightarrow> int option \<Rightarrow> 'f voices option res" where
  "diarize_audio A from_bits tn vt hash_order diarizer extractor cache bytes expected =
     (case read_wav A from_bits bytes of
        Inl e \<Rightarrow> Inl e
      | Inr audio \<Rightarrow>
          if expected = Some 1 then single_speaker A vt extractor audio
          else diarize_windowed A tn vt hash_order diarizer extractor cache audio expected)"

section \<open>Every turn is cut into pieces that cover it\<close>

fun tiles :: "'a::linorder \<Rightarrow> 'a \<Rightarrow> ('a \<times> 'a) list \<Rightarrow> bool" where
  "tiles s e [] = (s = e)"
| "tiles s e ((a, b) # ps) = (a = s \<and> a < b \<and> tiles b e ps)"

text \<open>Cuts from \<open>s\<close> on that are at least \<open>m\<close> apart, the last at least \<open>m\<close> before \<open>e\<close>.\<close>

fun spaced :: "int \<Rightarrow> int \<Rightarrow> int \<Rightarrow> int list \<Rightarrow> bool" where
  "spaced m s e [] = True"
| "spaced m s e (c # cs) = (s + m \<le> c \<and> c + m \<le> e \<and> spaced m c e cs)"

lemma spaced_append: "spaced m s e (xs @ ys) \<Longrightarrow> spaced m s e xs"
  by (induction xs arbitrary: s) auto

lemma keep_cuts_gaps:
  assumes "0 \<le> m" and "\<forall>c \<in> set (keep_cuts m s cs). c + m \<le> e"
  shows "spaced m s e (keep_cuts m s cs)"
  using assms by (induction cs arbitrary: s) auto

lemma keep_cuts_sorted: "0 \<le> m \<Longrightarrow> sorted (s # keep_cuts m s cs)"
proof (induction cs arbitrary: s)
  case (Cons c cs)
  from Cons.IH [OF Cons.prems, of c] Cons.IH [OF Cons.prems, of s] show ?case using Cons.prems by auto
qed simp

lemma drop_sliver_prefix: "\<exists>ys. xs = drop_sliver m e xs @ ys"
  unfolding drop_sliver_def by (metis rev_append rev_rev_ident takeWhile_dropWhile_id)

lemma drop_sliver_last:
  assumes "drop_sliver m e xs \<noteq> []"
  shows "last (drop_sliver m e xs) + m \<le> e"
proof -
  have ne: "dropWhile (\<lambda>c. e - c < m) (rev xs) \<noteq> []" using assms by (simp add: drop_sliver_def)
  have "\<not> e - hd (dropWhile (\<lambda>c. e - c < m) (rev xs)) < m" using hd_dropWhile [OF ne] .
  then show ?thesis using ne by (simp add: drop_sliver_def last_rev)
qed

lemma kept_gaps: "spaced m s e' xs \<Longrightarrow> sorted xs \<Longrightarrow> xs = [] \<or> last xs + m \<le> e \<Longrightarrow> spaced m s e xs"
proof (induction xs arbitrary: s)
  case (Cons x xs)
  have "x \<le> last (x # xs)" using Cons.prems(2) by (cases xs) auto
  moreover have "spaced m x e xs" using Cons.prems by (intro Cons.IH) (auto split: if_splits)
  ultimately show ?case using Cons.prems(1,3) by auto
qed simp

lemma cuts_gaps:
  assumes "0 \<le> m"
  shows "spaced m s e (drop_sliver m e (keep_cuts m s cs))"
proof (rule kept_gaps)
  let ?k = "keep_cuts m s cs"
  obtain ys where ys: "?k = drop_sliver m e ?k @ ys" using drop_sliver_prefix by blast
  have srt: "sorted ?k" using keep_cuts_sorted [OF assms, of s cs] by simp
  then show "sorted (drop_sliver m e ?k)" by (metis sorted_append ys)
  have "\<forall>c \<in> set ?k. c + m \<le> Max (set ?k) + m" by simp
  from keep_cuts_gaps [OF assms this] have "spaced m s (Max (set ?k) + m) (drop_sliver m e ?k)" by (metis spaced_append ys)
  then show "spaced m s (Max (set ?k) + m) (drop_sliver m e ?k)" .
  show "drop_sliver m e ?k = [] \<or> last (drop_sliver m e ?k) + m \<le> e" using drop_sliver_last by blast
qed

lemma pieces_between_tile:
  assumes "spaced m s e cs" and "0 \<le> m" and "s \<le> e"
  shows "tiles s e (pieces_between s e cs) \<and> (cs \<noteq> [] \<longrightarrow> (\<forall>p \<in> set (pieces_between s e cs). fst p + m \<le> snd p))"
  using assms
proof (induction cs arbitrary: s)
  case (Cons c cs)
  then have "c \<le> e" "spaced m c e cs" by auto
  from Cons.IH [OF this(2) Cons.prems(2) this(1)]
  have ih: "tiles c e (pieces_between c e cs)" "cs \<noteq> [] \<longrightarrow> (\<forall>p \<in> set (pieces_between c e cs). fst p + m \<le> snd p)" by blast+
  show ?case
  proof (cases "s < c")
    case True
    then show ?thesis using Cons.prems ih by (cases cs) auto
  next
    case False
    then have "c = s" "m = 0" using Cons.prems by auto
    then show ?thesis using Cons.prems ih by (cases cs) auto
  qed
qed auto

lemma tiles_less: "tiles s e ps \<Longrightarrow> ps \<noteq> [] \<Longrightarrow> s < e"
proof (induction ps arbitrary: s)
  case (Cons p ps)
  then show ?case by (cases p; cases "ps = []") (auto intro: less_trans)
qed simp

lemma turn_pieces_tile:
  assumes "0 \<le> vt_min_piece_ms vt" and ps: "ps = turn_pieces A vt samples sr t"
  shows "if t_start_ms t < t_end_ms t
    then tiles (t_start_ms t) (t_end_ms t) ps \<and> (1 < length ps \<longrightarrow> (\<forall>p \<in> set ps. fst p + vt_min_piece_ms vt \<le> snd p))
    else ps = []"
proof -
  obtain cs where cs: "spaced (vt_min_piece_ms vt) (t_start_ms t) (t_end_ms t) cs" "ps = pieces_between (t_start_ms t) (t_end_ms t) cs"
  proof (cases "let (start, stop) = turn_span (length samples) sr t in stop \<le> start \<or> stop - start < as_usize (max (quot (SILENCE_FRAME_MS * sr) 1000) 1) * 2")
    case True
    then show thesis using ps by (intro that [of "[]"]) (auto simp: turn_pieces_def Let_def split: prod.splits)
  next
    case False
    then obtain cs where "ps = pieces_between (t_start_ms t) (t_end_ms t)
        (drop_sliver (vt_min_piece_ms vt) (t_end_ms t) (keep_cuts (vt_min_piece_ms vt) (t_start_ms t) cs))"
      using ps by (auto simp: turn_pieces_def Let_def split: prod.splits)
    then show thesis using that cuts_gaps [OF assms(1)] by blast
  qed
  have one: "length (pieces_between s e []) \<le> 1" for s e by simp
  show ?thesis
  proof (cases "t_start_ms t \<le> t_end_ms t")
    case True
    note pieces_between_tile [OF cs(1) assms(1) True]
    then show ?thesis using tiles_less [of "t_start_ms t" "t_end_ms t" ps] one [of "t_start_ms t" "t_end_ms t"] cs(2)
      by (cases "cs = []") (auto simp del: pieces_between.simps)
  next
    case False
    then show ?thesis using cs assms(1) by (cases cs) auto
  qed
qed

lemma split_idx: "map t_local_idx (split_turns_at_silence A vt turns samples sr) =
    map int [0..<length (split_turns_at_silence A vt turns samples sr)]"
  by (rule nth_equalityI) (auto simp: split_turns_at_silence_def nth_enumerate_eq split: prod.split)

lemma split_spans: "map (\<lambda>t. (t_start_ms t, t_end_ms t)) (split_turns_at_silence A vt turns samples sr) =
    concat (map (turn_pieces A vt samples sr) turns)"
  by (rule nth_equalityI) (auto simp: split_turns_at_silence_def nth_enumerate_eq split: prod.split)

text \<open>
  Splitting at silence loses no speech and invents none. The pieces of a turn follow one another
  without a gap or an overlap from the start of the turn to its end, whatever the samples are, and
  when a turn is cut at all none of its pieces is shorter than the least length of a piece; an empty turn has
  no piece. The pieces come in the order of the turns, each numbered on its own.
\<close>

theorem split_tiles_turns:
  assumes "0 \<le> vt_min_piece_ms vt" and "out = split_turns_at_silence A vt turns samples sr"
  shows "map t_local_idx out = map int [0..<length out] \<and>
    (\<exists>pss. map (\<lambda>t. (t_start_ms t, t_end_ms t)) out = concat pss \<and> length pss = length turns \<and>
      (\<forall>k < length turns. if t_start_ms (turns ! k) < t_end_ms (turns ! k)
         then tiles (t_start_ms (turns ! k)) (t_end_ms (turns ! k)) (pss ! k) \<and>
           (1 < length (pss ! k) \<longrightarrow> (\<forall>p \<in> set (pss ! k). fst p + vt_min_piece_ms vt \<le> snd p))
         else pss ! k = []))"
proof (rule conjI)
  show "map t_local_idx out = map int [0..<length out]" unfolding assms(2) by (rule split_idx)
  let ?pss = "map (turn_pieces A vt samples sr) turns"
  show "\<exists>pss. map (\<lambda>t. (t_start_ms t, t_end_ms t)) out = concat pss \<and> length pss = length turns \<and>
      (\<forall>k < length turns. if t_start_ms (turns ! k) < t_end_ms (turns ! k)
         then tiles (t_start_ms (turns ! k)) (t_end_ms (turns ! k)) (pss ! k) \<and>
           (1 < length (pss ! k) \<longrightarrow> (\<forall>p \<in> set (pss ! k). fst p + vt_min_piece_ms vt \<le> snd p))
         else pss ! k = [])"
    using split_spans [of A vt turns samples sr] turn_pieces_tile [OF assms(1) refl, of _ A samples sr]
    by (intro exI [of _ ?pss]) (simp add: assms(2))
qed

section \<open>What the embedding model is given\<close>

lemma tiles_append: "tiles s m xs \<Longrightarrow> tiles m e ys \<Longrightarrow> tiles s e (xs @ ys)"
  by (induction s m xs rule: tiles.induct) auto

lemma tiles_steps:
  fixes f :: "nat \<Rightarrow> 'a::linorder"
  assumes "\<And>i. f i \<le> f (Suc i)"
  shows "tiles (f 0) (f k) (filter (\<lambda>(from, to). \<not> to \<le> from) (map (\<lambda>i. (f i, f (Suc i))) [0..<k]))"
proof (induction k)
  case (Suc k)
  have "tiles (f k) (f (Suc k)) (filter (\<lambda>(from, to). \<not> to \<le> from) [(f k, f (Suc k))])"
    using assms [of k] by auto
  from tiles_append [OF Suc this] show ?case by simp
qed simp

lemma even_step:
  fixes a len p :: nat
  assumes "0 < p"
  shows "a div p + len div p \<le> (a + len) div p" "(a + len) div p \<le> a div p + len div p + 1"
proof -
  have e: "(a + len) div p = a div p + len div p + (a mod p + len mod p) div p" by (rule div_add1_eq)
  have "(a mod p + len mod p) div p \<le> 1" using assms mod_less_divisor [of p a] mod_less_divisor [of p len]
    by (metis add_less_mono less_Suc_eq_le div_less_iff_less_mult mult_2 One_nat_def numeral_2_eq_2 mult.commute)
  then show "a div p + len div p \<le> (a + len) div p" "(a + len) div p \<le> a div p + len div p + 1" using e by simp_all
qed

lemma ceil_div: "0 < m \<Longrightarrow> (len::nat) \<le> (len + m - 1) div m * m"
proof -
  assume "0 < m"
  have "(len + m - 1) mod m < m" using \<open>0 < m\<close> by simp
  moreover have "(len + m - 1) div m * m + (len + m - 1) mod m = len + m - 1" by (rule div_mult_mod_eq)
  ultimately show ?thesis using \<open>0 < m\<close> by linarith
qed

text \<open>\<open>split_evenly\<close>: consecutive ranges of at most \<open>max_len\<close>, as equal as the range divides.\<close>

lemma split_evenly_ranges:
  assumes "start < stop" and "0 < max_len" and ss: "ss = filter (\<lambda>(from, to). \<not> to \<le> from) (split_evenly start stop max_len)"
  shows "tiles start stop ss" "\<And>p. p \<in> set ss \<Longrightarrow> snd p - fst p \<le> max_len"
    "\<And>p q. p \<in> set ss \<Longrightarrow> q \<in> set ss \<Longrightarrow> snd p - fst p \<le> snd q - fst q + 1" "length ss \<le> (stop - start + max_len - 1) div max_len"
proof -
  define len pc where "len = stop - start" and "pc = (len + max_len - 1) div max_len"
  define f where "f i = start + len * i div pc" for i
  have up: "len \<le> pc * max_len" unfolding pc_def using ceil_div [OF assms(2)] .
  have pos: "0 < pc" "0 < len" using up assms(1) len_def by (cases pc; simp)+
  have e: "split_evenly start stop max_len = map (\<lambda>i. (f i, f (Suc i))) [0..<pc]"
    using assms(1,2) by (simp add: split_evenly_def Let_def f_def len_def pc_def)
  have st: "f i + len div pc \<le> f (Suc i)" "f (Suc i) \<le> f i + len div pc + 1" for i
    using even_step [OF pos(1), of "len * i" len] by (simp_all add: f_def add.commute)
  have mx: "f (Suc i) \<le> f i + max_len" for i
  proof -
    have "(len * i + len) div pc \<le> (len * i + max_len * pc) div pc" using up by (intro div_le_mono) (simp add: mult.commute)
    then show ?thesis using pos(1) by (simp add: f_def add.commute)
  qed
  have "f 0 = start" "f pc = stop" using pos(1) assms(1) by (simp_all add: f_def len_def)
  then show "tiles start stop ss" using tiles_steps [of f pc] st(1) unfolding ss e by (metis add_leD1)
  have at: "\<exists>i. p = (f i, f (Suc i))" if "p \<in> set ss" for p using that unfolding ss e by auto
  show "snd p - fst p \<le> max_len" if p: "p \<in> set ss" for p
  proof -
    obtain i where "p = (f i, f (Suc i))" using at [OF p] ..
    then show ?thesis using mx [of i] by simp
  qed
  show "snd p - fst p \<le> snd q - fst q + 1" if p: "p \<in> set ss" "q \<in> set ss" for p q
  proof -
    obtain i where i: "p = (f i, f (Suc i))" using at [OF p(1)] ..
    obtain j where j: "q = (f j, f (Suc j))" using at [OF p(2)] ..
    show ?thesis using st(2) [of i] st(1) [of j] unfolding i j by simp
  qed
  show "length ss \<le> (stop - start + max_len - 1) div max_len"
    unfolding ss e using length_filter_le [of _ "map (\<lambda>i. (f i, f (Suc i))) [0..<pc]"] by (simp add: pc_def len_def)
qed

lemma quot_seconds: "0 \<le> sr \<Longrightarrow> quot (int (k * 1000) * sr) 1000 = int k * sr"
  by (cases "sr = 0 \<or> k = 0") (auto simp: quot_def sgn_if zero_less_mult_iff abs_mult)

lemma embed_lengths:
  assumes "0 \<le> sr" and "sr < 2 ^ 32"
  shows "as_usize (quot (EMBED_BUDGET_MS * sr) 1000) = 60 * nat sr" "as_usize (quot (MAX_EMBED_MS * sr) 1000) = 30 * nat sr"
  using quot_seconds [OF assms(1), of 60] quot_seconds [OF assms(1), of 30] assms
  by (simp_all add: EMBED_BUDGET_MS_def MAX_EMBED_MS_def as_usize_def nat_mult_distrib)

text \<open>
  No call of the embedding model is out of bounds or over its limits. For every turn the slices handed
  over lie inside the turn and inside the samples, none is empty or longer than thirty seconds, together they
  are at most a minute and at most two, one after the other with no gap, and their lengths differ by at most one sample; a turn
  of up to a minute is covered whole.
\<close>

theorem embed_slices_bounded:
  assumes "0 \<le> sr" and "sr < 2 ^ 32" and "turn_span n sr t = (start, stop)" and "ss = embed_slices n sr t"
  shows "if start < stop
    then \<exists>lo hi. start \<le> lo \<and> hi \<le> stop \<and> stop \<le> n \<and> tiles lo hi ss \<and> hi - lo \<le> 60 * nat sr \<and> length ss \<le> 2 \<and>
      (stop - start \<le> 60 * nat sr \<longrightarrow> lo = start \<and> hi = stop) \<and>
      (\<forall>p \<in> set ss. snd p - fst p \<le> 30 * nat sr \<and> (\<forall>q \<in> set ss. snd p - fst p \<le> snd q - fst q + 1))
    else ss = []"
proof (cases "start < stop")
  case True
  define lo hi where "lo = (if stop - start > 60 * nat sr then start + (stop - start) div 2 - 30 * nat sr else start)"
    and "hi = (if stop - start > 60 * nat sr then start + (stop - start) div 2 + 30 * nat sr else stop)"
  have "sr \<noteq> 0" using True assms(3) by (auto simp: turn_span_def quot_def as_usize_def)
  then have sr: "0 < nat sr" using assms(1) by simp
  have ss: "ss = filter (\<lambda>(from, to). \<not> to \<le> from) (split_evenly lo hi (30 * nat sr))"
    using True embed_lengths [OF assms(1,2)] assms(3,4) by (simp add: embed_slices_def Let_def lo_def hi_def)
  have b: "start \<le> lo" "hi \<le> stop" "lo < hi" "hi - lo \<le> 60 * nat sr"
    using True sr by (auto simp: lo_def hi_def)
  have "stop \<le> n" using assms(3) by (auto simp: turn_span_def)
  moreover have two: "(hi - lo + 30 * nat sr - 1) div (30 * nat sr) \<le> 2"
    using b(4) sr by (simp add: less_Suc_eq_le [symmetric] div_less_iff_less_mult)
  have m: "0 < 30 * nat sr" using sr by simp
  note r = split_evenly_ranges [OF b(3) m ss]
  have "\<forall>p \<in> set ss. snd p - fst p \<le> 30 * nat sr \<and> (\<forall>q \<in> set ss. snd p - fst p \<le> snd q - fst q + 1)" using r(2,3) by blast
  moreover have "length ss \<le> 2" using r(4) two by (rule order_trans)
  moreover have "stop - start \<le> 60 * nat sr \<longrightarrow> lo = start \<and> hi = stop" by (simp add: lo_def hi_def)
  ultimately have "start \<le> lo \<and> hi \<le> stop \<and> stop \<le> n \<and> tiles lo hi ss \<and> hi - lo \<le> 60 * nat sr \<and> length ss \<le> 2 \<and>
      (stop - start \<le> 60 * nat sr \<longrightarrow> lo = start \<and> hi = stop) \<and>
      (\<forall>p \<in> set ss. snd p - fst p \<le> 30 * nat sr \<and> (\<forall>q \<in> set ss. snd p - fst p \<le> snd q - fst q + 1))"
    using b r(1) by blast
  then show ?thesis using True by (simp only: if_True) blast
qed (use assms(3,4) in \<open>simp add: embed_slices_def Let_def\<close>)

section \<open>The speakers of a recording\<close>

lemma window_spans_none: "0 < w \<Longrightarrow> window_spans w 0 n = [] \<longleftrightarrow> n = 0"
  by (subst window_spans.simps) simp

lemma diarize_window_pos: "0 < diarize_window vt sr n"
  by (auto simp: diarize_window_def Let_def)

lemma window_fragments_one_turn: "f \<in> set (window_fragments A vt process extractor samples sr sp) \<Longrightarrow> \<exists>t. fr_turns f = [t]"
  by (auto simp: window_fragments_def Let_def split: option.splits if_splits)

definition turn_before :: "turn_artifact \<Rightarrow> turn_artifact \<Rightarrow> bool" where
  "turn_before a b \<longleftrightarrow> t_start_ms a < t_start_ms b \<or> t_start_ms a = t_start_ms b \<and> t_end_ms a \<le> t_end_ms b"

lemma sorted_two_keys:
  fixes f g :: "'a \<Rightarrow> 'b::linorder"
  assumes "sorted (map g ys)"
  shows "sorted_wrt (\<lambda>a b. f a < f b \<or> f a = f b \<and> g a \<le> g b) (sort_key f ys)"
  using assms
proof (induction ys)
  case (Cons y ys)
  have "sorted_wrt (\<lambda>a b. f a < f b \<or> f a = f b \<and> g a \<le> g b) (insort_key f y zs)"
    if "sorted_wrt (\<lambda>a b. f a < f b \<or> f a = f b \<and> g a \<le> g b) zs" "\<forall>z \<in> set zs. g y \<le> g z" for zs
    using that by (induction zs) (auto simp: set_insort_key)
  then show ?case using Cons by auto
qed simp

lemma speaker_turns_sorted: "sorted_wrt turn_before (speaker_turns fs assignment)"
  unfolding speaker_turns_def turn_before_def by (rule sorted_two_keys) simp

lemma speaker_turns_idx:
  assumes "length assignment = length fs" and "\<And>f. f \<in> set fs \<Longrightarrow> fr_turns f \<noteq> []"
  shows "t_local_idx ` set (speaker_turns fs assignment) = set assignment"
proof
  show "t_local_idx ` set (speaker_turns fs assignment) \<subseteq> set assignment"
    by (auto simp: speaker_turns_def dest: set_zip_rightD)
  show "set assignment \<subseteq> t_local_idx ` set (speaker_turns fs assignment)"
  proof
    fix c
    assume "c \<in> set assignment"
    then obtain k where k: "k < length fs" "assignment ! k = c" using assms(1) by (auto simp: in_set_conv_nth)
    then obtain t ts where t: "fr_turns (fs ! k) = t # ts" using assms(2) [of "fs ! k"] by (cases "fr_turns (fs ! k)") auto
    have "(fs ! k, c) \<in> set (zip fs assignment)" using k assms(1) by (auto simp: set_zip)
    then have "t\<lparr>t_local_idx := c\<rparr> \<in> set (speaker_turns fs assignment)" using t by (force simp: speaker_turns_def)
    then show "c \<in> t_local_idx ` set (speaker_turns fs assignment)" by force
  qed
qed

lemma dom_sum_voices: "dom (sum_voices A among fcs tot) \<subseteq> dom tot \<union> set among"
proof (induction A among fcs tot rule: sum_voices.induct)
  case (2 A among f c fcs tot)
  then show ?case by (force simp: add_voice_def Let_def split: option.splits prod.splits if_splits)
qed simp

lemma dom_embed_turn: "dom (embed_turn_slices A ex samples sr idx ss acc) \<subseteq> insert idx (dom acc)"
proof (induction A ex samples sr idx ss acc rule: embed_turn_slices.induct)
  case (2 A ex samples sr idx lo hi ss acc)
  then show ?case by (force simp: add_voice_def Let_def split: option.splits prod.splits)
qed auto

lemma dom_compute: "dom (compute_speaker_embeddings A extractor samples sr turns) \<subseteq> t_local_idx ` set turns"
proof -
  let ?f = "\<lambda>t. embed_turn_slices A extractor samples sr (t_local_idx t) (embed_slices (length samples) sr t)"
  have d: "dom (fold ?f ts acc) \<subseteq> dom acc \<union> t_local_idx ` set ts" for ts acc
  proof (induction ts arbitrary: acc)
    case (Cons t ts)
    have "dom (fold ?f (t # ts) acc) \<subseteq> dom (?f t acc) \<union> t_local_idx ` set ts" using Cons [of "?f t acc"] by simp
    also have "\<dots> \<subseteq> dom acc \<union> t_local_idx ` set (t # ts)"
      using dom_embed_turn [of A extractor samples sr "t_local_idx t" "embed_slices (length samples) sr t" acc] by auto
    finally show ?case .
  qed simp
  from d [of turns Map.empty] show ?thesis
    by (auto simp: compute_speaker_embeddings_def Let_def split: option.splits)
qed

definition speakers_sound :: "'f voices \<Rightarrow> bool" where
  "speakers_sound v \<longleftrightarrow> t_local_idx ` set (vc_turns v) = {0..<int (vc_num_speakers v)} \<and>
     sorted_wrt turn_before (vc_turns v) \<and> dom (vc_embeddings v) \<subseteq> {0..<int (vc_num_speakers v)}"

lemma settle_sound:
  assumes "tn_refine tn \<le> 1" and "\<And>f. f \<in> set fs \<Longrightarrow> fr_turns f \<noteq> []"
  shows "speakers_sound (settle_speakers A tn hash_order fs expected)"
proof (cases "fs = []")
  case False
  define a where "a = cluster_fragments A tn hash_order fs expected"
  note n = cluster_fragments_numbered [OF False assms(1) a_def]
  then have ne: "a \<noteq> []" using False by auto
  note m = speakers_numbered [OF n(2) ne]
  have "{0..Max (set a)} = {0..<int (nat (Max (set a)) + 1)}" using m(3) by auto
  then have r: "set a = {0..<int (nat (Max (set a)) + 1)}" using m(1) by (rule trans [rotated])
  have "dom (speaker_voices A fs a) \<subseteq> set a"
    using dom_sum_voices [of A a "zip fs a" Map.empty] by (auto simp: speaker_voices_def Let_def split: option.splits)
  moreover have "settle_speakers A tn hash_order fs expected =
      \<lparr>vc_turns = speaker_turns fs a, vc_embeddings = speaker_voices A fs a, vc_num_speakers = nat (Max (set a)) + 1\<rparr>"
    using False ne by (simp add: settle_speakers_def Let_def flip: a_def)
  ultimately show ?thesis using r speaker_turns_sorted speaker_turns_idx [OF n(1) assms(2)] unfolding speakers_sound_def
    by (simp del: of_nat_add)
qed (simp add: settle_speakers_def speakers_sound_def)

lemma tiles_sorted: "tiles s e ps \<Longrightarrow> sorted_wrt (\<lambda>a b. fst a < fst b) ps \<and> (\<forall>p \<in> set ps. s \<le> fst p)"
proof (induction s e ps rule: tiles.induct)
  case (2 s e a b ps)
  then show ?case by force
qed simp

lemma single_turns_sound:
  assumes "0 \<le> vt_min_piece_ms vt"
  shows "t_local_idx ` set (single_turns A vt audio) = {0}" "sorted_wrt turn_before (single_turns A vt audio)"
proof -
  define whole where "whole = \<lparr>t_local_idx = 0, t_start_ms = 0, t_end_ms = duration_ms audio\<rparr>"
  define split where "split = split_turns_at_silence A vt [whole] (wv_samples audio) (uint (wv_rate audio))"
  define turns where "turns = (if split = [] then [whole] else map (\<lambda>t. t\<lparr>t_local_idx := 0\<rparr>) split)"
  have v: "single_turns A vt audio = turns" by (simp add: single_turns_def Let_def turns_def split_def whole_def)
  show "t_local_idx ` set (single_turns A vt audio) = {0}" unfolding v by (cases split) (auto simp: turns_def whole_def)
  define spans where "spans = map (\<lambda>t. (t_start_ms t, t_end_ms t)) turns"
  have "sorted_wrt (\<lambda>a b. fst a < fst b) spans"
  proof (cases "split = []")
    case False
    have "spans = turn_pieces A vt (wv_samples audio) (uint (wv_rate audio)) whole"
      using False split_spans [of A vt "[whole]" "wv_samples audio" "uint (wv_rate audio)"] by (simp add: spans_def turns_def split_def [symmetric] comp_def)
    then show ?thesis using turn_pieces_tile [OF assms refl, of whole A "wv_samples audio" "uint (wv_rate audio)"] tiles_sorted
      by (cases "t_start_ms whole < t_end_ms whole") auto
  qed (simp add: spans_def turns_def)
  then show "sorted_wrt turn_before (single_turns A vt audio)"
    unfolding v spans_def sorted_wrt_map by (rule sorted_wrt_mono_rel [rotated]) (simp add: turn_before_def)
qed

lemma single_speaker_cases:
  assumes "0 \<le> vt_min_piece_ms vt"
  shows "case single_speaker A vt extractor audio of
      Inl e \<Rightarrow> extractor = Inl e
    | Inr None \<Rightarrow> False
    | Inr (Some v) \<Rightarrow> (\<exists>ex. extractor = Inr ex) \<and> vc_num_speakers v = 1 \<and> speakers_sound v"
proof (cases extractor)
  case (Inr ex)
  then show ?thesis using single_turns_sound [OF assms, of A audio]
      dom_compute [of A ex "wv_samples audio" "uint (wv_rate audio)" "single_turns A vt audio"]
    by (auto simp: single_speaker_def Let_def speakers_sound_def)
qed (simp add: single_speaker_def Let_def)

text \<open>\<open>diarize_windowed\<close> is either a result from the fragments of pass 1 or one of its failures.\<close>

lemma cached_cases:
  "case cached_fragments cache of
     Inl e \<Rightarrow> \<exists>c. cache = Some c \<and> fc_exists c \<and> load_fragments (fc_of_json c) (fc_contents c) = Inl e
   | Inr None \<Rightarrow> (\<forall>c. cache = Some c \<longrightarrow> \<not> fc_exists c)
   | Inr (Some fs) \<Rightarrow> \<exists>c. cache = Some c \<and> fc_exists c \<and> load_fragments (fc_of_json c) (fc_contents c) = Inr fs"
  by (auto simp: cached_fragments_def split: option.split sum.split)

lemma keep_cases: "keep_fragments cache fs = Inl e \<Longrightarrow>
    \<exists>c. cache = Some c \<and> \<not> fc_exists c \<and> save_fragments (fc_to_json c) (fc_can_write c) fs = Inl e"
  by (auto simp: keep_fragments_def split: option.splits if_splits sum.splits)

definition cache_fails :: "'f fragment_cache option \<Rightarrow> error \<Rightarrow> bool" where
  "cache_fails cache e \<longleftrightarrow> (\<exists>c. cache = Some c \<and>
     (if fc_exists c then load_fragments (fc_of_json c) (fc_contents c) = Inl e
      else \<exists>fs. save_fragments (fc_to_json c) (fc_can_write c) fs = Inl e))"

lemma diarize_windowed_cases:
  fixes audio :: "'f wav_data"
  assumes "tn_refine tn \<le> 1" and "\<forall>fs. cached_fragments cache = Inr (Some fs) \<longrightarrow> (\<forall>f \<in> set fs. fr_turns f \<noteq> [])"
  shows "case diarize_windowed A tn vt hash_order diarizer extractor cache audio expected of
      Inl e \<Rightarrow> diarizer = Inl e \<or> extractor = Inl e \<or> cache_fails cache e
    | Inr None \<Rightarrow> wv_rate audio = 0 \<and> wv_samples audio \<noteq> []
    | Inr (Some v) \<Rightarrow> (\<exists>process. diarizer = Inr process) \<and> (\<exists>ex. extractor = Inr ex) \<and>
        (wv_rate audio = 0 \<longrightarrow> wv_samples audio \<noteq> [] \<longrightarrow> (\<exists>fs. cached_fragments cache = Inr (Some fs))) \<and> speakers_sound v"
proof (cases "\<exists>process ex cached. diarizer = Inr process \<and> extractor = Inr ex \<and> cached_fragments cache = Inr cached")
  case True
  then obtain process ex cached where m: "diarizer = Inr process" "extractor = Inr ex" "cached_fragments cache = Inr cached" by blast
  define n where "n = length (wv_samples audio)"
  define spans where "spans = (if cached = None then window_spans (diarize_window vt (uint (wv_rate audio)) n) 0 n else [])"
  define fs where "fs = (case cached of Some fs \<Rightarrow> fs
      | None \<Rightarrow> concat (map (window_fragments A vt process ex (wv_samples audio) (uint (wv_rate audio))) spans))"
  have r: "diarize_windowed A tn vt hash_order diarizer extractor cache audio expected =
      (if spans \<noteq> [] \<and> uint (wv_rate audio) = 0 then Inr None
       else case keep_fragments cache fs of Inl e \<Rightarrow> Inl e | Inr u \<Rightarrow> Inr (Some (settle_speakers A tn hash_order fs expected)))"
    unfolding diarize_windowed_def m sum.case Let_def fs_def spans_def n_def ..
  have "fr_turns f \<noteq> []" if "f \<in> set fs" for f
    using that assms(2) m(3) window_fragments_one_turn by (cases cached) (fastforce simp: fs_def)+
  then have s: "speakers_sound (settle_speakers A tn hash_order fs expected)" using settle_sound assms(1) by blast
  have sp: "spans \<noteq> [] \<longleftrightarrow> cached = None \<and> wv_samples audio \<noteq> []"
    using window_spans_none [OF diarize_window_pos, of vt "uint (wv_rate audio)" n n] by (simp add: spans_def n_def)
  have z: "uint (wv_rate audio) = 0 \<longleftrightarrow> wv_rate audio = 0" by (simp add: uint_0_iff)
  show ?thesis
  proof (cases "keep_fragments cache fs")
    case (Inl e)
    then have "cache_fails cache e" using keep_cases unfolding cache_fails_def by fastforce
    then show ?thesis using r sp z Inl by simp
  qed (use r sp z s m in simp)
next
  case False
  then show ?thesis using cached_cases [of cache]
    by (cases diarizer; cases extractor; cases "cached_fragments cache")
      (auto simp: diarize_windowed_def cache_fails_def split: sum.splits)
qed


section \<open>Examples\<close>

definition real_voice_tuning :: "real voice_tuning" where
  "real_voice_tuning = \<lparr>vt_split_silence_ms = 20, vt_min_piece_ms = 40, vt_floor_alpha = 7 / 20, vt_silence_ratio = 3 / 20,
     vt_speech_percentile = 17 / 20, vt_window_ms = DIARIZE_WINDOW_MS\<rparr>"

lemma quiet_middle:
  "turn_pieces real_arith real_voice_tuning [1, 1, 1, 0, 1, 1, 1] 50 \<lparr>t_local_idx = 4, t_start_ms = 0, t_end_ms = 140\<rparr> =
     [(0, 60), (60, 140)]"
  by (simp add: turn_pieces_def turn_span_def quot_def SILENCE_FRAME_MS_def as_usize_def real_voice_tuning_def chunks_of.simps
      frame_energy_def silence_threshold_def real_arith_def sort_by_def Let_def drop_sliver_def)

theorem split_tiles_turns_witness:
  "let out = split_turns_at_silence real_arith real_voice_tuning [\<lparr>t_local_idx = 4, t_start_ms = 0, t_end_ms = 140\<rparr>] [1, 1, 1, 0, 1, 1, 1] 50
   in map t_local_idx out = [0, 1] \<and> map (\<lambda>t. (t_start_ms t, t_end_ms t)) out = [(0, 60), (60, 140)]"
proof -
  let ?t = "\<lparr>t_local_idx = 4, t_start_ms = 0, t_end_ms = 140\<rparr>"
  let ?out = "split_turns_at_silence real_arith real_voice_tuning [?t] [1, 1, 1, 0, 1, 1, 1] 50"
  have m: "0 \<le> vt_min_piece_ms real_voice_tuning" by (simp add: real_voice_tuning_def)
  have s: "map (\<lambda>t. (t_start_ms t, t_end_ms t)) ?out = [(0, 60), (60, 140)]" by (simp add: split_spans quiet_middle)
  have "length ?out = 2" using arg_cong [OF s, of length] by (simp only: length_map) simp
  then show ?thesis using s split_tiles_turns [OF m refl, of real_arith "[?t]" "[1, 1, 1, 0, 1, 1, 1]" 50]
    by (simp add: upt_rec)
qed

theorem embed_slices_bounded_witness:
  "\<exists>lo hi. tiles lo hi (embed_slices 200 2 \<lparr>t_local_idx = 0, t_start_ms = 0, t_end_ms = 90000\<rparr>) \<and> hi - lo \<le> (120::nat) \<and> hi \<le> 180"
proof -
  let ?t = "\<lparr>t_local_idx = 0, t_start_ms = 0, t_end_ms = 90000\<rparr>"
  have "turn_span 200 2 ?t = (0, 180)" by (simp add: turn_span_def quot_def as_usize_def)
  from embed_slices_bounded [OF _ _ this refl] show ?thesis by auto
qed


end
