(* ===== verification/Scribe_Asr.thy ===== *)
theory Scribe_Asr
  imports Scribe_Wav Scribe_Voices
begin

text \<open>
  The transcriber, \<open>crates/scribe-asr/src/real/asr.rs\<close>: windows cut at quiet moments, passes that pick up a decode that
  stopped early, recovery of gaps, and words rebuilt from tokens. The recognizer is a parameter that answers a
  clip with text, tokens and times, or nothing; so are the rounding of seconds to milliseconds (\<open>sec_to_ms\<close>) and
  the \<open>f64\<close> comparison of coverage (\<open>covers_little a b\<close>: \<open>a / b < MIN_COVERAGE\<close>). Milliseconds times the sample rate stay
  below \<open>2 ^ 63\<close>.
\<close>

section \<open>Words of a clip\<close>

record asr_word =
  aw_text :: rstr
  aw_start_ms :: int
  aw_end_ms :: int
  aw_conf :: f32

record asr_transcript =
  at_text :: rstr
  at_words :: "asr_word list"

record 'f recognized =
  rg_text :: rstr
  rg_tokens :: "rstr list"
  rg_timestamps :: "'f list option"
  rg_durations :: "'f list option"

definition ONE :: f32 where "ONE = 0x3F800000"

definition spread_evenly :: "rstr \<Rightarrow> int \<Rightarrow> asr_word list" where
  "spread_evenly t clip_ms =
     (let parts = split_whitespace t; n = int (length parts);
          step = (if n > 0 then quot (max clip_ms 0) n else 0)
      in map (\<lambda>(i, w). let s = step * int i in
            \<lparr>aw_text = w, aw_start_ms = s, aw_end_ms = (if int i = n - 1 then max clip_ms s else s + step), aw_conf = ONE\<rparr>)
          (enumerate 0 parts))"

definition flush :: "asr_word list \<Rightarrow> rstr \<Rightarrow> int option \<Rightarrow> int \<Rightarrow> asr_word list" where
  "flush words t start stop =
     (if trim t = [] then words
      else words @ [\<lparr>aw_text = trim t, aw_start_ms = unwrap_or start 0, aw_end_ms = max stop (unwrap_or start 0), aw_conf = ONE\<rparr>])"

definition starts_word :: "rstr \<Rightarrow> bool" where
  "starts_word tok \<longleftrightarrow> (case tok of [] \<Rightarrow> False | c # _ \<Rightarrow> c = 9601 \<or> c = 32)"

definition clean_token :: "rstr \<Rightarrow> rstr" where
  "clean_token tok = trim_start_matches is_ws (trim_start_matches (\<lambda>c. c = 9601) tok)"

text \<open>The loop over the tokens, each with its start and duration: the word being built, its start and the latest end so far.\<close>

fun group_tokens :: "asr_word list \<Rightarrow> rstr \<Rightarrow> int option \<Rightarrow> int \<Rightarrow> (rstr \<times> int \<times> int) list \<Rightarrow> asr_word list" where
  "group_tokens words cur start stop [] = flush words cur start stop"
| "group_tokens words cur start stop ((tok, pos, dur) # toks) =
     (if starts_word tok \<and> start \<noteq> None
      then group_tokens (flush words cur start stop) (clean_token tok) (Some pos) (max (pos + dur) stop) toks
      else group_tokens words (cur @ clean_token tok) (Some (unwrap_or start pos)) (max (pos + dur) stop) toks)"

definition timed_tokens :: "('f \<Rightarrow> int) \<Rightarrow> rstr list \<Rightarrow> 'f list \<Rightarrow> 'f list option \<Rightarrow> (rstr \<times> int \<times> int) list" where
  "timed_tokens sec_to_ms tokens ts durations =
     map (\<lambda>i. (tokens ! i, sec_to_ms (ts ! i),
           case durations of None \<Rightarrow> 0 | Some d \<Rightarrow> if i < length d then sec_to_ms (d ! i) else 0)) [0..<length tokens]"

text \<open>One blob although the text has several words: the text is split over the span of the blob.\<close>

definition spread_blob :: "rstr \<Rightarrow> asr_word list \<Rightarrow> asr_word list" where
  "spread_blob t words =
     (let span_start = (case words of [] \<Rightarrow> 0 | w # _ \<Rightarrow> aw_start_ms w);
          span_end = max (case words of [] \<Rightarrow> 0 | w # _ \<Rightarrow> aw_end_ms w) span_start;
          parts = split_whitespace t;
          step = quot (max (span_end - span_start) 0) (max (int (length parts)) 1)
      in map (\<lambda>(i, w). let s = span_start + step * int i in
            \<lparr>aw_text = w, aw_start_ms = s, aw_end_ms = s + step, aw_conf = ONE\<rparr>) (enumerate 0 parts))"

definition build_words :: "('f \<Rightarrow> int) \<Rightarrow> rstr \<Rightarrow> rstr list \<Rightarrow> 'f list option \<Rightarrow> 'f list option \<Rightarrow> int \<Rightarrow> asr_word list" where
  "build_words sec_to_ms t tokens timestamps durations clip_ms =
     (case timestamps of
        None \<Rightarrow> spread_evenly t clip_ms
      | Some ts \<Rightarrow>
          if tokens = [] \<or> length tokens \<noteq> length ts then spread_evenly t clip_ms
          else let words = group_tokens [] [] None 0 (timed_tokens sec_to_ms tokens ts durations) in
            if length words \<le> 1 \<and> length (split_whitespace t) > 1 then spread_blob t words else words)"

section \<open>Decoding\<close>

definition WHISPER_WINDOW_MS :: int where "WHISPER_WINDOW_MS = 28000"
definition TRANSDUCER_WINDOW_MS :: int where "TRANSDUCER_WINDOW_MS = 30000"
definition MIN_RECOVER_MS :: int where "MIN_RECOVER_MS = 4000"
definition MAX_RECOVERY_PASSES :: nat where "MAX_RECOVERY_PASSES = 6"
definition GAP_RECOVERY_MS :: int where "GAP_RECOVERY_MS = 1500"
definition CUT_SEARCH_FRACTION :: nat where "CUT_SEARCH_FRACTION = 4"
definition CUT_FRAME :: nat where "CUT_FRAME = 320"

text \<open>The recognizer and the settings: the window of the loaded model or its override, and the gap that is recovered.\<close>

record 'f asr_engine =
  as_arith :: "'f arith"
  as_recognize :: "'f list \<Rightarrow> 'f recognized option"
  as_sec_to_ms :: "'f \<Rightarrow> int"
  as_covers_little :: "nat \<Rightarrow> nat \<Rightarrow> bool"
  as_window_ms :: int
  as_gap_ms :: int

definition samples_to_ms :: "nat \<Rightarrow> int \<Rightarrow> int" where
  "samples_to_ms n sr = (if sr = 0 then 0 else int n * 1000 div sr)"

definition ms_to_samples :: "int \<Rightarrow> int \<Rightarrow> nat" where
  "ms_to_samples ms sr = (if ms \<le> 0 then 0 else nat (ms * sr div 1000))"

definition needs_recovery :: "(nat \<Rightarrow> nat \<Rightarrow> bool) \<Rightarrow> nat \<Rightarrow> nat \<Rightarrow> nat \<Rightarrow> int \<Rightarrow> bool" where
  "needs_recovery covers_little cursor nxt n sr \<longleftrightarrow>
     \<not> (nxt \<le> cursor \<or> nxt \<ge> n) \<and> \<not> samples_to_ms (n - nxt) sr < MIN_RECOVER_MS \<and> covers_little (nxt - cursor) (n - cursor)"

definition shift_asr_word :: "int \<Rightarrow> asr_word \<Rightarrow> asr_word" where
  "shift_asr_word by_ms w = w\<lparr>aw_start_ms := aw_start_ms w + by_ms, aw_end_ms := aw_end_ms w + by_ms\<rparr>"

definition decode_clip :: "'f asr_engine \<Rightarrow> int \<Rightarrow> 'f list \<Rightarrow> int \<Rightarrow> error + asr_transcript" where
  "decode_clip E sr samples offset_ms =
     (case as_recognize E samples of
        None \<Rightarrow> Inl Model
      | Some r \<Rightarrow>
          let words = build_words (as_sec_to_ms E) (rg_text r) (rg_tokens r) (rg_timestamps r) (rg_durations r)
                        (samples_to_ms (length samples) sr)
          in Inr \<lparr>at_text = rg_text r, at_words = (if offset_ms \<noteq> 0 then map (shift_asr_word offset_ms) words else words)\<rparr>)"

definition push_piece :: "rstr \<Rightarrow> rstr \<Rightarrow> rstr" where
  "push_piece t piece = (if trim piece = [] then t else if t = [] then trim piece else t @ 32 # trim piece)"

fun decode_passes ::
  "'f asr_engine \<Rightarrow> int \<Rightarrow> 'f list \<Rightarrow> int \<Rightarrow> nat \<Rightarrow> nat \<Rightarrow> asr_transcript \<Rightarrow> error + asr_transcript" where
  "decode_passes E sr samples offset_ms 0 cursor acc = Inr acc"
| "decode_passes E sr samples offset_ms (Suc passes) cursor acc =
     (case decode_clip E sr (drop cursor samples) (offset_ms + samples_to_ms cursor sr) of
        Inl e \<Rightarrow> Inl e
      | Inr part \<Rightarrow>
          let acc = \<lparr>at_text = push_piece (at_text acc) (at_text part), at_words = at_words acc @ at_words part\<rparr> in
          if at_words part = [] then Inr acc
          else let nxt = ms_to_samples (aw_end_ms (last (at_words part)) - offset_ms) sr in
            if needs_recovery (as_covers_little E) cursor nxt (length samples) sr
            then decode_passes E sr samples offset_ms passes nxt acc
            else Inr acc)"

definition decode_span :: "'f asr_engine \<Rightarrow> int \<Rightarrow> 'f list \<Rightarrow> int \<Rightarrow> error + asr_transcript" where
  "decode_span E sr samples offset_ms =
     decode_passes E sr samples offset_ms (MAX_RECOVERY_PASSES + 1) 0 \<lparr>at_text = [], at_words = []\<rparr>"

section \<open>Windows\<close>

function quiet_scan :: "'f arith \<Rightarrow> 'f list \<Rightarrow> nat \<Rightarrow> nat \<Rightarrow> nat \<Rightarrow> 'f \<Rightarrow> nat" where
  "quiet_scan A samples nominal pos best best_energy =
     (if pos + CUT_FRAME \<le> nominal
      then let energy = ar_sum A (map (\<lambda>x. ar_mul A x x) (sub_slice samples pos (pos + CUT_FRAME))) in
        if ar_lt A energy best_energy then quiet_scan A samples nominal (pos + CUT_FRAME) (pos + CUT_FRAME div 2) energy
        else quiet_scan A samples nominal (pos + CUT_FRAME) best best_energy
      else best)"
  by pat_completeness auto
termination by (relation "measure (\<lambda>(A, samples, nominal, pos, best, e). nominal - pos)") (auto simp: CUT_FRAME_def)

declare quiet_scan.simps [simp del]

definition choose_window_end :: "'f arith \<Rightarrow> 'f list \<Rightarrow> nat \<Rightarrow> nat \<Rightarrow> nat" where
  "choose_window_end A samples start nominal =
     (if nominal \<ge> length samples then length samples
      else let band = (nominal - start) div CUT_SEARCH_FRACTION in
        if band < CUT_FRAME * 2 then nominal
        else quiet_scan A samples nominal (nominal - band) nominal (ar_top A))"

lemma quiet_scan_between:
  assumes "lo \<le> pos" and "lo < best" and "best \<le> nominal"
  shows "lo < quiet_scan A samples nominal pos best e" "quiet_scan A samples nominal pos best e \<le> nominal"
proof -
  have "lo < quiet_scan A samples nominal pos best e \<and> quiet_scan A samples nominal pos best e \<le> nominal"
    using assms
  proof (induction A samples nominal pos best e rule: quiet_scan.induct)
    case (1 A samples nominal pos best e)
    show ?case
    proof (cases "pos + CUT_FRAME \<le> nominal")
      case True
      then show ?thesis using 1 by (subst (1 2) quiet_scan.simps) (auto simp: Let_def CUT_FRAME_def)
    next
      case False
      then show ?thesis using 1(4,5) by (subst (1 2) quiet_scan.simps) simp
    qed
  qed
  then show "lo < quiet_scan A samples nominal pos best e" "quiet_scan A samples nominal pos best e \<le> nominal" by blast+
qed

text \<open>A window never ends before its last quarter begins and never after its nominal end.\<close>

lemma choose_window_end_between:
  assumes "start < nominal" and "nominal \<le> length samples"
  shows "nominal - (nominal - start) div 4 < choose_window_end A samples start nominal \<or> choose_window_end A samples start nominal = nominal"
    "start < choose_window_end A samples start nominal" "choose_window_end A samples start nominal \<le> nominal"
proof -
  let ?b = "(nominal - start) div 4"
  have b: "start \<le> nominal - ?b" "?b \<le> nominal" using assms(1) by auto
  have q: "0 < ?b \<Longrightarrow> nominal - ?b < quiet_scan A samples nominal (nominal - ?b) nominal e"
    "0 < ?b \<Longrightarrow> quiet_scan A samples nominal (nominal - ?b) nominal e \<le> nominal" for e
    using quiet_scan_between [of "nominal - ?b" "nominal - ?b" nominal nominal A samples e] b assms(1) by auto
  have "choose_window_end A samples start nominal = nominal \<or>
      nominal - ?b < choose_window_end A samples start nominal \<and> choose_window_end A samples start nominal \<le> nominal"
    using assms(2) q by (auto simp: choose_window_end_def Let_def CUT_SEARCH_FRACTION_def CUT_FRAME_def)
  then show "nominal - ?b < choose_window_end A samples start nominal \<or> choose_window_end A samples start nominal = nominal"
    "start < choose_window_end A samples start nominal" "choose_window_end A samples start nominal \<le> nominal"
    using b(1) assms(1) by auto
qed

function asr_windows :: "'f arith \<Rightarrow> 'f list \<Rightarrow> nat \<Rightarrow> nat \<Rightarrow> (nat \<times> nat) list" where
  "asr_windows A samples window start =
     (if start < length samples \<and> 0 < window
      then let stop = choose_window_end A samples start (min (start + window) (length samples))
           in (start, stop) # asr_windows A samples window stop
      else [])"
  by pat_completeness auto
termination
proof (relation "measure (\<lambda>(A, samples, window, start). length samples - start)", goal_cases)
  case (2 A samples window start stop)
  then have "start < stop" "stop \<le> length samples"
    using choose_window_end_between [of start "min (start + window) (length samples)" samples A] by auto
  then show ?case using 2 by simp
qed simp

declare asr_windows.simps [simp del]

fun decode_windows ::
  "'f asr_engine \<Rightarrow> int \<Rightarrow> 'f list \<Rightarrow> (nat \<times> nat) list \<Rightarrow> asr_transcript \<Rightarrow> error + asr_transcript" where
  "decode_windows E sr samples [] acc = Inr acc"
| "decode_windows E sr samples ((start, stop) # ws) acc =
     (case decode_span E sr (sub_slice samples start stop) (quot (int start * 1000) sr) of
        Inl e \<Rightarrow> Inl e
      | Inr part \<Rightarrow>
          decode_windows E sr samples ws
            \<lparr>at_text = push_piece (at_text acc) (at_text part), at_words = at_words acc @ at_words part\<rparr>)"

section \<open>Gaps\<close>

fun gap_bounds :: "int \<Rightarrow> int \<Rightarrow> int \<Rightarrow> asr_word list \<Rightarrow> (int \<times> int) list" where
  "gap_bounds gap_ms total_ms prev_end [] = (if total_ms - prev_end \<ge> gap_ms then [(prev_end, total_ms)] else [])"
| "gap_bounds gap_ms total_ms prev_end (w # ws) =
     (if aw_start_ms w - prev_end \<ge> gap_ms then [(prev_end, aw_start_ms w)] else []) @
     gap_bounds gap_ms total_ms (max prev_end (aw_end_ms w)) ws"

fun decode_gaps :: "'f asr_engine \<Rightarrow> int \<Rightarrow> 'f list \<Rightarrow> (int \<times> int) list \<Rightarrow> error + asr_word list" where
  "decode_gaps E sr samples [] = Inr []"
| "decode_gaps E sr samples ((from_ms, to_ms) # bs) =
     (let a = min (ms_to_samples from_ms sr) (length samples); b = min (ms_to_samples to_ms sr) (length samples) in
      if b \<le> a then decode_gaps E sr samples bs
      else case decode_span E sr (sub_slice samples a b) from_ms of
        Inl e \<Rightarrow> Inl e
      | Inr part \<Rightarrow>
          (case decode_gaps E sr samples bs of Inl e \<Rightarrow> Inl e | Inr ws \<Rightarrow> Inr (at_words part @ ws)))"

definition recover_gaps :: "'f asr_engine \<Rightarrow> int \<Rightarrow> 'f list \<Rightarrow> asr_transcript \<Rightarrow> error + asr_transcript" where
  "recover_gaps E sr samples first =
     (if as_gap_ms E \<le> 0 then Inr first
      else case decode_gaps E sr samples (gap_bounds (as_gap_ms E) (samples_to_ms (length samples) sr) 0 (at_words first)) of
        Inl e \<Rightarrow> Inl e
      | Inr found \<Rightarrow>
          let words = at_words first @ found;
              words = (if length found > 0 then sort_key aw_start_ms (sort_key aw_end_ms words) else words)
          in Inr \<lparr>at_text = join [32] (map aw_text words), at_words = words\<rparr>)"

definition transcribe_audio :: "'f asr_engine \<Rightarrow> 'f wav_data \<Rightarrow> error + asr_transcript" where
  "transcribe_audio E audio =
     (let sr = uint (wv_rate audio); samples = wv_samples audio;
          window = as_usize (quot (as_window_ms E * sr) 1000);
          decoded = (if window = 0 \<or> length samples \<le> window then decode_span E sr samples 0
                     else decode_windows E sr samples (asr_windows (as_arith E) samples window 0) \<lparr>at_text = [], at_words = []\<rparr>)
      in case decoded of Inl e \<Rightarrow> Inl e | Inr first \<Rightarrow> recover_gaps E sr samples first)"

definition transcribe_file :: "'f asr_engine \<Rightarrow> (32 word \<Rightarrow> 'f) \<Rightarrow> byte list option \<Rightarrow> error + asr_transcript" where
  "transcribe_file E from_bits file =
     (case read_wav (as_arith E) from_bits file of Inl e \<Rightarrow> Inl e | Inr audio \<Rightarrow> transcribe_audio E audio)"

section \<open>The windows tile the recording\<close>

lemma asr_windows_tile:
  assumes "0 < window" and "start \<le> length samples"
  shows "tiles start (length samples) (asr_windows A samples window start)"
    "\<And>p. p \<in> set (asr_windows A samples window start) \<Longrightarrow> snd p - fst p \<le> window \<and> (snd p = length samples \<or> 3 * window \<le> 4 * (snd p - fst p))"
proof -
  have "tiles start (length samples) (asr_windows A samples window start) \<and>
    (\<forall>p \<in> set (asr_windows A samples window start). snd p - fst p \<le> window \<and> (snd p = length samples \<or> 3 * window \<le> 4 * (snd p - fst p)))"
    using assms
  proof (induction A samples window start rule: asr_windows.induct)
    case (1 A samples window start)
    show ?case
    proof (cases "start < length samples")
      case True
      let ?nom = "min (start + window) (length samples)"
      define stop where "stop = choose_window_end A samples start ?nom"
      have c: "?nom - (?nom - start) div 4 < stop \<or> stop = ?nom" "start < stop" "stop \<le> ?nom"
        unfolding stop_def using choose_window_end_between [of start ?nom samples A] True 1(2) by auto
      have e: "asr_windows A samples window start = (start, stop) # asr_windows A samples window stop"
        using True 1(2) by (subst asr_windows.simps) (simp add: stop_def Let_def)
      have l: "?nom = length samples \<Longrightarrow> stop = length samples" by (simp add: stop_def choose_window_end_def)
      have "stop - start \<le> window \<and> (stop = length samples \<or> 3 * window \<le> 4 * (stop - start))"
        using c l 1(2) by (cases "?nom = length samples") auto
      moreover have "tiles stop (length samples) (asr_windows A samples window stop) \<and>
        (\<forall>p \<in> set (asr_windows A samples window stop). snd p - fst p \<le> window \<and> (snd p = length samples \<or> 3 * window \<le> 4 * (snd p - fst p)))"
        using 1(1) [OF _ stop_def] True 1(2) c by simp
      ultimately show ?thesis using c(2) by (simp add: e)
    next
      case False
      then show ?thesis using 1(3) by (subst (1 2) asr_windows.simps) simp
    qed
  qed
  then show "tiles start (length samples) (asr_windows A samples window start)"
    "\<And>p. p \<in> set (asr_windows A samples window start) \<Longrightarrow> snd p - fst p \<le> window \<and> (snd p = length samples \<or> 3 * window \<le> 4 * (snd p - fst p))"
    by blast+
qed

text \<open>
  C31: long audio is decoded whole, in windows the model can take. The loop ends; its windows follow one another
  from the first sample to the last without gap or overlap, none is longer than the window of the model, and
  none but the last is shorter than three quarters of it, wherever the quiet moments are.
\<close>

theorem asr_windows_cover:
  assumes "0 < window" and "ws = asr_windows A samples window 0"
  shows "tiles 0 (length samples) ws \<and> concat (map (\<lambda>p. sub_slice samples (fst p) (snd p)) ws) = samples \<and>
    (\<forall>p \<in> set ws. snd p - fst p \<le> window \<and> (snd p = length samples \<or> 3 * window \<le> 4 * (snd p - fst p)))"
proof -
  have sl: "concat (map (\<lambda>p. sub_slice samples (fst p) (snd p)) ps) = drop s samples"
    if "tiles s (length samples) ps" for s ps
    using that
  proof (induction s "length samples" ps rule: tiles.induct)
    case (2 s a b ps)
    then have ih: "concat (map (\<lambda>p. sub_slice samples (fst p) (snd p)) ps) = drop b samples" and "a = s" "a < b" by auto
    have "take (b - a) (drop a samples) @ drop b samples = drop a samples"
      using append_take_drop_id [of "b - a" "drop a samples"] \<open>a < b\<close> by simp
    then show ?case using ih \<open>a = s\<close> by (simp add: sub_slice_def)
  qed simp
  note t = asr_windows_tile [OF assms(1), where start = 0 and samples = samples and A = A, folded assms(2)]
  show ?thesis using t sl [OF t(1)] by simp
qed

section \<open>Words of the transcript\<close>

definition word_sound :: "asr_word \<Rightarrow> bool" where
  "word_sound w \<longleftrightarrow> aw_start_ms w \<le> aw_end_ms w \<and> aw_text w \<noteq> []"

lemma split_whitespace_nonempty: "p \<in> set (split_whitespace s) \<Longrightarrow> p \<noteq> []"
proof -
  have "p \<noteq> []" if "p \<in> set (ws_fields cur t)" for cur t
    using that by (induction cur t rule: ws_fields.induct) (auto split: if_splits)
  then show "p \<in> set (split_whitespace s) \<Longrightarrow> p \<noteq> []" unfolding split_whitespace_def .
qed

lemma quot_nonneg: "0 \<le> a \<Longrightarrow> 0 \<le> b \<Longrightarrow> 0 \<le> quot a b"
  by (auto simp: quot_def sgn_if intro: pos_imp_zdiv_nonneg_iff [THEN iffD2])

lemma enumerate_mem: "(i, x) \<in> set (enumerate n xs) \<Longrightarrow> x \<in> set xs"
  by (metis in_set_conv_nth in_set_enumerate_eq length_enumerate nth_enumerate_eq prod.inject snd_conv in_set_zip set_zip_rightD enumerate_eq_zip)

lemma spread_evenly_sound: "w \<in> set (spread_evenly t clip_ms) \<Longrightarrow> word_sound w"
  by (auto simp: spread_evenly_def Let_def word_sound_def quot_nonneg dest!: enumerate_mem split_whitespace_nonempty)

lemma spread_blob_sound: "w \<in> set (spread_blob t words) \<Longrightarrow> word_sound w"
  by (auto simp: spread_blob_def Let_def word_sound_def quot_nonneg dest!: enumerate_mem split_whitespace_nonempty)

lemma flush_sound: "(\<And>w. w \<in> set words \<Longrightarrow> word_sound w) \<Longrightarrow> w \<in> set (flush words t start stop) \<Longrightarrow> word_sound w"
  by (auto simp: flush_def word_sound_def split: if_splits)

lemma group_tokens_sound: "(\<And>w. w \<in> set words \<Longrightarrow> word_sound w) \<Longrightarrow> w \<in> set (group_tokens words cur start stop toks) \<Longrightarrow> word_sound w"
proof (induction words cur start stop toks rule: group_tokens.induct)
  case (2 words cur start stop tok pos dur toks)
  then show ?case using flush_sound [of words _ cur start stop] by (simp split: if_splits)
qed (auto intro: flush_sound)

lemma build_words_sound: "w \<in> set (build_words f t tokens ts ds clip_ms) \<Longrightarrow> word_sound w"
  using group_tokens_sound [of "[]" w]
  by (auto simp: build_words_def Let_def intro: spread_evenly_sound spread_blob_sound split: option.splits if_splits)

lemma decode_clip_sound: "decode_clip E sr samples off = Inr t \<Longrightarrow> w \<in> set (at_words t) \<Longrightarrow> word_sound w"
  by (auto simp: decode_clip_def Let_def shift_asr_word_def word_sound_def dest!: build_words_sound split: option.splits if_splits)

lemma decode_passes_sound:
  "decode_passes E sr samples off k cursor acc = Inr t \<Longrightarrow> (\<And>w. w \<in> set (at_words acc) \<Longrightarrow> word_sound w) \<Longrightarrow>
   w \<in> set (at_words t) \<Longrightarrow> word_sound w"
proof (induction E sr samples off k cursor acc rule: decode_passes.induct)
  case (2 E sr samples off passes cursor acc)
  then obtain part where p: "decode_clip E sr (drop cursor samples) (off + samples_to_ms cursor sr) = Inr part"
    by (cases "decode_clip E sr (drop cursor samples) (off + samples_to_ms cursor sr)") auto
  have "word_sound w" if "w \<in> set (at_words acc @ at_words part)" for w
    using that 2(3) decode_clip_sound [OF p] by auto
  then show ?case using 2(1) [OF p refl] 2(2,4) p by (auto simp: Let_def split: if_splits)
qed auto

lemma decode_span_sound: "decode_span E sr samples off = Inr t \<Longrightarrow> w \<in> set (at_words t) \<Longrightarrow> word_sound w"
  unfolding decode_span_def by (erule decode_passes_sound) auto

lemma decode_windows_sound:
  "decode_windows E sr samples ws acc = Inr t \<Longrightarrow> (\<And>w. w \<in> set (at_words acc) \<Longrightarrow> word_sound w) \<Longrightarrow>
   w \<in> set (at_words t) \<Longrightarrow> word_sound w"
proof (induction E sr samples ws acc rule: decode_windows.induct)
  case (2 E sr samples start stop ws acc)
  then show ?case using decode_span_sound [of E sr] by (force split: sum.splits)
qed auto

lemma decode_gaps_sound: "decode_gaps E sr samples bs = Inr ws \<Longrightarrow> w \<in> set ws \<Longrightarrow> word_sound w"
proof (induction E sr samples bs arbitrary: ws rule: decode_gaps.induct)
  case (2 E sr samples lo hi bs)
  then show ?case using decode_span_sound [of E sr] by (force simp: Let_def split: sum.splits if_splits)
qed auto

definition in_time_order :: "asr_word list \<Rightarrow> bool" where
  "in_time_order ws \<longleftrightarrow>
     sorted_wrt (\<lambda>v w. aw_start_ms v < aw_start_ms w \<or> aw_start_ms v = aw_start_ms w \<and> aw_end_ms v \<le> aw_end_ms w) ws"

lemma recover_gaps_keeps:
  assumes "recover_gaps E sr samples first = Inr t"
  shows "mset (at_words first) \<subseteq># mset (at_words t)" "at_words t = at_words first \<or> in_time_order (at_words t)"
    "0 < as_gap_ms E \<Longrightarrow> at_text t = join [32] (map aw_text (at_words t))"
    "(\<And>w. w \<in> set (at_words first) \<Longrightarrow> word_sound w) \<Longrightarrow> w \<in> set (at_words t) \<Longrightarrow> word_sound w"
proof -
  have srt: "in_time_order (sort_key aw_start_ms (sort_key aw_end_ms ws))" for ws
    unfolding in_time_order_def by (rule sorted_two_keys) simp
  show "mset (at_words first) \<subseteq># mset (at_words t)" "at_words t = at_words first \<or> in_time_order (at_words t)"
    "0 < as_gap_ms E \<Longrightarrow> at_text t = join [32] (map aw_text (at_words t))"
    using assms srt by (auto simp: recover_gaps_def Let_def split: if_splits sum.splits)
  show "(\<And>w. w \<in> set (at_words first) \<Longrightarrow> word_sound w) \<Longrightarrow> w \<in> set (at_words t) \<Longrightarrow> word_sound w"
    using assms decode_gaps_sound [of E sr samples _ _ w] by (auto simp: recover_gaps_def Let_def split: if_splits sum.splits)
qed

lemma first_pass_sound:
  assumes "(if c then decode_span E sr samples 0 else decode_windows E sr samples ws \<lparr>at_text = [], at_words = []\<rparr>) = Inr first"
    and "w \<in> set (at_words first)"
  shows "word_sound w"
  using assms decode_span_sound decode_windows_sound [of E sr samples ws "\<lparr>at_text = [], at_words = []\<rparr>" first w]
  by (auto split: if_splits)

text \<open>
  Whatever the recognizer answers, the transcript of a file is well formed. Every word has text and ends no
  earlier than it starts, through windows, repeated passes and recovered gaps; with gap recovery on, the flat text is
  the words joined by spaces. A file that cannot be read or parsed is an error, never an empty transcript.
\<close>

theorem transcript_well_formed:
  assumes "transcribe_file E from_bits file = Inr t"
  shows "(\<forall>w \<in> set (at_words t). aw_start_ms w \<le> aw_end_ms w \<and> aw_text w \<noteq> []) \<and>
    (0 < as_gap_ms E \<longrightarrow> at_text t = join [32] (map aw_text (at_words t))) \<and>
    (\<exists>audio. read_wav (as_arith E) from_bits file = Inr audio)"
proof -
  obtain audio where a: "read_wav (as_arith E) from_bits file = Inr audio" "transcribe_audio E audio = Inr t"
    using assms by (auto simp: transcribe_file_def split: sum.splits)
  define window where "window = as_usize (quot (as_window_ms E * uint (wv_rate audio)) 1000)"
  obtain first where
    f: "(if window = 0 \<or> length (wv_samples audio) \<le> window then decode_span E (uint (wv_rate audio)) (wv_samples audio) 0
         else decode_windows E (uint (wv_rate audio)) (wv_samples audio) (asr_windows (as_arith E) (wv_samples audio) window 0)
           \<lparr>at_text = [], at_words = []\<rparr>) = Inr first"
    and r: "recover_gaps E (uint (wv_rate audio)) (wv_samples audio) first = Inr t"
    using a(2) unfolding transcribe_audio_def Let_def window_def [symmetric] by (auto split: sum.splits)
  have "word_sound w" if "w \<in> set (at_words t)" for w
    using recover_gaps_keeps(4) [OF r first_pass_sound [OF f]] that by blast
  then show ?thesis using a(1) recover_gaps_keeps(3) [OF r] unfolding word_sound_def by blast
qed

section \<open>Gap recovery is not bound by the window\<close>

text \<open>
  The gaps are decoded without windows. When the recognizer hears nothing, the whole recording is one gap: a
  model that takes every window but no clip longer than one fails on any silent recording of whole milliseconds that is longer than its window.
\<close>

lemma decode_nothing:
  assumes "as_recognize E samples = Some \<lparr>rg_text = [], rg_tokens = [], rg_timestamps = None, rg_durations = None\<rparr>"
  shows "decode_span E sr samples off = Inr \<lparr>at_text = [], at_words = []\<rparr>"
  using assms by (simp add: decode_span_def decode_clip_def build_words_def spread_evenly_def split_whitespace_def
      MAX_RECOVERY_PASSES_def eval_nat_numeral push_piece_def trim_def trim_matches_def trim_start_matches_def trim_end_matches_def)

lemma decode_refused: "as_recognize E samples = None \<Longrightarrow> decode_span E sr samples off = Inl Model"
  by (simp add: decode_span_def decode_clip_def)

lemma silence_exceeds_window:
  assumes "wv_rate audio = 16000" and "as_gap_ms E = GAP_RECOVERY_MS" and "as_window_ms E = TRANSDUCER_WINDOW_MS"
    and "\<And>clip. length clip \<le> 480000 \<Longrightarrow>
      as_recognize E clip = Some \<lparr>rg_text = [], rg_tokens = [], rg_timestamps = None, rg_durations = None\<rparr>"
    and "\<And>clip. length clip > 480000 \<Longrightarrow> as_recognize E clip = None"
    and n: "length (wv_samples audio) = 16 * ms" "30000 < ms"
  shows "transcribe_audio E audio = Inl Model"
proof -
  have w: "as_usize (quot (as_window_ms E * 16000) 1000) = 480000"
    using assms(3) by (simp add: TRANSDUCER_WINDOW_MS_def quot_def as_usize_def)
  have silent: "decode_windows E sr samples ws acc = Inr acc'"
    if "\<forall>p \<in> set ws. snd p - fst p \<le> 480000" "acc = \<lparr>at_text = [], at_words = []\<rparr>" "acc' = acc" for sr samples ws acc acc'
    using that
  proof (induction ws arbitrary: acc acc')
    case (Cons p ws)
    obtain a b where p: "p = (a, b)" by (cases p)
    have "decode_span E sr (sub_slice samples a b) (quot (int a * 1000) sr) = Inr \<lparr>at_text = [], at_words = []\<rparr>"
      by (rule decode_nothing, rule assms(4)) (use Cons.prems(1) p in \<open>auto simp: sub_slice_def min_def\<close>)
    then show ?case using Cons.prems Cons.IH p
      by (simp add: push_piece_def trim_def trim_matches_def trim_start_matches_def trim_end_matches_def)
  qed simp
  let ?xs = "wv_samples audio"
  have "\<forall>p \<in> set (asr_windows (as_arith E) ?xs 480000 0). snd p - fst p \<le> 480000"
    using asr_windows_tile(2) [of 480000 0 ?xs] by auto
  then have d: "decode_windows E 16000 ?xs (asr_windows (as_arith E) ?xs 480000 0) \<lparr>at_text = [], at_words = []\<rparr> =
      Inr \<lparr>at_text = [], at_words = []\<rparr>" by (rule silent [OF _ refl refl])
  have t: "samples_to_ms (length ?xs) 16000 = int ms" using n by (simp add: samples_to_ms_def)
  have "ms_to_samples (int ms) 16000 = 16 * ms" using n by (simp add: ms_to_samples_def nat_mult_distrib)
  then have "decode_gaps E 16000 ?xs [(0, int ms)] = Inl Model"
    using n decode_refused [OF assms(5) [of ?xs]] by (simp add: sub_slice_def Let_def) (simp add: ms_to_samples_def)
  then have "recover_gaps E 16000 ?xs \<lparr>at_text = [], at_words = []\<rparr> = Inl Model"
    using n t assms(2) by (simp add: recover_gaps_def GAP_RECOVERY_MS_def)
  then show ?thesis using n w d assms(1) by (simp add: transcribe_audio_def Let_def)
qed

section \<open>Examples\<close>

lemma decode_span_once:
  assumes "decode_clip E sr samples (off + samples_to_ms 0 sr) = Inr part"
    and "at_words part = [] \<or> \<not> needs_recovery (as_covers_little E) 0 (ms_to_samples (aw_end_ms (last (at_words part)) - off) sr) (length samples) sr"
  shows "decode_span E sr samples off = Inr \<lparr>at_text = push_piece [] (at_text part), at_words = at_words part\<rparr>"
  using assms by (auto simp: decode_span_def Let_def)

definition deaf_engine :: "real asr_engine" where
  "deaf_engine = \<lparr>as_arith = real_arith,
     as_recognize = (\<lambda>_. Some \<lparr>rg_text = lit ''hi you'', rg_tokens = [], rg_timestamps = None, rg_durations = None\<rparr>),
     as_sec_to_ms = (\<lambda>s. \<lfloor>s * 1000\<rfloor>), as_covers_little = (\<lambda>a b. 4 * a < 3 * b), as_window_ms = TRANSDUCER_WINDOW_MS, as_gap_ms = 0\<rparr>"

theorem asr_windows_cover_witness:
  "let ws = asr_windows real_arith (replicate 5 0) 2 0
   in tiles 0 5 ws \<and> concat (map (\<lambda>p. sub_slice (replicate 5 (0 :: real)) (fst p) (snd p)) ws) = replicate 5 0"
  using asr_windows_cover [where window = 2 and A = real_arith and samples = "replicate 5 0", OF _ refl] by (simp add: Let_def)

lemma four_samples: "read_wav real_arith (\<lambda>_. 0) (Some (write_pcm16_mono 1000 [1, 2, 3, 4])) =
    Inr \<lparr>wv_rate = 1000, wv_channels = 1, wv_samples = [1 / 32768, 2 / 32768, 3 / 32768, 4 / 32768]\<rparr>"
proof -
  have "parse_wav real_arith (\<lambda>_. 0) (write_pcm16_mono 1000 [1, 2, 3, 4]) =
      Inr \<lparr>wv_rate = 1000, wv_channels = 1, wv_samples = [1 / 32768, 2 / 32768, 3 / 32768, 4 / 32768]\<rparr>"
    using parse_pcm16 [of "[1, 2, 3, 4]" real_arith "\<lambda>_. 0" 1000] by (simp add: pcm16_wav_def) (simp add: real_arith_def)
  then show ?thesis by (simp add: read_wav_def)
qed

theorem transcript_well_formed_witness:
  "\<exists>t. transcribe_file deaf_engine (\<lambda>_. 0) (Some (write_pcm16_mono 1000 [1, 2, 3, 4])) = Inr t \<and> length (at_words t) = 2 \<and>
     (\<forall>w \<in> set (at_words t). aw_start_ms w \<le> aw_end_ms w)"
proof -
  let ?r = "transcribe_file deaf_engine (\<lambda>_. 0) (Some (write_pcm16_mono 1000 [1, 2, 3, 4]))"
  have w: "split_whitespace (lit ''hi you'') = [lit ''hi'', lit ''you'']"
    by (simp add: split_whitespace_def is_ws_def)
  define xs where "xs = [1 / 32768, 2 / 32768, 3 / 32768, 4 / 32768 :: real]"
  have c: "decode_clip deaf_engine 1000 xs 0 = Inr \<lparr>at_text = lit ''hi you'', at_words = spread_evenly (lit ''hi you'') 4\<rparr>"
    by (simp add: decode_clip_def deaf_engine_def build_words_def samples_to_ms_def xs_def del: lit_Cons)
  have l: "length (spread_evenly (lit ''hi you'') 4) = 2" "aw_end_ms (last (spread_evenly (lit ''hi you'') 4)) = 4"
    by (simp_all add: spread_evenly_def w Let_def quot_def del: lit_Cons)
  have "decode_span deaf_engine 1000 xs 0 = Inr \<lparr>at_text = push_piece [] (lit ''hi you''), at_words = spread_evenly (lit ''hi you'') 4\<rparr>"
    using decode_span_once [of deaf_engine 1000 xs 0, OF _ disjI2] c l
    by (simp add: samples_to_ms_def needs_recovery_def ms_to_samples_def xs_def del: lit_Cons)
  then have "\<exists>t. ?r = Inr t \<and> length (at_words t) = 2"
    using l by (simp add: transcribe_file_def four_samples transcribe_audio_def TRANSDUCER_WINDOW_MS_def quot_def as_usize_def
        recover_gaps_def deaf_engine_def xs_def del: lit_Cons)
  then obtain t where "?r = Inr t" "length (at_words t) = 2" by blast
  then show ?thesis using transcript_well_formed by blast
qed

end
