(* ===== verification/Scribe_Models.thy ===== *)
theory Scribe_Models
  imports Scribe_Asr
begin

text \<open>
  The model files of the speech engine: where they are looked for and which engine is loaded
  (\<open>crates/scribe-asr/src/models.rs\<close>, \<open>engine.rs\<close>), the deterministic stub that stands in for them
  (\<open>stub.rs\<close>), and the command that downloads them (\<open>crates/scribe-cli/src/models.rs\<close>).

  A file system is its files with their sizes and its directories. The order in which a directory is
  read, what the network serves and whether an operation on a file succeeds are arguments.
\<close>

section \<open>Paths and files\<close>

text \<open>A path up to its last separator, and what follows it.\<close>

definition split_path :: "rstr \<Rightarrow> (rstr \<times> rstr) option" where
  "split_path p =
     (case dropWhile (\<lambda>c. c \<noteq> 47) (rev p) of
        [] \<Rightarrow> None
      | _ # r \<Rightarrow> Some (rev r, rev (takeWhile (\<lambda>c. c \<noteq> 47) (rev p))))"

definition path_parent :: "rstr \<Rightarrow> rstr option" where
  "path_parent p = map_option fst (split_path p)"

definition path_file_name :: "rstr \<Rightarrow> rstr" where
  "path_file_name p = (case split_path p of None \<Rightarrow> p | Some (_, n) \<Rightarrow> n)"

text \<open>\<open>Path::with_extension\<close> of a path whose last component is a file name.\<close>

definition with_extension :: "rstr \<Rightarrow> rstr \<Rightarrow> rstr" where
  "with_extension p ext =
     (let name = path_file_name p;
          stem = (case dropWhile (\<lambda>c. c \<noteq> 46) (rev name) of
                    [] \<Rightarrow> name
                  | _ # r \<Rightarrow> if r = [] then name else rev r)
      in take (length p - length name) p @ stem @ [46] @ ext)"

record model_fs =
  mf_files :: "(rstr \<times> nat) list"
  mf_dirs :: "rstr list"

definition fs_is_dir :: "model_fs \<Rightarrow> rstr \<Rightarrow> bool" where
  "fs_is_dir F p \<longleftrightarrow> p \<in> set (mf_dirs F)"

definition fs_exists :: "model_fs \<Rightarrow> rstr \<Rightarrow> bool" where
  "fs_exists F p \<longleftrightarrow> p \<in> fst ` set (mf_files F) \<or> fs_is_dir F p"

text \<open>The entries of a directory in the order \<open>arrange\<close> of the file system.\<close>

definition read_dir :: "(rstr list \<Rightarrow> rstr list) \<Rightarrow> model_fs \<Rightarrow> rstr \<Rightarrow> rstr list option" where
  "read_dir arrange F base =
     (if fs_is_dir F base
      then Some (arrange (filter (\<lambda>p. path_parent p = Some base) (mf_dirs F @ map fst (mf_files F)))) else None)"

section \<open>Discovery\<close>

datatype asr_model_paths =
    Transducer (mp_encoder: rstr) (mp_decoder: rstr) (mp_joiner: rstr) (mp_tokens: rstr)
  | Whisper (mp_encoder: rstr) (mp_decoder: rstr) (mp_tokens: rstr)

record diarization_model_paths =
  dp_segmentation :: rstr
  dp_embedding :: rstr

definition first_existing :: "model_fs \<Rightarrow> rstr list \<Rightarrow> rstr option" where
  "first_existing F ps = find (fs_exists F) ps"

text \<open>\<open>?\<close> on three and two candidates.\<close>

definition transducer_paths :: "model_fs \<Rightarrow> rstr \<Rightarrow> rstr \<Rightarrow> asr_model_paths option" where
  "transducer_paths F dir tokens =
     (case first_existing F [path_join dir (lit ''encoder.onnx''), path_join dir (lit ''encoder.int8.onnx'')] of
        None \<Rightarrow> None
      | Some encoder \<Rightarrow>
     (case first_existing F [path_join dir (lit ''decoder.onnx''), path_join dir (lit ''decoder.int8.onnx'')] of
        None \<Rightarrow> None
      | Some decoder \<Rightarrow>
     (case first_existing F [path_join dir (lit ''joiner.onnx''), path_join dir (lit ''joiner.int8.onnx'')] of
        None \<Rightarrow> None
      | Some joiner \<Rightarrow> Some (Transducer encoder decoder joiner tokens))))"

definition whisper_paths :: "model_fs \<Rightarrow> rstr \<Rightarrow> rstr \<Rightarrow> asr_model_paths option" where
  "whisper_paths F dir tokens =
     (case first_existing F [path_join dir (lit ''encoder.onnx''), path_join dir (lit ''whisper-encoder.onnx'')] of
        None \<Rightarrow> None
      | Some encoder \<Rightarrow>
     (case first_existing F [path_join dir (lit ''decoder.onnx''), path_join dir (lit ''whisper-decoder.onnx'')] of
        None \<Rightarrow> None
      | Some decoder \<Rightarrow> Some (Whisper encoder decoder tokens)))"

definition layout_in :: "model_fs \<Rightarrow> rstr \<Rightarrow> asr_model_paths option" where
  "layout_in F dir =
     (let tokens = path_join dir (lit ''tokens.txt'') in
      if \<not> fs_exists F tokens then None
      else case transducer_paths F dir tokens of Some p \<Rightarrow> Some p | None \<Rightarrow> whisper_paths F dir tokens)"

definition model_subdir :: "(rstr list \<Rightarrow> rstr list) \<Rightarrow> model_fs \<Rightarrow> rstr \<Rightarrow> rstr \<Rightarrow> rstr option" where
  "model_subdir arrange F base model =
     (let want = trim model in
      if want = [] then None
      else if fs_is_dir F (path_join base want) then Some (path_join base want)
      else case read_dir arrange F base of
        None \<Rightarrow> None
      | Some ps \<Rightarrow> find (\<lambda>p. fs_is_dir F p \<and> eq_ignore_ascii_case (path_file_name p) want) ps)"

definition discover_for :: "(rstr list \<Rightarrow> rstr list) \<Rightarrow> model_fs \<Rightarrow> rstr \<Rightarrow> rstr \<Rightarrow> asr_model_paths option" where
  "discover_for arrange F models_dir model =
     (let base = path_join models_dir (lit ''asr'') in
      case (case model_subdir arrange F base model of None \<Rightarrow> None | Some dir \<Rightarrow> layout_in F dir) of
        Some p \<Rightarrow> Some p
      | None \<Rightarrow> layout_in F base)"

text \<open>\<open>by_path\<close> sorts paths by their components.\<close>

fun find_map :: "('a \<Rightarrow> 'b option) \<Rightarrow> 'a list \<Rightarrow> 'b option" where
  "find_map f [] = None"
| "find_map f (x # xs) = (case f x of Some y \<Rightarrow> Some y | None \<Rightarrow> find_map f xs)"

definition discover :: "(rstr list \<Rightarrow> rstr list) \<Rightarrow> (rstr list \<Rightarrow> rstr list) \<Rightarrow> model_fs \<Rightarrow> rstr \<Rightarrow> asr_model_paths option" where
  "discover arrange by_path F models_dir =
     (let base = path_join models_dir (lit ''asr'') in
      case layout_in F base of
        Some p \<Rightarrow> Some p
      | None \<Rightarrow>
     (case read_dir arrange F base of
        None \<Rightarrow> None
      | Some ps \<Rightarrow> find_map (layout_in F) (by_path (filter (fs_is_dir F) ps))))"

definition discover_diarization :: "model_fs \<Rightarrow> rstr \<Rightarrow> diarization_model_paths option" where
  "discover_diarization F models_dir =
     (let dir = path_join models_dir (lit ''diarization'') in
      case first_existing F [path_join dir (lit ''segmentation.onnx''), path_join dir (lit ''segmentation.int8.onnx'')] of
        None \<Rightarrow> None
      | Some segmentation \<Rightarrow>
     (case first_existing F [path_join dir (lit ''embedding.onnx''), path_join dir (lit ''embedding.int8.onnx'')] of
        None \<Rightarrow> None
      | Some embedding \<Rightarrow> Some \<lparr>dp_segmentation = segmentation, dp_embedding = embedding\<rparr>))"

fun layout_name :: "asr_model_paths \<Rightarrow> rstr" where
  "layout_name (Transducer _ _ _ _) = lit ''transducer''"
| "layout_name (Whisper _ _ _) = lit ''whisper''"

definition model_dir :: "asr_model_paths \<Rightarrow> rstr" where
  "model_dir p = (case path_parent (mp_tokens p) of None \<Rightarrow> lit ''.'' | Some d \<Rightarrow> d)"

definition real_models_present :: "(rstr list \<Rightarrow> rstr list) \<Rightarrow> model_fs \<Rightarrow> rstr \<Rightarrow> rstr \<Rightarrow> bool \<Rightarrow> bool" where
  "real_models_present arrange F models_dir model diarization \<longleftrightarrow>
     (if discover_for arrange F models_dir model = None then False
      else if diarization \<and> discover_diarization F models_dir = None then False
      else True)"

section \<open>Loading the engine\<close>

datatype backend = Onnx | Stub

text \<open>\<open>native\<close> is what initialising the three models from their paths answers.\<close>

definition load_real ::
  "(rstr list \<Rightarrow> rstr list) \<Rightarrow> (asr_model_paths \<Rightarrow> diarization_model_paths \<Rightarrow> unit res) \<Rightarrow> model_fs \<Rightarrow> rstr \<Rightarrow> rstr \<Rightarrow> backend res" where
  "load_real arrange native F models_dir model =
     (case discover_for arrange F models_dir model of
        None \<Rightarrow> Inl Model
      | Some ap \<Rightarrow>
     (case discover_diarization F models_dir of
        None \<Rightarrow> Inl Model
      | Some dp \<Rightarrow> (case native ap dp of Inl e \<Rightarrow> Inl e | Inr _ \<Rightarrow> Inr Onnx)))"

text \<open>\<open>onnx\<close> is the build feature.\<close>

definition load_engine ::
  "bool \<Rightarrow> (rstr list \<Rightarrow> rstr list) \<Rightarrow> (asr_model_paths \<Rightarrow> diarization_model_paths \<Rightarrow> unit res) \<Rightarrow> model_fs \<Rightarrow>
     rstr \<Rightarrow> rstr \<Rightarrow> bool \<Rightarrow> backend res" where
  "load_engine onnx arrange native F models_dir model diarization =
     (if onnx \<and> real_models_present arrange F models_dir model diarization
      then load_real arrange native F models_dir model else Inr Stub)"

section \<open>The stub\<close>

definition WORDS_PER_5S :: int where "WORDS_PER_5S = 4"
definition TURN_MS :: int where "TURN_MS = 10000"

text \<open>The length of the recording, nothing when it cannot be read.\<close>

definition stub_duration :: "'f arith \<Rightarrow> (32 word \<Rightarrow> 'f) \<Rightarrow> byte list option \<Rightarrow> int" where
  "stub_duration A from_bits file =
     (case read_wav A from_bits file of Inr w \<Rightarrow> max (duration_ms w) 0 | Inl _ \<Rightarrow> 0)"

definition stub_tokens :: "rstr list" where
  "stub_tokens = [lit ''[stub'', lit ''transcription]'', lit ''scribe'', lit ''asr'']"

definition stub_word :: "int \<Rightarrow> int \<Rightarrow> nat \<Rightarrow> asr_word" where
  "stub_word dur step i =
     (let start = int i * step; stop = min (start + (step - 1)) dur
      in \<lparr>aw_text = stub_tokens ! (i mod length stub_tokens), aw_start_ms = start, aw_end_ms = max stop start, aw_conf = ONE\<rparr>)"

definition stub_transcribe :: "int \<Rightarrow> asr_transcript" where
  "stub_transcribe ms =
     (let dur = max ms 1000;
          n = max 3 (min 64 (quot (dur * WORDS_PER_5S) 5000));
          words = map (stub_word dur (quot dur n)) [0..<nat n]
      in \<lparr>at_text = join [32] (map aw_text words), at_words = words\<rparr>)"

function stub_turns :: "int \<Rightarrow> nat \<Rightarrow> int \<Rightarrow> nat \<Rightarrow> turn_artifact list" where
  "stub_turns dur n start i =
     (if start < dur
      then let stop = min (start + TURN_MS) dur in
           \<lparr>t_local_idx = int i mod int n, t_start_ms = start, t_end_ms = stop\<rparr> # stub_turns dur n stop (i + 1)
      else [])"
  by pat_completeness auto
termination by (relation "measure (\<lambda>(dur, n, start, i). nat (dur - start))") (auto simp: TURN_MS_def)

declare stub_turns.simps [simp del]

text \<open>\<open>unit_vector\<close> is the embedding derived from the three seed bytes of a speaker.\<close>

definition stub_diarize :: "(byte list \<Rightarrow> f32 list) \<Rightarrow> int \<Rightarrow> int option \<Rightarrow> diarization" where
  "stub_diarize unit_vector ms expected =
     (let dur = max ms 1000;
          n = nat (max (case expected of None \<Rightarrow> 2 | Some k \<Rightarrow> k) 1);
          turns = stub_turns dur n 0 0
      in \<lparr>dz_turns = (if turns = [] then [\<lparr>t_local_idx = 0, t_start_ms = 0, t_end_ms = dur\<rparr>] else turns),
          dz_embeddings = map (\<lambda>s. (int s, unit_vector [0x5E, 0xED, of_nat s])) [0..<n],
          dz_num_speakers = n\<rparr>)"

section \<open>Downloading\<close>

record model_config =
  mc_models_dir :: rstr
  mc_model :: rstr
  mc_diarization :: bool

record download =
  dl_label :: rstr
  dl_url :: rstr
  dl_dest :: rstr
  dl_bytes :: nat

definition PARAKEET :: rstr where "PARAKEET = lit ''parakeet-tdt-0.6b-v3''"
definition WHISPER_TURBO :: rstr where "WHISPER_TURBO = lit ''whisper-large-v3-turbo''"

definition hf :: "rstr \<Rightarrow> rstr \<Rightarrow> rstr" where
  "hf repo name = lit ''https://huggingface.co/'' @ repo @ lit ''/resolve/main/'' @ name"

definition asr_recipe :: "rstr \<Rightarrow> (string \<times> string \<times> nat) list" where
  "asr_recipe model =
     (if model = PARAKEET then
        [(''encoder.onnx'', ''encoder.onnx'', 41766257), (''encoder.weights'', ''encoder.weights'', 2435420160),
         (''decoder.onnx'', ''decoder.onnx'', 47233743), (''joiner.onnx'', ''joiner.onnx'', 25286330),
         (''tokens.txt'', ''tokens.txt'', 93939)]
      else if model = WHISPER_TURBO then
        [(''turbo-encoder.onnx'', ''encoder.onnx'', 735920), (''turbo-decoder.onnx'', ''decoder.onnx'', 636209532),
         (''turbo-tokens.txt'', ''tokens.txt'', 816730), (''turbo-encoder.weights'', ''turbo-encoder.weights'', 2600325120)]
      else [])"

definition asr_downloads :: "model_config \<Rightarrow> download list" where
  "asr_downloads cfg =
     (let repo = (if mc_model cfg = PARAKEET then lit ''csukuangfj/sherpa-onnx-nemo-parakeet-tdt-0.6b-v3''
                  else lit ''csukuangfj/sherpa-onnx-whisper-turbo'');
          asr_dir = path_join (path_join (mc_models_dir cfg) (lit ''asr'')) (mc_model cfg)
      in map (\<lambda>(remote, local, bytes).
           \<lparr>dl_label = lit ''asr/'' @ mc_model cfg @ lit ''/'' @ lit local, dl_url = hf repo (lit remote),
            dl_dest = path_join asr_dir (lit local), dl_bytes = bytes\<rparr>) (asr_recipe (mc_model cfg)))"

definition diarization_downloads :: "model_config \<Rightarrow> download list" where
  "diarization_downloads cfg =
     (let diar = path_join (mc_models_dir cfg) (lit ''diarization'') in
      if mc_diarization cfg then
        [\<lparr>dl_label = lit ''diarization/segmentation.onnx'',
          dl_url = hf (lit ''csukuangfj/sherpa-onnx-pyannote-segmentation-3-0'') (lit ''model.onnx''),
          dl_dest = path_join diar (lit ''segmentation.onnx''), dl_bytes = 5992913\<rparr>,
         \<lparr>dl_label = lit ''diarization/embedding.onnx'',
          dl_url = lit ''https://github.com/k2-fsa/sherpa-onnx/releases/download/speaker-recongition-models/3dspeaker_speech_eres2net_sv_en_voxceleb_16k.onnx'',
          dl_dest = path_join diar (lit ''embedding.onnx''), dl_bytes = 26485263\<rparr>]
      else [])"

definition plan :: "model_config \<Rightarrow> download list" where
  "plan cfg = asr_downloads cfg @ diarization_downloads cfg"

text \<open>
  What happens to one download: whether its directory could be made, the answer of the server with the
  announced length, whether the partial file could be created, the sizes of the chunks that arrived,
  whether the stream and the writing ended well, and whether the file could be renamed.
\<close>

record served =
  sv_mkdir :: bool
  sv_answer :: "nat option option"
  sv_create :: bool
  sv_chunks :: "nat list"
  sv_stream :: bool
  sv_rename :: bool

text \<open>\<open>create_dir_all\<close>: the directory and what leads to it.\<close>

function ancestors :: "rstr \<Rightarrow> rstr list" where
  "ancestors p = (case path_parent p of None \<Rightarrow> [p] | Some q \<Rightarrow> if length q < length p then p # ancestors q else [p])"
  by pat_completeness auto
termination by (relation "measure length") auto

declare ancestors.simps [simp del]

definition create_dir_all :: "rstr \<Rightarrow> model_fs \<Rightarrow> model_fs" where
  "create_dir_all p F = F\<lparr>mf_dirs := mf_dirs F @ filter (\<lambda>q. \<not> fs_is_dir F q) (ancestors p)\<rparr>"

definition write_size :: "rstr \<Rightarrow> nat \<Rightarrow> model_fs \<Rightarrow> model_fs" where
  "write_size p n F = F\<lparr>mf_files := (p, n) # filter (\<lambda>x. fst x \<noteq> p) (mf_files F)\<rparr>"

definition remove_file :: "rstr \<Rightarrow> model_fs \<Rightarrow> model_fs" where
  "remove_file p F = F\<lparr>mf_files := filter (\<lambda>x. fst x \<noteq> p) (mf_files F)\<rparr>"

definition fetch :: "served \<Rightarrow> download \<Rightarrow> model_fs \<Rightarrow> bool \<times> model_fs" where
  "fetch sv d F =
     (let F1 = (case path_parent (dl_dest d) of None \<Rightarrow> F | Some q \<Rightarrow> if sv_mkdir sv then create_dir_all q F else F);
          part = with_extension (dl_dest d) (lit ''part'');
          written = sum_list (sv_chunks sv)
      in if path_parent (dl_dest d) \<noteq> None \<and> \<not> sv_mkdir sv then (False, F1)
         else case sv_answer sv of
           None \<Rightarrow> (False, F1)
         | Some expected \<Rightarrow>
             if \<not> sv_create sv then (False, F1)
             else if \<not> sv_stream sv then (False, remove_file part (write_size part written F1))
             else if is_some_and expected (\<lambda>t. written \<noteq> t) then (False, remove_file part (write_size part written F1))
             else if \<not> sv_rename sv then (False, write_size part written F1)
             else (True, write_size (dl_dest d) written (remove_file part (write_size part written F1))))"

fun fetch_all :: "(rstr \<Rightarrow> served) \<Rightarrow> download list \<Rightarrow> model_fs \<Rightarrow> bool \<times> model_fs" where
  "fetch_all net [] F = (True, F)"
| "fetch_all net (d # ds) F =
     (case fetch (net (dl_url d)) d F of
        (False, F') \<Rightarrow> (False, F')
      | (True, F') \<Rightarrow> fetch_all net ds F')"

definition manual_guidance ::
  "(rstr list \<Rightarrow> rstr list) \<Rightarrow> (rstr list \<Rightarrow> rstr list) \<Rightarrow> model_config \<Rightarrow> model_fs \<Rightarrow> bool" where
  "manual_guidance arrange by_path cfg F \<longleftrightarrow>
     (let asr_ready = (discover arrange by_path F (mc_models_dir cfg) \<noteq> None);
          diar_ready = (\<not> mc_diarization cfg \<or> discover_diarization F (mc_models_dir cfg) \<noteq> None)
      in asr_ready \<and> diar_ready)"

text \<open>\<open>client\<close> says whether the HTTP client could be built; what is printed is left out.\<close>

definition pull ::
  "(rstr list \<Rightarrow> rstr list) \<Rightarrow> (rstr list \<Rightarrow> rstr list) \<Rightarrow> (rstr \<Rightarrow> served) \<Rightarrow> bool \<Rightarrow> model_config \<Rightarrow> bool \<Rightarrow> bool \<Rightarrow>
     model_fs \<Rightarrow> bool \<times> model_fs" where
  "pull arrange by_path net client cfg force dry_run F =
     (let all = plan cfg in
      if all = [] then (manual_guidance arrange by_path cfg F, F)
      else let todo = filter (\<lambda>d. force \<or> \<not> fs_exists F (dl_dest d)) all in
           if todo = [] then (manual_guidance arrange by_path cfg F, F)
           else if dry_run then (True, F)
           else if \<not> client then (False, F)
           else case fetch_all net todo F of
             (False, F') \<Rightarrow> (False, F')
           | (True, F') \<Rightarrow> (manual_guidance arrange by_path cfg F', F'))"

section \<open>Paths\<close>

lemma path_join_tail: "\<exists>pre. path_join a b = pre @ b"
  unfolding path_join_def by (metis append.assoc append_Nil)

lemma path_join_simple: "a \<noteq> [] \<Longrightarrow> last a \<noteq> 47 \<Longrightarrow> 47 \<notin> set b \<Longrightarrow> path_join a b = a @ 47 # b"
  by (cases b) (auto simp: path_join_def)

lemma dropWhile_sep: "47 \<notin> set n \<Longrightarrow> dropWhile (\<lambda>c. c \<noteq> 47) (rev n @ 47 # r) = 47 # r"
  by (subst dropWhile_append2) auto

lemma takeWhile_sep: "47 \<notin> set n \<Longrightarrow> takeWhile (\<lambda>c. c \<noteq> 47) (rev n @ 47 # r) = rev n"
  by (subst takeWhile_append2) auto

lemma split_path_sep: "47 \<notin> set n \<Longrightarrow> split_path (D @ 47 # n) = Some (D, n)"
  by (simp add: split_path_def dropWhile_sep takeWhile_sep)

lemma path_parent_sep: "47 \<notin> set n \<Longrightarrow> path_parent (D @ 47 # n) = Some D"
  by (simp add: path_parent_def split_path_sep)

lemma path_parent_shorter:
  assumes "path_parent p = Some q"
  shows "length q < length p"
proof -
  obtain r where "dropWhile (\<lambda>c. c \<noteq> 47) (rev p) = 47 # r \<or> (\<exists>c. dropWhile (\<lambda>c. c \<noteq> 47) (rev p) = c # r)" and q: "q = rev r"
    using assms by (auto simp: path_parent_def split_path_def split: list.splits)
  then have "Suc (length r) \<le> length (rev p)"
    by (metis length_Cons length_dropWhile_le)
  then show ?thesis using q by simp
qed

lemma with_extension_tail: "\<exists>x. with_extension p (lit ''part'') = x @ lit ''.part''"
  by (simp add: with_extension_def Let_def)

lemma set_ancestors_closed: "p \<in> set (ancestors D) \<Longrightarrow> path_parent p = Some q \<Longrightarrow> q \<in> set (ancestors D)"
proof (induction D rule: ancestors.induct)
  case (1 D)
  show ?case
  proof (cases "path_parent D")
    case None
    then show ?thesis using 1 by (simp add: ancestors.simps [of D])
  next
    case (Some r)
    have l: "length r < length D" by (rule path_parent_shorter [OF Some])
    have a: "ancestors D = D # ancestors r" using Some l by (subst ancestors.simps) simp
    have r: "r \<in> set (ancestors r)" by (subst ancestors.simps) (simp split: option.split)
    show ?thesis using 1(1) [OF Some l] 1(2,3) Some r unfolding a by auto
  qed
qed

lemma self_ancestor: "D \<in> set (ancestors D)"
  by (subst ancestors.simps) (simp split: option.split)

section \<open>Downloads never leave a truncated file\<close>

definition file_size :: "model_fs \<Rightarrow> rstr \<Rightarrow> nat option" where
  "file_size F p = map_of (mf_files F) p"

lemma map_of_filter_key: "map_of (filter (\<lambda>x. fst x \<noteq> p) xs) q = (if q = p then None else map_of xs q)"
  by (induction xs) auto

lemma file_size_ops [simp]:
  "file_size (write_size p n F) q = (if q = p then Some n else file_size F q)"
  "file_size (remove_file p F) q = (if q = p then None else file_size F q)"
  "file_size (create_dir_all p F) q = file_size F q"
  by (simp_all add: file_size_def write_size_def remove_file_def create_dir_all_def map_of_filter_key)

definition partial_file :: "download \<Rightarrow> rstr" where
  "partial_file d = with_extension (dl_dest d) (lit ''part'')"

text \<open>The size a download may leave: what arrived, which is what was announced if anything was.\<close>

definition complete_size :: "(rstr \<Rightarrow> served) \<Rightarrow> download list \<Rightarrow> rstr \<Rightarrow> nat option \<Rightarrow> bool" where
  "complete_size net ds p s \<longleftrightarrow> (\<exists>d \<in> set ds. dl_dest d = p \<and>
     (\<exists>expected. sv_answer (net (dl_url d)) = Some expected \<and> s = Some (sum_list (sv_chunks (net (dl_url d)))) \<and>
        (\<forall>n. expected = Some n \<longrightarrow> s = Some n)))"

lemma fetch_complete:
  assumes "fetch sv d F = (b, F')" and "p \<noteq> partial_file d"
  shows "file_size F' p = file_size F p \<or>
    p = dl_dest d \<and> (\<exists>expected. sv_answer sv = Some expected \<and> file_size F' p = Some (sum_list (sv_chunks sv)) \<and>
        (\<forall>n. expected = Some n \<longrightarrow> file_size F' p = Some n))"
  using assms
  by (auto simp: fetch_def Let_def partial_file_def is_some_and_def split: option.splits if_splits)

lemma fetch_all_complete:
  assumes "set ds \<subseteq> set ds'" and "\<forall>d \<in> set ds. p \<noteq> partial_file d"
    and "file_size F p = s \<or> complete_size net ds' p (file_size F p)"
  shows "file_size (snd (fetch_all net ds F)) p = s \<or> complete_size net ds' p (file_size (snd (fetch_all net ds F)) p)"
  using assms
proof (induction ds arbitrary: F)
  case (Cons d ds)
  obtain b F' where f: "fetch (net (dl_url d)) d F = (b, F')" by fastforce
  have "file_size F' p = file_size F p \<or> complete_size net ds' p (file_size F' p)"
    using fetch_complete [OF f, of p] Cons.prems(1,2) by (auto simp: complete_size_def)
  then have "file_size F' p = s \<or> complete_size net ds' p (file_size F' p)" using Cons.prems(3) by auto
  then show ?case using Cons f by (cases b) auto
qed simp

text \<open>
  Pulling the models never leaves a truncated file. Whatever the network and the file system do, after
  the command every file other than the partial ones is as it was, or it is the destination of a download
  and holds as many bytes as the server announced.
\<close>

theorem pull_never_truncates:
  assumes "\<forall>d \<in> set (plan cfg). p \<noteq> partial_file d"
  shows "file_size (snd (pull arrange by_path net client cfg force dry_run F)) p = file_size F p \<or>
    (\<exists>d \<in> set (plan cfg). dl_dest d = p \<and>
      (\<exists>expected. sv_answer (net (dl_url d)) = Some expected \<and>
        (\<forall>n. expected = Some n \<longrightarrow>
           file_size (snd (pull arrange by_path net client cfg force dry_run F)) p = Some n)))"
proof -
  let ?todo = "filter (\<lambda>d. force \<or> \<not> fs_exists F (dl_dest d)) (plan cfg)"
  have a: "file_size (snd (fetch_all net ?todo F)) p = file_size F p \<or>
      complete_size net (plan cfg) p (file_size (snd (fetch_all net ?todo F)) p)"
    using assms by (intro fetch_all_complete) auto
  have "snd (pull arrange by_path net client cfg force dry_run F) \<in> {F, snd (fetch_all net ?todo F)}"
    by (cases "fetch_all net ?todo F") (auto simp: pull_def Let_def split: bool.split)
  then show ?thesis using a by (auto simp: complete_size_def)
qed

section \<open>A complete pull gives a real engine\<close>

text \<open>A file system in which what exists is inside directories that exist.\<close>

definition fs_ok :: "model_fs \<Rightarrow> bool" where
  "fs_ok F \<longleftrightarrow> (\<forall>p q. fs_exists F p \<longrightarrow> path_parent p = Some q \<longrightarrow> fs_is_dir F q)"

definition serves :: "served \<Rightarrow> bool" where
  "serves sv \<longleftrightarrow> sv_mkdir sv \<and> sv_create sv \<and> sv_stream sv \<and> sv_rename sv \<and>
     sv_answer sv = Some (Some (sum_list (sv_chunks sv)))"

lemma fs_is_dir_ops [simp]:
  "fs_is_dir (write_size p n F) q = fs_is_dir F q" "fs_is_dir (remove_file p F) q = fs_is_dir F q"
  "fs_is_dir (create_dir_all p F) q \<longleftrightarrow> fs_is_dir F q \<or> q \<in> set (ancestors p)"
  by (auto simp: fs_is_dir_def write_size_def remove_file_def create_dir_all_def)

lemma fs_exists_size: "fs_exists F p \<longleftrightarrow> file_size F p \<noteq> None \<or> fs_is_dir F p"
  by (auto simp: fs_exists_def file_size_def map_of_eq_None_iff)

text \<open>What one complete download does.\<close>

lemma fetch_served:
  assumes "serves sv" and "path_parent (dl_dest d) = Some D"
  shows "\<exists>F'. fetch sv d F = (True, F') \<and> fs_exists F' (dl_dest d) \<and>
    (\<forall>q. fs_is_dir F' q \<longleftrightarrow> fs_is_dir F q \<or> q \<in> set (ancestors D)) \<and>
    (\<forall>q. q \<noteq> partial_file d \<longrightarrow> fs_exists F q \<longrightarrow> fs_exists F' q) \<and> (fs_ok F \<longrightarrow> fs_ok F')"
proof -
  let ?n = "sum_list (sv_chunks sv)" and ?part = "partial_file d"
  define F' where "F' = write_size (dl_dest d) ?n (remove_file ?part (write_size ?part ?n (create_dir_all D F)))"
  have f: "fetch sv d F = (True, F')"
    using assms by (simp add: Let_def fetch_def serves_def F'_def partial_file_def is_some_and_def)
  have d: "fs_is_dir F' q \<longleftrightarrow> fs_is_dir F q \<or> q \<in> set (ancestors D)" for q by (simp add: F'_def)
  have e: "fs_exists F' q \<longleftrightarrow> q = dl_dest d \<or> fs_is_dir F' q \<or> q \<noteq> ?part \<and> file_size F q \<noteq> None" for q
    by (auto simp: fs_exists_size F'_def)
  have "fs_ok F'" if "fs_ok F"
    unfolding fs_ok_def
  proof (intro allI impI)
    fix q r assume q: "fs_exists F' q" "path_parent q = Some r"
    show "fs_is_dir F' r"
    proof (cases "q \<in> set (ancestors D) \<or> q = dl_dest d")
      case True
      then show ?thesis using q(2) assms(2) set_ancestors_closed self_ancestor [of D] by (auto simp: d)
    next
      case False
      then have "fs_is_dir F q \<or> file_size F q \<noteq> None" using q(1) e d by blast
      then have "fs_exists F q" by (auto simp: fs_exists_size)
      then show ?thesis using that q(2) by (auto simp: d fs_ok_def)
    qed
  qed
  moreover have "\<forall>q. q \<noteq> ?part \<longrightarrow> fs_exists F q \<longrightarrow> fs_exists F' q"
    using e d fs_exists_size [of F] by blast
  ultimately show ?thesis using f d e by blast
qed

lemma fetch_all_served:
  assumes "\<forall>d \<in> set ds. serves (net (dl_url d)) \<and> path_parent (dl_dest d) \<noteq> None"
    and "\<forall>d \<in> set ds. \<forall>d' \<in> set ds'. dl_dest d' \<noteq> partial_file d" and "set ds \<subseteq> set ds'" and "fs_ok F"
  shows "\<exists>F'. fetch_all net ds F = (True, F') \<and> fs_ok F' \<and> (\<forall>d \<in> set ds. fs_exists F' (dl_dest d)) \<and>
    (\<forall>d \<in> set ds'. fs_exists F (dl_dest d) \<longrightarrow> fs_exists F' (dl_dest d))"
  using assms
proof (induction ds arbitrary: F)
  case (Cons d ds)
  obtain D where D: "path_parent (dl_dest d) = Some D" using Cons.prems(1) by auto
  obtain F1 where f: "fetch (net (dl_url d)) d F = (True, F1)" "fs_exists F1 (dl_dest d)"
      "\<forall>q. q \<noteq> partial_file d \<longrightarrow> fs_exists F q \<longrightarrow> fs_exists F1 q" "fs_ok F1"
    using fetch_served [OF _ D, of "net (dl_url d)" F] Cons.prems(1,4) by auto
  obtain F' where "fetch_all net ds F1 = (True, F')" "fs_ok F'" "\<forall>d \<in> set ds. fs_exists F' (dl_dest d)"
      "\<forall>d \<in> set ds'. fs_exists F1 (dl_dest d) \<longrightarrow> fs_exists F' (dl_dest d)"
    using Cons.IH [of F1] Cons.prems f(4) by auto
  then show ?case using f Cons.prems(2,3) by auto
qed simp

lemma first_existing_hd: "fs_exists F p \<Longrightarrow> first_existing F (p # ps) = Some p"
  by (simp add: first_existing_def)

lemma layout_complete:
  assumes "fs_exists F (path_join D (lit ''tokens.txt''))" "fs_exists F (path_join D (lit ''encoder.onnx''))"
    "fs_exists F (path_join D (lit ''decoder.onnx''))"
  shows "\<exists>m. layout_in F D = Some m \<and> mp_encoder m = path_join D (lit ''encoder.onnx'') \<and>
    mp_decoder m = path_join D (lit ''decoder.onnx'') \<and> mp_tokens m = path_join D (lit ''tokens.txt'')"
  using assms
  by (simp add: Let_def layout_in_def transducer_paths_def whisper_paths_def first_existing_hd del: lit_Cons split: option.split)

lemma find_map_None_iff: "find_map f xs = None \<longleftrightarrow> (\<forall>x \<in> set xs. f x = None)"
  by (induction xs) (auto split: option.splits)

text \<open>The destinations of the recipe: inside a directory that is named, and never a partial file.\<close>

definition asr_dir :: "model_config \<Rightarrow> rstr" where
  "asr_dir cfg = path_join (path_join (mc_models_dir cfg) (lit ''asr'')) (mc_model cfg)"

definition asset_names :: "string set" where
  "asset_names = {''encoder.onnx'', ''encoder.weights'', ''decoder.onnx'', ''joiner.onnx'', ''tokens.txt'',
     ''turbo-encoder.weights'', ''segmentation.onnx'', ''embedding.onnx''}"

lemma plan_dest_cases:
  assumes "d \<in> set (plan cfg)"
  shows "\<exists>a s. dl_dest d = path_join a (lit s) \<and> s \<in> asset_names \<and>
    a \<in> {asr_dir cfg, path_join (mc_models_dir cfg) (lit ''diarization'')}"
proof (cases "d \<in> set (asr_downloads cfg)")
  case True
  then obtain r l b where "(r, l, b) \<in> set (asr_recipe (mc_model cfg))" "dl_dest d = path_join (asr_dir cfg) (lit l)"
    by (auto simp: asr_downloads_def Let_def asr_dir_def simp del: lit_Cons)
  moreover have "\<forall>(r, l, b) \<in> set (asr_recipe (mc_model cfg)). l \<in> asset_names"
    by (auto simp: asr_recipe_def asset_names_def)
  ultimately show ?thesis by blast
next
  case False
  then have "d \<in> set (diarization_downloads cfg)" using assms by (simp add: plan_def)
  then have "dl_dest d \<in> {path_join (path_join (mc_models_dir cfg) (lit ''diarization'')) (lit ''segmentation.onnx''),
      path_join (path_join (mc_models_dir cfg) (lit ''diarization'')) (lit ''embedding.onnx'')}"
    by (auto simp: diarization_downloads_def Let_def simp del: lit_Cons split: if_splits)
  moreover have "''segmentation.onnx'' \<in> asset_names" "''embedding.onnx'' \<in> asset_names" by (simp_all add: asset_names_def)
  ultimately show ?thesis by blast
qed

lemma dest_not_partial:
  assumes "d' \<in> set (plan cfg)"
  shows "dl_dest d' \<noteq> partial_file d"
proof -
  obtain x where x: "partial_file d = x @ lit ''.part''" using with_extension_tail unfolding partial_file_def by blast
  obtain a s where s: "dl_dest d' = path_join a (lit s)" "s \<in> asset_names" using plan_dest_cases [OF assms] by blast
  obtain pre where "dl_dest d' = pre @ lit s" using path_join_tail s(1) by metis
  moreover have "rev (lit s) @ r \<noteq> rev (lit ''.part'') @ r'" for r r' using s(2) by (auto simp: asset_names_def)
  ultimately show ?thesis unfolding x by (metis rev_append)
qed

lemma asr_dir_sep:
  assumes "mc_model cfg \<in> {PARAKEET, WHISPER_TURBO}"
  shows "asr_dir cfg = path_join (mc_models_dir cfg) (lit ''asr'') @ 47 # mc_model cfg"
    and "asr_dir cfg \<noteq> []" and "last (asr_dir cfg) \<noteq> 47" and "47 \<notin> set (mc_model cfg)" and "trim (mc_model cfg) = mc_model cfg"
    and "mc_model cfg \<noteq> []"
proof -
  have m: "47 \<notin> set (mc_model cfg)" "mc_model cfg \<noteq> []" "last (mc_model cfg) \<noteq> 47" "\<forall>c \<in> set (mc_model cfg). \<not> is_ws c"
    using assms by (auto simp: PARAKEET_def WHISPER_TURBO_def is_ws_def)
  obtain pre where pre: "path_join (mc_models_dir cfg) (lit ''asr'') = pre @ lit ''asr''" using path_join_tail by blast
  have l: "pre @ lit ''asr'' \<noteq> []" "last (pre @ lit ''asr'') \<noteq> 47" by simp_all
  show "asr_dir cfg = path_join (mc_models_dir cfg) (lit ''asr'') @ 47 # mc_model cfg"
    unfolding asr_dir_def pre using l m(1) by (rule path_join_simple)
  then show "asr_dir cfg \<noteq> []" "last (asr_dir cfg) \<noteq> 47" using m by auto
  show "47 \<notin> set (mc_model cfg)" "trim (mc_model cfg) = mc_model cfg" "mc_model cfg \<noteq> []" using m trim_no_ws by auto
qed

lemma plan_dests:
  assumes "mc_model cfg \<in> {PARAKEET, WHISPER_TURBO}"
  shows "s \<in> {''encoder.onnx'', ''decoder.onnx'', ''tokens.txt''} \<Longrightarrow> path_join (asr_dir cfg) (lit s) \<in> dl_dest ` set (plan cfg)"
    and "mc_diarization cfg \<Longrightarrow> s \<in> {''segmentation.onnx'', ''embedding.onnx''} \<Longrightarrow>
      path_join (path_join (mc_models_dir cfg) (lit ''diarization'')) (lit s) \<in> dl_dest ` set (plan cfg)"
proof -
  assume "s \<in> {''encoder.onnx'', ''decoder.onnx'', ''tokens.txt''}"
  then obtain r b where "(r, s, b) \<in> set (asr_recipe (mc_model cfg))" using assms by (force simp: asr_recipe_def)
  then show "path_join (asr_dir cfg) (lit s) \<in> dl_dest ` set (plan cfg)"
    by (force simp: plan_def asr_downloads_def Let_def asr_dir_def simp del: lit_Cons)
next
  assume "mc_diarization cfg" "s \<in> {''segmentation.onnx'', ''embedding.onnx''}"
  then show "path_join (path_join (mc_models_dir cfg) (lit ''diarization'')) (lit s) \<in> dl_dest ` set (plan cfg)"
    by (auto simp: plan_def diarization_downloads_def Let_def simp del: lit_Cons)
qed

lemma plan_parents:
  assumes "mc_model cfg \<in> {PARAKEET, WHISPER_TURBO}" and "d \<in> set (plan cfg)"
  shows "path_parent (dl_dest d) \<noteq> None"
proof -
  obtain pre where pre: "path_join (mc_models_dir cfg) (lit ''diarization'') = pre @ lit ''diarization''" using path_join_tail by blast
  obtain a s where s: "dl_dest d = path_join a (lit s)" "s \<in> asset_names" "a \<in> {asr_dir cfg, pre @ lit ''diarization''}"
    using plan_dest_cases [OF assms(2)] unfolding pre by blast
  have "47 \<notin> set (lit s)" using s(2) by (auto simp: asset_names_def)
  moreover have "a \<noteq> []" "last a \<noteq> 47" using s(3) asr_dir_sep(2,3) [OF assms(1)] by auto
  ultimately show ?thesis unfolding s(1) by (simp add: path_join_simple path_parent_sep)
qed

lemma installed_ready:
  assumes "mc_model cfg \<in> {PARAKEET, WHISPER_TURBO}" and "fs_ok F" and "\<forall>d \<in> set (plan cfg). fs_exists F (dl_dest d)"
    and "\<forall>xs. set (arrange xs) = set xs" and "\<forall>xs. set (by_path xs) = set xs"
  shows "manual_guidance arrange by_path cfg F"
    and "\<exists>m. discover_for arrange F (mc_models_dir cfg) (mc_model cfg) = Some m \<and>
      mp_encoder m = path_join (asr_dir cfg) (lit ''encoder.onnx'')"
    and "mc_diarization cfg \<longrightarrow> discover_diarization F (mc_models_dir cfg) \<noteq> None"
proof -
  let ?D = "asr_dir cfg" and ?base = "path_join (mc_models_dir cfg) (lit ''asr'')"
  note D = asr_dir_sep [OF assms(1)]
  have ex: "fs_exists F p" if "p \<in> dl_dest ` set (plan cfg)" for p using that assms(3) by auto
  obtain m where m: "layout_in F ?D = Some m" "mp_encoder m = path_join ?D (lit ''encoder.onnx'')"
    using layout_complete [OF ex ex ex, OF plan_dests(1) plan_dests(1) plan_dests(1), OF assms(1) _ assms(1) _ assms(1)]
    by auto
  have "path_parent (path_join ?D (lit ''tokens.txt'')) = Some ?D"
    using path_parent_sep [of "lit ''tokens.txt''" ?D] path_join_simple [OF D(2,3), of "lit ''tokens.txt''"] by simp
  then have dir: "fs_is_dir F ?D" using assms(2) ex [OF plan_dests(1) [OF assms(1), of "''tokens.txt''"]]
    unfolding fs_ok_def by blast
  have up: "path_parent ?D = Some ?base" unfolding D(1) using D(4) by (rule path_parent_sep)
  then have base: "fs_is_dir F ?base" using assms(2) dir unfolding fs_ok_def fs_exists_def by blast
  show "\<exists>m. discover_for arrange F (mc_models_dir cfg) (mc_model cfg) = Some m \<and> mp_encoder m = path_join ?D (lit ''encoder.onnx'')"
    using m dir D(5,6) by (auto simp: discover_for_def model_subdir_def Let_def asr_dir_def simp del: lit_Cons)
  have "?D \<in> set (mf_dirs F)" using dir by (simp add: fs_is_dir_def)
  then have "find_map (layout_in F) (by_path (filter (fs_is_dir F)
      (arrange (filter (\<lambda>p. path_parent p = Some ?base) (mf_dirs F @ map fst (mf_files F)))))) \<noteq> None"
    using assms(4,5) dir up m(1) by (auto simp: find_map_None_iff simp del: lit_Cons)
  then have "discover arrange by_path F (mc_models_dir cfg) \<noteq> None"
    using base by (auto simp: discover_def read_dir_def Let_def simp del: lit_Cons split: option.splits)
  moreover show d: "mc_diarization cfg \<longrightarrow> discover_diarization F (mc_models_dir cfg) \<noteq> None"
    using ex plan_dests(2) [OF assms(1)] by (simp add: discover_diarization_def Let_def first_existing_hd del: lit_Cons)
  ultimately show "manual_guidance arrange by_path cfg F" unfolding manual_guidance_def Let_def by blast
qed

text \<open>
  C33: When everything that is missing is served and the HTTP client can be built, pulling a checkpoint that has a recipe
  (neither forced nor as a dry run) succeeds and the loader finds it: from any consistent file system, in whatever order
  directories are read, the configured model is then discovered in its own directory
  with the full-precision encoder and all the assets the configuration needs are present. When in addition
  the native models initialise, the engine that is loaded is the real one if speaker detection is on in the configuration. With
  speaker detection off the recipe does not bring the diarization models: the real engine is loaded if they are there all
  the same, and otherwise loading fails.
\<close>

theorem pull_then_real_engine:
  assumes "mc_model cfg \<in> {PARAKEET, WHISPER_TURBO}" and "fs_ok F" and "\<forall>d \<in> set (plan cfg). serves (net (dl_url d))"
    and "\<forall>xs. set (arrange xs) = set xs" and "\<forall>xs. set (by_path xs) = set xs"
  shows "\<exists>F' m. pull arrange by_path net True cfg False False F = (True, F') \<and>
    discover_for arrange F' (mc_models_dir cfg) (mc_model cfg) = Some m \<and>
    mp_encoder m = path_join (asr_dir cfg) (lit ''encoder.onnx'') \<and>
    real_models_present arrange F' (mc_models_dir cfg) (mc_model cfg) (mc_diarization cfg) \<and>
    (mc_diarization cfg \<longrightarrow> discover_diarization F' (mc_models_dir cfg) \<noteq> None) \<and>
    load_engine True arrange (\<lambda>a d. Inr ()) F' (mc_models_dir cfg) (mc_model cfg) (mc_diarization cfg) =
      (if discover_diarization F' (mc_models_dir cfg) = None then Inl Model else Inr Onnx)"
proof -
  let ?todo = "filter (\<lambda>d. \<not> fs_exists F (dl_dest d)) (plan cfg)"
  obtain F' where f: "fetch_all net ?todo F = (True, F')" "fs_ok F'" "\<forall>d \<in> set ?todo. fs_exists F' (dl_dest d)"
      "\<forall>d \<in> set (plan cfg). fs_exists F (dl_dest d) \<longrightarrow> fs_exists F' (dl_dest d)"
    using fetch_all_served [of ?todo net "plan cfg" F] assms(2,3) plan_parents [OF assms(1)] dest_not_partial [of _ cfg] by auto
  then have all: "\<forall>d \<in> set (plan cfg). fs_exists F' (dl_dest d)" by auto
  note r = installed_ready [OF assms(1) f(2) all assms(4,5)]
  have "F' = F" if "?todo = []" using f(1) that by simp
  then have "pull arrange by_path net True cfg False False F = (True, F')"
    using f(1) r(1) by (auto simp: pull_def Let_def)
  then show ?thesis using r(2,3) by (auto simp: real_models_present_def load_engine_def load_real_def)
qed

definition demo_models :: model_config where
  "demo_models = \<lparr>mc_models_dir = lit ''models'', mc_model = PARAKEET, mc_diarization = True\<rparr>"

definition demo_served :: served where
  "demo_served = \<lparr>sv_mkdir = True, sv_answer = Some (Some 10), sv_create = True, sv_chunks = [7, 3], sv_stream = True, sv_rename = True\<rparr>"

definition bare_fs :: model_fs where
  "bare_fs = \<lparr>mf_files = [], mf_dirs = []\<rparr>"

lemma tokens_planned: "path_join (asr_dir demo_models) (lit ''tokens.txt'') \<in> dl_dest ` set (plan demo_models)"
  by (rule plan_dests(1)) (simp_all add: demo_models_def)

theorem pull_never_truncates_witness:
  "file_size (snd (pull (\<lambda>x. x) (\<lambda>x. x) (\<lambda>u. demo_served\<lparr>sv_chunks := [7]\<rparr>) True demo_models False False bare_fs))
     (path_join (asr_dir demo_models) (lit ''tokens.txt'')) \<in> {None, Some 10}"
proof -
  have "\<forall>d \<in> set (plan demo_models). path_join (asr_dir demo_models) (lit ''tokens.txt'') \<noteq> partial_file d"
    using tokens_planned dest_not_partial by (metis imageE)
  from pull_never_truncates [OF this, of "\<lambda>x. x" "\<lambda>x. x" "\<lambda>u. demo_served\<lparr>sv_chunks := [7]\<rparr>" True False False bare_fs]
  show ?thesis by (auto simp: file_size_def bare_fs_def demo_served_def simp del: lit_Cons)
qed

theorem pull_then_real_engine_witness:
  "\<exists>F' m. pull (\<lambda>x. x) rev (\<lambda>u. demo_served) True demo_models False False bare_fs = (True, F') \<and>
     discover_for (\<lambda>x. x) F' (lit ''models'') PARAKEET = Some m \<and>
     mp_encoder m = path_join (asr_dir demo_models) (lit ''encoder.onnx'') \<and>
     load_engine True (\<lambda>x. x) (\<lambda>a d. Inr ()) F' (lit ''models'') PARAKEET True = Inr Onnx"
proof -
  have "mc_model demo_models \<in> {PARAKEET, WHISPER_TURBO}" "fs_ok bare_fs"
      "\<forall>d \<in> set (plan demo_models). serves ((\<lambda>u. demo_served) (dl_url d))"
    by (simp_all add: demo_models_def fs_ok_def fs_exists_def fs_is_dir_def bare_fs_def serves_def demo_served_def)
  from pull_then_real_engine [OF this, of "\<lambda>x. x" rev]
  show ?thesis by (auto simp: demo_models_def simp del: lit_Cons)
qed

text \<open>
  The readiness that \<open>pull\<close> and \<open>list\<close> report looks for any installed checkpoint, while the loader wants
  the configured one: with another checkpoint in its own directory the command reports ready and the worker
  transcribes with the stub.
\<close>

definition other_fs :: model_fs where
  "other_fs = \<lparr>mf_files = map (\<lambda>n. (lit ''m/asr/p/'' @ lit n, 1)) [''encoder.onnx'', ''decoder.onnx'', ''joiner.onnx'', ''tokens.txt''],
     mf_dirs = [lit ''m'', lit ''m/asr'', lit ''m/asr/p'']\<rparr>"

lemma ready_but_stub:
  "manual_guidance (\<lambda>x. x) (\<lambda>x. x) \<lparr>mc_models_dir = lit ''m'', mc_model = lit ''w'', mc_diarization = False\<rparr> other_fs \<and>
   load_engine True (\<lambda>x. x) native other_fs (lit ''m'') (lit ''w'') False = Inr Stub"
  by (simp add: manual_guidance_def discover_def layout_in_def read_dir_def other_fs_def fs_exists_def fs_is_dir_def path_join_def
      path_parent_def split_path_def path_file_name_def transducer_paths_def first_existing_def load_engine_def
      real_models_present_def discover_for_def model_subdir_def Let_def text_defs)

text \<open>
  With speaker detection switched off the presence check does not ask for the diarization models, and
  loading then fails without them instead of running.
\<close>

lemma diarization_off_fails:
  "load_engine True (\<lambda>x. x) native other_fs (lit ''m'') (lit ''p'') False = Inl Model"
  by (simp add: layout_in_def read_dir_def other_fs_def fs_exists_def fs_is_dir_def path_join_def
      path_parent_def split_path_def path_file_name_def transducer_paths_def first_existing_def load_engine_def load_real_def
      real_models_present_def discover_for_def discover_diarization_def model_subdir_def Let_def text_defs)

section \<open>The stub's output\<close>

text \<open>The turns follow each other without a gap to the end, each of one of the speakers.\<close>

lemma stub_turns_tile:
  assumes "0 < n" and "start < dur"
  shows "stub_turns dur n start i \<noteq> [] \<and> t_start_ms (hd (stub_turns dur n start i)) = start \<and>
    t_end_ms (last (stub_turns dur n start i)) = dur \<and>
    successively (\<lambda>a b. t_end_ms a = t_start_ms b) (stub_turns dur n start i) \<and>
    (\<forall>t \<in> set (stub_turns dur n start i). 0 \<le> t_local_idx t \<and> t_local_idx t < int n \<and> t_start_ms t < t_end_ms t)"
  using assms
proof (induction dur n start i rule: stub_turns.induct)
  case (1 dur n start i)
  let ?stop = "min (start + TURN_MS) dur" and ?t = "\<lparr>t_local_idx = int i mod int n, t_start_ms = start, t_end_ms = min (start + TURN_MS) dur\<rparr>"
  have s: "stub_turns dur n start i = ?t # stub_turns dur n ?stop (i + 1)"
    using 1(3) by (subst stub_turns.simps) (simp add: Let_def)
  have t: "0 \<le> t_local_idx ?t" "t_local_idx ?t < int n" "start < ?stop" using 1(2,3) by (simp_all add: TURN_MS_def)
  show ?case
  proof (cases "?stop < dur")
    case True
    note ih = 1(1) [OF 1(3) refl 1(2) True]
    show ?thesis unfolding s using ih t by (cases "stub_turns dur n ?stop (i + 1)") auto
  next
    case False
    then have "stub_turns dur n ?stop (i + 1) = []" by (subst stub_turns.simps) simp
    then show ?thesis unfolding s using t False by auto
  qed
qed

end
