(* ===== verification/Scribe_Search.thy ===== *)
theory Scribe_Search
  imports Complex_Main Scribe_Api
begin

text \<open>
  Search over the retrieval chunks: \<open>crates/scribe-db/src/search.rs\<close> and the handlers \<open>search\<close> and
  \<open>ask\<close> of \<open>crates/scribe-api/src/handlers/search.rs\<close>.

  The id of a chunk is its position in the table, which keeps the order of the serial column. Full-text
  matching, its rank, the vector distance and the arithmetic of the database are a parameter. So is the
  scan of the vector index: the index is approximate (HNSW), and \<open>hnsw.iterative_scan = relaxed_order\<close>
  lets it yield rows out of order and stop before it has seen them all. The filters, the two candidate
  lists, their fusion by reciprocal rank and the final order are the statements of the source.
\<close>

section \<open>Filters\<close>

record search_filters =
  sf_from :: "timestamp option"
  sf_to :: "timestamp option"
  sf_speaker_id :: "uuid option"
  sf_recording_id :: "uuid option"

definition no_filters :: search_filters where
  "no_filters = \<lparr>sf_from = None, sf_to = None, sf_speaker_id = None, sf_recording_id = None\<rparr>"

definition filters_is_empty :: "search_filters \<Rightarrow> bool" where
  "filters_is_empty f \<longleftrightarrow>
     sf_from f = None \<and> sf_to f = None \<and> sf_speaker_id f = None \<and> sf_recording_id f = None"

text \<open>The conditions of the \<^verbatim>\<open>WHERE\<close> clause, each with the number of its placeholder.\<close>

datatype filter_cond = CreatedFrom nat | CreatedTo nat | SpokenBy nat | InRecording nat

text \<open>A condition is written when its value is there, under the next number.\<close>

definition push_cond :: "'a option \<Rightarrow> (nat \<Rightarrow> filter_cond) \<Rightarrow> filter_cond list \<times> nat \<Rightarrow> filter_cond list \<times> nat" where
  "push_cond x mk s = (case (x, s) of
     (None, s) \<Rightarrow> s
   | (Some _, (clause, n)) \<Rightarrow> (clause @ [mk (n + 1)], n + 1))"

definition filter_clause :: "search_filters \<Rightarrow> nat \<Rightarrow> filter_cond list" where
  "filter_clause f base =
     (if filters_is_empty f then []
      else fst (push_cond (sf_recording_id f) InRecording
             (push_cond (sf_speaker_id f) SpokenBy
               (push_cond (sf_to f) CreatedTo
                 (push_cond (sf_from f) CreatedFrom ([], base))))))"

text \<open>The values of the placeholders, in the order they are bound.\<close>

datatype bind = BText rstr | BVector "f32 list" | BInt int | BTime timestamp | BUuid uuid

definition bind_opt :: "('a \<Rightarrow> bind) \<Rightarrow> 'a option \<Rightarrow> bind list" where
  "bind_opt mk x = (case x of None \<Rightarrow> [] | Some v \<Rightarrow> [mk v])"

definition bind_filters :: "bind list \<Rightarrow> search_filters \<Rightarrow> bind list" where
  "bind_filters q f = q @ bind_opt BTime (sf_from f) @ bind_opt BTime (sf_to f)
     @ bind_opt BUuid (sf_speaker_id f) @ bind_opt BUuid (sf_recording_id f)"

text \<open>\<^verbatim>\<open>$n\<close>; placeholders count from one.\<close>

definition param :: "bind list \<Rightarrow> nat \<Rightarrow> bind option" where
  "param bs n = (if 1 \<le> n \<and> n \<le> length bs then Some (bs ! (n - 1)) else None)"

definition spoken_by :: "db \<Rightarrow> chunk_row \<Rightarrow> uuid \<Rightarrow> bool" where
  "spoken_by d c sid \<longleftrightarrow> (\<exists>s \<in> set (recording_speakers d).
     rs_recording_id s = c_recording_id c \<and> Some (rs_local_idx s) = c_local_idx c \<and> rs_speaker_id s = Some sid)"

fun cond_holds :: "db \<Rightarrow> bind list \<Rightarrow> recording \<Rightarrow> chunk_row \<Rightarrow> filter_cond \<Rightarrow> bool" where
  "cond_holds d bs r c (CreatedFrom n) = (case param bs n of Some (BTime t) \<Rightarrow> t \<le> rec_created_at r | _ \<Rightarrow> False)"
| "cond_holds d bs r c (CreatedTo n) = (case param bs n of Some (BTime t) \<Rightarrow> rec_created_at r \<le> t | _ \<Rightarrow> False)"
| "cond_holds d bs r c (SpokenBy n) = (case param bs n of Some (BUuid u) \<Rightarrow> spoken_by d c u | _ \<Rightarrow> False)"
| "cond_holds d bs r c (InRecording n) = (case param bs n of Some (BUuid u) \<Rightarrow> c_recording_id c = u | _ \<Rightarrow> False)"

section \<open>Statements\<close>

record search_engine =
  fts_match :: "rstr \<Rightarrow> rstr \<Rightarrow> bool"
  ts_rank :: "rstr \<Rightarrow> rstr \<Rightarrow> rat"
  vec_distance :: "f32 list \<Rightarrow> f32 list \<Rightarrow> rat"
  vec_scan :: "f32 list \<Rightarrow> db \<Rightarrow> nat list"
  one_over :: "int \<Rightarrow> rat"
  as_f32 :: "rat \<Rightarrow> f32"

record search_hit =
  h_recording_id :: uuid
  h_recording_title :: "rstr option"
  h_start_ms :: "int option"
  h_end_ms :: "int option"
  h_text :: rstr
  h_speaker :: "rstr option"
  h_score :: f32

definition RRF_K :: int where "RRF_K = 60"

text \<open>\<^verbatim>\<open>ORDER BY key, id LIMIT n\<close> over ids in ascending order: the sort is stable.\<close>

definition order_limit :: "(nat \<Rightarrow> rat) \<Rightarrow> nat \<Rightarrow> nat list \<Rightarrow> nat list" where
  "order_limit key n ids = take n (sort_key key ids)"

text \<open>\<^verbatim>\<open>FROM chunks c JOIN recordings r ... WHERE\<close> the filter's conditions.\<close>

definition filtered_chunks :: "db \<Rightarrow> filter_cond list \<Rightarrow> bind list \<Rightarrow> nat list" where
  "filtered_chunks d conds bs =
     filter (\<lambda>i. case lookup_by rec_id (c_recording_id (chunks d ! i)) (recordings d) of
        None \<Rightarrow> False
      | Some r \<Rightarrow> list_all (cond_holds d bs r (chunks d ! i)) conds) [0..<length (chunks d)]"

definition kw_matches :: "search_engine \<Rightarrow> rstr \<Rightarrow> db \<Rightarrow> filter_cond list \<Rightarrow> bind list \<Rightarrow> nat list" where
  "kw_matches E query d conds bs =
     filter (\<lambda>i. fts_match E (c_text (chunks d ! i)) query) (filtered_chunks d conds bs)"

definition kw_key :: "search_engine \<Rightarrow> rstr \<Rightarrow> db \<Rightarrow> nat \<Rightarrow> rat" where
  "kw_key E query d i = - ts_rank E (c_text (chunks d ! i)) query"

text \<open>
  \<^verbatim>\<open>ORDER BY c.embedding <=> $n\<close> as the index answers it: the rows of the scan, in its order, that satisfy the
  conditions. A scan yields a row once.
\<close>

definition scanned :: "search_engine \<Rightarrow> f32 list \<Rightarrow> db \<Rightarrow> filter_cond list \<Rightarrow> bind list \<Rightarrow> nat list" where
  "scanned E emb d conds bs = filter (\<lambda>i. i \<in> set (filtered_chunks d conds bs)) (remdups (vec_scan E emb d))"

text \<open>The rows of an arm with the score of their rank, and \<^verbatim>\<open>sum(score) ... GROUP BY id\<close>.\<close>

definition rrf_scores :: "search_engine \<Rightarrow> int \<Rightarrow> nat list \<Rightarrow> (nat \<times> rat) list" where
  "rrf_scores E k ids = zip ids (map (\<lambda>rnk. one_over E (k + int rnk)) [1..<length ids + 1])"

definition score_of :: "(nat \<times> rat) list \<Rightarrow> nat \<Rightarrow> rat" where
  "score_of s i = sum_list (map snd (filter (\<lambda>p. fst p = i) s))"

definition group_ids :: "(nat \<times> rat) list \<Rightarrow> nat list" where
  "group_ids s = sort (remdups (map fst s))"

definition hit_speaker :: "db \<Rightarrow> chunk_row \<Rightarrow> rstr option" where
  "hit_speaker d c =
     (case c_local_idx c of
        None \<Rightarrow> None
      | Some i \<Rightarrow> (case display_name_of d (c_recording_id c) i of
                    Some n \<Rightarrow> Some n | None \<Rightarrow> Some (speaker_label i)))"

definition hit_from_row :: "search_engine \<Rightarrow> db \<Rightarrow> (nat \<Rightarrow> rat) \<Rightarrow> nat \<Rightarrow> search_hit" where
  "hit_from_row E d score i =
     (let c = chunks d ! i in
      \<lparr>h_recording_id = c_recording_id c,
       h_recording_title = (case lookup_by rec_id (c_recording_id c) (recordings d) of
                              None \<Rightarrow> None | Some r \<Rightarrow> rec_title r),
       h_start_ms = c_start_ms c, h_end_ms = c_end_ms c, h_text = c_text c,
       h_speaker = hit_speaker d c, h_score = as_f32 E (score i)\<rparr>)"

text \<open>
  The two arms of the hybrid statement, the fused scores, and the ids it returns. The number of
  candidates is an \<open>i64\<close> and wraps.
\<close>

definition wrap_i64 :: "int \<Rightarrow> int" where
  "wrap_i64 x = (x + 2 ^ 63) mod 2 ^ 64 - 2 ^ 63"

definition candidate_n :: "int \<Rightarrow> int" where
  "candidate_n limit = wrap_i64 (max limit 1 * 4)"

definition hybrid_binds :: "rstr \<Rightarrow> f32 list \<Rightarrow> search_filters \<Rightarrow> int \<Rightarrow> bind list" where
  "hybrid_binds query emb f limit =
     bind_filters [BText query, BVector emb, BInt (candidate_n limit), BInt RRF_K, BInt limit] f"

definition kw_arm :: "search_engine \<Rightarrow> rstr \<Rightarrow> f32 list \<Rightarrow> search_filters \<Rightarrow> int \<Rightarrow> db \<Rightarrow> nat list" where
  "kw_arm E query emb f limit d =
     order_limit (kw_key E query d) (nat (candidate_n limit))
       (kw_matches E query d (filter_clause f 5) (hybrid_binds query emb f limit))"

definition vec_arm :: "search_engine \<Rightarrow> rstr \<Rightarrow> f32 list \<Rightarrow> search_filters \<Rightarrow> int \<Rightarrow> db \<Rightarrow> nat list" where
  "vec_arm E query emb f limit d =
     take (nat (candidate_n limit)) (scanned E emb d (filter_clause f 5) (hybrid_binds query emb f limit))"

definition fused :: "search_engine \<Rightarrow> rstr \<Rightarrow> f32 list \<Rightarrow> search_filters \<Rightarrow> int \<Rightarrow> db \<Rightarrow> (nat \<times> rat) list" where
  "fused E query emb f limit d =
     rrf_scores E RRF_K (kw_arm E query emb f limit d) @ rrf_scores E RRF_K (vec_arm E query emb f limit d)"

definition hybrid_ids :: "search_engine \<Rightarrow> rstr \<Rightarrow> f32 list \<Rightarrow> search_filters \<Rightarrow> int \<Rightarrow> db \<Rightarrow> nat list" where
  "hybrid_ids E query emb f limit d =
     (let s = fused E query emb f limit d in order_limit (\<lambda>i. - score_of s i) (nat limit) (group_ids s))"

text \<open>A negative \<^verbatim>\<open>LIMIT\<close> is refused by the database.\<close>

definition hybrid_search ::
  "search_engine \<Rightarrow> rstr \<Rightarrow> f32 list \<Rightarrow> search_filters \<Rightarrow> int \<Rightarrow> db \<Rightarrow> search_hit list res" where
  "hybrid_search E query emb f limit d =
     (if limit < 0 \<or> candidate_n limit < 0 then Inl Database
      else Inr (map (hit_from_row E d (score_of (fused E query emb f limit d)))
                    (hybrid_ids E query emb f limit d)))"

definition keyword_search :: "search_engine \<Rightarrow> rstr \<Rightarrow> search_filters \<Rightarrow> int \<Rightarrow> db \<Rightarrow> search_hit list res" where
  "keyword_search E query f limit d =
     (if limit < 0 then Inl Database
      else Inr (map (hit_from_row E d (\<lambda>i. ts_rank E (c_text (chunks d ! i)) query))
             (order_limit (kw_key E query d) (nat limit)
               (kw_matches E query d (filter_clause f 2) (bind_filters [BText query, BInt limit] f)))))"

definition semantic_search ::
  "search_engine \<Rightarrow> f32 list \<Rightarrow> search_filters \<Rightarrow> int \<Rightarrow> db \<Rightarrow> search_hit list res" where
  "semantic_search E emb f limit d =
     (if limit < 0 then Inl Database
      else Inr (map (hit_from_row E d (\<lambda>i. 1 - vec_distance E (c_embedding (chunks d ! i)) emb))
             (take (nat limit) (scanned E emb d (filter_clause f 2) (bind_filters [BVector emb, BInt limit] f)))))"

section \<open>Handlers\<close>

definition DEFAULT_TOP_K :: int where "DEFAULT_TOP_K = 8"
definition MAX_TOP_K :: int where "MAX_TOP_K = 50"
definition DEFAULT_SEARCH_LIMIT :: int where "DEFAULT_SEARCH_LIMIT = 20"
definition MAX_HISTORY_TURNS :: nat where "MAX_HISTORY_TURNS = 12"
definition MAX_HISTORY_CHARS :: nat where "MAX_HISTORY_CHARS = 1200"

text \<open>\<open>Ord::clamp\<close>.\<close>

definition clamp :: "int \<Rightarrow> int \<Rightarrow> int \<Rightarrow> int" where
  "clamp lo hi x = (if x < lo then lo else if hi < x then hi else x)"

text \<open>\<open>embed_one\<close> takes the last of the vectors returned for the single text.\<close>

definition embed_one :: "world \<Rightarrow> rstr \<Rightarrow> f32 list res" where
  "embed_one W t =
     (case embedder W [t] of Inl e \<Rightarrow> Inl e | Inr vs \<Rightarrow> if vs = [] then Inl Model else Inr (last vs))"

record search_query =
  sq_q :: rstr
  sq_from :: "timestamp option"
  sq_to :: "timestamp option"
  sq_speaker :: "uuid option"
  sq_recording :: "uuid option"
  sq_limit :: "int option"

definition search :: "search_engine \<Rightarrow> world \<Rightarrow> search_query \<Rightarrow> db \<Rightarrow> search_hit list res" where
  "search E W q d =
     (let limit = clamp 1 200 (case sq_limit q of None \<Rightarrow> DEFAULT_SEARCH_LIMIT | Some n \<Rightarrow> n);
          filters = \<lparr>sf_from = sq_from q, sf_to = sq_to q, sf_speaker_id = sq_speaker q,
                     sf_recording_id = sq_recording q\<rparr>
      in case embed_one W (sq_q q) of
           Inl e \<Rightarrow> Inl e
         | Inr embedding \<Rightarrow> hybrid_search E (sq_q q) embedding filters limit d)"

record ask_turn =
  at_role :: rstr
  at_content :: rstr

record ask_filters =
  af_from :: "timestamp option"
  af_to :: "timestamp option"
  af_speaker :: "uuid option"
  af_recording :: "uuid option"

record ask_body =
  ab_question :: rstr
  ab_history :: "ask_turn list"
  ab_filters :: "ask_filters option"
  ab_top_k :: "int option"

record citation =
  ct_recording_id :: uuid
  ct_recording_title :: "rstr option"
  ct_start_ms :: "int option"
  ct_end_ms :: "int option"
  ct_speaker :: "rstr option"
  ct_snippet :: rstr

record answer =
  an_answer :: rstr
  an_citations :: "citation list"

definition hit_to_citation :: "search_hit \<Rightarrow> citation" where
  "hit_to_citation h = \<lparr>ct_recording_id = h_recording_id h, ct_recording_title = h_recording_title h,
     ct_start_ms = h_start_ms h, ct_end_ms = h_end_ms h, ct_speaker = h_speaker h, ct_snippet = h_text h\<rparr>"

definition is_assistant :: "ask_turn \<Rightarrow> bool" where
  "is_assistant t \<longleftrightarrow> eq_ignore_ascii_case (at_role t) (lit ''assistant'')"

definition RECENT_USER_TURNS :: nat where "RECENT_USER_TURNS = 2"

definition retrieval_query :: "rstr \<Rightarrow> ask_turn list \<Rightarrow> rstr" where
  "retrieval_query question history =
     (let recent = take RECENT_USER_TURNS (rev (filter (\<lambda>c. c \<noteq> [])
                     (map (\<lambda>t. trim (at_content t)) (filter (\<lambda>t. \<not> is_assistant t) history))))
      in if recent = [] then question
         else concat (map (\<lambda>turn. turn @ lit '' '') (rev recent)) @ question)"

definition truncate_chars :: "rstr \<Rightarrow> nat \<Rightarrow> rstr" where
  "truncate_chars s mx = (if length s \<le> mx then s else take mx s @ [8230])"

definition two_digits :: "int \<Rightarrow> rstr" where
  "two_digits n = pad_zero 2 (show_nat (nat n))"

definition format_timestamp :: "int option \<Rightarrow> rstr" where
  "format_timestamp start_ms =
     (case start_ms of
        None \<Rightarrow> []
      | Some ms \<Rightarrow>
          if ms \<ge> 0 then let total_secs = ms div 1000 in
            lit '', '' @ two_digits (total_secs div 60) @ lit '':'' @ two_digits (total_secs mod 60)
          else [])"

definition ask_system :: rstr where
  "ask_system = join [10]
     [lit ''You are the user'' @ [39] @ lit ''s assistant for their own meeting recordings. You are having a conversation, not filling in a form.'',
      [],
      lit ''Excerpts retrieved from the user'' @ [39] @ lit ''s transcripts are provided with each question. Treat them as the record of what was actually said, and prefer them over your own assumptions about the user'' @ [39] @ lit ''s work.'',
      [],
      lit ''How to answer:'',
      lit ''- Answer the question that was asked, in a natural conversational voice. Follow-ups refer to the conversation so far.'',
      lit ''- Reason over the excerpts: compare, count, calculate, draw conclusions, and offer your read of what they mean. You do not need permission to do arithmetic or analysis on numbers that appear in a transcript.'',
      lit ''- Cite an excerpt as [1], [2] when you rely on something specific from it. Do not cite for chit-chat, arithmetic, or your own reasoning. Never invent a citation number that was not provided.'',
      lit ''- If the excerpts do not cover the question, say so in your own words, say what you DID find that is close, and suggest what the user could ask instead. Never answer with a bare stock sentence.'',
      lit ''- If the question is not about the recordings at all (a greeting, a question about this conversation, a general request), just answer it normally. Do not mention the search.'',
      lit ''- Each excerpt names who was speaking where the recording knows. Use those names when the question is about who said or agreed to something, and say when an excerpt has no name attached.'',
      lit ''- Do not fabricate quotes, speakers, decisions, numbers, or dates. If you are unsure whether something was said, say that plainly.'']"

definition assistant_msg :: "rstr \<Rightarrow> chat_message" where
  "assistant_msg s = \<lparr>cm_role = lit ''assistant'', cm_content = s\<rparr>"

text \<open>The replayed turns; blank ones are skipped.\<close>

definition replay_turn :: "ask_turn \<Rightarrow> chat_message option" where
  "replay_turn t =
     (let content = truncate_chars (trim (at_content t)) MAX_HISTORY_CHARS in
      if content = [] then None
      else Some (if is_assistant t then assistant_msg content else user_msg content))"

definition replay_history :: "ask_turn list \<Rightarrow> chat_message list" where
  "replay_history history =
     List.map_filter replay_turn (drop (length history - MAX_HISTORY_TURNS) history)"

definition excerpt :: "nat \<Rightarrow> search_hit \<Rightarrow> rstr" where
  "excerpt n h =
     (let title = (case h_recording_title h of None \<Rightarrow> lit ''Untitled recording'' | Some t \<Rightarrow> t);
          who = (case h_speaker h of None \<Rightarrow> [] | Some s \<Rightarrow> [32, 8212, 32] @ s)
      in lit ''['' @ show_nat n @ lit ''] ('' @ title @ format_timestamp (h_start_ms h) @ who @ lit '')'' @ [10]
         @ trim (h_text h) @ [10, 10])"

definition excerpts :: "search_hit list \<Rightarrow> rstr" where
  "excerpts hits = concat (map (\<lambda>(i, h). excerpt (i + 1) h) (enumerate 0 hits))"

definition question_msg :: "rstr \<Rightarrow> search_hit list \<Rightarrow> rstr" where
  "question_msg question hits =
     (if hits = []
      then lit ''[Search over the recordings returned no matching excerpts for this message.]'' @ [10, 10] @ question
      else lit ''Excerpts from my recordings:'' @ [10, 10] @ excerpts hits @ [10] @ question)"

definition build_prompt :: "rstr \<Rightarrow> ask_turn list \<Rightarrow> search_hit list \<Rightarrow> chat_message list" where
  "build_prompt question history hits =
     system_msg ask_system # replay_history history @ [user_msg (question_msg question hits)]"

definition ask_search_filters :: "ask_filters option \<Rightarrow> search_filters" where
  "ask_search_filters fs =
     (case fs of
        Some f \<Rightarrow> \<lparr>sf_from = af_from f, sf_to = af_to f, sf_speaker_id = af_speaker f, sf_recording_id = af_recording f\<rparr>
      | None \<Rightarrow> no_filters)"

text \<open>The text of an error is an argument: errors of the model carry no message.\<close>

definition ask :: "search_engine \<Rightarrow> world \<Rightarrow> config \<Rightarrow> (error \<Rightarrow> rstr) \<Rightarrow> ask_body \<Rightarrow> db \<Rightarrow> answer res" where
  "ask E W cfg err_text body d =
     (let top_k = clamp 1 MAX_TOP_K (case ab_top_k body of None \<Rightarrow> DEFAULT_TOP_K | Some n \<Rightarrow> n);
          filters = ask_search_filters (ab_filters body);
          query = retrieval_query (ab_question body) (ab_history body)
      in case embed_one W query of
           Inl e \<Rightarrow> Inl e
         | Inr embedding \<Rightarrow>
        (case hybrid_search E query embedding filters top_k d of
           Inl e \<Rightarrow> Inl e
         | Inr hits \<Rightarrow>
             let reply = (case chat W (summarize_model (llm cfg)) (build_prompt (ab_question body) (ab_history body) hits) of
                            Inr t \<Rightarrow> trim t
                          | Inl e \<Rightarrow> lit ''(Could not generate an answer '' @ [8212]
                                @ lit '' the language model is unavailable: '' @ err_text e
                                @ lit ''. See the cited excerpts below.)'')
             in Inr \<lparr>an_answer = reply, an_citations = map hit_to_citation hits\<rparr>))"

section \<open>Ordered rows\<close>

text \<open>The order of \<^verbatim>\<open>ORDER BY key, id\<close>.\<close>

definition ahead :: "(nat \<Rightarrow> rat) \<Rightarrow> nat \<Rightarrow> nat \<Rightarrow> bool" where
  "ahead key i j \<longleftrightarrow> key i < key j \<or> key i = key j \<and> i < j"

lemma insort_key_ahead:
  "sorted_wrt (ahead key) xs \<Longrightarrow> \<forall>y \<in> set xs. x < y \<Longrightarrow> sorted_wrt (ahead key) (insort_key key x xs)"
  by (induction xs) (auto simp: ahead_def set_insort_key)

lemma ahead_uminus: "ahead (\<lambda>i. - s i) = (\<lambda>i j. s j < s i \<or> s i = s j \<and> i < j)"
  by (auto simp: ahead_def fun_eq_iff)

text \<open>
  What a sorted statement relies on: rows in the order of their ids, a key, and what the first rows then
  are. The keyword arm and the fused result provide it.
\<close>

locale ordered_rows =
  fixes ids :: "nat list"
    and key :: "nat \<Rightarrow> rat"
  assumes ids_ascending: "sorted_wrt (<) ids"
begin

lemma ids_distinct: "distinct ids"
  using ids_ascending strict_sorted_iff by blast

lemma rows_ahead: "sorted_wrt (ahead key) (sort_key key ids)"
  using ids_ascending
proof (induction ids)
  case (Cons x xs)
  then show ?case by (simp add: insort_key_ahead)
qed simp

lemma limit_ahead: "sorted_wrt (ahead key) (order_limit key n ids)"
  unfolding order_limit_def using rows_ahead by (rule sorted_wrt_take)

lemma limit_distinct: "distinct (order_limit key n ids)"
  using ids_distinct by (simp add: order_limit_def)

lemma limit_subset: "set (order_limit key n ids) \<subseteq> set ids"
  unfolding order_limit_def by (metis set_sort set_take_subset)

lemma limit_length: "length (order_limit key n ids) = min n (length ids)"
  by (simp add: order_limit_def min.commute)

lemma limit_all: "length ids \<le> n \<Longrightarrow> set (order_limit key n ids) = set ids"
  by (simp add: order_limit_def)

lemma limit_best:
  assumes "i \<in> set (order_limit key n ids)" and "j \<in> set ids" and "j \<notin> set (order_limit key n ids)"
  shows "ahead key i j"
proof -
  let ?s = "sort_key key ids"
  have "j \<in> set (take n ?s @ drop n ?s)" using assms(2) by simp
  then have "j \<in> set (drop n ?s)" using assms(3) unfolding order_limit_def by (metis Un_iff set_append)
  moreover have "sorted_wrt (ahead key) (take n ?s @ drop n ?s)" using rows_ahead by simp
  ultimately show ?thesis using assms(1) unfolding order_limit_def sorted_wrt_append by blast
qed

end

lemma filtered_chunks_ascending: "sorted_wrt (<) (filtered_chunks d conds bs)"
  unfolding filtered_chunks_def by (intro sorted_wrt_filter) simp

lemma kw_matches_ascending: "sorted_wrt (<) (kw_matches E q d conds bs)"
  unfolding kw_matches_def by (intro sorted_wrt_filter filtered_chunks_ascending)

lemma group_ids_ascending: "sorted_wrt (<) (group_ids s)"
  by (simp add: group_ids_def strict_sorted_iff)

interpretation kw: ordered_rows "kw_matches E q d conds bs" "kw_key E q d" for E q d conds bs
  by unfold_locales (rule kw_matches_ascending)

interpretation fz: ordered_rows "group_ids s" "\<lambda>i. - score_of s i" for s
  by unfold_locales (rule group_ids_ascending)

section \<open>What a filter means\<close>

definition is_none_or :: "'a option \<Rightarrow> ('a \<Rightarrow> bool) \<Rightarrow> bool" where
  "is_none_or x P \<longleftrightarrow> (case x of None \<Rightarrow> True | Some v \<Rightarrow> P v)"

definition passes :: "db \<Rightarrow> search_filters \<Rightarrow> recording \<Rightarrow> chunk_row \<Rightarrow> bool" where
  "passes d f r c \<longleftrightarrow>
     is_none_or (sf_from f) (\<lambda>t. t \<le> rec_created_at r) \<and> is_none_or (sf_to f) (\<lambda>t. rec_created_at r \<le> t) \<and>
     is_none_or (sf_speaker_id f) (spoken_by d c) \<and> is_none_or (sf_recording_id f) (\<lambda>u. c_recording_id c = u)"

definition eligible :: "db \<Rightarrow> search_filters \<Rightarrow> nat set" where
  "eligible d f = {i. i < length (chunks d) \<and>
     (\<exists>r. lookup_by rec_id (c_recording_id (chunks d ! i)) (recordings d) = Some r \<and> passes d f r (chunks d ! i))}"

text \<open>The numbers of the clause are the positions of the values, whatever was bound before them.\<close>

lemma clause_matches_binds:
  "list_all (cond_holds d (bind_filters q f) r c) (filter_clause f (length q)) \<longleftrightarrow> passes d f r c"
  by (cases "sf_from f"; cases "sf_to f"; cases "sf_speaker_id f"; cases "sf_recording_id f")
     (simp_all add: filter_clause_def filters_is_empty_def push_cond_def bind_filters_def bind_opt_def
        param_def passes_def is_none_or_def nth_append)

lemma filtered_is_eligible:
  "set (filtered_chunks d (filter_clause f (length q)) (bind_filters q f)) = eligible d f"
  by (auto simp: filtered_chunks_def eligible_def clause_matches_binds split: option.splits)

section \<open>Fusion\<close>

lemma map_fst_rrf_scores [simp]: "map fst (rrf_scores E k ids) = ids"
  by (simp add: rrf_scores_def del: upt_Suc)

lemma score_of_append: "score_of (s @ t) i = score_of s i + score_of t i"
  by (simp add: score_of_def)

lemma score_of_unique: "distinct (map fst s) \<Longrightarrow> score_of s i = (case map_of s i of None \<Rightarrow> 0 | Some v \<Rightarrow> v)"
proof (induction s)
  case (Cons p s)
  have "filter (\<lambda>p. fst p = fst q) s = []" if "fst q \<notin> fst ` set s" for q
    using that by (force simp: filter_empty_conv)
  with Cons show ?case by (cases p) (auto simp: score_of_def)
qed (simp add: score_of_def)

lemma score_of_rank:
  assumes "distinct ids" and "a < length ids"
  shows "score_of (rrf_scores E k ids) (ids ! a) = one_over E (k + int a + 1)"
proof -
  have "map_of (rrf_scores E k ids) (ids ! a) = Some (one_over E (k + int a + 1))"
    unfolding rrf_scores_def using assms by (subst map_of_zip_nth) (simp_all add: algebra_simps del: upt_Suc)
  then show ?thesis using assms(1) by (simp add: score_of_unique)
qed

lemma score_of_absent: "i \<notin> set ids \<Longrightarrow> score_of (rrf_scores E k ids) i = 0"
proof -
  assume "i \<notin> set ids"
  then have "i \<notin> fst ` set (rrf_scores E k ids)" by (metis map_fst_rrf_scores set_map)
  then have "filter (\<lambda>p. fst p = i) (rrf_scores E k ids) = []" by (auto simp: filter_empty_conv)
  then show ?thesis by (simp add: score_of_def)
qed

lemma set_group_fused:
  "set (group_ids (fused E q e f limit d)) = set (kw_arm E q e f limit d) \<union> set (vec_arm E q e f limit d)"
  unfolding group_ids_def fused_def by (simp flip: set_map)

lemma filtered_hybrid: "set (filtered_chunks d (filter_clause f 5) (hybrid_binds q e f limit)) = eligible d f"
  using filtered_is_eligible [of d f "[BText q, BVector e, BInt (candidate_n limit), BInt RRF_K, BInt limit]"]
  by (simp add: hybrid_binds_def eval_nat_numeral)

lemma scanned_hybrid:
  "scanned E e d (filter_clause f 5) (hybrid_binds q e f limit) = filter (\<lambda>i. i \<in> eligible d f) (remdups (vec_scan E e d))"
  by (simp add: scanned_def filtered_hybrid)

lemma set_kw_matches:
  "set (kw_matches E q d (filter_clause f 5) (hybrid_binds q e f limit)) =
     {i \<in> eligible d f. fts_match E (c_text (chunks d ! i)) q}"
  by (auto simp: kw_matches_def filtered_hybrid)

lemma arms_eligible:
  "set (kw_arm E q e f limit d) \<subseteq> eligible d f" "set (vec_arm E q e f limit d) \<subseteq> eligible d f"
  using kw.limit_subset [of E q d _ "filter_clause f 5" "hybrid_binds q e f limit"] set_kw_matches [of E q d f e limit]
  by (auto simp: kw_arm_def vec_arm_def scanned_hybrid dest: in_set_takeD)

lemma arms_distinct: "distinct (kw_arm E q e f limit d)" "distinct (vec_arm E q e f limit d)"
  by (simp_all add: kw_arm_def vec_arm_def kw.limit_distinct scanned_hybrid)

lemma candidate_n_exact: "limit < 2 ^ 61 \<Longrightarrow> candidate_n limit = 4 * max limit 1"
  by (simp add: candidate_n_def wrap_i64_def mod_pos_pos_trivial max_def)

text \<open>An arm's term of the score: the reciprocal of \<open>k\<close> plus the rank, ranks counting from one.\<close>

lemma score_of_arm:
  assumes "distinct ids"
  shows "score_of (rrf_scores E k ids) i = (\<Sum>a \<in> {a. a < length ids \<and> ids ! a = i}. one_over E (k + int a + 1))"
proof (cases "i \<in> set ids")
  case True
  then obtain a where a: "a < length ids" "ids ! a = i" by (metis in_set_conv_nth)
  then have "{b. b < length ids \<and> ids ! b = i} = {a}" using assms nth_eq_iff_index_eq by blast
  then show ?thesis using score_of_rank [OF assms a(1), of E k] a(2) by simp
next
  case False
  then have "{a. a < length ids \<and> ids ! a = i} = {}" by (auto simp: in_set_conv_nth)
  then show ?thesis using False by (simp add: score_of_absent del: Collect_empty_eq)
qed

lemma finite_eligible: "finite (eligible d f)"
  by (rule finite_subset [of _ "{..<length (chunks d)}"]) (auto simp: eligible_def)

lemma length_hybrid_ids:
  "length (hybrid_ids E q e f limit d) =
     min (nat limit) (card (set (kw_arm E q e f limit d) \<union> set (vec_arm E q e f limit d)))"
  using distinct_card [OF fz.ids_distinct, of "fused E q e f limit d"]
  by (simp add: hybrid_ids_def Let_def fz.limit_length set_group_fused)

lemma kw_arm_best:
  assumes "limit < 2 ^ 61"
  shows "set (kw_arm E q e f limit d) \<subseteq> {i \<in> eligible d f. fts_match E (c_text (chunks d ! i)) q}"
    "length (kw_arm E q e f limit d) = min (nat (4 * max limit 1)) (card {i \<in> eligible d f. fts_match E (c_text (chunks d ! i)) q})"
    "sorted_wrt (ahead (kw_key E q d)) (kw_arm E q e f limit d)"
    "\<And>i j. i \<in> set (kw_arm E q e f limit d) \<Longrightarrow> j \<in> eligible d f \<Longrightarrow> fts_match E (c_text (chunks d ! j)) q \<Longrightarrow>
       j \<notin> set (kw_arm E q e f limit d) \<Longrightarrow> ahead (kw_key E q d) i j"
proof -
  let ?r = "kw_matches E q d (filter_clause f 5) (hybrid_binds q e f limit)"
  note n = candidate_n_exact [OF assms] and m = set_kw_matches [of E q d f e limit]
  show "set (kw_arm E q e f limit d) \<subseteq> {i \<in> eligible d f. fts_match E (c_text (chunks d ! i)) q}"
    unfolding kw_arm_def m [symmetric] by (rule kw.limit_subset)
  show "length (kw_arm E q e f limit d) = min (nat (4 * max limit 1)) (card {i \<in> eligible d f. fts_match E (c_text (chunks d ! i)) q})"
    unfolding kw_arm_def n kw.limit_length m [symmetric] using distinct_card [OF kw.ids_distinct, of E q d] by simp
  show "sorted_wrt (ahead (kw_key E q d)) (kw_arm E q e f limit d)"
    unfolding kw_arm_def by (rule kw.limit_ahead)
  show "ahead (kw_key E q d) i j"
    if "i \<in> set (kw_arm E q e f limit d)" "j \<in> eligible d f" "fts_match E (c_text (chunks d ! j)) q"
      "j \<notin> set (kw_arm E q e f limit d)" for i j
    using kw.limit_best [of i E q d _ "filter_clause f 5" "hybrid_binds q e f limit" j] that m by (simp add: kw_arm_def)
qed


text \<open>A database of two recordings with one chunk each, and an engine that computes.\<close>

definition demo_search_db :: db where
  "demo_search_db =
     (let r = \<lambda>i t. \<lparr>rec_id = i, rec_title = None, rec_created_at = t, rec_device_id = None, rec_duration_ms = None,
                     rec_status = Ready, rec_participants_expected = None, rec_audio_format = None,
                     rec_sample_rate = None, rec_storage_key = None, rec_tags = [], rec_marks = [], rec_title_auto = False\<rparr>;
          c = \<lambda>i x. \<lparr>c_recording_id = i, c_start_ms = None, c_end_ms = None, c_local_idx = None, c_text = x, c_embedding = []\<rparr>
      in empty_db\<lparr>recordings := [r 1 10, r 2 20], chunks := [c 1 (lit ''a''), c 2 (lit ''b'')]\<rparr>)"

definition demo_search_engine :: search_engine where
  "demo_search_engine = \<lparr>fts_match = (\<lambda>x q. True), ts_rank = (\<lambda>x q. 1), vec_distance = (\<lambda>a b. 0), vec_scan = (\<lambda>v d. [0, 1]),
     one_over = (\<lambda>n. 1 / of_int n), as_f32 = (\<lambda>r. 0)\<rparr>"

lemma eligible_filter:
  "eligible d f = set (filter (\<lambda>i. case lookup_by rec_id (c_recording_id (chunks d ! i)) (recordings d) of
       None \<Rightarrow> False | Some r \<Rightarrow> passes d f r (chunks d ! i)) [0..<length (chunks d)])"
  by (auto simp: eligible_def split: option.splits)

lemma eligible_demo: "eligible demo_search_db (no_filters\<lparr>sf_from := Some 15\<rparr>) = {1}"
  by (simp add: eligible_filter passes_def is_none_or_def no_filters_def demo_search_db_def lookup_by_def empty_db_def
      upt_rec [of _ "Suc (Suc 0)"])


subsection \<open>Agreement\<close>

definition before :: "nat list \<Rightarrow> nat \<Rightarrow> nat \<Rightarrow> bool" where
  "before xs i j \<longleftrightarrow> (\<exists>a b. a < b \<and> b < length xs \<and> xs ! a = i \<and> xs ! b = j)"

lemma sorted_wrt_before:
  assumes "sorted_wrt P xs" and "i \<in> set xs" and "j \<in> set xs" and "i \<noteq> j" and "\<not> P j i"
  shows "before xs i j"
proof -
  obtain a b where ab: "a < length xs" "xs ! a = i" "b < length xs" "xs ! b = j"
    using assms(2,3) by (metis in_set_conv_nth)
  have "a \<noteq> b" using ab assms(4) by auto
  moreover have "\<not> b < a" using assms(1,5) ab sorted_wrt_nth_less by blast
  ultimately have "a < b" by simp
  then show ?thesis unfolding before_def using ab by blast
qed

text \<open>The two arms give a row that is ahead a larger term.\<close>

lemma arm_score_le:
  assumes dec: "\<forall>m n. 0 < m \<and> m < n \<and> n \<le> k + N \<longrightarrow> one_over E n < one_over E m"
    and pos: "\<forall>m. 0 < m \<and> m \<le> k + N \<longrightarrow> 0 < one_over E m"
    and "0 \<le> k" and "distinct ids" and "int (length ids) \<le> N" and "j \<in> set ids \<longrightarrow> before ids i j"
  shows "score_of (rrf_scores E k ids) j \<le> score_of (rrf_scores E k ids) i \<and>
    (j \<in> set ids \<longrightarrow> score_of (rrf_scores E k ids) j < score_of (rrf_scores E k ids) i)"
proof (cases "j \<in> set ids")
  case True
  then obtain a b where ab: "a < b" "b < length ids" "ids ! a = i" "ids ! b = j"
    using assms(6) by (auto simp: before_def)
  then have "one_over E (k + int b + 1) < one_over E (k + int a + 1)" using dec assms(3,5) by simp
  then show ?thesis using score_of_rank [OF assms(4), of a E k] score_of_rank [OF assms(4), of b E k] ab by simp
next
  case False
  have "0 \<le> score_of (rrf_scores E k ids) i"
  proof (cases "i \<in> set ids")
    case True
    then obtain a where a: "a < length ids" "ids ! a = i" by (metis in_set_conv_nth)
    then have "0 < one_over E (k + int a + 1)" using pos assms(3,5) by simp
    then show ?thesis using score_of_rank [OF assms(4) a(1), of E k] a by simp
  qed (simp add: score_of_absent)
  then show ?thesis using False by (simp add: score_of_absent)
qed

lemma length_arms:
  assumes "0 \<le> candidate_n limit"
  shows "int (length (kw_arm E q e f limit d)) \<le> candidate_n limit" "int (length (vec_arm E q e f limit d)) \<le> candidate_n limit"
proof -
  have "int (min m (nat (candidate_n limit))) \<le> candidate_n limit" for m
  proof -
    have "int (min m (nat (candidate_n limit))) \<le> int (nat (candidate_n limit))" by (intro of_nat_mono min.cobounded2)
    also have "\<dots> = candidate_n limit" using assms by (rule int_nat_eq [THEN trans, OF if_P])
    finally show ?thesis .
  qed
  then show "int (length (kw_arm E q e f limit d)) \<le> candidate_n limit"
      "int (length (vec_arm E q e f limit d)) \<le> candidate_n limit"
    by (simp_all add: kw_arm_def vec_arm_def kw.limit_length min.commute [of _ "nat (candidate_n limit)"])
qed

lemma no_candidates: "candidate_n limit < 0 \<Longrightarrow> kw_arm E q e f limit d = [] \<and> vec_arm E q e f limit d = []"
  by (simp add: kw_arm_def vec_arm_def order_limit_def)

text \<open>
  C20: The fused order never contradicts the two rankings where they agree. When the database divides
  strictly monotonically over the ranks that occur, a chunk that precedes another in every arm the other
  one is in also precedes it in the result.
\<close>

theorem agreed_order_kept:
  assumes "\<forall>m n. 0 < m \<and> m < n \<and> n \<le> RRF_K + candidate_n limit \<longrightarrow> one_over E n < one_over E m"
    and "\<forall>m. 0 < m \<and> m \<le> RRF_K + candidate_n limit \<longrightarrow> 0 < one_over E m"
    and "j \<in> set (kw_arm E q e f limit d) \<longrightarrow> before (kw_arm E q e f limit d) i j"
    and "j \<in> set (vec_arm E q e f limit d) \<longrightarrow> before (vec_arm E q e f limit d) i j"
    and "j \<in> set (hybrid_ids E q e f limit d)"
  shows "before (hybrid_ids E q e f limit d) i j"
proof -
  let ?s = "fused E q e f limit d" and ?ids = "hybrid_ids E q e f limit d"
  have k: "0 \<le> RRF_K" by (simp add: RRF_K_def)
  have j: "j \<in> set (kw_arm E q e f limit d) \<union> set (vec_arm E q e f limit d)"
    using assms(5) fz.limit_subset [of ?s "nat limit"] by (auto simp: hybrid_ids_def Let_def set_group_fused)
  have c: "0 \<le> candidate_n limit" using j no_candidates [of limit E q e f d] by (cases "candidate_n limit < 0") auto
  have less: "score_of ?s j < score_of ?s i"
    using j arm_score_le [OF assms(1,2) k arms_distinct(1) length_arms(1) [OF c] assms(3)]
      arm_score_le [OF assms(1,2) k arms_distinct(2) length_arms(2) [OF c] assms(4)]
    by (auto simp: fused_def score_of_append)
  have "i \<in> set (kw_arm E q e f limit d) \<union> set (vec_arm E q e f limit d)"
    using j assms(3,4) by (force simp: before_def)
  then have i: "i \<in> set (group_ids ?s)" by (simp add: set_group_fused)
  have "i \<in> set ?ids"
    using fz.limit_best [of j ?s "nat limit" i] assms(5) i less by (auto simp: hybrid_ids_def Let_def ahead_uminus)
  moreover have "sorted_wrt (ahead (\<lambda>i. - score_of ?s i)) ?ids"
    using fz.limit_ahead [of ?s "nat limit"] by (simp add: hybrid_ids_def Let_def)
  ultimately show ?thesis using assms(5) less by (auto intro!: sorted_wrt_before simp: ahead_uminus)
qed

lemma demo_arms:
  "kw_arm demo_search_engine q e no_filters 5 demo_search_db = [0, 1]"
  "vec_arm demo_search_engine q e no_filters 5 demo_search_db = [0, 1]"
proof -
  have "filtered_chunks demo_search_db (filter_clause no_filters 5) (hybrid_binds q e no_filters 5) = [0, 1]"
    by (simp add: filtered_chunks_def filter_clause_def filters_is_empty_def no_filters_def demo_search_db_def
        lookup_by_def empty_db_def upt_rec [of _ "Suc (Suc 0)"])
  then show "kw_arm demo_search_engine q e no_filters 5 demo_search_db = [0, 1]"
      "vec_arm demo_search_engine q e no_filters 5 demo_search_db = [0, 1]"
    by (simp_all add: kw_arm_def vec_arm_def kw_matches_def order_limit_def candidate_n_exact kw_key_def scanned_def
        demo_search_engine_def)
qed

lemma demo_ids: "set (hybrid_ids demo_search_engine q e no_filters 5 demo_search_db) = {0, 1}"
proof (rule card_subset_eq)
  let ?ids = "hybrid_ids demo_search_engine q e no_filters 5 demo_search_db"
  show "set ?ids \<subseteq> {0, 1}"
    using fz.limit_subset [of "fused demo_search_engine q e no_filters 5 demo_search_db" 5]
    by (simp add: hybrid_ids_def Let_def set_group_fused demo_arms)
  have "distinct ?ids" by (simp add: hybrid_ids_def Let_def fz.limit_distinct)
  then show "card (set ?ids) = card {0, 1 :: nat}" by (simp add: distinct_card length_hybrid_ids demo_arms)
qed simp

theorem agreed_order_kept_witness:
  "before (hybrid_ids demo_search_engine (lit ''a'') [] no_filters 5 demo_search_db) 0 1"
proof (rule agreed_order_kept)
  show "\<forall>m n. 0 < m \<and> m < n \<and> n \<le> RRF_K + candidate_n 5 \<longrightarrow> one_over demo_search_engine n < one_over demo_search_engine m"
    by (auto simp: demo_search_engine_def divide_strict_left_mono)
  show "\<forall>m. 0 < m \<and> m \<le> RRF_K + candidate_n 5 \<longrightarrow> 0 < one_over demo_search_engine m"
    by (simp add: demo_search_engine_def)
  have "before [0, 1] 0 1" unfolding before_def by (intro exI [of _ 0] exI [of _ 1]) simp
  then show "1 \<in> set (kw_arm demo_search_engine (lit ''a'') [] no_filters 5 demo_search_db) \<longrightarrow>
        before (kw_arm demo_search_engine (lit ''a'') [] no_filters 5 demo_search_db) 0 1"
      "1 \<in> set (vec_arm demo_search_engine (lit ''a'') [] no_filters 5 demo_search_db) \<longrightarrow>
        before (vec_arm demo_search_engine (lit ''a'') [] no_filters 5 demo_search_db) 0 1"
    by (simp_all add: demo_arms)
  show "1 \<in> set (hybrid_ids demo_search_engine (lit ''a'') [] no_filters 5 demo_search_db)"
    by (simp add: demo_ids)
qed

section \<open>Asking\<close>

lemma clamp_bounds: "lo \<le> hi \<Longrightarrow> lo \<le> clamp lo hi x \<and> clamp lo hi x \<le> hi"
  by (simp add: clamp_def)

lemma hybrid_hits_bounded:
  assumes "0 \<le> limit" and "limit < 2 ^ 61"
  shows "\<exists>ids score. hybrid_search E q e f limit d = Inr (map (hit_from_row E d score) ids) \<and>
    length ids \<le> nat limit \<and> set ids \<subseteq> eligible d f"
  using assms candidate_n_exact [OF assms(2)] length_hybrid_ids [of E q e f limit d]
    fz.limit_subset [of "fused E q e f limit d" "nat limit"] arms_eligible [of E q e f limit d]
  by (intro exI [of _ "hybrid_ids E q e f limit d"] exI [of _ "score_of (fused E q e f limit d)"])
     (auto simp: hybrid_search_def hybrid_ids_def Let_def set_group_fused)

lemma length_truncate_chars: "length (truncate_chars s n) \<le> n + 1"
  by (simp add: truncate_chars_def)

lemma length_map_filter_le: "length (List.map_filter f xs) \<le> length xs"
  by (induction xs) (auto simp: List.map_filter_simps split: option.split)

lemma replay_turn_bounded:
  "replay_turn t = Some m \<Longrightarrow> cm_content m \<noteq> [] \<and> length (cm_content m) \<le> MAX_HISTORY_CHARS + 1"
  using length_truncate_chars [of "trim (at_content t)" MAX_HISTORY_CHARS]
  by (auto simp: replay_turn_def Let_def assistant_msg_def user_msg_def split: if_splits)

lemma replay_history_bounded:
  "length (replay_history h) \<le> MAX_HISTORY_TURNS"
  "m \<in> set (replay_history h) \<Longrightarrow> cm_content m \<noteq> [] \<and> length (cm_content m) \<le> MAX_HISTORY_CHARS + 1"
proof -
  show "length (replay_history h) \<le> MAX_HISTORY_TURNS"
    unfolding replay_history_def by (rule order_trans [OF length_map_filter_le]) simp
  assume "m \<in> set (replay_history h)"
  then obtain t where "replay_turn t = Some m" by (auto simp: replay_history_def List.map_filter_def)
  then show "cm_content m \<noteq> [] \<and> length (cm_content m) \<le> MAX_HISTORY_CHARS + 1" by (rule replay_turn_bounded)
qed

lemma excerpt_shown:
  assumes "n < length hits"
  shows "\<exists>pre post. question_msg q hits = pre @ excerpt (n + 1) (hits ! n) @ post"
proof -
  let ?es = "map (\<lambda>(i, h). excerpt (i + 1) h) (enumerate 0 hits)"
  have n: "n < length ?es" "?es ! n = excerpt (n + 1) (hits ! n)" using assms by (simp_all add: nth_enumerate_eq)
  have "concat ?es = concat (take n ?es) @ ?es ! n @ concat (drop (Suc n) ?es)"
    using id_take_nth_drop [OF n(1)] by (metis concat.simps(2) concat_append)
  moreover have "hits \<noteq> []" using assms by auto
  ultimately have "question_msg q hits =
      (lit ''Excerpts from my recordings:'' @ [10, 10] @ concat (take n ?es)) @ ?es ! n @ (concat (drop (Suc n) ?es) @ [10] @ q)"
    unfolding question_msg_def excerpts_def by (simp del: lit_Cons)
  then show ?thesis unfolding n(2) by blast
qed


text \<open>A question about the two demo recordings, with the language model down.\<close>

definition demo_ask :: ask_body where
  "demo_ask = \<lparr>ab_question = lit ''why?'', ab_history = [\<lparr>at_role = lit ''user'', at_content = lit ''who agreed?''\<rparr>],
     ab_filters = None, ab_top_k = None\<rparr>"


end
