(* ===== verification/Scribe_Mcp.thy ===== *)
theory Scribe_Mcp
  imports Scribe_Search
begin

text \<open>
  The MCP endpoint, \<open>crates/scribe-api/src/mcp.rs\<close>: JSON-RPC messages over \<^verbatim>\<open>POST /mcp\<close>, the tool table,
  and the tools, each a call of the HTTP handler for the same operation; with it the list of recordings
  (\<open>list_recordings\<close> of \<open>scribe-db\<close> and of the API).

  A message leaves the tables as its tool has changed them. What the endpoint takes from libraries is in
  \<open>mcp_env\<close>: the JSON reader, the decoders that serde derives for the argument structs, the text of errors
  and dates, and the version of the package.
\<close>

section \<open>The list of recordings\<close>

text \<open>Recordings created at the same instant come in any order, by \<open>tie\<close>.\<close>

definition list_recordings ::
  "(recording list \<Rightarrow> recording list) \<Rightarrow> int \<Rightarrow> int \<Rightarrow> rstr option \<Rightarrow> db \<Rightarrow> recording list res" where
  "list_recordings tie limit offset tag d =
     (if limit < 0 \<or> offset < 0 then Inl Database
      else Inr (take (nat limit) (drop (nat offset) (sort_key (\<lambda>r. - rec_created_at r)
             (tie (filter (\<lambda>r. is_none_or tag (\<lambda>t. t \<in> set (rec_tags r))) (recordings d)))))))"

definition list_recordings_handler ::
  "(recording list \<Rightarrow> recording list) \<Rightarrow> list_query \<Rightarrow> db \<Rightarrow> recording list res" where
  "list_recordings_handler tie q d = (case list_page q of (limit, offset, tag) \<Rightarrow> list_recordings tie limit offset tag d)"

section \<open>Arguments and surroundings\<close>

record list_args =
  la_limit :: "int option"
  la_offset :: "int option"
  la_tag :: "rstr option"

record summary_args =
  sa_recording_id :: uuid
  sa_template :: "rstr option"

record search_args =
  sr_query :: rstr
  sr_limit :: "int option"
  sr_from :: "rstr option"
  sr_to :: "rstr option"
  sr_recording_id :: "uuid option"
  sr_speaker_id :: "uuid option"

record ask_args =
  aa_question :: rstr
  aa_recording_id :: "uuid option"
  aa_from :: "rstr option"
  aa_to :: "rstr option"

record participants_args =
  pa_recording_id :: uuid
  pa_participants :: "int option"
  pa_rediarize :: "bool option"

text \<open>A tool hands back text for the model: \<open>Inl\<close> an error it should see, \<open>Inr\<close> the answer.\<close>

type_synonym tool_output = "rstr + rstr"

record mcp_env =
  me_from_slice :: "8 word list \<Rightarrow> rstr + json"
  me_public_base_url :: rstr
  me_version :: rstr
  me_error_text :: "error \<Rightarrow> rstr"
  me_date :: "timestamp \<Rightarrow> rstr"
  me_rfc3339 :: "rstr \<Rightarrow> rstr + timestamp"
  me_pretty_speakers :: "speaker_view list \<Rightarrow> rstr"
  me_list_args :: "json \<Rightarrow> rstr + list_args"
  me_recording_args :: "json \<Rightarrow> rstr + uuid"
  me_summary_args :: "json \<Rightarrow> rstr + summary_args"
  me_search_args :: "json \<Rightarrow> rstr + search_args"
  me_ask_args :: "json \<Rightarrow> rstr + ask_args"
  me_participants_args :: "json \<Rightarrow> rstr + participants_args"

record app_state =
  st_env :: mcp_env
  st_engine :: search_engine
  st_world :: world
  st_config :: config
  st_by_template :: "summary_row list \<Rightarrow> summary_row list"
  st_by_name :: "speaker_row list \<Rightarrow> speaker_row list"
  st_tie :: "recording list \<Rightarrow> recording list"

definition parse_args :: "(json \<Rightarrow> rstr + 'a) \<Rightarrow> json \<Rightarrow> rstr + 'a" where
  "parse_args de args = (case de args of Inl e \<Rightarrow> Inl (lit ''invalid arguments: '' @ e) | Inr a \<Rightarrow> Inr a)"

definition parse_time :: "mcp_env \<Rightarrow> rstr \<Rightarrow> rstr option \<Rightarrow> rstr + timestamp option" where
  "parse_time M field value =
     (case value of
        None \<Rightarrow> Inr None
      | Some s \<Rightarrow>
          if trim s = [] then Inr None
          else case me_rfc3339 M (trim s) of
            Inl e \<Rightarrow> Inl ([96] @ field @ [96] @ lit '' is not an RFC 3339 timestamp: '' @ e)
          | Inr t \<Rightarrow> Inr (Some t))"

text \<open>\<open>83_000\<close> is printed \<^verbatim>\<open>1:23\<close>; an hour or more gets an hour field.\<close>

definition fmt_ms :: "int \<Rightarrow> rstr" where
  "fmt_ms ms =
     (let s = max ms 0 div 1000; h = s div 3600; m = (s mod 3600) div 60; s = s mod 60
      in if h > 0 then show_int h @ lit '':'' @ two_digits m @ lit '':'' @ two_digits s
         else show_int m @ lit '':'' @ two_digits s)"

definition fmt_opt_ms :: "int option \<Rightarrow> rstr" where
  "fmt_opt_ms x = (case x of None \<Rightarrow> lit ''?'' | Some ms \<Rightarrow> fmt_ms ms)"

text \<open>Addition of \<open>i64\<close> in a release build.\<close>

definition wrapping_i64 :: "int \<Rightarrow> int" where
  "wrapping_i64 x = (x + 2 ^ 63) mod 2 ^ 64 - 2 ^ 63"

section \<open>Tools that read\<close>

definition recording_line :: "app_state \<Rightarrow> recording \<Rightarrow> rstr" where
  "recording_line S r =
     lit ''- '' @ uuid_str (st_world S) (rec_id r) @ lit '' | '' @ me_date (st_env S) (rec_created_at r) @ lit '' | ''
       @ (case rec_title r of None \<Rightarrow> lit ''(untitled)'' | Some t \<Rightarrow> t) @ lit '' | '' @ fmt_opt_ms (rec_duration_ms r)
       @ lit '' | '' @ status_as_str (rec_status r)
       @ (case rec_participants_expected r of None \<Rightarrow> [] | Some n \<Rightarrow> lit '' | '' @ show_int n @ lit '' participants stated'')
       @ (if rec_tags r = [] then [] else lit '' | tags: '' @ join (lit '', '') (rec_tags r)) @ [10]"

definition more_line :: "int \<Rightarrow> rstr" where
  "more_line next_offset = lit ''(more may follow: offset '' @ show_int next_offset @ lit '')'' @ [10]"

definition list_recordings_tool :: "app_state \<Rightarrow> json \<Rightarrow> db \<Rightarrow> tool_output" where
  "list_recordings_tool S args d =
     (case parse_args (me_list_args (st_env S)) args of
        Inl e \<Rightarrow> Inl e
      | Inr a \<Rightarrow>
          let limit = (case la_limit a of None \<Rightarrow> 20 | Some n \<Rightarrow> n);
              offset = (case la_offset a of None \<Rightarrow> 0 | Some n \<Rightarrow> n)
          in case list_recordings_handler (st_tie S) \<lparr>lq_limit = Some limit, lq_offset = Some offset, lq_tag = la_tag a\<rparr> d of
               Inl e \<Rightarrow> Inl (me_error_text (st_env S) e)
             | Inr rs \<Rightarrow>
                 if rs = [] then Inr (if offset > 0 then lit ''No more recordings.'' else lit ''No recordings.'')
                 else Inr (concat (map (recording_line S) rs)
                       @ (if int (length rs) \<ge> limit then more_line (wrapping_i64 (offset + limit)) else [])))"

definition stage_line :: "stage_progress \<Rightarrow> rstr" where
  "stage_line s = lit ''- '' @ kind_as_str (sg_kind s) @ lit '': '' @ sg_state s
     @ (case sg_error s of None \<Rightarrow> [] | Some e \<Rightarrow> [32, 8212, 32] @ e) @ [10]"

definition progress_block :: "pipeline_progress option \<Rightarrow> rstr" where
  "progress_block p =
     (case p of
        None \<Rightarrow> []
      | Some p \<Rightarrow> [10] @ lit ''## Processing: '' @ show_nat (pp_completed p) @ lit ''/'' @ show_nat (pp_total p)
                  @ lit '' stages done'' @ [10] @ concat (map stage_line (pp_stages p)))"

definition speaker_line :: "utterance list \<Rightarrow> rec_speaker \<times> rstr \<Rightarrow> rstr" where
  "speaker_line us = (\<lambda>(s, name).
     let words = sum_list (map (\<lambda>u. length (split_whitespace (u_text u)))
                   (filter (\<lambda>u. u_local_idx u = Some (rs_local_idx s)) us))
     in lit ''- '' @ name @ lit '' (local index '' @ show_int (rs_local_idx s)
        @ (if rs_speaker_id s \<noteq> None then lit '', enrolled'' else []) @ lit '') '' @ [8212] @ lit '' ''
        @ show_nat words @ lit '' words'' @ [10])"

definition transcript_line :: "utterance \<Rightarrow> rstr" where
  "transcript_line u =
     (let who = (case u_speaker_name u of
                   Some n \<Rightarrow> n
                 | None \<Rightarrow> (case u_local_idx u of Some i \<Rightarrow> speaker_label i | None \<Rightarrow> lit ''Unknown''))
      in lit ''['' @ fmt_ms (u_start_ms u) @ lit ''] '' @ who @ lit '': '' @ trim (u_text u) @ [10])"

definition detail_head :: "app_state \<Rightarrow> recording \<Rightarrow> rstr" where
  "detail_head S r =
     lit ''# '' @ (case rec_title r of None \<Rightarrow> lit ''(untitled)'' | Some t \<Rightarrow> t) @ [10, 10]
       @ lit ''id: '' @ uuid_str (st_world S) (rec_id r) @ [10]
       @ lit ''recorded: '' @ me_date (st_env S) (rec_created_at r) @ [10]
       @ lit ''length: '' @ fmt_opt_ms (rec_duration_ms r) @ [10]
       @ lit ''status: '' @ status_as_str (rec_status r) @ [10]
       @ (case rec_participants_expected r of
            Some n \<Rightarrow> lit ''participants stated: '' @ show_int n @ [10]
          | None \<Rightarrow> lit ''participants stated: none (speaker detection chose the count)'' @ [10])
       @ (if rec_tags r = [] then [] else lit ''tags: '' @ join (lit '', '') (rec_tags r) @ [10])"

definition get_transcript_tool :: "app_state \<Rightarrow> json \<Rightarrow> db \<Rightarrow> tool_output" where
  "get_transcript_tool S args d =
     (case parse_args (me_recording_args (st_env S)) args of
        Inl e \<Rightarrow> Inl e
      | Inr rid \<Rightarrow>
     (case get_recording_handler (st_by_template S) rid d of
        Inl e \<Rightarrow> Inl (me_error_text (st_env S) e)
      | Inr dt \<Rightarrow>
          Inr (detail_head S (rd_recording dt) @ progress_block (rd_progress dt)
            @ [10] @ lit ''## Speakers ('' @ show_nat (length (rd_speakers dt)) @ lit '')'' @ [10]
            @ concat (map (speaker_line (rd_utterances dt)) (rd_speakers dt))
            @ [10] @ lit ''## Transcript'' @ [10]
            @ (if rd_utterances dt = [] then lit ''(no transcript yet)'' @ [10] else [])
            @ concat (map transcript_line (rd_utterances dt)))))"

text \<open>An item of a summary's list on one line; \<open>pj\<close> is \<open>to_string\<close>.\<close>

definition item_line :: "(json \<Rightarrow> rstr) \<Rightarrow> json \<Rightarrow> rstr" where
  "item_line pj i =
     (case i of
        JString s \<Rightarrow> s
      | JObject kvs \<Rightarrow>
          join (lit ''; '') (map (\<lambda>(k, v). k @ lit '': '' @ (case v of JString s \<Rightarrow> s | other \<Rightarrow> pj other))
            (filter (\<lambda>(k, v). v \<noteq> JNull) kvs))
      | other \<Rightarrow> pj other)"

fun json_list :: "(json \<Rightarrow> rstr) \<Rightarrow> json \<Rightarrow> rstr list" where
  "json_list pj (JArray items) = map (item_line pj) items"
| "json_list pj JNull = []"
| "json_list pj other = [pj other]"

definition summary_section :: "(json \<Rightarrow> rstr) \<Rightarrow> rstr \<times> json \<Rightarrow> rstr" where
  "summary_section pj = (\<lambda>(heading, items).
     let lines = json_list pj items in
     if lines = [] then []
     else lit ''## '' @ heading @ [10] @ concat (map (\<lambda>l. lit ''- '' @ l @ [10]) lines) @ [10])"

definition summary_text :: "(json \<Rightarrow> rstr) \<Rightarrow> summary_row \<Rightarrow> rstr" where
  "summary_text pj s =
     lit ''# '' @ (case s_title s of None \<Rightarrow> lit ''(untitled)'' | Some t \<Rightarrow> t) @ lit '' ('' @ s_template s
       @ lit '' template)'' @ [10, 10]
       @ (case s_summary s of None \<Rightarrow> [] | Some t \<Rightarrow> trim t @ [10, 10])
       @ concat (map (summary_section pj) [(lit ''Decisions'', s_decisions s), (lit ''Action items'', s_action_items s),
                                            (lit ''Topics'', s_topics s)])"

definition get_summary_tool :: "app_state \<Rightarrow> json \<Rightarrow> db \<Rightarrow> tool_output" where
  "get_summary_tool S args d =
     (case parse_args (me_summary_args (st_env S)) args of
        Inl e \<Rightarrow> Inl e
      | Inr a \<Rightarrow>
     (case get_recording_handler (st_by_template S) (sa_recording_id a) d of
        Inl e \<Rightarrow> Inl (me_error_text (st_env S) e)
      | Inr dt \<Rightarrow>
          let want = (case map_option trim (sa_template a) of Some t \<Rightarrow> if t = [] then None else Some t | None \<Rightarrow> None);
              ss = filter (\<lambda>s. is_none_or want (\<lambda>w. s_template s = w)) (rd_summaries dt)
          in if ss = []
             then Inr (case want of
                    Some w \<Rightarrow> lit ''No '' @ [96] @ w @ [96] @ lit '' summary for this meeting.''
                  | None \<Rightarrow> lit ''No summary yet (status: '' @ status_as_str (rec_status (rd_recording dt)) @ lit '').'')
             else Inr (concat (map (summary_text (print_json (st_world S))) ss))))"

definition passage_line :: "app_state \<Rightarrow> rstr option \<Rightarrow> uuid \<Rightarrow> int option \<Rightarrow> rstr option \<Rightarrow> rstr \<Rightarrow> rstr" where
  "passage_line S title rid start_ms who content =
     lit ''- '' @ (case title of None \<Rightarrow> lit ''(untitled)'' | Some t \<Rightarrow> t) @ lit '' ('' @ uuid_str (st_world S) rid
       @ lit '') ['' @ fmt_opt_ms start_ms @ lit ''] '' @ (case who of None \<Rightarrow> lit ''Unknown'' | Some s \<Rightarrow> s)
       @ lit '': '' @ trim content @ [10]"

definition search_tool :: "app_state \<Rightarrow> json \<Rightarrow> db \<Rightarrow> tool_output" where
  "search_tool S args d =
     (case parse_args (me_search_args (st_env S)) args of
        Inl e \<Rightarrow> Inl e
      | Inr a \<Rightarrow>
     (case parse_time (st_env S) (lit ''from'') (sr_from a) of
        Inl e \<Rightarrow> Inl e
      | Inr since \<Rightarrow>
     (case parse_time (st_env S) (lit ''to'') (sr_to a) of
        Inl e \<Rightarrow> Inl e
      | Inr until \<Rightarrow>
     (case search (st_engine S) (st_world S)
             \<lparr>sq_q = sr_query a, sq_from = since, sq_to = until, sq_speaker = sr_speaker_id a,
              sq_recording = sr_recording_id a,
              sq_limit = Some (case sr_limit a of None \<Rightarrow> 10 | Some n \<Rightarrow> n)\<rparr> d of
        Inl e \<Rightarrow> Inl (me_error_text (st_env S) e)
      | Inr hits \<Rightarrow>
          if hits = [] then Inr (lit ''No matches.'')
          else Inr (concat (map (\<lambda>h. passage_line S (h_recording_title h) (h_recording_id h) (h_start_ms h)
                                        (h_speaker h) (h_text h)) hits))))))"

definition ask_tool :: "app_state \<Rightarrow> json \<Rightarrow> db \<Rightarrow> tool_output" where
  "ask_tool S args d =
     (case parse_args (me_ask_args (st_env S)) args of
        Inl e \<Rightarrow> Inl e
      | Inr a \<Rightarrow>
     (case parse_time (st_env S) (lit ''from'') (aa_from a) of
        Inl e \<Rightarrow> Inl e
      | Inr since \<Rightarrow>
     (case parse_time (st_env S) (lit ''to'') (aa_to a) of
        Inl e \<Rightarrow> Inl e
      | Inr until \<Rightarrow>
     (case ask (st_engine S) (st_world S) (st_config S) (me_error_text (st_env S))
             \<lparr>ab_question = aa_question a, ab_history = [],
              ab_filters = Some \<lparr>af_from = since, af_to = until, af_speaker = None, af_recording = aa_recording_id a\<rparr>,
              ab_top_k = None\<rparr> d of
        Inl e \<Rightarrow> Inl (me_error_text (st_env S) e)
      | Inr an \<Rightarrow>
          Inr (trim (an_answer an)
            @ (if an_citations an = [] then []
               else [10, 10] @ lit ''Sources:'' @ [10]
                    @ concat (map (\<lambda>c. passage_line S (ct_recording_title c) (ct_recording_id c) (ct_start_ms c)
                                          (ct_speaker c) (ct_snippet c)) (an_citations an))))))))"

definition list_speakers_tool :: "app_state \<Rightarrow> db \<Rightarrow> tool_output" where
  "list_speakers_tool S d = Inr (me_pretty_speakers (st_env S) (list_speakers_handler (st_by_name S) d))"

section \<open>Tools that change a recording\<close>

definition rerunning :: rstr where
  "rerunning = lit ''Speaker detection is re-running; poll get_transcript until status is ready.''"

definition set_participants_tool :: "app_state \<Rightarrow> timestamp \<Rightarrow> json \<Rightarrow> db \<Rightarrow> tool_output \<times> db" where
  "set_participants_tool S now args d =
     (case parse_args (me_participants_args (st_env S)) args of
        Inl e \<Rightarrow> (Inl e, d)
      | Inr a \<Rightarrow>
     (case set_participants (st_world S) (pa_recording_id a) (pa_participants a) d of
        (Inl e, d1) \<Rightarrow> (Inl (me_error_text (st_env S) e), d1)
      | (Inr _, d1) \<Rightarrow>
          let stated = (case pa_participants a of
                          Some n \<Rightarrow> lit ''Participant count set to '' @ show_int n @ lit ''.''
                        | None \<Rightarrow> lit ''Participant count cleared.'')
          in if \<not> (case pa_rediarize a of None \<Rightarrow> True | Some b \<Rightarrow> b)
             then (Inr (stated @ lit '' Speaker detection was not re-run.''), d1)
             else (case rediarize_recording (st_world S) now (pa_recording_id a) d1 of
                     (Inl e, d2) \<Rightarrow> (Inl (stated @ lit '' But re-running speaker detection failed: ''
                                           @ me_error_text (st_env S) e), d2)
                   | (Inr _, d2) \<Rightarrow> (Inr (stated @ lit '' '' @ rerunning), d2))))"

definition rediarize_tool :: "app_state \<Rightarrow> timestamp \<Rightarrow> json \<Rightarrow> db \<Rightarrow> tool_output \<times> db" where
  "rediarize_tool S now args d =
     (case parse_args (me_recording_args (st_env S)) args of
        Inl e \<Rightarrow> (Inl e, d)
      | Inr rid \<Rightarrow>
     (case rediarize_recording (st_world S) now rid d of
        (Inl e, d1) \<Rightarrow> (Inl (me_error_text (st_env S) e), d1)
      | (Inr _, d1) \<Rightarrow> (Inr rerunning, d1)))"

section \<open>The tool table\<close>

definition tool_entry ::
  "string \<Rightarrow> rstr \<Rightarrow> (string \<times> json) list \<Rightarrow> string list option \<Rightarrow> (string \<times> bool) list \<Rightarrow> json" where
  "tool_entry name description props required annotations =
     obj [(''name'', JString (lit name)), (''description'', JString description),
          (''inputSchema'', obj ([(''type'', JString (lit ''object'')), (''properties'', obj props)]
             @ (case required of None \<Rightarrow> [] | Some rs \<Rightarrow> [(''required'', JArray (map (\<lambda>r. JString (lit r)) rs))]))),
          (''annotations'', obj (map (\<lambda>(k, b). (k, JBool b)) annotations))]"

definition list_recordings_entry :: json where
  "list_recordings_entry = tool_entry ''list_recordings''
     (lit ''List recorded meetings, newest first: id, date, title, length, processing status, stated participant count and tags.'')
     [(''limit'', obj [(''type'', JString (lit ''integer'')), (''minimum'', json_int 1), (''maximum'', json_int 200), (''description'', JString (lit ''How many to return (default 20).''))]),
      (''offset'', obj [(''type'', JString (lit ''integer'')), (''minimum'', json_int 0), (''description'', JString (lit ''Skip this many, for paging.''))]),
      (''tag'', obj [(''type'', JString (lit ''string'')), (''description'', JString (lit ''Only recordings carrying this tag.''))])]
     None
     [(''readOnlyHint'', True)]"

definition get_transcript_entry :: json where
  "get_transcript_entry = tool_entry ''get_transcript''
     (lit ''Read one meeting: its details, speakers, and the diarized transcript as timestamped lines with speaker names. While the meeting is still processing, shows how far each pipeline stage has got instead.'')
     [(''recording_id'', obj [(''type'', JString (lit ''string'')), (''description'', JString (lit ''Recording id (a UUID), from list_recordings or search.''))])]
     (Some [''recording_id''])
     [(''readOnlyHint'', True)]"

definition get_summary_entry :: json where
  "get_summary_entry = tool_entry ''get_summary''
     (lit ''Read a meeting'' @ [39] @ lit ''s generated summaries: title, summary, decisions, action items and topics. A meeting has one summary per template it was summarised with.'')
     [(''recording_id'', obj [(''type'', JString (lit ''string'')), (''description'', JString (lit ''Recording id (a UUID), from list_recordings or search.''))]),
      (''template'', obj [(''type'', JString (lit ''string'')), (''description'', JString (lit ''Only this summary template (e.g. general). Default: all.''))])]
     (Some [''recording_id''])
     [(''readOnlyHint'', True)]"

definition search_entry :: json where
  "search_entry = tool_entry ''search''
     (lit ''Search every transcript by meaning and keyword. Returns matching passages with the meeting, timestamp and speaker.'')
     [(''query'', obj [(''type'', JString (lit ''string''))]),
      (''limit'', obj [(''type'', JString (lit ''integer'')), (''minimum'', json_int 1), (''maximum'', json_int 200), (''description'', JString (lit ''Default 10.''))]),
      (''from'', obj [(''type'', JString (lit ''string'')), (''description'', JString (lit ''Only meetings on or after this. RFC 3339 timestamp, e.g. 2026-09-01T00:00:00Z''))]),
      (''to'', obj [(''type'', JString (lit ''string'')), (''description'', JString (lit ''Only meetings before this. RFC 3339 timestamp, e.g. 2026-09-01T00:00:00Z''))]),
      (''recording_id'', obj [(''type'', JString (lit ''string'')), (''description'', JString (lit ''Only this meeting.''))]),
      (''speaker_id'', obj [(''type'', JString (lit ''string'')), (''description'', JString (lit ''Only this enrolled speaker (id from list_speakers).''))])]
     (Some [''query''])
     [(''readOnlyHint'', True)]"

definition ask_entry :: json where
  "ask_entry = tool_entry ''ask''
     (lit ''Answer a question from the meetings using the server'' @ [39] @ lit ''s own language model, with citations. Use search and get_transcript instead when you want to read the material yourself.'')
     [(''question'', obj [(''type'', JString (lit ''string''))]),
      (''recording_id'', obj [(''type'', JString (lit ''string'')), (''description'', JString (lit ''Only this meeting.''))]),
      (''from'', obj [(''type'', JString (lit ''string'')), (''description'', JString (lit ''RFC 3339 timestamp, e.g. 2026-09-01T00:00:00Z''))]),
      (''to'', obj [(''type'', JString (lit ''string'')), (''description'', JString (lit ''RFC 3339 timestamp, e.g. 2026-09-01T00:00:00Z''))])]
     (Some [''question''])
     [(''readOnlyHint'', True)]"

definition list_speakers_entry :: json where
  "list_speakers_entry = tool_entry ''list_speakers''
     (lit ''The enrolled speaker library: each known voice'' @ [39] @ lit ''s id, name, and how many meetings it appears in.'')
     []
     None
     [(''readOnlyHint'', True)]"

definition set_participants_entry :: json where
  "set_participants_entry = tool_entry ''set_participants''
     (lit ''State how many people speak in a meeting, then (by default) re-run speaker detection with that count. Only speaker detection and the stages after it re-run; the words are kept. The meeting is processing until it finishes '' @ [8212] @ lit '' poll get_transcript.'')
     [(''recording_id'', obj [(''type'', JString (lit ''string'')), (''description'', JString (lit ''Recording id (a UUID), from list_recordings or search.''))]),
      (''participants'', obj [(''type'', JArray [JString (lit ''integer''), JString (lit ''null'')]), (''minimum'', json_int 1), (''maximum'', json_int 64), (''description'', JString (lit ''Number of people. null clears it, so speaker detection discovers the count again.''))]),
      (''rediarize'', obj [(''type'', JString (lit ''boolean'')), (''description'', JString (lit ''Re-run speaker detection now (default true).''))])]
     (Some [''recording_id'', ''participants''])
     [(''readOnlyHint'', False), (''destructiveHint'', False), (''idempotentHint'', True)]"

definition rediarize_entry :: json where
  "rediarize_entry = tool_entry ''rediarize''
     (lit ''Re-run speaker detection on a meeting with its current settings, keeping the transcript'' @ [39] @ lit ''s words. The meeting is processing until it finishes '' @ [8212] @ lit '' poll get_transcript.'')
     [(''recording_id'', obj [(''type'', JString (lit ''string'')), (''description'', JString (lit ''Recording id (a UUID), from list_recordings or search.''))])]
     (Some [''recording_id''])
     [(''readOnlyHint'', False), (''destructiveHint'', False), (''idempotentHint'', True)]"

definition tool_definitions :: "json list" where
  "tool_definitions = [list_recordings_entry, get_transcript_entry, get_summary_entry, search_entry, ask_entry,
     list_speakers_entry, set_participants_entry, rediarize_entry]"

section \<open>Messages\<close>

definition PARSE_ERROR :: int where "PARSE_ERROR = -32700"
definition INVALID_REQUEST :: int where "INVALID_REQUEST = -32600"
definition METHOD_NOT_FOUND :: int where "METHOD_NOT_FOUND = -32601"
definition INVALID_PARAMS :: int where "INVALID_PARAMS = -32602"

definition PROTOCOL_VERSIONS :: "rstr list" where
  "PROTOCOL_VERSIONS = [lit ''2025-11-25'', lit ''2025-06-18'', lit ''2025-03-26'']"

definition INSTRUCTIONS :: rstr where
  "INSTRUCTIONS = lit ''Scribe holds recorded meetings: diarized transcripts with speaker names, summaries, and a search index. Find a meeting with list_recordings or search, then read it with get_transcript or get_summary. If a transcript has the wrong number of speakers, set_participants with the right count re-runs speaker detection without re-transcribing; poll get_transcript until its status is ready again.''"

definition error_response :: "json \<Rightarrow> int \<Rightarrow> rstr \<Rightarrow> json" where
  "error_response mid ecode message =
     obj [(''jsonrpc'', JString (lit ''2.0'')), (''id'', mid),
          (''error'', obj [(''code'', json_int ecode), (''message'', JString message)])]"

definition initialize_result :: "app_state \<Rightarrow> json \<Rightarrow> json" where
  "initialize_result S params =
     (let requested = (case json_get params (lit ''protocolVersion'') of None \<Rightarrow> None | Some v \<Rightarrow> json_as_str v);
          version = (case requested of
                       Some v \<Rightarrow> if v \<in> set PROTOCOL_VERSIONS then v else hd PROTOCOL_VERSIONS
                     | None \<Rightarrow> hd PROTOCOL_VERSIONS)
      in obj [(''protocolVersion'', JString version),
              (''capabilities'', obj [(''tools'', obj [(''listChanged'', JBool False)])]),
              (''serverInfo'', obj [(''name'', JString (lit ''scribe'')), (''version'', JString (me_version (st_env S)))]),
              (''instructions'', JString INSTRUCTIONS)])"

text \<open>The tool a name selects, run on the arguments.\<close>

definition run_tool :: "app_state \<Rightarrow> timestamp \<Rightarrow> rstr \<Rightarrow> json \<Rightarrow> db \<Rightarrow> (tool_output \<times> db) option" where
  "run_tool S now name args d =
     (if name = lit ''list_recordings'' then Some (list_recordings_tool S args d, d)
      else if name = lit ''get_transcript'' then Some (get_transcript_tool S args d, d)
      else if name = lit ''get_summary'' then Some (get_summary_tool S args d, d)
      else if name = lit ''search'' then Some (search_tool S args d, d)
      else if name = lit ''ask'' then Some (ask_tool S args d, d)
      else if name = lit ''list_speakers'' then Some (list_speakers_tool S d, d)
      else if name = lit ''set_participants'' then Some (set_participants_tool S now args d)
      else if name = lit ''rediarize'' then Some (rediarize_tool S now args d)
      else None)"

definition tool_result :: "tool_output \<Rightarrow> json" where
  "tool_result out =
     (case (case out of Inr t \<Rightarrow> (t, False) | Inl t \<Rightarrow> (t, True)) of (t, is_error) \<Rightarrow>
        obj [(''content'', JArray [obj [(''type'', JString (lit ''text'')), (''text'', JString t)]]),
             (''isError'', JBool is_error)])"

definition call_tool :: "app_state \<Rightarrow> timestamp \<Rightarrow> json \<Rightarrow> db \<Rightarrow> (int \<times> rstr + json) \<times> db" where
  "call_tool S now params d =
     (case (case json_get params (lit ''name'') of None \<Rightarrow> None | Some v \<Rightarrow> json_as_str v) of
        None \<Rightarrow> (Inl (INVALID_PARAMS, lit ''tools/call needs a tool name''), d)
      | Some name \<Rightarrow>
          let args = (case json_get params (lit ''arguments'') of None \<Rightarrow> obj [] | Some a \<Rightarrow> a)
          in case run_tool S now name args d of
               None \<Rightarrow> (Inl (INVALID_PARAMS, lit ''unknown tool: '' @ name), d)
             | Some (out, d') \<Rightarrow> (Inr (tool_result out), d'))"

definition method_of :: "json \<Rightarrow> rstr option" where
  "method_of msg = (case json_get msg (lit ''method'') of None \<Rightarrow> None | Some v \<Rightarrow> json_as_str v)"

text \<open>The result of a method, \<open>Inl\<close> an error code and its message.\<close>

definition dispatch :: "app_state \<Rightarrow> timestamp \<Rightarrow> rstr \<Rightarrow> json \<Rightarrow> db \<Rightarrow> (int \<times> rstr + json) \<times> db" where
  "dispatch S now meth params d =
     (if meth = lit ''initialize'' then (Inr (initialize_result S params), d)
      else if meth = lit ''ping'' then (Inr (obj []), d)
      else if meth = lit ''tools/list'' then (Inr (obj [(''tools'', JArray tool_definitions)]), d)
      else if meth = lit ''tools/call'' then call_tool S now params d
      else (Inl (METHOD_NOT_FOUND, lit ''method not found: '' @ meth), d))"

definition handle_message :: "app_state \<Rightarrow> timestamp \<Rightarrow> json \<Rightarrow> db \<Rightarrow> json option \<times> db" where
  "handle_message S now msg d =
     (case method_of msg of
        None \<Rightarrow>
          (case json_get msg (lit ''id'') of
             None \<Rightarrow> (None, d)
           | Some mid \<Rightarrow>
               if json_get msg (lit ''result'') = None \<and> json_get msg (lit ''error'') = None
               then (Some (error_response mid INVALID_REQUEST (lit ''missing method'')), d) else (None, d))
      | Some meth \<Rightarrow>
     (case json_get msg (lit ''id'') of
        None \<Rightarrow> (None, d)
      | Some mid \<Rightarrow>
          let params = (case json_get msg (lit ''params'') of None \<Rightarrow> JNull | Some p \<Rightarrow> p)
          in case dispatch S now meth params d of
               (Inr result, d') \<Rightarrow>
                 (Some (obj [(''jsonrpc'', JString (lit ''2.0'')), (''id'', mid), (''result'', result)]), d')
             | (Inl (ecode, message), d') \<Rightarrow> (Some (error_response mid ecode message), d')))"

definition origin_allowed :: "rstr \<Rightarrow> rstr \<Rightarrow> bool" where
  "origin_allowed origin public_base_url \<longleftrightarrow>
     (let base = trim_end_matches (\<lambda>c. c = 47) (trim public_base_url)
      in base \<noteq> [] \<and> eq_ignore_ascii_case (trim_end_matches (\<lambda>c. c = 47) origin) base)"

text \<open>The messages of a batch, one after the other; message \<open>n\<close> reads the clock at \<open>now n\<close>.\<close>

fun handle_batch :: "app_state \<Rightarrow> (nat \<Rightarrow> timestamp) \<Rightarrow> json list \<Rightarrow> db \<Rightarrow> json list \<times> db" where
  "handle_batch S now [] d = ([], d)"
| "handle_batch S now (m # ms) d =
     (case handle_message S (now 0) m d of (r, d1) \<Rightarrow>
      case handle_batch S (\<lambda>n. now (Suc n)) ms d1 of (rs, d2) \<Rightarrow> ((case r of None \<Rightarrow> rs | Some x \<Rightarrow> x # rs), d2))"

text \<open>The status and the body of the answer; \<open>origin\<close> is the header, when there is one.\<close>

definition post_mcp :: "app_state \<Rightarrow> (nat \<Rightarrow> timestamp) \<Rightarrow> rstr option \<Rightarrow> 8 word list \<Rightarrow> db \<Rightarrow> (nat \<times> json option) \<times> db" where
  "post_mcp S now origin body d =
     (if is_some_and origin (\<lambda>og. \<not> origin_allowed og (me_public_base_url (st_env S))) then ((403, None), d)
      else case me_from_slice (st_env S) body of
        Inl e \<Rightarrow> ((200, Some (error_response JNull PARSE_ERROR e)), d)
      | Inr msg \<Rightarrow>
          (case handle_batch S now (case msg of JArray batch \<Rightarrow> batch | single \<Rightarrow> [single]) d of (replies, d') \<Rightarrow>
            ((case replies of
                [] \<Rightarrow> (202, None)
              | [r] \<Rightarrow> (200, Some r)
              | rs \<Rightarrow> (200, Some (JArray rs))), d')))"

section \<open>Replies\<close>

text \<open>A message that asks for a reply: it has an id, and is a request or at least no response.\<close>

definition expects_reply :: "json \<Rightarrow> bool" where
  "expects_reply m \<longleftrightarrow> json_get m (lit ''id'') \<noteq> None \<and>
     (method_of m \<noteq> None \<or> json_get m (lit ''result'') = None \<and> json_get m (lit ''error'') = None)"

definition well_formed_reply :: "json \<Rightarrow> bool" where
  "well_formed_reply r \<longleftrightarrow> json_get r (lit ''jsonrpc'') = Some (JString (lit ''2.0'')) \<and>
     (json_get r (lit ''result'') = None) \<noteq> (json_get r (lit ''error'') = None)"

lemma map_of_lit [simp]: "map_of (map (\<lambda>(k, v). (lit k, v)) kvs) (lit k) = map_of kvs k"
  by (induction kvs) auto

text \<open>Members of a document written with literal keys, without spelling the keys out.\<close>

lemma json_get_obj: "json_get (JObject (map (\<lambda>(k, v). (lit k, v)) kvs)) (lit k) = map_of kvs k"
  unfolding json_get.simps by (rule map_of_lit)

lemma error_response_reply:
  "well_formed_reply (error_response i c msg)" "json_get (error_response i c msg) (lit ''id'') = Some i"
  unfolding well_formed_reply_def error_response_def json_get_obj by simp_all

lemma result_reply:
  "well_formed_reply (obj [(''jsonrpc'', JString (lit ''2.0'')), (''id'', i), (''result'', v)])"
  "json_get (obj [(''jsonrpc'', JString (lit ''2.0'')), (''id'', i), (''result'', v)]) (lit ''id'') = Some i"
  unfolding well_formed_reply_def json_get_obj by simp_all

lemma handle_message_reply:
  assumes "expects_reply m"
  shows "\<exists>r d'. handle_message S now m d = (Some r, d') \<and> well_formed_reply r \<and>
    json_get r (lit ''id'') = json_get m (lit ''id'')"
proof -
  obtain i where i: "json_get m (lit ''id'') = Some i" using assms by (auto simp: expects_reply_def)
  show ?thesis
  proof (cases "method_of m")
    case None
    then show ?thesis using assms i error_response_reply [of i INVALID_REQUEST]
      by (simp add: expects_reply_def handle_message_def del: lit_Cons)
  next
    case (Some meth)
    obtain x d' where "dispatch S now meth (case json_get m (lit ''params'') of None \<Rightarrow> JNull | Some p \<Rightarrow> p) d = (x, d')"
      by fastforce
    then show ?thesis
      using Some i error_response_reply [of i] result_reply [of i]
      by (cases x) (auto simp: handle_message_def Let_def simp del: lit_Cons)
  qed
qed

lemma handle_message_silent: "\<not> expects_reply m \<Longrightarrow> handle_message S now m d = (None, d)"
  by (auto simp: expects_reply_def handle_message_def simp del: lit_Cons split: option.split)

text \<open>
  C22: Every message of a batch that asks for a reply gets exactly one, in the order of the messages, with the
  id it was sent under, and with either a result or an error and never both; notifications and responses get
  none. When no message asks for a reply the tables are unchanged: a tool call sent as a notification does
  not run.
\<close>

theorem mcp_batch_replies:
  "map (\<lambda>r. json_get r (lit ''id'')) (fst (handle_batch S now ms d)) =
     map (\<lambda>m. json_get m (lit ''id'')) (filter expects_reply ms) \<and>
   list_all well_formed_reply (fst (handle_batch S now ms d)) \<and>
   (filter expects_reply ms = [] \<longrightarrow> handle_batch S now ms d = ([], d))"
proof (induction ms arbitrary: now d)
  case (Cons m ms)
  show ?case
  proof (cases "expects_reply m")
    case True
    then obtain r d' where "handle_message S (now 0) m d = (Some r, d')" "well_formed_reply r"
        "json_get r (lit ''id'') = json_get m (lit ''id'')" using handle_message_reply by blast
    then show ?thesis using True Cons.IH [of "\<lambda>n. now (Suc n)" d']
      by (cases "handle_batch S (\<lambda>n. now (Suc n)) ms d'") (simp del: lit_Cons)
  next
    case False
    then show ?thesis using Cons.IH [of "\<lambda>n. now (Suc n)" d] handle_message_silent [OF False]
      by (cases "handle_batch S (\<lambda>n. now (Suc n)) ms d") (simp del: lit_Cons)
  qed
qed simp

text \<open>A server whose decoders refuse everything, for evaluating instances.\<close>

definition demo_mcp_env :: mcp_env where
  "demo_mcp_env = \<lparr>me_from_slice = (\<lambda>b. if b = [] then Inl [] else Inr (obj [(''id'', json_int 1), (''method'', JString (lit ''ping''))])),
     me_public_base_url = lit ''https://s'', me_version = lit ''1'',
     me_error_text = (\<lambda>e. lit ''error''), me_date = show_int, me_rfc3339 = (\<lambda>s. Inl []), me_pretty_speakers = (\<lambda>v. []),
     me_list_args = (\<lambda>j. Inr \<lparr>la_limit = Some 0, la_offset = None, la_tag = None\<rparr>), me_recording_args = (\<lambda>j. Inr 7),
     me_summary_args = (\<lambda>j. Inl []), me_search_args = (\<lambda>j. Inl []), me_ask_args = (\<lambda>j. Inl []),
     me_participants_args = (\<lambda>j. Inl [])\<rparr>"

definition demo_app :: app_state where
  "demo_app = \<lparr>st_env = demo_mcp_env, st_engine = demo_search_engine, st_world = demo_world, st_config = demo_config,
     st_by_template = (\<lambda>x. x), st_by_name = (\<lambda>x. x), st_tie = (\<lambda>x. x)\<rparr>"

text \<open>A request to re-diarize sent without an id.\<close>

definition demo_notification :: json where
  "demo_notification = obj [(''method'', JString (lit ''tools/call'')), (''params'', obj [(''name'', JString (lit ''rediarize''))])]"

theorem mcp_batch_replies_witness:
  "handle_batch demo_app (\<lambda>n. 0) [demo_notification, demo_notification] sample_db = ([], sample_db)"
  using mcp_batch_replies [of demo_app "\<lambda>n. 0" "[demo_notification, demo_notification]" sample_db]
  unfolding expects_reply_def demo_notification_def json_get_obj by simp

section \<open>The table and the dispatch\<close>

definition tool_name :: "json \<Rightarrow> rstr option" where
  "tool_name t = (case json_get t (lit ''name'') of None \<Rightarrow> None | Some v \<Rightarrow> json_as_str v)"

definition is_read_only :: "json \<Rightarrow> bool" where
  "is_read_only t \<longleftrightarrow> is_some_and (json_get t (lit ''annotations''))
     (\<lambda>a. json_get a (lit ''readOnlyHint'') = Some (JBool True))"

lemma tool_entry_members:
  "tool_name (tool_entry n desc ps req ans) = Some (lit n)"
  "is_read_only (tool_entry n desc ps req ans) \<longleftrightarrow> map_of ans ''readOnlyHint'' = Some True"
proof -
  show "tool_name (tool_entry n desc ps req ans) = Some (lit n)"
    unfolding tool_name_def tool_entry_def json_get_obj by simp
  have "is_read_only (tool_entry n desc ps req ans) \<longleftrightarrow>
      json_get (obj (map (\<lambda>(k, b). (k, JBool b)) ans)) (lit ''readOnlyHint'') = Some (JBool True)"
    unfolding is_read_only_def tool_entry_def by (subst json_get_obj) (simp add: is_some_and_def del: lit_Cons)
  also have "\<dots> \<longleftrightarrow> map_of (map (\<lambda>(k, b). (k, JBool b)) ans) ''readOnlyHint'' = Some (JBool True)"
    unfolding json_get_obj by (rule refl)
  also have "\<dots> \<longleftrightarrow> map_of ans ''readOnlyHint'' = Some True" by (induction ans) auto
  finally show "is_read_only (tool_entry n desc ps req ans) \<longleftrightarrow> map_of ans ''readOnlyHint'' = Some True" .
qed

lemmas entry_defs = list_recordings_entry_def get_transcript_entry_def get_summary_entry_def search_entry_def
  ask_entry_def list_speakers_entry_def set_participants_entry_def rediarize_entry_def

lemma listed_tools:
  "map (\<lambda>t. (tool_name t, is_read_only t)) tool_definitions =
     [(Some (lit ''list_recordings''), True), (Some (lit ''get_transcript''), True), (Some (lit ''get_summary''), True),
      (Some (lit ''search''), True), (Some (lit ''ask''), True), (Some (lit ''list_speakers''), True),
      (Some (lit ''set_participants''), False), (Some (lit ''rediarize''), False)]"
  unfolding tool_definitions_def entry_defs by (simp add: tool_entry_members del: lit_Cons)

definition tool_names :: "rstr list" where
  "tool_names = List.map_filter tool_name tool_definitions"

lemma tool_names_eq:
  "tool_names = map lit [''list_recordings'', ''get_transcript'', ''get_summary'', ''search'', ''ask'', ''list_speakers'',
     ''set_participants'', ''rediarize'']"
  using listed_tools by (simp add: tool_names_def List.map_filter_def tool_definitions_def del: lit_Cons)

lemma run_tool_read_only:
  "name \<in> lit ` {''list_recordings'', ''get_transcript'', ''get_summary'', ''search'', ''ask'', ''list_speakers''} \<Longrightarrow>
     \<exists>out. run_tool S now name args d = Some (out, d)"
  by (auto simp: run_tool_def simp del: lit_Cons)

lemma run_tool_known: "run_tool S now name args d \<noteq> None \<longleftrightarrow> name \<in> set tool_names"
  by (simp add: run_tool_def tool_names_eq del: lit_Cons)

text \<open>
  The table a client is shown and the dispatch agree. The names are distinct, a name can be called exactly
  when it is listed, and a tool that is listed as read-only leaves every table unchanged, whatever its
  arguments.
\<close>

theorem mcp_tools_as_listed:
  "distinct tool_names \<and> length tool_names = length tool_definitions \<and>
   (\<forall>name. run_tool S now name args d \<noteq> None \<longleftrightarrow> name \<in> set tool_names) \<and>
   (\<forall>t \<in> set tool_definitions. is_read_only t \<longrightarrow>
      (\<exists>name out. tool_name t = Some name \<and> run_tool S now name args d = Some (out, d)))"
proof (intro conjI allI ballI impI)
  show "distinct tool_names" by (simp add: tool_names_eq del: lit_Cons)
  show "length tool_names = length tool_definitions" by (simp add: tool_names_eq tool_definitions_def)
  show "run_tool S now name args d \<noteq> None \<longleftrightarrow> name \<in> set tool_names" for name by (rule run_tool_known)
  fix t assume t: "t \<in> set tool_definitions" "is_read_only t"
  then have "(tool_name t, True) \<in> set (map (\<lambda>t. (tool_name t, is_read_only t)) tool_definitions)"
    by (metis (mono_tags, lifting) image_eqI set_map)
  then have "\<exists>name. tool_name t = Some name \<and>
      name \<in> lit ` {''list_recordings'', ''get_transcript'', ''get_summary'', ''search'', ''ask'', ''list_speakers''}"
    unfolding listed_tools by (auto simp del: lit_Cons)
  then show "\<exists>name out. tool_name t = Some name \<and> run_tool S now name args d = Some (out, d)"
    using run_tool_read_only by blast
qed

theorem mcp_tools_as_listed_witness:
  "\<exists>name out. tool_name search_entry = Some name \<and> run_tool demo_app 0 name (obj []) sample_db = Some (out, sample_db)"
proof -
  have "search_entry \<in> set tool_definitions" by (simp add: tool_definitions_def)
  moreover have "is_read_only search_entry" unfolding search_entry_def tool_entry_members by simp
  ultimately show ?thesis using mcp_tools_as_listed [of demo_app 0 "obj []" sample_db] by blast
qed

section \<open>The endpoint and the server\<close>

lemma goes_set_participants_tool: "goes wc d (snd (set_participants_tool S now args d))"
proof (cases "parse_args (me_participants_args (st_env S)) args")
  case (Inr a)
  have g: "goes wc d (snd (set_participants (st_world S) (pa_recording_id a) (pa_participants a) d))"
    by (rule goes_corrections)
  obtain x d1 where x: "set_participants (st_world S) (pa_recording_id a) (pa_participants a) d = (x, d1)" by fastforce
  obtain y d2 where y: "rediarize_recording (st_world S) now (pa_recording_id a) d1 = (y, d2)" by fastforce
  have "goes wc d d2" using g x y goes_rediarize [of wc d1 "st_world S" now "pa_recording_id a"]
    by (auto intro: goes_trans)
  then show ?thesis using Inr g x y
    by (cases x; cases y) (simp_all add: set_participants_tool_def Let_def)
qed (simp add: set_participants_tool_def)

lemma goes_rediarize_tool: "goes wc d (snd (rediarize_tool S now args d))"
proof (cases "parse_args (me_recording_args (st_env S)) args")
  case (Inr rid)
  obtain y d2 where y: "rediarize_recording (st_world S) now rid d = (y, d2)" by fastforce
  then show ?thesis using Inr goes_rediarize [of wc d "st_world S" now rid]
    by (cases y) (simp_all add: rediarize_tool_def)
qed (simp add: rediarize_tool_def)

lemma goes_run_tool: "run_tool S now name args d = Some (out, d') \<Longrightarrow> goes wc d d'"
  using goes_set_participants_tool [of wc d S now args] goes_rediarize_tool [of wc d S now args]
  by (auto simp: run_tool_def simp del: lit_Cons split: if_splits)

lemma goes_dispatch: "goes wc d (snd (dispatch S now meth params d))"
  by (auto simp: dispatch_def call_tool_def Let_def goes_run_tool simp del: lit_Cons split: option.split)

lemma goes_message: "goes wc d (snd (handle_message S now m d))"
proof -
  have "goes wc d d'" if "dispatch S now meth params d = (x, d')" for meth params x d'
    using goes_dispatch [of wc d S now meth params] that by simp
  then show ?thesis
    by (auto simp: handle_message_def Let_def simp del: lit_Cons split: option.split prod.split sum.split)
qed

lemma goes_batch: "goes wc d (snd (handle_batch S now ms d))"
proof (induction ms arbitrary: now d)
  case (Cons m ms)
  obtain r d1 where r: "handle_message S (now 0) m d = (r, d1)" by fastforce
  obtain rs d2 where rs: "handle_batch S (\<lambda>n. now (Suc n)) ms d1 = (rs, d2)" by fastforce
  have "goes wc d d1" using goes_message [of wc d S "now 0" m] r by simp
  moreover have "goes wc d1 d2" using Cons.IH [of d1 "\<lambda>n. now (Suc n)"] rs by simp
  ultimately show ?case using r rs by (auto intro: goes_trans)
qed simp

lemma goes_post: "goes wc d (snd (post_mcp S now origin bytes d))"
proof (cases "me_from_slice (st_env S) bytes")
  case (Inr msg)
  obtain rs d' where "handle_batch S now (case msg of JArray batch \<Rightarrow> batch | single \<Rightarrow> [single]) d = (rs, d')" by fastforce
  then show ?thesis using Inr goes_batch [of wc d S now "case msg of JArray batch \<Rightarrow> batch | single \<Rightarrow> [single]"]
    by (simp add: post_mcp_def)
qed (simp add: post_mcp_def)

text \<open>
  No request to the endpoint can break the queue: from any reachable state of the server, with workers in
  whatever they are doing, it ends in a reachable state. A page of another origin is refused and a body
  that is no JSON is answered with a parse error, and neither changes a table.
\<close>

theorem mcp_post_safe:
  assumes "reach sys_init (sys_step wc) (d, A)"
  shows "reach sys_init (sys_step wc) (snd (post_mcp S now origin bytes d), A) \<and>
    (\<forall>og. origin = Some og \<and> \<not> origin_allowed og (me_public_base_url (st_env S)) \<longrightarrow>
       post_mcp S now origin bytes d = ((403, None), d)) \<and>
    (\<forall>e. origin = None \<and> me_from_slice (st_env S) bytes = Inl e \<longrightarrow>
       post_mcp S now origin bytes d = ((200, Some (error_response JNull PARSE_ERROR e)), d))"
proof (intro conjI allI impI)
  show "reach sys_init (sys_step wc) (snd (post_mcp S now origin bytes d), A)"
    using reach_steps [OF _ assms] goes_post [of wc d S now origin bytes] by (simp add: goes_def)
qed (auto simp: post_mcp_def is_some_and_def)

theorem mcp_post_safe_witness:
  "reach sys_init (sys_step demo_wc) (snd (post_mcp demo_app (\<lambda>n. 9) None [1] demo_db), [])"
  using mcp_post_safe [OF demo_reach] by blast

text \<open>
  The tool that lists recordings clamps the page it asks for but not the offset it announces: with a limit of
  zero it shows one recording and sends the client back to the page it has just read.
\<close>

lemma limit_zero_repeats_page:
  assumes "parse_args (me_list_args (st_env S)) args = Inr \<lparr>la_limit = Some 0, la_offset = Some k, la_tag = None\<rparr>"
    and "0 \<le> k" and "k < 2 ^ 63" and "list_recordings (st_tie S) 1 k None d = Inr (r # rs)"
  shows "list_recordings_tool S args d = Inr (concat (map (recording_line S) (r # rs)) @ more_line k)"
proof -
  have w: "wrapping_i64 k = k" using assms(2,3) by (simp add: wrapping_i64_def)
  then show ?thesis using assms by (simp add: list_recordings_tool_def list_recordings_handler_def list_page_def)
qed

end
