(* ===== verification/Scribe_Llm.thy ===== *)
theory Scribe_Llm
  imports Scribe_Mcp
begin

text \<open>
  The clients of the language model and of the text embedder, \<open>crates/scribe-llm/src/ollama.rs\<close> and \<open>embed.rs\<close>:
  the normalised base URL, the request and the reading of an answer of both kinds of server, the choice of the
  embedder with its dimension check, and the hash embedder of builds without a native one.

  The HTTP exchange, the JSON printer and reader, the hash and the square root of the norm are parameters. The
  components of a hash vector are multiples of an eighth, which single precision adds exactly for any text of
  less than a million words, so the vector before its normalisation is over the rationals.
\<close>

unbundle bit_operations_syntax

section \<open>The chat client\<close>

datatype llm_provider = Ollama | Openai

record chat_options =
  co_temperature :: "json option"
  co_top_p :: "json option"
  co_max_tokens :: "int option"
  co_num_ctx :: "int option"

definition default_options :: chat_options where
  "default_options = \<lparr>co_temperature = None, co_top_p = None, co_max_tokens = None, co_num_ctx = None\<rparr>"

definition options_is_empty :: "chat_options \<Rightarrow> bool" where
  "options_is_empty p \<longleftrightarrow> co_temperature p = None \<and> co_top_p p = None \<and> co_max_tokens p = None \<and> co_num_ctx p = None"

record chat_client =
  cc_base_url :: rstr
  cc_provider :: llm_provider
  cc_api_key :: "rstr option"

definition ends_with :: "rstr \<Rightarrow> rstr \<Rightarrow> bool" where
  "ends_with s t \<longleftrightarrow> length t \<le> length s \<and> drop (length s - length t) s = t"

definition new_client :: "llm_provider \<Rightarrow> rstr \<Rightarrow> rstr option \<Rightarrow> chat_client" where
  "new_client provider base_url api_key =
     (let base = trim_end_matches (\<lambda>c. c = 47) base_url;
          base = (if provider = Openai \<and> \<not> ends_with base (lit ''/v1'') then base @ lit ''/v1'' else base)
      in \<lparr>cc_base_url = base, cc_provider = provider, cc_api_key = api_key\<rparr>)"

text \<open>
  One exchange with the server: the URL, the bearer token and the body go out, and either nothing comes back,
  or a status and the text of the answer when it could be read.
\<close>

type_synonym exchange = "rstr \<Rightarrow> rstr option \<Rightarrow> json \<Rightarrow> (nat \<times> rstr option) option"

definition post_chat :: "exchange \<Rightarrow> chat_client \<Rightarrow> rstr \<Rightarrow> json \<Rightarrow> rstr res" where
  "post_chat http c url payload =
     (case http url (cc_api_key c) payload of
        None \<Rightarrow> Inl Http
      | Some (status, answer_text) \<Rightarrow>
          if \<not> (200 \<le> status \<and> status < 300) then (if status = 404 then Inl Model else Inl Http)
          else (case answer_text of None \<Rightarrow> Inl Http | Some t \<Rightarrow> Inr t))"

definition json_message :: "chat_message \<Rightarrow> json" where
  "json_message m = obj [(''role'', JString (cm_role m)), (''content'', JString (cm_content m))]"

definition opt_field :: "string \<Rightarrow> json option \<Rightarrow> (string \<times> json) list" where
  "opt_field k v = (case v of None \<Rightarrow> [] | Some x \<Rightarrow> [(k, x)])"

definition ollama_request :: "rstr \<Rightarrow> chat_message list \<Rightarrow> chat_options \<Rightarrow> json" where
  "ollama_request model msgs p =
     obj ([(''model'', JString model), (''messages'', JArray (map json_message msgs)), (''stream'', JBool False)]
        @ (if options_is_empty p then []
           else [(''options'', obj (opt_field ''temperature'' (co_temperature p) @ opt_field ''top_p'' (co_top_p p)
                   @ opt_field ''num_predict'' (map_option json_int (co_max_tokens p))
                   @ opt_field ''num_ctx'' (map_option json_int (co_num_ctx p))))]))"

definition openai_request :: "rstr \<Rightarrow> chat_message list \<Rightarrow> chat_options \<Rightarrow> json" where
  "openai_request model msgs p =
     obj ([(''model'', JString model), (''messages'', JArray (map json_message msgs)), (''stream'', JBool False)]
        @ opt_field ''temperature'' (co_temperature p) @ opt_field ''top_p'' (co_top_p p)
        @ opt_field ''max_tokens'' (map_option json_int (co_max_tokens p)))"

text \<open>The content of a message object, as serde reads the structs \<open>Resp\<close>, \<open>Choice\<close> and \<open>Msg\<close> from objects.\<close>

definition message_content :: "json \<Rightarrow> rstr option" where
  "message_content j =
     (case json_get j (lit ''message'') of
        None \<Rightarrow> None
      | Some m \<Rightarrow> (case json_get m (lit ''content'') of None \<Rightarrow> None | Some v \<Rightarrow> json_as_str v))"

fun all_some :: "'a option list \<Rightarrow> 'a list option" where
  "all_some [] = Some []"
| "all_some (None # xs) = None"
| "all_some (Some x # xs) = map_option (Cons x) (all_some xs)"

definition choices_content :: "json \<Rightarrow> rstr list option" where
  "choices_content j =
     (case json_get j (lit ''choices'') of Some (JArray cs) \<Rightarrow> all_some (map message_content cs) | _ \<Rightarrow> None)"

definition chat_ollama ::
  "(rstr \<Rightarrow> json option) \<Rightarrow> exchange \<Rightarrow> chat_client \<Rightarrow> rstr \<Rightarrow> chat_message list \<Rightarrow> chat_options \<Rightarrow> rstr res" where
  "chat_ollama parse http c model msgs p =
     (case post_chat http c (cc_base_url c @ lit ''/api/chat'') (ollama_request model msgs p) of
        Inl e \<Rightarrow> Inl e
      | Inr t \<Rightarrow> (case Option.bind (parse t) message_content of None \<Rightarrow> Inl Http | Some s \<Rightarrow> Inr s))"

definition chat_openai ::
  "(rstr \<Rightarrow> json option) \<Rightarrow> exchange \<Rightarrow> chat_client \<Rightarrow> rstr \<Rightarrow> chat_message list \<Rightarrow> chat_options \<Rightarrow> rstr res" where
  "chat_openai parse http c model msgs p =
     (case post_chat http c (cc_base_url c @ lit ''/chat/completions'') (openai_request model msgs p) of
        Inl e \<Rightarrow> Inl e
      | Inr t \<Rightarrow> (case Option.bind (parse t) choices_content of
                    None \<Rightarrow> Inl Http
                  | Some [] \<Rightarrow> Inl Model
                  | Some (s # _) \<Rightarrow> Inr s))"

definition chat_with ::
  "(rstr \<Rightarrow> json option) \<Rightarrow> exchange \<Rightarrow> chat_client \<Rightarrow> rstr \<Rightarrow> chat_message list \<Rightarrow> chat_options \<Rightarrow> rstr res" where
  "chat_with parse http c model msgs p =
     (case cc_provider c of
        Ollama \<Rightarrow> chat_ollama parse http c model msgs p
      | Openai \<Rightarrow> chat_openai parse http c model msgs p)"

text \<open>\<open>chat\<close> of the client is what the stages call.\<close>

definition client_chat :: "(rstr \<Rightarrow> json option) \<Rightarrow> exchange \<Rightarrow> chat_client \<Rightarrow> chat_fun" where
  "client_chat parse http c model msgs = chat_with parse http c model msgs default_options"

definition health_url :: "chat_client \<Rightarrow> rstr" where
  "health_url c =
     (case cc_provider c of
        Ollama \<Rightarrow> cc_base_url c @ lit ''/api/tags''
      | Openai \<Rightarrow> cc_base_url c @ lit ''/models'')"

section \<open>The hash embedder\<close>

fun split_tokens :: "(codepoint \<Rightarrow> bool) \<Rightarrow> rstr \<Rightarrow> rstr \<Rightarrow> rstr list" where
  "split_tokens alnum cur [] = (if cur = [] then [] else [cur])"
| "split_tokens alnum cur (c # cs) =
     (if \<not> alnum c then (if cur = [] then [] else [cur]) @ split_tokens alnum [] cs
      else split_tokens alnum (cur @ [c]) cs)"

definition token_sign :: "64 word \<Rightarrow> rat" where
  "token_sign h = (if drop_bit 1 h AND 1 = 0 then 1 else - 1)"

definition token_weight :: "64 word \<Rightarrow> rat" where
  "token_weight h = 1 + of_nat (unat (drop_bit 2 h AND 7)) / 8"

definition add_token :: "nat \<Rightarrow> 64 word \<Rightarrow> rat list \<Rightarrow> rat list" where
  "add_token width h v = (let idx = unat h mod width in v[idx := v ! idx + token_sign h * token_weight h])"

definition hash_vector :: "(codepoint \<Rightarrow> bool) \<Rightarrow> (rstr \<Rightarrow> 64 word) \<Rightarrow> nat \<Rightarrow> rstr \<Rightarrow> rat list" where
  "hash_vector alnum stable_hash width t =
     (let tokens = split_tokens alnum [] t;
          v = fold (\<lambda>tok. add_token width (stable_hash (to_ascii_lowercase tok))) tokens (replicate width 0)
      in if tokens = [] then v[0 := 1] else v)"

text \<open>
  The width is at least one; \<open>l2_normalize\<close> divides each component by the norm of the vector and leaves a zero
  vector alone. The division and the rounding to single precision are the parameters \<open>over_norm\<close> and \<open>as_is\<close>.
\<close>

definition hash_embedder_dim :: "nat \<Rightarrow> nat" where
  "hash_embedder_dim width = max width 1"

definition normalized :: "(rat list \<Rightarrow> rat \<Rightarrow> f32) \<Rightarrow> (rat \<Rightarrow> f32) \<Rightarrow> rat list \<Rightarrow> f32 list" where
  "normalized over_norm as_is v = map (if list_ex (\<lambda>x. x \<noteq> 0) v then over_norm v else as_is) v"

definition hash_embed ::
  "(codepoint \<Rightarrow> bool) \<Rightarrow> (rstr \<Rightarrow> 64 word) \<Rightarrow> (rat list \<Rightarrow> rat \<Rightarrow> f32) \<Rightarrow> (rat \<Rightarrow> f32) \<Rightarrow> nat \<Rightarrow> rstr list \<Rightarrow>
     f32 list list res" where
  "hash_embed alnum stable_hash over_norm as_is width ts =
     Inr (map (\<lambda>t. normalized over_norm as_is (hash_vector alnum stable_hash (hash_embedder_dim width) t)) ts)"

text \<open>The dimension check; \<open>native\<close> is the width a native embedder was probed with, when the build has one.\<close>

definition build_embedder :: "nat res option \<Rightarrow> nat \<Rightarrow> nat res" where
  "build_embedder native embed_dim =
     (case (case native of Some r \<Rightarrow> r | None \<Rightarrow> Inr (hash_embedder_dim embed_dim)) of
        Inl e \<Rightarrow> Inl e
      | Inr got \<Rightarrow> if got \<noteq> embed_dim then Inl Config else Inr got)"

section \<open>Hash vectors\<close>

text \<open>What a token adds, from the low five bits of its hash.\<close>

definition token_term :: "nat \<Rightarrow> rat" where
  "token_term r = (if r div 2 mod 2 = 0 then 1 else - 1) * (1 + of_nat (r div 4 mod 8) / 8)"

lemma token_term_nonzero: "token_term r \<noteq> 0"
proof -
  have "(0 :: rat) < 1 + of_nat (r div 4 mod 8) / 8" by (simp add: add_pos_nonneg)
  then show ?thesis by (auto simp: token_term_def)
qed

lemma unat_and_7: "unat ((x :: 64 word) AND 7) = unat x mod 8"
proof -
  have "x AND 7 = take_bit 3 x" by (simp add: take_bit_eq_mask mask_eq_exp_minus_1)
  then have "unat (x AND 7) = take_bit 3 (unat x)" by (simp only: unsigned_take_bit_eq)
  then show ?thesis by (simp add: take_bit_eq_mod)
qed

lemma token_term_hash: "token_sign h * token_weight h = token_term (unat h mod 32)"
proof -
  have "drop_bit 1 h AND 1 = 0 \<longleftrightarrow> unat h div 2 mod 2 = 0"
  proof -
    have "even (drop_bit 1 h) \<longleftrightarrow> even (unat (drop_bit 1 h))"
      using bit_unsigned_iff [where 'a = nat, of "drop_bit 1 h" 0] by (simp add: bit_0)
    moreover have "drop_bit 1 h AND 1 = 0 \<longleftrightarrow> even (drop_bit 1 h)" by (simp add: and_one_eq even_iff_mod_2_eq_zero)
    moreover have "unat (drop_bit 1 h) = unat h div 2" unfolding unat_drop_bit_eq by (simp add: drop_bit_eq_div)
    ultimately show ?thesis unfolding even_iff_mod_2_eq_zero by argo
  qed
  moreover have "unat (drop_bit 2 h AND 7) = unat h div 4 mod 8"
    unfolding unat_and_7 unat_drop_bit_eq by (simp add: drop_bit_eq_div)
  moreover have "unat h mod 32 div 2 mod 2 = unat h div 2 mod 2"
    using mod_mult2_eq [of "unat h" 2 16] mod_mod_cancel [of 2 16 "unat h div 2"] by simp
  moreover have "unat h mod 32 div 4 mod 8 = unat h div 4 mod 8" using mod_mult2_eq [of "unat h" 4 8] by simp
  ultimately show ?thesis by (simp add: token_sign_def token_weight_def token_term_def)
qed

lemma length_fold_add_token: "length (fold (\<lambda>h. add_token width h) hs v) = length v"
  by (induction hs arbitrary: v) (simp_all add: add_token_def Let_def)

text \<open>When 32 divides the width, every bucket has its own sign and weight, and tokens in it never cancel.\<close>

lemma fold_add_token_nth:
  assumes "32 dvd width" and "i < width" and "length v = width"
  shows "fold (\<lambda>h. add_token width h) hs v ! i =
    v ! i + of_nat (length (filter (\<lambda>h. unat h mod width = i) hs)) * token_term (i mod 32)"
  using assms(3)
proof (induction hs arbitrary: v)
  case (Cons h hs)
  have "unat h mod 32 = i mod 32" if "unat h mod width = i" using assms(1) that by (metis mod_mod_cancel)
  moreover have "length (add_token width h v) = width" using Cons.prems by (simp add: add_token_def Let_def)
  ultimately show ?case using Cons.IH [of "add_token width h v"] assms(2) Cons.prems
    by (auto simp: add_token_def Let_def nth_list_update token_term_hash algebra_simps)
qed simp

text \<open>
  The hash embedder gives every text a vector that can be normalised, for every width that is a multiple of
  32, as the configured 768 is: no text, however its tokens collide, has the zero vector, and the vector has
  the width of the column.
\<close>

theorem hash_vector_nonzero:
  assumes "32 dvd width" and "0 < width"
  shows "length (hash_vector alnum stable_hash width t) = width \<and> (\<exists>x \<in> set (hash_vector alnum stable_hash width t). x \<noteq> 0)"
proof (cases "split_tokens alnum [] t")
  case Nil
  then have "hash_vector alnum stable_hash width t = (replicate width 0)[0 := 1]" by (simp add: hash_vector_def)
  moreover have "(1 :: rat) \<in> set ((replicate width 0)[0 := 1])" using assms(2) by (intro set_update_memI) simp
  ultimately show ?thesis by (metis length_list_update length_replicate zero_neq_one)
next
  case (Cons tok toks)
  define hs where "hs = map (\<lambda>tok. stable_hash (to_ascii_lowercase tok)) (split_tokens alnum [] t)"
  let ?v = "fold (\<lambda>h. add_token width h) hs (replicate width 0)" and ?i = "unat (hd hs) mod width"
  have v: "hash_vector alnum stable_hash width t = ?v" using Cons by (simp add: hash_vector_def Let_def hs_def fold_map o_def)
  have i: "?i < width" using assms(2) by simp
  have l: "length ?v = width" by (simp add: length_fold_add_token)
  have "hs \<noteq> []" using Cons by (simp add: hs_def)
  then have ne: "filter (\<lambda>h. unat h mod width = ?i) hs \<noteq> []" by (cases hs) auto
  have "?v ! ?i = of_nat (length (filter (\<lambda>h. unat h mod width = ?i) hs)) * token_term (?i mod 32)"
    using fold_add_token_nth [OF assms(1) i, of "replicate width 0" hs] i by simp
  then have "?v ! ?i \<noteq> 0" using token_term_nonzero [of "?i mod 32"] ne by simp
  then show ?thesis unfolding v using i l nth_mem [of ?i ?v] by auto
qed

theorem hash_vector_nonzero_witness:
  "\<exists>x \<in> set (hash_vector (\<lambda>c. c \<noteq> 32) (\<lambda>s. of_nat (length s)) 768 (lit ''a b a'')). x \<noteq> 0"
  using hash_vector_nonzero [of 768 "\<lambda>c. c \<noteq> 32" "\<lambda>s. of_nat (length s)" "lit ''a b a''"] by simp

text \<open>For other widths two tokens can cancel, and the text gets the zero vector after all.\<close>

lemma hash_vector_can_vanish:
  "hash_vector (\<lambda>c. c \<noteq> 32) (\<lambda>s. if s = lit ''a'' then 0 else 2) 1 (lit ''a b'') = [0]"
  by (simp add: hash_vector_def add_token_def token_term_hash token_term_def to_ascii_lowercase_def ascii_lower_char_def)

section \<open>Chat\<close>

lemma ends_with_append: "ends_with (s @ t) t"
  by (simp add: ends_with_def)

lemma ends_with_Ex: "ends_with s t \<Longrightarrow> \<exists>x. s = x @ t"
  unfolding ends_with_def by (metis append_take_drop_id)

lemma trim_end_v1: "ends_with s (lit ''/v1'') \<Longrightarrow> trim_end_matches (\<lambda>c. c = 47) s = s"
  by (drule ends_with_Ex) (auto intro!: trim_end_matches_id)

text \<open>Normalising a base URL once is enough, and the endpoint of an OpenAI-compatible server has its \<^verbatim>\<open>/v1\<close>.\<close>

lemma new_client_idem:
  "cc_base_url (new_client p (cc_base_url (new_client p u k)) k') = cc_base_url (new_client p u k)"
proof (cases "p = Openai")
  case True
  have "ends_with (cc_base_url (new_client p u k)) (lit ''/v1'')"
    using True ends_with_append by (simp add: new_client_def Let_def del: lit_Cons)
  then show ?thesis using trim_end_v1 by (simp add: new_client_def Let_def del: lit_Cons)
next
  case False
  then show ?thesis by (simp add: new_client_def Let_def)
qed

text \<open>What the callers of the model see, for both kinds of server: an answer only from a successful exchange.\<close>

lemma client_chat_errors:
  assumes "\<forall>url key payload. http url key payload = r"
  shows "r = None \<Longrightarrow> client_chat parse http c model msgs = Inl Http"
    and "r = Some (404, b) \<Longrightarrow> client_chat parse http c model msgs = Inl Model"
    and "client_chat parse http c model msgs = Inr s \<Longrightarrow> \<exists>status b. r = Some (status, Some b) \<and> 200 \<le> status \<and> status < 300"
  using assms
  by (auto simp: client_chat_def chat_with_def chat_ollama_def chat_openai_def post_chat_def simp del: lit_Cons
      split: llm_provider.splits option.splits if_splits)

end
