(* ===== verification/Scribe_Server.thy ===== *)
theory Scribe_Server
  imports Scribe_Mcp Scribe_Control Scribe_Update
begin

text \<open>
  The HTTP surface as a whole: \<open>router\<close> of \<open>crates/scribe-api/src/lib.rs\<close> with the middleware on its two groups of
  routes, \<open>ApiError::into_response\<close>, and the handlers that the other theories leave out (health, tags, update info).
  One request is a function on the state of the server - tables, settings and files - composed of routing, the
  check of the group, extraction of the arguments and the handler.

  axum is a library: how it reads an argument out of a path, a query or a body (\<open>extractors\<close>) and what it answers when
  no handler is mounted for a path and method are parameters. A \<open>get\<close> route also answers \<open>HEAD\<close>.
\<close>

section \<open>Requests and routes\<close>

datatype http_method = MGet | MHead | MPost | MPut | MPatch | MDelete | MOther

record http_request =
  rq_method :: http_method
  rq_path :: rstr
  rq_query :: rstr
  rq_auth :: api_request
  rq_header :: "rstr \<Rightarrow> rstr option"
  rq_content :: "(unit + 8 word list) list"

datatype endpoint =
    EpHealth
  | EpUpdate | EpRollback | EpInfo
  | EpCreateRecording | EpListRecordings | EpGetRecording | EpDeleteRecording | EpComplete | EpReprocess | EpRediarize
  | EpSummarize | EpTranslate | EpSetTags | EpSetParticipants | EpEditUtterance | EpListTags | EpPutSegment | EpGetSegment
  | EpGetAudio | EpNameSpeaker | EpUnnameSpeaker | EpDeleteRecordingSpeaker | EpListSpeakers | EpRenameSpeaker
  | EpDeleteSpeaker | EpSearch | EpAsk | EpGetSchedule | EpSetSchedule | EpSetOverride | EpListTemplates
  | EpMcp | EpMcpNotAllowed

datatype guard = Unguarded | UpdateToken | DeviceAuth

datatype piece = Fixed string | Param

record route =
  rt_pattern :: "piece list"
  rt_handlers :: "(http_method \<times> endpoint) list"
  rt_unlimited :: bool

abbreviation mount :: "piece list \<Rightarrow> (http_method \<times> endpoint) list \<Rightarrow> route" where
  "mount p hs \<equiv> \<lparr>rt_pattern = p, rt_handlers = hs, rt_unlimited = False\<rparr>"

abbreviation of_recording :: "piece list \<Rightarrow> piece list" where
  "of_recording p \<equiv> Fixed ''recordings'' # Param # p"

definition authed :: "route list" where
  "authed =
    [mount [Fixed ''recordings''] [(MPost, EpCreateRecording), (MGet, EpListRecordings)],
     mount (of_recording []) [(MGet, EpGetRecording), (MDelete, EpDeleteRecording)],
     mount (of_recording [Fixed ''complete'']) [(MPost, EpComplete)],
     mount (of_recording [Fixed ''reprocess'']) [(MPost, EpReprocess)],
     mount (of_recording [Fixed ''rediarize'']) [(MPost, EpRediarize)],
     mount (of_recording [Fixed ''summarize'']) [(MPost, EpSummarize)],
     mount (of_recording [Fixed ''translate'']) [(MPost, EpTranslate)],
     mount (of_recording [Fixed ''tags'']) [(MPut, EpSetTags)],
     mount (of_recording [Fixed ''participants'']) [(MPut, EpSetParticipants)],
     mount (of_recording [Fixed ''utterances'', Param]) [(MPatch, EpEditUtterance)],
     mount [Fixed ''tags''] [(MGet, EpListTags)],
     \<lparr>rt_pattern = of_recording [Fixed ''segments'', Param],
       rt_handlers = [(MPut, EpPutSegment), (MGet, EpGetSegment)], rt_unlimited = True\<rparr>,
     mount (of_recording [Fixed ''audio'']) [(MGet, EpGetAudio)],
     mount (of_recording [Fixed ''speakers'', Param, Fixed ''name'']) [(MPost, EpNameSpeaker), (MDelete, EpUnnameSpeaker)],
     mount (of_recording [Fixed ''speakers'', Param]) [(MDelete, EpDeleteRecordingSpeaker)],
     mount [Fixed ''speakers''] [(MGet, EpListSpeakers)],
     mount [Fixed ''speakers'', Param] [(MPatch, EpRenameSpeaker), (MDelete, EpDeleteSpeaker)],
     mount [Fixed ''search''] [(MGet, EpSearch)],
     mount [Fixed ''ask''] [(MPost, EpAsk)],
     mount [Fixed ''processing-schedule''] [(MGet, EpGetSchedule), (MPut, EpSetSchedule)],
     mount [Fixed ''processing-schedule'', Fixed ''override''] [(MPost, EpSetOverride)],
     mount [Fixed ''summary-templates''] [(MGet, EpListTemplates)],
     mount [Fixed ''mcp''] [(MPost, EpMcp), (MGet, EpMcpNotAllowed), (MDelete, EpMcpNotAllowed)]]"

definition admin :: "route list" where
  "admin =
    [\<lparr>rt_pattern = [Fixed ''admin'', Fixed ''update''], rt_handlers = [(MPost, EpUpdate)], rt_unlimited = True\<rparr>,
     mount [Fixed ''admin'', Fixed ''update'', Fixed ''rollback''] [(MPost, EpRollback)],
     mount [Fixed ''admin'', Fixed ''info''] [(MGet, EpInfo)]]"

text \<open>Every route with the layer around it, in the order of \<open>merge\<close>.\<close>

definition router :: "(guard \<times> route) list" where
  "router = (Unguarded, mount [Fixed ''health''] [(MGet, EpHealth)]) #
     map (Pair UpdateToken) admin @ map (Pair DeviceAuth) authed"

fun match_path :: "piece list \<Rightarrow> rstr list \<Rightarrow> rstr list option" where
  "match_path [] [] = Some []"
| "match_path (Fixed w # ps) (s # ss) = (if s = lit w then match_path ps ss else None)"
| "match_path (Param # ps) (s # ss) = (if s = [] then None else map_option (Cons s) (match_path ps ss))"
| "match_path _ _ = None"

definition path_segments :: "rstr \<Rightarrow> rstr list option" where
  "path_segments p = map_option (split_all 47) (strip_prefix [47] p)"

definition handler_for :: "http_method \<Rightarrow> (http_method \<times> endpoint) list \<Rightarrow> endpoint option" where
  "handler_for m hs = (case map_of hs m of Some e \<Rightarrow> Some e | None \<Rightarrow> if m = MHead then map_of hs MGet else None)"

fun find_route :: "(guard \<times> route) list \<Rightarrow> rstr list \<Rightarrow> (guard \<times> route \<times> rstr list) option" where
  "find_route [] segs = None"
| "find_route ((g, r) # rs) segs =
     (case match_path (rt_pattern r) segs of Some ps \<Rightarrow> Some (g, r, ps) | None \<Rightarrow> find_route rs segs)"

definition resolve_request :: "http_method \<Rightarrow> rstr \<Rightarrow> (guard \<times> bool \<times> endpoint \<times> rstr list) option" where
  "resolve_request m p =
     (case Option.bind (path_segments p) (find_route router) of
        None \<Rightarrow> None
      | Some (g, r, ps) \<Rightarrow> map_option (\<lambda>e. (g, rt_unlimited r, e, ps)) (handler_for m (rt_handlers r)))"

section \<open>Answers\<close>

text \<open>A body that serde derives from a struct of the API is kept as the struct.\<close>

datatype http_answer =
    AJson nat json
  | ARecordings "recording list"
  | ADetail recording_detail
  | AUtterance utterance
  | ATranslation rstr rstr
  | ASpeakers "speaker_view list"
  | ASpeaker speaker_view
  | AHits "search_hit list"
  | AAnswer answer
  | ASchedule schedule_response
  | AAudio http_response
  | AMcp nat "json option"
  | AMethodNotAllowed rstr
  | AUpdated update_outcome
  | ARolledBack rstr
  | ARejected nat      \<comment> \<open>an extractor refused its part of the request\<close>
  | AUnrouted          \<comment> \<open>no handler is mounted there\<close>

text \<open>\<open>StatusCode::from_u16\<close> accepts three digits.\<close>

definition status_from_u16 :: "nat \<Rightarrow> nat option" where
  "status_from_u16 n = (if 100 \<le> n \<and> n < 1000 then Some n else None)"

definition into_response :: "(error \<Rightarrow> rstr) \<Rightarrow> error \<Rightarrow> http_answer" where
  "into_response to_string e =
     AJson (unwrap_or (status_from_u16 (http_status e)) 500)
       (obj [(''error'', obj [(''code'', JString (code e)), (''message'', JString (to_string e))])])"

definition answer_of :: "(error \<Rightarrow> rstr) \<Rightarrow> ('a \<Rightarrow> http_answer) \<Rightarrow> 'a res \<Rightarrow> http_answer" where
  "answer_of to_string f r = (case r of Inl e \<Rightarrow> into_response to_string e | Inr x \<Rightarrow> f x)"

section \<open>State and surroundings\<close>

record server_state =
  srv_db :: db
  srv_settings :: settings
  srv_files :: files

text \<open>What axum and serde make of a request: the refusing status, or the argument.\<close>

record extractors =
  ex_uuid :: "rstr \<Rightarrow> nat + uuid"
  ex_int :: "rstr \<Rightarrow> nat + int"
  ex_bytes :: "http_request \<Rightarrow> nat + 8 word list"
  ex_create :: "http_request \<Rightarrow> nat + create_recording_body option"
  ex_list :: "http_request \<Rightarrow> nat + list_query"
  ex_complete :: "http_request \<Rightarrow> nat + complete_body option"
  ex_template :: "http_request \<Rightarrow> nat + rstr option"
  ex_lang :: "http_request \<Rightarrow> nat + rstr"
  ex_tags :: "http_request \<Rightarrow> nat + rstr list option"
  ex_participants :: "http_request \<Rightarrow> nat + int option"
  ex_text :: "http_request \<Rightarrow> nat + rstr"
  ex_upload :: "http_request \<Rightarrow> nat + upload"
  ex_name :: "http_request \<Rightarrow> nat + name_body"
  ex_rename :: "http_request \<Rightarrow> nat + rstr"
  ex_search :: "http_request \<Rightarrow> nat + search_query"
  ex_ask :: "http_request \<Rightarrow> nat + ask_body"
  ex_schedule :: "http_request \<Rightarrow> nat + set_schedule_request"
  ex_override :: "http_request \<Rightarrow> nat + override_request"

text \<open>
  Everything else a request meets: configuration, libraries, the fresh id it may draw, the clock (\<open>sv_now n\<close> is its \<open>n\<close>-th
  reading, in microseconds for the tables and nanoseconds for the schedule), and how its calls on the disk end.
\<close>

record server =
  sv_app :: app_state
  sv_auth :: auth_state
  sv_update :: update_config
  sv_update_cfg :: update_cfg
  sv_db_url :: rstr
  sv_extract :: "bool \<Rightarrow> extractors"   \<comment> \<open>whether the limit on bodies is disabled\<close>
  sv_new_id :: uuid
  sv_now :: "nat \<Rightarrow> timestamp"
  sv_now_ns :: "nat \<Rightarrow> int"
  sv_now_local :: int
  sv_calendar :: calendar
  sv_to_json :: "processing_schedule \<Rightarrow> json"
  sv_of_json :: "json \<Rightarrow> processing_schedule option"
  sv_ping :: bool
  sv_removed :: removal
  sv_lower :: "rstr \<Rightarrow> rstr"
  sv_collate :: "rstr list \<Rightarrow> rstr list"
  sv_nearest :: "f32 list \<Rightarrow> db \<Rightarrow> speaker_row option"
  sv_disk :: disk
  sv_stores :: bool
  sv_sha256 :: "8 word list \<Rightarrow> 8 word list"
  sv_vendor :: vendor
  sv_host :: host
  sv_installer :: installer
  sv_roller :: roller
  sv_upload_name :: rstr
  sv_left :: "8 word list"
  sv_can_remove :: bool

abbreviation sv_world :: "server \<Rightarrow> world" where
  "sv_world S \<equiv> st_world (sv_app S)"

abbreviation err_text :: "server \<Rightarrow> error \<Rightarrow> rstr" where
  "err_text S \<equiv> me_error_text (st_env (sv_app S))"

section \<open>The remaining handlers\<close>

definition health :: "server \<Rightarrow> json" where
  "health S = obj [(''status'', JString (lit ''ok'')), (''version'', JString (me_version (st_env (sv_app S)))),
     (''db'', JBool (sv_ping S)), (''public_base_url'', JString (me_public_base_url (st_env (sv_app S)))),
     (''auth'', JString (if trust_tailscale_identity (sv_auth S) then lit ''tailnet'' else lit ''token''))]"

text \<open>\<^verbatim>\<open>SELECT DISTINCT unnest(tags) ... ORDER BY\<close> the collation of the database.\<close>

definition distinct_tags :: "(rstr list \<Rightarrow> rstr list) \<Rightarrow> db \<Rightarrow> rstr list" where
  "distinct_tags collate d = collate (remdups (concat (map rec_tags (filter (\<lambda>r. rec_tags r \<noteq> []) (recordings d)))))"

definition list_tags :: "(rstr list \<Rightarrow> rstr list) \<Rightarrow> db \<Rightarrow> json" where
  "list_tags collate d = obj [(''tags'', JArray (map JString (distinct_tags collate d)))]"

fun restart_mode_name :: "restart_mode \<Rightarrow> rstr" where
  "restart_mode_name SelfExec = lit ''SelfExec''"
| "restart_mode_name Supervisor = lit ''Supervisor''"

definition update_info :: "host \<Rightarrow> bool \<Rightarrow> update_cfg \<Rightarrow> files \<Rightarrow> json" where
  "update_info H enabled cfg fs = obj [(''version'', JString (ho_running H)), (''target'', JString (ho_target H)),
     (''update_enabled'', JBool enabled), (''restart_mode'', JString (restart_mode_name (uc_restart cfg))),
     (''has_backup'', JBool (has_backup H cfg fs))]"

section \<open>From a route to its handler\<close>

type_synonym served_by = "server_state \<Rightarrow> http_answer \<times> server_state"

definition taking :: "nat + 'a \<Rightarrow> ('a \<Rightarrow> served_by) \<Rightarrow> served_by" where
  "taking x f s = (case x of Inl refused \<Rightarrow> (ARejected refused, s) | Inr v \<Rightarrow> f v s)"

definition reading :: "server \<Rightarrow> ('a \<Rightarrow> http_answer) \<Rightarrow> (db \<Rightarrow> 'a res) \<Rightarrow> served_by" where
  "reading S f h s = (answer_of (err_text S) f (h (srv_db s)), s)"

definition changing :: "server \<Rightarrow> ('a \<Rightarrow> http_answer) \<Rightarrow> (db \<Rightarrow> 'a res \<times> db) \<Rightarrow> served_by" where
  "changing S f h s = (case h (srv_db s) of (r, d) \<Rightarrow> (answer_of (err_text S) f r, s\<lparr>srv_db := d\<rparr>))"

definition scheduling :: "server \<Rightarrow> (settings \<Rightarrow> db \<Rightarrow> schedule_response res \<times> settings) \<Rightarrow> served_by" where
  "scheduling S h s = (case h (srv_settings s) (srv_db s) of (r, tab) \<Rightarrow>
     (answer_of (err_text S) ASchedule r, s\<lparr>srv_settings := tab\<rparr>))"

definition installing :: "server \<Rightarrow> ('a \<Rightarrow> http_answer) \<Rightarrow> (files \<Rightarrow> 'a res \<times> files) \<Rightarrow> served_by" where
  "installing S f h s = (case h (srv_files s) of (r, fs) \<Rightarrow> (answer_of (err_text S) f r, s\<lparr>srv_files := fs\<rparr>))"

definition piece_at :: "rstr list \<Rightarrow> nat \<Rightarrow> rstr" where
  "piece_at ps n = (if n < length ps then ps ! n else [])"

abbreviation json_reply :: "nat \<times> json \<Rightarrow> http_answer" where
  "json_reply r \<equiv> AJson (fst r) (snd r)"

text \<open>The handlers of \<open>recordings.rs\<close>.\<close>

definition serve_recording :: "server \<Rightarrow> extractors \<Rightarrow> endpoint \<Rightarrow> rstr list \<Rightarrow> http_request \<Rightarrow> served_by" where
  "serve_recording S X e ps rq =
     (let W = sv_world S; now = sv_now S 0; rid = ex_uuid X (piece_at ps 0) in
      case e of
        EpCreateRecording \<Rightarrow> taking (ex_create X rq) (\<lambda>b. changing S json_reply (create_recording_handler W (sv_new_id S) now b))
      | EpListRecordings \<Rightarrow> taking (ex_list X rq) (\<lambda>q. reading S ARecordings (list_recordings_handler (st_tie (sv_app S)) q))
      | EpGetRecording \<Rightarrow> taking rid (\<lambda>r. reading S ADetail (get_recording_handler (st_by_template (sv_app S)) r))
      | EpDeleteRecording \<Rightarrow> taking rid (\<lambda>r. changing S json_reply (delete_recording_handler W (sv_removed S) r))
      | EpComplete \<Rightarrow> taking rid (\<lambda>r. taking (ex_complete X rq) (\<lambda>b. changing S json_reply (complete_recording W now r b)))
      | EpReprocess \<Rightarrow> taking rid (\<lambda>r. changing S json_reply (reprocess_recording W now r))
      | EpRediarize \<Rightarrow> taking rid (\<lambda>r. changing S json_reply (rediarize_recording W now r))
      | EpSummarize \<Rightarrow> taking rid (\<lambda>r. taking (ex_template X rq) (\<lambda>t. changing S json_reply (summarize_recording W now r t)))
      | EpTranslate \<Rightarrow> taking rid (\<lambda>r. taking (ex_lang X rq) (\<lambda>l. reading S (\<lambda>(a, b). ATranslation a b)
          (translate_summary W (st_config (sv_app S)) (st_by_template (sv_app S)) r l)))
      | EpSetTags \<Rightarrow> taking rid (\<lambda>r. taking (ex_tags X rq) (\<lambda>b. changing S json_reply
          (set_recording_tags_handler W (sv_lower S) r b)))
      | EpSetParticipants \<Rightarrow> taking rid (\<lambda>r. taking (ex_participants X rq) (\<lambda>n. changing S json_reply (set_participants W r n)))
      | EpEditUtterance \<Rightarrow> taking rid (\<lambda>r. taking (ex_int X (piece_at ps 1)) (\<lambda>i. taking (ex_text X rq) (\<lambda>x.
          changing S AUtterance (edit_utterance r i x))))
      | EpListTags \<Rightarrow> reading S (AJson 200) (\<lambda>d. Inr (list_tags (sv_collate S) d))
      | _ \<Rightarrow> Pair (AJson 200 list_summary_templates))"

text \<open>The handlers of \<open>speakers.rs\<close>.\<close>

definition serve_speaker :: "server \<Rightarrow> extractors \<Rightarrow> endpoint \<Rightarrow> rstr list \<Rightarrow> http_request \<Rightarrow> served_by" where
  "serve_speaker S X e ps rq =
     (let W = sv_world S; now = sv_now S 0; by_name = st_by_name (sv_app S);
          rid = ex_uuid X (piece_at ps 0); idx = ex_int X (piece_at ps 1) in
      case e of
        EpNameSpeaker \<Rightarrow> taking rid (\<lambda>r. taking idx (\<lambda>i. taking (ex_name X rq) (\<lambda>b.
          changing S json_reply (name_speaker W by_name (sv_nearest S) (sv_new_id S) now r i b))))
      | EpUnnameSpeaker \<Rightarrow> taking rid (\<lambda>r. taking idx (\<lambda>i. changing S json_reply (unname_speaker r i)))
      | EpDeleteRecordingSpeaker \<Rightarrow> taking rid (\<lambda>r. taking idx (\<lambda>i.
          changing S json_reply (delete_recording_speaker_handler W now r i)))
      | EpListSpeakers \<Rightarrow> reading S ASpeakers (\<lambda>d. Inr (list_speakers_handler by_name d))
      | EpRenameSpeaker \<Rightarrow> taking rid (\<lambda>i. taking (ex_rename X rq) (\<lambda>n. changing S ASpeaker (rename_speaker_handler by_name i n)))
      | _ \<Rightarrow> taking rid (\<lambda>i. changing S json_reply (delete_speaker_handler W i)))"

text \<open>Segments and audio.\<close>

definition serve_audio :: "server \<Rightarrow> extractors \<Rightarrow> endpoint \<Rightarrow> rstr list \<Rightarrow> http_request \<Rightarrow> served_by" where
  "serve_audio S X e ps rq s =
     (let W = sv_world S; range = rq_header rq (lit ''range'');
          rid = ex_uuid X (piece_at ps 0); seq = ex_int X (piece_at ps 1) in
      case e of
        EpPutSegment \<Rightarrow> taking rid (\<lambda>r. taking seq (\<lambda>q. taking (ex_upload X rq) (\<lambda>u s.
          case put_segment W (sv_disk S) (sv_stores S) (sv_sha256 S) (sv_new_id S) (sv_now S 0) r q (u\<lparr>up_body := rq_content rq\<rparr>)
                 (srv_files s) (srv_db s) of
            (x, fs, d) \<Rightarrow> (answer_of (err_text S) json_reply x, s\<lparr>srv_db := d, srv_files := fs\<rparr>)))) s
      | EpGetSegment \<Rightarrow> taking rid (\<lambda>r. taking seq (\<lambda>q. reading S AAudio (get_segment W (srv_files s) r q range))) s
      | _ \<Rightarrow> taking rid (\<lambda>r. reading S AAudio (get_audio (uuid_str W) (blobs W) (open_in (srv_files s)) r range)) s)"

text \<open>Search, schedule, MCP and self-update.\<close>

definition serve_other :: "server \<Rightarrow> extractors \<Rightarrow> endpoint \<Rightarrow> http_request \<Rightarrow> served_by" where
  "serve_other S X e rq =
     (let A = sv_app S; t = sv_now_ns S in
      case e of
        EpSearch \<Rightarrow> taking (ex_search X rq) (\<lambda>q. reading S AHits (search (st_engine A) (sv_world S) q))
      | EpAsk \<Rightarrow> taking (ex_ask X rq) (\<lambda>b. reading S AAnswer (ask (st_engine A) (sv_world S) (st_config A) (err_text S) b))
      | EpGetSchedule \<Rightarrow> scheduling S (\<lambda>tab d.
          (Inr (get_schedule_handler (sv_of_json S) (sv_calendar S) (sv_now_local S) (t 0) (t 1) tab d), tab))
      | EpSetSchedule \<Rightarrow> taking (ex_schedule X rq) (\<lambda>b. scheduling S
          (set_schedule_handler (sv_to_json S) (sv_of_json S) (sv_calendar S) (sv_now_local S) (t 0) (t 1) (t 2) b))
      | EpSetOverride \<Rightarrow> taking (ex_override X rq) (\<lambda>b. scheduling S
          (set_override_handler (sv_to_json S) (sv_of_json S) (sv_calendar S) (sv_now_local S) (t 0) (t 1) (t 2) (t 3) b))
      | EpMcp \<Rightarrow> taking (ex_bytes X rq) (\<lambda>b s.
          case post_mcp A (sv_now S) (rq_header rq (lit ''origin'')) b (srv_db s) of
            ((status_code, reply), d) \<Rightarrow> (AMcp status_code reply, s\<lparr>srv_db := d\<rparr>))
      | EpMcpNotAllowed \<Rightarrow> Pair (AMethodNotAllowed (lit ''POST''))
      | EpUpdate \<Rightarrow> installing S AUpdated (update_handler (sv_vendor S) (sv_host S) (sv_installer S) (sv_disk S) (sv_update_cfg S)
          (sv_db_url S) (sv_upload_name S) (rq_content rq) (sv_left S) (sv_can_remove S))
      | EpRollback \<Rightarrow> installing S ARolledBack (rollback_handler (sv_host S) (sv_roller S) (sv_update_cfg S))
      | EpInfo \<Rightarrow> (\<lambda>s. (AJson 200 (update_info (sv_host S) (upd_enabled (sv_update S)) (sv_update_cfg S) (srv_files s)), s))
      | _ \<Rightarrow> Pair (AJson 200 (health S)))"

definition run_endpoint :: "server \<Rightarrow> bool \<Rightarrow> endpoint \<Rightarrow> rstr list \<Rightarrow> http_request \<Rightarrow> served_by" where
  "run_endpoint S unlimited e ps rq =
     (let X = sv_extract S unlimited in
      if e \<in> {EpCreateRecording, EpListRecordings, EpGetRecording, EpDeleteRecording, EpComplete, EpReprocess, EpRediarize,
              EpSummarize, EpTranslate, EpSetTags, EpSetParticipants, EpEditUtterance, EpListTags, EpListTemplates}
      then serve_recording S X e ps rq
      else if e \<in> {EpNameSpeaker, EpUnnameSpeaker, EpDeleteRecordingSpeaker, EpListSpeakers, EpRenameSpeaker, EpDeleteSpeaker}
      then serve_speaker S X e ps rq
      else if e \<in> {EpPutSegment, EpGetSegment, EpGetAudio} then serve_audio S X e ps rq
      else serve_other S X e rq)"

fun check_guard :: "server \<Rightarrow> guard \<Rightarrow> api_request \<Rightarrow> unit res" where
  "check_guard S Unguarded a = Inr ()"
| "check_guard S UpdateToken a = require_update_auth (sv_update S) a"
| "check_guard S DeviceAuth a = require_auth (sv_auth S) a"

definition serve_request :: "server \<Rightarrow> http_request \<Rightarrow> served_by" where
  "serve_request S rq s =
     (case resolve_request (rq_method rq) (rq_path rq) of
        None \<Rightarrow> (AUnrouted, s)
      | Some (g, unlimited, e, ps) \<Rightarrow>
          (case check_guard S g (rq_auth rq) of
             Inl x \<Rightarrow> (into_response (err_text S) x, s)
           | Inr _ \<Rightarrow> run_endpoint S unlimited e ps rq s))"

text \<open>A sequence of requests, each in surroundings of its own.\<close>

fun serve_all :: "(server \<times> http_request) list \<Rightarrow> server_state \<Rightarrow> http_answer list \<times> server_state" where
  "serve_all [] s = ([], s)"
| "serve_all ((S, rq) # rqs) s =
     (case serve_request S rq s of (a, s1) \<Rightarrow> case serve_all rqs s1 of (as, s2) \<Rightarrow> (a # as, s2))"

section \<open>Routing does not depend on the order of the table\<close>

text \<open>Two patterns that cannot match one path: of different length, or with different words in one place.\<close>

fun apart :: "piece list \<Rightarrow> piece list \<Rightarrow> bool" where
  "apart [] [] = False"
| "apart (Fixed v # ps) (Fixed w # qs) = (v \<noteq> w \<or> apart ps qs)"
| "apart (_ # ps) (_ # qs) = apart ps qs"
| "apart _ _ = True"

lemma match_Cons:
  "match_path (x # ps) segs = Some xs \<Longrightarrow> \<exists>s ss ys. segs = s # ss \<and> match_path ps ss = Some ys \<and> (\<forall>w. x = Fixed w \<longrightarrow> s = lit w)"
  by (cases x; cases segs) (auto split: if_splits)

lemma match_Nil: "match_path [] segs = Some xs \<Longrightarrow> segs = []"
  by (cases segs) auto

lemma matched_not_apart: "match_path p segs = Some xs \<Longrightarrow> match_path q segs = Some ys \<Longrightarrow> \<not> apart p q"
  by (induction p q arbitrary: segs xs ys rule: apart.induct) (fastforce dest!: match_Cons match_Nil)+

fun pairwise_apart :: "piece list list \<Rightarrow> bool" where
  "pairwise_apart [] = True"
| "pairwise_apart (p # ps) = (list_all (apart p) ps \<and> pairwise_apart ps)"

lemma routes_apart: "pairwise_apart (map (rt_pattern \<circ> snd) router)"
  by (simp add: router_def admin_def authed_def)

lemma find_route_iff:
  assumes "pairwise_apart (map (rt_pattern \<circ> snd) rs)"
  shows "find_route rs segs = Some (g, r, ps) \<longleftrightarrow> (g, r) \<in> set rs \<and> match_path (rt_pattern r) segs = Some ps"
  using assms
proof (induction rs)
  case (Cons x rs)
  obtain g0 r0 where x: "x = (g0, r0)" by fastforce
  show ?case
  proof (cases "match_path (rt_pattern r0) segs")
    case (Some xs)
    then have "match_path (rt_pattern r') segs \<noteq> Some ys" if "(g', r') \<in> set rs" for g' r' ys
      using matched_not_apart [OF Some] Cons.prems that by (auto simp: x list_all_iff)
    then show ?thesis using Some by (auto simp: x)
  qed (use Cons in \<open>auto simp: x\<close>)
qed simp

section \<open>Paths written from a route's pattern lead to it\<close>

fun render :: "piece list \<Rightarrow> rstr list \<Rightarrow> rstr list" where
  "render (Fixed w # ps) xs = lit w # render ps xs"
| "render (Param # ps) (x # xs) = x # render ps xs"
| "render _ _ = []"

definition arity :: "piece list \<Rightarrow> nat" where
  "arity p = length (filter (\<lambda>x. x = Param) p)"

definition path_of :: "rstr list \<Rightarrow> rstr" where
  "path_of segs = concat (map (Cons 47) segs)"

definition plain_piece :: "rstr \<Rightarrow> bool" where
  "plain_piece s \<longleftrightarrow> s \<noteq> [] \<and> 47 \<notin> set s"

lemma match_render: "length xs = arity p \<Longrightarrow> list_all plain_piece xs \<Longrightarrow> match_path p (render p xs) = Some xs"
  by (induction p xs rule: render.induct) (auto simp: arity_def plain_piece_def)

lemma split_path: "\<forall>s \<in> set (s # ss). 47 \<notin> set s \<Longrightarrow> split_all 47 (s @ path_of ss) = s # ss"
proof (induction ss arbitrary: s)
  case (Cons x xs)
  then have "split_all 47 (x @ path_of xs) = x # xs" by simp
  then show ?case using Cons.prems by (simp add: path_of_def split_all_append)
qed (simp add: path_of_def split_all_none)

lemma path_segments_of: "segs \<noteq> [] \<Longrightarrow> \<forall>s \<in> set segs. 47 \<notin> set s \<Longrightarrow> path_segments (path_of segs) = Some segs"
  using split_path by (cases segs) (simp_all add: path_segments_def path_of_def)

lemma words_plain: "\<forall>(g, r) \<in> set router. rt_pattern r \<noteq> [] \<and> (\<forall>w. Fixed w \<in> set (rt_pattern r) \<longrightarrow> 47 \<notin> set (lit w))"
  by (auto simp: router_def admin_def authed_def)

lemma render_plain:
  "(\<forall>w. Fixed w \<in> set p \<longrightarrow> 47 \<notin> set (lit w)) \<Longrightarrow> list_all plain_piece xs \<Longrightarrow> s \<in> set (render p xs) \<Longrightarrow> 47 \<notin> set s"
  by (induction p xs rule: render.induct) (auto simp: plain_piece_def)

lemma render_not_Nil: "p \<noteq> [] \<Longrightarrow> length xs = arity p \<Longrightarrow> render p xs \<noteq> []"
  by (cases "(p, xs)" rule: render.cases) (auto simp: arity_def)

lemma resolve_rendered:
  assumes "(g, r) \<in> set router" "handler_for m (rt_handlers r) = Some e"
    and "length xs = arity (rt_pattern r)" "list_all plain_piece xs"
  shows "resolve_request m (path_of (render (rt_pattern r) xs)) = Some (g, rt_unlimited r, e, xs)"
proof -
  have "rt_pattern r \<noteq> []" and w: "\<forall>w. Fixed w \<in> set (rt_pattern r) \<longrightarrow> 47 \<notin> set (lit w)"
    using words_plain assms(1) by auto
  then have "path_segments (path_of (render (rt_pattern r) xs)) = Some (render (rt_pattern r) xs)"
    using render_plain [OF w assms(4)] render_not_Nil assms(3) by (intro path_segments_of) auto
  then show ?thesis
    using find_route_iff [OF routes_apart, of "render (rt_pattern r) xs" g r xs] match_render [OF assms(3,4)] assms(1,2)
    by (simp add: resolve_request_def)
qed

section \<open>A request is a sequence of steps of the server\<close>

lemma goes_taking: "(\<And>v. x = Inr v \<Longrightarrow> goes wc (srv_db s) (srv_db (snd (f v s)))) \<Longrightarrow> goes wc (srv_db s) (srv_db (snd (taking x f s)))"
  by (simp add: taking_def split: sum.split)

lemma goes_reading: "goes wc (srv_db s) (srv_db (snd (reading S f h s)))"
  by (simp add: reading_def)

lemma goes_changing: "goes wc (srv_db s) (snd (h (srv_db s))) \<Longrightarrow> goes wc (srv_db s) (srv_db (snd (changing S f h s)))"
  by (auto simp: changing_def split: prod.split)

lemma goes_scheduling: "goes wc (srv_db s) (srv_db (snd (scheduling S h s)))"
  by (simp add: scheduling_def split: prod.split)

lemma goes_installing: "goes wc (srv_db s) (srv_db (snd (installing S f h s)))"
  by (simp add: installing_def split: prod.split)

lemma goes_put_segment: "goes wc d (snd (snd (put_segment W dk st sha i now rid q u fs d)))"
  unfolding put_segment_def publish_segment_def Let_def
  by (auto split: sum.splits streamed.splits simp: REQUEST_KINDS_def
      dest!: goes_segment [where wc = wc] goes_request [where wc = wc] intro: goes_trans)

lemmas goes_serving = goes_taking goes_reading goes_changing goes_scheduling goes_installing

text \<open>The one proviso of the handlers: a voice is removed from a recording that has been merged.\<close>

definition voice_removal_ok :: "server \<Rightarrow> http_request \<Rightarrow> server_state \<Rightarrow> bool" where
  "voice_removal_ok S rq s \<longleftrightarrow>
     (case resolve_request (rq_method rq) (rq_path rq) of
        Some (_, unlimited, EpDeleteRecordingSpeaker, ps) \<Rightarrow>
          (case ex_uuid (sv_extract S unlimited) (piece_at ps 0) of Inl _ \<Rightarrow> True | Inr rid \<Rightarrow> done_for (srv_db s) rid Merge)
      | _ \<Rightarrow> True)"

lemma goes_serve_recording: "goes wc (srv_db s) (srv_db (snd (serve_recording S X e ps rq s)))"
  unfolding serve_recording_def Let_def
  by (cases e; simp only: endpoint.case)
    (intro goes_serving goes_create goes_complete goes_delete goes_reprocess goes_rediarize goes_summarize goes_corrections
      | simp)+

lemma goes_serve_speaker:
  assumes "e = EpDeleteRecordingSpeaker \<Longrightarrow> (\<And>rid. ex_uuid X (piece_at ps 0) = Inr rid \<Longrightarrow> done_for (srv_db s) rid Merge)"
  shows "goes wc (srv_db s) (srv_db (snd (serve_speaker S X e ps rq s)))"
  unfolding serve_speaker_def Let_def using assms
  by (cases e; simp only: endpoint.case)
    (intro goes_serving goes_name goes_corrections goes_delete_recording_speaker | simp)+

lemma goes_serve_audio: "goes wc (srv_db s) (srv_db (snd (serve_audio S X e ps rq s)))"
proof -
  have put: "goes wc (srv_db s) (srv_db (snd (case put_segment W dk st sha i now r q u (srv_files s) (srv_db s) of
      (x, fs, d) \<Rightarrow> (answer_of f g x, s\<lparr>srv_db := d, srv_files := fs\<rparr>))))" for W dk st sha i now r q u f and g :: "nat \<times> json \<Rightarrow> http_answer"
    using goes_put_segment [of wc "srv_db s" W dk st sha i now r q u "srv_files s"] by (auto split: prod.split)
  show ?thesis unfolding serve_audio_def Let_def
    by (cases e; simp only: endpoint.case) (intro goes_serving put)+
qed

lemma goes_serve_other: "goes wc (srv_db s) (srv_db (snd (serve_other S X e rq s)))"
proof -
  have mcp: "goes wc (srv_db s) (srv_db (snd (case post_mcp A now og b (srv_db s) of
      ((st, r), d) \<Rightarrow> (AMcp st r, s\<lparr>srv_db := d\<rparr>))))" for A now og b
    using goes_post [of wc "srv_db s" A now og b] by (auto split: prod.split)
  show ?thesis unfolding serve_other_def Let_def
    by (cases e; simp only: endpoint.case) (intro goes_serving mcp | simp)+
qed

lemma goes_serve_request:
  assumes "voice_removal_ok S rq s"
  shows "goes wc (srv_db s) (srv_db (snd (serve_request S rq s)))"
proof (cases "resolve_request (rq_method rq) (rq_path rq)")
  case (Some x)
  obtain g u e ps where x: "x = (g, u, e, ps)" by (metis prod_cases4)
  have "goes wc (srv_db s) (srv_db (snd (serve_speaker S (sv_extract S u) e ps rq s)))"
    by (rule goes_serve_speaker) (use assms Some x in \<open>simp add: voice_removal_ok_def split: sum.splits\<close>)
  then have "goes wc (srv_db s) (srv_db (snd (run_endpoint S u e ps rq s)))"
    unfolding run_endpoint_def Let_def
    by (simp add: goes_serve_recording goes_serve_audio goes_serve_other)
  then show ?thesis using Some x by (simp add: serve_request_def split: sum.split)
qed (simp add: serve_request_def)

fun orderly :: "(server \<times> http_request) list \<Rightarrow> server_state \<Rightarrow> bool" where
  "orderly [] s = True"
| "orderly ((S, rq) # rqs) s = (voice_removal_ok S rq s \<and> orderly rqs (snd (serve_request S rq s)))"

lemma goes_serve_all: "orderly rqs s \<Longrightarrow> goes wc (srv_db s) (srv_db (snd (serve_all rqs s)))"
proof (induction rqs s rule: orderly.induct)
  case (2 S rq rqs s)
  then have "goes wc (srv_db s) (srv_db (snd (serve_request S rq s)))"
    "goes wc (srv_db (snd (serve_request S rq s))) (srv_db (snd (serve_all rqs (snd (serve_request S rq s)))))"
    using goes_serve_request by auto
  then show ?case using goes_trans by (auto split: prod.split)
qed simp

text \<open>The surroundings of a demonstration server; its device tokens are required and it knows one key.\<close>

definition demo_extractors :: extractors where
  "demo_extractors = \<lparr>ex_uuid = (\<lambda>s. if s = lit ''7'' then Inr 7 else Inl 400), ex_int = (\<lambda>s. Inr 0),
     ex_bytes = (\<lambda>r. Inl 413), ex_create = (\<lambda>r. Inr None), ex_list = (\<lambda>r. Inl 400), ex_complete = (\<lambda>r. Inr None),
     ex_template = (\<lambda>r. Inr None), ex_lang = (\<lambda>r. Inl 422), ex_tags = (\<lambda>r. Inr None), ex_participants = (\<lambda>r. Inr None),
     ex_text = (\<lambda>r. Inl 422), ex_upload = (\<lambda>r. Inl 400), ex_name = (\<lambda>r. Inl 422), ex_rename = (\<lambda>r. Inl 422),
     ex_search = (\<lambda>r. Inl 400), ex_ask = (\<lambda>r. Inl 422), ex_schedule = (\<lambda>r. Inl 422), ex_override = (\<lambda>r. Inl 422)\<rparr>"

definition demo_request_to :: "http_method \<Rightarrow> rstr \<Rightarrow> rstr option \<Rightarrow> http_request" where
  "demo_request_to m p credential = \<lparr>rq_method = m, rq_path = p, rq_query = [],
     rq_auth = \<lparr>authorization = credential, tailscale_user_login = None, peer = None\<rparr>,
     rq_header = (\<lambda>h. None), rq_content = []\<rparr>"

definition demo_guarded :: "server \<Rightarrow> server" where
  "demo_guarded S = S\<lparr>sv_app := demo_app, sv_extract := (\<lambda>u. demo_extractors),
     sv_auth := \<lparr>require_device_token = True, keys = [(lit ''k'', lit ''phone'')], trust_tailscale_identity = False,
       tailnet_users = []\<rparr>,
     sv_update := \<lparr>upd_enabled = False, upd_token = None\<rparr>, sv_now := (\<lambda>n. 9)\<rparr>"

text \<open>
  C12: no sequence of HTTP requests can break the queue. Whatever is asked, in whatever order, with or without
  credentials, on any path and with any method, by whatever arguments the extractors make of it: from any reachable
  state, with workers in whatever they are doing, the server ends in a reachable state, where every invariant of the
  system holds. The one proviso is that a voice is removed only from a recording that has been merged.
\<close>

theorem http_requests_safe:
  assumes "reach sys_init (sys_step wc) (srv_db s, A)" and "orderly rqs s"
  shows "reach sys_init (sys_step wc) (srv_db (snd (serve_all rqs s)), A)"
  using goes_serve_all [OF assms(2), of wc] reach_steps [OF _ assms(1)] by (simp add: goes_def)

theorem http_requests_safe_witness:
  "\<forall>S s. reach sys_init (sys_step demo_wc) (srv_db (snd (serve_all
      [(demo_guarded S, demo_request_to MPost (lit ''/recordings/7/reprocess'') (Some (lit ''Bearer k'')))]
      (s\<lparr>srv_db := demo_db\<rparr>))), [])"
  by (intro allI, rule http_requests_safe)
    (simp_all add: demo_reach voice_removal_ok_def resolve_request_def path_segments_def router_def authed_def admin_def
      demo_request_to_def handler_for_def)

section \<open>What a caller without credentials can do\<close>

fun guard_of :: "endpoint \<Rightarrow> guard" where
  "guard_of EpHealth = Unguarded"
| "guard_of EpUpdate = UpdateToken"
| "guard_of EpRollback = UpdateToken"
| "guard_of EpInfo = UpdateToken"
| "guard_of _ = DeviceAuth"

lemma handlers_layered: "\<forall>(g, r) \<in> set router. \<forall>(m, e) \<in> set (rt_handlers r). g = guard_of e"
  by (simp add: router_def admin_def authed_def)

lemma handler_for_mem: "handler_for m hs = Some e \<Longrightarrow> \<exists>m'. (m', e) \<in> set hs"
  by (auto simp: handler_for_def dest: map_of_SomeD split: option.splits if_splits)

lemma resolve_guard:
  assumes "resolve_request m p = Some (g, u, e, ps)"
  shows "g = guard_of e"
proof -
  obtain segs r where "find_route router segs = Some (g, r, ps)" and h: "handler_for m (rt_handlers r) = Some e"
    using assms by (auto simp: resolve_request_def bind_eq_Some_conv split: option.splits)
  then have "(g, r) \<in> set router" using find_route_iff [OF routes_apart] by blast
  then show ?thesis using handlers_layered handler_for_mem [OF h] by fastforce
qed

lemma unguarded_is_health: "guard_of e = Unguarded \<longleftrightarrow> e = EpHealth"
  by (cases e) simp_all

lemma run_health: "run_endpoint S u EpHealth ps rq s = (AJson 200 (health S), s)"
  by (simp add: run_endpoint_def serve_other_def Let_def)

text \<open>
  C13: a caller whom neither check accepts can do nothing and learns nothing. Whatever it asks for, the state of the
  server is as it was, and the answer does not depend on that state: on any other state it would have been the same.
  It is one of four: nothing is mounted there, the health report, or the refusal of one of the two checks.
\<close>

theorem unauthenticated_learns_nothing:
  assumes "require_auth (sv_auth S) (rq_auth rq) = Inl x" and "require_update_auth (sv_update S) (rq_auth rq) = Inl y"
  shows "serve_request S rq s = (fst (serve_request S rq other), s) \<and>
    fst (serve_request S rq s) \<in>
      {AUnrouted, AJson 200 (health S), into_response (err_text S) x, into_response (err_text S) y}"
proof (cases "resolve_request (rq_method rq) (rq_path rq)")
  case (Some z)
  obtain g u e ps where z: "z = (g, u, e, ps)" by (metis prod_cases4)
  then have g: "g = guard_of e" using resolve_guard Some by blast
  show ?thesis
  proof (cases g)
    case Unguarded
    then have "e = EpHealth" using g unguarded_is_health by simp
    then show ?thesis using Some z Unguarded by (simp add: serve_request_def run_health)
  qed (use assms Some z in \<open>simp_all add: serve_request_def\<close>)
qed (simp add: serve_request_def)

theorem unauthenticated_learns_nothing_witness:
  "\<forall>S s. serve_request (demo_guarded S) (demo_request_to MDelete (lit ''/recordings/7'') (Some (lit ''Bearer x''))) s =
     (into_response (err_text (demo_guarded S)) Unauthorized, s)"
proof (intro allI)
  fix S :: server and s
  let ?rq = "demo_request_to MDelete (lit ''/recordings/7'') (Some (lit ''Bearer x''))"
  have r: "require_auth (sv_auth (demo_guarded S)) (rq_auth ?rq) = Inl Unauthorized"
    by (simp add: demo_guarded_def demo_request_to_def require_auth_def tailnet_login_def bearer_token_def is_valid_def
        text_defs)
  have u: "require_update_auth (sv_update (demo_guarded S)) (rq_auth ?rq) = Inl NotFound"
    by (simp add: demo_guarded_def require_update_auth_def)
  have "resolve_request (rq_method ?rq) (rq_path ?rq) = Some (DeviceAuth, False, EpDeleteRecording, [lit ''7''])"
    by (simp add: resolve_request_def path_segments_def router_def authed_def admin_def demo_request_to_def handler_for_def)
  then have "fst (serve_request (demo_guarded S) ?rq s) = into_response (err_text (demo_guarded S)) Unauthorized"
    using r by (simp add: serve_request_def)
  then show "serve_request (demo_guarded S) ?rq s = (into_response (err_text (demo_guarded S)) Unauthorized, s)"
    using unauthenticated_learns_nothing [OF r u, of s s] by (simp add: prod_eq_iff)
qed

section \<open>The address a client uploads to\<close>

definition segment_route :: "guard \<times> route" where
  "segment_route = (DeviceAuth, \<lparr>rt_pattern = of_recording [Fixed ''segments'', Param],
     rt_handlers = [(MPut, EpPutSegment), (MGet, EpGetSegment)], rt_unlimited = True\<rparr>)"

lemma segment_route_mounted: "segment_route \<in> set router"
  by (simp add: segment_route_def router_def authed_def)

text \<open>The template in the reply to \<open>POST /recordings\<close>.\<close>

definition upload_template :: "json \<Rightarrow> json option" where
  "upload_template v = Option.bind (json_get v (lit ''upload'')) (\<lambda>u. json_get u (lit ''segment_url_template''))"

lemma created_id: "create_recording i now t dv n f rt d = Inr (r, d') \<Longrightarrow> rec_id r = i"
  by (auto simp: create_recording_def Let_def split: if_splits)

lemma created_template:
  assumes "create_recording_handler W i now b d = (Inr (st, v), d')"
  shows "upload_template v = Some (JString (lit ''/recordings/'' @ uuid_str W i @ lit ''/segments/{seq}''))"
proof -
  have "v = obj [(''id'', JString (uuid_str W i)), (''status'', JString (status_as_str Uploading)),
      (''upload'', obj [(''segment_url_template'', JString (lit ''/recordings/'' @ uuid_str W i @ lit ''/segments/{seq}''))])]"
    using assms by (auto simp: create_recording_handler_def Let_def simp del: lit_Cons list.map split: sum.splits dest!: created_id)
  then show ?thesis unfolding upload_template_def by (simp only: json_get_obj) simp
qed

text \<open>
  The address handed out with a new recording leads back to it. Put in a sequence number for its last piece and the
  router takes a \<open>PUT\<close> of it to the upload handler, behind the device check and without a limit on the body,
  with the id of that recording and that number as its arguments.
\<close>

theorem upload_address_routed:
  assumes "uuid_ok (uuid_str W)" and "create_recording_handler W i now b d = (Inr (st, v), d')" and "plain_piece seq"
  shows "\<exists>before. upload_template v = Some (JString (before @ lit ''{seq}'')) \<and>
    resolve_request MPut (before @ seq) = Some (DeviceAuth, True, EpPutSegment, [uuid_str W i, seq])"
proof (intro exI conjI)
  let ?before = "lit ''/recordings/'' @ uuid_str W i @ lit ''/segments/''"
  show "upload_template v = Some (JString (?before @ lit ''{seq}''))"
    using created_template [OF assms(2)] by simp
  have "list_all plain_piece [uuid_str W i, seq]" using assms(1,3) by (simp add: plain_piece_def uuid_ok_def)
  moreover have "handler_for MPut (rt_handlers (snd segment_route)) = Some EpPutSegment"
    "length [uuid_str W i, seq] = arity (rt_pattern (snd segment_route))"
    by (simp_all add: handler_for_def segment_route_def arity_def)
  ultimately have "resolve_request MPut (path_of (render (rt_pattern (snd segment_route)) [uuid_str W i, seq])) =
      Some (DeviceAuth, True, EpPutSegment, [uuid_str W i, seq])"
    using resolve_rendered [of "fst segment_route" "snd segment_route" MPut EpPutSegment "[uuid_str W i, seq]"] segment_route_mounted
    by (simp add: segment_route_def)
  moreover have "path_of (render (rt_pattern (snd segment_route)) [uuid_str W i, seq]) = ?before @ seq"
    by (simp add: segment_route_def path_of_def)
  ultimately show "resolve_request MPut (?before @ seq) = Some (DeviceAuth, True, EpPutSegment, [uuid_str W i, seq])" by simp
qed

theorem upload_address_routed_witness:
  "\<exists>v d before. create_recording_handler demo_world 7 9 None empty_db = (Inr (201, v), d) \<and>
     upload_template v = Some (JString (before @ lit ''{seq}'')) \<and>
     resolve_request MPut (before @ lit ''0'') = Some (DeviceAuth, True, EpPutSegment, [uuid_str demo_world 7, lit ''0''])"
proof -
  have ok: "uuid_ok (uuid_str demo_world)" using numeral_uuid_ok by (simp add: demo_world_def)
  have seq: "plain_piece (lit ''0'')" by (simp add: plain_piece_def)
  obtain v d where run: "create_recording_handler demo_world 7 9 None empty_db = (Inr (201, v), d)"
    by (simp add: create_recording_handler_def create_recording_def empty_db_def has_recording_def demo_world_def
        set_recording_storage_key_def update_recording_def not_found_if_zero_def rows_affected_def Let_def
        default_create_body_def del: lit_Cons list.map)
  show ?thesis using upload_address_routed [OF ok run seq] run by blast
qed

end
