(* ===== verification/Scribe_Commands.thy ===== *)
theory Scribe_Commands
  imports Scribe_Api
begin

text \<open>
  The commands of \<open>crates/scribe-pipeline/src/lib.rs\<close> that create data, \<open>ingest_file\<close> and \<open>enroll\<close>, and the settings of
  \<open>crates/scribe-core/src/config.rs\<close> that are computed: the thread count, the stages of a worker and the paths made
  absolute. What the file system, ffmpeg and the engines answer is an argument of the command.
\<close>

section \<open>Computed settings\<close>

definition MAX_AUTO_ASR_THREADS :: nat where "MAX_AUTO_ASR_THREADS = 16"
definition THREAD_HEADROOM_DIVISOR :: nat where "THREAD_HEADROOM_DIVISOR = 8"

definition auto_threads :: "nat \<Rightarrow> nat" where
  "auto_threads cores =
     (if cores \<le> 2 then max cores 1
      else max 1 (min MAX_AUTO_ASR_THREADS (cores - (cores div THREAD_HEADROOM_DIVISOR + 1))))"

text \<open>\<open>available_parallelism\<close> may not know; a configured count wins.\<close>

definition resolved_num_threads :: "nat \<Rightarrow> nat option \<Rightarrow> nat" where
  "resolved_num_threads num_threads available =
     (if num_threads > 0 then num_threads else auto_threads (case available of None \<Rightarrow> 2 | Some n \<Rightarrow> n))"

definition effective_stages :: "rstr list \<Rightarrow> job_kind list" where
  "effective_stages stages =
     (if list_ex (\<lambda>s. eq_ignore_ascii_case s (lit ''all'')) stages then ALL_KINDS
      else List.map_filter kind_from_str stages)"

record config_paths =
  cf_blobs :: rstr
  cf_models_dir :: rstr
  cf_staging_dir :: rstr
  cf_binary_path :: "rstr option"

text \<open>\<open>absolute\<close> is \<open>std::path::absolute\<close>; a path it refuses is kept.\<close>

definition normalize_paths :: "(rstr \<Rightarrow> rstr option) \<Rightarrow> config_paths \<Rightarrow> config_paths" where
  "normalize_paths absolute c =
     (let abs = (\<lambda>p. case absolute p of None \<Rightarrow> p | Some q \<Rightarrow> q) in
      \<lparr>cf_blobs = abs (cf_blobs c), cf_models_dir = abs (cf_models_dir c), cf_staging_dir = abs (cf_staging_dir c),
       cf_binary_path = map_option abs (cf_binary_path c)\<rparr>)"

section \<open>Ingest\<close>

text \<open>
  What the file system answers for the path asked: a directory is made, the file is copied to the path,
  the size of the file there. \<open>ig_load\<close> is the outcome of \<open>Engines::load\<close> in an inline run.
\<close>

record ingest_io =
  ig_exists :: bool
  ig_extension :: "rstr option"
  ig_mkdir :: "rstr \<Rightarrow> unit res"
  ig_copied :: "rstr \<Rightarrow> bool"
  ig_bytes :: "rstr \<Rightarrow> int option"
  ig_load :: "unit res"

text \<open>The parent of a segment's path is the segments directory. \<open>None\<close> is a panic of a stage in an inline run.\<close>

definition ingest_file ::
  "world \<Rightarrow> stage_fun \<Rightarrow> timestamp \<Rightarrow> uuid \<Rightarrow> uuid \<Rightarrow> ingest_io \<Rightarrow> rstr option \<Rightarrow> int option \<Rightarrow> bool \<Rightarrow> db \<Rightarrow>
     uuid res option \<times> db" where
  "ingest_file W stage now new_id seg io title participants inline d =
     (if \<not> ig_exists io then (Some (Inl BadRequest), d)
      else let ext = (case ig_extension io of None \<Rightarrow> lit ''bin'' | Some e \<Rightarrow> e) in
      case create_recording new_id now title None participants (Some ext) None d of
        Inl e \<Rightarrow> (Some (Inl e), d)
      | Inr (r, d1) \<Rightarrow>
     (let seg_path = segment_path (uuid_str W) (blobs W) (rec_id r) 1 ext in
      case ig_mkdir io (segments_dir (uuid_str W) (blobs W) (rec_id r)) of
        Inl e \<Rightarrow> (Some (Inl e), d1)
      | Inr _ \<Rightarrow>
      if \<not> ig_copied io seg_path then (Some (Inl Storage), d1)
      else
     (case insert_segment seg now (rec_id r) 1 (segment_key (uuid_str W) (rec_id r) 1 ext) (Some 0) None (ig_bytes io seg_path) None d1 of
        Inl e \<Rightarrow> (Some (Inl e), d1)
      | Inr d2 \<Rightarrow>
     (case set_recording_storage_key (rec_id r) (storage_key (uuid_str W) (rec_id r)) d2 of
        Inl e \<Rightarrow> (Some (Inl e), d2)
      | Inr d3 \<Rightarrow>
      if inline then
        (case process_recording_inline (ig_load io) stage (rec_id r) d3 of
           (Finished (Inr _), d4) \<Rightarrow> (Some (Inr (rec_id r)), d4)
         | (Finished (Inl e), d4) \<Rightarrow> (Some (Inl e), d4)
         | (Panicked, d4) \<Rightarrow> (None, d4))
      else
     (case set_recording_status (rec_id r) Processing d3 of
        Inl e \<Rightarrow> (Some (Inl e), d3)
      | Inr d4 \<Rightarrow>
     (case enqueue now (rec_id r) Transcode empty_payload d4 of
        Inl e \<Rightarrow> (Some (Inl e), d4)
      | Inr (_, d5) \<Rightarrow> (Some (Inr (rec_id r)), d5)))))))"

section \<open>Enrolment\<close>

text \<open>\<open>en_embedding\<close> is \<open>None\<close> when the blocking task was lost.\<close>

record enroll_io =
  en_exists :: bool
  en_engines :: "unit res"
  en_transcoded :: bool
  en_embedding :: "f32 list res option"

definition enroll ::
  "(speaker_row list \<Rightarrow> speaker_row list) \<Rightarrow> enroll_io \<Rightarrow> uuid \<Rightarrow> timestamp \<Rightarrow> rstr \<Rightarrow> bool \<Rightarrow> db \<Rightarrow> uuid res \<times> db" where
  "enroll by_name io new_id now name replace_voice d =
     (if \<not> en_exists io then (Inl BadRequest, d)
      else case en_engines io of
        Inl e \<Rightarrow> (Inl e, d)
      | Inr _ \<Rightarrow>
      if \<not> en_transcoded io then (Inl Pipeline, d)
      else case (case en_embedding io of None \<Rightarrow> Inl Pipeline | Some r \<Rightarrow> r) of
        Inl e \<Rightarrow> (Inl e, d)
      | Inr embedding \<Rightarrow>
     (case find (\<lambda>s. eq_ignore_ascii_case (sp_display_name s) name) (list_speakers by_name d) of
        Some s \<Rightarrow>
          if \<not> replace_voice then (Inl BadRequest, d)
          else (case set_speaker_embedding (sp_id s) embedding d of
                  Inl e \<Rightarrow> (Inl e, d)
                | Inr d' \<Rightarrow> (Inr (sp_id s), d'))
      | None \<Rightarrow>
          (case create_speaker new_id now name (Some embedding) d of
             Inl e \<Rightarrow> (Inl e, d)
           | Inr (s, d') \<Rightarrow> (Inr (sp_id s), d'))))"

section \<open>Threads\<close>

text \<open>More cores never give fewer threads, and there is always one thread and never more than cores or the cap.\<close>

lemma auto_threads_bounds:
  "1 \<le> auto_threads n \<and> auto_threads n \<le> max n 1 \<and> auto_threads n \<le> 16 \<and> auto_threads n \<le> auto_threads (Suc n)"
proof -
  have "n - (n div 8 + 1) \<le> Suc n - (Suc n div 8 + 1)" using diff_le_mono2 [of "n div 8" "Suc (n div 8)" n] by (simp add: div_Suc)
  then show ?thesis by (auto simp: auto_threads_def MAX_AUTO_ASR_THREADS_def THREAD_HEADROOM_DIVISOR_def)
qed

section \<open>The commands and the server\<close>

lemma goes_inline: "process_recording_inline load (run_stage W cfg now) rid d = (x, d') \<Longrightarrow> goes wc d d'"
  unfolding goes_def using process_recording_inline_steps by blast

lemma upsert_fresh: "key r \<notin> key ` set xs \<Longrightarrow> upsert key u r xs = xs @ [r]"
  by (induction xs) auto

lemma insert_segment_fresh:
  assumes "has_recording d rid" and "\<forall>s \<in> set (segments d). seg_recording_id s \<noteq> rid"
  shows "\<exists>s. seg_recording_id s = rid \<and> seg_seq s = q \<and> seg_storage_key s = key \<and> seg_start_ms s = a \<and>
    seg_bytes s = n \<and> insert_segment sid now rid q key a b n sha d = Inr (d\<lparr>segments := segments d @ [s]\<rparr>)"
proof -
  define s where "s = \<lparr>seg_id = sid, seg_recording_id = rid, seg_seq = q, seg_storage_key = key, seg_start_ms = a,
      seg_duration_ms = b, seg_bytes = n, seg_sha256 = sha, seg_uploaded_at = now, seg_transcribed_at = None\<rparr>"
  have s: "seg_recording_id s = rid" "seg_seq s = q" "seg_storage_key s = key" "seg_start_ms s = a" "seg_bytes s = n"
    by (simp_all add: s_def)
  have "upsert seg_key (refresh_segment s) s (segments d) = segments d @ [s]"
    by (rule upsert_fresh) (use assms(2) s in \<open>auto simp: seg_key_def\<close>)
  then show ?thesis using assms(1) s unfolding insert_segment_def Let_def s_def [symmetric] by auto
qed

lemma goes_queue_ok:
  assumes "reach sys_init (sys_step wc) (d, A)" and "goes wc d e"
  shows "queue_ok e"
proof -
  have "reach sys_init (sys_step wc) (e, A)" using reach_steps [OF _ assms(1)] assms(2) by (simp add: goes_def)
  then show ?thesis using server.inv_reach by (fastforce simp: inv_with_def)
qed

lemma goes_ingest: "goes wc d (snd (ingest_file W (run_stage W cfg now) now new_id seg io title ps inline d))"
  unfolding ingest_file_def Let_def
  by (auto split: sum.splits stage_exit.splits prod.splits simp: REQUEST_KINDS_def
      dest!: goes_created [where wc = wc] goes_segment [where wc = wc] goes_edits [where wc = wc] goes_status [where wc = wc]
        goes_request [where wc = wc] goes_inline [where wc = wc]
      intro: goes_trans) (meson goes_trans)+

text \<open>
  C15: Ingesting a file that exists and is copied to the path of its segment, under a fresh id, always
  succeeds in queueing it. The recording is then \<open>processing\<close>; its only segment has number 1, starts at
  0, has the size of the copy and the key that the blob store resolves to the path the file was copied
  to, so that this copy is what the transcode stage reads; and there is exactly one live transcode job.
  On every branch, failures and inline runs included, the server is left in a reachable state.
\<close>

theorem ingest_queues_once:
  assumes "reach sys_init (sys_step wc) (d, A)" and "\<not> has_recording d new_id"
    and "\<forall>s \<in> set (segments d). seg_recording_id s \<noteq> new_id" and "uuid_ok (uuid_str W)"
    and "ext = (case ig_extension io of None \<Rightarrow> lit ''bin'' | Some e \<Rightarrow> e)"
    and "path = segment_path (uuid_str W) (blobs W) new_id 1 ext"
    and "ig_exists io" and "ig_mkdir io (segments_dir (uuid_str W) (blobs W) new_id) = Inr ()" and "ig_copied io path"
  shows "reach sys_init (sys_step wc) (snd (ingest_file W (run_stage W cfg now) now new_id seg io' title ps inline d), A) \<and>
    (\<exists>d' s j. ingest_file W (run_stage W cfg now) now new_id seg io title ps False d = (Some (Inr new_id), d') \<and>
      status_is d' new_id Processing \<and> list_segments_by_recording d' new_id = [s] \<and>
      seg_seq s = 1 \<and> seg_start_ms s = Some 0 \<and> seg_bytes s = ig_bytes io path \<and>
      seg_storage_key s = segment_key (uuid_str W) new_id 1 ext \<and>
      transcode_inputs W (list_segments_by_recording d' new_id) = [path] \<and>
      live_job_for d' new_id Transcode = [j])"
proof
  show "reach sys_init (sys_step wc) (snd (ingest_file W (run_stage W cfg now) now new_id seg io' title ps inline d), A)"
    using reach_steps [OF _ assms(1)] goes_ingest [of wc d W cfg now new_id seg io' title ps inline] by (simp add: goes_def)
  obtain r d1 where d1: "create_recording new_id now title None ps (Some ext) None d = Inr (r, d1)" "rec_id r = new_id"
      "has_recording d1 new_id" "segments d1 = segments d"
    using assms(2) by (auto simp: create_recording_def Let_def has_recording_def)
  obtain s d2 where d2: "insert_segment seg now new_id 1 (segment_key (uuid_str W) new_id 1 ext) (Some 0) None (ig_bytes io path) None d1 = Inr d2"
      and s: "seg_recording_id s = new_id" "seg_seq s = 1" "seg_storage_key s = segment_key (uuid_str W) new_id 1 ext"
        "seg_start_ms s = Some 0" "seg_bytes s = ig_bytes io path"
      and d2s: "d2 = d1\<lparr>segments := segments d @ [s]\<rparr>"
    using insert_segment_fresh [OF d1(3)] assms(3) d1(4) by metis
  obtain d3 where d3: "set_recording_storage_key new_id (storage_key (uuid_str W) new_id) d2 = Inr d3" "segments d3 = segments d2"
    using d1(3) by (simp add: set_recording_storage_key_def update_recording_cases d2s has_recording_def)
  have h3: "has_recording d3 new_id"
    using keeps_queue_has_recording [OF keeps_storage_key [OF d3(1)]] d1(3) by (simp add: d2s has_recording_def)
  obtain d4 where d4: "set_recording_status new_id Processing d3 = Inr d4" "status_is d4 new_id Processing" "has_recording d4 new_id"
    using marked_ready [OF h3, of Processing] h3 by metis
  have seg4: "segments d4 = segments d3"
    using d4(1) by (auto simp: set_recording_status_def update_recording_cases split: if_splits)
  obtain j d5 where e: "enqueue now new_id Transcode empty_payload d4 = Inr (j, d5)" using enqueue_total [OF d4(3)] by blast
  have "goes wc d d4"
    using goes_created [OF d1(1)] goes_segment [OF d2] goes_edits(11) [OF d3(1)] goes_status [OF d4(1)] by (meson goes_trans)
  then have one: "live_job_for d5 new_id Transcode = [j]" by (rule live_job_for_enqueued [OF goes_queue_ok [OF assms(1)] e])
  have keep: "recordings d5 = recordings d4 \<and> segments d5 = segments d4"
    using e unfolding enqueue_def by (elim enqueue_cases) simp_all
  have "filter (\<lambda>s. seg_recording_id s = new_id) (segments d5) = [s]"
    using keep seg4 d3(2) assms(3) s by (simp add: d2s filter_empty_conv)
  then have l: "list_segments_by_recording d5 new_id = [s]" by (simp add: list_segments_by_recording_def)
  moreover have "transcode_inputs W [s] = [path]"
    by (simp add: transcode_inputs_def s(3) resolve_segment_key [OF assms(4)] assms(6))
  moreover have "ingest_file W (run_stage W cfg now) now new_id seg io title ps False d = (Some (Inr new_id), d5)"
    using assms(6-9) d1(1,2) d2 d3(1) d4(1) e by (simp add: ingest_file_def Let_def flip: assms(5))
  moreover have "status_is d5 new_id Processing" using d4(2) keep by (simp add: status_is_def)
  ultimately show "\<exists>d' s j. ingest_file W (run_stage W cfg now) now new_id seg io title ps False d = (Some (Inr new_id), d') \<and>
      status_is d' new_id Processing \<and> list_segments_by_recording d' new_id = [s] \<and>
      seg_seq s = 1 \<and> seg_start_ms s = Some 0 \<and> seg_bytes s = ig_bytes io path \<and>
      seg_storage_key s = segment_key (uuid_str W) new_id 1 ext \<and>
      transcode_inputs W (list_segments_by_recording d' new_id) = [path] \<and>
      live_job_for d' new_id Transcode = [j]"
    using one s by (metis (no_types, lifting))
qed

lemma demo_uuid_ok: "uuid_ok (uuid_str demo_world)"
  using numeral_uuid_ok by (simp add: demo_world_def)

definition demo_ingest :: ingest_io where
  "demo_ingest = \<lparr>ig_exists = True, ig_extension = Some (lit ''m4a''), ig_mkdir = (\<lambda>p. Inr ()), ig_copied = (\<lambda>p. True),
     ig_bytes = (\<lambda>p. Some 9), ig_load = Inr ()\<rparr>"

theorem ingest_queues_once_witness:
  "\<exists>d' s j. ingest_file demo_world (run_stage demo_world demo_config 3) 3 8 1 demo_ingest None None False demo_db = (Some (Inr 8), d') \<and>
     list_segments_by_recording d' 8 = [s] \<and> seg_seq s = 1 \<and> seg_bytes s = Some 9 \<and>
     live_job_for d' 8 Transcode = [j]"
proof -
  have "\<not> has_recording demo_db 8" "\<forall>s \<in> set (segments demo_db). seg_recording_id s \<noteq> 8"
    by (simp_all add: has_recording_def demo_db_def sample_db_def sample_recording_def empty_db_def)
  moreover have "ig_exists demo_ingest" "ig_mkdir demo_ingest p = Inr ()" "ig_copied demo_ingest p" "ig_bytes demo_ingest p = Some 9"
    for p by (simp_all add: demo_ingest_def)
  ultimately show ?thesis using ingest_queues_once [OF demo_reach _ _ demo_uuid_ok refl refl] by metis
qed

section \<open>One entry per name\<close>

definition lower_names :: "db \<Rightarrow> rstr list" where
  "lower_names d = map (\<lambda>s. to_ascii_lowercase (sp_display_name s)) (speakers d)"

definition named :: "rstr \<Rightarrow> db \<Rightarrow> speaker_row list" where
  "named name d = filter (\<lambda>s. eq_ignore_ascii_case (sp_display_name s) name) (speakers d)"

lemma find_in_order:
  assumes "set (by_name xs) = set xs"
  shows "find P (by_name xs) = None \<longleftrightarrow> filter P xs = []"
  using assms by (auto simp: find_None_iff filter_empty_conv)

lemma filter_key_unique:
  assumes "distinct (map g xs)" and "x \<in> set xs"
  shows "filter (\<lambda>y. g y = g x) xs = [x]"
  using assms by (induction xs) (auto simp: filter_empty_conv, metis imageI)

lemma filter_embedding_other:
  "filter (\<lambda>t. sp_id t \<noteq> i) (update_where (\<lambda>t. sp_id t = i) (\<lambda>t. t\<lparr>sp_embedding := v\<rparr>) xs) = filter (\<lambda>t. sp_id t \<noteq> i) xs"
  unfolding update_where_def by (induction xs) auto

lemma named_unique: "distinct (lower_names d) \<Longrightarrow> s \<in> set (speakers d) \<Longrightarrow> eq_ignore_ascii_case (sp_display_name s) name \<Longrightarrow> named name d = [s]"
  using filter_key_unique [of "\<lambda>s. to_ascii_lowercase (sp_display_name s)" "speakers d" s]
  by (simp add: named_def lower_names_def eq_ignore_ascii_case_def)

text \<open>
  C16: Enrolling keeps one library entry per name, up to ASCII case. When it succeeds, exactly one entry has the
  given name, it carries the voice of the sample, of the width the column has, and every other entry is as it was; when it fails,
  also because the name is taken and replacing was not asked for, nothing has changed.
\<close>

theorem enroll_one_entry_per_name:
  assumes "\<forall>xs. set (by_name xs) = set xs" and "distinct (lower_names d)" and "distinct (map sp_id (speakers d))"
    and "enroll by_name io new_id now name replace_voice d = (r, d')"
  shows "distinct (lower_names d') \<and>
    (case r of
       Inl e \<Rightarrow> d' = d
     | Inr sid \<Rightarrow> \<exists>s v. en_embedding io = Some (Inr v) \<and> named name d' = [s] \<and> sp_id s = sid \<and> sp_embedding s = Some v \<and>
         length v = VOICE_WIDTH \<and> filter (\<lambda>t. sp_id t \<noteq> sid) (speakers d') = filter (\<lambda>t. sp_id t \<noteq> sid) (speakers d))"
proof (cases "r")
  case (Inl e)
  then have "d' = d" using assms(4) by (auto simp: enroll_def split: if_splits sum.splits option.splits)
  then show ?thesis using Inl assms(2) by simp
next
  case (Inr sid)
  let ?P = "\<lambda>s. eq_ignore_ascii_case (sp_display_name s) name"
  obtain v where v: "en_embedding io = Some (Inr v)"
    and c: "(\<exists>s. find ?P (list_speakers by_name d) = Some s \<and> sid = sp_id s \<and> set_speaker_embedding (sp_id s) v d = Inr d') \<or>
      find ?P (list_speakers by_name d) = None \<and> (\<exists>s. create_speaker new_id now name (Some v) d = Inr (s, d') \<and> sid = sp_id s)"
    using assms(4) Inr by (auto simp: enroll_def split: if_splits sum.splits option.splits prod.splits)
  show ?thesis using c
  proof
    assume "\<exists>s. find ?P (list_speakers by_name d) = Some s \<and> sid = sp_id s \<and> set_speaker_embedding (sp_id s) v d = Inr d'"
    then obtain s where s: "s \<in> set (speakers d)" "?P s" "sid = sp_id s" and e: "set_speaker_embedding (sp_id s) v d = Inr d'"
      using assms(1) by (auto simp: list_speakers_def dest!: find_SomeD)
    have sp: "speakers d' = update_where (\<lambda>t. sp_id t = sp_id s) (\<lambda>t. t\<lparr>sp_embedding := Some v\<rparr>) (speakers d)"
      and wide: "length v = VOICE_WIDTH"
      using e by (auto simp: set_speaker_embedding_def update_speaker_def not_found_if_zero_def split: if_splits)
    have n: "lower_names d' = lower_names d" unfolding lower_names_def sp by (simp add: update_where_def o_def cong: map_cong)
    have "s\<lparr>sp_embedding := Some v\<rparr> \<in> set (speakers d')" unfolding sp set_update_where using s(1) by force
    then have "named name d' = [s\<lparr>sp_embedding := Some v\<rparr>]" using named_unique [of d'] n assms(2) s(2) by simp
    moreover have "filter (\<lambda>t. sp_id t \<noteq> sid) (speakers d') = filter (\<lambda>t. sp_id t \<noteq> sid) (speakers d)"
      unfolding sp s(3) by (rule filter_embedding_other)
    ultimately show ?thesis using Inr v n wide assms(2) s(3) by simp
  next
    assume "find ?P (list_speakers by_name d) = None \<and> (\<exists>s. create_speaker new_id now name (Some v) d = Inr (s, d') \<and> sid = sp_id s)"
    then obtain s where none: "named name d = []" and s: "create_speaker new_id now name (Some v) d = Inr (s, d')" "sid = sp_id s"
      using find_in_order [of by_name "speakers d"] assms(1) by (auto simp: list_speakers_def named_def)
    then have sp: "speakers d' = speakers d @ [s]" "sp_display_name s = name" "sp_embedding s = Some v" "sp_id s \<notin> sp_id ` set (speakers d)"
      and wide: "length v = VOICE_WIDTH"
      by (auto simp: create_speaker_def Let_def split: if_splits)
    have "named name d' = [s]" using none sp(1,2) by (simp add: named_def eq_ignore_ascii_case_def)
    moreover have "to_ascii_lowercase name \<notin> set (lower_names d)"
      using none by (auto simp: named_def lower_names_def filter_empty_conv eq_ignore_ascii_case_def)
    ultimately show ?thesis using Inr v wide sp s(2) assms(2) by (auto simp: lower_names_def)
  qed
qed

definition demo_enroll :: enroll_io where
  "demo_enroll = \<lparr>en_exists = True, en_engines = Inr (), en_transcoded = True, en_embedding = Some (Inr (blank_vector VOICE_WIDTH))\<rparr>"

theorem enroll_one_entry_per_name_witness:
  "\<exists>s. named (lit ''dan'') (snd (enroll (\<lambda>x. x) demo_enroll 2 5 (lit ''dan'') True
       (empty_db\<lparr>speakers := [\<lparr>sp_id = 1, sp_display_name = lit ''Dan'', sp_embedding = None, sp_created_at = 0\<rparr>]\<rparr>))) = [s] \<and>
     sp_id s = 1 \<and> sp_embedding s = Some (blank_vector VOICE_WIDTH)"
proof -
  define d where "d = empty_db\<lparr>speakers := [\<lparr>sp_id = 1, sp_display_name = lit ''Dan'', sp_embedding = None, sp_created_at = 0\<rparr>]\<rparr>"
  have ok: "distinct (lower_names d)" "distinct (map sp_id (speakers d))" by (simp_all add: d_def lower_names_def)
  obtain d' where e: "enroll (\<lambda>x. x) demo_enroll 2 5 (lit ''dan'') True d = (Inr 1, d')"
    by (simp add: enroll_def demo_enroll_def d_def list_speakers_def set_speaker_embedding_def update_speaker_def
        not_found_if_zero_def rows_affected_def eq_ignore_ascii_case_def to_ascii_lowercase_def ascii_lower_char_def)
  from enroll_one_entry_per_name [OF _ ok e] have "\<exists>s. named (lit ''dan'') d' = [s] \<and> sp_id s = 1 \<and> sp_embedding s = Some (blank_vector VOICE_WIDTH)"
    by (auto simp: demo_enroll_def simp del: lit_Cons)
  then show ?thesis unfolding d_def [symmetric] e by (simp del: lit_Cons)
qed

end
