(* ===== verification/Scribe_Cli.thy ===== *)
theory Scribe_Cli
  imports Scribe_Server Scribe_Commands Scribe_Models Scribe_Llm
begin

text \<open>
  The commands an operator runs, \<open>crates/scribe-cli/src\<close>: what \<open>main.rs\<close> does around the operations of the other
  theories (redacting a connection URL, printing a transcript, the speaker commands), the preflight report of
  \<open>doctor.rs\<close>, the signing commands of \<open>update.rs\<close> and \<open>models list\<close>.

  A command prints lines and succeeds or fails; the tables and files it changes are returned. Texts of errors that come
  from libraries are arguments.
\<close>

section \<open>Connection URLs in messages\<close>

text \<open>\<open>str::find\<close>.\<close>

fun find_str :: "rstr \<Rightarrow> rstr \<Rightarrow> nat option" where
  "find_str pat [] = (if pat = [] then Some 0 else None)"
| "find_str pat (c # s) = (if strip_prefix pat (c # s) \<noteq> None then Some 0 else map_option Suc (find_str pat s))"

definition redact_url :: "rstr \<Rightarrow> rstr" where
  "redact_url url =
     (case find_str (lit ''://'') url of
        None \<Rightarrow> url
      | Some scheme_end \<Rightarrow>
          let scheme = take (scheme_end + 3) url; rest = drop (scheme_end + 3) url in
          (case find_str (lit ''@'') rest of
             None \<Rightarrow> url
           | Some a \<Rightarrow>
               let creds = take a rest; tail = drop a rest in
               (case find_str (lit '':'') creds of
                  None \<Rightarrow> url
                | Some colon \<Rightarrow> scheme @ take colon creds @ lit '':***'' @ tail)))"

lemma find_str_char:
  "d \<notin> set s \<Longrightarrow> find_str [d] (s @ d # t) = Some (length s)" "d \<notin> set s \<Longrightarrow> find_str [d] s = None"
  by (induction s) auto

lemma find_scheme: "58 \<notin> set s \<Longrightarrow> find_str [58, 47, 47] (s @ 58 # 47 # 47 # t) = Some (length s)"
  by (induction s) auto

text \<open>
  No message about a failed connection shows the password: whatever it is, as long as an \<open>@\<close> in it is escaped, the
  URL is printed with three stars in its place, and user, host and database as they are.
\<close>

theorem redact_hides_password:
  assumes "58 \<notin> set scheme" and "58 \<notin> set user" and "64 \<notin> set user" and "64 \<notin> set password"
  shows "redact_url (scheme @ lit ''://'' @ user @ lit '':'' @ password @ lit ''@'' @ host) =
    scheme @ lit ''://'' @ user @ lit '':***@'' @ host"
proof -
  let ?rest = "user @ 58 # password @ 64 # host"
  have "find_str [64] ((user @ 58 # password) @ 64 # host) = Some (length (user @ 58 # password))"
    by (rule find_str_char(1)) (use assms in simp)
  then have at: "find_str [64] ?rest = Some (length (user @ 58 # password))" by simp
  have "take (length (user @ 58 # password)) ?rest = user @ 58 # password" "drop (length (user @ 58 # password)) ?rest = 64 # host"
    by simp_all
  then show ?thesis
    using find_scheme [OF assms(1), of ?rest] at find_str_char(1) [OF assms(2), of password]
    by (simp add: redact_url_def Let_def)
qed

theorem redact_hides_password_witness:
  "redact_url (lit ''postgres://scribe:s3cret@db/scribe'') = lit ''postgres://scribe:***@db/scribe''"
proof -
  have "redact_url (lit ''postgres'' @ lit ''://'' @ lit ''scribe'' @ lit '':'' @ lit ''s3cret'' @ lit ''@'' @ lit ''db/scribe'') =
      lit ''postgres'' @ lit ''://'' @ lit ''scribe'' @ lit '':***@'' @ lit ''db/scribe''"
    by (rule redact_hides_password) simp_all
  then show ?thesis by simp
qed

text \<open>An unescaped \<open>@\<close> ends the password too early, and a password among the parameters of the URL is not seen at all.\<close>

lemma redact_leaks:
  "redact_url (lit ''postgres://u:p@ss@db/x'') = lit ''postgres://u:***@ss@db/x''"
  "redact_url (lit ''postgres://db/x?user=u&password=p'') = lit ''postgres://db/x?user=u&password=p''"
  by (simp_all add: redact_url_def)

section \<open>Speakers\<close>

datatype cli_error = Refused | Failed error

type_synonym 'a cli = "cli_error + 'a"

definition from_core :: "'a res \<Rightarrow> 'a cli" where
  "from_core r = (case r of Inl e \<Rightarrow> Inl (Failed e) | Inr x \<Rightarrow> Inr x)"

text \<open>The two statements of the transaction; deleting a speaker clears what still points at it.\<close>

definition reassign_speaker :: "uuid \<Rightarrow> uuid \<Rightarrow> db \<Rightarrow> nat \<times> db" where
  "reassign_speaker from_id into_id d =
     (rows_affected (\<lambda>s. rs_speaker_id s = Some from_id) (recording_speakers d),
      d\<lparr>recording_speakers := update_where (\<lambda>s. rs_speaker_id s = Some from_id)
          (\<lambda>s. s\<lparr>rs_speaker_id := Some into_id\<rparr>) (recording_speakers d)\<rparr>)"

definition merge_speakers :: "uuid \<Rightarrow> uuid \<Rightarrow> db \<Rightarrow> nat cli \<times> db" where
  "merge_speakers from_id into_id d =
     (if from_id = into_id then (Inl Refused, d)
      else case get_speaker d from_id of
        Inl e \<Rightarrow> (Inl (Failed e), d)
      | Inr _ \<Rightarrow>
     (case get_speaker d into_id of
        Inl e \<Rightarrow> (Inl (Failed e), d)
      | Inr _ \<Rightarrow>
          (case reassign_speaker from_id into_id d of
             (reassigned, d1) \<Rightarrow> (Inr reassigned, case delete_speaker from_id d1 of Inl _ \<Rightarrow> d1 | Inr d2 \<Rightarrow> d2))))"

datatype speaker_cmd = ListSpeakers | RenameSpeaker uuid rstr | DeleteSpeaker uuid | MergeSpeakers uuid uuid

definition pad_right :: "nat \<Rightarrow> rstr \<Rightarrow> rstr" where
  "pad_right w s = s @ replicate (w - length s) 32"

definition speaker_row_line :: "(uuid \<Rightarrow> rstr) \<Rightarrow> speaker_row \<Rightarrow> rstr" where
  "speaker_row_line us s =
     pad_right 38 (us (sp_id s)) @ lit ''  '' @ pad_right 6 (if sp_embedding s \<noteq> None then lit ''yes'' else lit ''no'')
       @ lit ''  '' @ sp_display_name s"

definition run_speaker :: "(uuid \<Rightarrow> rstr) \<Rightarrow> (speaker_row list \<Rightarrow> speaker_row list) \<Rightarrow> speaker_cmd \<Rightarrow> db \<Rightarrow> rstr list cli \<times> db" where
  "run_speaker us by_name cmd d =
     (case cmd of
        ListSpeakers \<Rightarrow>
          (case list_speakers by_name d of
             [] \<Rightarrow> (Inr [lit ''no enrolled speakers''], d)
           | ss \<Rightarrow> (Inr ((pad_right 38 (lit ''ID'') @ lit ''  '' @ pad_right 6 (lit ''EMBED'') @ lit ''  NAME'') #
                       map (speaker_row_line us) ss), d))
      | RenameSpeaker i new_name \<Rightarrow>
          (case rename_speaker i new_name d of
             Inl e \<Rightarrow> (Inl (Failed e), d)
           | Inr d' \<Rightarrow> (Inr [lit ''renamed speaker '' @ us i @ [32, 8594, 32, 96] @ new_name @ [96]], d'))
      | DeleteSpeaker i \<Rightarrow>
          (case delete_speaker i d of
             Inl e \<Rightarrow> (Inl (Failed e), d)
           | Inr d' \<Rightarrow> (Inr [lit ''deleted speaker '' @ us i], d'))
      | MergeSpeakers i j \<Rightarrow>
          (case merge_speakers i j d of
             (Inl e, d') \<Rightarrow> (Inl e, d')
           | (Inr n, d') \<Rightarrow> (Inr [lit ''merged speaker '' @ us i @ lit '' into '' @ us j @ lit '' ('' @ show_nat n @
                 lit '' recording reference(s) reassigned)''], d')))"

text \<open>The recordings a speaker is named in, and the foreign key from a diarized voice to the library.\<close>

definition spoke_in :: "db \<Rightarrow> uuid \<Rightarrow> uuid set" where
  "spoke_in d sid = rs_recording_id ` {s \<in> set (recording_speakers d). rs_speaker_id s = Some sid}"

definition refs_ok :: "db \<Rightarrow> bool" where
  "refs_ok d \<longleftrightarrow> (\<forall>s \<in> set (recording_speakers d). rs_speaker_id s \<in> insert None (Some ` sp_id ` set (speakers d)))"

definition relabel :: "uuid \<Rightarrow> uuid \<Rightarrow> rec_speaker \<Rightarrow> rec_speaker" where
  "relabel a b s = (if rs_speaker_id s = Some a then s\<lparr>rs_speaker_id := Some b\<rparr> else s)"

lemma get_speaker_iff: "(\<exists>s. get_speaker d i = Inr s) \<longleftrightarrow> i \<in> sp_id ` set (speakers d)"
proof -
  have "find (\<lambda>s. sp_id s = i) xs = None \<longleftrightarrow> i \<notin> sp_id ` set xs" for xs by (induction xs) auto
  from this [of "speakers d"] show ?thesis
    by (cases "find (\<lambda>s. sp_id s = i) (speakers d)") (simp_all add: get_speaker_def lookup_by_def)
qed

lemma merge_runs:
  assumes "merge_speakers a b d = (Inr n, d')"
  shows "a \<noteq> b" "{a, b} \<subseteq> sp_id ` set (speakers d)" "n = length (filter (\<lambda>s. rs_speaker_id s = Some a) (recording_speakers d))"
    "d' = d\<lparr>speakers := filter (\<lambda>s. sp_id s \<noteq> a) (speakers d), recording_speakers := map (relabel a b) (recording_speakers d)\<rparr>"
proof -
  show ab: "a \<noteq> b" using assms by (auto simp: merge_speakers_def)
  obtain x y where g: "get_speaker d a = Inr x" "get_speaker d b = Inr y"
    using assms ab by (auto simp: merge_speakers_def split: sum.splits)
  then show p: "{a, b} \<subseteq> sp_id ` set (speakers d)" using get_speaker_iff [of d a] get_speaker_iff [of d b] by auto
  obtain d1 where r: "reassign_speaker a b d = (n, d1)" and d': "d' = (case delete_speaker a d1 of Inl _ \<Rightarrow> d1 | Inr d2 \<Rightarrow> d2)"
    using assms ab g by (auto simp: merge_speakers_def split: prod.splits)
  show "n = length (filter (\<lambda>s. rs_speaker_id s = Some a) (recording_speakers d))"
    using r by (auto simp: reassign_speaker_def rows_affected_def)
  have d1: "d1 = d\<lparr>recording_speakers := map (relabel a b) (recording_speakers d)\<rparr>"
    using r by (auto simp: reassign_speaker_def update_where_def relabel_def)
  have "update_where (\<lambda>s. rs_speaker_id s = Some a) f (map (relabel a b) rs) = map (relabel a b) rs" for f rs
    using ab by (auto simp: update_where_def relabel_def)
  moreover have "rows_affected (\<lambda>s. sp_id s = a) (speakers d) \<noteq> 0" using p by (auto simp: rows_affected_0_iff)
  ultimately show "d' = d\<lparr>speakers := filter (\<lambda>s. sp_id s \<noteq> a) (speakers d), recording_speakers := map (relabel a b) (recording_speakers d)\<rparr>"
    unfolding d' d1 by (simp add: delete_speaker_def not_found_if_zero_def delete_where_def)
qed

lemma spoke_in_relabel:
  assumes "a \<noteq> b" and "recording_speakers d' = map (relabel a b) (recording_speakers d)"
  shows "spoke_in d' c = (if c = a then {} else if c = b then spoke_in d a \<union> spoke_in d b else spoke_in d c)"
proof -
  have mem: "x \<in> spoke_in e i \<longleftrightarrow> (\<exists>s \<in> set (recording_speakers e). rs_recording_id s = x \<and> rs_speaker_id s = Some i)" for x e i
    by (auto simp: spoke_in_def)
  have "rs_speaker_id (relabel a b s) = Some c \<longleftrightarrow> c \<noteq> a \<and> (rs_speaker_id s = Some c \<or> c = b \<and> rs_speaker_id s = Some a)"
    "rs_recording_id (relabel a b s) = rs_recording_id s" for s
    using assms(1) by (auto simp: relabel_def)
  then show ?thesis by (auto simp: mem assms(2))
qed

lemma merge_refused:
  assumes "merge_speakers a b d = (Inl e, d')"
  shows "d' = d" "a = b \<or> \<not> {a, b} \<subseteq> sp_id ` set (speakers d)"
  using assms get_speaker_iff [of d a] get_speaker_iff [of d b]
  by (auto simp: merge_speakers_def split: if_splits sum.splits prod.splits)

text \<open>
  C18: merging one speaker into another is refused, without changing anything, exactly when they are the same or one of
  them is not in the library. Otherwise the first is gone from the library and everyone else stays, every recording
  that named either now names the second, no other attribution changes, nothing points at a missing entry that did not
  before, and the count that is reported is the number of voices that were moved.
\<close>

theorem merge_speakers_spec:
  "case merge_speakers a b d of
     (Inl e, d') \<Rightarrow> d' = d \<and> (a = b \<or> \<not> {a, b} \<subseteq> sp_id ` set (speakers d))
   | (Inr n, d') \<Rightarrow> a \<noteq> b \<and> {a, b} \<subseteq> sp_id ` set (speakers d) \<and>
       speakers d' = filter (\<lambda>s. sp_id s \<noteq> a) (speakers d) \<and>
       (\<forall>c. spoke_in d' c = (if c = a then {} else if c = b then spoke_in d a \<union> spoke_in d b else spoke_in d c)) \<and>
       n = length (filter (\<lambda>s. rs_speaker_id s = Some a) (recording_speakers d)) \<and> (refs_ok d \<longrightarrow> refs_ok d')"
proof (cases "merge_speakers a b d")
  case (Pair r d')
  show ?thesis
  proof (cases r)
    case (Inr n)
    note m = merge_runs [OF Pair [unfolded Inr]]
    have "refs_ok d'" if "refs_ok d"
      using that m(1,2) unfolding refs_ok_def m(4) by (force simp: relabel_def)
    then show ?thesis using Pair Inr m spoke_in_relabel [OF m(1)] by simp
  qed (use Pair merge_refused in simp)
qed

theorem merge_speakers_spec_witness:
  "\<exists>d'. merge_speakers 1 2 (empty_db\<lparr>
      speakers := [\<lparr>sp_id = 1, sp_display_name = [], sp_embedding = None, sp_created_at = 0\<rparr>,
                   \<lparr>sp_id = 2, sp_display_name = [], sp_embedding = None, sp_created_at = 0\<rparr>],
      recording_speakers := [\<lparr>rs_recording_id = 7, rs_local_idx = 0, rs_speaker_id = Some 1, rs_embedding = None\<rparr>]\<rparr>) = (Inr 1, d') \<and>
    spoke_in d' 2 = {7} \<and> refs_ok d'"
proof -
  let ?d = "empty_db\<lparr>
      speakers := [\<lparr>sp_id = 1, sp_display_name = [], sp_embedding = None, sp_created_at = 0\<rparr>,
                   \<lparr>sp_id = 2, sp_display_name = [], sp_embedding = None, sp_created_at = 0\<rparr>],
      recording_speakers := [\<lparr>rs_recording_id = 7, rs_local_idx = 0, rs_speaker_id = Some 1, rs_embedding = None\<rparr>]\<rparr>"
  obtain d' where r: "merge_speakers 1 2 ?d = (Inr 1, d')"
    by (simp add: merge_speakers_def get_speaker_def lookup_by_def reassign_speaker_def rows_affected_def)
  moreover have "spoke_in ?d 1 = {7}" "spoke_in ?d 2 = {}" "refs_ok ?d" by (auto simp: spoke_in_def refs_ok_def)
  ultimately show ?thesis using merge_speakers_spec [where a = 1 and b = 2 and d = ?d] by (auto split: prod.splits)
qed

text \<open>The speaker commands are edits of the library: the queue does not notice them.\<close>

lemma goes_run_speaker: "goes wc d (snd (run_speaker us by_name cmd d))"
proof -
  have "goes wc d d'" if "merge_speakers a b d = (r, d')" for a b r d'
  proof (cases r)
    case (Inl e)
    then show ?thesis using merge_refused(1) [OF that [unfolded Inl]] by simp
  next
    case (Inr n)
    show ?thesis by (rule goes_edit) (simp add: merge_runs(4) [OF that [unfolded Inr]] keeps_queue_def)
  qed
  then show ?thesis unfolding run_speaker_def
    by (auto split: speaker_cmd.split list.split sum.split prod.split intro: goes_edits)
qed

section \<open>Printing a transcript\<close>

text \<open>Division and remainder of \<open>i64\<close> truncate; a width counts the sign.\<close>

definition trunc_div :: "int \<Rightarrow> int \<Rightarrow> int" where
  "trunc_div a b = (if a < 0 then - (- a div b) else a div b)"

definition trunc_mod :: "int \<Rightarrow> int \<Rightarrow> int" where
  "trunc_mod a b = a - b * trunc_div a b"

definition pad_left :: "nat \<Rightarrow> rstr \<Rightarrow> rstr" where
  "pad_left w s = replicate (w - length s) 32 @ s"

definition show_int_02 :: "int \<Rightarrow> rstr" where
  "show_int_02 i = (if i < 0 then 45 # pad_zero 1 (show_nat (nat (- i))) else pad_zero 2 (show_nat (nat i)))"

definition voice_names :: "db \<Rightarrow> uuid \<Rightarrow> int \<Rightarrow> rstr option" where
  "voice_names d rid = map_of (rev (map (\<lambda>(s, name). (rs_local_idx s, name)) (recording_speaker_rows d rid)))"

definition printed_line :: "db \<Rightarrow> uuid \<Rightarrow> utterance \<Rightarrow> rstr" where
  "printed_line d rid u =
     (let who = (case Option.bind (u_local_idx u) (voice_names d rid) of Some n \<Rightarrow> n | None \<Rightarrow> lit ''-'')
      in pad_left 3 (show_int (trunc_div (u_start_ms u) 60000)) @ lit '':'' @
         show_int_02 (trunc_mod (trunc_div (u_start_ms u) 1000) 60) @ lit ''  '' @ pad_right 14 who @ lit '' '' @ u_text u)"

definition print_transcript :: "(recording list \<Rightarrow> recording list) \<Rightarrow> uuid option \<Rightarrow> db \<Rightarrow> rstr list cli" where
  "print_transcript tie which d =
     (case (case which of
              Some rid \<Rightarrow> Inr rid
            | None \<Rightarrow> (case list_recordings tie 1 0 None d of
                         Inl e \<Rightarrow> Inl (Failed e) | Inr [] \<Rightarrow> Inl Refused | Inr (r # rs) \<Rightarrow> Inr (rec_id r))) of
        Inl e \<Rightarrow> Inl e
      | Inr rid \<Rightarrow>
          (case get_recording d rid of
             Inl e \<Rightarrow> Inl (Failed e)
           | Inr r \<Rightarrow>
               let us = list_utterances_by_recording d rid in
               Inr (((case rec_title r of Some t \<Rightarrow> t | None \<Rightarrow> lit ''(untitled)'') @ lit ''  ['' @ status_as_str (rec_status r)
                      @ lit '']  '' @ show_nat (length (recording_speaker_rows d rid)) @ lit '' speakers'')
                    # map (printed_line d rid) us
                    @ (if us = [] then [lit ''(no transcript - still processing, or the pipeline failed)''] else []))))"

section \<open>Preflight checks\<close>

datatype check_status = Pass | Warn | Fail | Info

fun tag :: "check_status \<Rightarrow> rstr" where
  "tag Pass = lit ''PASS''"
| "tag Warn = lit ''WARN''"
| "tag Fail = lit ''FAIL''"
| "tag Info = lit ''INFO''"

type_synonym report = "(check_status \<times> rstr \<times> rstr) list"

definition add_check :: "report \<Rightarrow> check_status \<Rightarrow> string \<Rightarrow> rstr \<Rightarrow> report" where
  "add_check r s name detail = r @ [(s, lit name, detail)]"

definition any_fail :: "report \<Rightarrow> bool" where
  "any_fail r = list_ex (\<lambda>(s, _). s = Fail) r"

definition print_report :: "report \<Rightarrow> rstr list" where
  "print_report r =
     (let width = foldl max 0 (map (\<lambda>(_, n, _). length n) r);
          fails = length (filter (\<lambda>(s, _). s = Fail) r); warns = length (filter (\<lambda>(s, _). s = Warn) r)
      in [lit ''scribe doctor '' @ [8212] @ lit '' '' @ show_nat (length r) @ lit '' check(s)'', []]
         @ map (\<lambda>(s, n, d). lit ''  ['' @ tag s @ lit '']  '' @ pad_right width n @ lit ''  '' @ d) r
         @ [[], if fails > 0 then lit ''result: FAIL ('' @ show_nat fails @ lit '' failing, '' @ show_nat warns @ lit '' warning(s))''
                else if warns > 0 then lit ''result: OK with '' @ show_nat warns @ lit '' warning(s)''
                else lit ''result: OK''])"

text \<open>
  What the checks find: the connection and the count of applied migrations (\<open>Inl\<close> when the table is missing), the two
  calls on the blob directory, and how a program ended (\<open>Inl\<close> when it could not be started, else success, exit code and output).
\<close>

datatype ran = NotFoundOnPath rstr | Exited bool int rstr

record doctor_env =
  dr_config_path :: "rstr option"
  dr_connect :: "rstr + (unit + int)"
  dr_blobs :: rstr
  dr_mkdir :: "rstr + unit"
  dr_probe :: "rstr + unit"
  dr_ffmpeg :: ran
  dr_fs :: model_fs
  dr_models_dir :: rstr
  dr_diarization :: bool
  dr_provider :: rstr
  dr_client :: chat_client
  dr_health :: "unit + bool"
  dr_nvidia :: ran
  dr_tailscale :: ran

definition first_line :: "rstr \<Rightarrow> rstr \<Rightarrow> rstr" where
  "first_line fallback out = trim (if out = [] then fallback else split_first 10 out)"

definition check_config :: "doctor_env \<Rightarrow> report \<Rightarrow> report" where
  "check_config E r = add_check r Pass ''config''
     (case dr_config_path E of Some p \<Rightarrow> lit ''loaded from '' @ p | None \<Rightarrow> lit ''loaded from defaults + SCRIBE_* env (no --config)'')"

definition check_database :: "doctor_env \<Rightarrow> report \<Rightarrow> report" where
  "check_database E r =
     (case dr_connect E of
        Inl e \<Rightarrow> add_check r Fail ''database'' (lit ''cannot connect: '' @ e)
      | Inr (Inr n) \<Rightarrow>
          if n > 0 then add_check r Pass ''database'' (lit ''connected; '' @ show_int n @ lit '' migration(s) applied'')
          else add_check r Fail ''database'' (lit ''connected but no migrations applied '' @ [8212] @ lit '' run `scribe migrate`'')
      | Inr (Inl _) \<Rightarrow> add_check r Fail ''database'' (lit ''connected but migrations table absent '' @ [8212] @ lit '' run `scribe migrate`''))"

definition check_blobs :: "doctor_env \<Rightarrow> report \<Rightarrow> report" where
  "check_blobs E r =
     (case dr_mkdir E of
        Inl e \<Rightarrow> add_check r Fail ''storage'' (lit ''cannot create blobs dir '' @ dr_blobs E @ lit '': '' @ e)
      | Inr _ \<Rightarrow>
          (case dr_probe E of
             Inr _ \<Rightarrow> add_check r Pass ''storage'' (lit ''blobs dir writable: '' @ dr_blobs E)
           | Inl e \<Rightarrow> add_check r Fail ''storage'' (lit ''blobs dir not writable '' @ dr_blobs E @ lit '': '' @ e)))"

definition check_ffmpeg :: "doctor_env \<Rightarrow> report \<Rightarrow> report" where
  "check_ffmpeg E r =
     (case dr_ffmpeg E of
        Exited True _ out \<Rightarrow> add_check r Pass ''ffmpeg'' (first_line (lit ''ffmpeg'') out)
      | Exited False ecode _ \<Rightarrow> add_check r Fail ''ffmpeg'' (lit ''`ffmpeg -version` exited '' @ show_int ecode)
      | NotFoundOnPath e \<Rightarrow> add_check r Fail ''ffmpeg'' (lit ''not found on PATH: '' @ e))"

definition ok_or_missing :: "bool \<Rightarrow> rstr" where
  "ok_or_missing b = (if b then lit ''ok'' else lit ''missing'')"

definition check_models :: "(rstr list \<Rightarrow> rstr list) \<Rightarrow> (rstr list \<Rightarrow> rstr list) \<Rightarrow> doctor_env \<Rightarrow> report \<Rightarrow> report" where
  "check_models arrange by_path E r =
     (let F = dr_fs E; dir = dr_models_dir E;
          asr_ok = (discover arrange by_path F dir \<noteq> None); diar = (discover_diarization F dir \<noteq> None)
      in if asr_ok \<and> (diar \<or> \<not> dr_diarization E) then add_check r Pass ''models'' (lit ''ONNX assets present under '' @ dir)
         else if \<not> fs_exists F dir then add_check r Warn ''models''
           (lit ''models_dir '' @ dir @ lit '' missing '' @ [8212] @ lit '' stub engine will be used (run `scribe models pull`)'')
         else add_check r Warn ''models'' (lit ''incomplete ONNX assets under '' @ dir @ lit '' (asr: '' @ ok_or_missing asr_ok
           @ lit '', diar: '' @ ok_or_missing diar @ lit '') '' @ [8212] @ lit '' stub engine will be used''))"

definition check_ollama :: "doctor_env \<Rightarrow> report \<Rightarrow> report" where
  "check_ollama E r =
     (let place = dr_provider E @ lit '' at '' @ cc_base_url (dr_client E) in
      case dr_health E of
        Inr True \<Rightarrow> add_check r Pass ''llm'' (lit ''reachable '' @ [8212] @ lit '' '' @ place)
      | Inr False \<Rightarrow> add_check r Warn ''llm'' (lit ''responded non-2xx '' @ [8212] @ lit '' '' @ place)
      | Inl _ \<Rightarrow> add_check r Warn ''llm'' (lit ''not reachable '' @ [8212] @ lit '' '' @ place @ lit '' (needed only on the processing node)''))"

definition check_best_effort :: "doctor_env \<Rightarrow> report \<Rightarrow> report" where
  "check_best_effort E r =
     (let r1 = (case dr_nvidia E of
                  Exited True _ out \<Rightarrow> add_check r Pass ''gpu'' (first_line (lit ''GPU detected'') out)
                | _ \<Rightarrow> add_check r Info ''gpu'' (lit ''no NVIDIA GPU detected (CPU path is supported, just slower)''))
      in case dr_tailscale E of
           Exited True _ out \<Rightarrow> add_check r1 Info ''tailscale'' (lit ''CLI present ('' @ first_line (lit ''tailscale present'') out @ lit '')'')
         | _ \<Rightarrow> add_check r1 Info ''tailscale'' (lit ''CLI not found (only needed for from-anywhere access)''))"

definition doctor :: "(rstr list \<Rightarrow> rstr list) \<Rightarrow> (rstr list \<Rightarrow> rstr list) \<Rightarrow> doctor_env \<Rightarrow> rstr list \<times> bool" where
  "doctor arrange by_path E =
     (let r = check_best_effort E (check_ollama E (check_models arrange by_path E (check_ffmpeg E (check_blobs E
                (check_database E (check_config E []))))))
      in (print_report r, \<not> any_fail r))"

text \<open>Each check adds one row, and only the required ones can fail.\<close>

lemma any_fail_add [simp]: "any_fail (add_check r s n x) \<longleftrightarrow> any_fail r \<or> s = Fail"
  by (auto simp: any_fail_def add_check_def)

lemma add_checks [simp]: "length (add_check r s n x) = Suc (length r)" "map (fst \<circ> snd) (add_check r s n x) = map (fst \<circ> snd) r @ [lit n]"
  by (simp_all add: add_check_def)

definition database_ready :: "doctor_env \<Rightarrow> bool" where
  "database_ready E \<longleftrightarrow> (\<exists>n > 0. dr_connect E = Inr (Inr n))"

definition storage_ready :: "doctor_env \<Rightarrow> bool" where
  "storage_ready E \<longleftrightarrow> \<not> isl (dr_mkdir E) \<and> \<not> isl (dr_probe E)"

definition ffmpeg_ready :: "doctor_env \<Rightarrow> bool" where
  "ffmpeg_ready E \<longleftrightarrow> (\<exists>c out. dr_ffmpeg E = Exited True c out)"

lemma checks_fail:
  "any_fail (check_config E r) \<longleftrightarrow> any_fail r"
  "any_fail (check_database E r) \<longleftrightarrow> any_fail r \<or> \<not> database_ready E"
  "any_fail (check_blobs E r) \<longleftrightarrow> any_fail r \<or> \<not> storage_ready E"
  "any_fail (check_ffmpeg E r) \<longleftrightarrow> any_fail r \<or> \<not> ffmpeg_ready E"
  "any_fail (check_models arrange by_path E r) \<longleftrightarrow> any_fail r"
  "any_fail (check_ollama E r) \<longleftrightarrow> any_fail r"
  "any_fail (check_best_effort E r) \<longleftrightarrow> any_fail r"
  by (auto simp: check_config_def check_database_def database_ready_def check_blobs_def storage_ready_def check_ffmpeg_def
      ffmpeg_ready_def check_models_def check_ollama_def check_best_effort_def Let_def split: sum.split ran.split bool.split)

lemma checks_named:
  "map (fst \<circ> snd) (check_config E r) = map (fst \<circ> snd) r @ [lit ''config'']"
  "map (fst \<circ> snd) (check_database E r) = map (fst \<circ> snd) r @ [lit ''database'']"
  "map (fst \<circ> snd) (check_blobs E r) = map (fst \<circ> snd) r @ [lit ''storage'']"
  "map (fst \<circ> snd) (check_ffmpeg E r) = map (fst \<circ> snd) r @ [lit ''ffmpeg'']"
  "map (fst \<circ> snd) (check_models arrange by_path E r) = map (fst \<circ> snd) r @ [lit ''models'']"
  "map (fst \<circ> snd) (check_ollama E r) = map (fst \<circ> snd) r @ [lit ''llm'']"
  "map (fst \<circ> snd) (check_best_effort E r) = map (fst \<circ> snd) r @ [lit ''gpu'', lit ''tailscale'']"
  unfolding check_config_def check_database_def check_blobs_def check_ffmpeg_def check_models_def check_ollama_def
    check_best_effort_def Let_def
  by (simp_all del: lit_Cons split: sum.split ran.split bool.split)

text \<open>
  \<open>scribe doctor\<close> passes exactly when the database answers and has been migrated, the blob directory can be created
  and written, and ffmpeg runs. Missing models, an unreachable language model, no GPU and no Tailscale never fail it, and
  whatever is found all eight checks are on the report, between its title and its verdict.
\<close>

theorem doctor_verdict:
  "(snd (doctor arrange by_path E) \<longleftrightarrow> database_ready E \<and> storage_ready E \<and> ffmpeg_ready E) \<and>
   length (fst (doctor arrange by_path E)) = 8 + 4"
proof
  let ?r = "check_best_effort E (check_ollama E (check_models arrange by_path E (check_ffmpeg E (check_blobs E
      (check_database E (check_config E []))))))"
  show "snd (doctor arrange by_path E) \<longleftrightarrow> database_ready E \<and> storage_ready E \<and> ffmpeg_ready E"
    by (simp add: doctor_def Let_def checks_fail) (simp add: any_fail_def)
  have "length (map (fst \<circ> snd) ?r) = 8" unfolding checks_named by simp
  then show "length (fst (doctor arrange by_path E)) = 8 + 4" by (simp add: doctor_def Let_def print_report_def)
qed

section \<open>The signing commands\<close>

text \<open>A key is its file's contents when there is a file of that name, else the text itself; \<open>decode\<close> is \<open>None\<close> on bytes that are no UTF-8.\<close>

definition read_key :: "(8 word list \<Rightarrow> rstr option) \<Rightarrow> rstr \<Rightarrow> files \<Rightarrow> rstr cli" where
  "read_key decode value fs =
     (case fs value of
        None \<Rightarrow> Inr (trim value)
      | Some bytes \<Rightarrow> (case decode bytes of None \<Rightarrow> Inl (Failed Io) | Some s \<Rightarrow> Inr (trim s)))"

definition private_hex :: "vendor \<Rightarrow> 8 word list \<Rightarrow> rstr" where
  "private_hex V key = vn_hex_encode V key"

definition text_bytes :: "rstr \<Rightarrow> 8 word list" where
  "text_bytes s = map of_nat (as_bytes s)"

text \<open>\<open>key\<close> is what the system's random numbers gave; \<open>can_write\<close> says which files can be written.\<close>

definition keygen :: "vendor \<Rightarrow> (rstr \<Rightarrow> bool) \<Rightarrow> 8 word list \<Rightarrow> rstr option \<Rightarrow> files \<Rightarrow> rstr cli \<times> files" where
  "keygen V can_write key out fs =
     (let public = public_hex V key in
      case out of
        None \<Rightarrow> (Inr public, fs)
      | Some path \<Rightarrow>
          if \<not> can_write path then (Inl (Failed Io), fs)
          else let fs1 = fs(path \<mapsto> text_bytes (private_hex V key @ [10])); pubpath = with_extension path (lit ''pub'') in
            if \<not> can_write pubpath then (Inl (Failed Io), fs1)
            else (Inr public, fs1(pubpath \<mapsto> text_bytes (public @ [10]))))"

definition sign_cmd ::
  "vendor \<Rightarrow> (8 word list \<Rightarrow> rstr option) \<Rightarrow> (rstr \<Rightarrow> bool) \<Rightarrow> rstr \<Rightarrow> rstr \<Rightarrow> rstr \<Rightarrow> rstr \<Rightarrow> rstr \<Rightarrow> rstr option \<Rightarrow> rstr \<Rightarrow> rstr \<Rightarrow> files \<Rightarrow>
     manifest cli \<times> files" where
  "sign_cmd V decode can_write here now key binary version target release_notes out fs =
     (case read_key decode key fs of
        Inl e \<Rightarrow> (Inl e, fs)
      | Inr key_hex \<Rightarrow>
     (case from_private_hex V key_hex of
        Inl e \<Rightarrow> (Inl Refused, fs)
      | Inr kp \<Rightarrow>
     (case fs binary of
        None \<Rightarrow> (Inl Refused, fs)
      | Some bytes \<Rightarrow>
          (case sign_package V kp here bytes version target release_notes now of
             (m, archive) \<Rightarrow> if can_write out then (Inr m, fs(out \<mapsto> archive)) else (Inl Refused, fs)))))"

definition verify_cmd :: "vendor \<Rightarrow> host \<Rightarrow> update_cfg \<Rightarrow> rstr \<Rightarrow> files \<Rightarrow> manifest cli" where
  "verify_cmd V H cfg path fs =
     (case read_package V fs path of
        Inl e \<Rightarrow> Inl Refused
      | Inr pkg \<Rightarrow> (case verify_package V H cfg pkg of Inl e \<Rightarrow> Inl Refused | Inr _ \<Rightarrow> Inr (pk_manifest pkg)))"

definition apply_cmd :: "vendor \<Rightarrow> host \<Rightarrow> installer \<Rightarrow> update_cfg \<Rightarrow> rstr \<Rightarrow> rstr \<Rightarrow> files \<Rightarrow> update_outcome cli \<times> files" where
  "apply_cmd V H I cfg db_url path fs =
     (case read_package V fs path of
        Inl e \<Rightarrow> (Inl Refused, fs)
      | Inr pkg \<Rightarrow>
          (case apply_package V H I cfg pkg \<lparr>ao_db_url = Some db_url, ao_sanity = True, ao_migrate = True\<rparr> fs of
             (Inl e, fs1) \<Rightarrow> (Inl Refused, fs1) | (Inr ou, fs1) \<Rightarrow> (Inr ou, fs1)))"

definition rollback_cmd :: "host \<Rightarrow> roller \<Rightarrow> update_cfg \<Rightarrow> files \<Rightarrow> rstr cli \<times> files" where
  "rollback_cmd H R cfg fs = (case rollback H R cfg fs of (Inl e, fs1) \<Rightarrow> (Inl Refused, fs1) | (Inr v, fs1) \<Rightarrow> (Inr v, fs1))"

definition info_lines :: "host \<Rightarrow> bool \<Rightarrow> update_cfg \<Rightarrow> files \<Rightarrow> rstr list" where
  "info_lines H enabled cfg fs =
     [lit ''version:     '' @ ho_running H, lit ''target:      '' @ ho_target H,
      lit ''binary:      '' @ (case resolve_binary_path H cfg of Inl _ \<Rightarrow> [] | Inr p \<Rightarrow> p),
      lit ''update:      '' @ (if enabled then lit ''enabled'' else lit ''disabled''),
      lit ''rollback:    '' @ (if has_backup H cfg fs then lit ''available (.old present)'' else lit ''none'')]"

definition manifest_lines :: "manifest \<Rightarrow> rstr list" where
  "manifest_lines m =
     [lit ''package manifest:'', lit ''  name:       '' @ mf_name m, lit ''  version:    '' @ mf_version m,
      lit ''  target:     '' @ mf_target m, lit ''  sha256:     '' @ mf_sha256 m, lit ''  created_at: '' @ mf_created_at m]
     @ (if mf_notes m = [] then [] else [lit ''  notes:      '' @ mf_notes m])"

text \<open>\<open>--out\<close> naming a file that ends in \<^verbatim>\<open>.pub\<close> already: the public key is written over the private one.\<close>

lemma keygen_overwrites_private_key:
  assumes "with_extension path (lit ''pub'') = path" and "keygen V can_write key (Some path) fs = (Inr public, fs1)"
  shows "fs1 path = Some (text_bytes (public @ [10]))"
  using assms by (auto simp: keygen_def Let_def split: if_splits)

lemma keygen_pub_file: "with_extension (lit ''release.pub'') (lit ''pub'') = lit ''release.pub''"
  by (simp add: with_extension_def path_file_name_def split_path_def Let_def)

lemma trim_newline: "trim (s @ [10]) = trim s"
proof (cases "\<forall>c \<in> set s. is_ws c")
  case True
  then have "trim (s @ [10]) = []" "trim s = []" unfolding trim_Nil_iff by (auto simp: is_ws_def)
  then show ?thesis by simp
next
  case False
  then have "dropWhile is_ws (s @ [10]) = dropWhile is_ws s @ [10]" by (simp add: dropWhile_append)
  moreover have "is_ws 10" by (simp add: is_ws_def)
  ultimately show ?thesis by (simp add: trim_def trim_matches_def trim_start_matches_def trim_end_matches_def)
qed

text \<open>
  C38: the keys that \<open>keygen\<close> writes work. Sign a binary with the key file it wrote and give the public key it printed to a
  server: the package is read back with its manifest and passes verification, provided the file is not one whose name
  ends in \<^verbatim>\<open>.pub\<close>, the target fits and the version is newer than the running one.
\<close>

theorem keygen_sign_verify:
  assumes "hex_ok V" and "ed25519_ok V" and "length key = 32" and "decode (text_bytes (private_hex V key @ [10])) = Some (private_hex V key @ [10])"
    and "keygen V can_write key (Some path) fs = (Inr public, fs1)" and "with_extension path (lit ''pub'') \<noteq> path"
    and "fs1 binary = Some b"
    and "sign_cmd V decode can_write here now path binary version target release_notes out fs1 = (Inr m, fs2)"
    and "json_ok V m"
    and "tar_ok V [(MANIFEST_ENTRY, to_signed_bytes V m),
           (SIG_ENTRY, map of_nat (as_bytes (vn_hex_encode V (vn_sign V key (to_signed_bytes V m))))), (BINARY_ENTRY, b)]"
    and "uc_public_key cfg = Some public" and "unwrap_or target here \<in> {ho_target H, lit ''any''}"
    and "\<not> version_le version (ho_running H)"
  shows "verify_cmd V H cfg out fs2 = Inr m"
proof -
  have hex: "vn_hex_decode V (vn_hex_encode V bs) = Some bs" "trim (vn_hex_encode V bs) = vn_hex_encode V bs" for bs
    using assms(1) by (auto simp: hex_ok_def)
  have public: "public = public_hex V key" and private_file: "fs1 path = Some (text_bytes (private_hex V key @ [10]))"
    using assms(5,6) by (auto simp: keygen_def Let_def split: if_splits)
  have "read_key decode path fs1 = Inr (private_hex V key)"
    using assms(4) private_file by (simp add: read_key_def trim_newline private_hex_def hex)
  moreover have "from_private_hex V (private_hex V key) = Inr key"
    using assms(3) by (simp add: from_private_hex_def private_hex_def hex)
  ultimately obtain archive where s: "sign_package V key here b version target release_notes now = (m, archive)"
    and out: "fs2 out = Some archive"
    using assms(7,8) by (auto simp: sign_cmd_def split: prod.splits if_splits)
  obtain pkg where "from_reader V archive = Inr pkg" "pk_manifest pkg = m" "verify_package V H cfg pkg = Inr ()"
    using signed_package_verifies [OF assms(1-3) s assms(9,10) assms(11) [unfolded public] assms(12,13)] by blast
  then show ?thesis using out by (simp add: verify_cmd_def read_package_def)
qed

theorem keygen_sign_verify_witness:
  "\<exists>public fs1 fs2. keygen demo_vendor (\<lambda>p. True) (replicate 32 5) (Some (lit ''k'')) [lit ''scribe'' \<mapsto> [1, 2]] = (Inr public, fs1) \<and>
     sign_cmd demo_vendor (\<lambda>bs. Some (map unat bs)) (\<lambda>p. True) [] [] (lit ''k'') (lit ''scribe'') (dotted 0 2 0)
       (Some (lit ''any'')) [] (lit ''out'') fs1 = (Inr demo_manifest, fs2) \<and>
     verify_cmd demo_vendor demo_host demo_cfg (lit ''out'') fs2 = Inr demo_manifest"
proof -
  let ?key = "replicate 32 5 :: 8 word list"
  let ?fs1 = "[lit ''scribe'' \<mapsto> [1, 2], lit ''k'' \<mapsto> text_bytes (private_hex demo_vendor ?key @ [10]),
    lit ''k.pub'' \<mapsto> text_bytes (public_hex demo_vendor ?key @ [10])]"
  have pub: "with_extension (lit ''k'') (lit ''pub'') = lit ''k.pub''"
    by (simp add: with_extension_def path_file_name_def split_path_def Let_def)
  have k: "keygen demo_vendor (\<lambda>p. True) ?key (Some (lit ''k'')) [lit ''scribe'' \<mapsto> [1, 2]] = (Inr (public_hex demo_vendor ?key), ?fs1)"
    unfolding keygen_def Let_def option.case pub by simp
  have d: "map unat (text_bytes (private_hex demo_vendor ?key @ [10])) = private_hex demo_vendor ?key @ [10]"
    unfolding text_bytes_def map_map comp_def
    by (rule ascii_bytes) (use letters_ascii in \<open>auto simp: private_hex_def demo_vendor_def\<close>)
  have b: "?fs1 (lit ''scribe'') = Some [1, 2]" by simp
  have priv: "from_private_hex demo_vendor (trim (private_hex demo_vendor ?key @ [10])) = Inr ?key"
    using demo_hex by (simp add: trim_newline from_private_hex_def private_hex_def hex_ok_def)
  have s: "sign_cmd demo_vendor (\<lambda>bs. Some (map unat bs)) (\<lambda>p. True) [] [] (lit ''k'') (lit ''scribe'') (dotted 0 2 0)
       (Some (lit ''any'')) [] (lit ''out'') ?fs1 = (Inr demo_manifest, ?fs1(lit ''out'' \<mapsto> []))"
    using d priv by (simp add: sign_cmd_def read_key_def sign_package_def Let_def demo_vendor_def demo_manifest_def
        write_package_def unwrap_or_def)
  have "ed25519_ok demo_vendor" "json_ok demo_vendor demo_manifest"
    "tar_ok demo_vendor [(MANIFEST_ENTRY, to_signed_bytes demo_vendor demo_manifest),
       (SIG_ENTRY, map of_nat (as_bytes (vn_hex_encode demo_vendor (vn_sign demo_vendor ?key (to_signed_bytes demo_vendor demo_manifest))))),
       (BINARY_ENTRY, [1, 2])]"
    by (simp_all add: ed25519_ok_def json_ok_def tar_ok_def demo_vendor_def to_signed_bytes_def)
  note facts = this
  have "verify_cmd demo_vendor demo_host demo_cfg (lit ''out'') (?fs1(lit ''out'' \<mapsto> [])) = Inr demo_manifest"
    by (rule keygen_sign_verify [OF demo_hex facts(1) _ _ k _ b s facts(2,3)])
      (use d pub demo_newer in \<open>simp_all add: demo_cfg_def public_hex_def demo_vendor_def demo_host_def unwrap_or_def\<close>)
  then show ?thesis using k s by blast
qed

section \<open>Models, stages and verbosity\<close>

definition expected_assets :: "rstr \<Rightarrow> (string \<times> rstr) list" where
  "expected_assets models_dir =
     (let asr_at = path_join models_dir (lit ''asr''); diar_at = path_join models_dir (lit ''diarization'') in
      [(''asr/encoder.onnx'', path_join asr_at (lit ''encoder.onnx'')), (''asr/decoder.onnx'', path_join asr_at (lit ''decoder.onnx'')),
       (''asr/joiner.onnx'', path_join asr_at (lit ''joiner.onnx'')), (''asr/tokens.txt'', path_join asr_at (lit ''tokens.txt'')),
       (''diarization/segmentation.onnx'', path_join diar_at (lit ''segmentation.onnx'')),
       (''diarization/embedding.onnx'', path_join diar_at (lit ''embedding.onnx''))])"

definition asset_mark :: "bool \<Rightarrow> rstr" where
  "asset_mark present = (if present then lit ''[present]'' else lit ''[missing]'')"

definition asset_line :: "model_fs \<Rightarrow> string \<times> rstr \<Rightarrow> rstr" where
  "asset_line F a = lit ''  '' @ pad_right 9 (asset_mark (fs_exists F (snd a))) @ lit '' '' @ pad_right 30 (lit (fst a)) @ lit '' '' @ snd a"

definition readiness :: "bool \<Rightarrow> rstr" where
  "readiness ok = (if ok then lit ''ready'' else lit ''not found (stub engine will be used)'')"

text \<open>What \<open>models list\<close> says of the language model is \<open>llm_lines\<close>, its settings as they are.\<close>

definition models_list ::
  "(rstr list \<Rightarrow> rstr list) \<Rightarrow> (rstr list \<Rightarrow> rstr list) \<Rightarrow> rstr list \<Rightarrow> model_config \<Rightarrow> model_fs \<Rightarrow> rstr list" where
  "models_list arrange by_path llm_lines cfg F =
     [lit ''models_dir: '' @ mc_models_dir cfg, [], lit ''ONNX assets (sherpa-onnx):'']
     @ map (asset_line F) (expected_assets (mc_models_dir cfg))
     @ [[], lit ''  ASR model:         '' @ readiness (discover arrange by_path F (mc_models_dir cfg) \<noteq> None),
        lit ''  Diarization model: '' @ readiness (discover_diarization F (mc_models_dir cfg) \<noteq> None), []] @ llm_lines
     @ [[], lit ''ASR config: model `'' @ mc_model cfg @ lit ''`, diarization '' @
          (if mc_diarization cfg then lit ''true'' else lit ''false'')]"

text \<open>\<open>--stages\<close>, and the stages the worker then runs.\<close>

definition split_stages :: "rstr \<Rightarrow> rstr list" where
  "split_stages csv = filter (\<lambda>s. s \<noteq> []) (map trim (split_all 44 csv))"

lemma split_all_join: "xs \<noteq> [] \<Longrightarrow> \<forall>x \<in> set xs. d \<notin> set x \<Longrightarrow> split_all d (join [d] xs) = xs"
  by (induction "[d]" xs rule: join.induct) (auto simp: split_all_none split_all_append)

lemma kind_spelling: "kind_from_str (kind_as_str k) = Some k" "trim (kind_as_str k) = kind_as_str k" "44 \<notin> set (kind_as_str k)"
    "kind_as_str k \<noteq> []" "\<not> eq_ignore_ascii_case (kind_as_str k) (lit ''all'')"
  by (cases k; simp add: kind_from_str_def text_defs)+

lemma map_filter_kinds: "List.map_filter kind_from_str (map kind_as_str ks) = ks"
  by (induction ks) (simp_all add: List.map_filter_def kind_spelling)

text \<open>A list of stages written on the command line is the list the worker runs.\<close>

lemma stages_roundtrip: "ks \<noteq> [] \<Longrightarrow> effective_stages (split_stages (join [44] (map kind_as_str ks))) = ks"
proof -
  assume ne: "ks \<noteq> []"
  have "split_all 44 (join [44] (map kind_as_str ks)) = map kind_as_str ks"
    by (rule split_all_join) (use ne kind_spelling(3) in auto)
  then have "split_stages (join [44] (map kind_as_str ks)) = map kind_as_str ks"
    using kind_spelling(2,4) by (auto simp: split_stages_def filter_id_conv)
  then show ?thesis using kind_spelling(5) by (simp add: effective_stages_def list_ex_iff map_filter_kinds)
qed

text \<open>A name that is no stage is dropped without a word, and a list of such names leaves a worker that runs nothing.\<close>

lemma misspelt_stage: "effective_stages (split_stages (lit ''transcode, transcibe'')) = [Transcode]"
    "effective_stages (split_stages (lit ''transcibe'')) = []"
  by (simp_all add: effective_stages_def split_stages_def text_defs kind_from_str_def List.map_filter_def)

text \<open>The filter \<open>-v\<close> asks for, unless the environment has one.\<close>

definition apply_verbosity :: "bool \<Rightarrow> nat \<Rightarrow> rstr option" where
  "apply_verbosity rust_log_set verbose =
     (if rust_log_set \<or> verbose = 0 then None
      else Some ((if verbose = 1 then lit ''debug'' else lit ''trace'') @ lit '',sqlx=info,hyper=info''))"

section \<open>Commands\<close>

datatype update_cmd =
    Keygen "rstr option"
  | Sign rstr rstr rstr "rstr option" rstr rstr   \<comment> \<open>key, binary, version, target, notes, out\<close>
  | Verify rstr
  | Apply rstr
  | Rollback
  | UpdateInfo

datatype command =
    Migrate rstr
  | Ingest "rstr option" "int option" bool
  | is_Transcript: Transcript "uuid option"
  | Reindex bool bool
  | Enroll rstr bool
  | Speaker speaker_cmd
  | ModelsList
  | is_ModelsPull: ModelsPull bool bool
  | is_Update: Update update_cmd
  | Doctor

record cli_state =
  cs_db :: db
  cs_files :: files
  cs_models :: model_fs

text \<open>The surroundings of a command; \<open>ce_connect\<close> is the outcome of connecting, \<open>ce_migrate\<close> that of the migrations.\<close>

record cli_env =
  ce_server :: server
  ce_connect :: "error + unit"
  ce_migrate :: "error + rstr"
  ce_segment_id :: uuid
  ce_ingest :: ingest_io
  ce_enroll :: enroll_io
  ce_doctor :: doctor_env
  ce_arrange :: "rstr list \<Rightarrow> rstr list"
  ce_by_path :: "rstr list \<Rightarrow> rstr list"
  ce_llm_lines :: "rstr list"
  ce_model_config :: model_config
  ce_net :: "rstr \<Rightarrow> served"
  ce_http_client :: bool
  ce_new_key :: "8 word list"
  ce_decode :: "8 word list \<Rightarrow> rstr option"
  ce_can_write :: "rstr \<Rightarrow> bool"
  ce_created_at :: rstr

datatype exit_code = Success | Failure

text \<open>How a command ends: by a panic of a stage in an inline run, or with a code and the lines on standard output.\<close>

datatype command_end = CmdPanicked | Ended exit_code "rstr list"

definition ended :: "rstr list cli \<Rightarrow> command_end" where
  "ended r = (case r of Inl _ \<Rightarrow> Ended Failure [] | Inr ls \<Rightarrow> Ended Success ls)"

definition ended_with :: "('a \<Rightarrow> rstr list) \<Rightarrow> 'a cli \<Rightarrow> command_end" where
  "ended_with f r = (case r of Inl _ \<Rightarrow> Ended Failure [] | Inr x \<Rightarrow> Ended Success (f x))"

definition key_lines :: "rstr \<Rightarrow> rstr list" where
  "key_lines public = [[], lit ''# Add to your server config to enable signed self-update:'', lit ''[update]'', lit ''enabled = true'',
     lit ''public_key = '' @ [34] @ public @ [34], lit ''token = '' @ [34] @ lit ''<choose-a-strong-random-token>'' @ [34]]"

definition run_update :: "cli_env \<Rightarrow> update_cmd \<Rightarrow> files \<Rightarrow> command_end \<times> files" where
  "run_update E c fs =
     (let S = ce_server E; V = sv_vendor S; H = sv_host S; cfg = sv_update_cfg S in
      case c of
        Keygen out \<Rightarrow> (case keygen V (ce_can_write E) (ce_new_key E) out fs of (r, fs1) \<Rightarrow> (ended_with key_lines r, fs1))
      | Sign key binary version target release_notes out \<Rightarrow>
          (case sign_cmd V (ce_decode E) (ce_can_write E) (ho_target H) (ce_created_at E) key binary version target release_notes out fs of
             (r, fs1) \<Rightarrow> (ended_with (\<lambda>_. []) r, fs1))
      | Verify path \<Rightarrow>
          (case read_package V fs path of
             Inl e \<Rightarrow> (Ended Failure [], fs)
           | Inr pkg \<Rightarrow>
               (case verify_cmd V H cfg path fs of
                  Inl _ \<Rightarrow> (Ended Failure (manifest_lines (pk_manifest pkg)), fs)
                | Inr m \<Rightarrow> (Ended Success (manifest_lines m @ [[], lit ''OK '' @ [8212] @
                    lit '' signature and checksum valid; installable on this host.'']), fs)))
      | Apply path \<Rightarrow>
          (case apply_cmd V H (sv_installer S) cfg (sv_db_url S) path fs of
             (r, fs1) \<Rightarrow> (ended_with (\<lambda>ou. [lit ''installed '' @ ou_from_version ou @ [32, 8594, 32] @ ou_to_version ou @ lit '' ('' @
                 ou_target ou @ lit '')'', lit ''backup: '' @ ou_backup_path ou]) r, fs1))
      | Rollback \<Rightarrow> (case rollback_cmd H (sv_roller S) cfg fs of
             (r, fs1) \<Rightarrow> (ended_with (\<lambda>v. [lit ''rolled back to '' @ v]) r, fs1))
      | UpdateInfo \<Rightarrow> (Ended Success (info_lines H (upd_enabled (sv_update S)) cfg fs), fs))"

definition run_on_db :: "cli_env \<Rightarrow> command \<Rightarrow> db \<Rightarrow> command_end \<times> db" where
  "run_on_db E c d =
     (let S = ce_server E; A = sv_app S; W = sv_world S; now = sv_now S 0; by_name = st_by_name A in
      case c of
        Ingest title participants inline \<Rightarrow>
          (case ingest_file W (run_stage W (st_config A) now) now (sv_new_id S) (ce_segment_id E) (ce_ingest E) title participants inline d of
             (None, d') \<Rightarrow> (CmdPanicked, d')
           | (Some (Inl e), d') \<Rightarrow> (Ended Failure [], d')
           | (Some (Inr i), d') \<Rightarrow> (Ended Success [uuid_str W i], d'))
      | Transcript which \<Rightarrow> (ended (print_transcript (st_tie A) which d), d)
      | Reindex do_embeddings do_summaries \<Rightarrow>
          (let both = \<not> do_embeddings \<and> \<not> do_summaries in
           case reindex now (both \<or> do_embeddings) (both \<or> do_summaries) d of
             (Inl e, d') \<Rightarrow> (Ended Failure [], d') | (Inr _, d') \<Rightarrow> (Ended Success [], d'))
      | Enroll name replace_voice \<Rightarrow>
          (case enroll by_name (ce_enroll E) (sv_new_id S) now name replace_voice d of
             (Inl e, d') \<Rightarrow> (Ended Failure [], d') | (Inr i, d') \<Rightarrow> (Ended Success [uuid_str W i], d'))
      | Speaker cmd \<Rightarrow> (case run_speaker (uuid_str W) by_name cmd d of (r, d') \<Rightarrow> (ended r, d'))
      | _ \<Rightarrow> (Ended Success [], d))"

definition run_command :: "cli_env \<Rightarrow> command \<Rightarrow> cli_state \<Rightarrow> command_end \<times> cli_state" where
  "run_command E c s =
     (case c of
        Migrate target \<Rightarrow>
          if \<not> eq_ignore_ascii_case target (lit ''latest'') then (Ended Failure [], s)
          else (case ce_connect E of
                  Inl e \<Rightarrow> (Ended Failure [], s)
                | Inr _ \<Rightarrow> (case ce_migrate E of Inl e \<Rightarrow> (Ended Failure [], s) | Inr line \<Rightarrow> (Ended Success [line], s)))
      | ModelsList \<Rightarrow> (Ended Success (models_list (ce_arrange E) (ce_by_path E) (ce_llm_lines E) (ce_model_config E) (cs_models s)), s)
      | ModelsPull force dry_run \<Rightarrow>
          (case pull (ce_arrange E) (ce_by_path E) (ce_net E) (ce_http_client E) (ce_model_config E) force dry_run (cs_models s) of
             (ok, F) \<Rightarrow> (Ended (if ok then Success else Failure) [], s\<lparr>cs_models := F\<rparr>))
      | Update u \<Rightarrow> (case run_update E u (cs_files s) of (r, fs) \<Rightarrow> (r, s\<lparr>cs_files := fs\<rparr>))
      | Doctor \<Rightarrow> (case doctor (ce_arrange E) (ce_by_path E) (ce_doctor E) of
                      (ls, ok) \<Rightarrow> (Ended (if ok then Success else Failure) ls, s))
      | _ \<Rightarrow> (case ce_connect E of
                Inl e \<Rightarrow> (Ended Failure [], s)
              | Inr _ \<Rightarrow> (case run_on_db E c (cs_db s) of (r, d) \<Rightarrow> (r, s\<lparr>cs_db := d\<rparr>))))"

lemma goes_reindex: "reindex now e s d = (x, d') \<Longrightarrow> goes wc d d'"
  unfolding goes_def using reindex_steps by blast

lemma goes_enroll: "goes wc d (snd (enroll by_name io i now name r d))"
  unfolding enroll_def by (auto split: sum.split option.split intro: goes_edits)

lemma goes_run_on_db: "goes wc d (snd (run_on_db E c d))"
proof (cases c)
  case (Ingest title participants inline)
  let ?S = "ce_server E"
  show ?thesis
    using goes_ingest [of wc d "sv_world ?S" "st_config (sv_app ?S)" "sv_now ?S 0" "sv_new_id ?S" "ce_segment_id E"
        "ce_ingest E" title participants inline]
    by (auto simp: Ingest run_on_db_def Let_def split: prod.split option.split sum.split)
next
  case (Reindex x y)
  show ?thesis using goes_reindex by (auto simp: Reindex run_on_db_def Let_def split: prod.split sum.split)
next
  case (Enroll name r)
  let ?S = "ce_server E"
  show ?thesis
    using goes_enroll [of wc d "st_by_name (sv_app ?S)" "ce_enroll E" "sv_new_id ?S" "sv_now ?S 0" name r]
    by (auto simp: Enroll run_on_db_def Let_def split: prod.split sum.split)
next
  case (Speaker cmd)
  let ?S = "ce_server E"
  show ?thesis using goes_run_speaker [of wc d "uuid_str (sv_world ?S)" "st_by_name (sv_app ?S)" cmd]
    by (auto simp: Speaker run_on_db_def Let_def split: prod.split)
qed (simp_all add: run_on_db_def Let_def)

lemma goes_run_command: "goes wc (cs_db s) (cs_db (snd (run_command E c s)))"
proof -
  have "goes wc (cs_db s) (cs_db (snd (case run_on_db E c (cs_db s) of (r, d) \<Rightarrow> (r, s\<lparr>cs_db := d\<rparr>))))"
    using goes_run_on_db [of wc "cs_db s" E c] by (auto split: prod.split)
  then show ?thesis by (cases c) (simp_all add: run_command_def split: sum.split prod.split)
qed

fun run_commands :: "(cli_env \<times> command) list \<Rightarrow> cli_state \<Rightarrow> cli_state" where
  "run_commands [] s = s"
| "run_commands ((E, c) # cs) s = run_commands cs (snd (run_command E c s))"

text \<open>
  C17: no command an operator can run breaks the queue. Whatever sequence of ingests - inline or not, failing or panicking
  half-way -, reindexings, enrolments, renames, merges and the rest is run beside a working server: from any reachable
  state it ends in a reachable state, and commands about models, keys, packages and the preflight checks leave the
  tables alone.
\<close>

theorem commands_safe:
  assumes "reach sys_init (sys_step wc) (cs_db s, A)"
  shows "reach sys_init (sys_step wc) (cs_db (run_commands cs s), A) \<and>
    (list_all (\<lambda>(E, c). is_Update c \<or> is_ModelsPull c \<or> c = ModelsList \<or> c = Doctor \<or> is_Transcript c) cs \<longrightarrow> cs_db (run_commands cs s) = cs_db s)"
proof
  have "goes wc (cs_db s) (cs_db (run_commands cs s))"
  proof (induction cs s rule: run_commands.induct)
    case (2 E c cs s)
    then show ?case using goes_trans [OF goes_run_command] by simp
  qed simp
  then show "reach sys_init (sys_step wc) (cs_db (run_commands cs s), A)"
    using reach_steps [OF _ assms] by (simp add: goes_def)
  have "cs_db (snd (run_command E c s)) = cs_db s"
    if "is_Update c \<or> is_ModelsPull c \<or> c = ModelsList \<or> c = Doctor \<or> is_Transcript c" for E c s
    using that by (cases c) (auto simp: run_command_def run_on_db_def Let_def split: prod.split sum.split)
  then show "list_all (\<lambda>(E, c). is_Update c \<or> is_ModelsPull c \<or> c = ModelsList \<or> c = Doctor \<or> is_Transcript c) cs \<longrightarrow>
      cs_db (run_commands cs s) = cs_db s"
    by (induction cs s rule: run_commands.induct) auto
qed

theorem commands_safe_witness:
  "\<forall>E. reach sys_init (sys_step demo_wc) (cs_db (run_commands [(E, Reindex True False), (E, Speaker (DeleteSpeaker 1))]
      \<lparr>cs_db = demo_db, cs_files = (\<lambda>p. None), cs_models = bare_fs\<rparr>), [])"
  by (intro allI, rule commands_safe [THEN conjunct1]) (simp add: demo_reach)

end
