(* ===== verification/Scribe_Score.thy ===== *)
theory Scribe_Score
  imports Scribe_Cli
begin

text \<open>
  The programs that score the pipeline against a known truth and decide whether a change may stay:
  \<open>crates/scribe-pipeline/examples/transcript_check.rs\<close> (words and who is credited with them), \<open>enroll_check.rs\<close> (whether
  a name sticks to a voice) and \<open>crates/scribe-asr/examples/diarize_check.rs\<close> (frames of 10 ms).

  A score is only worth something when the measure is right: the word error rate is shown to count the fewest edits,
  the naming of clusters to be one to one and greedy, and the counts to add up without a subtraction below zero.
  Percentages are rationals here and \<open>f64\<close> in the code; what is printed is left out.
\<close>

section \<open>The word error rate\<close>

text \<open>
  One round of the outer loop: \<open>prev\<close> from the column before, \<open>left\<close> the value just written into \<open>cur\<close>.
\<close>

fun edit_cells :: "'a \<Rightarrow> 'a list \<Rightarrow> nat list \<Rightarrow> nat \<Rightarrow> nat list" where
  "edit_cells x (y # ys) (diag # up # prev) left =
     (let cost = (if x \<noteq> y then 1 else 0); c = min (min (up + 1) (left + 1)) (diag + cost)
      in c # edit_cells x ys (up # prev) c)"
| "edit_cells x _ _ left = []"

fun edit_rows :: "nat \<Rightarrow> 'a list \<Rightarrow> 'a list \<Rightarrow> nat list \<Rightarrow> nat list" where
  "edit_rows i [] b prev = prev"
| "edit_rows i (x # xs) b prev = edit_rows (i + 1) xs b (i # edit_cells x b prev i)"

definition edit_distance :: "'a list \<Rightarrow> 'a list \<Rightarrow> nat" where
  "edit_distance a b = edit_rows 1 a b [0..<length b + 1] ! length b"

text \<open>The reference: a script of edits that turns one sequence of words into another.\<close>

datatype 'a edit = Keep | Substitute 'a | Insert 'a | Delete

fun run_edits :: "'a edit list \<Rightarrow> 'a list \<Rightarrow> 'a list option" where
  "run_edits [] [] = Some []"
| "run_edits (Keep # es) (x # xs) = map_option (Cons x) (run_edits es xs)"
| "run_edits (Substitute y # es) (x # xs) = map_option (Cons y) (run_edits es xs)"
| "run_edits (Insert y # es) xs = map_option (Cons y) (run_edits es xs)"
| "run_edits (Delete # es) (x # xs) = run_edits es xs"
| "run_edits _ _ = None"

definition edit_count :: "'a edit list \<Rightarrow> nat" where
  "edit_count es = length (filter (\<lambda>e. e \<noteq> Keep) es)"

lemma edit_count_simps [simp]:
  "edit_count [] = 0" "edit_count (Keep # es) = edit_count es" "edit_count (Substitute y # es) = Suc (edit_count es)"
  "edit_count (Insert y # es) = Suc (edit_count es)" "edit_count (Delete # es) = Suc (edit_count es)"
  "edit_count (rev es) = edit_count es" "edit_count (es @ es') = edit_count es + edit_count es'"
  by (simp_all add: edit_count_def flip: rev_filter)

text \<open>The distance by recursion on the first words.\<close>

fun fewest :: "'a list \<Rightarrow> 'a list \<Rightarrow> nat" where
  "fewest [] ys = length ys"
| "fewest xs [] = length xs"
| "fewest (x # xs) (y # ys) =
     min (min (fewest xs (y # ys) + 1) (fewest (x # xs) ys + 1)) (fewest xs ys + (if x \<noteq> y then 1 else 0))"

lemma fewest_Nil2 [simp]: "fewest xs [] = length xs"
  by (cases xs) simp_all

lemma fewest_Cons1: "fewest (x # xs) ys \<le> Suc (fewest xs ys)"
  by (cases ys) simp_all

lemma fewest_Cons2: "fewest xs (y # ys) \<le> Suc (fewest xs ys)"
  by (cases xs) simp_all

lemma fewest_Cons_Cons: "fewest (x # xs) (y # ys) \<le> fewest xs ys + (if x \<noteq> y then 1 else 0)"
  by simp

lemma fewest_le: "run_edits es xs = Some ys \<Longrightarrow> fewest xs ys \<le> edit_count es"
proof (induction es xs arbitrary: ys rule: run_edits.induct)
  case (2 es x xs)
  then obtain zs where "run_edits es xs = Some zs" "ys = x # zs" by auto
  with 2 fewest_Cons_Cons [of x xs x zs] show ?case by simp
next
  case (3 y es x xs)
  then obtain zs where "run_edits es xs = Some zs" "ys = y # zs" by auto
  with 3 fewest_Cons_Cons [of x xs y zs] show ?case by (auto split: if_splits dest!: "3.IH")
next
  case (4 y es xs)
  then obtain zs where "run_edits es xs = Some zs" "ys = y # zs" by auto
  with 4 fewest_Cons2 [of xs y zs] show ?case by (auto dest!: "4.IH")
next
  case (5 es x xs)
  with fewest_Cons1 [of x xs ys] show ?case by force
qed auto

lemma run_inserts: "run_edits (map Insert ys) [] = Some ys"
  by (induction ys) simp_all

lemma run_deletes: "run_edits (replicate (length xs) Delete) xs = Some []"
  by (induction xs) simp_all

lemma fewest_reached: "\<exists>es. run_edits es xs = Some ys \<and> edit_count es = fewest xs ys"
proof (induction xs ys rule: fewest.induct)
  case (1 ys)
  have "edit_count (map Insert ys) = length ys" by (induction ys) simp_all
  then show ?case using run_inserts by fastforce
next
  case (2 x xs)
  have "edit_count (replicate n Delete) = n" for n by (induction n) simp_all
  then show ?case using run_deletes [of "x # xs"] by (metis fewest_Nil2)
next
  case (3 x xs y ys)
  obtain e1 where e1: "run_edits e1 xs = Some (y # ys)" "edit_count e1 = fewest xs (y # ys)" using "3.IH"(1) by blast
  obtain e2 where e2: "run_edits e2 (x # xs) = Some ys" "edit_count e2 = fewest (x # xs) ys" using "3.IH"(2) by blast
  obtain e3 where e3: "run_edits e3 xs = Some ys" "edit_count e3 = fewest xs ys" using "3.IH"(3) by blast
  have s1: "run_edits (Delete # e1) (x # xs) = Some (y # ys)" and s2: "run_edits (Insert y # e2) (x # xs) = Some (y # ys)"
    using e1 e2 by simp_all
  have s3: "run_edits ((if x \<noteq> y then Substitute y else Keep) # e3) (x # xs) = Some (y # ys)" using e3 by simp
  have c3: "edit_count ((if x \<noteq> y then Substitute y else Keep) # e3) = fewest xs ys + (if x \<noteq> y then 1 else 0)"
    using e3 by simp
  have "fewest (x # xs) (y # ys) = edit_count (Delete # e1) \<or> fewest (x # xs) (y # ys) = edit_count (Insert y # e2) \<or>
      fewest (x # xs) (y # ys) = edit_count ((if x \<noteq> y then Substitute y else Keep) # e3)"
    unfolding c3 using e1(2) e2(2) by (simp add: min_def)
  then show ?case using s1 s2 s3 by metis
qed

text \<open>A script read backwards edits the sequence read backwards.\<close>

lemma run_edits_append:
  "run_edits es xs = Some ys \<Longrightarrow> run_edits es' xs' = Some ys' \<Longrightarrow> run_edits (es @ es') (xs @ xs') = Some (ys @ ys')"
  by (induction es xs arbitrary: ys rule: run_edits.induct) auto

lemma run_edits_rev: "run_edits es xs = Some ys \<Longrightarrow> run_edits (rev es) (rev xs) = Some (rev ys)"
proof (induction es xs arbitrary: ys rule: run_edits.induct)
  case (2 es x xs)
  then show ?case using run_edits_append [where es' = "[Keep]" and xs' = "[x]" and ys' = "[x]"] by fastforce
next
  case (3 y es x xs)
  then show ?case using run_edits_append [where es' = "[Substitute y]" and xs' = "[x]" and ys' = "[y]"] by fastforce
next
  case (4 y es xs)
  then show ?case using run_edits_append [where es' = "[Insert y]" and xs' = "[]" and ys' = "[y]"] by fastforce
next
  case (5 es x xs)
  then show ?case using run_edits_append [where es' = "[Delete]" and xs' = "[x]" and ys' = "[]"] by fastforce
qed auto

lemma fewest_rev: "fewest (rev xs) (rev ys) = fewest xs ys"
proof -
  have le: "fewest (rev xs) (rev ys) \<le> fewest xs ys" for xs ys :: "'a list"
    using fewest_reached [of xs ys] run_edits_rev fewest_le edit_count_simps(6) by metis
  show ?thesis using le [of xs ys] le [of "rev xs" "rev ys"] by simp
qed

text \<open>The row of the table for the reversed prefix \<open>u\<close>: its distances to the growing reversed prefixes of \<open>ys\<close>.\<close>

fun columns :: "('a list \<Rightarrow> nat) \<Rightarrow> 'a list \<Rightarrow> 'a list \<Rightarrow> nat list" where
  "columns f [] v = [f v]"
| "columns f (y # ys) v = f v # columns f ys (y # v)"

lemma columns_hd: "columns f ys v = f v # tl (columns f ys v)"
  by (cases ys) simp_all

lemma columns_last: "columns f ys v ! length ys = f (rev ys @ v)"
  by (induction ys arbitrary: v) simp_all

lemma columns_length: "columns length ys v = [length v..<Suc (length v + length ys)]"
  by (induction ys arbitrary: v) (simp_all add: upt_conv_Cons del: upt_Suc)

lemma edit_cells_columns:
  "edit_cells x ys (columns (fewest u) ys v) (fewest (x # u) v) = tl (columns (fewest (x # u)) ys v)"
proof (induction ys arbitrary: v)
  case (Cons y ys)
  obtain r where r: "columns (fewest u) ys (y # v) = fewest u (y # v) # r" using columns_hd by blast
  have "edit_cells x (y # ys) (columns (fewest u) (y # ys) v) (fewest (x # u) v) =
      fewest (x # u) (y # v) # edit_cells x ys (columns (fewest u) ys (y # v)) (fewest (x # u) (y # v))"
    unfolding r columns.simps(2) edit_cells.simps(1) Let_def fewest.simps(3) by (rule refl)
  also have "\<dots> = columns (fewest (x # u)) ys (y # v)" unfolding Cons.IH by (rule columns_hd [symmetric])
  finally show ?case by simp
qed simp

lemma edit_rows_columns:
  "edit_rows (length u + 1) xs b (columns (fewest u) b []) = columns (fewest (rev xs @ u)) b []"
proof (induction xs arbitrary: u)
  case (Cons x xs)
  have "edit_cells x b (columns (fewest u) b []) (length u + 1) = tl (columns (fewest (x # u)) b [])"
    using edit_cells_columns [of x b u "[]"] by simp
  then have "(length u + 1) # edit_cells x b (columns (fewest u) b []) (length u + 1) = columns (fewest (x # u)) b []"
    using columns_hd [of "fewest (x # u)" b "[]"] by simp
  then show ?case using Cons.IH [of "x # u"] by simp
qed simp

lemma edit_distance_fewest: "edit_distance a b = fewest a b"
proof -
  have "fewest [] = (length :: 'a list \<Rightarrow> nat)" by (rule ext) simp
  then have "[0..<length b + 1] = columns (fewest []) b []" using columns_length [of b "[]"] by simp
  then have "edit_distance a b = fewest (rev a) (rev b)"
    using edit_rows_columns [of "[]" a b] columns_last [of "fewest (rev a)" b "[]"] by (simp add: edit_distance_def)
  then show ?thesis by (simp add: fewest_rev)
qed

text \<open>Two scripts in a row make one that is no longer.\<close>

fun compose_edits :: "'a edit list \<Rightarrow> 'a edit list \<Rightarrow> 'a edit list" where
  "compose_edits (Delete # es) fs = Delete # compose_edits es fs"
| "compose_edits es (Insert z # fs) = Insert z # compose_edits es fs"
| "compose_edits (Insert y # es) (Keep # fs) = Insert y # compose_edits es fs"
| "compose_edits (Insert y # es) (Substitute z # fs) = Insert z # compose_edits es fs"
| "compose_edits (Insert y # es) (Delete # fs) = compose_edits es fs"
| "compose_edits (Keep # es) (f # fs) = f # compose_edits es fs"
| "compose_edits (Substitute y # es) (Keep # fs) = Substitute y # compose_edits es fs"
| "compose_edits (Substitute y # es) (f # fs) = f # compose_edits es fs"
| "compose_edits es fs = es @ fs"

lemma run_edits_iff:
  "run_edits [] xs = Some ys \<longleftrightarrow> xs = [] \<and> ys = []"
  "run_edits (Keep # es) xs = Some ys \<longleftrightarrow> (\<exists>x xs' ys'. xs = x # xs' \<and> ys = x # ys' \<and> run_edits es xs' = Some ys')"
  "run_edits (Substitute y # es) xs = Some ys \<longleftrightarrow> (\<exists>x xs' ys'. xs = x # xs' \<and> ys = y # ys' \<and> run_edits es xs' = Some ys')"
  "run_edits (Insert y # es) xs = Some ys \<longleftrightarrow> (\<exists>ys'. ys = y # ys' \<and> run_edits es xs = Some ys')"
  "run_edits (Delete # es) xs = Some ys \<longleftrightarrow> (\<exists>x xs'. xs = x # xs' \<and> run_edits es xs' = Some ys)"
  by (cases xs; auto)+

lemma compose_count: "edit_count (compose_edits es fs) \<le> edit_count es + edit_count fs"
  by (induction es fs rule: compose_edits.induct) (simp_all add: edit_count_def)

lemma run_compose:
  "run_edits es xs = Some ys \<Longrightarrow> run_edits fs ys = Some zs \<Longrightarrow> run_edits (compose_edits es fs) xs = Some zs"
  by (induction es fs arbitrary: xs ys zs rule: compose_edits.induct)
     (simp_all add: run_edits_iff del: run_edits.simps, (elim exE conjE; simp; blast)+)

lemma fewest_triangle: "fewest xs zs \<le> fewest xs ys + fewest ys zs"
proof -
  obtain es fs where "run_edits es xs = Some ys" "edit_count es = fewest xs ys" "run_edits fs ys = Some zs"
    "edit_count fs = fewest ys zs"
    using fewest_reached by metis
  then show ?thesis using fewest_le [OF run_compose] compose_count [of es fs] by (metis order_trans)
qed

lemma fewest_sym: "fewest xs ys = fewest ys xs"
  by (induction xs ys rule: fewest.induct) (auto simp: min.commute min.left_commute)

lemma fewest_0_iff: "fewest xs ys = 0 \<longleftrightarrow> xs = ys"
  by (induction xs ys rule: fewest.induct) (auto simp: min_def)

lemma fewest_max: "fewest xs ys \<le> max (length xs) (length ys)"
  by (induction xs ys rule: fewest.induct) (auto simp: min_def max_def split: if_splits)

text \<open>
  C40: The numerator of the word error rate is the least number of substitutions, insertions and deletions that turn what
  was spoken into what was heard: some script of so many edits does it, no script does with fewer. It is 0 only for
  the same words, the order of the two does not matter, and a detour over a third text is never shorter.
\<close>

theorem edit_distance_least:
  "(\<exists>es. run_edits es a = Some b \<and> edit_count es = edit_distance a b) \<and>
   (\<forall>es. run_edits es a = Some b \<longrightarrow> edit_distance a b \<le> edit_count es) \<and>
   (edit_distance a b = 0 \<longleftrightarrow> a = b) \<and> edit_distance a b = edit_distance b a \<and>
   edit_distance a b \<le> edit_distance a c + edit_distance c b \<and> edit_distance a b \<le> max (length a) (length b)"
  unfolding edit_distance_fewest
proof (intro conjI allI impI)
  show "\<exists>es. run_edits es a = Some b \<and> edit_count es = fewest a b" by (rule fewest_reached)
  show "fewest a b \<le> edit_count es" if "run_edits es a = Some b" for es using that by (rule fewest_le)
  show "fewest a b = fewest b a" by (rule fewest_sym)
qed (rule fewest_0_iff fewest_triangle fewest_max)+

theorem edit_distance_least_witness:
  "edit_distance [1, 2, 3 :: nat] [2, 3, 4] = 2 \<and> edit_distance [1, 2, 3 :: nat] [2, 3, 4] \<le> edit_count [Delete, Keep, Keep, Insert (4 :: nat)]"
proof
  have "run_edits [Delete, Keep, Keep, Insert 4] [1, 2, 3 :: nat] = Some [2, 3, 4]" by simp
  then show "edit_distance [1, 2, 3 :: nat] [2, 3, 4] \<le> edit_count [Delete, Keep, Keep, Insert (4 :: nat)]"
    using edit_distance_least [of "[1, 2, 3 :: nat]" "[2, 3, 4]"] by blast
qed (simp add: edit_distance_def)

section \<open>Which cluster is which person\<close>

text \<open>\<open>*entry(k).or_insert(0) += n\<close> on a hash map, kept in the order of first insertion.\<close>

fun bump :: "'k \<Rightarrow> 'n :: monoid_add \<Rightarrow> ('k \<times> 'n) list \<Rightarrow> ('k \<times> 'n) list" where
  "bump k n [] = [(k, n)]"
| "bump k n ((k', m) # r) = (if k = k' then (k', m + n) # r else (k', m) # bump k n r)"

text \<open>The pairs from the most to the least shared, each taken when neither its cluster nor its name is spoken for.\<close>

fun pair_off :: "(('a \<times> int) \<times> 'n) list \<Rightarrow> (int \<times> 'a) list \<Rightarrow> 'a list \<Rightarrow> (int \<times> 'a) list" where
  "pair_off [] given taken = given"
| "pair_off (((name, idx), _) # ps) given taken =
     (if idx \<in> fst ` set given \<or> name \<in> set taken then pair_off ps given taken
      else pair_off ps (given @ [(idx, name)]) (name # taken))"

text \<open>\<open>arrange\<close> is the order in which the hash map gives its entries up.\<close>

definition name_clusters ::
  "((('a \<times> int) \<times> 'n :: linorder) list \<Rightarrow> (('a \<times> int) \<times> 'n) list) \<Rightarrow> (('a \<times> int) \<times> 'n) list \<Rightarrow> (int \<times> 'a) list" where
  "name_clusters arrange pairs = pair_off (sort_by (\<lambda>a b. snd a < snd b) (arrange pairs)) [] []"

lemma sorted_insort_by:
  "sorted_wrt (\<lambda>a b. key b \<le> key a) ys \<Longrightarrow> sorted_wrt (\<lambda>a b. key b \<le> key a) (insort_by (\<lambda>a b. key a < (key b :: 'n :: linorder)) x ys)"
  by (induction ys) (auto simp: set_insort_by intro: less_imp_le order_trans)

lemma sorted_sort_by: "sorted_wrt (\<lambda>a b. (key b :: 'n :: linorder) \<le> key a) (sort_by (\<lambda>a b. key a < key b) xs)"
  unfolding sort_by_def by (induction xs) (auto intro: sorted_insort_by)

lemma pair_off_keeps: "set given \<subseteq> set (pair_off ps given taken)"
  by (induction ps given taken rule: pair_off.induct) auto

lemma pair_off_one_to_one:
  "distinct (map fst given) \<Longrightarrow> distinct (map snd given) \<Longrightarrow> snd ` set given \<subseteq> set taken \<Longrightarrow>
     distinct (map fst (pair_off ps given taken)) \<and> distinct (map snd (pair_off ps given taken))"
  by (induction ps given taken rule: pair_off.induct) auto

lemma pair_off_from:
  "(idx, name) \<in> set (pair_off ps given taken) \<Longrightarrow> (idx, name) \<in> set given \<or> (name, idx) \<in> fst ` set ps"
  by (induction ps given taken rule: pair_off.induct) (force split: if_splits)+

text \<open>A pair that is not taken gave way to one at least as common that has its cluster or its name.\<close>

lemma pair_off_gives_way:
  assumes "sorted_wrt (\<lambda>a b. (snd b :: 'n :: linorder) \<le> snd a) ps" and "set taken = snd ` set given"
    and "\<And>i n. (i, n) \<in> set given \<Longrightarrow> \<exists>c. ((n, i), c) \<in> Q \<and> (\<forall>p \<in> set ps. snd p \<le> c)"
    and "p \<in> set ps"
  shows "\<exists>i n c. (i, n) \<in> set (pair_off ps given taken) \<and> ((n, i), c) \<in> Q \<union> set ps \<and> snd p \<le> c \<and> (n = fst (fst p) \<or> i = snd (fst p))"
  using assms
proof (induction ps given taken arbitrary: Q rule: pair_off.induct)
  case (2 name idx c ps given taken)
  let ?p = "((name, idx), c)"
  show ?case
  proof (cases "idx \<in> fst ` set given \<or> name \<in> set taken")
    case True
    show ?thesis
    proof (cases "p = ?p")
      case peq: True
      from True obtain i n where in_: "(i, n) \<in> set given" "n = name \<or> i = idx" using "2.prems"(2) by force
      then obtain c' where "((n, i), c') \<in> Q" "c \<le> c'" using "2.prems"(3) by fastforce
      moreover have "(i, n) \<in> set (pair_off (?p # ps) given taken)" using in_(1) pair_off_keeps by blast
      ultimately show ?thesis using in_(2) unfolding peq by - (intro exI [of _ i] exI [of _ n] exI [of _ c'], simp)
    next
      case False
      then have "p \<in> set ps" using "2.prems"(4) by simp
      moreover have "\<exists>c. ((n, i), c) \<in> Q \<and> (\<forall>p \<in> set ps. snd p \<le> c)" if "(i, n) \<in> set given" for i n
        using "2.prems"(3) [OF that] by auto
      moreover have "sorted_wrt (\<lambda>a b. snd b \<le> snd a) ps" using "2.prems"(1) by simp
      ultimately have
        "\<exists>i n c. (i, n) \<in> set (pair_off ps given taken) \<and> ((n, i), c) \<in> Q \<union> set ps \<and> snd p \<le> c \<and> (n = fst (fst p) \<or> i = snd (fst p))"
        using "2.IH"(1) [OF True _ "2.prems"(2)] by blast
      then show ?thesis using True by auto
    qed
  next
    case False
    have sub: "\<exists>c. ((n, i), c) \<in> insert ?p Q \<and> (\<forall>p \<in> set ps. snd p \<le> c)" if "(i, n) \<in> set (given @ [(idx, name)])" for i n
      using that "2.prems"(1,3) by fastforce
    show ?thesis
    proof (cases "p = ?p")
      case True
      have "(idx, name) \<in> set (pair_off (?p # ps) given taken)"
        using False pair_off_keeps [of "given @ [(idx, name)]"] by auto
      then show ?thesis unfolding True by - (intro exI [of _ idx] exI [of _ name] exI [of _ c], simp)
    next
      case pne: False
      then have "p \<in> set ps" using "2.prems"(4) by simp
      with "2.IH"(2) [OF False, of "insert ?p Q"] "2.prems" sub have
        "\<exists>i n c. (i, n) \<in> set (pair_off ps (given @ [(idx, name)]) (name # taken)) \<and> ((n, i), c) \<in> insert ?p Q \<union> set ps \<and>
           snd p \<le> c \<and> (n = fst (fst p) \<or> i = snd (fst p))" by simp
      then show ?thesis using False by auto
    qed
  qed
qed simp

lemma naming_one_to_one:
  "distinct (map fst (name_clusters arrange pairs))" "distinct (map snd (name_clusters arrange pairs))"
  by (simp_all add: name_clusters_def pair_off_one_to_one)

lemma naming_greedy:
  assumes "set (arrange pairs) = set pairs" and "p \<in> set pairs"
  shows "\<exists>i n c. (i, n) \<in> set (name_clusters arrange pairs) \<and> ((n, i), c) \<in> set pairs \<and> snd p \<le> c \<and>
    (n = fst (fst p) \<or> i = snd (fst p))"
  using pair_off_gives_way [of "sort_by (\<lambda>a b. snd a < snd b) (arrange pairs)" "[]" "[]" "{}" p] assms
  by (simp add: name_clusters_def sorted_sort_by)

lemma naming_from:
  assumes "set (arrange pairs) = set pairs" and "(i, n) \<in> set (name_clusters arrange pairs)"
  shows "(n, i) \<in> fst ` set pairs"
  using pair_off_from [of i n _ "[]" "[]"] assms unfolding name_clusters_def by fastforce

text \<open>Pairs that are equally common are taken in the order the hash map happens to have, and the naming depends on it.\<close>

lemma ties_named_by_chance:
  "name_clusters id [((''Ann'', 0), 3 :: nat), ((''Bob'', 0), 3)] = [(0, ''Ann'')]"
  "name_clusters rev [((''Ann'', 0), 3 :: nat), ((''Bob'', 0), 3)] = [(0, ''Bob'')]"
  by (simp_all add: name_clusters_def sort_by_def)

section \<open>Scoring a transcript\<close>

record truth_turn =
  tt_speaker :: rstr
  tt_start_ms :: int
  tt_end_ms :: int
  tt_text :: rstr

definition normalise :: "(codepoint \<Rightarrow> bool) \<Rightarrow> (rstr \<Rightarrow> rstr) \<Rightarrow> rstr \<Rightarrow> rstr list" where
  "normalise alnum lower s =
     filter (\<lambda>w. w \<noteq> []) (map (\<lambda>w. lower (filter (\<lambda>c. alnum c \<or> c = 39) w)) (split_whitespace s))"

definition truth_at :: "truth_turn list \<Rightarrow> int \<Rightarrow> rstr list" where
  "truth_at turns ms = map tt_speaker (filter (\<lambda>t. ms \<ge> tt_start_ms t \<and> ms \<le> tt_end_ms t) turns)"

definition mid_word :: "word_rec \<Rightarrow> int" where
  "mid_word w = trunc_div (w_start_ms w + w_end_ms w) 2"

text \<open>Only the words nobody talked over count for the naming.\<close>

definition pair_word :: "truth_turn list \<Rightarrow> word_rec \<Rightarrow> ((rstr \<times> int) \<times> nat) list \<Rightarrow> ((rstr \<times> int) \<times> nat) list" where
  "pair_word turns w pairs =
     (case (truth_at turns (mid_word w), w_local_idx w) of
        ([who], Some idx) \<Rightarrow> bump (who, idx) 1 pairs
      | _ \<Rightarrow> pairs)"

definition word_pairs :: "truth_turn list \<Rightarrow> word_rec list \<Rightarrow> ((rstr \<times> int) \<times> nat) list" where
  "word_pairs turns ws = fold (pair_word turns) ws []"

record tally =
  ty_scored :: nat
  ty_correct :: nat
  ty_unlabelled :: nat
  ty_contested :: nat
  ty_contested_ok :: nat

definition no_words :: tally where
  "no_words = \<lparr>ty_scored = 0, ty_correct = 0, ty_unlabelled = 0, ty_contested = 0, ty_contested_ok = 0\<rparr>"

definition score_word :: "truth_turn list \<Rightarrow> (int \<times> rstr) list \<Rightarrow> word_rec \<Rightarrow> tally \<Rightarrow> tally" where
  "score_word turns named_as w t =
     (let who = truth_at turns (mid_word w) in
      if who = [] then t
      else let overlapped = length who > 1;
               t = t\<lparr>ty_scored := ty_scored t + 1\<rparr>;
               t = (if overlapped then t\<lparr>ty_contested := ty_contested t + 1\<rparr> else t)
           in case w_local_idx w of
                None \<Rightarrow> t\<lparr>ty_unlabelled := ty_unlabelled t + 1\<rparr>
              | Some idx \<Rightarrow>
                  if is_some_and (map_of named_as idx) (\<lambda>name. name \<in> set who)
                  then (let t = t\<lparr>ty_correct := ty_correct t + 1\<rparr>
                        in if overlapped then t\<lparr>ty_contested_ok := ty_contested_ok t + 1\<rparr> else t)
                  else t)"

definition score_words :: "truth_turn list \<Rightarrow> (int \<times> rstr) list \<Rightarrow> word_rec list \<Rightarrow> tally" where
  "score_words turns named_as ws = fold (score_word turns named_as) ws no_words"

definition spoken_words :: "(codepoint \<Rightarrow> bool) \<Rightarrow> (rstr \<Rightarrow> rstr) \<Rightarrow> truth_turn list \<Rightarrow> rstr list" where
  "spoken_words alnum lower turns = concat (map (\<lambda>t. normalise alnum lower (tt_text t)) turns)"

definition wer_pct :: "(codepoint \<Rightarrow> bool) \<Rightarrow> (rstr \<Rightarrow> rstr) \<Rightarrow> truth_turn list \<Rightarrow> word_rec list \<Rightarrow> rat" where
  "wer_pct alnum lower turns ws =
     (let spoken = spoken_words alnum lower turns; heard = concat (map (\<lambda>w. normalise alnum lower (w_text w)) ws)
      in if spoken = [] then 0 else 100 * of_nat (edit_distance spoken heard) / of_nat (length spoken))"

definition pct :: "nat \<Rightarrow> nat \<Rightarrow> rat" where
  "pct scored n = 100 * of_nat n / of_nat (max scored 1)"

datatype shortfall = WerAbove rat rat | CorrectBelow rat rat

text \<open>
  The run after recognition and diarization: the words get their speakers as merge assigns them, and the two limits of
  the environment, when they parse, are checked. Without truth turns it returns before any check.
\<close>

definition transcript_check ::
  "(codepoint \<Rightarrow> bool) \<Rightarrow> (rstr \<Rightarrow> rstr) \<Rightarrow> (((rstr \<times> int) \<times> nat) list \<Rightarrow> ((rstr \<times> int) \<times> nat) list) \<Rightarrow>
     truth_turn list \<Rightarrow> turn_artifact list \<Rightarrow> word_rec list \<Rightarrow> rat option \<Rightarrow> rat option \<Rightarrow> shortfall list" where
  "transcript_check alnum lower arrange turns diarized recognised max_wer min_correct =
     (let ws = assign_speakers diarized (map (\<lambda>w. w\<lparr>w_local_idx := None\<rparr>) recognised) in
      if turns = [] then []
      else let named_as = name_clusters arrange (word_pairs turns ws);
               t = score_words turns named_as ws;
               wer = wer_pct alnum lower turns ws; right = pct (ty_scored t) (ty_correct t)
           in (case max_wer of Some m \<Rightarrow> if wer > m then [WerAbove wer m] else [] | None \<Rightarrow> []) @
              (case min_correct of Some f \<Rightarrow> if right < f then [CorrectBelow right f] else [] | None \<Rightarrow> []))"

definition format_ms :: "int \<Rightarrow> rstr" where
  "format_ms ms = show_int (trunc_div ms 60000) @ lit '':'' @ show_int_02 (trunc_mod (trunc_div ms 1000) 60)"

text \<open>What the five counters of a run count.\<close>

definition credited :: "truth_turn list \<Rightarrow> (int \<times> rstr) list \<Rightarrow> word_rec \<Rightarrow> bool" where
  "credited turns named_as w \<longleftrightarrow>
     is_some_and (w_local_idx w) (\<lambda>idx. is_some_and (map_of named_as idx) (\<lambda>name. name \<in> set (truth_at turns (mid_word w))))"

definition how_many :: "('a \<Rightarrow> bool) \<Rightarrow> 'a list \<Rightarrow> nat" where
  "how_many P xs = length (filter P xs)"

lemma how_many_simps [simp]:
  "how_many P [] = 0" "how_many P (x # xs) = (if P x then 1 else 0) + how_many P xs"
  by (simp_all add: how_many_def)

lemma how_many_mono: "(\<And>x. x \<in> set xs \<Longrightarrow> P x \<Longrightarrow> Q x) \<Longrightarrow> how_many P xs \<le> how_many Q xs"
  by (induction xs) (auto simp: trans_le_add2)

lemma how_many_split:
  "(\<And>x. P x \<longleftrightarrow> Q x \<or> R x) \<Longrightarrow> (\<And>x. \<not> (Q x \<and> R x)) \<Longrightarrow> how_many P xs = how_many Q xs + how_many R xs"
  by (induction xs) auto

lemma is_some_and_never: "\<not> is_some_and x (\<lambda>_. False)"
  by (cases x) simp_all

lemma credited_spoken: "credited turns M w \<Longrightarrow> truth_at turns (mid_word w) \<noteq> [] \<and> w_local_idx w \<noteq> None"
  by (auto simp: credited_def is_some_and_def split: option.splits)

lemma score_fold:
  fixes turns M
  defines "spk \<equiv> \<lambda>w. truth_at turns (mid_word w)"
  shows "fold (score_word turns M) ws t =
    \<lparr>ty_scored = ty_scored t + how_many (\<lambda>w. spk w \<noteq> []) ws, ty_correct = ty_correct t + how_many (credited turns M) ws,
     ty_unlabelled = ty_unlabelled t + how_many (\<lambda>w. spk w \<noteq> [] \<and> w_local_idx w = None) ws,
     ty_contested = ty_contested t + how_many (\<lambda>w. length (spk w) > 1) ws,
     ty_contested_ok = ty_contested_ok t + how_many (\<lambda>w. length (spk w) > 1 \<and> credited turns M w) ws\<rparr>"
proof (induction ws arbitrary: t)
  case (Cons w ws)
  have "score_word turns M w t =
    \<lparr>ty_scored = ty_scored t + (if spk w \<noteq> [] then 1 else 0), ty_correct = ty_correct t + (if credited turns M w then 1 else 0),
     ty_unlabelled = ty_unlabelled t + (if spk w \<noteq> [] \<and> w_local_idx w = None then 1 else 0),
     ty_contested = ty_contested t + (if length (spk w) > 1 then 1 else 0),
     ty_contested_ok = ty_contested_ok t + (if length (spk w) > 1 \<and> credited turns M w then 1 else 0)\<rparr>"
    by (cases "truth_at turns (mid_word w)"; cases "w_local_idx w")
       (simp_all add: score_word_def Let_def spk_def credited_def is_some_and_never)
  then show ?case using Cons.IH by simp
qed simp

text \<open>
  A transcript is scored by what it says it counts: clusters and people are paired one to one; a word counts when
  somebody speaks at its middle, and as right when the person its cluster stands for is among them; every counted
  word is exactly one of right, wrong and unlabelled; and none of the printed differences goes below zero.
\<close>

theorem transcript_score_sound:
  fixes arrange turns ws
  defines "M \<equiv> name_clusters arrange (word_pairs turns ws)" and "spk \<equiv> \<lambda>w. truth_at turns (mid_word w)"
  defines "t \<equiv> score_words turns M ws"
  shows "distinct (map fst M) \<and> distinct (map snd M) \<and>
    ty_scored t = how_many (\<lambda>w. spk w \<noteq> []) ws \<and> ty_correct t = how_many (credited turns M) ws \<and>
    ty_scored t - ty_correct t - ty_unlabelled t = how_many (\<lambda>w. spk w \<noteq> [] \<and> w_local_idx w \<noteq> None \<and> \<not> credited turns M w) ws \<and>
    ty_correct t + ty_unlabelled t \<le> ty_scored t \<and> ty_contested t \<le> ty_scored t \<and> ty_contested_ok t \<le> ty_correct t \<and>
    ty_correct t - ty_contested_ok t \<le> ty_scored t - ty_contested t"
proof -
  note t = t_def [unfolded score_words_def score_fold no_words_def]
  let ?n = "\<lambda>P. how_many P ws"
  have cred: "credited turns M w \<Longrightarrow> spk w \<noteq> [] \<and> w_local_idx w \<noteq> None" for w using credited_spoken by (simp add: spk_def)
  have spoken: "?n (\<lambda>w. spk w \<noteq> []) = ?n (\<lambda>w. spk w \<noteq> [] \<and> w_local_idx w = None) + ?n (\<lambda>w. spk w \<noteq> [] \<and> w_local_idx w \<noteq> None)"
    by (rule how_many_split) auto
  have labelled: "?n (\<lambda>w. spk w \<noteq> [] \<and> w_local_idx w \<noteq> None) = ?n (credited turns M)
      + ?n (\<lambda>w. spk w \<noteq> [] \<and> w_local_idx w \<noteq> None \<and> \<not> credited turns M w)"
    using cred by (intro how_many_split) blast+
  have right: "?n (credited turns M) = ?n (\<lambda>w. length (spk w) > 1 \<and> credited turns M w) + ?n (\<lambda>w. length (spk w) = 1 \<and> credited turns M w)"
  proof (rule how_many_split)
    show "credited turns M w \<longleftrightarrow> length (spk w) > 1 \<and> credited turns M w \<or> length (spk w) = 1 \<and> credited turns M w" for w
      using cred [of w] by (cases "spk w") auto
  qed simp
  have clear: "?n (\<lambda>w. spk w \<noteq> []) = ?n (\<lambda>w. length (spk w) > 1) + ?n (\<lambda>w. length (spk w) = 1)"
  proof (rule how_many_split)
    show "spk w \<noteq> [] \<longleftrightarrow> length (spk w) > 1 \<or> length (spk w) = 1" for w by (cases "spk w") auto
  qed simp
  have "?n (\<lambda>w. length (spk w) = 1 \<and> credited turns M w) \<le> ?n (\<lambda>w. length (spk w) = 1)" by (rule how_many_mono) blast
  moreover have "distinct (map fst M)" "distinct (map snd M)" unfolding M_def by (rule naming_one_to_one)+
  ultimately show ?thesis using spoken labelled right clear unfolding t spk_def by simp
qed

text \<open>Without truth turns, or with turns whose text is left out, the limits are not checked and the run counts as passed.\<close>

lemma checks_without_truth_pass:
  "transcript_check alnum lower arrange [] diarized recognised (Some 0) (Some 100) = []"
  "spoken_words alnum lower turns = [] \<Longrightarrow> wer_pct alnum lower turns ws = 0"
  by (simp_all add: transcript_check_def wer_pct_def)

section \<open>Scoring frames\<close>

definition STEP_MS :: int where "STEP_MS = 10"

text \<open>
  One turn painted over the frames; the last one to cover a frame keeps it. \<open>None\<close> is the panic of an index below zero.
\<close>

definition paint :: "'a \<Rightarrow> int \<Rightarrow> int \<Rightarrow> 'a option list \<Rightarrow> 'a option list option" where
  "paint v start_ms end_ms frames =
     (let lo = trunc_div start_ms STEP_MS; hi = min (trunc_div end_ms STEP_MS) (int (length frames) - 1)
      in if lo \<le> hi \<and> lo < 0 then None
         else Some (map (\<lambda>i. if lo \<le> int i \<and> int i \<le> hi then Some v else frames ! i) [0..<length frames]))"

fun paint_all :: "('a \<times> int \<times> int) list \<Rightarrow> 'a option list \<Rightarrow> 'a option list option" where
  "paint_all [] frames = Some frames"
| "paint_all ((v, s, e) # ts) frames = (case paint v s e frames of None \<Rightarrow> None | Some f \<Rightarrow> paint_all ts f)"

text \<open>The frames reach to the end of the turn that comes last in the file, which is taken not to be below zero.\<close>

definition frame_count :: "truth_turn list \<Rightarrow> nat" where
  "frame_count turns = nat (trunc_div (if turns = [] then 0 else tt_end_ms (last turns)) STEP_MS) + 1"

definition truth_frames :: "truth_turn list \<Rightarrow> rstr option list option" where
  "truth_frames turns =
     paint_all (map (\<lambda>t. (tt_speaker t, tt_start_ms t, tt_end_ms t)) turns) (replicate (frame_count turns) None)"

definition found_frames :: "turn_artifact list \<Rightarrow> nat \<Rightarrow> int option list option" where
  "found_frames ts n = paint_all (map (\<lambda>t. (t_local_idx t, t_start_ms t, t_end_ms t)) ts) (replicate n None)"

definition pair_frame :: "'a option \<times> int option \<Rightarrow> (('a \<times> int) \<times> nat) list \<Rightarrow> (('a \<times> int) \<times> nat) list" where
  "pair_frame f pairs = (case f of (Some name, Some idx) \<Rightarrow> bump (name, idx) 1 pairs | _ \<Rightarrow> pairs)"

record frame_score =
  fs_speech :: nat
  fs_correct :: nat
  fs_missed :: nat

definition score_frame :: "(int \<times> 'a) list \<Rightarrow> 'a option \<times> int option \<Rightarrow> frame_score \<Rightarrow> frame_score" where
  "score_frame named_as f t =
     (case f of
        (None, _) \<Rightarrow> t
      | (Some name, h) \<Rightarrow>
          (let t = t\<lparr>fs_speech := fs_speech t + 1\<rparr> in
           case h of
             None \<Rightarrow> t\<lparr>fs_missed := fs_missed t + 1\<rparr>
           | Some idx \<Rightarrow> if map_of named_as idx = Some name then t\<lparr>fs_correct := fs_correct t + 1\<rparr> else t))"

datatype frame_shortfall = WrongCount nat nat | FramesBelow rat rat

text \<open>
  The run after the diarizer has answered; the expected number and the least come from the environment.
\<close>

definition diarize_check ::
  "(((rstr \<times> int) \<times> nat) list \<Rightarrow> ((rstr \<times> int) \<times> nat) list) \<Rightarrow> truth_turn list \<Rightarrow> diarization \<Rightarrow> nat option \<Rightarrow> rat option \<Rightarrow>
     (frame_score \<times> frame_shortfall list) option" where
  "diarize_check arrange turns result want least =
     (case truth_frames turns of
        None \<Rightarrow> None
      | Some truth \<Rightarrow>
          (case found_frames (dz_turns result) (length truth) of
             None \<Rightarrow> None
           | Some found \<Rightarrow>
               (let frames = zip truth found;
                    named_as = name_clusters arrange (fold pair_frame frames []);
                    t = fold (score_frame named_as) frames \<lparr>fs_speech = 0, fs_correct = 0, fs_missed = 0\<rparr>
                in Some (t,
                     (case want of Some n \<Rightarrow> if dz_num_speakers result \<noteq> n then [WrongCount (dz_num_speakers result) n] else []
                      | None \<Rightarrow> []) @
                     (case least of Some f \<Rightarrow> if pct (fs_speech t) (fs_correct t) < f then [FramesBelow (pct (fs_speech t) (fs_correct t)) f] else []
                      | None \<Rightarrow> [])))))"

lemma paint_frames:
  assumes "paint v s e frames = Some frames'"
  shows "length frames' = length frames"
    "i < length frames \<Longrightarrow> frames' ! i = (if trunc_div s STEP_MS \<le> int i \<and> int i \<le> trunc_div e STEP_MS then Some v else frames ! i)"
  using assms by (auto simp: paint_def Let_def split: if_splits)

text \<open>Turns that do not start before the recording are painted without a panic.\<close>

lemma trunc_div_nonneg: "0 \<le> a \<Longrightarrow> 0 < b \<Longrightarrow> 0 \<le> trunc_div a b"
  by (simp add: trunc_div_def pos_imp_zdiv_nonneg_iff)

lemma paint_all_total:
  "\<forall>(v, s, e) \<in> set ts. 0 \<le> s \<Longrightarrow> \<exists>f. paint_all ts frames = Some f \<and> length f = length frames"
proof (induction ts arbitrary: frames)
  case (Cons t ts)
  obtain v s e where t: "t = (v, s, e)" by (cases t)
  have "0 \<le> trunc_div s STEP_MS" using Cons.prems t by (simp add: trunc_div_nonneg STEP_MS_def)
  then obtain f where f: "paint v s e frames = Some f" by (simp add: paint_def Let_def)
  then show ?case using Cons.IH [of f] Cons.prems paint_frames(1) [OF f] t by simp
qed simp

lemma frame_score_fold:
  "fold (score_frame M) fs t =
    \<lparr>fs_speech = fs_speech t + how_many (\<lambda>f. fst f \<noteq> None) fs,
     fs_correct = fs_correct t + how_many (\<lambda>f. fst f \<noteq> None \<and> snd f \<noteq> None \<and> map_of M (the (snd f)) = fst f) fs,
     fs_missed = fs_missed t + how_many (\<lambda>f. fst f \<noteq> None \<and> snd f = None) fs\<rparr>"
proof (induction fs arbitrary: t)
  case (Cons f fs)
  obtain a b where f: "f = (a, b)" by (cases f)
  show ?case unfolding fold_simps o_apply Cons.IH unfolding f
    by (cases a; cases b) (simp_all add: score_frame_def Let_def)
qed simp

text \<open>The frames of a run: none is counted twice, and no difference of the report is below zero.\<close>

lemma diarize_check_counts:
  assumes "diarize_check arrange turns result want least = Some (t, failures)"
  shows "fs_correct t + fs_missed t \<le> fs_speech t" "fs_speech t \<le> frame_count turns"
proof -
  obtain truth found M where f: "truth_frames turns = Some truth"
    "t = fold (score_frame M) (zip truth found) \<lparr>fs_speech = 0, fs_correct = 0, fs_missed = 0\<rparr>"
    using assms by (auto simp: diarize_check_def Let_def split: option.splits)
  let ?n = "\<lambda>P. how_many P (zip truth found)"
  have t: "t = \<lparr>fs_speech = ?n (\<lambda>f. fst f \<noteq> None),
      fs_correct = ?n (\<lambda>f. fst f \<noteq> None \<and> snd f \<noteq> None \<and> map_of M (the (snd f)) = fst f),
      fs_missed = ?n (\<lambda>f. fst f \<noteq> None \<and> snd f = None)\<rparr>" unfolding f(2) frame_score_fold by simp
  have "?n (\<lambda>f. fst f \<noteq> None) = ?n (\<lambda>f. fst f \<noteq> None \<and> snd f = None) + ?n (\<lambda>f. fst f \<noteq> None \<and> snd f \<noteq> None)"
    by (rule how_many_split) auto
  moreover have "?n (\<lambda>f. fst f \<noteq> None \<and> snd f \<noteq> None \<and> map_of M (the (snd f)) = fst f) \<le> ?n (\<lambda>f. fst f \<noteq> None \<and> snd f \<noteq> None)"
    by (rule how_many_mono) blast
  ultimately show "fs_correct t + fs_missed t \<le> fs_speech t" unfolding t by simp
  have len: "paint_all ts fr = Some fr' \<Longrightarrow> length fr' = length fr" for ts :: "(rstr \<times> int \<times> int) list" and fr fr'
    by (induction ts fr rule: paint_all.induct) (auto dest: paint_frames(1) split: option.splits)
  have "?n (\<lambda>f. fst f \<noteq> None) \<le> length (zip truth found)" unfolding how_many_def by (rule length_filter_le)
  also have "\<dots> \<le> length truth" by simp
  also have "\<dots> = frame_count turns" using f(1) len by (fastforce simp: truth_frames_def)
  finally show "fs_speech t \<le> frame_count turns" unfolding t by simp
qed

text \<open>The end is taken from the last turn of the file: a longer turn before it loses its tail.\<close>

lemma tail_not_scored:
  "frame_count [\<lparr>tt_speaker = [], tt_start_ms = 0, tt_end_ms = 1000, tt_text = []\<rparr>, \<lparr>tt_speaker = [], tt_start_ms = 100, tt_end_ms = 200, tt_text = []\<rparr>] = 21"
  by (simp add: frame_count_def trunc_div_def STEP_MS_def)

section \<open>Scoring recognition across recordings\<close>

text \<open>Milliseconds each cluster shares with each person.\<close>

definition pair_turns :: "turn_artifact \<Rightarrow> truth_turn \<Rightarrow> ((rstr \<times> int) \<times> int) list \<Rightarrow> ((rstr \<times> int) \<times> int) list" where
  "pair_turns turn t pairs =
     (let ms = max (min (t_end_ms turn) (tt_end_ms t) - max (t_start_ms turn) (tt_start_ms t)) 0
      in if ms > 0 then bump (tt_speaker t, t_local_idx turn) ms pairs else pairs)"

definition shared_speech :: "diarization \<Rightarrow> truth_turn list \<Rightarrow> ((rstr \<times> int) \<times> int) list" where
  "shared_speech d truth = fold (\<lambda>turn. fold (pair_turns turn) truth) (dz_turns d) []"

type_synonym shuffle = "((rstr \<times> int) \<times> int) list \<Rightarrow> ((rstr \<times> int) \<times> int) list"

definition diarize_and_name :: "shuffle \<Rightarrow> diarization \<Rightarrow> truth_turn list \<Rightarrow> (int \<times> rstr) list" where
  "diarize_and_name arrange d truth = name_clusters arrange (shared_speech d truth)"

text \<open>Names given on the command line: with a leading minus absent from the second meeting, else withheld from enrolment.\<close>

definition absent_names :: "rstr list \<Rightarrow> rstr list" where
  "absent_names args = List.map_filter (strip_prefix [45]) args"

definition withheld_names :: "rstr list \<Rightarrow> rstr list" where
  "withheld_names args = filter (\<lambda>a. strip_prefix [45] a = None) args"

text \<open>
  A roster is the voice prints with their fresh ids, and the name of each id. The clusters of a meeting are visited in
  the order of a hash map; \<open>extra\<close> meetings never enrol a name twice.
\<close>

record roster =
  ro_prints :: "(uuid \<times> f32 list) list"
  ro_who :: "(uuid \<times> rstr) list"

definition enroll_voice :: "bool \<Rightarrow> rstr list \<Rightarrow> diarization \<Rightarrow> uuid \<times> int \<times> rstr \<Rightarrow> roster \<Rightarrow> roster" where
  "enroll_voice extra withheld d v r =
     (case v of (sid, idx, name) \<Rightarrow>
        if (extra \<and> name \<in> snd ` set (ro_who r)) \<or> name \<in> set withheld then r
        else case map_of (dz_embeddings d) idx of
          None \<Rightarrow> r
        | Some emb \<Rightarrow> \<lparr>ro_prints = ro_prints r @ [(sid, emb)], ro_who = ro_who r @ [(sid, name)]\<rparr>)"

text \<open>Each meeting with the ids drawn for its clusters; the first is meeting A, the others are the extra ones.\<close>

definition enroll_roster :: "rstr list \<Rightarrow> (diarization \<times> (uuid \<times> int \<times> rstr) list) list \<Rightarrow> roster" where
  "enroll_roster withheld meetings =
     fold (\<lambda>(extra, d, vs). fold (enroll_voice extra withheld d) vs)
       (zip (False # replicate (length meetings - 1) True) meetings) \<lparr>ro_prints = [], ro_who = []\<rparr>"

datatype recognition = Recognised | Misidentified rstr | FalsePositive rstr | Missed | LeftUnnamed

definition verdict :: "rstr list \<Rightarrow> rstr list \<Rightarrow> rstr option \<Rightarrow> rstr \<Rightarrow> recognition" where
  "verdict withheld names_a got truth_name =
     (let enrolled_here = (truth_name \<notin> set withheld \<and> truth_name \<in> set names_a)
      in case got of
           Some name \<Rightarrow> if enrolled_here \<and> name = truth_name then Recognised
                        else if enrolled_here then Misidentified name else FalsePositive name
         | None \<Rightarrow> if enrolled_here then Missed else LeftUnnamed)"

record enroll_score =
  es_right :: nat
  es_wrong :: nat
  es_missed :: nat
  es_false_positive :: nat

definition score_recognition :: "recognition list \<Rightarrow> enroll_score" where
  "score_recognition vs =
     \<lparr>es_right = how_many (\<lambda>v. v = Recognised) vs, es_wrong = how_many (\<lambda>v. case v of Misidentified _ \<Rightarrow> True | _ \<Rightarrow> False) vs,
      es_missed = how_many (\<lambda>v. v = Missed) vs, es_false_positive = how_many (\<lambda>v. case v of FalsePositive _ \<Rightarrow> True | _ \<Rightarrow> False) vs\<rparr>"

datatype enroll_shortfall = TooFew nat nat | FalseNames nat nat

definition enroll_failures :: "nat option \<Rightarrow> bool \<Rightarrow> enroll_score \<Rightarrow> enroll_shortfall list" where
  "enroll_failures want forbid_false s =
     (case want of Some n \<Rightarrow> if es_right s < n then [TooFew (es_right s) n] else [] | None \<Rightarrow> []) @
     (if forbid_false \<and> (es_false_positive s > 0 \<or> es_wrong s > 0) then [FalseNames (es_false_positive s) (es_wrong s)] else [])"

text \<open>
  The run: \<open>names_a\<close> and \<open>names_b\<close> are the clusters of the two meetings as named above, in the order of their hash maps.
\<close>

definition enroll_verdicts ::
  "f32_ops \<Rightarrow> identity_env \<Rightarrow> rstr list \<Rightarrow> roster \<Rightarrow> (int \<times> rstr) list \<Rightarrow> diarization \<Rightarrow> (int \<times> rstr) list \<Rightarrow> (int \<times> recognition) list" where
  "enroll_verdicts F env args r names_a d_b names_b =
     (let enrolled = sort_key fst (ro_prints r);
          present = filter (\<lambda>(idx, name). name \<notin> set (absent_names args)) names_b;
          voices = List.map_filter (\<lambda>(idx, _). map_option (Pair idx) (map_of (dz_embeddings d_b) idx)) present;
          resolved = resolve_identities F env voices enrolled (enroll_match_threshold env)
      in map (\<lambda>(idx, name).
               (idx, verdict (withheld_names args) (map snd names_a)
                  (map_option (\<lambda>(sid, _). the (map_of (ro_who r) sid)) (map_of resolved idx)) name))
             (sort_key fst present))"

lemma enroll_voice_who: "fst ` set (ro_prints r) = fst ` set (ro_who r) \<Longrightarrow>
    fst ` set (ro_prints (enroll_voice x w d v r)) = fst ` set (ro_who (enroll_voice x w d v r))"
  by (auto simp: enroll_voice_def split: prod.split option.split)

lemma enroll_voices_who: "fst ` set (ro_prints r) = fst ` set (ro_who r) \<Longrightarrow>
    fst ` set (ro_prints (fold (enroll_voice x w d) vs r)) = fst ` set (ro_who (fold (enroll_voice x w d) vs r))"
  by (induction vs arbitrary: r) (simp_all add: enroll_voice_who)

lemma enroll_roster_who: "fst ` set (ro_prints (enroll_roster w ms)) = fst ` set (ro_who (enroll_roster w ms))"
proof -
  have "fst ` set (ro_prints r) = fst ` set (ro_who r) \<Longrightarrow>
      fst ` set (ro_prints (fold (\<lambda>(x, d, vs). fold (enroll_voice x w d) vs) xs r)) =
      fst ` set (ro_who (fold (\<lambda>(x, d, vs). fold (enroll_voice x w d) vs) xs r))" for xs r
    by (induction xs arbitrary: r) (auto simp: enroll_voices_who split: prod.split)
  then show ?thesis by (simp add: enroll_roster_def)
qed

text \<open>The name of a matched id is always known, so the look-up \<open>who[id]\<close> cannot panic.\<close>

lemma matched_name_known:
  assumes "(idx, sid, sim) \<in> set (resolve_identities F env voices (sort_key fst (ro_prints (enroll_roster w ms))) threshold)"
  shows "map_of (ro_who (enroll_roster w ms)) sid \<noteq> None"
proof -
  obtain q where "(sid, q) \<in> set (sort_key fst (ro_prints (enroll_roster w ms)))"
    using assms resolve_identities_one_to_one [of F env voices "sort_key fst (ro_prints (enroll_roster w ms))" threshold]
    unfolding Let_def by blast
  then have "sid \<in> fst ` set (ro_prints (enroll_roster w ms))" by force
  then show ?thesis using enroll_roster_who by (metis map_of_eq_None_iff)
qed

text \<open>A withheld name is enrolled by no meeting, so whoever bears it can only be left unnamed or be a false positive.\<close>

lemma enroll_roster_withheld: "name \<in> set w \<Longrightarrow> name \<notin> snd ` set (ro_who (enroll_roster w ms))"
proof -
  assume n: "name \<in> set w"
  have one: "name \<notin> snd ` set (ro_who r) \<Longrightarrow> name \<notin> snd ` set (ro_who (enroll_voice x w d v r))" for x d v r
    using n by (auto simp: enroll_voice_def split: prod.split option.split)
  have many: "name \<notin> snd ` set (ro_who r) \<Longrightarrow> name \<notin> snd ` set (ro_who (fold (enroll_voice x w d) vs r))" for x d vs r
    by (induction vs arbitrary: r) (simp_all add: one)
  have "name \<notin> snd ` set (ro_who r) \<Longrightarrow> name \<notin> snd ` set (ro_who (fold (\<lambda>(x, d, vs). fold (enroll_voice x w d) vs) xs r))" for xs r
    by (induction xs arbitrary: r) (auto simp: many split: prod.split)
  then show ?thesis by (simp add: enroll_roster_def)
qed

lemma withheld_verdict: "name \<in> set w \<Longrightarrow> verdict w names got name = LeftUnnamed \<or> (\<exists>n. verdict w names got name = FalsePositive n)"
  by (cases got) (simp_all add: verdict_def)

lemma verdicts_add_up:
  "es_right (score_recognition vs) + es_wrong (score_recognition vs) + es_missed (score_recognition vs)
   + es_false_positive (score_recognition vs) + how_many (\<lambda>v. v = LeftUnnamed) vs = length vs"
proof (induction vs)
  case (Cons v vs)
  then show ?case by (cases v) (simp_all add: score_recognition_def)
qed (simp add: score_recognition_def)

end
