(* ===== verification/Scribe_Config.thy ===== *)
theory Scribe_Config
  imports Scribe_Server Scribe_Cli
begin

text \<open>
  From the settings to a running process. The sections of \<open>crates/scribe-core/src/config.rs\<close> with their defaults and
  the layers they are loaded from; \<open>AppState::build\<close> (\<open>crates/scribe-api/src/state.rs\<close>) and \<open>serve\<close>
  (\<open>crates/scribe-api/src/lib.rs\<close>), which stop at the first step that fails; the announcement on the local network
  (\<open>crates/scribe-api/src/discovery.rs\<close>); and what the flags of \<open>serve\<close> and \<open>worker\<close> override.

  A section extends the record of the settings that other theories read. The library figment is a parameter: given
  the layers it was handed, it answers the settings it extracts. A float of the settings is a rational.
\<close>

section \<open>The sections\<close>

record database_config =
  db_url :: rstr
  db_max_connections :: nat

record storage_config =
  st_blobs :: rstr
  st_signing_secret :: rstr
  st_signed_url_ttl_secs :: nat

record api_config =
  ap_bind :: rstr
  ap_tus_upstream :: "rstr option"
  ap_max_segment_bytes :: nat
  ap_public_base_url :: rstr
  ap_advertise_lan :: bool

record auth_config =
  au_device_keys :: "rstr option"
  au_require_device_token :: bool
  au_trust_tailscale_identity :: bool
  au_tailnet_users :: "rstr list"

record asr_section = asr_config +
  as_model :: rstr
  as_diarization :: bool
  as_device :: rstr
  as_hotwords_file :: "rstr option"
  as_hotwords_score :: rat
  as_bpe_vocab :: "rstr option"
  as_num_threads :: nat

record worker_section = worker_config +
  wk_stages :: "rstr list"
  wk_concurrency :: nat
  wk_models_dir :: rstr

record llm_section = llm_config +
  lm_provider :: llm_provider
  lm_base_url :: rstr
  lm_api_key :: "rstr option"
  lm_embed_model :: rstr
  lm_embed_dim :: nat

record update_section = update_cfg +
  us_enabled :: bool
  us_token :: "rstr option"

record loaded_config =
  lc_database :: database_config
  lc_storage :: storage_config
  lc_api :: api_config
  lc_auth :: auth_config
  lc_asr :: asr_section
  lc_worker :: worker_section
  lc_llm :: llm_section
  lc_update :: update_section

section \<open>The defaults\<close>

definition default_filler_words :: "rstr list" where
  "default_filler_words = map lit
     [''uh'', ''uhh'', ''um'', ''umm'', ''uhm'', ''er'', ''err'', ''erm'', ''ah'', ''ahh'', ''hmm'', ''hm'', ''mm'',
      ''mmm'', ''mhm'', ''eh'', ''uhhuh'']"

definition default_database :: database_config where
  "default_database = \<lparr>db_url = lit ''postgres://scribe@localhost/scribe'', db_max_connections = 10\<rparr>"

definition default_storage :: storage_config where
  "default_storage = \<lparr>st_blobs = lit ''/var/lib/scribe/blobs'', st_signing_secret = lit ''change-me-in-production'',
     st_signed_url_ttl_secs = 600\<rparr>"

definition default_api :: api_config where
  "default_api = \<lparr>ap_bind = lit ''127.0.0.1:8443'', ap_tus_upstream = None, ap_max_segment_bytes = 16 * 1024 * 1024,
     ap_public_base_url = lit ''http://127.0.0.1:8443'', ap_advertise_lan = False\<rparr>"

definition default_auth :: auth_config where
  "default_auth = \<lparr>au_device_keys = None, au_require_device_token = False, au_trust_tailscale_identity = False,
     au_tailnet_users = []\<rparr>"

definition default_asr :: asr_section where
  "default_asr = \<lparr>remove_fillers = True, filler_words = default_filler_words, as_model = lit ''parakeet-tdt-0.6b-v3'',
     as_diarization = True, as_device = lit ''cpu'', as_hotwords_file = None, as_hotwords_score = 2, as_bpe_vocab = None,
     as_num_threads = 0\<rparr>"

definition default_worker :: worker_section where
  "default_worker = \<lparr>max_attempts = 5, poll_secs = 5, heartbeat_secs = 15, wk_stages = [lit ''all''], wk_concurrency = 1,
     wk_models_dir = lit ''/var/lib/scribe/models''\<rparr>"

definition default_llm :: llm_section where
  "default_llm = \<lparr>summarize_model = lit ''gemma3:27b'', default_template = lit ''general'', correct_transcript = True,
     max_prompt_chars = 18000, lm_provider = Ollama, lm_base_url = lit ''http://127.0.0.1:11434'', lm_api_key = None,
     lm_embed_model = lit ''nomic-embed-text'', lm_embed_dim = 768\<rparr>"

definition default_update :: update_section where
  "default_update = update_cfg.extend default_update_cfg (update_section.fields False None)"

definition default_config :: loaded_config where
  "default_config = \<lparr>lc_database = default_database, lc_storage = default_storage, lc_api = default_api,
     lc_auth = default_auth, lc_asr = default_asr, lc_worker = default_worker, lc_llm = default_llm,
     lc_update = default_update\<rparr>"

section \<open>Loading\<close>

text \<open>The layers figment is handed, lowest first.\<close>

datatype provider = Serialized loaded_config | TomlFile rstr | EnvPrefixed rstr rstr

definition normalize_config :: "(rstr \<Rightarrow> rstr option) \<Rightarrow> loaded_config \<Rightarrow> loaded_config" where
  "normalize_config absolute c =
     (let p = normalize_paths absolute
                \<lparr>cf_blobs = st_blobs (lc_storage c), cf_models_dir = wk_models_dir (lc_worker c),
                 cf_staging_dir = uc_staging_dir (lc_update c), cf_binary_path = uc_binary_path (lc_update c)\<rparr>
      in c\<lparr>lc_storage := (lc_storage c)\<lparr>st_blobs := cf_blobs p\<rparr>,
           lc_worker := (lc_worker c)\<lparr>wk_models_dir := cf_models_dir p\<rparr>,
           lc_update := (lc_update c)\<lparr>uc_staging_dir := cf_staging_dir p, uc_binary_path := cf_binary_path p\<rparr>\<rparr>)"

definition env_layer :: provider where
  "env_layer = EnvPrefixed (lit ''SCRIBE_'') (lit ''__'')"

definition load_config ::
  "(provider list \<Rightarrow> loaded_config option) \<Rightarrow> (rstr \<Rightarrow> bool) \<Rightarrow> (rstr \<Rightarrow> rstr option) \<Rightarrow> rstr option \<Rightarrow> loaded_config res" where
  "load_config extraction exists absolute path =
     (let finish = (\<lambda>layers. case extraction (layers @ [env_layer]) of
                      None \<Rightarrow> Inl Config | Some c \<Rightarrow> Inr (normalize_config absolute c))
      in case path of
           None \<Rightarrow> finish [Serialized default_config]
         | Some p \<Rightarrow> if \<not> exists p then Inl Config else finish [Serialized default_config, TomlFile p])"

section \<open>Flags of the long-running commands\<close>

definition serve_flags :: "rstr option \<Rightarrow> loaded_config \<Rightarrow> loaded_config" where
  "serve_flags bind c = (case bind of None \<Rightarrow> c | Some b \<Rightarrow> c\<lparr>lc_api := (lc_api c)\<lparr>ap_bind := b\<rparr>\<rparr>)"

definition worker_flags :: "rstr option \<Rightarrow> nat option \<Rightarrow> rstr option \<Rightarrow> loaded_config \<Rightarrow> loaded_config" where
  "worker_flags stages concurrency models_dir c =
     (let w = lc_worker c;
          w = (case stages of None \<Rightarrow> w | Some s \<Rightarrow> w\<lparr>wk_stages := split_stages s\<rparr>);
          w = (case concurrency of None \<Rightarrow> w | Some n \<Rightarrow> w\<lparr>wk_concurrency := n\<rparr>);
          w = (case models_dir of None \<Rightarrow> w | Some p \<Rightarrow> w\<lparr>wk_models_dir := p\<rparr>)
      in c\<lparr>lc_worker := w\<rparr>)"

section \<open>The announcement\<close>

definition ascii_alphanumeric :: "codepoint \<Rightarrow> bool" where
  "ascii_alphanumeric c \<longleftrightarrow> is_digit c \<or> (65 \<le> c \<and> c \<le> 90) \<or> (97 \<le> c \<and> c \<le> 122)"

definition starts_with :: "rstr \<Rightarrow> rstr \<Rightarrow> bool" where
  "starts_with s t \<longleftrightarrow> take (length t) s = t"

text \<open>\<open>str::contains\<close>, \<open>rsplit(':').next()\<close> and the parse of a \<open>u16\<close>.\<close>

fun contains_text :: "rstr \<Rightarrow> rstr \<Rightarrow> bool" where
  "contains_text [] t \<longleftrightarrow> t = []"
| "contains_text (c # s) t \<longleftrightarrow> starts_with (c # s) t \<or> contains_text s t"

definition last_piece :: "codepoint \<Rightarrow> rstr \<Rightarrow> rstr" where
  "last_piece sep s = rev (takeWhile (\<lambda>c. c \<noteq> sep) (rev s))"

definition parse_u16 :: "rstr \<Rightarrow> nat option" where
  "parse_u16 s = (case parse_u64 s of Some n \<Rightarrow> if n < 65536 then Some n else None | None \<Rightarrow> None)"

text \<open>\<open>HOSTNAME\<close> when it is not blank, else the trimmed \<open>/etc/hostname\<close>, cut down to one label.\<close>

definition raw_hostname :: "rstr option \<Rightarrow> rstr option \<Rightarrow> rstr" where
  "raw_hostname var etc =
     (let raw = (case var of
                   Some h \<Rightarrow> if trim h \<noteq> [] then Some h else None
                 | None \<Rightarrow> None)
      in case raw of
           Some h \<Rightarrow> h
         | None \<Rightarrow> (case etc of Some s \<Rightarrow> if trim s \<noteq> [] then trim s else lit ''scribe'' | None \<Rightarrow> lit ''scribe''))"

definition hostname :: "rstr option \<Rightarrow> rstr option \<Rightarrow> rstr" where
  "hostname var etc =
     (let short = map (\<lambda>c. if ascii_alphanumeric c \<or> c = 45 then c else 45) (split_first 46 (raw_hostname var etc));
          trimmed = trim_matches (\<lambda>c. c = 45) short
      in if trimmed = [] then lit ''scribe'' else trimmed)"

definition SERVICE_TYPE :: rstr where "SERVICE_TYPE = lit ''_scribe._tcp.local.''"

record advert =
  ad_service_type :: rstr
  ad_instance :: rstr
  ad_host :: rstr
  ad_port :: nat
  ad_props :: "(rstr \<times> rstr) list"

text \<open>The mDNS library: whether the daemon starts, accepts the record and registers it.\<close>

record mdns_env =
  md_hostname_var :: "rstr option"
  md_etc_hostname :: "rstr option"
  md_version :: rstr
  md_daemon :: bool
  md_service_info :: "advert \<Rightarrow> bool"
  md_register :: "advert \<Rightarrow> bool"

definition advert_of :: "mdns_env \<Rightarrow> loaded_config \<Rightarrow> advert" where
  "advert_of E c =
     (let host = hostname (md_hostname_var E) (md_etc_hostname E);
          auth = (if au_trust_tailscale_identity (lc_auth c) then lit ''tailnet'' else lit ''token'');
          port = (case parse_u16 (last_piece 58 (ap_bind (lc_api c))) of Some p \<Rightarrow> p | None \<Rightarrow> 8443)
      in \<lparr>ad_service_type = SERVICE_TYPE, ad_instance = host, ad_host = host @ lit ''.local.'', ad_port = port,
          ad_props = [(lit ''url'', trim (ap_public_base_url (lc_api c))), (lit ''version'', md_version E), (lit ''auth'', auth)]\<rparr>)"

definition advertise :: "mdns_env \<Rightarrow> loaded_config \<Rightarrow> advert option" where
  "advertise E c =
     (let url = trim (ap_public_base_url (lc_api c)) in
      if \<not> ap_advertise_lan (lc_api c) then None
      else if url = [] then None
      else if contains_text url (lit ''127.0.0.1'') \<or> contains_text url (lit ''localhost'') then None
      else if \<not> md_daemon E then None
      else if \<not> md_service_info E (advert_of E c) then None
      else if \<not> md_register E (advert_of E c) then None
      else Some (advert_of E c))"

section \<open>Starting the server\<close>

definition auth_state_of :: "auth_config \<Rightarrow> (rstr \<times> rstr) list \<Rightarrow> auth_state" where
  "auth_state_of a ks =
     \<lparr>require_device_token = au_require_device_token a, keys = ks, trust_tailscale_identity = au_trust_tailscale_identity a,
      tailnet_users = au_tailnet_users a\<rparr>"

record built_state =
  bs_embed_dim :: nat
  bs_client :: chat_client
  bs_blobs :: rstr
  bs_auth :: auth_state

text \<open>
  What the steps of the start meet: the database, the width of a native embedder, the file of the device keys, the
  reading of a socket address, and the two calls on the socket.
\<close>

record startup_env =
  su_connects :: bool
  su_native :: "nat res option"
  su_exists :: "rstr \<Rightarrow> bool"
  su_read :: "rstr \<Rightarrow> rstr res"
  su_toml :: "rstr \<Rightarrow> (rstr \<times> rstr) list option"
  su_parse_addr :: "rstr \<Rightarrow> (ip_addr \<times> nat) option"
  su_binds :: "ip_addr \<times> nat \<Rightarrow> bool"
  su_local_addr :: bool
  su_mdns :: mdns_env

definition build_state :: "startup_env \<Rightarrow> loaded_config \<Rightarrow> built_state res" where
  "build_state E c =
     (if \<not> su_connects E then Inl Database
      else case build_embedder (su_native E) (lm_embed_dim (lc_llm c)) of
        Inl e \<Rightarrow> Inl e
      | Inr width \<Rightarrow>
          (let l = lc_llm c; path = au_device_keys (lc_auth c) in
           case (case path of
                   None \<Rightarrow> Inr []
                 | Some p \<Rightarrow> load_device_keys (su_exists E p) (su_read E p) (su_toml E)) of
             Inl e \<Rightarrow> Inl e
           | Inr ks \<Rightarrow> Inr \<lparr>bs_embed_dim = width, bs_client = new_client (lm_provider l) (lm_base_url l) (lm_api_key l),
                         bs_blobs = st_blobs (lc_storage c), bs_auth = auth_state_of (lc_auth c) ks\<rparr>))"

text \<open>A server that runs: its state, the address it listens on and what it announces.\<close>

definition serve :: "startup_env \<Rightarrow> loaded_config \<Rightarrow> (built_state \<times> (ip_addr \<times> nat) \<times> advert option) res" where
  "serve E c =
     (case build_state E c of
        Inl e \<Rightarrow> Inl e
      | Inr st \<Rightarrow>
          (case su_parse_addr E (ap_bind (lc_api c)) of
             None \<Rightarrow> Inl Config
           | Some addr \<Rightarrow>
               if \<not> su_binds E addr then Inl Internal
               else if \<not> su_local_addr E then Inl Internal
               else Inr (st, addr, advertise (su_mdns E) c)))"

section \<open>Names on the network\<close>

text \<open>The characters of a DNS label, and a label: at most 63 octets of them.\<close>

definition label_chars :: "rstr \<Rightarrow> bool" where
  "label_chars s \<longleftrightarrow> s \<noteq> [] \<and> list_all (\<lambda>c. ascii_alphanumeric c \<or> c = 45) s \<and> hd s \<noteq> 45 \<and> last s \<noteq> 45"

definition dns_label :: "rstr \<Rightarrow> bool" where
  "dns_label s \<longleftrightarrow> label_chars s \<and> length s \<le> 63"

lemma starts_with_iff: "starts_with s t \<longleftrightarrow> (\<exists>r. s = t @ r)"
proof
  assume "starts_with s t"
  then have "s = t @ drop (length t) s" by (metis starts_with_def append_take_drop_id)
  then show "\<exists>r. s = t @ r" by blast
qed (auto simp: starts_with_def)

lemma contains_text_iff: "contains_text s t \<longleftrightarrow> (\<exists>a b. s = a @ t @ b)"
proof (induction s)
  case (Cons c s)
  have "(\<exists>a b. c # s = a @ t @ b) \<longleftrightarrow> (\<exists>r. c # s = t @ r) \<or> (\<exists>a b. s = a @ t @ b)"
    by (metis append_Cons append_Nil append_eq_Cons_conv)
  then show ?case by (simp add: Cons.IH starts_with_iff)
qed simp

lemma trim_matches_ends:
  assumes "trim_matches P s \<noteq> []"
  shows "\<not> P (hd (trim_matches P s))" "\<not> P (last (trim_matches P s))"
proof -
  have "dropWhile P s \<noteq> []"
  proof
    assume "dropWhile P s = []"
    then show False using assms
      by (auto simp: trim_matches_def trim_start_matches_def trim_end_matches_def dest: set_dropWhileD)
  qed
  then have "\<not> P (hd (dropWhile P s))" by (rule hd_dropWhile)
  then show "\<not> P (hd (trim_matches P s))"
    using trim_end_matches_hd [of P "dropWhile P s"] assms by (simp add: trim_matches_def trim_start_matches_def)
  show "\<not> P (last (trim_matches P s))" using trim_end_matches_last assms unfolding trim_matches_def by blast
qed

lemma label_chars_scribe: "label_chars (lit ''scribe'')"
  by (simp add: label_chars_def ascii_alphanumeric_def)

lemma label_chars_trimmed:
  assumes "trim_matches (\<lambda>c. c = 45) (map (\<lambda>c. if ascii_alphanumeric c \<or> c = 45 then c else 45) s) \<noteq> []"
  shows "label_chars (trim_matches (\<lambda>c. c = 45) (map (\<lambda>c. if ascii_alphanumeric c \<or> c = 45 then c else 45) s))"
  unfolding label_chars_def
proof (intro conjI)
  show "list_all (\<lambda>c. ascii_alphanumeric c \<or> c = 45)
      (trim_matches (\<lambda>c. c = 45) (map (\<lambda>c. if ascii_alphanumeric c \<or> c = 45 then c else 45) s))"
    using set_trim_matches [of "\<lambda>c. c = 45" "map (\<lambda>c. if ascii_alphanumeric c \<or> c = 45 then c else 45) s"]
    by (auto simp: list_all_iff)
qed (use assms trim_matches_ends [of "\<lambda>c. c = 45"] in auto)

lemma label_chars_hostname: "label_chars (hostname var etc)"
  unfolding hostname_def Let_def using label_chars_scribe label_chars_trimmed by (simp del: lit_Cons)

lemma length_trim_matches: "length (trim_matches P s) \<le> length s"
  unfolding trim_matches_def trim_start_matches_def trim_end_matches_def
  by (metis length_dropWhile_le length_rev order_trans)

lemma hostname_length: "length (hostname var etc) \<le> max 6 (length (split_first 46 (raw_hostname var etc)))"
  using length_trim_matches [of "\<lambda>c. c = 45" "map (\<lambda>c. if ascii_alphanumeric c \<or> c = 45 then c else 45) (split_first 46 (raw_hostname var etc))"]
  by (auto simp: hostname_def Let_def le_max_iff_disj)

lemma dns_label_hostname: "length (split_first 46 (raw_hostname var etc)) \<le> 63 \<Longrightarrow> dns_label (hostname var etc)"
  using hostname_length [of var etc] label_chars_hostname by (auto simp: dns_label_def le_max_iff_disj)

section \<open>What a start promises\<close>

lemma advertise_Some:
  "advertise M c = Some a \<longleftrightarrow>
     (let url = trim (ap_public_base_url (lc_api c)) in
      ap_advertise_lan (lc_api c) \<and> url \<noteq> [] \<and> \<not> contains_text url (lit ''127.0.0.1'') \<and> \<not> contains_text url (lit ''localhost'')
      \<and> md_daemon M \<and> md_service_info M a \<and> md_register M a \<and> a = advert_of M c)"
  by (auto simp: advertise_def Let_def simp del: lit_Cons)

lemma advert_port: "ad_port (advert_of M c) < 65536"
  by (auto simp: advert_of_def Let_def parse_u16_def split: option.splits)

text \<open>
  C36: What a server announces on the local network. Announcing was asked for; the instance name has only the characters
  of a DNS label whatever the host name holds, and is a legal label of at most 63 octets when the first label of the host
  name is no longer than that; the port is one; the URL is the configured one, does not contain the literal text
  \<open>127.0.0.1\<close> or \<open>localhost\<close> (other spellings of a loopback address do pass, see below), and nothing else is told but the
  version and the kind of credential: two servers that differ only in keys, tokens, secrets and paths announce the same.
\<close>

theorem advert_is_public:
  assumes "advertise M c = Some a"
  shows "ap_advertise_lan (lc_api c) \<and> label_chars (ad_instance a) \<and>
    (length (split_first 46 (raw_hostname (md_hostname_var M) (md_etc_hostname M))) \<le> 63 \<longrightarrow> dns_label (ad_instance a)) \<and>
    ad_host a = ad_instance a @ lit ''.local.'' \<and> ad_port a < 65536 \<and>
    ad_props a = [(lit ''url'', trim (ap_public_base_url (lc_api c))), (lit ''version'', md_version M),
      (lit ''auth'', if au_trust_tailscale_identity (lc_auth c) then lit ''tailnet'' else lit ''token'')] \<and>
    (\<nexists>p q. trim (ap_public_base_url (lc_api c)) = p @ lit ''127.0.0.1'' @ q) \<and>
    (\<nexists>p q. trim (ap_public_base_url (lc_api c)) = p @ lit ''localhost'' @ q) \<and>
    (\<forall>c'. lc_api c' = lc_api c \<and> au_trust_tailscale_identity (lc_auth c') = au_trust_tailscale_identity (lc_auth c)
       \<longrightarrow> advertise M c' = Some a)"
proof -
  have "advertise M c' = Some a"
    if "lc_api c' = lc_api c" "au_trust_tailscale_identity (lc_auth c') = au_trust_tailscale_identity (lc_auth c)" for c'
  proof -
    have "advert_of M c' = advert_of M c" by (simp only: advert_of_def that)
    then have "advertise M c' = advertise M c" by (simp only: advertise_def that)
    with assms show ?thesis by simp
  qed
  moreover have "a = advert_of M c" "ap_advertise_lan (lc_api c)"
    "\<not> contains_text (trim (ap_public_base_url (lc_api c))) (lit ''127.0.0.1'')"
    "\<not> contains_text (trim (ap_public_base_url (lc_api c))) (lit ''localhost'')"
    using assms unfolding advertise_Some Let_def by blast+
  ultimately show ?thesis
    using label_chars_hostname dns_label_hostname advert_port
    by (simp add: contains_text_iff advert_of_def Let_def del: lit_Cons)
qed

definition demo_mdns :: mdns_env where
  "demo_mdns = \<lparr>md_hostname_var = Some (lit ''-My Box!.lan''), md_etc_hostname = None, md_version = lit ''0.1.0'', md_daemon = True,
     md_service_info = (\<lambda>_. True), md_register = (\<lambda>_. True)\<rparr>"

definition lan_config :: loaded_config where
  "lan_config = default_config\<lparr>lc_api := default_api\<lparr>ap_advertise_lan := True, ap_public_base_url := lit ''https://box.ts.net''\<rparr>\<rparr>"

lemma lan_config_advertised:
  "map_option ad_instance (advertise demo_mdns lan_config) = Some (lit ''My-Box'')"
  by (simp add: advertise_def advert_of_def demo_mdns_def lan_config_def default_api_def default_config_def hostname_def raw_hostname_def text_defs
      ascii_alphanumeric_def is_digit_def starts_with_def Let_def)

theorem advert_is_public_witness:
  "\<exists>a. advertise demo_mdns lan_config = Some a \<and> ad_instance a = lit ''My-Box'' \<and> dns_label (ad_instance a)"
proof -
  obtain a where a: "advertise demo_mdns lan_config = Some a" "ad_instance a = lit ''My-Box''"
    using lan_config_advertised by (auto simp del: lit_Cons)
  have "length (split_first 46 (raw_hostname (md_hostname_var demo_mdns) (md_etc_hostname demo_mdns))) \<le> 63"
    by (simp add: demo_mdns_def raw_hostname_def text_defs)
  then show ?thesis using a advert_is_public [OF a(1)] by blast
qed

text \<open>A first label of the host name that is too long for a label is announced as it is.\<close>

lemma long_hostname_kept: "hostname (Some (replicate 64 97)) etc = replicate 64 97"
  by (simp add: hostname_def raw_hostname_def text_defs ascii_alphanumeric_def eval_nat_numeral)

text \<open>The test for a loopback URL knows two spellings: the IPv6 one is announced.\<close>

lemma ipv6_loopback_announced:
  "\<exists>a. advertise demo_mdns (lan_config\<lparr>lc_api := (lc_api lan_config)\<lparr>ap_public_base_url := lit ''http://[::1]:8443''\<rparr>\<rparr>) = Some a"
  by (simp add: advertise_def advert_of_def demo_mdns_def lan_config_def default_api_def default_config_def hostname_def raw_hostname_def text_defs
      ascii_alphanumeric_def is_digit_def starts_with_def Let_def)

section \<open>Who a started server lets in\<close>

lemma load_device_keys_lookup:
  assumes "load_device_keys present contents parse_toml = Inr ks"
  shows "map_of ks t \<noteq> None \<longleftrightarrow>
    present \<and> (\<exists>s table device. contents = Inr s \<and> parse_toml s = Some table \<and> (device, t) \<in> set table)"
proof -
  have upd: "map_of (fold (\<lambda>(device_id, key) ks. AList.update key device_id ks) table acc) t \<noteq> None \<longleftrightarrow>
      map_of acc t \<noteq> None \<or> t \<in> snd ` set table" for table acc
    by (induction table arbitrary: acc) (auto simp: update_conv')
  show ?thesis
  proof (cases present)
    case True
    with assms obtain s table where "contents = Inr s" "parse_toml s = Some table"
      "ks = fold (\<lambda>(device_id, key) ks. AList.update key device_id ks) table []"
      by (auto simp: load_device_keys_def split: sum.splits option.splits)
    then show ?thesis using upd [of table "[]"] True by force
  qed (use assms in \<open>simp add: load_device_keys_def\<close>)
qed

lemma serve_Inr:
  "serve E c = Inr (st, addr, ad) \<longleftrightarrow>
     build_state E c = Inr st \<and> su_parse_addr E (ap_bind (lc_api c)) = Some addr \<and> su_binds E addr \<and> su_local_addr E \<and>
     ad = advertise (su_mdns E) c"
  by (auto simp: serve_def split: sum.splits option.splits)

lemma build_state_Inr:
  assumes "build_state E c = Inr st"
  obtains ks where "bs_auth st = auth_state_of (lc_auth c) ks"
    "(case au_device_keys (lc_auth c) of None \<Rightarrow> Inr []
      | Some p \<Rightarrow> load_device_keys (su_exists E p) (su_read E p) (su_toml E)) = Inr ks"
    "su_connects E" "build_embedder (su_native E) (lm_embed_dim (lc_llm c)) = Inr (bs_embed_dim st)"
  using assms by (auto simp: build_state_def Let_def split: sum.splits if_splits)

text \<open>
  C35: With device tokens required and the identity header off, a server that has started admits a request exactly when
  its bearer token is the key of some device in the file the settings name. A file that is absent, or not named, admits
  nobody; a file that cannot be read or parsed keeps the server from starting.
\<close>

theorem started_server_admits:
  assumes "serve E c = Inr (st, addr, ad)" and "au_require_device_token (lc_auth c)"
    and "\<not> au_trust_tailscale_identity (lc_auth c)"
  shows "require_auth (bs_auth st) req = Inr () \<longleftrightarrow>
    (\<exists>p s table t device. au_device_keys (lc_auth c) = Some p \<and> su_exists E p \<and> su_read E p = Inr s \<and>
       su_toml E s = Some table \<and> bearer_token req = Some t \<and> (device, t) \<in> set table)"
proof -
  have "build_state E c = Inr st" using assms(1) unfolding serve_Inr by blast
  then obtain ks where ks: "bs_auth st = auth_state_of (lc_auth c) ks"
    "(case au_device_keys (lc_auth c) of None \<Rightarrow> Inr []
      | Some p \<Rightarrow> load_device_keys (su_exists E p) (su_read E p) (su_toml E)) = Inr ks"
    by (rule build_state_Inr)
  have "require_auth (bs_auth st) req = Inr () \<longleftrightarrow> (\<exists>t. bearer_token req = Some t \<and> map_of ks t \<noteq> None)"
    using assms(2,3) ks(1)
    by (auto simp: require_auth_def auth_state_of_def tailnet_login_def is_valid_def split: option.splits)
  also have "\<dots> \<longleftrightarrow> (\<exists>p s table t device. au_device_keys (lc_auth c) = Some p \<and> su_exists E p \<and> su_read E p = Inr s \<and>
       su_toml E s = Some table \<and> bearer_token req = Some t \<and> (device, t) \<in> set table)"
  proof (cases "au_device_keys (lc_auth c)")
    case None
    then show ?thesis using ks(2) by auto
  next
    case (Some p)
    then show ?thesis using ks(2) load_device_keys_lookup [of "su_exists E p" "su_read E p" "su_toml E" ks]
      by (simp only: option.case) blast
  qed
  finally show ?thesis .
qed

definition demo_startup :: startup_env where
  "demo_startup = \<lparr>su_connects = True, su_native = None, su_exists = (\<lambda>_. True), su_read = (\<lambda>_. Inr []),
     su_toml = (\<lambda>_. Some [(lit ''phone'', lit ''k1''), (lit ''watch'', lit ''k2'')]),
     su_parse_addr = (\<lambda>_. Some (V4 127 0 0 1, 8443)), su_binds = (\<lambda>_. True), su_local_addr = True, su_mdns = demo_mdns\<rparr>"

definition guarded_config :: loaded_config where
  "guarded_config = default_config\<lparr>lc_auth := default_auth\<lparr>au_require_device_token := True, au_device_keys := Some (lit ''keys'')\<rparr>\<rparr>"

definition bearing :: "string \<Rightarrow> api_request" where
  "bearing v = \<lparr>authorization = Some (lit v), tailscale_user_login = None, peer = None\<rparr>"

theorem started_server_admits_witness:
  "\<exists>st addr ad. serve demo_startup guarded_config = Inr (st, addr, ad) \<and>
     require_auth (bs_auth st) (bearing ''Bearer k2'') = Inr () \<and> require_auth (bs_auth st) (bearing ''Bearer k3'') \<noteq> Inr ()"
proof -
  obtain st addr ad where up: "serve demo_startup guarded_config = Inr (st, addr, ad)"
    by (simp add: serve_def build_state_def demo_startup_def guarded_config_def default_config_def default_llm_def
        build_embedder_def hash_embedder_dim_def load_device_keys_def default_auth_def Let_def)
  have req: "au_require_device_token (lc_auth guarded_config)" "\<not> au_trust_tailscale_identity (lc_auth guarded_config)"
    by (simp_all add: guarded_config_def default_auth_def)
  have t: "bearer_token (bearing ''Bearer k2'') = Some (lit ''k2'')" "bearer_token (bearing ''Bearer k3'') = Some (lit ''k3'')"
    by (simp_all add: bearer_token_def bearing_def text_defs)
  have keys: "au_device_keys (lc_auth guarded_config) = Some (lit ''keys'')" by (simp add: guarded_config_def)
  show ?thesis
    using up started_server_admits [OF up req, of "bearing ''Bearer k2''"] started_server_admits [OF up req, of "bearing ''Bearer k3''"]
    by (simp add: t keys demo_startup_def)
qed

section \<open>The defaults\<close>

definition update_auth_of :: "update_section \<Rightarrow> update_config" where
  "update_auth_of u = \<lparr>upd_enabled = us_enabled u, upd_token = us_token u\<rparr>"

text \<open>
  Without a file, and with an environment that sets nothing, the server is open to whoever reaches its loopback address,
  believes no header, announces nothing and answers 404 to updates; a worker takes every stage; and the width of the
  embeddings is one for which the hash embedder never answers the zero vector.
\<close>

lemma defaults_as_documented:
  assumes "extraction [Serialized default_config, env_layer] = Some default_config"
  shows "\<exists>c. load_config extraction exists absolute None = Inr c \<and>
    (\<forall>req. require_auth (auth_state_of (lc_auth c) ks) req = Inr ()) \<and>
    (\<forall>req. require_update_auth (update_auth_of (lc_update c)) req = Inl NotFound) \<and> advertise M c = None \<and>
    effective_stages (wk_stages (lc_worker c)) = ALL_KINDS \<and> summary_budget (llm_config.truncate (lc_llm c)) = 18000 \<and>
    build_embedder None (lm_embed_dim (lc_llm c)) = Inr 768 \<and> (\<exists>x \<in> set (hash_vector alnum stable_hash 768 t). x \<noteq> 0)"
proof (intro exI conjI)
  show "load_config extraction exists absolute None = Inr (normalize_config absolute default_config)"
    using assms by (simp add: load_config_def Let_def)
  show "\<exists>x \<in> set (hash_vector alnum stable_hash 768 t). x \<noteq> 0" using hash_vector_nonzero [of 768] by simp
qed (simp_all add: normalize_config_def default_config_def default_auth_def auth_state_of_def require_auth_def
    require_update_auth_def update_auth_of_def default_update_def update_cfg.defs default_update_cfg_def update_section.defs
    advertise_def default_api_def default_worker_def effective_stages_def text_defs default_llm_def llm_config.defs
    summary_budget_def build_embedder_def hash_embedder_dim_def Let_def)

text \<open>Every path the processes share is absolute after loading, when the system can make it so.\<close>

lemma loaded_paths_absolute:
  assumes "load_config extraction exists absolute path = Inr c" and "\<And>p. absolute p \<noteq> None"
  shows "st_blobs (lc_storage c) \<in> range (\<lambda>p. the (absolute p))" "wk_models_dir (lc_worker c) \<in> range (\<lambda>p. the (absolute p))"
    "uc_staging_dir (lc_update c) \<in> range (\<lambda>p. the (absolute p))"
proof -
  obtain c0 where "c = normalize_config absolute c0"
    using assms(1) by (auto simp: load_config_def Let_def split: option.splits if_splits)
  moreover have "(case absolute p of None \<Rightarrow> p | Some q \<Rightarrow> q) = the (absolute p)" for p
    using assms(2) [of p] by (cases "absolute p") auto
  ultimately show "st_blobs (lc_storage c) \<in> range (\<lambda>p. the (absolute p))" "wk_models_dir (lc_worker c) \<in> range (\<lambda>p. the (absolute p))"
    "uc_staging_dir (lc_update c) \<in> range (\<lambda>p. the (absolute p))"
    by (simp_all add: normalize_config_def normalize_paths_def Let_def)
qed

end
