(* ===== verification/Scribe_Rows.thy ===== *)
theory Scribe_Rows
  imports Scribe_Config
begin

text \<open>
  What the remaining statements of \<open>crates/scribe-db\<close> read: the decoding of rows (\<open>row.rs\<close>), the voice nearest to a voice
  print (\<open>speakers.rs\<close>), single reads of summaries and chunks (\<open>summaries.rs\<close>, \<open>chunks.rs\<close>), and the guard that keeps
  destructive tests away from a database in use (\<open>lib.rs\<close>).

  A row is the struct it is decoded into, with the text of its enumerated columns beside it. The distance of pgvector
  and the order of rows that compare equal are parameters.
\<close>

section \<open>Decoding rows\<close>

definition parse_enum :: "(rstr \<Rightarrow> 'a option) \<Rightarrow> rstr \<Rightarrow> 'a res" where
  "parse_enum from_str s = (case from_str s of None \<Rightarrow> Inl Database | Some x \<Rightarrow> Inr x)"

definition recording_from_row :: "rstr \<Rightarrow> recording \<Rightarrow> recording res" where
  "recording_from_row st row =
     (case parse_enum status_from_str st of Inl e \<Rightarrow> Inl e | Inr s \<Rightarrow> Inr (row\<lparr>rec_status := s\<rparr>))"

definition job_from_row :: "rstr \<Rightarrow> rstr \<Rightarrow> job \<Rightarrow> job res" where
  "job_from_row k_text s_text row =
     (case parse_enum kind_from_str k_text of
        Inl e \<Rightarrow> Inl e
      | Inr k \<Rightarrow> (case parse_enum state_from_str s_text of
          Inl e \<Rightarrow> Inl e
        | Inr s \<Rightarrow> Inr (row\<lparr>job_kind := k, job_state := s\<rparr>)))"

text \<open>What the code writes, it reads back; any other text of a column is an error and never a panic.\<close>

lemma recording_row_roundtrip: "recording_from_row (status_as_str (rec_status r)) r = Inr r"
  by (simp add: recording_from_row_def parse_enum_def)

lemma job_row_roundtrip: "job_from_row (kind_as_str (job_kind j)) (state_as_str (job_state j)) j = Inr j"
proof -
  have "kind_from_str (kind_as_str k) = Some k" for k by (rule kind_from_str_lower) (cases k; simp add: text_defs)
  then show ?thesis by (simp add: job_from_row_def parse_enum_def)
qed

lemma bad_row_is_database_error:
  "status_from_str s = None \<Longrightarrow> recording_from_row s r = Inl Database"
  "kind_from_str k = None \<Longrightarrow> job_from_row k s j = Inl Database"
  "state_from_str s = None \<Longrightarrow> job_from_row k s j = Inl Database"
  by (auto simp: recording_from_row_def job_from_row_def parse_enum_def split: option.split)

section \<open>The nearest voice\<close>

text \<open>\<open>ORDER BY embedding <=> $1 LIMIT 1\<close>: \<open>tie\<close> is the order the database has among equal distances.\<close>

definition match_speaker_by_embedding ::
  "(f32 list \<Rightarrow> f32 list \<Rightarrow> 'd :: linorder) \<Rightarrow> ('d \<Rightarrow> f32) \<Rightarrow> (f32 \<Rightarrow> f32 \<Rightarrow> bool) \<Rightarrow> (speaker_row list \<Rightarrow> speaker_row list) \<Rightarrow>
     f32 list \<Rightarrow> f32 \<Rightarrow> db \<Rightarrow> (speaker_row \<times> f32) option" where
  "match_speaker_by_embedding distance simil lt tie e threshold d =
     (case sort_key (\<lambda>s. distance (the (sp_embedding s)) e) (tie (filter (\<lambda>s. sp_embedding s \<noteq> None) (speakers d))) of
        [] \<Rightarrow> None
      | s # _ \<Rightarrow> (let sim = simil (distance (the (sp_embedding s)) e) in if lt sim threshold then None else Some (s, sim)))"

definition nearest_enrolled ::
  "(f32 list \<Rightarrow> f32 list \<Rightarrow> 'd :: linorder) \<Rightarrow> ('d \<Rightarrow> f32) \<Rightarrow> (f32 \<Rightarrow> f32 \<Rightarrow> bool) \<Rightarrow> (speaker_row list \<Rightarrow> speaker_row list) \<Rightarrow>
     f32 list \<Rightarrow> f32 \<Rightarrow> db \<Rightarrow> (speaker_row \<times> f32) option" where
  "nearest_enrolled distance simil lt tie e threshold d = match_speaker_by_embedding distance simil lt tie e threshold d"

lemma match_speaker_nearest:
  assumes "match_speaker_by_embedding distance simil lt tie e threshold d = Some (s, sim)"
    and "\<And>xs. set (tie xs) = set xs"
  shows "s \<in> set (speakers d)" "sp_embedding s \<noteq> None" "\<not> lt sim threshold"
    "t \<in> set (speakers d) \<Longrightarrow> sp_embedding t = Some v \<Longrightarrow> distance (the (sp_embedding s)) e \<le> distance v e"
proof -
  let ?k = "\<lambda>s. distance (the (sp_embedding s)) e"
  let ?xs = "sort_key ?k (tie (filter (\<lambda>s. sp_embedding s \<noteq> None) (speakers d)))"
  obtain r where r: "?xs = s # r" "\<not> lt sim threshold"
    using assms(1) by (auto simp: match_speaker_by_embedding_def Let_def split: list.splits if_splits)
  have set: "set ?xs = {s \<in> set (speakers d). sp_embedding s \<noteq> None}" by (simp add: assms(2))
  have "s \<in> set ?xs" unfolding r(1) by simp
  then show "s \<in> set (speakers d)" "sp_embedding s \<noteq> None" unfolding set by blast+
  show "\<not> lt sim threshold" by (rule r(2))
  have "sorted (map ?k (s # r))" unfolding r(1) [symmetric] by (rule sorted_sort_key)
  then have "\<forall>x \<in> set (s # r). ?k s \<le> ?k x" by auto
  moreover assume t: "t \<in> set (speakers d)" "sp_embedding t = Some v"
  then have "t \<in> set ?xs" unfolding set by simp
  then have "t \<in> set (s # r)" unfolding r(1) .
  ultimately show "?k s \<le> distance v e" using t(2) by fastforce
qed

lemma match_speaker_none:
  assumes "match_speaker_by_embedding distance simil lt tie e threshold d = None" and "\<And>xs. set (tie xs) = set xs"
    and "\<And>x y. x \<le> y \<Longrightarrow> lt (simil x) threshold \<Longrightarrow> lt (simil y) threshold"
    and "t \<in> set (speakers d)" and "sp_embedding t = Some v"
  shows "lt (simil (distance v e)) threshold"
proof -
  let ?k = "\<lambda>s. distance (the (sp_embedding s)) e"
  let ?xs = "sort_key ?k (tie (filter (\<lambda>s. sp_embedding s \<noteq> None) (speakers d)))"
  have t: "t \<in> set ?xs" using assms by simp
  then have "?xs \<noteq> []" by (metis empty_iff empty_set)
  then obtain s r where r: "?xs = s # r" by (meson neq_Nil_conv)
  then have "lt (simil (?k s)) threshold"
    using assms(1) by (simp add: match_speaker_by_embedding_def Let_def split: if_splits)
  moreover have "sorted (map ?k (s # r))" unfolding r [symmetric] by (rule sorted_sort_key)
  then have "?k s \<le> distance v e" using t assms(5) unfolding r by auto
  ultimately show ?thesis by (rule assms(3) [rotated])
qed

section \<open>Single reads\<close>

definition get_summary :: "(summary_row list \<Rightarrow> summary_row list) \<Rightarrow> db \<Rightarrow> uuid \<Rightarrow> summary_row option" where
  "get_summary by_template d rid =
     (case sort_key s_created_at (by_template (filter (\<lambda>s. s_recording_id s = rid) (summaries d))) of
        [] \<Rightarrow> None
      | s # _ \<Rightarrow> Some s)"

text \<open>Rows without a start come last; the vector is not returned.\<close>

definition list_chunks_by_recording :: "(chunk_row list \<Rightarrow> chunk_row list) \<Rightarrow> db \<Rightarrow> uuid \<Rightarrow> chunk_row list" where
  "list_chunks_by_recording by_id d rid =
     (let rows = by_id (filter (\<lambda>c. c_recording_id c = rid) (chunks d));
          timed = sort_key (\<lambda>c. the (c_start_ms c)) (filter (\<lambda>c. c_start_ms c \<noteq> None) rows);
          untimed = filter (\<lambda>c. c_start_ms c = None) rows
      in map (\<lambda>c. c\<lparr>c_embedding := []\<rparr>) (timed @ untimed))"

lemma get_summary_first: "get_summary by_template d rid =
    (case list_summaries_by_recording by_template d rid of [] \<Rightarrow> None | s # _ \<Rightarrow> Some s)"
  by (simp add: get_summary_def list_summaries_by_recording_def)

section \<open>The guard of destructive tests\<close>

definition test_db_name :: "rstr \<Rightarrow> rstr" where
  "test_db_name url = takeWhile (\<lambda>c. c \<noteq> 63 \<and> c \<noteq> 35) (last_piece 47 url)"

text \<open>\<open>False\<close> is the panic that stops the test.\<close>

definition assert_disposable_test_db :: "rstr option \<Rightarrow> rstr \<Rightarrow> bool" where
  "assert_disposable_test_db override url \<longleftrightarrow>
     ends_with (test_db_name url) (lit ''_test'') \<or> ends_with (test_db_name url) (lit ''-test'') \<or>
     (case override of None \<Rightarrow> False | Some v \<Rightarrow> v = lit ''1'' \<or> eq_ignore_ascii_case v (lit ''true''))"

lemma last_piece_append: "47 \<notin> set s \<Longrightarrow> last_piece 47 (p @ 47 # s) = s"
proof -
  assume "47 \<notin> set s"
  then have "takeWhile (\<lambda>c. c \<noteq> 47) (rev s @ 47 # rev p) = rev s" by (subst takeWhile_append2) auto
  then show ?thesis by (simp add: last_piece_def)
qed

text \<open>
  A database that is not named like a test database is protected when the rest of the URL holds no slash ...
\<close>

lemma guard_protects:
  assumes "47 \<notin> set db" "63 \<notin> set db" "35 \<notin> set db" "47 \<notin> set rest" "rest = [] \<or> hd rest = 63 \<or> hd rest = 35"
    and "\<not> ends_with db (lit ''_test'')" "\<not> ends_with db (lit ''-test'')"
  shows "\<not> assert_disposable_test_db None (server @ 47 # db @ rest)"
proof -
  have "takeWhile (\<lambda>c. c \<noteq> 63 \<and> c \<noteq> 35) (db @ rest) = db"
    using assms(2,3,5) by (cases rest) (auto simp: takeWhile_append takeWhile_eq_all_conv)
  then have "test_db_name (server @ 47 # db @ rest) = db"
    using assms(1,4) last_piece_append [of "db @ rest" server] by (simp add: test_db_name_def)
  then show ?thesis using assms(6,7) by (simp add: assert_disposable_test_db_def del: lit_Cons)
qed

text \<open>... but a parameter that is a path, such as the directory of a socket, is taken for the name.\<close>

lemma guard_misled: "assert_disposable_test_db None (lit ''postgres:///scribe?host=/tmp/pg_test'')"
  by (simp add: assert_disposable_test_db_def test_db_name_def last_piece_def ends_with_def)

end
