(* ===== verification/Scribe_Engines.thy ===== *)
theory Scribe_Engines
  imports Scribe_Rows
begin

text \<open>
  What a worker loads once and shares: \<open>crates/scribe-pipeline/src/engines.rs\<close> with the embedder that is built on first use,
  the native text embedder (\<open>crates/scribe-llm/src/embed.rs\<close>, over the library fastembed), the pseudo-random voice prints of
  the stub engine (\<open>crates/scribe-asr/src/stub.rs\<close>) on 64-bit words, and the file in which diarization keeps the fragments
  of a recording (\<open>crates/scribe-asr/src/real/diarize.rs\<close>).
\<close>

unbundle bit_operations_syntax

section \<open>The embedder on first use\<close>

text \<open>\<open>built\<close> is what building it would answer now; the lock makes one call after the other.\<close>

definition get_embedder :: "'e res \<Rightarrow> 'e option \<Rightarrow> 'e res \<times> 'e option" where
  "get_embedder built cached =
     (case cached of
        Some e \<Rightarrow> (Inr e, cached)
      | None \<Rightarrow> (case built of Inl _ \<Rightarrow> (Inl Model, None) | Inr e \<Rightarrow> (Inr e, Some e)))"

fun get_embedders :: "'e res list \<Rightarrow> 'e option \<Rightarrow> 'e res list \<times> 'e option" where
  "get_embedders [] cached = ([], cached)"
| "get_embedders (b # bs) cached =
     (case get_embedder b cached of (r, c) \<Rightarrow> case get_embedders bs c of (rs, c') \<Rightarrow> (r # rs, c'))"

record engines =
  en_speech :: backend
  en_embedder :: "unit option"
  en_ollama :: chat_client

definition load_engines :: "backend res \<Rightarrow> loaded_config \<Rightarrow> engines res" where
  "load_engines speech c =
     (case speech of
        Inl e \<Rightarrow> Inl e
      | Inr b \<Rightarrow> Inr \<lparr>en_speech = b, en_embedder = None,
          en_ollama = new_client (lm_provider (lc_llm c)) (lm_base_url (lc_llm c)) (lm_api_key (lc_llm c))\<rparr>)"

lemma get_embedders_cached: "get_embedders bs (Some e) = (replicate (length bs) (Inr e), Some e)"
  by (induction bs) (simp_all add: get_embedder_def)

text \<open>
  The calls fail until building succeeds for the first time; from then on every call answers that embedder, whatever
  building it again would have answered.
\<close>

lemma get_embedders_first_success:
  "fst (get_embedders bs None) =
     map (\<lambda>_. Inl Model) (takeWhile isl bs) @ replicate (length (dropWhile isl bs)) (hd (dropWhile isl bs))"
proof (induction bs)
  case (Cons b bs)
  then show ?case by (cases b) (auto simp: get_embedder_def get_embedders_cached split: prod.splits)
qed simp

section \<open>The native text embedder\<close>

datatype embedding_model = NomicEmbedTextV15 | AllMiniLML6V2 | BGESmallENV15 | BGEBaseENV15 | MultilingualE5Large

definition resolve_model :: "rstr \<Rightarrow> embedding_model" where
  "resolve_model name =
     (let norm_id = to_ascii_lowercase (trim name) in
      if norm_id \<in> lit ` {''nomic-embed-text'', ''nomic-embed-text-v1.5'', ''nomicembedtextv15''} then NomicEmbedTextV15
      else if norm_id \<in> lit ` {''all-minilm-l6-v2'', ''allminilml6v2''} then AllMiniLML6V2
      else if norm_id \<in> lit ` {''bge-small-en-v1.5'', ''bgesmallenv15''} then BGESmallENV15
      else if norm_id \<in> lit ` {''bge-base-en-v1.5'', ''bgebaseenv15''} then BGEBaseENV15
      else if norm_id \<in> lit ` {''multilingual-e5-large'', ''multilinguale5large''} then MultilingualE5Large
      else NomicEmbedTextV15)"

text \<open>fastembed: whether a model loads, and the vectors it answers.\<close>

record fastembed =
  fe_loads :: "embedding_model \<Rightarrow> bool"
  fe_embed :: "embedding_model \<Rightarrow> rstr list \<Rightarrow> f32 list list option"

definition new_fast_embedder :: "fastembed \<Rightarrow> rstr \<Rightarrow> (embedding_model \<times> nat) res" where
  "new_fast_embedder FE embed_model =
     (let m = resolve_model embed_model in
      if \<not> fe_loads FE m then Inl Model
      else case fe_embed FE m [lit ''dimension probe''] of
             None \<Rightarrow> Inl Model
           | Some [] \<Rightarrow> Inl Model
           | Some (v # _) \<Rightarrow> Inr (m, length v))"

definition fast_embed :: "fastembed \<Rightarrow> embedding_model \<Rightarrow> rstr list \<Rightarrow> f32 list list res" where
  "fast_embed FE m ts =
     (if ts = [] then Inr [] else case fe_embed FE m ts of None \<Rightarrow> Inl Model | Some vs \<Rightarrow> Inr vs)"

definition native_width :: "fastembed \<Rightarrow> rstr \<Rightarrow> nat res" where
  "native_width FE embed_model = (case new_fast_embedder FE embed_model of Inl e \<Rightarrow> Inl e | Inr (m, width) \<Rightarrow> Inr width)"

text \<open>An id it does not know is no error: the model is another one.\<close>

lemma unknown_model_falls_back: "resolve_model (lit ''text-embedding-3-large'') = NomicEmbedTextV15"
  by (simp add: resolve_model_def text_defs)

text \<open>
  With a library whose models answer one vector per text, all of one width, an embedder that was built for the
  configured width answers vectors of exactly that width.
\<close>

lemma fast_embed_width:
  assumes "build_embedder (Some (native_width FE embed_model)) embed_dim = Inr w"
    and "fast_embed FE (resolve_model embed_model) ts = Inr vs"
    and "\<And>m ts vs. fe_embed FE m ts = Some vs \<Longrightarrow> length vs = length ts \<and> (\<forall>v \<in> set vs. length v = width m)"
  shows "length vs = length ts" "v \<in> set vs \<Longrightarrow> length v = embed_dim"
proof -
  have "native_width FE embed_model = Inr embed_dim" using assms(1) by (auto simp: build_embedder_def split: sum.splits if_splits)
  then obtain m where m: "new_fast_embedder FE embed_model = Inr (m, embed_dim)"
    by (auto simp: native_width_def split: sum.splits)
  then obtain u us where u: "m = resolve_model embed_model" "fe_embed FE m [lit ''dimension probe''] = Some (u # us)" "length u = embed_dim"
    by (auto simp: new_fast_embedder_def Let_def split: if_splits option.splits list.splits)
  then have width: "width m = embed_dim" using assms(3) [OF u(2)] by simp
  show "length vs = length ts" "v \<in> set vs \<Longrightarrow> length v = embed_dim"
    using assms(2) assms(3) [of m ts vs] u(1) width by (auto simp: fast_embed_def split: if_splits option.splits)
qed

lemma hash_embed_width:
  assumes "hash_embed alnum stable_hash over_norm as_is width ts = Inr vs"
  shows "length vs = length ts" "v \<in> set vs \<Longrightarrow> length v = hash_embedder_dim width"
proof -
  have fold: "length (fold (\<lambda>tok. add_token n (stable_hash (to_ascii_lowercase tok))) toks u) = length u" for n toks u
    by (induction toks arbitrary: u) (simp_all add: add_token_def Let_def)
  have "length (hash_vector alnum stable_hash n t) = n" for n t by (simp add: hash_vector_def Let_def fold)
  then show "length vs = length ts" "v \<in> set vs \<Longrightarrow> length v = hash_embedder_dim width"
    using assms by (auto simp: hash_embed_def normalized_def)
qed

section \<open>Voice prints of the stub\<close>

definition EMBEDDING_DIM :: nat where "EMBEDDING_DIM = 192"

definition mix_byte :: "byte \<Rightarrow> 64 word \<Rightarrow> 64 word" where
  "mix_byte b state = (let s = (state + ucast b) * 0x1000000001B3 in s XOR drop_bit 27 s)"

definition seed_state :: "byte list \<Rightarrow> 64 word" where
  "seed_state seed = fold mix_byte seed 0x9E3779B97F4A7C15 XOR 0xD1B54A32D192ED03"

definition splitmix :: "64 word \<Rightarrow> 64 word" where
  "splitmix state =
     (let z = state; z = (z XOR drop_bit 30 z) * 0xBF58476D1CE4E5B9; z = (z XOR drop_bit 27 z) * 0x94D049BB133111EB
      in z XOR drop_bit 31 z)"

fun prng :: "nat \<Rightarrow> 64 word \<Rightarrow> 64 word list" where
  "prng 0 state = []"
| "prng (Suc n) state = (let state = state + 0x9E3779B97F4A7C15 in splitmix state # prng n state)"

text \<open>\<open>to_unit\<close> maps a word to a float between -1 and 1; \<open>norm\<close> is the length and \<open>over\<close> the division, both in single precision.\<close>

definition unit_vector_of :: "f32_ops \<Rightarrow> f32 list \<Rightarrow> f32 list" where
  "unit_vector_of F v =
     (let len = f_sqrt F (f_sum F (map (\<lambda>x. f_mul F x x) v))
      in if f_lt F F32_EPSILON len then map (\<lambda>x. f_div F x len) v
         else (case v of [] \<Rightarrow> [] | _ # r \<Rightarrow> ONE # r))"

definition deterministic_embedding :: "f32_ops \<Rightarrow> (64 word \<Rightarrow> f32) \<Rightarrow> byte list \<Rightarrow> f32 list" where
  "deterministic_embedding F to_unit seed = unit_vector_of F (map to_unit (prng EMBEDDING_DIM (seed_state seed)))"

definition stub_embed_speaker :: "f32_ops \<Rightarrow> (64 word \<Rightarrow> f32) \<Rightarrow> byte list option \<Rightarrow> f32 list res" where
  "stub_embed_speaker F to_unit bytes =
     (case bytes of None \<Rightarrow> Inl Io | Some bs \<Rightarrow> Inr (deterministic_embedding F to_unit bs))"

lemma length_prng [simp]: "length (prng n s) = n"
  by (induction n arbitrary: s) (simp_all add: Let_def)

lemma deterministic_embedding_width: "length (deterministic_embedding F to_unit seed) = EMBEDDING_DIM"
proof -
  have "length (unit_vector_of F v) = length v" for v by (cases v) (simp_all add: unit_vector_of_def Let_def)
  then show ?thesis by (simp add: deterministic_embedding_def)
qed

lemma stub_voice_widths:
  "(i, v) \<in> set (dz_embeddings (stub_diarize (deterministic_embedding F to_unit) ms expected)) \<Longrightarrow> length v = EMBEDDING_DIM"
  by (auto simp: stub_diarize_def Let_def deterministic_embedding_width)

text \<open>Every step of the generator can be undone: an odd factor has an inverse, and an xor with a shifted copy is injective.\<close>

lemma shift_fixed_zero:
  fixes d :: "64 word"
  assumes "d = drop_bit n d" and "0 < n"
  shows "d = 0"
proof -
  have "unat d = unat d div 2 ^ n" using assms(1) by (metis unat_drop_bit_eq drop_bit_eq_div)
  moreover have "unat d div 2 ^ n < unat d" if "0 < unat d"
    using that assms(2) by (intro div_less_dividend one_less_power) simp_all
  ultimately have "unat d = 0" by (metis less_irrefl neq0_conv)
  then show ?thesis by (simp add: unat_eq_0)
qed

lemma xor_swap:
  fixes a b c d :: "64 word"
  assumes "a XOR b = c XOR d"
  shows "a XOR c = b XOR d"
proof (rule bit_eqI)
  fix n
  have "bit (a XOR b) n = bit (c XOR d) n" using assms by simp
  then show "bit (a XOR c) n = bit (b XOR d) n" by (auto simp: bit_xor_iff)
qed

lemma xor_cancel:
  fixes a b k :: "64 word"
  assumes "k XOR a = k XOR b"
  shows "b = a"
proof (rule bit_eqI)
  fix n
  have "bit (k XOR a) n = bit (k XOR b) n" using assms by simp
  then show "bit b n = bit a n" by (auto simp: bit_xor_iff)
qed

lemma xor_shift_inject:
  fixes x y :: "64 word"
  assumes "x XOR drop_bit n x = y XOR drop_bit n y" and "0 < n"
  shows "x = y"
proof -
  have "x XOR y = drop_bit n x XOR drop_bit n y" using assms(1) by (rule xor_swap)
  also have "\<dots> = drop_bit n (x XOR y)" by (rule drop_bit_xor [symmetric])
  finally have "x XOR y = drop_bit n (x XOR y)" .
  then have "x XOR y = 0" using assms(2) by (rule shift_fixed_zero)
  then have "x XOR y = x XOR x" by simp
  then show ?thesis by (rule xor_cancel)
qed

lemma times_inject:
  fixes x y c i :: "64 word"
  assumes "x * c = y * c" and "c * i = 1"
  shows "x = y"
proof -
  have "x * (c * i) = y * (c * i)" using assms(1) by (simp only: mult.assoc [symmetric])
  then show ?thesis by (simp add: assms(2))
qed

lemma factors_odd:
  "(0x94D049BB133111EB :: 64 word) * 0x319642b2d24d8ec3 = 1" "(0xBF58476D1CE4E5B9 :: 64 word) * 0x96de1b173f119089 = 1"
  "(0x1000000001B3 :: 64 word) * 0xb46dd957aff6957b = 1"
  by simp_all

lemma splitmix_inject:
  assumes "splitmix x = splitmix y"
  shows "x = y"
proof -
  define f where "f = (\<lambda>x :: 64 word. (x XOR drop_bit 30 x) * 0xBF58476D1CE4E5B9)"
  define g where "g = (\<lambda>x :: 64 word. (x XOR drop_bit 27 x) * 0x94D049BB133111EB)"
  have "g (f x) XOR drop_bit 31 (g (f x)) = g (f y) XOR drop_bit 31 (g (f y))"
    using assms unfolding splitmix_def Let_def f_def g_def .
  then have "g (f x) = g (f y)" by (rule xor_shift_inject) simp
  then have "f x XOR drop_bit 27 (f x) = f y XOR drop_bit 27 (f y)" unfolding g_def by (rule times_inject [OF _ factors_odd(1)])
  then have "f x = f y" by (rule xor_shift_inject) simp
  then have "x XOR drop_bit 30 x = y XOR drop_bit 30 y" unfolding f_def by (rule times_inject [OF _ factors_odd(2)])
  then show ?thesis by (rule xor_shift_inject) simp
qed

lemma mix_byte_inject:
  assumes "mix_byte b s = mix_byte c t"
  shows "s + ucast b = t + ucast c"
proof -
  have "(s + ucast b) * 0x1000000001B3 = (t + ucast c) * 0x1000000001B3"
    using assms unfolding mix_byte_def Let_def by (rule xor_shift_inject) simp
  then show ?thesis by (rule times_inject [OF _ factors_odd(3)])
qed

lemma ucast_byte_inject:
  fixes b c :: byte
  assumes "(ucast b :: 64 word) = ucast c"
  shows "b = c"
proof (rule bit_word_eqI)
  fix n :: nat
  assume n: "n < LENGTH(8)"
  have "bit (ucast b :: 64 word) n = bit (ucast c :: 64 word) n" using assms by simp
  then show "bit b n = bit c n" using n by (simp add: bit_ucast_iff)
qed

lemma prng_nth: "i < n \<Longrightarrow> prng n s ! i = splitmix (s + of_nat (i + 1) * 0x9E3779B97F4A7C15)"
proof (induction n arbitrary: s i)
  case (Suc n)
  then show ?case by (cases i) (simp_all add: Let_def algebra_simps)
qed simp

lemma prng_inject: "i < n \<Longrightarrow> prng n s ! i = prng n t ! i \<Longrightarrow> s = t"
  by (simp add: prng_nth) (drule splitmix_inject, simp)

text \<open>
  Seeds that differ in their last byte alone, as those of two speakers of a stub diarization do, give streams that
  differ in every one of the 192 places; what can still make two voices alike is the rounding to a float.
\<close>

lemma stub_streams_apart:
  assumes "b \<noteq> c" and "i < EMBEDDING_DIM"
  shows "prng EMBEDDING_DIM (seed_state (seed @ [b])) ! i \<noteq> prng EMBEDDING_DIM (seed_state (seed @ [c])) ! i"
proof
  assume "prng EMBEDDING_DIM (seed_state (seed @ [b])) ! i = prng EMBEDDING_DIM (seed_state (seed @ [c])) ! i"
  then have "seed_state (seed @ [b]) = seed_state (seed @ [c])" by (rule prng_inject [OF assms(2)])
  then have "mix_byte b (fold mix_byte seed 0x9E3779B97F4A7C15) = mix_byte c (fold mix_byte seed 0x9E3779B97F4A7C15)"
    unfolding seed_state_def fold_append o_apply fold_simps xor.commute [of _ "0xD1B54A32D192ED03"] by (rule xor_cancel [OF sym])
  then have "(ucast b :: 64 word) = ucast c" by (auto dest: mix_byte_inject)
  then have "b = c" by (rule ucast_byte_inject)
  with assms(1) show False by simp
qed

text \<open>The index of a speaker is cut to a byte: speakers 256 apart have the same voice.\<close>

lemma stub_voices_wrap:
  "([0x5E, 0xED, of_nat (s + 256)] :: byte list) = [0x5E, 0xED, of_nat s]"
  by simp

end
