(* ===== verification/Scribe_Native.thy ===== *)
theory Scribe_Native
  imports Scribe_Engines
begin

text \<open>
  How the native engines are set up: the recognizer (\<open>SherpaTranscriber::load\<close>, \<open>crates/scribe-asr/src/real/asr.rs\<close>), the diarizer
  and its extractor (\<open>real/diarize.rs\<close>), the embedder of voice samples (\<open>real/embed.rs\<close>) and the engine made of the three
  (\<open>SpeechEngine::load_real\<close>, \<open>engine.rs\<close>). The library sherpa-onnx is a parameter: its default settings, and which
  settings it accepts. A path is text, so the error for a path that is not Unicode does not arise.
\<close>

section \<open>Settings of the recognizer\<close>

text \<open>\<open>provider_for\<close>, of which the code has three copies.\<close>

definition provider_for :: "rstr \<Rightarrow> rstr" where
  "provider_for device =
     (let d = to_ascii_lowercase (trim device) in
      if d = lit ''cuda'' \<or> d = lit ''gpu'' then lit ''cuda''
      else if d = lit ''coreml'' then lit ''coreml''
      else lit ''cpu'')"

record recognizer_config =
  rc_num_threads :: nat
  rc_provider :: rstr
  rc_model :: asr_model_paths
  rc_token_timestamps :: bool
  rc_decoding_method :: "rstr option"
  rc_max_active_paths :: int
  rc_hotwords_file :: "rstr option"
  rc_hotwords_score :: rat
  rc_modeling_unit :: "rstr option"
  rc_bpe_vocab :: "rstr option"

text \<open>The defaults of the library for what the code leaves alone.\<close>

record recognizer_defaults =
  rd_token_timestamps :: bool
  rd_decoding_method :: "rstr option"
  rd_max_active_paths :: int
  rd_hotwords_score :: rat

definition base_config :: "recognizer_defaults \<Rightarrow> asr_model_paths \<Rightarrow> rstr \<Rightarrow> nat \<Rightarrow> recognizer_config" where
  "base_config D paths device num_threads =
     \<lparr>rc_num_threads = num_threads, rc_provider = provider_for device, rc_model = paths,
      rc_token_timestamps = (case paths of Whisper _ _ _ \<Rightarrow> True | Transducer _ _ _ _ \<Rightarrow> rd_token_timestamps D),
      rc_decoding_method = rd_decoding_method D, rc_max_active_paths = rd_max_active_paths D, rc_hotwords_file = None,
      rc_hotwords_score = rd_hotwords_score D, rc_modeling_unit = None, rc_bpe_vocab = None\<rparr>"

text \<open>The experiment hooks \<open>SCRIBE_ASR_DECODING\<close> and \<open>SCRIBE_ASR_BEAM\<close> (what it parses to).\<close>

definition with_decoding :: "rstr option \<Rightarrow> int option \<Rightarrow> recognizer_config \<Rightarrow> recognizer_config" where
  "with_decoding decoding beam c =
     (case decoding of
        None \<Rightarrow> c
      | Some m \<Rightarrow> c\<lparr>rc_decoding_method := Some m, rc_max_active_paths := unwrap_or beam 4\<rparr>)"

definition with_hotwords :: "rstr option \<Rightarrow> rat \<Rightarrow> rstr option \<Rightarrow> recognizer_config \<Rightarrow> recognizer_config" where
  "with_hotwords hotwords_file score bpe_vocab c =
     (case hotwords_file of
        None \<Rightarrow> c
      | Some hw \<Rightarrow>
          if hw = [] then c
          else let c = c\<lparr>rc_decoding_method := Some (lit ''modified_beam_search'')\<rparr>;
                   c = (if rc_max_active_paths c \<le> 0 then c\<lparr>rc_max_active_paths := 4\<rparr> else c);
                   c = c\<lparr>rc_hotwords_file := Some hw, rc_hotwords_score := (if score > 0 then score else 2)\<rparr>
               in case bpe_vocab of
                    None \<Rightarrow> c
                  | Some v \<Rightarrow> c\<lparr>rc_modeling_unit := Some (lit ''bpe''), rc_bpe_vocab := Some v\<rparr>)"

definition recognizer_config_of ::
  "recognizer_defaults \<Rightarrow> rstr option \<Rightarrow> int option \<Rightarrow> asr_section \<Rightarrow> nat \<Rightarrow> asr_model_paths \<Rightarrow> recognizer_config" where
  "recognizer_config_of D decoding beam a num_threads paths =
     with_hotwords (as_hotwords_file a) (as_hotwords_score a) (as_bpe_vocab a)
       (with_decoding decoding beam (base_config D paths (as_device a) num_threads))"

definition max_clip_ms :: "asr_model_paths \<Rightarrow> int" where
  "max_clip_ms paths = (case paths of Whisper _ _ _ \<Rightarrow> WHISPER_WINDOW_MS | Transducer _ _ _ _ \<Rightarrow> TRANSDUCER_WINDOW_MS)"

definition load_transcriber :: "(recognizer_config \<Rightarrow> bool) \<Rightarrow> recognizer_config \<Rightarrow> (recognizer_config \<times> int) res" where
  "load_transcriber creates c = (if creates c then Inr (c, max_clip_ms (rc_model c)) else Inl Model)"

section \<open>Settings of the diarizer\<close>

definition CLUSTER_THRESHOLD :: f32 where "CLUSTER_THRESHOLD = 0x3F4CCCCD"
definition SEG_WINDOW_SHIFT :: f32 where "SEG_WINDOW_SHIFT = 0x3DCCCCCD"
definition MIN_DURATION_ON :: f32 where "MIN_DURATION_ON = 0x3E99999A"
definition MIN_DURATION_OFF :: f32 where "MIN_DURATION_OFF = 0x3F000000"

record extractor_config =
  xc_model :: rstr
  xc_num_threads :: nat
  xc_provider :: rstr

record diarizer_config =
  dg_segmentation :: rstr
  dg_window_shift :: f32
  dg_extractor :: extractor_config
  dg_num_clusters :: int
  dg_threshold :: f32
  dg_compute_confidence :: bool
  dg_min_duration_on :: f32
  dg_min_duration_off :: f32

definition extractor_of :: "rstr \<Rightarrow> rstr \<Rightarrow> nat \<Rightarrow> extractor_config" where
  "extractor_of model device num_threads = \<lparr>xc_model = model, xc_num_threads = num_threads, xc_provider = provider_for device\<rparr>"

text \<open>\<open>env\<close> is what a variable of the environment parses to as a float, if it is set and does.\<close>

definition diarizer_config_of :: "(string \<Rightarrow> f32 option) \<Rightarrow> diarization_model_paths \<Rightarrow> rstr \<Rightarrow> nat \<Rightarrow> diarizer_config" where
  "diarizer_config_of env dp device num_threads =
     \<lparr>dg_segmentation = dp_segmentation dp, dg_window_shift = unwrap_or (env ''SCRIBE_SEG_SHIFT'') SEG_WINDOW_SHIFT,
      dg_extractor = extractor_of (dp_embedding dp) device num_threads, dg_num_clusters = - 1,
      dg_threshold = unwrap_or (env ''SCRIBE_CLUSTER_THRESHOLD'') CLUSTER_THRESHOLD, dg_compute_confidence = False,
      dg_min_duration_on = unwrap_or (env ''SCRIBE_MIN_DURATION_ON'') MIN_DURATION_ON,
      dg_min_duration_off = unwrap_or (env ''SCRIBE_MIN_DURATION_OFF'') MIN_DURATION_OFF\<rparr>"

text \<open>Loading the diarizer only tries the extractor; the object itself is built for each recording.\<close>

definition load_diarizer :: "(extractor_config \<Rightarrow> bool) \<Rightarrow> diarization_model_paths \<Rightarrow> rstr \<Rightarrow> nat \<Rightarrow> unit res" where
  "load_diarizer extractor_creates dp device num_threads =
     (if extractor_creates (extractor_of (dp_embedding dp) device num_threads) then Inr () else Inl Model)"

definition build_diarizer :: "(diarizer_config \<Rightarrow> bool) \<Rightarrow> diarizer_config \<Rightarrow> diarizer_config res" where
  "build_diarizer creates c = (if creates c then Inr c else Inl Model)"

section \<open>The embedder of voice samples\<close>

definition load_sample_embedder :: "(extractor_config \<Rightarrow> bool) \<Rightarrow> (extractor_config \<Rightarrow> int) \<Rightarrow> extractor_config \<Rightarrow> nat res" where
  "load_sample_embedder creates dimension c = (if creates c then Inr (nat (max (dimension c) 0)) else Inl Model)"

text \<open>The three calls on the stream: whether it is created, is ready after the samples, and what it computes.\<close>

definition sample_embedding ::
  "'f arith \<Rightarrow> (32 word \<Rightarrow> 'f) \<Rightarrow> bool \<Rightarrow> ('f wav_data \<Rightarrow> bool) \<Rightarrow> ('f wav_data \<Rightarrow> f32 list option) \<Rightarrow> byte list option \<Rightarrow>
     f32 list res" where
  "sample_embedding A from_bits stream ready compute file_bytes =
     (case read_wav A from_bits file_bytes of
        Inl e \<Rightarrow> Inl e
      | Inr audio \<Rightarrow>
          if \<not> stream then Inl Model
          else if \<not> ready audio then Inl Model
          else (case compute audio of None \<Rightarrow> Inl Model | Some v \<Rightarrow> Inr v))"

section \<open>The engine\<close>

record sherpa =
  sh_defaults :: recognizer_defaults
  sh_recognizer :: "recognizer_config \<Rightarrow> bool"
  sh_extractor :: "extractor_config \<Rightarrow> bool"
  sh_dimension :: "extractor_config \<Rightarrow> int"

definition load_native ::
  "sherpa \<Rightarrow> rstr option \<Rightarrow> int option \<Rightarrow> nat option \<Rightarrow> asr_section \<Rightarrow> asr_model_paths \<Rightarrow> diarization_model_paths \<Rightarrow> unit res" where
  "load_native N decoding beam cores a ap dp =
     (let num_threads = resolved_num_threads (as_num_threads a) cores in
      case load_transcriber (sh_recognizer N) (recognizer_config_of (sh_defaults N) decoding beam a num_threads ap) of
        Inl e \<Rightarrow> Inl e
      | Inr _ \<Rightarrow>
     (case load_diarizer (sh_extractor N) dp (as_device a) num_threads of
        Inl e \<Rightarrow> Inl e
      | Inr _ \<Rightarrow>
     (case load_sample_embedder (sh_extractor N) (sh_dimension N) (extractor_of (dp_embedding dp) (as_device a) num_threads) of
        Inl e \<Rightarrow> Inl e
      | Inr _ \<Rightarrow> Inr ())))"

definition load_speech ::
  "bool \<Rightarrow> (rstr list \<Rightarrow> rstr list) \<Rightarrow> sherpa \<Rightarrow> rstr option \<Rightarrow> int option \<Rightarrow> nat option \<Rightarrow> model_fs \<Rightarrow> loaded_config \<Rightarrow> backend res" where
  "load_speech onnx arrange N decoding beam cores F c =
     load_engine onnx arrange (load_native N decoding beam cores (lc_asr c)) F (wk_models_dir (lc_worker c))
       (as_model (lc_asr c)) (as_diarization (lc_asr c))"

text \<open>An engine for diarization alone: no recognizer is loaded.\<close>

definition load_diarizer_only :: "sherpa \<Rightarrow> diarization_model_paths \<Rightarrow> rstr \<Rightarrow> nat \<Rightarrow> backend res" where
  "load_diarizer_only N dp device num_threads =
     (case load_diarizer (sh_extractor N) dp device num_threads of Inl e \<Rightarrow> Inl e | Inr _ \<Rightarrow> Inr Onnx)"

section \<open>What the settings do\<close>

text \<open>Without a hotwords file the settings decide nothing but the model, the threads and the device.\<close>

lemma no_hotwords_untouched:
  "as_hotwords_file a = None \<or> as_hotwords_file a = Some [] \<Longrightarrow>
     recognizer_config_of D None beam a n paths = base_config D paths (as_device a) n"
  by (auto simp: recognizer_config_of_def with_hotwords_def with_decoding_def)

text \<open>
  A hotwords file forces the beam search, whatever the hook asks for and whichever the layout, with at least one path;
  only a vocabulary makes it more than that.
\<close>

lemma hotwords_force_beam_search:
  fixes D decoding beam n paths
  assumes "as_hotwords_file a = Some hw" and "hw \<noteq> []"
  defines "c \<equiv> recognizer_config_of D decoding beam a n paths"
  shows "rc_decoding_method c = Some (lit ''modified_beam_search'')" "rc_max_active_paths c > 0" "rc_hotwords_file c = Some hw"
    "rc_hotwords_score c > 0" "rc_modeling_unit c \<noteq> None \<longleftrightarrow> as_bpe_vocab a \<noteq> None" "rc_model c = paths"
  using assms by (auto simp: recognizer_config_of_def with_hotwords_def with_decoding_def base_config_def Let_def split: option.splits)

text \<open>
  A library that decodes Whisper greedily only, as sherpa-onnx does, therefore refuses a Whisper model as soon as
  hotwords are configured, although the settings say that Whisper ignores them.
\<close>

lemma whisper_with_hotwords_fails:
  assumes "as_hotwords_file a = Some hw" and "hw \<noteq> []"
    and "\<And>c e d t. rc_model c = Whisper e d t \<Longrightarrow> rc_decoding_method c = Some (lit ''modified_beam_search'') \<Longrightarrow> \<not> sh_recognizer N c"
  shows "load_native N decoding beam cores a (Whisper e d t) dp = Inl Model"
proof -
  let ?c = "recognizer_config_of (sh_defaults N) decoding beam a (resolved_num_threads (as_num_threads a) cores) (Whisper e d t)"
  have "\<not> sh_recognizer N ?c"
    by (rule assms(3) [OF hotwords_force_beam_search(6) [OF assms(1,2)] hotwords_force_beam_search(1) [OF assms(1,2)]])
  then show ?thesis by (simp add: load_native_def Let_def load_transcriber_def)
qed

text \<open>
  The stub speaks only when files are missing or the build has no native engine: with the files in place a library that
  refuses a model is an error, never invented text.
\<close>

lemma native_failure_is_loud:
  assumes "real_models_present arrange F (wk_models_dir (lc_worker c)) (as_model (lc_asr c)) (as_diarization (lc_asr c))"
  shows "load_speech True arrange N decoding beam cores F c \<noteq> Inr Stub"
  using assms by (auto simp: load_speech_def load_engine_def load_real_def split: option.splits sum.splits)

lemma load_native_threads:
  assumes "load_native N decoding beam cores a ap dp = Inr ()" and "as_num_threads a = 0"
  shows "\<exists>c. sh_recognizer N c \<and> rc_num_threads c = auto_threads (case cores of None \<Rightarrow> 2 | Some n \<Rightarrow> n) \<and> rc_model c = ap"
proof -
  let ?n = "auto_threads (case cores of None \<Rightarrow> 2 | Some n \<Rightarrow> n)"
  let ?c = "recognizer_config_of (sh_defaults N) decoding beam a ?n ap"
  have "sh_recognizer N ?c"
    using assms by (auto simp: load_native_def Let_def resolved_num_threads_def load_transcriber_def split: sum.splits if_splits)
  moreover have "rc_num_threads ?c = ?n" "rc_model ?c = ap"
    by (simp_all add: recognizer_config_of_def with_hotwords_def with_decoding_def base_config_def Let_def split: option.split)
  ultimately show ?thesis by blast
qed

section \<open>A voice enrolled twice\<close>

definition DUPLICATE_VOICE_SIMILARITY :: f32 where "DUPLICATE_VOICE_SIMILARITY = 0x3F400000"

text \<open>Whom an operator is warned about before a new speaker is created.\<close>

definition warn_if_duplicate ::
  "(f32 list \<Rightarrow> f32 list \<Rightarrow> 'd :: linorder) \<Rightarrow> ('d \<Rightarrow> f32) \<Rightarrow> (f32 \<Rightarrow> f32 \<Rightarrow> bool) \<Rightarrow> (speaker_row list \<Rightarrow> speaker_row list) \<Rightarrow>
     f32 list \<Rightarrow> db \<Rightarrow> speaker_row option" where
  "warn_if_duplicate distance simil lt tie e d =
     map_option fst (nearest_enrolled distance simil lt tie e DUPLICATE_VOICE_SIMILARITY d)"

text \<open>The same voice print under another name is always noticed, by whichever row is nearest to it.\<close>

lemma same_voice_noticed:
  assumes "s \<in> set (speakers d)" and "sp_embedding s = Some e" and "\<not> lt (simil (distance e e)) DUPLICATE_VOICE_SIMILARITY"
    and "\<And>x y. x \<le> y \<Longrightarrow> lt (simil x) DUPLICATE_VOICE_SIMILARITY \<Longrightarrow> lt (simil y) DUPLICATE_VOICE_SIMILARITY"
    and "\<And>xs. set (tie xs) = set xs"
  shows "\<exists>t. warn_if_duplicate distance simil lt tie e d = Some t \<and> t \<in> set (speakers d)"
proof (cases "nearest_enrolled distance simil lt tie e DUPLICATE_VOICE_SIMILARITY d")
  case None
  then have "lt (simil (distance e e)) DUPLICATE_VOICE_SIMILARITY"
    unfolding nearest_enrolled_def using match_speaker_none assms(1,2,4,5) by blast
  with assms(3) show ?thesis by blast
next
  case (Some r)
  then have "match_speaker_by_embedding distance simil lt tie e DUPLICATE_VOICE_SIMILARITY d = Some (fst r, snd r)"
    by (simp add: nearest_enrolled_def)
  then have "fst r \<in> set (speakers d)" by (rule match_speaker_nearest(1) [OF _ assms(5)])
  then show ?thesis using Some by (simp add: warn_if_duplicate_def)
qed

end
