(* ===== verification/Scribe_Labels.thy ===== *)
theory Scribe_Labels
  imports Scribe_Drain
begin

text \<open>
  Speaker labels from end to end. Diarization stores one row per voice and hands its turns to the merge
  stage, which labels the words; grouping gives each utterance the label of its words; embedding copies it
  to the chunks. No foreign key ties a label to a voice, so that every label names a stored one is a fact
  about the stages together: it is proved here for \<open>process_recording_inline\<close> of
  \<open>crates/scribe-pipeline/src/lib.rs\<close> over the stages of \<open>Scribe_Stages\<close> and \<open>Scribe_Identity\<close>.
\<close>

section \<open>Labels come from turns\<close>

lemma by_speaker_from: "fst ` set (by_speaker w ts es) \<subseteq> fst ` set es \<union> t_local_idx ` set ts"
proof (induction w ts es rule: by_speaker.induct)
  case (2 w t ts es)
  then show ?case by (auto simp: Let_def fst_add_overlap split: if_splits)
qed simp

lemma nearest_turn_from: "nearest_turn m bd n ts = Some i \<Longrightarrow> n = Some i \<or> i \<in> t_local_idx ` set ts"
  by (induction m bd n ts rule: nearest_turn.induct) (auto simp: Let_def split: if_splits)

lemma best_speaker_from: "best_speaker turns w = Some i \<Longrightarrow> i \<in> t_local_idx ` set turns"
proof (cases "best_entry (by_speaker w turns [])")
  case None
  then show "best_speaker turns w = Some i \<Longrightarrow> i \<in> t_local_idx ` set turns"
    by (auto simp: best_speaker_def dest: nearest_turn_from)
next
  case (Some e)
  then show "best_speaker turns w = Some i \<Longrightarrow> i \<in> t_local_idx ` set turns"
    using best_entry_max [OF Some] by_speaker_from [of w turns "[]"]
    by (cases e) (auto simp: best_speaker_def Some image_subset_iff)
qed

text \<open>The label of a word, an utterance or a chunk, when the turns are these.\<close>

definition label_of_turns :: "turn_artifact list \<Rightarrow> int option \<Rightarrow> bool" where
  "label_of_turns turns l \<longleftrightarrow> l \<in> insert None (Some ` t_local_idx ` set turns)"

lemma assigned_from_turns:
  assumes "\<forall>w \<in> set ws. w_local_idx w = None" and "w \<in> set (assign_speakers turns ws)"
  shows "label_of_turns turns (w_local_idx w)"
  using assms by (auto simp: assign_speakers_def label_of_turns_def split: if_splits)
    (metis best_speaker_from imageI not_None_eq)

text \<open>Filler removal keeps words as they are, so merged words have the labels of turns, and one each if it can be.\<close>

lemma cleaned_words: "w \<in> set (snd (clean alnum f ws)) \<Longrightarrow> w \<in> set ws"
  by (auto simp: clean_def Let_def split: if_splits)

lemma merged_from_turns:
  "\<forall>w \<in> set (merged_words W cfg (map (\<lambda>w. w\<lparr>w_local_idx := None\<rparr>) ws) turns). label_of_turns turns (w_local_idx w)"
  unfolding merged_words_def by (rule ballI, rule assigned_from_turns [rotated]) (auto dest!: cleaned_words)

lemma merged_labelled:
  assumes "turns \<noteq> []" "\<forall>t \<in> set turns. time_ok (t_start_ms t) (t_end_ms t)"
    "\<forall>w \<in> set ws. time_ok (w_start_ms w) (w_end_ms w)"
    and "w \<in> set (merged_words W cfg (map (\<lambda>w. w\<lparr>w_local_idx := None\<rparr>) ws) turns)"
  shows "w_local_idx w \<noteq> None"
proof -
  obtain v where v: "v \<in> set ws" "w_local_idx w = best_speaker turns (v\<lparr>w_local_idx := None\<rparr>)"
    using assms(1,4) by (auto simp: merged_words_def assign_speakers_def dest!: cleaned_words)
  then show ?thesis using best_speaker_assigned [OF assms(1) _ assms(2), of "v\<lparr>w_local_idx := None\<rparr>"] assms(3) by auto
qed

section \<open>What a stage does to the labels\<close>

lemma blank_text_fields: "blank_text u = blank_text v \<Longrightarrow> g_local_idx u = g_local_idx v \<and> g_words u = g_words v"
proof -
  assume "blank_text u = blank_text v"
  then have "g_local_idx (blank_text u) = g_local_idx (blank_text v)" "g_words (blank_text u) = g_words (blank_text v)" by simp_all
  then show ?thesis by (simp add: blank_text_def)
qed

lemma corrected_utterance:
  assumes "u \<in> set (snd (correct_names c p m ns us))"
  shows "\<exists>v \<in> set us. g_local_idx u = g_local_idx v \<and> g_words u = g_words v"
proof -
  have frame: "map blank_text (snd (correct_names c p m ns us)) = map blank_text us"
    by (auto simp: correct_names_def Let_def split: sum.splits option.splits)
      (metis apply_corrections_frame prod.collapse)
  have "blank_text u \<in> set (map blank_text (snd (correct_names c p m ns us)))" using assms by simp
  then show ?thesis unfolding frame by (auto dest: blank_text_fields)
qed

lemma grouped_one_voice:
  assumes "u \<in> set (group_into_utterances ws)"
  shows "g_words u \<noteq> [] \<and> set (g_words u) \<subseteq> set ws \<and> (\<forall>w \<in> set (g_words u). w_local_idx w = g_local_idx u)"
proof -
  have "utterance_ok u"
    using assms group_loop_sound [where out = "[]" and cur = None and prev_end = 0 and ws = ws]
    by (simp add: group_into_utterances_def)
  moreover have "set (g_words u) \<subseteq> set (concat (map g_words (group_into_utterances ws)))" using assms by auto
  ultimately show ?thesis by (auto simp: utterance_ok_def group_words)
qed

lemma numbered_utterance:
  "u \<in> set (number_utterances rid i ns) \<Longrightarrow> \<exists>n \<in> set ns. u_local_idx u = n_local_idx n \<and> u_words u = n_words n"
  by (induction rid i ns rule: number_utterances.induct) auto

text \<open>What merging leaves of one recording, given the words it labels.\<close>

definition merged_from :: "word_rec list \<Rightarrow> uuid \<Rightarrow> db \<Rightarrow> bool" where
  "merged_from ws rid d \<longleftrightarrow>
     (\<forall>u \<in> set (utterances d). u_recording_id u = rid \<longrightarrow>
        u_words u \<noteq> [] \<and> set (u_words u) \<subseteq> set ws \<and> (\<forall>w \<in> set (u_words u). w_local_idx w = u_local_idx u))"

lemma merge_run_labels:
  assumes "merge_run W cfg rid d = (Inr (), d')" and "get_transcript d rid = Inr (txt0, ws)"
    and "get_diarization d rid = Inr (turns, n)"
  shows "merged_from (merged_words W cfg ws turns) rid d'" "recording_speakers d' = recording_speakers d"
proof -
  let ?ws = "merged_words W cfg ws turns"
  let ?us = "group_into_utterances ?ws"
  define us' where "us' = (if correct_transcript (llm cfg) then snd (correct_names (chat W) (parse_corrections W)
      (summarize_model (llm cfg)) (map snd (list_recording_speakers d rid)) ?us) else ?us)"
  let ?d1 = "delete_utterances_by_recording rid d"
  have "\<exists>v \<in> set ?us. g_local_idx u = g_local_idx v \<and> g_words u = g_words v" if "u \<in> set us'" for u
    using that corrected_utterance by (auto simp: us'_def split: if_splits)
  then have us': "g_words u \<noteq> [] \<and> set (g_words u) \<subseteq> set ?ws \<and> (\<forall>w \<in> set (g_words u). w_local_idx w = g_local_idx u)"
    if "u \<in> set us'" for u
    using that grouped_one_voice [of _ ?ws] by metis
  have "\<exists>inserted. insert_utterances rid (map to_new_utterance us') ?d1 = Inr (inserted, d')"
    using assms by (auto simp: merge_run_def us'_def Let_def split: sum.splits prod.splits if_splits)
  then have tab: "utterances d' = utterances ?d1 @ number_utterances rid (next_utterance_id ?d1) (map to_new_utterance us')"
    "recording_speakers d' = recording_speakers ?d1"
    by (auto simp: insert_utterances_def split: if_splits)
  have "\<exists>g \<in> set us'. u_local_idx u = g_local_idx g \<and> u_words u = g_words g"
    if "u \<in> set (utterances d')" "u_recording_id u = rid" for u
    using that numbered_utterance [of u rid "next_utterance_id ?d1" "map to_new_utterance us'"]
    by (fastforce simp: tab(1) delete_utterances_by_recording_def delete_where_def to_new_utterance_def)
  then show "merged_from ?ws rid d'" unfolding merged_from_def using us' by metis
  show "recording_speakers d' = recording_speakers d" by (simp add: tab(2) delete_utterances_by_recording_def)
qed

lemma window_loop_label: "c \<in> set (window_loop u s) \<Longrightarrow> pc_local_idx c = u_local_idx u"
proof (induction u s rule: window_loop.induct)
  case (1 u s)
  then show ?case
    by (subst (asm) (2) window_loop.simps) (auto simp: Let_def window_chunk_def split: if_splits list.splits)
qed

lemma pending_label: "c \<in> set (build_chunks us) \<Longrightarrow> \<exists>u \<in> set us. pc_local_idx c = u_local_idx u"
  by (induction us rule: build_chunks.induct)
    (auto simp: Let_def window_utterance_def dest: window_loop_label split: if_splits)

text \<open>The chunks of a recording repeat labels of its transcript.\<close>

definition chunk_labels :: "uuid \<Rightarrow> db \<Rightarrow> bool" where
  "chunk_labels rid d \<longleftrightarrow>
     (\<forall>c \<in> set (chunks d). c_recording_id c = rid \<longrightarrow>
        (\<exists>u \<in> set (utterances d). u_recording_id u = rid \<and> c_local_idx c = u_local_idx u))"

lemma listed_utterance:
  "u \<in> set (list_utterances_by_recording d rid) \<Longrightarrow>
     \<exists>v \<in> set (utterances d). u_recording_id v = rid \<and> u_local_idx u = u_local_idx v"
  by (auto simp: list_utterances_by_recording_def utterance_from_row_def)

lemma inserted_chunks:
  assumes "insert_chunks rid cs d = Inr (n, d')"
  shows "chunks d' = chunks d @ map (\<lambda>c. c\<lparr>c_recording_id := rid\<rparr>) cs" "utterances d' = utterances d"
    "recording_speakers d' = recording_speakers d"
  using assms by (auto simp: insert_chunks_def split: if_splits)

lemma embed_run_labels:
  assumes "embed_run W rid d = (Inr (), d')"
  shows "utterances d' = utterances d" "recording_speakers d' = recording_speakers d" "chunk_labels rid d'"
proof -
  let ?p = "build_chunks (list_utterances_by_recording d rid)" and ?d1 = "delete_chunks_by_recording rid d"
  consider "d' = ?d1" | vs n where "insert_chunks rid (map (\<lambda>(c, v). \<lparr>c_recording_id = rid, c_start_ms = Some (pc_start_ms c),
      c_end_ms = Some (pc_end_ms c), c_local_idx = pc_local_idx c, c_text = pc_text c, c_embedding = v\<rparr>) (zip ?p vs)) ?d1 = Inr (n, d')"
    using assms by (auto simp: embed_run_def Let_def split: sum.splits prod.splits if_splits)
  then obtain new where tab: "chunks d' = chunks ?d1 @ new" "utterances d' = utterances ?d1"
      "recording_speakers d' = recording_speakers ?d1"
    and new: "\<forall>c \<in> set new. \<exists>p \<in> set ?p. c_local_idx c = pc_local_idx p"
  proof cases
    case 1
    then show ?thesis by (intro that [of "[]"]) simp_all
  next
    case 2
    show ?thesis by (rule that [OF inserted_chunks [OF 2]]) (auto dest: set_zip_leftD)
  qed
  have "\<exists>v \<in> set (utterances d). u_recording_id v = rid \<and> c_local_idx c = u_local_idx v" if "c \<in> set new" for c
    using that new pending_label listed_utterance by metis
  then show "chunk_labels rid d'"
    by (auto simp: chunk_labels_def tab delete_chunks_by_recording_def delete_where_def)
  show "utterances d' = utterances d" "recording_speakers d' = recording_speakers d"
    by (simp_all add: tab delete_chunks_by_recording_def)
qed

section \<open>The stages around them\<close>

text \<open>What the labels depend on.\<close>

definition same_labels :: "db \<Rightarrow> db \<Rightarrow> bool" where
  "same_labels d d' \<longleftrightarrow> recording_speakers d' = recording_speakers d \<and> utterances d' = utterances d \<and> chunks d' = chunks d"

lemma same_labels_refl [simp]: "same_labels d d"
  by (simp add: same_labels_def)

lemma update_recording_labels: "update_recording rid f d = Inr d' \<Longrightarrow> same_labels d d' \<and> artifacts d' = artifacts d"
  by (auto simp: update_recording_def not_found_if_zero_def same_labels_def split: if_splits)

lemma put_artifact_labels: "put_artifact now rid kind data d = Inr d' \<Longrightarrow> same_labels d d'"
  by (auto simp: put_artifact_def same_labels_def Let_def split: if_splits)

lemma status_labels: "set_recording_status rid st d = Inr d' \<Longrightarrow> same_labels d d'"
  by (auto simp: set_recording_status_def dest: update_recording_labels)

lemma transcode_run_labels: "same_labels d (snd (transcode_run W rid d))"
  by (auto simp: transcode_run_def set_recording_storage_key_def set_recording_duration_def Let_def same_labels_def
      split: sum.splits dest!: update_recording_labels)

lemma summarize_run_labels: "same_labels d (snd (summarize_run c pj pr l now rid t d))"
  by (auto simp: summarize_run_def upsert_summary_def set_recording_title_auto_def same_labels_def Let_def
      split: sum.splits option.splits if_splits)

lemma transcribe_run_puts:
  assumes "transcribe_run W now rid d = (Inr (), d')"
  obtains txt0 ws where "transcribe W (wav_path (uuid_str W) (blobs W) rid) = Inr (txt0, ws)"
    "get_transcript d' rid = Inr (txt0, map (\<lambda>w. w\<lparr>w_local_idx := None\<rparr>) ws)"
    "get_diarization d' rid = get_diarization d rid" "same_labels d d'"
proof -
  obtain txt0 ws where t: "transcribe W (wav_path (uuid_str W) (blobs W) rid) = Inr (txt0, ws)"
    and p: "put_transcript now rid txt0 (map (\<lambda>w. w\<lparr>w_local_idx := None\<rparr>) ws) d = Inr d'"
    using assms by (auto simp: transcribe_run_def Let_def split: if_splits sum.splits)
  note art = get_put_artifact [OF p [unfolded put_transcript_def]]
  have "get_artifact d' rid KIND_DIARIZATION = get_artifact d rid KIND_DIARIZATION"
    by (rule art(2)) (simp add: KIND_TRANSCRIPT_def KIND_DIARIZATION_def)
  then have "get_diarization d' rid = get_diarization d rid" by (simp add: get_diarization_def)
  moreover have "get_transcript d' rid = Inr (txt0, map (\<lambda>w. w\<lparr>w_local_idx := None\<rparr>) ws)"
    using art(1) by (simp add: get_transcript_def)
  moreover have "same_labels d d'" using p put_artifact_labels by (simp add: put_transcript_def)
  ultimately show ?thesis using that t by blast
qed

lemma stored_speakers_fit: "store_speakers rid embs ids is d = (Inr (), d') \<Longrightarrow> \<forall>i \<in> set is. width_ok VOICE_WIDTH (map_of embs i)"
proof (induction rid embs ids "is" d rule: store_speakers.induct)
  case (2 rid embs ids i "is" d)
  obtain d1 where u: "upsert_recording_speaker rid i (map_option fst (map_of ids i)) (map_of embs i) d = Inr d1"
    and r: "store_speakers rid embs ids is d1 = (Inr (), d')"
    using "2.prems" by (cases "upsert_recording_speaker rid i (map_option fst (map_of ids i)) (map_of embs i) d") simp_all
  have "width_ok VOICE_WIDTH (map_of embs i)"
    using u by (simp add: upsert_recording_speaker_def Let_def split: if_splits)
  then show ?case using "2.IH" [OF u r] by simp
qed simp

lemma diarize_run_voices:
  assumes "diarize_run F env exists eng wav now rid d = (Inr (), d')" and "distinct (map rs_key (recording_speakers d))"
  obtains n dz where "eng wav n = Inr dz"
    "rs_local_idx ` {s \<in> set (recording_speakers d'). rs_recording_id s = rid} = t_local_idx ` set (dz_turns dz)"
    "get_diarization d' rid = Inr (dz_turns dz, dz_num_speakers dz)"
proof -
  obtain r dz where g: "get_recording d rid = Inr r" "exists wav" "eng wav (rec_participants_expected r) = Inr dz"
    using assms(1) by (auto simp: diarize_run_def split: if_splits sum.splits)
  let ?spk = "sort (remdups (map t_local_idx (dz_turns dz)))"
  obtain ids d1 where "store_speakers rid (dz_embeddings dz) ids ?spk d = (Inr (), d1)"
    using assms(1) g by (auto simp: diarize_run_def Let_def split: sum.splits prod.splits)
  from stored_speakers_fit [OF this]
  have fit: "\<forall>t \<in> set (dz_turns dz). width_ok VOICE_WIDTH (map_of (dz_embeddings dz) (t_local_idx t))" by simp
  from diarize_run_rows [where exists = exists and diarize = eng, OF g assms(2) fit, of F env now] assms(1) obtain who where
    rows: "{s \<in> set (recording_speakers d'). rs_recording_id s = rid} =
      (\<lambda>i. \<lparr>rs_recording_id = rid, rs_local_idx = i, rs_speaker_id = who i,
            rs_embedding = map_of (dz_embeddings dz) i\<rparr>) ` t_local_idx ` set (dz_turns dz)"
    and art: "get_diarization d' rid = Inr (dz_turns dz, dz_num_speakers dz)" by auto
  have "rs_local_idx ` {s \<in> set (recording_speakers d'). rs_recording_id s = rid} = t_local_idx ` set (dz_turns dz)"
    unfolding rows by (simp add: image_image)
  then show ?thesis using that g(3) art by blast
qed

section \<open>The inline run\<close>

lemma inline_step:
  "inline_stages stage rid (k # ks) d = (Finished (Inr ()), d') \<Longrightarrow>
     \<exists>d1. stage k rid empty_payload d = (Finished (Inr ()), d1) \<and> inline_stages stage rid ks d1 = (Finished (Inr ()), d')"
  by (auto split: prod.splits stage_exit.splits sum.splits)

lemma inline_run_stages:
  assumes "process_recording_inline load (run_stage W cfg now) rid d = (Finished (Inr ()), d')"
  obtains d1 d2 d3 d4 d5 d6 where "same_labels d d1" "same_labels d1 d2"
    "diarize_run (floats W) (ident_env cfg) (path_exists W) (diarize W) (wav_path (uuid_str W) (blobs W) rid) now rid d2 = (Inr (), d3)"
    "transcribe_run W now rid d3 = (Inr (), d4)" "merge_run W cfg rid d4 = (Inr (), d5)"
    "embed_run W rid d5 = (Inr (), d6)" "same_labels d6 d'"
proof -
  obtain d1 d7 where d1: "set_recording_status rid Processing d = Inr d1"
    and run: "inline_stages (run_stage W cfg now) rid INLINE_ORDER d1 = (Finished (Inr ()), d7)"
    and fin: "set_recording_status rid Ready d7 = Inr d'"
    using assms by (auto simp: process_recording_inline_def split: sum.splits prod.splits stage_exit.splits)
  from run [unfolded INLINE_ORDER_def] obtain d2 d3 d4 d5 d6 where
    s: "run_stage W cfg now Transcode rid empty_payload d1 = (Finished (Inr ()), d2)"
      "run_stage W cfg now Diarize rid empty_payload d2 = (Finished (Inr ()), d3)"
      "run_stage W cfg now Transcribe rid empty_payload d3 = (Finished (Inr ()), d4)"
      "run_stage W cfg now Merge rid empty_payload d4 = (Finished (Inr ()), d5)"
      "run_stage W cfg now Embed rid empty_payload d5 = (Finished (Inr ()), d6)"
      "run_stage W cfg now Summarize rid empty_payload d6 = (Finished (Inr ()), d7)"
    by (force dest!: inline_step)
  have "same_labels d1 d2"
    using s(1) transcode_run_labels [of d1 W rid] by (auto simp: run_stage_def finished_def)
  moreover have "same_labels d6 d7"
    using s(6) summarize_run_labels [of d6 "chat W" "parse_json W" "print_json W" "llm cfg" now rid "summarize_template (llm cfg) empty_payload"]
    by (auto simp: run_stage_def finished_def)
  then have "same_labels d6 d'" using status_labels [OF fin] by (simp add: same_labels_def)
  moreover have "embed_run W rid d5 = (Inr (), d6)"
    using s(5) by (auto simp: run_stage_def finished_def prod_eq_iff split: sum.splits)
  ultimately show ?thesis using that [OF status_labels [OF d1]] s(2-4)
    by (auto simp: run_stage_def finished_def prod_eq_iff)
qed

text \<open>The order of the stages is one the stage graph allows, so with working engines the run succeeds.\<close>

fun stage_order_ok :: "job_kind set \<Rightarrow> job_kind list \<Rightarrow> bool" where
  "stage_order_ok D [] \<longleftrightarrow> True"
| "stage_order_ok D (k # ks) \<longleftrightarrow> k \<noteq> TranscribeSegment \<and> set (predecessors k) \<subseteq> D \<and> stage_order_ok (insert k D) ks"

lemma inline_order_ok: "stage_order_ok {} INLINE_ORDER"
  by (simp add: INLINE_ORDER_def)

context productive_stages
begin

lemma inline_stages_succeed:
  assumes "able" and "stage_order_ok D ks" and "\<forall>p \<in> D. made d rid p" and "has_recording d rid"
  shows "\<exists>d'. inline_stages stage rid ks d = (Finished (Inr ()), d') \<and> has_recording d' rid"
  using assms(2-4)
proof (induction ks arbitrary: D d)
  case (Cons k ks)
  have "\<forall>p \<in> set (predecessors k). made d rid p" using Cons.prems(1,2) by auto
  with runs [OF assms(1) Cons.prems(3)] Cons.prems(1) obtain d1 where
    d1: "stage k rid empty_payload d = (Finished (Inr ()), d1)" "made d1 rid k" by fastforce
  have "\<forall>p \<in> insert k D. made d1 rid p"
    using d1 Cons.prems(2) keeps_made [of d rid _ k rid empty_payload] by auto
  then show ?case using Cons.IH [of "insert k D" d1] Cons.prems(1,3) d1(1) stage_has_recording [OF d1(1)] by simp
qed simp

lemma inline_succeeds:
  assumes "able" and "has_recording d rid"
  shows "\<exists>d'. process_recording_inline (Inr ()) stage rid d = (Finished (Inr ()), d')"
proof -
  have st: "\<exists>d'. set_recording_status rid s d = Inr d' \<and> has_recording d' rid" if "has_recording d rid" for s d
  proof -
    have "\<exists>d'. update_recording rid (\<lambda>r. r\<lparr>rec_status := s\<rparr>) d = Inr d'"
      using that by (simp add: update_recording_cases)
    then obtain d' where "update_recording rid (\<lambda>r. r\<lparr>rec_status := s\<rparr>) d = Inr d'" by blast
    then show ?thesis using has_recording_update [of rid "\<lambda>r. r\<lparr>rec_status := s\<rparr>" d d'] that
      by (simp add: set_recording_status_def)
  qed
  obtain d1 where d1: "set_recording_status rid Processing d = Inr d1" "has_recording d1 rid" using st [OF assms(2)] by blast
  obtain d2 where d2: "inline_stages stage rid INLINE_ORDER d1 = (Finished (Inr ()), d2)" "has_recording d2 rid"
    using inline_stages_succeed [OF assms(1) inline_order_ok _ d1(2)] by blast
  obtain d3 where "set_recording_status rid Ready d2 = Inr d3" using st [OF d2(2)] by blast
  then show ?thesis using d1 d2 by (simp add: process_recording_inline_def)
qed

end

text \<open>What a reader may rely on: the label of an utterance, of its words and of its chunks is a stored voice.\<close>

definition labels_known :: "uuid \<Rightarrow> db \<Rightarrow> bool" where
  "labels_known rid d \<longleftrightarrow>
     (\<forall>u \<in> set (utterances d). u_recording_id u = rid \<longrightarrow>
        (\<forall>w \<in> set (u_words u). w_local_idx w = u_local_idx u) \<and>
        (\<forall>i. u_local_idx u = Some i \<longrightarrow> (rid, i) \<in> rs_key ` set (recording_speakers d))) \<and>
     chunk_labels rid d"

lemma labels_known_mem:
  assumes "merged_from ws rid d" and "\<forall>w \<in> set ws. label_of_turns turns (w_local_idx w)"
    and "rs_local_idx ` {s \<in> set (recording_speakers d). rs_recording_id s = rid} = t_local_idx ` set turns"
    and "u \<in> set (utterances d)" "u_recording_id u = rid" "u_local_idx u = Some i"
  shows "(rid, i) \<in> rs_key ` set (recording_speakers d)"
proof -
  obtain w where w: "w \<in> set ws" "w_local_idx w = Some i"
    using assms(1,4-6) by (metis hd_in_set merged_from_def subsetD)
  then have "i \<in> t_local_idx ` set turns" using assms(2) by (force simp: label_of_turns_def)
  then have "i \<in> rs_local_idx ` {s \<in> set (recording_speakers d). rs_recording_id s = rid}" unfolding assms(3) .
  then show ?thesis by (auto simp: rs_key_def image_iff intro: bexI [rotated])
qed

text \<open>
  C27: a recording that was processed inline to the end reads consistently. Its stored voices are exactly
  those of the turns; the words of an utterance carry the label of the utterance; every label, in the
  transcript and in the chunks for retrieval, names a stored voice. When diarization found any turn and
  instants stay clear of the ends of the \<open>i64\<close> range, no utterance is left without a label.
\<close>

theorem inline_run_labels:
  assumes "process_recording_inline load (run_stage W cfg now) rid d = (Finished (Inr ()), d')"
    and "distinct (map rs_key (recording_speakers d))"
  shows "\<exists>n dz txt0 ws. diarize W (wav_path (uuid_str W) (blobs W) rid) n = Inr dz \<and>
    transcribe W (wav_path (uuid_str W) (blobs W) rid) = Inr (txt0, ws) \<and>
    rs_local_idx ` {s \<in> set (recording_speakers d'). rs_recording_id s = rid} = t_local_idx ` set (dz_turns dz) \<and>
    labels_known rid d' \<and>
    (dz_turns dz \<noteq> [] \<and> (\<forall>t \<in> set (dz_turns dz). time_ok (t_start_ms t) (t_end_ms t)) \<and>
       (\<forall>w \<in> set ws. time_ok (w_start_ms w) (w_end_ms w)) \<longrightarrow>
     (\<forall>u \<in> set (utterances d'). u_recording_id u = rid \<longrightarrow> u_local_idx u \<noteq> None))"
proof -
  obtain d1 d2 d3 d4 d5 d6 where st: "same_labels d d1" "same_labels d1 d2"
    "diarize_run (floats W) (ident_env cfg) (path_exists W) (diarize W) (wav_path (uuid_str W) (blobs W) rid) now rid d2 = (Inr (), d3)"
    "transcribe_run W now rid d3 = (Inr (), d4)" "merge_run W cfg rid d4 = (Inr (), d5)"
    "embed_run W rid d5 = (Inr (), d6)" "same_labels d6 d'"
    using inline_run_stages [OF assms(1)] by blast
  have keys: "distinct (map rs_key (recording_speakers d2))" using assms(2) st(1,2) by (simp add: same_labels_def)
  obtain n dz where dz: "diarize W (wav_path (uuid_str W) (blobs W) rid) n = Inr dz"
    "rs_local_idx ` {s \<in> set (recording_speakers d3). rs_recording_id s = rid} = t_local_idx ` set (dz_turns dz)"
    "get_diarization d3 rid = Inr (dz_turns dz, dz_num_speakers dz)" by (rule diarize_run_voices [OF st(3) keys])
  obtain txt0 ws where
    t: "transcribe W (wav_path (uuid_str W) (blobs W) rid) = Inr (txt0, ws)"
      "get_transcript d4 rid = Inr (txt0, map (\<lambda>w. w\<lparr>w_local_idx := None\<rparr>) ws)"
      "get_diarization d4 rid = get_diarization d3 rid" "same_labels d3 d4" by (rule transcribe_run_puts [OF st(4)])
  let ?ws = "map (\<lambda>w. w\<lparr>w_local_idx := None\<rparr>) ws"
  let ?merged = "merged_words W cfg ?ws (dz_turns dz)"
  note m = merge_run_labels [OF st(5) t(2) t(3) [unfolded dz(3)]] and e = embed_run_labels [OF st(6)]
  have rows: "rs_local_idx ` {s \<in> set (recording_speakers d'). rs_recording_id s = rid} = t_local_idx ` set (dz_turns dz)"
    using dz(2) t(4) m(2) e(2) st(7) by (simp add: same_labels_def)
  have mf: "merged_from ?merged rid d'" using m(1) e(1) st(7) by (simp add: merged_from_def same_labels_def)
  have "chunk_labels rid d'" using e(3) st(7) by (simp add: chunk_labels_def same_labels_def)
  moreover have "(rid, i) \<in> rs_key ` set (recording_speakers d')"
    if "u \<in> set (utterances d')" "u_recording_id u = rid" "u_local_idx u = Some i" for u i
    using labels_known_mem [OF mf merged_from_turns rows that] by blast
  ultimately have "labels_known rid d'" using mf by (simp add: labels_known_def merged_from_def)
  moreover have "u_local_idx u \<noteq> None"
    if "dz_turns dz \<noteq> []" "\<forall>t \<in> set (dz_turns dz). time_ok (t_start_ms t) (t_end_ms t)"
      "\<forall>w \<in> set ws. time_ok (w_start_ms w) (w_end_ms w)" "u \<in> set (utterances d')" "u_recording_id u = rid" for u
  proof -
    have "u_words u \<noteq> []" "set (u_words u) \<subseteq> set ?merged" "\<forall>w \<in> set (u_words u). w_local_idx w = u_local_idx u"
      using mf that(4,5) by (simp_all add: merged_from_def)
    moreover from this have "hd (u_words u) \<in> set ?merged" by (meson hd_in_set subsetD)
    ultimately show ?thesis using merged_labelled [OF that(1-3), of "hd (u_words u)" W cfg] by (metis hd_in_set)
  qed
  ultimately show ?thesis using dz(1) t(1) rows
    by (intro exI [of _ n] exI [of _ dz] exI [of _ txt0] exI [of _ ws] conjI) simp_all
qed

text \<open>An instance: the engines of \<open>demo_world\<close> find one voice and no words.\<close>

theorem inline_run_labels_witness:
  "\<exists>d'. process_recording_inline (Inr ()) (run_stage demo_world demo_config 1) 7 sample_db = (Finished (Inr ()), d') \<and>
     rs_local_idx ` {s \<in> set (recording_speakers d'). rs_recording_id s = 7} = {0} \<and> labels_known 7 d'"
proof -
  have r: "has_recording sample_db 7" by (simp add: has_recording_def sample_db_def sample_recording_def)
  obtain d' where run: "process_recording_inline (Inr ()) (run_stage demo_world demo_config 1) 7 sample_db = (Finished (Inr ()), d')"
    using pipeline.inline_succeeds [OF demo_healthy r] by blast
  have "distinct (map rs_key (recording_speakers sample_db))" by (simp add: sample_db_def empty_db_def)
  from inline_run_labels [OF run this] obtain n dz where
    "diarize demo_world (wav_path (uuid_str demo_world) (blobs demo_world) 7) n = Inr dz"
    "rs_local_idx ` {s \<in> set (recording_speakers d'). rs_recording_id s = 7} = t_local_idx ` set (dz_turns dz)"
    "labels_known 7 d'" by blast
  then show ?thesis using run by (auto simp: demo_world_def demo_dz_def)
qed

end
