(* ===== verification/Scribe_Vectors.thy ===== *)
theory Scribe_Vectors
  imports Scribe_Native Scribe_Labels
begin

text \<open>
  Vectors and the columns that hold them: what the embed stage of
  \<open>crates/scribe-pipeline/src/stages/embed.rs\<close> relies on in an embedder, as an interface with the
  dependency-free embedder as its instance, and the widths of everything that is stored.
\<close>

section \<open>The interface of a text embedder\<close>

text \<open>One vector per text, all of one width: what \<open>Embedder::embed\<close> promises the embed stage and the search.\<close>

locale text_embedder =
  fixes embed_texts :: "rstr list \<Rightarrow> f32 list list res" and width :: nat
  assumes one_each: "embed_texts ts = Inr vs \<Longrightarrow> length vs = length ts"
    and of_width: "embed_texts ts = Inr vs \<Longrightarrow> v \<in> set vs \<Longrightarrow> length v = width"
begin

text \<open>The query of a search is embedded at the width of the chunks.\<close>

lemma query_width: "embedder W = embed_texts \<Longrightarrow> embed_one W t = Inr v \<Longrightarrow> length v = width"
  using of_width [of "[t]"] by (auto simp: embed_one_def split: sum.splits if_splits)

lemma query_answered: "embedder W = embed_texts \<Longrightarrow> embed_texts [t] = Inr vs \<Longrightarrow> \<exists>v. embed_one W t = Inr v"
  using one_each [of "[t]" vs] by (cases vs) (auto simp: embed_one_def)

text \<open>The stage fails only where the embedder does, provided the width is that of the column.\<close>

lemma embed_stage_stores:
  assumes "embedder W = embed_texts" and "width = CHUNK_WIDTH" and "has_recording d rid"
    and "embed_texts (map pc_text (build_chunks (list_utterances_by_recording d rid))) = Inr vs"
  shows "\<exists>d'. embed_run W rid d = (Inr (), d') \<and>
    map c_text (filter (\<lambda>c. c_recording_id c = rid) (chunks d')) = map pc_text (build_chunks (list_utterances_by_recording d rid))"
proof (cases "build_chunks (list_utterances_by_recording d rid) = []")
  case True
  then show ?thesis by (simp add: embed_run_def chunks_of_delete)
next
  case False
  have n: "length vs = length (build_chunks (list_utterances_by_recording d rid))" using one_each [OF assms(4)] by simp
  have w: "\<forall>v \<in> set vs. length v = CHUNK_WIDTH" using of_width [OF assms(4)] assms(2) by blast
  obtain new where "map c_text new = map pc_text (build_chunks (list_utterances_by_recording d rid))"
    "\<forall>c \<in> set new. c_recording_id c = rid"
    "embed_run W rid d = (Inr (), (delete_chunks_by_recording rid d)\<lparr>chunks := chunks (delete_chunks_by_recording rid d) @ new\<rparr>)"
    using embed_run_stores [OF assms(3) refl False assms(4) [folded assms(1)] n w refl] by blast
  moreover from this have "filter (\<lambda>c. c_recording_id c = rid) new = new" by (simp add: filter_id_conv)
  ultimately show ?thesis by (simp add: chunks_of_delete)
qed

lemma other_width_loses_chunks:
  assumes "embedder W = embed_texts" and "width \<noteq> CHUNK_WIDTH" and "has_recording d rid"
    and "build_chunks (list_utterances_by_recording d rid) \<noteq> []"
    and "embed_texts (map pc_text (build_chunks (list_utterances_by_recording d rid))) = Inr vs"
  shows "embed_run W rid d = (Inl Database, delete_chunks_by_recording rid d)"
proof -
  have n: "length vs = length (build_chunks (list_utterances_by_recording d rid))" using one_each [OF assms(5)] by simp
  then obtain v where v: "v \<in> set vs" using assms(4) by (cases vs) auto
  then have "length v \<noteq> CHUNK_WIDTH" using of_width [OF assms(5)] assms(2) by blast
  then show ?thesis by (rule wrong_width_loses_chunks [OF assms(3,4) assms(5) [folded assms(1)] n v])
qed

end

interpretation hashed: text_embedder "hash_embed alnum stable_hash over_norm as_is dims" "hash_embedder_dim dims"
  for alnum stable_hash over_norm as_is dims
  by unfold_locales (auto dest: hash_embed_width)

text \<open>
  The check at start-up compares the embedder with the configuration, not with the column: a configuration
  of 1024 dimensions passes it, and then every embed stage with anything to embed fails and takes
  the old chunks of the recording with it.
\<close>

lemma configured_width_not_column:
  assumes "embedder W = hash_embed alnum stable_hash over_norm as_is 1024" and "has_recording d rid"
    and "build_chunks (list_utterances_by_recording d rid) \<noteq> []"
  shows "build_embedder None 1024 = Inr 1024" "embed_run W rid d = (Inl Database, delete_chunks_by_recording rid d)"
proof -
  show "build_embedder None 1024 = Inr 1024" by (simp add: build_embedder_def hash_embedder_dim_def)
  show "embed_run W rid d = (Inl Database, delete_chunks_by_recording rid d)"
    by (rule hashed.other_width_loses_chunks [OF assms(1) _ assms(2,3)])
      (simp_all add: hash_embedder_dim_def CHUNK_WIDTH_def hash_embed_def)
qed

section \<open>The stub engine fits the schema\<close>

lemma stub_voices_fit:
  "width_ok VOICE_WIDTH (map_of (dz_embeddings (stub_diarize (deterministic_embedding F to_unit) ms expected)) i)"
  using stub_voice_widths [where F = F and to_unit = to_unit and ms = ms and expected = expected]
  by (auto simp: width_ok_def VOICE_WIDTH_def EMBEDDING_DIM_def split: option.split dest!: map_of_SomeD)

section \<open>Every stored vector has the width of its column\<close>

definition vectors_ok :: "db \<Rightarrow> bool" where
  "vectors_ok d \<longleftrightarrow> (\<forall>s \<in> set (speakers d). width_ok VOICE_WIDTH (sp_embedding s)) \<and>
     (\<forall>s \<in> set (recording_speakers d). width_ok VOICE_WIDTH (rs_embedding s)) \<and>
     (\<forall>c \<in> set (chunks d). length (c_embedding c) = CHUNK_WIDTH)"

lemma vectors_ok_cong:
  "speakers d' = speakers d \<Longrightarrow> recording_speakers d' = recording_speakers d \<Longrightarrow> chunks d' = chunks d \<Longrightarrow> vectors_ok d' = vectors_ok d"
  by (simp add: vectors_ok_def)

lemma set_upsert_subset: "set (upsert key f x xs) \<subseteq> insert x (set xs \<union> f ` set xs)"
  by (induction key f x xs rule: upsert.induct) auto

lemma vectors_ok_statements:
  assumes "vectors_ok d"
  shows "upsert_recording_speaker rid i sid emb d = Inr d1 \<Longrightarrow> vectors_ok d1"
    "create_speaker sid' now name emb d = Inr (s, d2) \<Longrightarrow> vectors_ok d2"
    "set_speaker_embedding sid' e d = Inr d3 \<Longrightarrow> vectors_ok d3"
    "rename_speaker sid' name d = Inr d4 \<Longrightarrow> vectors_ok d4"
    "delete_speaker sid' d = Inr d5 \<Longrightarrow> vectors_ok d5"
    "set_recording_speaker rid i sid d = Inr d6 \<Longrightarrow> vectors_ok d6"
    "delete_recording_speaker rid i d = Inr (n, d7) \<Longrightarrow> vectors_ok d7"
    "insert_chunks rid cs d = Inr (n, d8) \<Longrightarrow> vectors_ok d8"
    "vectors_ok (delete_chunks_by_recording rid d)"
    "vectors_ok (snd (prune_recording_speakers rid ks d))"
proof -
  note W = assms [unfolded vectors_ok_def]
  show "vectors_ok d1" if "upsert_recording_speaker rid i sid emb d = Inr d1"
  proof -
    let ?s = "\<lparr>rs_recording_id = rid, rs_local_idx = i, rs_speaker_id = sid, rs_embedding = emb\<rparr>"
    have emb: "width_ok VOICE_WIDTH emb"
      and d1: "d1 = d\<lparr>recording_speakers := upsert rs_key (replace_rec_speaker ?s) ?s (recording_speakers d)\<rparr>"
      using that by (auto simp: upsert_recording_speaker_def Let_def split: if_splits)
    have "width_ok VOICE_WIDTH (rs_embedding r)" if "r \<in> set (recording_speakers d1)" for r
      using that set_upsert_subset [of rs_key "replace_rec_speaker ?s" ?s "recording_speakers d"] W emb
      by (auto simp: d1 replace_rec_speaker_def)
    then show ?thesis using W by (simp add: vectors_ok_def d1)
  qed
  show "create_speaker sid' now name emb d = Inr (s, d2) \<Longrightarrow> vectors_ok d2"
    using W by (auto simp: create_speaker_def vectors_ok_def Let_def split: if_splits)
  show "set_speaker_embedding sid' e d = Inr d3 \<Longrightarrow> vectors_ok d3" "rename_speaker sid' name d = Inr d4 \<Longrightarrow> vectors_ok d4"
    using W by (auto simp: set_speaker_embedding_def rename_speaker_def update_speaker_def not_found_if_zero_def
        update_where_def vectors_ok_def split: if_splits)
  show "delete_speaker sid' d = Inr d5 \<Longrightarrow> vectors_ok d5"
    using W by (auto simp: delete_speaker_def not_found_if_zero_def update_where_def delete_where_def vectors_ok_def split: if_splits)
  show "set_recording_speaker rid i sid d = Inr d6 \<Longrightarrow> vectors_ok d6"
    "delete_recording_speaker rid i d = Inr (n, d7) \<Longrightarrow> vectors_ok d7"
    using W by (auto simp: set_recording_speaker_def delete_recording_speaker_def update_where_def delete_where_def
        vectors_ok_def Let_def split: if_splits)
  show "insert_chunks rid cs d = Inr (n, d8) \<Longrightarrow> vectors_ok d8"
    using W by (auto simp: insert_chunks_def vectors_ok_def list_all_iff split: if_splits)
  show "vectors_ok (delete_chunks_by_recording rid d)" "vectors_ok (snd (prune_recording_speakers rid ks d))"
    using W by (auto simp: delete_chunks_by_recording_def prune_recording_speakers_def delete_where_def vectors_ok_def Let_def)
qed

text \<open>No stage writes a vector of another width: it either stores what fits or fails.\<close>

definition same_vectors :: "db \<Rightarrow> db \<Rightarrow> bool" where
  "same_vectors d d' \<longleftrightarrow> speakers d' = speakers d \<and> recording_speakers d' = recording_speakers d \<and> chunks d' = chunks d"

lemma same_vectors_refl [simp]: "same_vectors d d"
  by (simp add: same_vectors_def)

lemma same_vectors_trans: "same_vectors a b \<Longrightarrow> same_vectors b c \<Longrightarrow> same_vectors a c"
  by (simp add: same_vectors_def)

lemma same_vectors_ok: "same_vectors d d' \<Longrightarrow> vectors_ok d \<Longrightarrow> vectors_ok d'"
  by (simp add: same_vectors_def vectors_ok_def)

lemma vectors_update_recording: "update_recording rid f d = Inr d' \<Longrightarrow> same_vectors d d'"
  by (auto simp: update_recording_def not_found_if_zero_def same_vectors_def split: if_splits)

lemma vectors_put_artifact: "put_artifact now rid kind data d = Inr d' \<Longrightarrow> same_vectors d d'"
  by (auto simp: put_artifact_def same_vectors_def Let_def split: if_splits)

lemma vectors_insert_utterances: "insert_utterances rid us d = Inr (n, d') \<Longrightarrow> same_vectors d d'"
  by (auto simp: insert_utterances_def same_vectors_def split: if_splits)

lemma vectors_simple [simp]:
  "same_vectors d (delete_utterances_by_recording rid d)" "same_vectors d (mark_segment_transcribed now sid a b d)"
  "same_vectors d (snd (set_recording_title_auto rid t d))"
  by (simp_all add: same_vectors_def delete_utterances_by_recording_def mark_segment_transcribed_def set_recording_title_auto_def)

lemma vectors_upsert_summary: "upsert_summary now rid a b c e f g h d = Inr d' \<Longrightarrow> same_vectors d d'"
  by (auto simp: upsert_summary_def same_vectors_def Let_def split: if_splits)

lemma transcode_vectors: "same_vectors d (snd (transcode_run W rid d))"
  by (auto simp: transcode_run_def set_recording_storage_key_def set_recording_duration_def Let_def
      split: sum.splits intro: vectors_update_recording same_vectors_trans)

lemma transcribe_vectors: "same_vectors d (snd (transcribe_run W now rid d))"
  by (auto simp: transcribe_run_def put_transcript_def Let_def split: sum.splits prod.splits intro: vectors_put_artifact)

lemma merge_vectors: "same_vectors d (snd (merge_run W cfg rid d))"
  by (auto simp: merge_run_def Let_def split: sum.splits prod.splits
      intro: same_vectors_trans [OF vectors_simple(1)] vectors_insert_utterances)

lemma summarize_vectors: "same_vectors d (snd (summarize_run c pj pr l now rid t d))"
  by (auto simp: summarize_run_def Let_def split: sum.splits option.splits
      intro: same_vectors_trans [OF _ vectors_simple(3)] vectors_upsert_summary)

lemma live_vectors: "same_vectors d (snd (live_segments W cfg now rid offset ss d))"
proof (induction ss arbitrary: offset d)
  case (Cons s ss)
  have ins: "same_vectors d (snd (live_segments W cfg now rid o' ss (mark_segment_transcribed now (seg_id s) a b d1)))"
    if "insert_utterances rid us d = Inr (n, d1)" for us n d1 o' a b
    using that Cons.IH by (meson vectors_simple(2) vectors_insert_utterances same_vectors_trans)
  show ?case using Cons.IH by (auto simp: Let_def split: sum.splits prod.splits intro: ins)
qed simp

lemma regenerate_vectors: "regenerate c l rid d = Some d' \<Longrightarrow> same_vectors d d'"
  by (auto simp: regenerate_def Let_def split: if_splits option.splits sum.splits)

lemma transcribe_segment_vectors: "same_vectors d (snd (transcribe_segment_run W cfg now rid d))"
proof -
  have live: "live_segments W cfg now rid o' ss d = (x, d1) \<Longrightarrow> same_vectors d d1" for o' ss x d1
    using live_vectors [of d W cfg now rid o' ss] by simp
  show ?thesis
    by (auto simp: transcribe_segment_run_def Let_def split: sum.splits prod.splits option.splits
        dest!: live intro: same_vectors_trans regenerate_vectors)
qed

lemma embed_vectors: "vectors_ok d \<Longrightarrow> vectors_ok (snd (embed_run W rid d))"
  by (auto simp: embed_run_def Let_def vectors_ok_statements(9) split: sum.splits prod.splits
      intro: vectors_ok_statements(8) [OF vectors_ok_statements(9)])

lemma store_vectors: "vectors_ok d \<Longrightarrow> vectors_ok (snd (store_speakers rid embs ids is d))"
proof (induction rid embs ids "is" d rule: store_speakers.induct)
  case (2 rid embs ids i "is" d)
  show ?case
  proof (cases "upsert_recording_speaker rid i (map_option fst (map_of ids i)) (map_of embs i) d")
    case (Inr d1)
    then show ?thesis using "2.IH" [OF Inr vectors_ok_statements(1) [OF "2.prems" Inr]] by simp
  qed (simp add: "2.prems")
qed simp

lemma diarize_vectors: "vectors_ok d \<Longrightarrow> vectors_ok (snd (diarize_run F env ex dz wav now rid d))"
proof -
  assume ok: "vectors_ok d"
  have store: "store_speakers rid e i ks d = (x, d1) \<Longrightarrow> vectors_ok d1" for e i ks x d1
    using store_vectors [OF ok, of rid e i ks] by simp
  have prune: "prune_recording_speakers rid ks d1 = (n, d2) \<Longrightarrow> vectors_ok d1 \<Longrightarrow> vectors_ok d2" for ks d1 n d2
    using vectors_ok_statements(10) [of d1 rid ks] by simp
  have put: "put_diarization now rid ts n d1 = Inr d2 \<Longrightarrow> vectors_ok d1 \<Longrightarrow> vectors_ok d2" for ts n d1 d2
    by (auto simp: put_diarization_def intro: same_vectors_ok [OF vectors_put_artifact])
  show ?thesis using ok
    by (auto simp: diarize_run_def Let_def split: sum.splits prod.splits dest: store intro: prune put)
qed

lemma run_stage_vectors: "vectors_ok d \<Longrightarrow> vectors_ok (snd (run_stage W cfg now kind rid payload d))"
  by (cases kind)
    (simp_all add: run_stage_def finished_def same_vectors_ok [OF transcode_vectors] same_vectors_ok [OF transcribe_vectors]
      same_vectors_ok [OF merge_vectors] same_vectors_ok [OF summarize_vectors] same_vectors_ok [OF transcribe_segment_vectors]
      embed_vectors diarize_vectors split: sum.split)

text \<open>Nor does naming a voice or enrolling a person, which copy or store voice prints.\<close>

lemma enroll_vectors:
  assumes "vectors_ok d"
  shows "vectors_ok (snd (enroll by_name io new_id now name replace_voice d))"
  using assms vectors_ok_statements(2,3) [OF assms]
  by (auto simp: enroll_def split: sum.splits option.splits prod.splits)

lemma name_speaker_vectors:
  assumes "vectors_ok d"
  shows "vectors_ok (snd (name_speaker W by_name nearest new_id now rid i b d))"
proof -
  have pick: "vectors_ok d1" if "pick_identity by_name new_id now b name emb d = Inr (s, d1)" for name emb s d1
    using that assms vectors_ok_statements(2) [OF assms] by (auto simp: pick_identity_def split: option.splits sum.splits)
  have learn: "vectors_ok d2" if "learn_voice nearest b s emb d1 = Inr (x, y, d2)" "vectors_ok d1" for s emb d1 x y d2
    using that vectors_ok_statements(3) [OF that(2)]
    by (auto simp: learn_voice_def Let_def split: option.splits sum.splits if_splits)
  show ?thesis
    using assms by (auto simp: name_speaker_def Let_def split: if_splits option.splits sum.splits prod.splits
        dest: pick learn vectors_ok_statements(6))
qed

end
