(* ===== verification/Spec2Isabelle.thy ===== *)
theory Spec2Isabelle
  imports Scribe_Update Scribe_Control Scribe_Models Scribe_Llm Scribe_Score Scribe_Vectors
begin

text \<open>
  A verification development for Scribe, a self-hosted meeting recorder: a phone uploads audio in segments, a
  server turns it into a diarized transcript with summaries and a search index, and clients read, correct and
  question the result. All sources are below \<open>src/crates\<close>.

  \<^bold>\<open>The program and its parts.\<close> A recording is created and filled by HTTP requests (\<open>scribe-api\<close>). Completing it
  queues its first job in a table of PostgreSQL (\<open>scribe-db\<close>). Workers (\<open>scribe-pipeline\<close>) claim jobs under a
  lease, run one stage, and queue the stages whose predecessors are done: transcode, then diarize and
  transcribe, then merge, then embed and summarize; a side channel transcribes segments while they arrive.
  A reaper returns the jobs of workers that died, and a schedule (\<open>scribe-core\<close>) can hold the heavy stages back
  outside its windows. Stages call the speech engine (\<open>scribe-asr\<close>), the language model and the text embedder
  (\<open>scribe-llm\<close>). The command line (\<open>scribe-cli\<close>) installs models, and the server can replace its own binary
  with a signed package (\<open>scribe-update\<close>).

  \<^bold>\<open>How it is modelled.\<close> The tables are one record \<open>db\<close> of lists of rows (\<open>Scribe_Store\<close>); a statement is a
  function on it that checks the constraints of the migrations and answers an error value or the new tables.
  A handler or a stage returns its result together with the tables as it leaves them, also when it stops
  half-way. Rust text is a list of Unicode scalar values, \<open>Result\<close> a sum with the error on the left, machine
  integers are words where their width matters and \<open>int\<close> elsewhere, a panic is a value of its own. What is not
  in the repository is a parameter: the file system, \<open>ffmpeg\<close>, the engines, the language model, JSON, TOML and
  RFC 3339 readers, hashing and signatures, collations, full-text rank and vector distance, the calendar, and
  floating point where no property needs more; what the code relies on is a named hypothesis that a
  witness shows to be satisfiable. Times and random identifiers are arguments.

  \<^bold>\<open>Theories, in the order they build on each other.\<close>

  \<^item> \<open>Scribe_Prelude\<close>: text and the standard-library functions on it, decimal numbers, keyed tables (locale
    \<open>keyed_table\<close>, written by every \<^verbatim>\<open>ON CONFLICT DO UPDATE\<close>) and step systems (locale \<open>step_system\<close>).
  \<^item> \<open>Scribe_Types\<close> (\<open>scribe-core/src/types.rs\<close>, \<open>error.rs\<close>, \<open>templates.rs\<close>): rows, enumerations and their spelling,
    the stage graph, errors and their status codes.
  \<^item> \<open>Scribe_Schedule\<close> (\<open>schedule.rs\<close>): windows over local time; \<open>decide\<close> refines the policy stated over all
    calendar days, and the announced next change is exact. \<open>Scribe_Gate\<close> (\<open>gate.rs\<close>, window watch of the worker)
    caches it and drops a stage only after the grace period. \<open>Scribe_Control\<close> (\<open>handlers/schedule.rs\<close>) sets
    windows and overrides.
  \<^item> \<open>Scribe_Store\<close> and \<open>Scribe_Queue\<close> (\<open>scribe-db\<close>): tables with cascades and resets; the job queue, claims that
    no other row outranks, idempotent enqueueing, retries with back-off, and a reaper with a finite budget.
  \<^item> \<open>Scribe_Storage\<close>, \<open>Scribe_Merge\<close>, \<open>Scribe_Summarize\<close>, \<open>Scribe_Chunks\<close>, \<open>Scribe_Identity\<close>, \<open>Scribe_Stages\<close>: blob
    layout and the seven stages. Merging keeps every word that is no filler, gives it a speaker who covers
    most of it and groups words within limits; a summary is always stored and its prompt bounded; chunk
    windows cover an utterance; voices are matched one to one; failing stages leave what the next attempt needs.
    A stage that is dropped on the way, because its window closed or its lease was lost, leaves the tables as they were
    after one of its statements (\<open>stage_states\<close>, \<open>stage_dropped\<close>).
  \<^item> \<open>Scribe_Worker\<close>, \<open>Scribe_System\<close>, \<open>Scribe_Drain\<close>: the worker loop and the reaper, a turn with its own instants for
    the claim and for settling; the server as interleaving step relations of any number of workers, crashes, requests
    and reaper passes, with inductive invariants. \<open>step_with K\<close> is the server whose requests queue the kinds \<open>K\<close> directly and
    whose living workers renew their leases in time (\<open>sys_step\<close> for the requests in regular use; with \<open>Embed\<close> in \<open>K\<close> for
    the removal of a voice too); \<open>any_step\<close> drops the assumption on timing and lets a late worker write its failure in the two
    statements of the code. The code's own loops are sequences of these steps; with everything outside working,
    six turns per recording finish it.
  \<^item> \<open>Scribe_Auth\<close>, \<open>Scribe_Api\<close>, \<open>Scribe_Range\<close>, \<open>Scribe_Upload\<close> (\<open>scribe-api\<close>): who is let in, every handler that
    changes a row (all end in reachable states of the server), range requests on 64-bit lengths, and uploads
    through a temporary file that are read back as they were sent; the row is written last, and whether the database takes it is
    an argument.
  \<^item> \<open>Scribe_Search\<close> (\<open>scribe-db/src/search.rs\<close>, \<open>handlers/search.rs\<close>): filters with numbered placeholders, the keyword
    ranking, the rows of the vector index in the order its scan yields them (\<open>vec_scan\<close>, which need be neither exact nor
    complete), their fusion (locale \<open>ordered_rows\<close>, provided by the rankings the statements compute), and the
    question prompt. \<open>Scribe_Mcp\<close> (\<open>mcp.rs\<close>): JSON-RPC messages, the tool table and the tools. \<open>Scribe_Llm\<close> (\<open>scribe-llm\<close>):
    the chat client of both kinds of server and the hash embedder.
  \<^item> \<open>Scribe_Commands\<close> (\<open>scribe-pipeline/src/lib.rs\<close>, \<open>scribe-core/src/config.rs\<close>): ingest, enrolment and the computed settings.
  \<^item> \<open>Scribe_Cluster\<close>, \<open>Scribe_Voices\<close> (\<open>scribe-asr/src/real/diarize.rs\<close>): average-linkage clustering over an arithmetic
    that is \<open>f32\<close> in the code, the choice of the number of speakers, windows, splitting at silence, the
    fragment cache and the assembly of turns, with every error on the way and the one panic. \<open>Scribe_Wav\<close> (\<open>wav.rs\<close>) reads audio bytes; \<open>Scribe_Asr\<close> (\<open>real/asr.rs\<close>) cuts it into windows,
    repeats passes and recovers gaps. \<open>Scribe_Models\<close> (\<open>models.rs\<close>, \<open>engine.rs\<close>, \<open>stub.rs\<close>, \<open>scribe-cli/src/models.rs\<close>)
    finds and downloads the model files.
  \<^item> \<open>Scribe_Update\<close> (\<open>scribe-update\<close>, \<open>handlers/admin.rs\<close>): packages, signatures, installation with a backup, roll back.
  \<^item> \<open>Scribe_Server\<close> (\<open>scribe-api/src/lib.rs\<close>, \<open>error.rs\<close>, \<open>handlers/health.rs\<close>): the route table, the middlewares and one
    request from its path to its answer; no two routes overlap, and no request leaves the reachable states.
    \<open>Scribe_Cli\<close> (\<open>scribe-cli\<close>): every subcommand, the doctor's verdict, and the release keys end to end.
  \<^item> \<open>Scribe_Config\<close> (\<open>config.rs\<close>, \<open>state.rs\<close>, \<open>serve\<close>, \<open>discovery.rs\<close>): the settings with their defaults, the steps of a start,
    and the announcement on the local network. \<open>Scribe_Rows\<close> (\<open>scribe-db/src/row.rs\<close>, \<open>lib.rs\<close>): row decoding, the nearest
    voice, the guard of destructive tests. \<open>Scribe_Engines\<close> (\<open>engines.rs\<close>, \<open>embed.rs\<close>, \<open>stub.rs\<close>): the embedder built on first
    use, the native embedder, the stub's voice prints on 64-bit words. \<open>Scribe_Native\<close> (\<open>real/asr.rs\<close>, \<open>real/embed.rs\<close>,
    \<open>engine.rs\<close>): what the recognizer and the diarizer are configured with, and when loading fails.
  \<^item> \<open>Scribe_Labels\<close>, \<open>Scribe_Vectors\<close>: facts about the stages together. After an inline run every speaker label of the
    transcript and of the chunks names a stored voice; every stored vector has the width of its column (\<open>vectors_ok\<close>,
    kept by the statements and the stages), and the interface of a text embedder (locale \<open>text_embedder\<close>, provided by
    the hash embedder) with what the embed stage does when the width is another.
  \<^item> \<open>Scribe_Score\<close> (the examples \<open>transcript_check.rs\<close>, \<open>diarize_check.rs\<close>, \<open>enroll_check.rs\<close>): the accuracy checks; the
    word error rate counts the fewest edits, and every counted word or frame is counted once.

  \<^bold>\<open>Termination and fuel.\<close> Every loop is a terminating function with a measure of the source's own progress
  (remaining samples, live clusters, unread chunks, shrinking text); none of the model runs on fuel. The worker
  loop itself does not end: it is a list of turns, and that finitely many turns suffice is a theorem.

  \<^bold>\<open>What the properties show.\<close> In the order of the manifest: the pipeline drains and claims respect its order under
  any interleaving; the code refines the step relation; the queue, the schedule and the stages behave as specified
  on every branch; handlers, search, questions and MCP messages answer as they promise and keep the server
  reachable; the speech engine's outputs are well formed whatever the networks answer; access and updates are
  granted exactly to those who prove themselves. Where the code does less than its comments say, a lemma or
  the statement itself makes the difference visible: a voice removed before merge, a live pass over a missing
  file, a title cut inside a character, gap recovery beyond the window of the model, a page of zero recordings
  that leads back to itself, an engine that does not load with diarization off or with hotwords for Whisper, a
  destructive test that mistakes a socket directory for a database name, a configured width that is not that
  of the column and costs a recording its chunks.

  \<^bold>\<open>Not modelled.\<close> The rounding to half precision in the column of chunk vectors; how figment merges the layers of the configuration and clap reads arguments; connecting,
  migrating and listening (\<open>scribe-db/src/lib.rs\<close>); logging; diagnostic output of the clusterer; the examples that only print
  what a native library answers (\<open>denoise.rs\<close>, \<open>embed_dim.rs\<close>, \<open>embed_len_probe.rs\<close>); tests; the iOS client. They are calls
  of libraries, printing, or outside the Rust program.
\<close>

end
